(* ===== verification/Duck_Prelude.thy ===== *)
theory Duck_Prelude
  imports Complex_Main "HOL-Library.Word" "HOL-Library.AList" "HOL-Library.Multiset"
    "HOL-Library.Signed_Division"
begin

text \<open>
  What every theory of the development shares.

  \<^item> Go's fixed-width types: \<open>byte\<close> and \<open>u32\<close> are words of 8 and 32 bits; Go's \<open>int\<close> (64 bits)
    is \<open>int\<close>, because the counters the program keeps in it (event numbers, byte positions, run
    numbers) grow by one per event or per byte; every conversion to \<open>uint32\<close> is written out.
  \<^item> The calls of \<open>encoding/binary\<close> the program makes (\<open>Uint32\<close> and \<open>PutUint32\<close> in both byte
    orders) and writes into a byte slice at an offset.
  \<^item> Go maps as association lists with distinct keys. The order in which Go iterates over a map is
    not specified, so a definition that iterates takes the iteration order as an argument, and
    \<open>iteration_order\<close> says what an iteration is.
  \<^item> A run-time panic as a value of type \<open>outcome\<close>.
  \<^item> The interface \<open>finite_map\<close> of a finite map, interpreted on the Go maps, and the lemmas its
    clients use.
\<close>

unbundle bit_operations_syntax

named_theorems byte_simps \<open>reading and writing words in byte slices\<close>
named_theorems gomap_simps \<open>Go maps\<close>

type_synonym byte = "8 word"
type_synonym bytes = "8 word list"
type_synonym u32 = "32 word"

section \<open>Definitions\<close>

subsection \<open>Panics\<close>

text \<open>A Go function either returns a value or panics (index out of range, division by zero).\<close>

datatype 'a outcome = Ok 'a | Panic

fun bind_outcome :: "'a outcome \<Rightarrow> ('a \<Rightarrow> 'b outcome) \<Rightarrow> 'b outcome" where
  "bind_outcome (Ok a) f = f a"
| "bind_outcome Panic f = Panic"

text \<open>A program as a whole returns, stops with \<open>log.Fatalf\<close> or \<open>os.Exit\<close>, or crashes with a panic.\<close>

datatype 'a exit = Returns 'a | Fatal string | Crashes

subsection \<open>Strings\<close>

text \<open>\<open>strings.HasPrefix\<close>, \<open>strings.HasSuffix\<close>, \<open>strings.Contains\<close> and \<open>strings.ToLower\<close> on ASCII.\<close>

definition has_prefix :: "string \<Rightarrow> string \<Rightarrow> bool" where
  "has_prefix s pre \<longleftrightarrow> take (length pre) s = pre"

definition has_suffix :: "string \<Rightarrow> string \<Rightarrow> bool" where
  "has_suffix s suf \<longleftrightarrow> length suf \<le> length s \<and> drop (length s - length suf) s = suf"

fun has_infix :: "string \<Rightarrow> string \<Rightarrow> bool" where
  "has_infix [] sub = (sub = [])"
| "has_infix (c # s) sub = (has_prefix (c # s) sub \<or> has_infix s sub)"

definition to_lower :: "string \<Rightarrow> string" where
  "to_lower = map (\<lambda>c. if 65 \<le> (of_char c :: nat) \<and> of_char c \<le> (90 :: nat) then char_of (of_char c + 32 :: nat) else c)"

subsection \<open>Formatting\<close>

text \<open>The decimal digits that \<open>fmt\<close> and \<open>strconv\<close> print for a number (the verb \<open>%d\<close>).\<close>

definition digit_char :: "nat \<Rightarrow> char" where
  "digit_char d = char_of (48 + d)"

fun show_nat :: "nat \<Rightarrow> string" where
  "show_nat n = (if n < 10 then [digit_char n] else show_nat (n div 10) @ [digit_char (n mod 10)])"

definition show_int :: "int \<Rightarrow> string" where
  "show_int i = (if i < 0 then CHR ''-'' # show_nat (nat (- i)) else show_nat (nat i))"

text \<open>The eight hexadecimal digits of the verb \<open>%08x\<close>.\<close>

definition hex_char :: "nat \<Rightarrow> char" where
  "hex_char d = (if d < 10 then digit_char d else char_of (87 + d))"

definition show_hex8 :: "32 word \<Rightarrow> string" where
  "show_hex8 w = map (\<lambda>i. hex_char (unat (drop_bit (4 * i) w) mod 16)) [7, 6, 5, 4, 3, 2, 1, 0]"

subsection \<open>Words in byte slices\<close>

text \<open>\<open>binary.LittleEndian.PutUint32\<close> and \<open>binary.BigEndian.PutUint32\<close>: the four bytes stored.\<close>

definition put_le32 :: "u32 \<Rightarrow> bytes" where
  "put_le32 w = [ucast w, ucast (drop_bit 8 w), ucast (drop_bit 16 w), ucast (drop_bit 24 w)]"

definition put_be32 :: "u32 \<Rightarrow> bytes" where
  "put_be32 w = [ucast (drop_bit 24 w), ucast (drop_bit 16 w), ucast (drop_bit 8 w), ucast w]"

text \<open>\<open>binary.LittleEndian.Uint32\<close> and \<open>binary.BigEndian.Uint32\<close> of four bytes.\<close>

definition le32 :: "byte \<Rightarrow> byte \<Rightarrow> byte \<Rightarrow> byte \<Rightarrow> u32" where
  "le32 a b c d = ucast a OR push_bit 8 (ucast b) OR push_bit 16 (ucast c) OR push_bit 24 (ucast d)"

definition be32 :: "byte \<Rightarrow> byte \<Rightarrow> byte \<Rightarrow> byte \<Rightarrow> u32" where
  "be32 a b c d = le32 d c b a"

text \<open>
  The word at offset \<open>i\<close> of a slice, \<open>Uint32(s[i:i+4])\<close>. The callers check that the offset is in
  range, or model the panic themselves.
\<close>

definition le32_at :: "bytes \<Rightarrow> nat \<Rightarrow> u32" where
  "le32_at s i = le32 (s ! i) (s ! (i + 1)) (s ! (i + 2)) (s ! (i + 3))"

definition be32_at :: "bytes \<Rightarrow> nat \<Rightarrow> u32" where
  "be32_at s i = be32 (s ! i) (s ! (i + 1)) (s ! (i + 2)) (s ! (i + 3))"

text \<open>\<open>copy(s[i:i+len(bs)], bs)\<close>, for a range inside the slice.\<close>

definition put_at :: "nat \<Rightarrow> bytes \<Rightarrow> bytes \<Rightarrow> bytes" where
  "put_at i bs s = take i s @ bs @ drop (i + length bs) s"

text \<open>\<open>binary.LittleEndian.PutUint32(s[i:i+4], w)\<close>.\<close>

definition put_le32_at :: "nat \<Rightarrow> u32 \<Rightarrow> bytes \<Rightarrow> bytes" where
  "put_le32_at i w = put_at i (put_le32 w)"

definition put_be32_at :: "nat \<Rightarrow> u32 \<Rightarrow> bytes \<Rightarrow> bytes" where
  "put_be32_at i w = put_at i (put_be32 w)"

text \<open>A run of little-endian words, the layout of the DATE headers.\<close>

definition words_le :: "u32 list \<Rightarrow> bytes" where
  "words_le ws = concat (map put_le32 ws)"

subsection \<open>Go maps\<close>

type_synonym ('k, 'v) go_map = "('k \<times> 'v) list"

definition gm_empty :: "('k, 'v) go_map" where
  "gm_empty = []"

definition gm_get :: "('k, 'v) go_map \<Rightarrow> 'k \<Rightarrow> 'v option" where
  "gm_get m = map_of m"

definition gm_set :: "'k \<Rightarrow> 'v \<Rightarrow> ('k, 'v) go_map \<Rightarrow> ('k, 'v) go_map" where
  "gm_set k v m = AList.update k v m"

definition gm_delete :: "'k \<Rightarrow> ('k, 'v) go_map \<Rightarrow> ('k, 'v) go_map" where
  "gm_delete k m = AList.delete k m"

definition gm_len :: "('k, 'v) go_map \<Rightarrow> nat" where
  "gm_len m = length m"

definition gm_invar :: "('k, 'v) go_map \<Rightarrow> bool" where
  "gm_invar m \<longleftrightarrow> distinct (map fst m)"

text \<open>The value of \<open>m[k]\<close> with the zero value for a missing key.\<close>

definition gm_get_or :: "'v \<Rightarrow> ('k, 'v) go_map \<Rightarrow> 'k \<Rightarrow> 'v" where
  "gm_get_or d m k = (case gm_get m k of None \<Rightarrow> d | Some v \<Rightarrow> v)"

text \<open>
  One iteration over a map visits every entry exactly once, in an order the language leaves open.
  \<open>ord m\<close> is the list of entries in the order the run-time visits them.
\<close>

type_synonym ('k, 'v) iteration = "('k, 'v) go_map \<Rightarrow> ('k \<times> 'v) list"

definition iteration_order :: "('k, 'v) iteration \<Rightarrow> bool" where
  "iteration_order ord \<longleftrightarrow> (\<forall>m. mset (ord m) = mset m)"

section \<open>Lemmas\<close>

subsection \<open>Decimal digits\<close>

declare show_nat.simps [simp del]

fun read_nat :: "nat \<Rightarrow> string \<Rightarrow> nat" where
  "read_nat acc [] = acc"
| "read_nat acc (c # cs) = read_nat (acc * 10 + (of_char c - 48)) cs"

lemma read_nat_append: "read_nat acc (xs @ ys) = read_nat (read_nat acc xs) ys"
  by (induction acc xs rule: read_nat.induct) auto

lemma of_char_digit: "d < 10 \<Longrightarrow> of_char (digit_char d) = (48 + d :: nat)"
  by (simp add: digit_char_def)

text \<open>Reading the digits back gives the number, so different numbers print differently.\<close>

lemma read_show_nat [simp]: "read_nat 0 (show_nat n) = n"
proof (induction n rule: show_nat.induct)
  case (1 n)
  then show ?case
    by (subst show_nat.simps) (auto simp: read_nat_append of_char_digit)
qed

lemma show_nat_inject [simp]: "show_nat m = show_nat n \<longleftrightarrow> m = n"
  by (metis read_show_nat)

subsection \<open>Words and bytes\<close>

lemma bit_byte_beyond: "8 \<le> n \<Longrightarrow> \<not> bit (a :: byte) n"
  using bit_imp_le_length [of a n] by auto

lemma le32_put [simp]:
  "le32 (ucast w) (ucast (drop_bit 8 w)) (ucast (drop_bit 16 w)) (ucast (drop_bit 24 w)) = w"
proof (rule bit_word_eqI)
  fix n
  assume "n < LENGTH(32)"
  then consider "n < 8" | "8 \<le> n" "n < 16" | "16 \<le> n" "n < 24" | "24 \<le> n" "n < 32"
    by fastforce
  then show "bit (le32 (ucast w) (ucast (drop_bit 8 w)) (ucast (drop_bit 16 w))
      (ucast (drop_bit 24 w))) n = bit w n"
    unfolding le32_def by cases (auto simp: bit_simps)
qed

lemma put_le32_le32 [simp]: "put_le32 (le32 a b c d) = [a, b, c, d]"
  unfolding le32_def put_le32_def
  by (auto intro!: bit_word_eqI simp: bit_simps bit_byte_beyond)

lemma put_be32_rev: "put_be32 w = rev (put_le32 w)"
  by (simp add: put_be32_def put_le32_def)

lemma put_be32_le32 [simp]: "put_be32 (le32 a b c d) = [d, c, b, a]"
  by (simp add: put_be32_rev)

lemma put_le32_be32 [simp]: "put_le32 (be32 a b c d) = [d, c, b, a]"
  by (simp add: be32_def)

lemma length_put_le32 [simp]: "length (put_le32 w) = 4"
  by (simp add: put_le32_def)

lemma length_put_be32 [simp]: "length (put_be32 w) = 4"
  by (simp add: put_be32_def)

lemma length_put_at [simp]: "i + length bs \<le> length s \<Longrightarrow> length (put_at i bs s) = length s"
  by (simp add: put_at_def)

lemma length_put_le32_at [simp]: "i + 4 \<le> length s \<Longrightarrow> length (put_le32_at i w s) = length s"
  by (simp add: put_le32_at_def)

lemma le32_at_put_le32 [byte_simps]: "le32_at (put_le32 w @ s) 0 = w"
  by (simp add: le32_at_def put_le32_def)

lemma be32_at_put_be32 [byte_simps]: "be32_at (put_be32 w @ s) 0 = w"
  by (simp add: be32_at_def be32_def put_be32_def)

lemma le32_at_append_left [byte_simps]: "i + 4 \<le> length s \<Longrightarrow> le32_at (s @ t) i = le32_at s i"
  by (simp add: le32_at_def nth_append)

lemma le32_at_append_right [byte_simps]:
  "length s \<le> i \<Longrightarrow> le32_at (s @ t) i = le32_at t (i - length s)"
  by (auto simp: le32_at_def nth_append dest!: le_Suc_ex)

lemma le32_at_take: "i + 4 \<le> n \<Longrightarrow> i + 4 \<le> length s \<Longrightarrow> le32_at (take n s) i = le32_at s i"
  by (simp add: le32_at_def)

lemma le32_at_drop: "n + i + 4 \<le> length s \<Longrightarrow> le32_at (drop n s) i = le32_at s (n + i)"
  by (simp add: le32_at_def add.assoc)

lemma words_le_Nil [simp]: "words_le [] = []"
  by (simp add: words_le_def)

lemma words_le_Cons [simp]: "words_le (w # ws) = put_le32 w @ words_le ws"
  by (simp add: words_le_def)

lemma words_le_append: "words_le (ws @ vs) = words_le ws @ words_le vs"
  by (simp add: words_le_def)

lemma length_words_le [simp]: "length (words_le ws) = 4 * length ws"
  by (induction ws) auto

lemma le32_at_words_le: "k < length ws \<Longrightarrow> le32_at (words_le ws @ s) (4 * k) = ws ! k"
proof (induction ws arbitrary: k)
  case Nil
  then show ?case by simp
next
  case (Cons w ws)
  then show ?case
    by (cases k) (simp_all add: byte_simps le32_at_append_right)
qed

lemma zero_bytes_words: "replicate (4 * n) 0 = words_le (replicate n 0)"
  by (induction n) (simp_all add: put_le32_def eval_nat_numeral)

lemma put_le32_at_words_le:
  "k < length ws \<Longrightarrow> put_le32_at (4 * k) w (words_le ws @ s) = words_le (ws[k := w]) @ s"
proof (induction ws arbitrary: k)
  case Nil
  then show ?case by simp
next
  case (Cons v ws)
  show ?case
  proof (cases k)
    case 0
    then show ?thesis by (simp add: put_le32_at_def put_at_def)
  next
    case (Suc j)
    with Cons.prems have "j < length ws" by simp
    from Cons.IH [OF this] show ?thesis
      by (simp add: Suc put_le32_at_def put_at_def add.commute)
  qed
qed

text \<open>The conversion \<open>uint32(n)\<close> of a Go \<open>int\<close> that fits loses nothing.\<close>

lemma unat_of_nat_u32: "n < 2 ^ 32 \<Longrightarrow> unat (of_nat n :: u32) = n"
  by (simp add: unsigned_of_nat take_bit_nat_eq_self)

lemma unat_u32_less: "unat (w :: u32) < 2 ^ 32"
  using unsigned_less [of w] by simp

lemma find_unique:
  assumes "x \<in> set xs" "P x" "\<And>y. y \<in> set xs \<Longrightarrow> P y \<Longrightarrow> y = x"
  shows "find P xs = Some x"
proof (cases "find P xs")
  case None
  then show ?thesis using assms(1,2) by (auto simp: find_None_iff)
next
  case (Some y)
  then have "y \<in> set xs" "P y" by (auto simp: find_Some_iff)
  then show ?thesis using assms(3) Some by blast
qed

subsection \<open>Association lists\<close>

lemma length_AList_update:
  "length (AList.update k v m) = (if map_of m k = None then Suc (length m) else length m)"
  by (induction m) (auto split: if_splits)

lemma length_AList_delete:
  "distinct (map fst m) \<Longrightarrow>
   length (AList.delete k m) = (if map_of m k = None then length m else length m - 1)"
proof (induction m)
  case Nil
  then show ?case by simp
next
  case (Cons p m)
  obtain a b where p: "p = (a, b)" by force
  show ?case
  proof (cases "a = k")
    case True
    with Cons.prems p have "map_of m k = None" by (auto simp: map_of_eq_None_iff)
    with Cons p True show ?thesis by simp
  next
    case False
    with Cons p show ?thesis by (auto simp: map_of_eq_None_iff) (metis Suc_pred length_pos_if_in_set list.set_map image_eqI length_map)
  qed
qed

lemma map_of_mset_eq:
  assumes "mset xs = mset ys" and "distinct (map fst ys)"
  shows "map_of xs = map_of ys"
proof -
  have "mset (map fst xs) = mset (map fst ys)"
    using assms(1) by (metis mset_map)
  then have d: "distinct (map fst xs)"
    using assms(2) by (metis distinct_count_atmost_1 set_mset_mset)
  have "set xs = set ys" using assms(1) by (rule mset_eq_setD)
  then show ?thesis using d assms(2) by (simp add: map_of_inject_set)
qed

subsection \<open>The interface of a finite map\<close>

text \<open>
  What the event builders rely on: lookup after an update and after a delete, and the number of
  keys. The size laws its clients use are proved once from them.
\<close>

locale finite_map =
  fixes empty :: "'m"
    and get :: "'m \<Rightarrow> 'k \<Rightarrow> 'v option"
    and set :: "'k \<Rightarrow> 'v \<Rightarrow> 'm \<Rightarrow> 'm"
    and delete :: "'k \<Rightarrow> 'm \<Rightarrow> 'm"
    and len :: "'m \<Rightarrow> nat"
    and invar :: "'m \<Rightarrow> bool"
  assumes get_empty: "get empty k = None"
    and get_set: "invar m \<Longrightarrow> get (set k v m) = (get m)(k := Some v)"
    and get_delete: "invar m \<Longrightarrow> get (delete k m) = (get m)(k := None)"
    and invar_empty: "invar empty"
    and invar_set: "invar m \<Longrightarrow> invar (set k v m)"
    and invar_delete: "invar m \<Longrightarrow> invar (delete k m)"
    and finite_keys: "invar m \<Longrightarrow> finite (dom (get m))"
    and len_card: "invar m \<Longrightarrow> len m = card (dom (get m))"
begin

lemma len_empty: "len empty = 0"
  using len_card [OF invar_empty] get_empty by (simp add: dom_def)

lemma len_set:
  assumes "invar m"
  shows "len (set k v m) = (if get m k = None then Suc (len m) else len m)"
proof -
  have "dom (get (set k v m)) = insert k (dom (get m))"
    using assms by (auto simp: get_set)
  then show ?thesis
    using assms by (auto simp: len_card invar_set finite_keys card_insert_if)
qed

lemma len_delete:
  assumes "invar m" and "get m k \<noteq> None"
  shows "Suc (len (delete k m)) = len m"
proof -
  have "dom (get (delete k m)) = dom (get m) - {k}"
    using assms(1) by (auto simp: get_delete)
  moreover have "k \<in> dom (get m)" using assms(2) by auto
  ultimately show ?thesis
    using assms(1) card_Suc_Diff1 [OF finite_keys [OF assms(1)]]
    by (simp add: len_card invar_delete)
qed

text \<open>A map with as many keys as a finite set it is included in has exactly those keys.\<close>

lemma full_keys:
  assumes "invar m" and "dom (get m) \<subseteq> S" and "finite S"
  shows "len m = card S \<longleftrightarrow> dom (get m) = S"
proof
  assume "len m = card S"
  then have "card (dom (get m)) = card S" using assms(1) by (simp add: len_card)
  then show "dom (get m) = S" using assms(2,3) by (simp add: card_subset_eq)
next
  assume "dom (get m) = S"
  then show "len m = card S" using assms(1) by (simp add: len_card)
qed

lemmas map_laws = get_empty get_set get_delete invar_empty invar_set invar_delete len_empty

end

interpretation gm: finite_map gm_empty gm_get gm_set gm_delete gm_len gm_invar
proof unfold_locales
  show "gm_get gm_empty k = None" for k :: 'k
    by (simp add: gm_get_def gm_empty_def)
  show "gm_get (gm_set k v m) = (gm_get m)(k := Some v)" for k :: 'k and v :: 'v and m
    by (simp add: gm_get_def gm_set_def update_conv' fun_eq_iff)
  show "gm_get (gm_delete k m) = (gm_get m)(k := None)" for k :: 'k and m :: "('k, 'v) go_map"
    by (simp add: gm_get_def gm_delete_def delete_conv' fun_eq_iff)
  show "gm_invar (gm_set k v m)" if "gm_invar m" for k :: 'k and v :: 'v and m
    using that by (simp add: gm_invar_def gm_set_def distinct_update)
  show "gm_invar (gm_delete k m)" if "gm_invar m" for k :: 'k and m :: "('k, 'v) go_map"
    using that by (simp add: gm_invar_def gm_delete_def distinct_delete)
  show "finite (dom (gm_get m))" for m :: "('k, 'v) go_map"
    unfolding gm_get_def by (simp add: finite_dom_map_of)
  show "gm_len m = card (dom (gm_get m))" if "gm_invar m" for m :: "('k, 'v) go_map"
    using that distinct_card [of "map fst m"]
    by (simp add: gm_len_def gm_get_def gm_invar_def dom_map_of_conv_image_fst)
qed (simp_all add: gm_invar_def gm_empty_def)

lemmas [gomap_simps] = gm.get_empty gm.get_set gm.get_delete gm.invar_empty gm.invar_set
  gm.invar_delete gm.len_empty

subsection \<open>Iteration over a map\<close>

lemma iteration_order_id [simp]: "iteration_order (\<lambda>m. m)"
  by (simp add: iteration_order_def)

lemma iteration_order_rev [simp]: "iteration_order rev"
  by (simp add: iteration_order_def)

lemma iteration_length: "iteration_order ord \<Longrightarrow> length (ord m) = gm_len m"
  by (metis gm_len_def iteration_order_def size_mset)

lemma iteration_get: "iteration_order ord \<Longrightarrow> gm_invar m \<Longrightarrow> map_of (ord m) = gm_get m"
  by (auto simp: iteration_order_def gm_get_def gm_invar_def intro: map_of_mset_eq)

lemma iteration_distinct: "iteration_order ord \<Longrightarrow> gm_invar m \<Longrightarrow> distinct (map fst (ord m))"
  unfolding iteration_order_def gm_invar_def by (metis mset_eq_imp_distinct_iff mset_map)

lemma iteration_set: "iteration_order ord \<Longrightarrow> set (ord m) = set m"
  unfolding iteration_order_def by (metis mset_eq_setD)

end
