(* ===== verification/Ring_Buffer.thy ===== *)
theory Ring_Buffer
  imports Duck_Prelude
begin

text \<open>
  The tracking of the slots of the ring buffer, \<open>src/ldcRPC/ringBuffer.go\<close>.

  A slot has an atomic reference count of 32 bits and a gate, a buffered channel of capacity one: it
  holds a token or not. \<open>TryAcquirePosition\<close> waits for the token, with a timer when the timeout is
  not zero: the model returns \<open>AcqWaiting\<close> while neither has happened, and takes as an argument
  whether the \<open>select\<close> took the timer's case.

  The specification is the state machine of the comment on \<open>PositionState\<close>: a slot is free, acquired
  by the writer, or in use by the reader. The locale \<open>slot_protocol\<close> states what the writer and the
  reader of the buffer rely on; the tracking structure implements it.
\<close>

section \<open>Definitions\<close>

text \<open>The value of an \<open>int32\<close> after an addition that may wrap around.\<close>

definition int32 :: "int \<Rightarrow> int" where
  "int32 i = signed_take_bit 31 i"

record PositionState =
  refCount :: int
  writeGate :: bool

record RingBufferTracking =
  positions :: "PositionState list"

definition NewRingBufferTracking :: "nat \<Rightarrow> RingBufferTracking" where
  "NewRingBufferTracking nPositions =
     \<lparr>positions = replicate nPositions \<lparr>refCount = 0, writeGate = True\<rparr>\<rparr>"

definition in_range :: "RingBufferTracking \<Rightarrow> int \<Rightarrow> bool" where
  "in_range r position \<longleftrightarrow> 0 \<le> position \<and> position < int (length (positions r))"

definition set_position :: "int \<Rightarrow> PositionState \<Rightarrow> RingBufferTracking \<Rightarrow> RingBufferTracking" where
  "set_position position p r = r\<lparr>positions := (positions r)[nat position := p]\<rparr>"

definition get_position :: "RingBufferTracking \<Rightarrow> int \<Rightarrow> PositionState" where
  "get_position r position = positions r ! nat position"

datatype acquire_result = AcqOk RingBufferTracking | AcqError string | AcqWaiting

definition TryAcquirePosition :: "RingBufferTracking \<Rightarrow> int \<Rightarrow> int \<Rightarrow> bool \<Rightarrow> acquire_result" where
  "TryAcquirePosition r position timeout timer =
     (if \<not> in_range r position
      then AcqError (''position '' @ show_int position @ '' out of range [0, '' @
             show_nat (length (positions r)) @ '')'')
      else let pos = get_position r position in
        if timeout \<noteq> 0 \<and> timer
        then AcqError (''timeout waiting for buffer position '' @ show_int position @
               '' (refCount: '' @ show_int (refCount pos) @ '')'')
        else if writeGate pos then AcqOk (set_position position (pos\<lparr>writeGate := False\<rparr>) r)
        else AcqWaiting)"

definition MarkPositionInUse :: "RingBufferTracking \<Rightarrow> int \<Rightarrow> RingBufferTracking" where
  "MarkPositionInUse r position =
     (if \<not> in_range r position then r
      else let pos = get_position r position
        in set_position position (pos\<lparr>refCount := int32 (refCount pos + 1)\<rparr>) r)"

text \<open>The non-blocking sends on the gate leave a full gate as it is.\<close>

definition ReleasePosition :: "RingBufferTracking \<Rightarrow> int \<Rightarrow> RingBufferTracking" where
  "ReleasePosition r position =
     (if \<not> in_range r position then r
      else let pos = get_position r position;
               newCount = int32 (refCount pos - 1);
               pos' = pos\<lparr>refCount := newCount\<rparr>
        in set_position position
             (if newCount = 0 then pos'\<lparr>writeGate := True\<rparr>
              else if newCount < 0 then pos'\<lparr>refCount := 0, writeGate := True\<rparr>
              else pos') r)"

definition GetRefCount :: "RingBufferTracking \<Rightarrow> int \<Rightarrow> int" where
  "GetRefCount r position =
     (if \<not> in_range r position then -1 else refCount (get_position r position))"

definition IsPositionInUse :: "RingBufferTracking \<Rightarrow> int \<Rightarrow> bool" where
  "IsPositionInUse r position \<longleftrightarrow> GetRefCount r position > 0"

section \<open>The slot protocol\<close>

datatype slot = Free | Acquired | InUse

text \<open>
  What a writer and a reader rely on: an acquisition succeeds only on a free slot and changes
  nothing else, marking turns the acquired slot into one in use, releasing frees it.
\<close>

locale slot_protocol =
  fixes slot :: "'r \<Rightarrow> int \<Rightarrow> slot"
    and size :: "'r \<Rightarrow> int"
    and invar :: "'r \<Rightarrow> bool"
    and acquire :: "'r \<Rightarrow> int \<Rightarrow> 'r option"
    and mark :: "'r \<Rightarrow> int \<Rightarrow> 'r"
    and release :: "'r \<Rightarrow> int \<Rightarrow> 'r"
  assumes acquire_free: "invar r \<Longrightarrow> acquire r i = Some r' \<Longrightarrow>
      0 \<le> i \<and> i < size r \<and> slot r i = Free \<and> slot r' = (slot r)(i := Acquired) \<and> invar r' \<and> size r' = size r"
    and acquire_succeeds: "invar r \<Longrightarrow> 0 \<le> i \<Longrightarrow> i < size r \<Longrightarrow> slot r i = Free \<Longrightarrow> acquire r i \<noteq> None"
    and mark_acquired: "invar r \<Longrightarrow> 0 \<le> i \<Longrightarrow> i < size r \<Longrightarrow> slot r i = Acquired \<Longrightarrow>
      slot (mark r i) = (slot r)(i := InUse) \<and> invar (mark r i) \<and> size (mark r i) = size r"
    and release_frees: "invar r \<Longrightarrow> 0 \<le> i \<Longrightarrow> i < size r \<Longrightarrow>
      slot (release r i) = (slot r)(i := Free) \<and> invar (release r i) \<and> size (release r i) = size r"
begin

text \<open>A slot that is in use cannot be acquired before it is released.\<close>

lemma in_use_blocks: "invar r \<Longrightarrow> slot r i = InUse \<Longrightarrow> acquire r i = None"
  using acquire_free [of r i] by (cases "acquire r i") auto

text \<open>Releasing a list of slots frees exactly those.\<close>

lemma release_all:
  "invar r \<Longrightarrow> \<forall>i \<in> set is. 0 \<le> i \<and> i < size r \<Longrightarrow>
   slot (foldl release r is) = (\<lambda>i. if i \<in> set is then Free else slot r i) \<and>
   invar (foldl release r is) \<and> size (foldl release r is) = size r"
proof (induction "is" arbitrary: r)
  case Nil
  then show ?case by simp
next
  case (Cons i "is")
  then have r: "slot (release r i) = (slot r)(i := Free)" "invar (release r i)"
    "size (release r i) = size r"
    using release_frees by auto
  then show ?case using Cons.IH [of "release r i"] Cons.prems by (auto simp: fun_eq_iff)
qed

text \<open>The whole life of a slot: acquired, marked and released it is free again.\<close>

lemma life_cycle:
  assumes "invar r" and "acquire r i = Some r'"
  shows "slot (release (mark r' i) i) = slot r"
proof -
  have a: "0 \<le> i" "i < size r'" "slot r i = Free" "slot r' = (slot r)(i := Acquired)" "invar r'"
    using acquire_free [OF assms] by auto
  then have "slot (mark r' i) = (slot r')(i := InUse)" "invar (mark r' i)" "size (mark r' i) = size r'"
    using mark_acquired [of r' i] by auto
  with a release_frees [of "mark r' i" i] show ?thesis by (simp add: fun_eq_iff)
qed

end

text \<open>
  The tracking structure as an implementation: the abstract slot of a position, and the invariant
  that the count is 0 or 1 and that the gate is empty while it is 1.
\<close>

definition slot_of :: "PositionState \<Rightarrow> slot" where
  "slot_of p = (if refCount p > 0 then InUse else if writeGate p then Free else Acquired)"

definition rb_slot :: "RingBufferTracking \<Rightarrow> int \<Rightarrow> slot" where
  "rb_slot r i = (if in_range r i then slot_of (get_position r i) else Free)"

definition rb_invar :: "RingBufferTracking \<Rightarrow> bool" where
  "rb_invar r \<longleftrightarrow> (\<forall>p \<in> set (positions r). refCount p = 0 \<or> (refCount p = 1 \<and> \<not> writeGate p))"

definition rb_size :: "RingBufferTracking \<Rightarrow> int" where
  "rb_size r = int (length (positions r))"

definition rb_acquire :: "RingBufferTracking \<Rightarrow> int \<Rightarrow> RingBufferTracking option" where
  "rb_acquire r i = (case TryAcquirePosition r i 0 False of AcqOk r' \<Rightarrow> Some r' | _ \<Rightarrow> None)"

lemma int32_small [simp]: "int32 0 = 0" "int32 1 = 1" "int32 (-1) = -1"
  by (simp_all add: int32_def)

lemma in_range_set_position [simp]: "in_range (set_position i p r) j = in_range r j"
  by (simp add: in_range_def set_position_def)

lemma length_set_position [simp]: "length (positions (set_position i p r)) = length (positions r)"
  by (simp add: set_position_def)

lemma get_set_position:
  "in_range r i \<Longrightarrow> in_range r j \<Longrightarrow>
   get_position (set_position i p r) j = (if i = j then p else get_position r j)"
  by (auto simp: get_position_def set_position_def in_range_def nth_list_update)

lemma rb_slot_set_position:
  "in_range r i \<Longrightarrow> rb_slot (set_position i p r) = (rb_slot r)(i := slot_of p)"
  by (auto simp: rb_slot_def get_set_position fun_eq_iff)

lemma rb_invar_set_position:
  "rb_invar r \<Longrightarrow> refCount p = 0 \<or> (refCount p = 1 \<and> \<not> writeGate p) \<Longrightarrow> rb_invar (set_position i p r)"
  by (auto simp: rb_invar_def set_position_def dest!: set_update_subset_insert [THEN subsetD])

lemma rb_invar_get:
  "rb_invar r \<Longrightarrow> in_range r i \<Longrightarrow>
   refCount (get_position r i) = 0 \<or> (refCount (get_position r i) = 1 \<and> \<not> writeGate (get_position r i))"
  by (auto simp: rb_invar_def in_range_def get_position_def)

lemma in_range_size: "in_range r i \<longleftrightarrow> 0 \<le> i \<and> i < rb_size r"
  by (simp add: in_range_def rb_size_def)

lemma rb_size_set_position [simp]: "rb_size (set_position i p r) = rb_size r"
  by (simp add: rb_size_def)

lemma rb_slot_in_range: "in_range r i \<Longrightarrow> rb_slot r i = slot_of (get_position r i)"
  by (simp add: rb_slot_def)

lemma TryAcquirePosition_free:
  assumes "rb_invar r" and "TryAcquirePosition r i t timer = AcqOk r'"
  shows "in_range r i \<and> rb_slot r i = Free \<and> rb_slot r' = (rb_slot r)(i := Acquired) \<and> rb_invar r' \<and>
    rb_size r' = rb_size r"
  using assms rb_invar_get [OF assms(1), of i]
  by (auto simp: TryAcquirePosition_def Let_def rb_slot_set_position rb_slot_in_range slot_of_def
      intro: rb_invar_set_position split: if_splits)

lemma MarkPositionInUse_acquired:
  assumes "rb_invar r" and "in_range r i" and "rb_slot r i = Acquired"
  shows "rb_slot (MarkPositionInUse r i) = (rb_slot r)(i := InUse) \<and> rb_invar (MarkPositionInUse r i) \<and>
    rb_size (MarkPositionInUse r i) = rb_size r"
  using assms rb_invar_get [OF assms(1,2)]
  by (auto simp: MarkPositionInUse_def Let_def rb_slot_set_position rb_slot_in_range slot_of_def
      intro!: rb_invar_set_position split: if_splits)

lemma ReleasePosition_frees:
  assumes "rb_invar r" and "in_range r i"
  shows "rb_slot (ReleasePosition r i) = (rb_slot r)(i := Free) \<and> rb_invar (ReleasePosition r i) \<and>
    rb_size (ReleasePosition r i) = rb_size r"
  using assms rb_invar_get [OF assms]
  by (auto simp: ReleasePosition_def Let_def rb_slot_set_position slot_of_def
      intro!: rb_invar_set_position)

interpretation rb: slot_protocol rb_slot rb_size rb_invar rb_acquire MarkPositionInUse ReleasePosition
proof unfold_locales
  show "0 \<le> i \<and> i < rb_size r \<and> rb_slot r i = Free \<and> rb_slot r' = (rb_slot r)(i := Acquired) \<and>
      rb_invar r' \<and> rb_size r' = rb_size r"
    if "rb_invar r" and "rb_acquire r i = Some r'" for r i r'
    using that TryAcquirePosition_free [of r i 0 False r']
    by (auto simp: rb_acquire_def in_range_size split: acquire_result.splits)
  show "rb_acquire r i \<noteq> None"
    if "rb_invar r" and "0 \<le> i" and "i < rb_size r" and "rb_slot r i = Free" for r i
  proof -
    have "in_range r i" using that by (simp add: in_range_size)
    then show ?thesis
      using that rb_invar_get [of r i]
      by (auto simp: rb_acquire_def TryAcquirePosition_def Let_def rb_slot_in_range slot_of_def
          split: if_splits)
  qed
qed (use MarkPositionInUse_acquired ReleasePosition_frees in_range_size in auto)

section \<open>Properties\<close>

lemma rb_invar_New: "rb_invar (NewRingBufferTracking n)"
  by (simp add: rb_invar_def NewRingBufferTracking_def)

lemma rb_slot_New: "rb_slot (NewRingBufferTracking n) i = Free"
  by (auto simp: rb_slot_def in_range_def NewRingBufferTracking_def get_position_def slot_of_def)

lemma rb_size_New [simp]: "rb_size (NewRingBufferTracking n) = int n"
  by (simp add: rb_size_def NewRingBufferTracking_def)

text \<open>
  Acquiring, marking and releasing a slot of a well-formed ring buffer: the acquisition finds it
  free, it then blocks every other acquisition until it is released, and the release restores the
  state of every slot. The reference count stays 0 or 1.
\<close>

theorem ring_slot_life_cycle:
  assumes "rb_invar r" and "TryAcquirePosition r i 0 False = AcqOk r'"
  shows "\<not> IsPositionInUse r i \<and> IsPositionInUse (MarkPositionInUse r' i) i \<and>
    TryAcquirePosition (MarkPositionInUse r' i) i 0 False = AcqWaiting \<and>
    rb_slot (ReleasePosition (MarkPositionInUse r' i) i) = rb_slot r \<and>
    rb_invar (ReleasePosition (MarkPositionInUse r' i) i)"
proof -
  have acq: "rb_acquire r i = Some r'" using assms(2) by (simp add: rb_acquire_def)
  have a: "in_range r i" "in_range r' i" "rb_slot r i = Free" "rb_slot r' i = Acquired" "rb_invar r'"
    using TryAcquirePosition_free [OF assms] by (auto simp: in_range_size)
  then have m: "rb_slot (MarkPositionInUse r' i) i = InUse" "rb_invar (MarkPositionInUse r' i)"
    "in_range (MarkPositionInUse r' i) i"
    using MarkPositionInUse_acquired [of r' i] by (auto simp: in_range_size)
  have "IsPositionInUse q i \<longleftrightarrow> rb_slot q i = InUse" if "in_range q i" for q
    using that by (simp add: IsPositionInUse_def GetRefCount_def rb_slot_def slot_of_def)
  moreover have "TryAcquirePosition (MarkPositionInUse r' i) i 0 False = AcqWaiting"
    using rb.in_use_blocks [OF m(2,1)] m(3)
    by (auto simp: rb_acquire_def TryAcquirePosition_def Let_def split: if_splits)
  ultimately show ?thesis
    using a m rb.life_cycle [OF assms(1) acq] ReleasePosition_frees [OF m(2,3)] by auto
qed

theorem ring_slot_life_cycle_witness:
  "\<exists>r'. TryAcquirePosition (NewRingBufferTracking 3) 2 0 False = AcqOk r' \<and>
     IsPositionInUse (MarkPositionInUse r' 2) 2"
proof -
  obtain r' where r': "TryAcquirePosition (NewRingBufferTracking 3) 2 0 False = AcqOk r'"
    by (simp add: TryAcquirePosition_def in_range_def NewRingBufferTracking_def get_position_def)
  with ring_slot_life_cycle [OF rb_invar_New r'] show ?thesis by blast
qed

end
