(* ===== verification/Duck_Config.thy ===== *)
theory Duck_Config
  imports Duck_Prelude
begin

text \<open>
  The configuration of the detector, from \<open>src/pkg/detectorConfiguration.go\<close>,
  \<open>src/pkg/decoderConfiguration.go\<close> and \<open>src/pkg/configuration.go\<close>.

  The database rows are the structs of \<open>src/pkg/database/models.go\<close>; the \<open>Querier\<close> interface is a
  record of the results its queries return, so that every database failure is an input of the
  model. Go errors are their messages. The connection loop with exponential backoff takes the
  result of every attempt to open and to ping the database as a function of the attempt number and
  returns the list of the delays it sleeps.
\<close>

type_synonym 'a result = "string + 'a"

section \<open>Definitions\<close>

fun bind_result :: "'a result \<Rightarrow> ('a \<Rightarrow> 'b result) \<Rightarrow> 'b result" where
  "bind_result (Inl e) f = Inl e"
| "bind_result (Inr a) f = f a"

subsection \<open>Database rows (models.go)\<close>

text \<open>\<open>sql.NullString\<close>, \<open>sql.NullInt32\<close>, \<open>sql.NullBool\<close>: a value and whether it is not NULL.\<close>

datatype 'a sql_null = SqlNull (nval: 'a) (nvalid: bool)

record db_Gdc =
  gr_ID :: int
  gr_Name :: "string sql_null"
  gr_Hostname :: "string sql_null"
  gr_Ip :: "string sql_null"
  gr_Port :: "int sql_null"
  gr_GrpcPort :: "int sql_null"
  gr_PrometheusPort :: "int sql_null"
  gr_Datapath :: "string sql_null"
  gr_Enabled :: "bool sql_null"
  gr_Writeoutput :: "bool sql_null"
  gr_Decode :: "bool sql_null"

record db_Ldc =
  lr_ID :: int
  lr_Name :: "string sql_null"
  lr_Hostname :: "string sql_null"
  lr_Ip :: "string sql_null"
  lr_GrpcPort :: "int sql_null"
  lr_PrometheusPort :: "int sql_null"
  lr_Enabled :: "bool sql_null"

record db_Equipment =
  er_ID :: int
  er_Type :: "int sql_null"
  er_DeviceIp :: "string sql_null"
  er_HostIp :: "string sql_null"
  er_HostPort :: "int sql_null"
  er_Enabled :: "bool sql_null"
  er_Ldcid :: "int sql_null"

record db_Decoderparam =
  dp_ExtTrigger :: int
  dp_TrgCode1 :: int
  dp_TrgCode2 :: int
  dp_ReadPmts :: "bool sql_null"
  dp_ReadSipms :: "bool sql_null"
  dp_ReadTrigger :: "bool sql_null"
  dp_ReadFibers :: "bool sql_null"
  dp_SplitTrigger :: "bool sql_null"
  dp_NoDb :: "bool sql_null"
  dp_Discard :: "bool sql_null"
  dp_Host :: string
  dp_User :: string
  dp_Passwd :: string
  dp_DbName :: string
  dp_WriteData :: "bool sql_null"
  dp_UseBlosc :: "bool sql_null"
  dp_BloscAlgorithm :: string
  dp_CompressionLevel :: int
  dp_BitShuffle :: string

record db_Duckparam =
  up_Filesize :: int
  up_Experiment :: string
  up_Packetsize :: int
  up_Npacketsinbuffer :: int
  up_Buffertimeout :: int
  up_Equipmentdatach :: int
  up_Receivech :: int
  up_Datach :: int
  up_Metricsch :: int
  up_Tcpconnectionsch :: int
  up_Decoderch :: int
  up_Decoderworkers :: int
  up_Writerch :: int

text \<open>The only \<open>float64\<close> of the configuration is copied and compared, so a rational number stands for it.\<close>

record db_Testdeviceparam =
  tp_EquipmentID :: int
  tp_EventRateMs :: int
  tp_PacketsPerEvent :: int
  tp_PacketSize :: int
  tp_ErrorInjectionRate :: rat
  tp_MaxEvents :: int

subsection \<open>Configuration structs\<close>

record GDCConfiguration =
  gdc_ID :: int
  gdc_IP :: string
  gdc_Port :: int
  gdc_GRPCPort :: int
  gdc_PrometheusPort :: int
  gdc_Name :: string
  gdc_Host :: string
  gdc_Path :: string
  gdc_Enabled :: bool
  gdc_WriteOutput :: bool
  gdc_Decode :: bool

record Equipment =
  eq_ID :: int
  eq_Type :: int
  eq_DeviceIP :: string
  eq_HostIP :: string
  eq_HostPort :: int
  eq_LDC_ID :: int
  eq_Enabled :: bool

record LDCConfiguration =
  ldc_ID :: int
  ldc_Name :: string
  ldc_Host :: string
  ldc_IP :: string
  ldc_GRPCPort :: int
  ldc_PrometheusPort :: int
  ldc_Enabled :: bool
  ldc_Equipments :: "Equipment list"

record DuckConfiguration =
  dk_Filesize :: int
  dk_Experiment :: string
  dk_PacketSize :: int
  dk_NPacketsInBuffer :: int
  dk_BufferTimeout :: int
  dk_EquipmentCh :: int
  dk_ReceiveCh :: int
  dk_DataCh :: int
  dk_MetricsCh :: int
  dk_TCPConnectionsCh :: int
  dk_WriterCh :: int
  dk_DecoderCh :: int
  dk_DecoderWorkers :: int

record DecoderConfiguration =
  dec_ExtTrigger :: int
  dec_TrgCode1 :: int
  dec_TrgCode2 :: int
  dec_ReadPMTs :: bool
  dec_ReadSiPMs :: bool
  dec_ReadTrigger :: bool
  dec_ReadFibers :: bool
  dec_SplitTrigger :: bool
  dec_NoDB :: bool
  dec_Discard :: bool
  dec_Host :: string
  dec_User :: string
  dec_Passwd :: string
  dec_DBName :: string
  dec_WriteData :: bool
  dec_UseBlosc :: bool
  dec_BloscAlgorithm :: string
  dec_CompressionLevel :: int
  dec_BitShuffle :: string

record TestDeviceConfiguration =
  td_EquipmentID :: int
  td_EventRateMs :: int
  td_PacketsPerEvent :: int
  td_PacketSize :: int
  td_ErrorInjectionRate :: rat
  td_MaxEvents :: int

record Configuration =
  cfg_RunNumber :: int
  cfg_LDCs :: "LDCConfiguration list"
  cfg_GDCs :: "GDCConfiguration list"
  cfg_Duck :: DuckConfiguration
  cfg_Decoder :: DecoderConfiguration
  cfg_TestDeviceParams :: "TestDeviceConfiguration list"

subsection \<open>Reading the configuration\<close>

text \<open>The results of the queries that \<open>ReadConfigurationFromDB\<close> issues.\<close>

record querier =
  q_ListGDCs :: "db_Gdc list result"
  q_ListLDCs :: "db_Ldc list result"
  q_ListEquipments :: "db_Equipment list result"
  q_GetLatestRun :: "int result"
  q_GetDuckParams :: "db_Duckparam result"
  q_GetDecoderParams :: "db_Decoderparam result"
  q_GetTestDeviceParams :: "db_Testdeviceparam list result"

definition gdc_of_row :: "db_Gdc \<Rightarrow> GDCConfiguration" where
  "gdc_of_row g = \<lparr>gdc_ID = gr_ID g, gdc_IP = nval (gr_Ip g), gdc_Port = nval (gr_Port g),
     gdc_GRPCPort = nval (gr_GrpcPort g), gdc_PrometheusPort = nval (gr_PrometheusPort g),
     gdc_Name = nval (gr_Name g), gdc_Host = nval (gr_Hostname g), gdc_Path = nval (gr_Datapath g),
     gdc_Enabled = nval (gr_Enabled g), gdc_WriteOutput = nval (gr_Writeoutput g),
     gdc_Decode = nval (gr_Decode g)\<rparr>"

definition getGDCs :: "querier \<Rightarrow> GDCConfiguration list result" where
  "getGDCs q = bind_result (q_ListGDCs q) (\<lambda>rows. Inr (map gdc_of_row rows))"

definition ldc_of_row :: "db_Ldc \<Rightarrow> LDCConfiguration" where
  "ldc_of_row l = \<lparr>ldc_ID = lr_ID l, ldc_Name = nval (lr_Name l), ldc_Host = nval (lr_Hostname l),
     ldc_IP = nval (lr_Ip l), ldc_GRPCPort = nval (lr_GrpcPort l),
     ldc_PrometheusPort = nval (lr_PrometheusPort l), ldc_Enabled = nval (lr_Enabled l),
     ldc_Equipments = []\<rparr>"

definition getLDCs :: "querier \<Rightarrow> LDCConfiguration list result" where
  "getLDCs q = bind_result (q_ListLDCs q) (\<lambda>rows. Inr (map ldc_of_row rows))"

definition equipment_of_row :: "db_Equipment \<Rightarrow> Equipment" where
  "equipment_of_row e = \<lparr>eq_ID = er_ID e, eq_Type = nval (er_Type e),
     eq_DeviceIP = nval (er_DeviceIp e), eq_HostIP = nval (er_HostIp e),
     eq_HostPort = nval (er_HostPort e), eq_LDC_ID = nval (er_Ldcid e),
     eq_Enabled = nval (er_Enabled e)\<rparr>"

definition getEquipments :: "querier \<Rightarrow> Equipment list result" where
  "getEquipments q = bind_result (q_ListEquipments q) (\<lambda>rows. Inr (map equipment_of_row rows))"

text \<open>
  The two nested loops: for every equipment, in order, every LDC with its identifier gets it
  appended to its list.
\<close>

definition append_equipment :: "Equipment \<Rightarrow> LDCConfiguration \<Rightarrow> LDCConfiguration" where
  "append_equipment e l =
     (if eq_LDC_ID e = ldc_ID l then l\<lparr>ldc_Equipments := ldc_Equipments l @ [e]\<rparr> else l)"

fun assignEquipmentToLDC :: "LDCConfiguration list \<Rightarrow> Equipment list \<Rightarrow> LDCConfiguration list" where
  "assignEquipmentToLDC ldcs [] = ldcs"
| "assignEquipmentToLDC ldcs (e # es) = assignEquipmentToLDC (map (append_equipment e) ldcs) es"

definition getDuckParameters :: "querier \<Rightarrow> DuckConfiguration result" where
  "getDuckParameters q = bind_result (q_GetDuckParams q) (\<lambda>config. Inr
     \<lparr>dk_Filesize = up_Filesize config, dk_Experiment = up_Experiment config,
      dk_PacketSize = up_Packetsize config, dk_NPacketsInBuffer = up_Npacketsinbuffer config,
      dk_BufferTimeout = up_Buffertimeout config, dk_EquipmentCh = up_Equipmentdatach config,
      dk_ReceiveCh = up_Receivech config, dk_DataCh = up_Datach config,
      dk_MetricsCh = up_Metricsch config, dk_TCPConnectionsCh = up_Tcpconnectionsch config,
      dk_WriterCh = up_Writerch config, dk_DecoderCh = up_Decoderch config,
      dk_DecoderWorkers = up_Decoderworkers config\<rparr>)"

definition getDecoderParameters :: "querier \<Rightarrow> DecoderConfiguration result" where
  "getDecoderParameters q = bind_result (q_GetDecoderParams q) (\<lambda>config. Inr
     \<lparr>dec_ExtTrigger = dp_ExtTrigger config, dec_TrgCode1 = dp_TrgCode1 config,
      dec_TrgCode2 = dp_TrgCode2 config, dec_ReadPMTs = nval (dp_ReadPmts config),
      dec_ReadSiPMs = nval (dp_ReadSipms config), dec_ReadTrigger = nval (dp_ReadTrigger config),
      dec_ReadFibers = nval (dp_ReadFibers config), dec_SplitTrigger = nval (dp_SplitTrigger config),
      dec_NoDB = nval (dp_NoDb config), dec_Discard = nval (dp_Discard config),
      dec_Host = dp_Host config, dec_User = dp_User config, dec_Passwd = dp_Passwd config,
      dec_DBName = dp_DbName config, dec_WriteData = nval (dp_WriteData config),
      dec_UseBlosc = nval (dp_UseBlosc config), dec_BloscAlgorithm = dp_BloscAlgorithm config,
      dec_CompressionLevel = dp_CompressionLevel config, dec_BitShuffle = dp_BitShuffle config\<rparr>)"

definition getRun :: "querier \<Rightarrow> int result" where
  "getRun q = q_GetLatestRun q"

definition test_device_of_row :: "db_Testdeviceparam \<Rightarrow> TestDeviceConfiguration" where
  "test_device_of_row t = \<lparr>td_EquipmentID = tp_EquipmentID t, td_EventRateMs = tp_EventRateMs t,
     td_PacketsPerEvent = tp_PacketsPerEvent t, td_PacketSize = tp_PacketSize t,
     td_ErrorInjectionRate = tp_ErrorInjectionRate t, td_MaxEvents = tp_MaxEvents t\<rparr>"

definition getTestDeviceParams :: "querier \<Rightarrow> TestDeviceConfiguration list result" where
  "getTestDeviceParams q =
     bind_result (q_GetTestDeviceParams q) (\<lambda>rows. Inr (map test_device_of_row rows))"

definition ReadConfigurationFromDB :: "querier \<Rightarrow> Configuration result" where
  "ReadConfigurationFromDB q =
     bind_result (getGDCs q) (\<lambda>gdcs.
     bind_result (getLDCs q) (\<lambda>ldcs.
     bind_result (getEquipments q) (\<lambda>equipments.
     bind_result (getRun q) (\<lambda>run.
     let ldcs' = assignEquipmentToLDC ldcs equipments in
     bind_result (getDuckParameters q) (\<lambda>duckConfig.
     bind_result (getDecoderParameters q) (\<lambda>decoderConfig.
     bind_result (getTestDeviceParams q) (\<lambda>testDeviceParams.
       Inr \<lparr>cfg_RunNumber = run, cfg_LDCs = ldcs', cfg_GDCs = gdcs, cfg_Duck = duckConfig,
            cfg_Decoder = decoderConfig, cfg_TestDeviceParams = testDeviceParams\<rparr>)))))))"

subsection \<open>Selecting servers and equipments\<close>

text \<open>The operating system's host name is an input: \<open>os.Hostname\<close> may fail.\<close>

definition host_matches :: "string \<Rightarrow> string \<Rightarrow> bool" where
  "host_matches hostname host \<longleftrightarrow> host = [] \<or> host = hostname \<or> host = ''127.0.0.1''"

definition GetGDCConfiguration ::
  "string result \<Rightarrow> GDCConfiguration list \<Rightarrow> string \<Rightarrow> GDCConfiguration result" where
  "GetGDCConfiguration osHostname gdcs name =
     bind_result osHostname (\<lambda>hostname.
       case find (\<lambda>g. gdc_Name g = name \<and> host_matches hostname (gdc_Host g)) gdcs of
         None \<Rightarrow> Inl ''GDC not found in configuration''
       | Some g \<Rightarrow> Inr g)"

definition GetLDCConfiguration ::
  "string result \<Rightarrow> LDCConfiguration list \<Rightarrow> string \<Rightarrow> LDCConfiguration result" where
  "GetLDCConfiguration osHostname ldcs name =
     bind_result osHostname (\<lambda>hostname.
       case find (\<lambda>l. (if name = [] then host_matches hostname (ldc_Host l)
                       else ldc_Name l = name \<and> host_matches hostname (ldc_Host l))) ldcs of
         None \<Rightarrow> Inl ''LDC not found in configuration''
       | Some l \<Rightarrow> Inr l)"

text \<open>
  The inner loop stops at the first equipment with the identifier; the outer loop goes on, so a
  later LDC overrides an earlier one.
\<close>

fun find_equipment :: "Equipment option \<Rightarrow> LDCConfiguration list \<Rightarrow> int \<Rightarrow> Equipment option" where
  "find_equipment found [] i = found"
| "find_equipment found (l # ls) i =
     find_equipment
       (case find (\<lambda>e. eq_ID e = i) (ldc_Equipments l) of None \<Rightarrow> found | Some e \<Rightarrow> Some e) ls i"

definition GetEquipmentConfiguration :: "LDCConfiguration list \<Rightarrow> int \<Rightarrow> Equipment result" where
  "GetEquipmentConfiguration ldcs i =
     (case find_equipment None ldcs i of
        None \<Rightarrow> Inl ''equipment not found in configuration''
      | Some e \<Rightarrow> Inr e)"

definition EnabledGDCs :: "GDCConfiguration list \<Rightarrow> GDCConfiguration list" where
  "EnabledGDCs gdcs = filter gdc_Enabled gdcs"

definition EnabledLDCs :: "LDCConfiguration list \<Rightarrow> LDCConfiguration list" where
  "EnabledLDCs ldcs = filter ldc_Enabled ldcs"

subsection \<open>Connecting to the database with exponential backoff\<close>

text \<open>
  \<open>opens k\<close> and \<open>pings k\<close> are the errors of the \<open>k\<close>-th attempt to open and to ping, \<open>None\<close> for
  success. The result is the attempt that succeeded or the error, the delays slept (in units of the
  caller's choice), in order, and the number of connections closed after a failed ping.
\<close>

record retry_trace =
  rt_result :: "nat result"
  rt_sleeps :: "int list"
  rt_closed :: nat

function retry_loop ::
  "(nat \<Rightarrow> string option) \<Rightarrow> (nat \<Rightarrow> string option) \<Rightarrow> nat \<Rightarrow> nat \<Rightarrow> int \<Rightarrow> int list \<Rightarrow> nat \<Rightarrow> retry_trace"
where
  "retry_loop opens pings maxRetries attempt delay slept nclosed =
     (if maxRetries < attempt then
        \<lparr>rt_result = Inl (''failed to connect to database after '' @ show_nat maxRetries @ '' attempts''),
          rt_sleeps = slept, rt_closed = nclosed\<rparr>
      else case opens attempt of
        Some err \<Rightarrow>
          if attempt = maxRetries
          then \<lparr>rt_result = Inl (''failed to open database connection after '' @ show_nat maxRetries @
                  '' attempts: '' @ err),
                rt_sleeps = slept, rt_closed = nclosed\<rparr>
          else retry_loop opens pings maxRetries (Suc attempt) (delay * 2) (slept @ [delay]) nclosed
      | None \<Rightarrow>
          (case pings attempt of
             Some err \<Rightarrow>
               if attempt = maxRetries
               then \<lparr>rt_result = Inl (''failed to ping database after '' @ show_nat maxRetries @
                       '' attempts: '' @ err),
                     rt_sleeps = slept, rt_closed = Suc nclosed\<rparr>
               else retry_loop opens pings maxRetries (Suc attempt) (delay * 2) (slept @ [delay])
                      (Suc nclosed)
           | None \<Rightarrow> \<lparr>rt_result = Inr attempt, rt_sleeps = slept, rt_closed = nclosed\<rparr>))"
  by pat_completeness auto
termination
  by (relation "measure (\<lambda>(opens, pings, maxRetries, attempt, delay, slept, nclosed).
        Suc maxRetries - attempt)") auto

definition ParseDatabaseConfigurationWithRetry ::
  "(nat \<Rightarrow> string option) \<Rightarrow> (nat \<Rightarrow> string option) \<Rightarrow> nat \<Rightarrow> int \<Rightarrow> retry_trace" where
  "ParseDatabaseConfigurationWithRetry opens pings maxRetries initialDelay =
     retry_loop opens pings maxRetries 1 initialDelay [] 0"

record DatabaseConfiguration =
  db_Username :: string
  db_Password :: string
  db_Hostname :: string
  db_Port :: string
  db_Database :: string

definition BuildDatabaseURI :: "DatabaseConfiguration \<Rightarrow> string" where
  "BuildDatabaseURI c = db_Username c @ '':'' @ db_Password c @ ''@('' @ db_Hostname c @ '':'' @
     db_Port c @ '')/'' @ db_Database c @ ''?parseTime=true''"

text \<open>
  \<open>ReadConfiguration\<close>: the configuration file (parsed by the YAML library) gives the address, the
  connection takes 10 attempts with an initial delay of one second, and the connection is closed
  after a successful read. \<open>opens\<close> and \<open>pings\<close> answer for an address.
\<close>

definition ReadConfiguration ::
  "DatabaseConfiguration result \<Rightarrow> (string \<Rightarrow> nat \<Rightarrow> string option) \<Rightarrow>
   (string \<Rightarrow> nat \<Rightarrow> string option) \<Rightarrow> querier \<Rightarrow> string option \<Rightarrow> Configuration result" where
  "ReadConfiguration confFile opens pings queries closeErr =
     bind_result confFile (\<lambda>conf.
       let uri = BuildDatabaseURI conf in
       bind_result (rt_result (ParseDatabaseConfigurationWithRetry (opens uri) (pings uri) 10 1)) (\<lambda>_.
       bind_result (ReadConfigurationFromDB queries) (\<lambda>configuration.
         case closeErr of Some e \<Rightarrow> Inl e | None \<Rightarrow> Inr configuration)))"

section \<open>Properties\<close>

subsection \<open>Equipments and their LDC\<close>

lemma append_equipment_simps [simp]:
  "ldc_ID (append_equipment e l) = ldc_ID l"
  "ldc_Enabled (append_equipment e l) = ldc_Enabled l"
  by (simp_all add: append_equipment_def)

lemma assignEquipmentToLDC_map:
  "assignEquipmentToLDC ldcs es =
     map (\<lambda>l. l\<lparr>ldc_Equipments := ldc_Equipments l @ filter (\<lambda>e. eq_LDC_ID e = ldc_ID l) es\<rparr>) ldcs"
proof (induction es arbitrary: ldcs)
  case Nil
  then show ?case by simp
next
  case (Cons e es)
  show ?case
    unfolding assignEquipmentToLDC.simps Cons.IH map_map
    by (rule map_cong) (simp_all add: append_equipment_def)
qed

lemma bind_result_Inr: "bind_result r f = Inr b \<longleftrightarrow> (\<exists>a. r = Inr a \<and> f a = Inr b)"
  by (cases r) auto

text \<open>
  A configuration read from the database lists, under every LDC, exactly the equipments whose
  \<open>ldcID\<close> is that LDC's identifier, in the order of the query.
\<close>

theorem ReadConfigurationFromDB_equipments:
  assumes "ReadConfigurationFromDB q = Inr cfg"
  shows "\<exists>rows. q_ListEquipments q = Inr rows \<and>
    (\<forall>l \<in> set (cfg_LDCs cfg).
       ldc_Equipments l = filter (\<lambda>e. eq_LDC_ID e = ldc_ID l) (map equipment_of_row rows))"
proof -
  from assms obtain ldcs es where "getLDCs q = Inr ldcs" and "getEquipments q = Inr es"
    and cfg: "cfg_LDCs cfg = assignEquipmentToLDC ldcs es"
    unfolding ReadConfigurationFromDB_def Let_def bind_result_Inr by auto
  then obtain lrows rows where ldcs: "ldcs = map ldc_of_row lrows"
    and rows: "q_ListEquipments q = Inr rows" and es: "es = map equipment_of_row rows"
    unfolding getLDCs_def getEquipments_def bind_result_Inr by auto
  have "ldc_Equipments l = filter (\<lambda>e. eq_LDC_ID e = ldc_ID l) es" if "l \<in> set (cfg_LDCs cfg)" for l
    using that unfolding cfg ldcs assignEquipmentToLDC_map by (auto simp: ldc_of_row_def)
  with rows es show ?thesis by auto
qed

definition example_querier :: querier where
  "example_querier =
     \<lparr>q_ListGDCs = Inr [],
      q_ListLDCs = Inr [\<lparr>lr_ID = 1, lr_Name = SqlNull ''ldc1'' True, lr_Hostname = SqlNull [] False,
        lr_Ip = SqlNull ''10.0.0.1'' True, lr_GrpcPort = SqlNull 50051 True,
        lr_PrometheusPort = SqlNull 12112 True, lr_Enabled = SqlNull True True\<rparr>],
      q_ListEquipments = Inr [\<lparr>er_ID = 7, er_Type = SqlNull 22 True, er_DeviceIp = SqlNull [] False,
        er_HostIp = SqlNull [] False, er_HostPort = SqlNull 6006 True,
        er_Enabled = SqlNull True True, er_Ldcid = SqlNull 1 True\<rparr>],
      q_GetLatestRun = Inr 100,
      q_GetDuckParams = Inr \<lparr>up_Filesize = 1000, up_Experiment = ''next-100'', up_Packetsize = 9000,
        up_Npacketsinbuffer = 100, up_Buffertimeout = 30, up_Equipmentdatach = 10,
        up_Receivech = 10, up_Datach = 10, up_Metricsch = 10, up_Tcpconnectionsch = 10,
        up_Decoderch = 10, up_Decoderworkers = 1, up_Writerch = 10\<rparr>,
      q_GetDecoderParams = Inr \<lparr>dp_ExtTrigger = 15, dp_TrgCode1 = 1, dp_TrgCode2 = 9,
        dp_ReadPmts = SqlNull True True, dp_ReadSipms = SqlNull True True,
        dp_ReadTrigger = SqlNull True True, dp_ReadFibers = SqlNull True True,
        dp_SplitTrigger = SqlNull True True, dp_NoDb = SqlNull False False,
        dp_Discard = SqlNull False False, dp_Host = ''db'', dp_User = ''reader'', dp_Passwd = [],
        dp_DbName = ''NEXT'', dp_WriteData = SqlNull True True, dp_UseBlosc = SqlNull True True,
        dp_BloscAlgorithm = ''zstd'', dp_CompressionLevel = 4, dp_BitShuffle = ''bitshuffle''\<rparr>,
      q_GetTestDeviceParams = Inr []\<rparr>"

theorem ReadConfigurationFromDB_equipments_witness:
  "\<exists>cfg. ReadConfigurationFromDB example_querier = Inr cfg \<and>
     map ldc_Equipments (cfg_LDCs cfg) \<noteq> [[]] \<and>
     (\<exists>rows. q_ListEquipments example_querier = Inr rows \<and>
       (\<forall>l \<in> set (cfg_LDCs cfg).
          ldc_Equipments l = filter (\<lambda>e. eq_LDC_ID e = ldc_ID l) (map equipment_of_row rows)))"
proof -
  obtain cfg where cfg: "ReadConfigurationFromDB example_querier = Inr cfg"
    and ne: "map ldc_Equipments (cfg_LDCs cfg) \<noteq> [[]]"
    by (simp add: ReadConfigurationFromDB_def getGDCs_def getLDCs_def getEquipments_def getRun_def
        getDuckParameters_def getDecoderParameters_def getTestDeviceParams_def
        example_querier_def ldc_of_row_def equipment_of_row_def append_equipment_def)
  show ?thesis
    using cfg ne ReadConfigurationFromDB_equipments [OF cfg] by blast
qed

subsection \<open>Selection\<close>

lemma GetGDCConfiguration_sound:
  assumes "GetGDCConfiguration (Inr hostname) gdcs name = Inr g"
  shows "g \<in> set gdcs \<and> gdc_Name g = name \<and> host_matches hostname (gdc_Host g)"
  using assms by (auto simp: GetGDCConfiguration_def find_Some_iff split: option.splits)

lemma find_equipment_cases:
  "find_equipment found ldcs i = None \<longleftrightarrow>
     found = None \<and> (\<forall>l \<in> set ldcs. \<forall>e \<in> set (ldc_Equipments l). eq_ID e \<noteq> i)"
  by (induction found ldcs i rule: find_equipment.induct)
    (auto simp: find_None_iff find_Some_iff split: option.splits dest: nth_mem)

lemma find_equipment_sound:
  "find_equipment found ldcs i = Some e \<Longrightarrow>
     found = Some e \<or> (\<exists>l \<in> set ldcs. e \<in> set (ldc_Equipments l) \<and> eq_ID e = i)"
  by (induction found ldcs i rule: find_equipment.induct)
    (auto simp: find_Some_iff split: option.splits dest!: nth_mem)

subsection \<open>The backoff\<close>

declare retry_loop.simps [simp del]

text \<open>When every attempt up to the last fails, the loop sleeps once between attempts, doubling.\<close>

lemma retry_loop_all_fail:
  assumes "\<forall>k. opens k \<noteq> None \<or> pings k \<noteq> None" and "attempt \<le> maxRetries"
  shows "\<exists>e c. retry_loop opens pings maxRetries attempt delay slept nclosed =
    \<lparr>rt_result = Inl e, rt_sleeps = slept @ map (\<lambda>i. delay * 2 ^ i) [0..<maxRetries - attempt],
     rt_closed = c\<rparr>"
  using assms(2)
proof (induction "maxRetries - attempt" arbitrary: attempt delay slept nclosed)
  case 0
  then have "attempt = maxRetries" by simp
  then show ?case
    using assms(1) by (auto simp: retry_loop.simps [of _ _ _ maxRetries] split: option.splits)
next
  case (Suc d)
  then have lt: "attempt < maxRetries" and d: "maxRetries - Suc attempt = d" by auto
  have step: "\<exists>c. retry_loop opens pings maxRetries attempt delay slept nclosed =
      retry_loop opens pings maxRetries (Suc attempt) (delay * 2) (slept @ [delay]) c"
    using assms(1) [rule_format, of attempt] lt
    by (auto simp: retry_loop.simps [of _ _ _ attempt] split: option.splits)
  have "map (\<lambda>i. delay * 2 ^ i) [0..<maxRetries - attempt]
      = delay # map (\<lambda>i. delay * 2 * 2 ^ i) [0..<d]"
    unfolding Suc(2) [symmetric] upt_conv_Cons [OF zero_less_Suc]
    by (simp add: map_Suc_upt [symmetric] del: upt_Suc)
  with step Suc.hyps(1) [of "Suc attempt" "delay * 2"] lt d show ?case
    by (metis Suc_leI append.assoc append_Cons append_Nil)
qed

lemma sum_backoff: "(\<Sum>i \<leftarrow> [0..<n]. d * 2 ^ i) = d * (2 ^ n - 1 :: int)"
  by (induction n) (simp_all add: algebra_simps)

text \<open>
  If the database is never reachable, \<open>ParseDatabaseConfigurationWithRetry\<close> gives up with an
  error after having slept \<open>initialDelay * (2 ^ (maxRetries - 1) - 1)\<close> in total.
\<close>

theorem retry_total_sleep:
  assumes "\<forall>k. opens k \<noteq> None \<or> pings k \<noteq> None" and "0 < maxRetries"
  shows "\<exists>e. rt_result (ParseDatabaseConfigurationWithRetry opens pings maxRetries d) = Inl e \<and>
    sum_list (rt_sleeps (ParseDatabaseConfigurationWithRetry opens pings maxRetries d)) =
      d * (2 ^ (maxRetries - 1) - 1)"
proof -
  obtain e c where "retry_loop opens pings maxRetries 1 d [] 0 =
      \<lparr>rt_result = Inl e, rt_sleeps = [] @ map (\<lambda>i. d * 2 ^ i) [0..<maxRetries - 1], rt_closed = c\<rparr>"
    using retry_loop_all_fail [OF assms(1), of 1 maxRetries d "[]" 0] assms(2) by auto
  then show ?thesis
    by (simp add: ParseDatabaseConfigurationWithRetry_def sum_backoff)
qed

theorem retry_total_sleep_witness:
  "sum_list (rt_sleeps (ParseDatabaseConfigurationWithRetry
     (\<lambda>_. Some ''connection refused'') (\<lambda>_. None) 10 1)) = 511"
  using retry_total_sleep [of "\<lambda>_. Some ''connection refused''" "\<lambda>_. None" 10 1] by simp

end
