(* ===== verification/Date_Format.thy ===== *)
theory Date_Format
  imports Duck_Config
begin

text \<open>
  The DATE event format: the constants and header structs of \<open>src/pkg/date.go\<close>, the functions that
  build headers (\<open>src/ldcRPC/headers.go\<close>, \<open>src/gdcRPC/headers.go\<close>) and the ones that parse them
  (\<open>src/eventDump/main.go\<close>).

  A builder allocates a zeroed slice, copies the payloads behind the header and stores the header
  words one by one; the lemmas show that the result is the 20 (or 7) words of the format followed by
  the payloads, and that the parsers read back what was stored. The values of a map are
  concatenated in the iteration order \<open>ord\<close>; \<open>now\<close> is the clock in microseconds.
\<close>

section \<open>Definitions\<close>

subsection \<open>Constants and headers (date.go)\<close>

definition EVENT_MAGIC_NUMBER :: u32 where
  "EVENT_MAGIC_NUMBER = 0xDA1E5AFE"

definition EVENT_MAGIC_NUMBER_SWAPPED :: u32 where
  "EVENT_MAGIC_NUMBER_SWAPPED = 0xFE5A1EDA"

definition EVENT_CURRENT_VERSION :: u32 where
  "EVENT_CURRENT_VERSION = (push_bit 16 3 AND 0xffff0000) OR (14 AND 0x0000ffff)"

text \<open>The event types count from one in the order of the \<open>iota\<close> block.\<close>

datatype EventTypeType =
    START_OF_RUN | END_OF_RUN | START_OF_RUN_FILES | END_OF_RUN_FILES | START_OF_BURST
  | END_OF_BURST | PHYSICS_EVENT | CALIBRATION_EVENT | EVENT_FORMAT_ERROR | START_OF_DATA
  | END_OF_DATA | SYSTEM_SOFTWARE_TRIGGER_EVENT | DETECTOR_SOFTWARE_TRIGGER_EVENT | SYNC_EVENT

fun event_type_code :: "EventTypeType \<Rightarrow> u32" where
  "event_type_code START_OF_RUN = 1"
| "event_type_code END_OF_RUN = 2"
| "event_type_code START_OF_RUN_FILES = 3"
| "event_type_code END_OF_RUN_FILES = 4"
| "event_type_code START_OF_BURST = 5"
| "event_type_code END_OF_BURST = 6"
| "event_type_code PHYSICS_EVENT = 7"
| "event_type_code CALIBRATION_EVENT = 8"
| "event_type_code EVENT_FORMAT_ERROR = 9"
| "event_type_code START_OF_DATA = 10"
| "event_type_code END_OF_DATA = 11"
| "event_type_code SYSTEM_SOFTWARE_TRIGGER_EVENT = 12"
| "event_type_code DETECTOR_SOFTWARE_TRIGGER_EVENT = 13"
| "event_type_code SYNC_EVENT = 14"

definition SUPER_EVENT :: u32 where
  "SUPER_EVENT = 0x00000010"

definition ORIGINAL_EVENT :: u32 where
  "ORIGINAL_EVENT = 0x00000200"

definition LDC_VOID :: u32 where
  "LDC_VOID = 0xffffffff"

definition GDC_VOID :: u32 where
  "GDC_VOID = 0xffffffff"

text \<open>The arrays of the header are lists of their fixed length.\<close>

record EventHeaderStruct =
  EventSize :: u32
  EventMagic :: u32
  EventHeadSize :: u32
  EventVersion :: u32
  EventType :: u32
  EventRunNb :: u32
  EventId :: "u32 list"
  EventTriggerPattern :: "u32 list"
  EventDetectorPattern :: u32
  EventTypeAttribute :: "u32 list"
  EventLdcId :: u32
  EventGdcId :: u32
  EventTimestampSec :: u32
  EventTimestampUsec :: u32

record EquipmentHeaderStruct =
  EquipmentSize :: u32
  EquipmentType :: u32
  EquipmentId :: u32
  EquipmentTypeAttribute :: "u32 list"
  EquipmentBasicElementSize :: u32

subsection \<open>Building event headers\<close>

text \<open>The loop that copies the payloads one after another, starting at \<open>position\<close>.\<close>

fun copy_all :: "bytes \<Rightarrow> nat \<Rightarrow> bytes list \<Rightarrow> bytes" where
  "copy_all buf position [] = buf"
| "copy_all buf position (d # ds) = copy_all (put_at position d buf) (position + length d) ds"

text \<open>The stores of the header words; the words they skip keep the zero of the allocation.\<close>

definition put_event_header :: "EventHeaderStruct \<Rightarrow> bytes \<Rightarrow> bytes" where
  "put_event_header h =
     put_le32_at 76 (EventTimestampUsec h) \<circ>
     put_le32_at 72 (EventTimestampSec h) \<circ>
     put_le32_at 68 (EventGdcId h) \<circ>
     put_le32_at 64 (EventLdcId h) \<circ>
     put_le32_at 60 (EventTypeAttribute h ! 2) \<circ>
     put_le32_at 24 (EventId h ! 0) \<circ>
     put_le32_at 20 (EventRunNb h) \<circ>
     put_le32_at 16 (EventType h) \<circ>
     put_le32_at 12 (EventVersion h) \<circ>
     put_le32_at 8 (EventHeadSize h) \<circ>
     put_le32_at 4 (EventMagic h) \<circ>
     put_le32_at 0 (EventSize h)"

definition ldc_header :: "nat \<Rightarrow> int \<Rightarrow> int \<Rightarrow> int \<Rightarrow> int \<Rightarrow> EventHeaderStruct" where
  "ldc_header totalSize eventID ldcID runNumber now =
     \<lparr>EventSize = of_nat (totalSize + 20 * 4), EventMagic = EVENT_MAGIC_NUMBER, EventHeadSize = 80,
      EventVersion = EVENT_CURRENT_VERSION, EventType = event_type_code PHYSICS_EVENT,
      EventRunNb = word_of_int runNumber, EventId = [word_of_int eventID, 0],
      EventTriggerPattern = [0, 0, 0, 0], EventDetectorPattern = 0,
      EventTypeAttribute = [0, 0, ORIGINAL_EVENT],
      EventLdcId = word_of_int ldcID, EventGdcId = GDC_VOID,
      EventTimestampSec = word_of_int (now sdiv 1000000),
      EventTimestampUsec = word_of_int (now smod 1000000)\<rparr>"

definition addLDCHeader ::
  "(int, bytes) iteration \<Rightarrow> int \<Rightarrow> (int, bytes) go_map \<Rightarrow> int \<Rightarrow> LDCConfiguration \<Rightarrow> int \<Rightarrow> bytes" where
  "addLDCHeader ord now equipmentsData eventID ldcConfiguration runNumber =
     (let data = map snd (ord equipmentsData);
          totalSize = sum_list (map length data);
          ldcHeader = ldc_header totalSize eventID (ldc_ID ldcConfiguration) runNumber now;
          ldcData = copy_all (replicate (totalSize + 20 * 4) 0) 80 data
      in put_event_header ldcHeader ldcData)"

definition gdc_header :: "nat \<Rightarrow> int \<Rightarrow> int \<Rightarrow> int \<Rightarrow> int \<Rightarrow> EventHeaderStruct" where
  "gdc_header totalSize eventID gdcID runNumber now =
     \<lparr>EventSize = of_nat (totalSize + 20 * 4), EventMagic = EVENT_MAGIC_NUMBER, EventHeadSize = 80,
      EventVersion = EVENT_CURRENT_VERSION, EventType = event_type_code PHYSICS_EVENT,
      EventRunNb = word_of_int runNumber, EventId = [word_of_int eventID, 0],
      EventTriggerPattern = [0, 0, 0, 0], EventDetectorPattern = 0,
      EventTypeAttribute = [0, 0, ORIGINAL_EVENT OR SUPER_EVENT],
      EventLdcId = LDC_VOID, EventGdcId = word_of_int gdcID,
      EventTimestampSec = word_of_int (now sdiv 1000000),
      EventTimestampUsec = word_of_int (now smod 1000000)\<rparr>"

definition addGDCHeader ::
  "(int, bytes) iteration \<Rightarrow> int \<Rightarrow> (int, bytes) go_map \<Rightarrow> int \<Rightarrow> int \<Rightarrow> int \<Rightarrow> bytes" where
  "addGDCHeader ord now ldcData eventID gdcID runNumber =
     (let data = map snd (ord ldcData);
          totalSize = sum_list (map length data);
          gdcHeader = gdc_header totalSize eventID gdcID runNumber now;
          gdcData = copy_all (replicate (totalSize + 20 * 4) 0) 80 data
      in put_event_header gdcHeader gdcData)"

subsection \<open>Building the equipment header\<close>

text \<open>One iteration of the loop that copies a word with its bytes in the opposite order.\<close>

definition flip_step :: "bytes \<Rightarrow> nat \<Rightarrow> bytes \<Rightarrow> bytes" where
  "flip_step subevent i equipmentData =
     put_be32_at (28 + i * 4) (le32_at subevent (i * 4)) equipmentData"

definition equipment_header :: "nat \<Rightarrow> Equipment \<Rightarrow> EquipmentHeaderStruct" where
  "equipment_header n equipment =
     \<lparr>EquipmentSize = of_nat (n + 7 * 4), EquipmentType = word_of_int (eq_Type equipment),
      EquipmentId = word_of_int (eq_ID equipment), EquipmentTypeAttribute = [0, 0, 0],
      EquipmentBasicElementSize = 4\<rparr>"

definition put_equipment_header :: "EquipmentHeaderStruct \<Rightarrow> bytes \<Rightarrow> bytes" where
  "put_equipment_header h =
     put_le32_at 24 (EquipmentBasicElementSize h) \<circ>
     put_le32_at 8 (EquipmentId h) \<circ>
     put_le32_at 4 (EquipmentType h) \<circ>
     put_le32_at 0 (EquipmentSize h)"

definition addEquipmentHeader :: "bytes \<Rightarrow> Equipment \<Rightarrow> bytes" where
  "addEquipmentHeader subevent equipment =
     (let equipmentHeader = equipment_header (length subevent) equipment;
          equipmentData = replicate (length subevent + 7 * 4) 0;
          numWords = length subevent div 4;
          flipped = fold (flip_step subevent) [0..<numWords] equipmentData;
          remainder = length subevent mod 4;
          copied = (if remainder > 0
                    then put_at (28 + numWords * 4) (drop (numWords * 4) subevent) flipped
                    else flipped)
      in put_equipment_header equipmentHeader copied)"

subsection \<open>Parsing headers (eventDump)\<close>

text \<open>\<open>parseLDCHeader\<close> of an 80-byte slice; \<open>readEventHeader\<close> parses the same way.\<close>

definition parseLDCHeader :: "bytes \<Rightarrow> EventHeaderStruct" where
  "parseLDCHeader d =
     \<lparr>EventSize = le32_at d 0, EventMagic = le32_at d 4, EventHeadSize = le32_at d 8,
      EventVersion = le32_at d 12, EventType = le32_at d 16, EventRunNb = le32_at d 20,
      EventId = [le32_at d 24, le32_at d 28],
      EventTriggerPattern = [le32_at d 32, le32_at d 36, le32_at d 40, le32_at d 44],
      EventDetectorPattern = le32_at d 48,
      EventTypeAttribute = [le32_at d 52, le32_at d 56, le32_at d 60],
      EventLdcId = le32_at d 64, EventGdcId = le32_at d 68,
      EventTimestampSec = le32_at d 72, EventTimestampUsec = le32_at d 76\<rparr>"

definition readEquipmentHeader :: "bytes \<Rightarrow> EquipmentHeaderStruct" where
  "readEquipmentHeader d =
     \<lparr>EquipmentSize = le32_at d 0, EquipmentType = le32_at d 4, EquipmentId = le32_at d 8,
      EquipmentTypeAttribute = [le32_at d 12, le32_at d 16, le32_at d 20],
      EquipmentBasicElementSize = le32_at d 24\<rparr>"

section \<open>Properties\<close>

subsection \<open>The layout of the event headers\<close>

text \<open>The 20 words of an event header, in the order of the DATE format.\<close>

definition event_words :: "EventHeaderStruct \<Rightarrow> u32 list" where
  "event_words h =
     [EventSize h, EventMagic h, EventHeadSize h, EventVersion h, EventType h, EventRunNb h] @
     EventId h @ EventTriggerPattern h @ [EventDetectorPattern h] @ EventTypeAttribute h @
     [EventLdcId h, EventGdcId h, EventTimestampSec h, EventTimestampUsec h]"

definition event_header_wf :: "EventHeaderStruct \<Rightarrow> bool" where
  "event_header_wf h \<longleftrightarrow> length (EventId h) = 2 \<and> length (EventTriggerPattern h) = 4 \<and>
     length (EventTypeAttribute h) = 3"

lemma copy_all_concat:
  "length rest = sum_list (map length ds) \<Longrightarrow> copy_all (pre @ rest) (length pre) ds = pre @ concat ds"
proof (induction ds arbitrary: pre rest)
  case Nil
  then show ?case by simp
next
  case (Cons d ds)
  have "put_at (length pre) d (pre @ rest) = (pre @ d) @ drop (length d) rest"
    by (simp add: put_at_def)
  with Cons.IH [of "drop (length d) rest" "pre @ d"] Cons.prems show ?case by simp
qed

lemma put_words:
  "\<forall>(k, w) \<in> set kws. k < length ws \<Longrightarrow>
   fold (\<lambda>(k, w). put_le32_at (4 * k) w) kws (words_le ws @ s) =
   words_le (fold (\<lambda>(k, w) ws. ws[k := w]) kws ws) @ s"
proof (induction kws arbitrary: ws)
  case Nil
  then show ?case by simp
next
  case (Cons p kws)
  obtain k w where p: "p = (k, w)" by force
  with Cons.prems have "k < length ws" and "\<forall>(k', w') \<in> set kws. k' < length (ws[k := w])" by auto
  with Cons.IH [of "ws[k := w]"] p show ?case by (simp add: put_le32_at_words_le)
qed

lemma header_update:
  "(replicate 20 (0 :: u32))[0 := a, 1 := b, 2 := c, 3 := d, 4 := e, 5 := f, 6 := g, 15 := h,
     16 := i, 17 := j, 18 := k, 19 := l] =
   [a, b, c, d, e, f, g, 0, 0, 0, 0, 0, 0, 0, 0, h, i, j, k, l]"
  by (simp add: numeral_eq_Suc)

lemma put_event_header_zero:
  "put_event_header h (words_le (replicate 20 0) @ s) =
     words_le [EventSize h, EventMagic h, EventHeadSize h, EventVersion h, EventType h, EventRunNb h,
       EventId h ! 0, 0, 0, 0, 0, 0, 0, 0, 0, EventTypeAttribute h ! 2, EventLdcId h, EventGdcId h,
       EventTimestampSec h, EventTimestampUsec h] @ s"
proof -
  let ?kws = "[(0, EventSize h), (1, EventMagic h), (2, EventHeadSize h), (3, EventVersion h),
    (4, EventType h), (5, EventRunNb h), (6, EventId h ! 0), (15, EventTypeAttribute h ! 2),
    (16, EventLdcId h), (17, EventGdcId h), (18, EventTimestampSec h), (19, EventTimestampUsec h)]"
  have "put_event_header h = fold (\<lambda>(k, w). put_le32_at (4 * k) w) ?kws"
    by (intro ext) (simp only: put_event_header_def o_apply fold_simps prod.case mult_0_right
        mult_1_right arith_simps)
  then have "put_event_header h (words_le (replicate 20 0) @ s) =
      words_le (fold (\<lambda>(k, w) ws. ws[k := w]) ?kws (replicate 20 0)) @ s"
    by (simp only: put_words) (rule put_words, simp)
  also have "fold (\<lambda>(k, w) ws. ws[k := w]) ?kws (replicate 20 0) =
      (replicate 20 0)[0 := EventSize h, 1 := EventMagic h, 2 := EventHeadSize h, 3 := EventVersion h,
        4 := EventType h, 5 := EventRunNb h, 6 := EventId h ! 0, 15 := EventTypeAttribute h ! 2,
        16 := EventLdcId h, 17 := EventGdcId h, 18 := EventTimestampSec h, 19 := EventTimestampUsec h]"
    by (simp only: fold_simps prod.case)
  finally show ?thesis by (simp only: header_update)
qed

lemma build_event_bytes:
  assumes "EventId h = [i, 0]" and "EventTriggerPattern h = [0, 0, 0, 0]"
    and "EventDetectorPattern h = 0" and "EventTypeAttribute h = [0, 0, a]"
  shows "put_event_header h (copy_all (replicate (sum_list (map length ds) + 20 * 4) 0) 80 ds) =
    words_le (event_words h) @ concat ds"
proof -
  have "replicate (sum_list (map length ds) + 20 * 4) 0 =
      words_le (replicate 20 0) @ replicate (sum_list (map length ds)) (0 :: byte)"
    by (simp only: zero_bytes_words [symmetric] replicate_add [symmetric]) (simp add: add.commute)
  then have "copy_all (replicate (sum_list (map length ds) + 20 * 4) 0) 80 ds =
      words_le (replicate 20 0) @ concat ds"
    using copy_all_concat [of "replicate (sum_list (map length ds)) 0" ds "words_le (replicate 20 0)"]
    by (simp only: length_words_le length_replicate) simp
  then show ?thesis
    by (simp only: put_event_header_zero) (simp add: assms event_words_def)
qed

lemma addLDCHeader_bytes:
  "addLDCHeader ord now m eventID ldc run =
     words_le (event_words (ldc_header (sum_list (map (length \<circ> snd) (ord m))) eventID (ldc_ID ldc) run now)) @
     concat (map snd (ord m))"
  unfolding addLDCHeader_def Let_def
  by (subst build_event_bytes) (simp_all add: ldc_header_def)

lemma addGDCHeader_bytes:
  "addGDCHeader ord now m eventID gdc run =
     words_le (event_words (gdc_header (sum_list (map (length \<circ> snd) (ord m))) eventID gdc run now)) @
     concat (map snd (ord m))"
  unfolding addGDCHeader_def Let_def
  by (subst build_event_bytes) (simp_all add: gdc_header_def)

lemma header_wf [simp]:
  "event_header_wf (ldc_header n e l r t)" "event_header_wf (gdc_header n e l r t)"
  by (simp_all add: event_header_wf_def ldc_header_def gdc_header_def)

lemma length_event_words [simp]: "event_header_wf h \<Longrightarrow> length (event_words h) = 20"
  by (simp add: event_words_def event_header_wf_def)

lemma length_addLDCHeader [simp]:
  "length (addLDCHeader ord now m e l r) = 80 + sum_list (map (length \<circ> snd) (ord m))"
  by (simp add: addLDCHeader_bytes length_concat)

lemma length_addGDCHeader [simp]:
  "length (addGDCHeader ord now m e l r) = 80 + sum_list (map (length \<circ> snd) (ord m))"
  by (simp add: addGDCHeader_bytes length_concat)

lemma length_2_3_4:
  "length xs = 2 \<Longrightarrow> \<exists>a b. xs = [a, b]"
  "length xs = 3 \<Longrightarrow> \<exists>a b c. xs = [a, b, c]"
  "length xs = 4 \<Longrightarrow> \<exists>a b c d. xs = [a, b, c, d]"
  by (auto simp: eval_nat_numeral length_Suc_conv)

lemma le32_at_word:
  "4 * k = i \<Longrightarrow> k < length ws \<Longrightarrow> le32_at (words_le ws @ s) i = ws ! k"
  using le32_at_words_le by blast

lemmas le32_header_words =
  le32_at_word [of 0 0] le32_at_word [of 1 4] le32_at_word [of 2 8] le32_at_word [of 3 12]
  le32_at_word [of 4 16] le32_at_word [of 5 20] le32_at_word [of 6 24] le32_at_word [of 7 28]
  le32_at_word [of 8 32] le32_at_word [of 9 36] le32_at_word [of 10 40] le32_at_word [of 11 44]
  le32_at_word [of 12 48] le32_at_word [of 13 52] le32_at_word [of 14 56] le32_at_word [of 15 60]
  le32_at_word [of 16 64] le32_at_word [of 17 68] le32_at_word [of 18 72] le32_at_word [of 19 76]

text \<open>Parsing the words of a header gives the header.\<close>

lemma parse_event_words:
  assumes "event_header_wf h"
  shows "parseLDCHeader (words_le (event_words h) @ s) = h"
proof -
  obtain i j where i: "EventId h = [i, j]"
    using assms length_2_3_4(1) [of "EventId h"] by (auto simp: event_header_wf_def)
  obtain a b c d where t: "EventTriggerPattern h = [a, b, c, d]"
    using assms length_2_3_4(3) [of "EventTriggerPattern h"] by (auto simp: event_header_wf_def)
  obtain x y z where u: "EventTypeAttribute h = [x, y, z]"
    using assms length_2_3_4(2) [of "EventTypeAttribute h"] by (auto simp: event_header_wf_def)
  show ?thesis
    unfolding parseLDCHeader_def
    by (rule EventHeaderStruct.equality)
      (simp_all add: le32_header_words event_words_def i t u del: words_le_Cons)
qed

subsection \<open>The equipment header and the byte order\<close>

text \<open>The reference for the copy loop: every complete word reversed, a rest of 0 to 3 bytes kept.\<close>

fun flip_words :: "bytes \<Rightarrow> bytes" where
  "flip_words (a # b # c # d # s) = d # c # b # a # flip_words s"
| "flip_words s = s"

lemma flip_words_flip_words [simp]: "flip_words (flip_words s) = s"
  by (induction s rule: flip_words.induct) auto

lemma length_flip_words [simp]: "length (flip_words s) = length s"
  by (induction s rule: flip_words.induct) auto

lemma flip_words_append: "4 dvd length xs \<Longrightarrow> flip_words (xs @ ys) = flip_words xs @ flip_words ys"
proof (induction xs rule: flip_words.induct)
  case (1 a b c d s)
  then have "4 dvd length s" by (simp add: dvd_def) presburger
  with 1 show ?case by simp
qed (auto dest: dvd_imp_le)

lemma flip_words_short: "length s < 4 \<Longrightarrow> flip_words s = s"
  by (induction s rule: flip_words.induct) auto

lemma take_four: "i + 4 \<le> length s \<Longrightarrow> take (i + 4) s = take i s @ [s ! i, s ! (i + 1), s ! (i + 2), s ! (i + 3)]"
  by (simp add: take_Suc_conv_app_nth eval_nat_numeral)

lemma flip_loop:
  assumes "length pre = 28" and "4 * n \<le> length s"
  shows "fold (flip_step s) [0..<n] (pre @ replicate (length s) 0) =
    pre @ flip_words (take (4 * n) s) @ replicate (length s - 4 * n) 0"
  using assms(2)
proof (induction n)
  case 0
  then show ?case by simp
next
  case (Suc n)
  then have le: "4 * n + 4 \<le> length s" by simp
  let ?w = "[s ! (4 * n), s ! (4 * n + 1), s ! (4 * n + 2), s ! (4 * n + 3)]"
  have "4 dvd length (take (4 * n) s)" using le by simp
  then have "flip_words (take (4 * n + 4) s) = flip_words (take (4 * n) s) @ rev ?w"
    by (simp add: take_four [OF le] flip_words_append)
  moreover have "flip_step s n (pre @ flip_words (take (4 * n) s) @ replicate (length s - 4 * n) 0) =
      pre @ (flip_words (take (4 * n) s) @ rev ?w) @ replicate (length s - (4 * n + 4)) 0"
    using le assms(1)
    by (simp add: flip_step_def put_be32_at_def put_at_def le32_at_def mult.commute)
  moreover have "4 * Suc n = 4 * n + 4" by simp
  ultimately show ?case
    using Suc.IH le by (simp add: add.commute)
qed

definition equipment_words :: "EquipmentHeaderStruct \<Rightarrow> u32 list" where
  "equipment_words h = [EquipmentSize h, EquipmentType h, EquipmentId h] @
     EquipmentTypeAttribute h @ [EquipmentBasicElementSize h]"

lemma put_equipment_header_zero:
  "put_equipment_header h (words_le (replicate 7 0) @ s) =
     words_le [EquipmentSize h, EquipmentType h, EquipmentId h, 0, 0, 0,
       EquipmentBasicElementSize h] @ s"
proof -
  let ?kws = "[(0, EquipmentSize h), (1, EquipmentType h), (2, EquipmentId h),
    (6, EquipmentBasicElementSize h)]"
  have "put_equipment_header h = fold (\<lambda>(k, w). put_le32_at (4 * k) w) ?kws"
    by (simp add: put_equipment_header_def fun_eq_iff)
  then have "put_equipment_header h (words_le (replicate 7 0) @ s) =
      words_le (fold (\<lambda>(k, w) ws. ws[k := w]) ?kws (replicate 7 0)) @ s"
    by (simp only: put_words) (rule put_words, simp)
  then show ?thesis by (simp add: numeral_eq_Suc)
qed

lemma addEquipmentHeader_bytes:
  "addEquipmentHeader sub e =
     words_le (equipment_words (equipment_header (length sub) e)) @ flip_words sub"
proof -
  let ?n = "length sub div 4"
  let ?pre = "words_le (replicate 7 0)"
  let ?copied = "if length sub mod 4 > 0
      then put_at (28 + ?n * 4) (drop (?n * 4) sub) (?pre @ flip_words (take (4 * ?n) sub) @
        replicate (length sub mod 4) 0)
      else ?pre @ flip_words (take (4 * ?n) sub) @ replicate (length sub mod 4) 0"
  have zero: "replicate (length sub + 7 * 4) 0 = ?pre @ replicate (length sub) 0"
    by (simp only: zero_bytes_words [symmetric] replicate_add [symmetric]) (simp add: add.commute)
  have le: "4 * ?n \<le> length sub" and rest: "length sub - 4 * ?n = length sub mod 4"
    by (simp, simp add: minus_mult_div_eq_mod)
  have split: "flip_words sub = flip_words (take (4 * ?n) sub) @ drop (?n * 4) sub"
  proof -
    have "flip_words (take (4 * ?n) sub @ drop (4 * ?n) sub) =
        flip_words (take (4 * ?n) sub) @ drop (4 * ?n) sub"
      by (subst flip_words_append) (simp_all add: flip_words_short rest)
    then show ?thesis by (simp add: mult.commute)
  qed
  have "length (drop (?n * 4) sub) = length sub mod 4" by (simp add: rest mult.commute)
  then have copied: "?copied = ?pre @ flip_words sub"
    unfolding split using le by (auto simp: put_at_def mult.commute)
  have "length ?pre = 28" by simp
  note loop = flip_loop [OF this le, unfolded rest]
  have "addEquipmentHeader sub e =
      put_equipment_header (equipment_header (length sub) e) (?pre @ flip_words sub)"
    unfolding addEquipmentHeader_def Let_def zero loop copied by (rule refl)
  then show ?thesis
    by (simp add: put_equipment_header_zero equipment_words_def equipment_header_def del: words_le_Cons)
qed

lemma length_addEquipmentHeader [simp]: "length (addEquipmentHeader sub e) = 28 + length sub"
  by (simp add: addEquipmentHeader_bytes equipment_words_def equipment_header_def)

lemma parse_equipment_words:
  assumes "length (EquipmentTypeAttribute h) = 3"
  shows "readEquipmentHeader (words_le (equipment_words h) @ s) = h"
proof -
  obtain x y z where u: "EquipmentTypeAttribute h = [x, y, z]"
    using assms length_2_3_4(2) by blast
  show ?thesis
    unfolding readEquipmentHeader_def
    by (rule EquipmentHeaderStruct.equality)
      (simp_all add: le32_header_words equipment_words_def u del: words_le_Cons)
qed

subsection \<open>Round trips\<close>

text \<open>
  C9. What \<open>addLDCHeader\<close> stores, \<open>parseLDCHeader\<close> reads back: the header carries the run, the event
  number, the LDC's identifier and the size of the whole sub-event, and the payloads follow it in
  the order the map was iterated.
\<close>

theorem LDCHeader_roundtrip:
  fixes now eventID run :: int and ldc :: LDCConfiguration and ord :: "(int, bytes) iteration"
    and m :: "(int, bytes) go_map"
  assumes "sum_list (map (length \<circ> snd) (ord m)) + 80 < 2 ^ 32"
    and "0 \<le> eventID" and "eventID < 2 ^ 32"
  defines "b \<equiv> addLDCHeader ord now m eventID ldc run"
  shows "unat (EventSize (parseLDCHeader (take 80 b))) = length b \<and>
    EventMagic (parseLDCHeader (take 80 b)) = EVENT_MAGIC_NUMBER \<and>
    uint (EventId (parseLDCHeader (take 80 b)) ! 0) = eventID \<and>
    EventLdcId (parseLDCHeader (take 80 b)) = word_of_int (ldc_ID ldc) \<and>
    EventRunNb (parseLDCHeader (take 80 b)) = word_of_int run \<and>
    drop 80 b = concat (map snd (ord m))"
proof -
  let ?h = "ldc_header (sum_list (map (length \<circ> snd) (ord m))) eventID (ldc_ID ldc) run now"
  have "parseLDCHeader (take 80 b) = ?h"
    using parse_event_words [of ?h "[]"] by (simp add: b_def addLDCHeader_bytes)
  moreover have "uint (word_of_int eventID :: u32) = eventID"
    using assms(2,3) by (simp add: word_of_int_inverse)
  moreover have "unat (of_nat (sum_list (map (length \<circ> snd) (ord m)) + 20 * 4) :: u32) = length b"
    using assms(1) by (subst unat_of_nat_u32) (simp_all add: b_def)
  moreover have "drop 80 b = concat (map snd (ord m))"
    by (simp add: b_def addLDCHeader_bytes)
  ultimately show ?thesis
    by (simp add: ldc_header_def)
qed

definition example_equipment :: Equipment where
  "example_equipment = \<lparr>eq_ID = 5, eq_Type = 22, eq_DeviceIP = [], eq_HostIP = [],
     eq_HostPort = 6006, eq_LDC_ID = 3, eq_Enabled = True\<rparr>"

definition example_ldc :: LDCConfiguration where
  "example_ldc = \<lparr>ldc_ID = 3, ldc_Name = ''ldc1'', ldc_Host = [], ldc_IP = [], ldc_GRPCPort = 50051,
     ldc_PrometheusPort = 12112, ldc_Enabled = True, ldc_Equipments = [example_equipment]\<rparr>"

theorem LDCHeader_roundtrip_witness:
  "uint (EventId (parseLDCHeader (take 80
     (addLDCHeader rev 1700000000123456 [(5, [1, 2, 3, 4]), (6, [9])] 42 example_ldc 100))) ! 0) = 42"
  using LDCHeader_roundtrip [of rev "[(5, [1, 2, 3, 4]), (6, [9])]" 42 1700000000123456 example_ldc 100]
  by simp

text \<open>
  An equipment block carries its size, type and identifier, and its payload is the received
  sub-event with the bytes of every complete word reversed (a rest of up to three bytes unchanged):
  reversing again gives the sub-event back.
\<close>

theorem equipmentHeader_roundtrip:
  fixes sub :: bytes and e :: Equipment
  assumes "length sub + 28 < 2 ^ 32"
  defines "b \<equiv> addEquipmentHeader sub e"
  shows "unat (EquipmentSize (readEquipmentHeader (take 28 b))) = length b \<and>
    EquipmentId (readEquipmentHeader (take 28 b)) = word_of_int (eq_ID e) \<and>
    EquipmentType (readEquipmentHeader (take 28 b)) = word_of_int (eq_Type e) \<and>
    flip_words (drop 28 b) = sub"
proof -
  let ?h = "equipment_header (length sub) e"
  have len: "length (words_le (equipment_words ?h)) = 28"
    by (simp add: equipment_words_def equipment_header_def)
  have "readEquipmentHeader (take 28 b) = ?h"
    using parse_equipment_words [of ?h "[]"] len
    by (simp add: b_def addEquipmentHeader_bytes equipment_header_def)
  moreover have "unat (of_nat (length sub + 7 * 4) :: u32) = length b"
    using assms(1) by (subst unat_of_nat_u32) (simp_all add: b_def)
  moreover have "drop 28 b = flip_words sub"
    using len by (simp add: b_def addEquipmentHeader_bytes)
  ultimately show ?thesis by (simp add: equipment_header_def)
qed

theorem equipmentHeader_roundtrip_witness:
  "flip_words (drop 28 (addEquipmentHeader [1, 2, 3, 4, 5, 6] example_equipment)) = [1, 2, 3, 4, 5, 6]"
  using equipmentHeader_roundtrip [of "[1, 2, 3, 4, 5, 6]" example_equipment] by simp

end
