(* ===== verification/Ldc_Equipment.thy ===== *)
theory Ldc_Equipment
  imports Ring_Buffer Date_Format
begin

text \<open>
  The readout of one equipment by an LDC, \<open>src/ldcRPC/readEquipment.go\<close> and
  \<open>src/ldcRPC/equipmentData.go\<close>.

  One goroutine (\<open>listenEquipment\<close>, \<open>readUDPSocket\<close>) stores UDP datagrams in the slots of a shared
  buffer and sends slices of it over a channel; another one (\<open>readPacket\<close>, \<open>buildEquipmentData\<close>)
  collects the slices of an event and, at the end word, concatenates them, releases the slots and
  emits the equipment's data. A slice is an offset and a length: its bytes are read from the shared
  buffer at the time the code reads them, so the model shows an overwrite if there is one.

  The reading goroutine is split at every operation that another goroutine can observe (acquire,
  read the datagram into the slot, mark, send); \<open>readUDPSocket\<close> is their composition. The step
  relation \<open>reader_step\<close> interleaves these stages with the steps of the consumer in every order and
  collects the payloads that were sent.

  Inputs of the model: what \<open>ReadFromUDP\<close> returns and whether the sender's address is the device's,
  and whether a waiting acquisition's timer fires.
\<close>

section \<open>Definitions\<close>

subsection \<open>Data\<close>

record EquipmentData =
  ed_EventID :: int
  ed_EquipmentID :: int
  ed_Data :: bytes
  ed_Error :: bool

text \<open>A slice of the shared buffer and the slot it was read into.\<close>

record RingBufferData =
  rbd_off :: nat
  rbd_len :: nat
  rbd_position :: int

definition slice_of :: "bytes \<Rightarrow> RingBufferData \<Rightarrow> bytes" where
  "slice_of buf d = take (rbd_len d) (drop (rbd_off d) buf)"

text \<open>
  The variables of \<open>readPacket\<close>, with what was sent on the equipment channel and the messages given to
  \<open>stopOnLocalError\<close> (each with an increment of the packet error counter). \<open>'f\<close> is the type of a
  fragment: a slice of the buffer, or its bytes.
\<close>

record 'f builder =
  b_fragments :: "'f list"
  b_bufferPositions :: "int list"
  b_eventID :: int
  b_evtError :: bool
  b_expectedSequenceCounter :: int
  b_out :: "EquipmentData list"
  b_stops :: "string list"

definition builder_init :: "'f builder" where
  "builder_init = \<lparr>b_fragments = [], b_bufferPositions = [], b_eventID = 1, b_evtError = False,
     b_expectedSequenceCounter = 0, b_out = [], b_stops = []\<rparr>"

definition END_WORD :: u32 where
  "END_WORD = 0xfafafafa"

subsection \<open>Building the equipment's data (equipmentData.go)\<close>

definition packet_too_short :: "int \<Rightarrow> nat \<Rightarrow> int \<Rightarrow> string" where
  "packet_too_short evt n eq = ''Error on evt '' @ show_int evt @ ''! Packet too short: '' @
     show_nat n @ '' bytes, expected at least 4 bytes. eq '' @ show_int eq"

definition packet_mismatch :: "int \<Rightarrow> int \<Rightarrow> u32 \<Rightarrow> nat \<Rightarrow> int \<Rightarrow> string" where
  "packet_mismatch evt expected found n eq = ''Error on evt '' @ show_int evt @
     ''! Packet mismatch, expected sequence counter '' @ show_int expected @ '', found '' @
     show_nat (unat found) @ ''. Length '' @ show_nat n @ '', eq '' @ show_int eq"

text \<open>
  \<open>rd\<close> reads the bytes of a fragment. Fragments and slots are appended first, whatever the packet;
  the slots are released after the concatenation, before the equipment header is added.
\<close>

definition buildEquipmentData ::
  "('f \<Rightarrow> bytes) \<Rightarrow> Equipment \<Rightarrow> 'f \<Rightarrow> int \<Rightarrow> 'f builder \<times> RingBufferTracking \<Rightarrow>
   'f builder \<times> RingBufferTracking" where
  "buildEquipmentData rd equipment frag position = (\<lambda>(b0, tracking).
     let data = rd frag;
         b = b0\<lparr>b_fragments := b_fragments b0 @ [frag],
                b_bufferPositions := b_bufferPositions b0 @ [position]\<rparr>
     in
     if length data = 4 then
       if le32_at data 0 = END_WORD then
         let subevent = concat (map rd (b_fragments b));
             tracking' = foldl ReleasePosition tracking (b_bufferPositions b);
             equipmentData = addEquipmentHeader subevent equipment;
             eqData = \<lparr>ed_EventID = b_eventID b, ed_EquipmentID = eq_ID equipment,
                       ed_Data = equipmentData, ed_Error = b_evtError b\<rparr>
         in (b\<lparr>b_fragments := [], b_bufferPositions := [],
               b_out := (if \<not> b_evtError b then b_out b @ [eqData] else b_out b),
               b_eventID := b_eventID b + 1, b_evtError := False, b_expectedSequenceCounter := 0\<rparr>,
             tracking')
       else (b, tracking)
     else if length data < 4 then
       (b\<lparr>b_evtError := True,
          b_stops := b_stops b @ [packet_too_short (b_eventID b) (length data) (eq_ID equipment)]\<rparr>,
        tracking)
     else
       let dataCounter = be32_at data 0;
           b' = (if dataCounter \<noteq> word_of_int (b_expectedSequenceCounter b)
                 then b\<lparr>b_evtError := True,
                        b_stops := b_stops b @ [packet_mismatch (b_eventID b)
                          (b_expectedSequenceCounter b) dataCounter (length data) (eq_ID equipment)]\<rparr>
                 else b)
       in (b'\<lparr>b_expectedSequenceCounter := b_expectedSequenceCounter b' + 1\<rparr>, tracking))"

subsection \<open>Reading the socket (readEquipment.go)\<close>

record reader_config =
  rc_equipment :: Equipment
  rc_packetBufferSize :: nat
  rc_nPacketsInBuffer :: nat
  rc_bufferTimeout :: int
  rc_recvCap :: nat

text \<open>The default of 30 seconds when the timeout is not configured.\<close>

definition effective_timeout :: "int \<Rightarrow> int" where
  "effective_timeout t = (if t \<le> 0 then 30 else t)"

text \<open>What \<open>ReadFromUDP\<close> returns: an error, or a datagram and whether it comes from the device.\<close>

datatype udp_read = UdpError string | UdpPacket bytes bool

text \<open>The points of \<open>readUDPSocket\<close> between two stages.\<close>

datatype reader_pc = AtStart | AtRead int | AtMark int nat | AtSend RingBufferData

record reader =
  lr_buffer :: bytes
  lr_tracking :: RingBufferTracking
  lr_position :: nat
  lr_totalSize :: nat
  lr_bufferErrors :: nat
  lr_pc :: reader_pc
  lr_recv :: "RingBufferData list"
  lr_builder :: "RingBufferData builder"

definition reader_init :: "reader_config \<Rightarrow> reader" where
  "reader_init c = \<lparr>lr_buffer = replicate (rc_packetBufferSize c * rc_nPacketsInBuffer c) 0,
     lr_tracking = NewRingBufferTracking (rc_nPacketsInBuffer c), lr_position = 0, lr_totalSize = 0,
     lr_bufferErrors = 0, lr_pc = AtStart, lr_recv = [], lr_builder = builder_init\<rparr>"

text \<open>Returning (0, 0): the caller assigns both results, so the position becomes 0.\<close>

definition return_zero :: "reader \<Rightarrow> reader" where
  "return_zero s = s\<lparr>lr_position := 0, lr_pc := AtStart\<rparr>"

definition bufferIndex :: "reader_config \<Rightarrow> reader \<Rightarrow> int" where
  "bufferIndex c s = int (lr_position s div rc_packetBufferSize c)"

text \<open>Waiting for the slot; \<open>None\<close> while it waits.\<close>

definition acquire_stage :: "reader_config \<Rightarrow> bool \<Rightarrow> reader \<Rightarrow> reader option" where
  "acquire_stage c timer s =
     (case TryAcquirePosition (lr_tracking s) (bufferIndex c s)
             (effective_timeout (rc_bufferTimeout c)) timer of
        AcqError _ \<Rightarrow> Some (return_zero (s\<lparr>lr_bufferErrors := lr_bufferErrors s + 1\<rparr>))
      | AcqOk r \<Rightarrow> Some (s\<lparr>lr_tracking := r, lr_pc := AtRead (bufferIndex c s)\<rparr>)
      | AcqWaiting \<Rightarrow> None)"

text \<open>
  The datagram is stored in the slot, cut at the size of the slot. A read error or a datagram from
  another address releases the slot.
\<close>

definition read_stage :: "reader_config \<Rightarrow> int \<Rightarrow> udp_read \<Rightarrow> reader \<Rightarrow> reader" where
  "read_stage c index r s =
     (case r of
        UdpError _ \<Rightarrow> return_zero (s\<lparr>lr_tracking := ReleasePosition (lr_tracking s) index\<rparr>)
      | UdpPacket datagram fromDevice \<Rightarrow>
          let data = take (rc_packetBufferSize c) datagram;
              s' = s\<lparr>lr_buffer := put_at (lr_position s) data (lr_buffer s)\<rparr>
          in if fromDevice then s'\<lparr>lr_pc := AtMark index (length data)\<rparr>
             else return_zero (s'\<lparr>lr_tracking := ReleasePosition (lr_tracking s) index\<rparr>))"

definition mark_stage :: "int \<Rightarrow> nat \<Rightarrow> reader \<Rightarrow> reader" where
  "mark_stage index n s = s\<lparr>lr_tracking := MarkPositionInUse (lr_tracking s) index,
     lr_pc := AtSend \<lparr>rbd_off = lr_position s, rbd_len = n, rbd_position = index\<rparr>\<rparr>"

definition send_stage :: "reader_config \<Rightarrow> RingBufferData \<Rightarrow> reader \<Rightarrow> reader" where
  "send_stage c d s =
     (let position = lr_position s + rc_packetBufferSize c
      in s\<lparr>lr_recv := lr_recv s @ [d],
           lr_position := (if position \<ge> rc_packetBufferSize c * rc_nPacketsInBuffer c then 0 else position),
           lr_totalSize := lr_totalSize s + rbd_len d, lr_pc := AtStart\<rparr>)"

text \<open>\<open>readUDPSocket\<close> without interruption.\<close>

definition readUDPSocket :: "reader_config \<Rightarrow> bool \<Rightarrow> udp_read \<Rightarrow> reader \<Rightarrow> reader option" where
  "readUDPSocket c timer r s =
     (case acquire_stage c timer s of
        None \<Rightarrow> None
      | Some s1 \<Rightarrow>
          (case lr_pc s1 of
             AtRead index \<Rightarrow>
               let s2 = read_stage c index r s1
               in (case lr_pc s2 of
                     AtMark i n \<Rightarrow>
                       let s3 = mark_stage i n s2
                       in (case lr_pc s3 of AtSend d \<Rightarrow> Some (send_stage c d s3) | _ \<Rightarrow> Some s3)
                   | _ \<Rightarrow> Some s2)
           | _ \<Rightarrow> Some s1))"

text \<open>One iteration of \<open>readPacket\<close> that receives from the channel.\<close>

definition consume_stage :: "reader_config \<Rightarrow> reader \<Rightarrow> reader" where
  "consume_stage c s =
     (case lr_recv s of
        [] \<Rightarrow> s
      | d # ds \<Rightarrow>
          let (b, tracking) = buildEquipmentData (slice_of (lr_buffer s)) (rc_equipment c) d
                (rbd_position d) (lr_builder s, lr_tracking s)
          in s\<lparr>lr_recv := ds, lr_builder := b, lr_tracking := tracking\<rparr>)"

text \<open>
  A step of one of the two goroutines: the state and the payloads sent so far, before and after. A
  send waits until the channel has room (an unbuffered channel behaves as one with room for the
  value handed over).
\<close>

inductive reader_step :: "reader_config \<Rightarrow> reader \<Rightarrow> bytes list \<Rightarrow> reader \<Rightarrow> bytes list \<Rightarrow> bool" for c where
  step_acquire: "lr_pc s = AtStart \<Longrightarrow> acquire_stage c timer s = Some s' \<Longrightarrow> reader_step c s ds s' ds"
| step_read: "lr_pc s = AtRead i \<Longrightarrow> reader_step c s ds (read_stage c i r s) ds"
| step_mark: "lr_pc s = AtMark i n \<Longrightarrow> reader_step c s ds (mark_stage i n s) ds"
| step_send: "lr_pc s = AtSend d \<Longrightarrow> length (lr_recv s) < max 1 (rc_recvCap c) \<Longrightarrow>
    reader_step c s ds (send_stage c d s) (ds @ [slice_of (lr_buffer s) d])"
| step_consume: "lr_recv s \<noteq> [] \<Longrightarrow> reader_step c s ds (consume_stage c s) ds"

inductive reader_steps :: "reader_config \<Rightarrow> reader \<Rightarrow> bytes list \<Rightarrow> reader \<Rightarrow> bytes list \<Rightarrow> bool" for c s ds where
  steps_refl: "reader_steps c s ds s ds"
| steps_step: "reader_steps c s ds s' ds' \<Longrightarrow> reader_step c s' ds' s'' ds'' \<Longrightarrow> reader_steps c s ds s'' ds''"

definition reader_run :: "reader_config \<Rightarrow> reader \<Rightarrow> bytes list \<Rightarrow> bool" where
  "reader_run c s ds \<longleftrightarrow> reader_steps c (reader_init c) [] s ds"

inductive_cases reader_stepE: "reader_step c s ds s' ds'"

section \<open>The builder on packets\<close>

text \<open>
  The specification of the consumer works on the bytes of the packets: no buffer, no slots.
\<close>

definition build_packet :: "Equipment \<Rightarrow> bytes builder \<Rightarrow> bytes \<Rightarrow> bytes builder" where
  "build_packet e b data =
     (fst (buildEquipmentData id e data 0 (b, NewRingBufferTracking 0)))\<lparr>b_bufferPositions := []\<rparr>"

definition build_packets :: "Equipment \<Rightarrow> bytes list \<Rightarrow> bytes builder" where
  "build_packets e = foldl (build_packet e) builder_init"

definition abs_builder :: "('f \<Rightarrow> bytes) \<Rightarrow> 'f builder \<Rightarrow> bytes builder" where
  "abs_builder rd b = \<lparr>b_fragments = map rd (b_fragments b), b_bufferPositions = [],
     b_eventID = b_eventID b, b_evtError = b_evtError b,
     b_expectedSequenceCounter = b_expectedSequenceCounter b, b_out = b_out b, b_stops = b_stops b\<rparr>"

lemma buildEquipmentData_refines:
  "abs_builder rd (fst (buildEquipmentData rd e f i (b, t))) =
     build_packet e (abs_builder rd b) (rd f)"
  by (simp add: build_packet_def buildEquipmentData_def abs_builder_def Let_def)

lemma buildEquipmentData_positions:
  "buildEquipmentData rd e f i (b, t) = (b', t') \<Longrightarrow>
     (b_fragments b' = [] \<and> b_bufferPositions b' = [] \<and>
      t' = foldl ReleasePosition t (b_bufferPositions b @ [i])) \<or>
     (b_fragments b' = b_fragments b @ [f] \<and> b_bufferPositions b' = b_bufferPositions b @ [i] \<and> t' = t)"
  by (auto simp: buildEquipmentData_def Let_def split: if_splits)

section \<open>The shared buffer is never overwritten\<close>

text \<open>The slices that hold data not yet processed: collected, queued, or about to be sent.\<close>

definition owned :: "reader \<Rightarrow> RingBufferData list" where
  "owned s = b_fragments (lr_builder s) @ lr_recv s @
     (case lr_pc s of AtSend d \<Rightarrow> [d] | _ \<Rightarrow> [])"

definition owned_ok :: "reader_config \<Rightarrow> RingBufferTracking \<Rightarrow> RingBufferData \<Rightarrow> bool" where
  "owned_ok c t d \<longleftrightarrow> in_range t (rbd_position d) \<and> rb_slot t (rbd_position d) = InUse \<and>
     rbd_off d = nat (rbd_position d) * rc_packetBufferSize c \<and> rbd_len d \<le> rc_packetBufferSize c"

definition pc_ok :: "reader_config \<Rightarrow> reader \<Rightarrow> bool" where
  "pc_ok c s \<longleftrightarrow> (case lr_pc s of
      AtRead i \<Rightarrow> i = bufferIndex c s \<and> rb_slot (lr_tracking s) i = Acquired
    | AtMark i n \<Rightarrow> i = bufferIndex c s \<and> rb_slot (lr_tracking s) i = Acquired \<and> n \<le> rc_packetBufferSize c
    | _ \<Rightarrow> True)"

definition reader_inv :: "reader_config \<Rightarrow> reader \<Rightarrow> bool" where
  "reader_inv c s \<longleftrightarrow>
     rb_invar (lr_tracking s) \<and> rb_size (lr_tracking s) = int (rc_nPacketsInBuffer c) \<and>
     length (lr_buffer s) = rc_packetBufferSize c * rc_nPacketsInBuffer c \<and>
     b_bufferPositions (lr_builder s) = map rbd_position (b_fragments (lr_builder s)) \<and>
     distinct (map rbd_position (owned s)) \<and> (\<forall>d \<in> set (owned s). owned_ok c (lr_tracking s) d) \<and>
     pc_ok c s \<and> rc_packetBufferSize c dvd lr_position s \<and>
     (\<forall>i. rb_slot (lr_tracking s) i = InUse \<longrightarrow> i \<in> rbd_position ` set (owned s))"

lemmas reader_inv_defs = reader_inv_def owned_def pc_ok_def

lemma rb_slot_range: "rb_slot r i \<noteq> Free \<Longrightarrow> in_range r i"
  by (auto simp: rb_slot_def split: if_splits)

lemma owned_ok_mono:
  "owned_ok c t d \<Longrightarrow> rb_size t' = rb_size t \<Longrightarrow> rb_slot t' (rbd_position d) = rb_slot t (rbd_position d) \<Longrightarrow>
   owned_ok c t' d"
  by (simp add: owned_ok_def in_range_size)

lemma reader_inv_init: "reader_inv c (reader_init c)"
  by (simp add: reader_inv_defs reader_init_def builder_init_def rb_invar_New rb_slot_New)

text \<open>A step that keeps the owned slices, their slots in use and the sizes keeps the invariant.\<close>

lemma reader_inv_change:
  assumes inv: "reader_inv c s"
    and same: "lr_builder s' = lr_builder s" "owned s' = owned s"
      "length (lr_buffer s') = length (lr_buffer s)"
    and track: "rb_invar (lr_tracking s')" "rb_size (lr_tracking s') = rb_size (lr_tracking s)"
      "\<And>i. rb_slot (lr_tracking s') i = InUse \<longleftrightarrow> rb_slot (lr_tracking s) i = InUse"
    and pc: "pc_ok c s'" "rc_packetBufferSize c dvd lr_position s'"
  shows "reader_inv c s'"
proof -
  have "owned_ok c (lr_tracking s') d" if "d \<in> set (owned s)" for d
    using that inv track by (auto simp: reader_inv_def owned_ok_def in_range_size)
  then show ?thesis using assms by (auto simp: reader_inv_def)
qed

lemma owned_simps [simp]:
  "owned (s\<lparr>lr_tracking := t\<rparr>) = owned s" "owned (s\<lparr>lr_buffer := b\<rparr>) = owned s"
  "owned (s\<lparr>lr_position := p\<rparr>) = owned s" "owned (s\<lparr>lr_bufferErrors := e\<rparr>) = owned s"
  by (simp_all add: owned_def)

lemma owned_pc:
  "(\<forall>d. lr_pc s \<noteq> AtSend d) \<Longrightarrow> (\<forall>d. pc \<noteq> AtSend d) \<Longrightarrow> owned (s\<lparr>lr_pc := pc\<rparr>) = owned s"
  by (auto simp: owned_def split: reader_pc.splits)

lemma owned_return_zero: "(\<forall>d. lr_pc s \<noteq> AtSend d) \<Longrightarrow> owned (return_zero s) = owned s"
  by (simp add: return_zero_def owned_pc)

lemma inv_acquire:
  assumes inv: "reader_inv c s" and pc: "lr_pc s = AtStart" and step: "acquire_stage c timer s = Some s'"
  shows "reader_inv c s'"
proof (cases "TryAcquirePosition (lr_tracking s) (bufferIndex c s)
    (effective_timeout (rc_bufferTimeout c)) timer")
  case (AcqOk r)
  have "rb_invar (lr_tracking s)" using inv by (simp add: reader_inv_def)
  note r = TryAcquirePosition_free [OF this AcqOk]
  have s': "s' = s\<lparr>lr_tracking := r, lr_pc := AtRead (bufferIndex c s)\<rparr>"
    using step AcqOk by (simp add: acquire_stage_def)
  show ?thesis
    by (rule reader_inv_change [OF inv])
      (use inv pc r s' in \<open>auto simp: owned_pc pc_ok_def bufferIndex_def reader_inv_def\<close>)
next
  case (AcqError e)
  then have s': "s' = return_zero (s\<lparr>lr_bufferErrors := lr_bufferErrors s + 1\<rparr>)"
    using step by (simp add: acquire_stage_def)
  show ?thesis
    by (rule reader_inv_change [OF inv])
      (use inv pc s' in \<open>auto simp: owned_return_zero return_zero_def pc_ok_def reader_inv_def owned_pc\<close>)
qed (use step in \<open>simp add: acquire_stage_def\<close>)

lemma pc_acquired:
  assumes "reader_inv c s" and "lr_pc s = AtRead i \<or> lr_pc s = AtMark i n"
  shows "i = bufferIndex c s" and "rb_slot (lr_tracking s) i = Acquired" and "in_range (lr_tracking s) i"
    and "rb_invar (lr_tracking s)"
  using assms rb_slot_range [of "lr_tracking s" i] by (auto simp: reader_inv_def pc_ok_def)

lemma inv_release:
  assumes inv: "reader_inv c s" and pc: "lr_pc s = AtRead i"
  shows "reader_inv c (return_zero (s\<lparr>lr_tracking := ReleasePosition (lr_tracking s) i\<rparr>))"
proof -
  note a = pc_acquired [OF inv disjI1 [OF pc]]
  note r = ReleasePosition_frees [OF a(4,3)]
  show ?thesis
    by (rule reader_inv_change [OF inv])
      (use pc a r in \<open>auto simp: owned_return_zero return_zero_def pc_ok_def owned_pc\<close>)
qed

lemma bufferIndex_position:
  "rc_packetBufferSize c dvd lr_position s \<Longrightarrow> nat (bufferIndex c s) * rc_packetBufferSize c = lr_position s"
  by (simp add: bufferIndex_def)

lemma slot_fits:
  assumes "reader_inv c s" and "rb_slot (lr_tracking s) (bufferIndex c s) = Acquired" and "k \<le> rc_packetBufferSize c"
  shows "lr_position s + k \<le> length (lr_buffer s)"
proof -
  have "bufferIndex c s < int (rc_nPacketsInBuffer c)"
    using rb_slot_range [of "lr_tracking s"] assms by (auto simp: in_range_size reader_inv_def)
  then have "Suc (nat (bufferIndex c s)) \<le> rc_nPacketsInBuffer c" by (simp add: bufferIndex_def)
  then have "Suc (nat (bufferIndex c s)) * rc_packetBufferSize c \<le> length (lr_buffer s)"
    using assms(1) mult_le_mono1 [of _ _ "rc_packetBufferSize c"]
    by (simp add: reader_inv_def mult.commute [of "rc_packetBufferSize c"] del: mult_Suc)
  then show ?thesis
    using assms bufferIndex_position [of c s] by (simp add: reader_inv_def)
qed

lemma inv_write:
  assumes inv: "reader_inv c s" and pc: "lr_pc s = AtRead i"
    and data: "length data \<le> rc_packetBufferSize c"
  shows "reader_inv c (s\<lparr>lr_buffer := put_at (lr_position s) data (lr_buffer s)\<rparr>)"
proof -
  note a = pc_acquired [OF inv disjI1 [OF pc]]
  have "lr_position s + length data \<le> length (lr_buffer s)"
    using slot_fits [OF inv _ data] a by simp
  then show ?thesis
    by (intro reader_inv_change [OF inv])
      (use inv pc in \<open>auto simp: pc_ok_def bufferIndex_def reader_inv_def\<close>)
qed

lemma inv_read:
  assumes inv: "reader_inv c s" and pc: "lr_pc s = AtRead i"
  shows "reader_inv c (read_stage c i r s)"
proof (cases r)
  case (UdpError e)
  then show ?thesis using inv_release [OF inv pc] by (simp add: read_stage_def)
next
  case (UdpPacket dgram fromDevice)
  let ?data = "take (rc_packetBufferSize c) dgram"
  let ?s = "s\<lparr>lr_buffer := put_at (lr_position s) ?data (lr_buffer s)\<rparr>"
  have w: "reader_inv c ?s" by (rule inv_write [OF inv pc]) simp
  have pc': "lr_pc ?s = AtRead i" using pc by simp
  show ?thesis
  proof (cases fromDevice)
    case True
    note a = pc_acquired [OF w disjI1 [OF pc']]
    have "reader_inv c (?s\<lparr>lr_pc := AtMark i (length ?data)\<rparr>)"
      by (rule reader_inv_change [OF w])
        (use a w pc' in \<open>auto simp: owned_pc pc_ok_def reader_inv_def bufferIndex_def\<close>)
    with True show ?thesis by (simp add: read_stage_def UdpPacket Let_def)
  next
    case False
    then show ?thesis using inv_release [OF w pc'] by (simp add: read_stage_def UdpPacket Let_def)
  qed
qed

lemma inv_mark:
  assumes inv: "reader_inv c s" and pc: "lr_pc s = AtMark i n"
  shows "reader_inv c (mark_stage i n s)"
proof -
  let ?t = "lr_tracking s"
  note i = pc_acquired [OF inv disjI2 [OF pc]]
  have n: "n \<le> rc_packetBufferSize c" using inv pc by (auto simp: reader_inv_def pc_ok_def)
  note r = MarkPositionInUse_acquired [OF i(4,3,2)]
  have old: "owned_ok c (MarkPositionInUse ?t i) d \<and> rbd_position d \<noteq> i" if "d \<in> set (owned s)" for d
    using that inv r i by (auto simp: reader_inv_def owned_ok_def in_range_size)
  have new: "owned_ok c (MarkPositionInUse ?t i)
      \<lparr>rbd_off = lr_position s, rbd_len = n, rbd_position = i\<rparr>"
    using r i n inv bufferIndex_position [of c s]
    by (auto simp: owned_ok_def in_range_size reader_inv_def)
  have own: "owned (mark_stage i n s) =
      owned s @ [\<lparr>rbd_off = lr_position s, rbd_len = n, rbd_position = i\<rparr>]"
    using pc by (simp add: owned_def mark_stage_def)
  show ?thesis
    unfolding reader_inv_def own
    using inv r old new by (auto simp: mark_stage_def reader_inv_def pc_ok_def)
qed

lemma inv_send:
  assumes "reader_inv c s" and "lr_pc s = AtSend d"
  shows "reader_inv c (send_stage c d s)"
proof (rule reader_inv_change [OF assms(1)])
  show "owned (send_stage c d s) = owned s"
    using assms(2) by (simp add: owned_def send_stage_def Let_def)
qed (use assms in \<open>auto simp: reader_inv_def pc_ok_def send_stage_def Let_def\<close>)

lemma inv_consume:
  assumes inv: "reader_inv c s" and recv: "lr_recv s = d # ds"
  shows "reader_inv c (consume_stage c s)"
proof -
  let ?t = "lr_tracking s" and ?b = "lr_builder s"
  obtain b t where bt: "buildEquipmentData (slice_of (lr_buffer s)) (rc_equipment c) d
      (rbd_position d) (?b, ?t) = (b, t)" by force
  then have s': "consume_stage c s = s\<lparr>lr_recv := ds, lr_builder := b, lr_tracking := t\<rparr>"
    using recv by (simp add: consume_stage_def)
  define rest where "rest = ds @ (case lr_pc s of AtSend d \<Rightarrow> [d] | _ \<Rightarrow> [])"
  have own: "owned s = (b_fragments ?b @ [d]) @ rest" using recv by (simp add: owned_def rest_def)
  from buildEquipmentData_positions [OF bt] show ?thesis
  proof
    assume e: "b_fragments b = [] \<and> b_bufferPositions b = [] \<and>
      t = foldl ReleasePosition ?t (b_bufferPositions ?b @ [rbd_position d])"
    let ?ps = "map rbd_position (b_fragments ?b @ [d])"
    have t: "t = foldl ReleasePosition ?t ?ps" using e inv by (simp add: reader_inv_def)
    have use: "rb_slot ?t i = InUse \<and> 0 \<le> i \<and> i < rb_size ?t" if "i \<in> set ?ps" for i
      using that inv own by (auto simp: reader_inv_def owned_ok_def in_range_size)
    have r: "rb_slot t = (\<lambda>i. if i \<in> set ?ps then Free else rb_slot ?t i)" "rb_invar t"
      "rb_size t = rb_size ?t"
      using rb.release_all [of ?t ?ps] use inv unfolding t reader_inv_def by blast+
    have own': "owned (consume_stage c s) = rest" using e by (simp add: s' owned_def rest_def)
    have dis: "set ?ps \<inter> set (map rbd_position rest) = {}" "distinct (map rbd_position rest)"
      using inv unfolding reader_inv_def own map_append [of _ _ rest] distinct_append by blast+
    have "owned_ok c t x" if "x \<in> set rest" for x
    proof -
      have "rbd_position x \<in> set (map rbd_position rest)" using that by simp
      then have "rbd_position x \<notin> set ?ps" using dis(1) by blast
      moreover have "owned_ok c ?t x" using that inv own by (simp add: reader_inv_def)
      ultimately show ?thesis using r by (simp add: owned_ok_def in_range_size)
    qed
    moreover have "pc_ok c (consume_stage c s)"
      using inv use r unfolding s' by (fastforce simp: reader_inv_def pc_ok_def bufferIndex_def split: reader_pc.splits)
    moreover have "i \<in> rbd_position ` set rest" if "rb_slot t i = InUse" for i
      using that inv r unfolding reader_inv_def own by (auto split: if_splits)
    ultimately show ?thesis
      unfolding reader_inv_def own' using inv e r dis(2) by (simp add: s' reader_inv_def)
  next
    assume e: "b_fragments b = b_fragments ?b @ [d] \<and>
      b_bufferPositions b = b_bufferPositions ?b @ [rbd_position d] \<and> t = ?t"
    then have own': "owned (consume_stage c s) = owned s" using own by (simp add: s' owned_def rest_def)
    have "pc_ok c (consume_stage c s) = pc_ok c s"
      using e by (cases "lr_pc s") (simp_all add: s' pc_ok_def bufferIndex_def)
    then show ?thesis
      unfolding reader_inv_def own' using inv e by (simp add: s' reader_inv_def)
  qed
qed

text \<open>The bytes of an owned slice do not change when a datagram is stored in the acquired slot.\<close>

lemma take_drop_put_at:
  "i + length bs \<le> length s \<Longrightarrow> j + n \<le> i \<or> i + length bs \<le> j \<Longrightarrow> j + n \<le> length s \<Longrightarrow>
   take n (drop j (put_at i bs s)) = take n (drop j s)"
proof (elim disjE)
  assume "i + length bs \<le> length s" and "j + n \<le> i"
  then have "take n (drop j (put_at i bs s)) = take n (drop j (take i s))"
    by (simp add: put_at_def)
  with \<open>j + n \<le> i\<close> show ?thesis by (simp add: drop_take min_def)
next
  assume "i + length bs \<le> length s" and "i + length bs \<le> j"
  then have "drop j (put_at i bs s) = drop j s" by (simp add: put_at_def)
  then show ?thesis by simp
qed

lemma slots_disjoint:
  assumes "p \<noteq> q" and "k \<le> (z :: nat)" and "l \<le> z"
  shows "p * z + k \<le> q * z \<or> q * z + l \<le> p * z"
proof (cases "p < q")
  case True
  then have "Suc p * z \<le> q * z" by (intro mult_le_mono1) simp
  with assms show ?thesis by simp
next
  case False
  then have "Suc q * z \<le> p * z" using assms(1) by (intro mult_le_mono1) simp
  with assms show ?thesis by simp
qed

lemma owned_slice_stable:
  assumes inv: "reader_inv c s" and pc: "lr_pc s = AtRead i" and d: "d \<in> set (owned s)"
    and data: "length data \<le> rc_packetBufferSize c"
  shows "slice_of (put_at (lr_position s) data (lr_buffer s)) d = slice_of (lr_buffer s) d"
proof -
  let ?z = "rc_packetBufferSize c"
  note a = pc_acquired [OF inv disjI1 [OF pc]]
  have ok: "owned_ok c (lr_tracking s) d" using inv d by (auto simp: reader_inv_def)
  then have "rbd_position d \<noteq> i" "0 \<le> rbd_position d" "0 \<le> i"
    using a(2,3) by (auto simp: owned_ok_def in_range_def)
  then have ne: "nat (rbd_position d) \<noteq> nat i" by simp
  have pos: "lr_position s = nat i * ?z"
    using inv a(1) bufferIndex_position [of c s] by (simp add: reader_inv_def)
  have "nat (rbd_position d) < rc_nPacketsInBuffer c"
    using ok inv by (auto simp: owned_ok_def in_range_size reader_inv_def)
  then have "Suc (nat (rbd_position d)) * ?z \<le> length (lr_buffer s)"
    using inv mult_le_mono1 [of "Suc (nat (rbd_position d))" _ ?z]
    by (simp add: reader_inv_def mult.commute [of ?z] del: mult_Suc)
  then have fits: "rbd_off d + rbd_len d \<le> length (lr_buffer s)"
    using ok by (simp add: owned_ok_def)
  have "lr_position s + length data \<le> length (lr_buffer s)"
    using slot_fits [OF inv _ data] a by simp
  moreover have "rbd_off d + rbd_len d \<le> lr_position s \<or> lr_position s + length data \<le> rbd_off d"
    using slots_disjoint [OF ne _ data, of "rbd_len d"] ok pos by (simp add: owned_ok_def)
  ultimately show ?thesis using fits by (simp add: slice_of_def take_drop_put_at)
qed

subsection \<open>Refinement\<close>

text \<open>
  The payloads sent are those already consumed and those waiting in the channel; the builder has
  seen the former.
\<close>

definition reader_abs :: "reader_config \<Rightarrow> reader \<Rightarrow> bytes list \<Rightarrow> bool" where
  "reader_abs c s ds \<longleftrightarrow> (\<exists>xs. ds = xs @ map (slice_of (lr_buffer s)) (lr_recv s) \<and>
     abs_builder (slice_of (lr_buffer s)) (lr_builder s) = build_packets (rc_equipment c) xs)"

lemma reader_abs_same:
  "reader_abs c s ds \<Longrightarrow> lr_recv s' = lr_recv s \<Longrightarrow> lr_builder s' = lr_builder s \<Longrightarrow>
   (\<And>d. d \<in> set (owned s) \<Longrightarrow> slice_of (lr_buffer s') d = slice_of (lr_buffer s) d) \<Longrightarrow> reader_abs c s' ds"
  unfolding reader_abs_def abs_builder_def owned_def
  by (auto cong: map_cong)

lemma abs_read:
  assumes "reader_inv c s" and "lr_pc s = AtRead i" and "reader_abs c s ds"
  shows "reader_abs c (read_stage c i r s) ds"
proof (rule reader_abs_same [OF assms(3)])
  show "slice_of (lr_buffer (read_stage c i r s)) d = slice_of (lr_buffer s) d"
    if "d \<in> set (owned s)" for d
    using owned_slice_stable [OF assms(1,2) that]
    by (auto simp: read_stage_def return_zero_def Let_def split: udp_read.splits)
qed (auto simp: read_stage_def return_zero_def Let_def split: udp_read.splits)

lemma abs_consume:
  assumes "reader_abs c s ds" and "lr_recv s = d # rest"
  shows "reader_abs c (consume_stage c s) ds"
proof -
  let ?rd = "slice_of (lr_buffer s)"
  obtain b t where bt: "buildEquipmentData ?rd (rc_equipment c) d
      (rbd_position d) (lr_builder s, lr_tracking s) = (b, t)" by force
  obtain xs where xs: "ds = xs @ map ?rd (lr_recv s)"
    "abs_builder ?rd (lr_builder s) = build_packets (rc_equipment c) xs"
    using assms(1) by (auto simp: reader_abs_def)
  have "abs_builder ?rd b = build_packets (rc_equipment c) (xs @ [?rd d])"
    using buildEquipmentData_refines [of ?rd "rc_equipment c" d "rbd_position d" "lr_builder s" "lr_tracking s"]
    by (simp add: bt xs(2)) (simp add: build_packets_def)
  moreover have "consume_stage c s = s\<lparr>lr_recv := rest, lr_builder := b, lr_tracking := t\<rparr>"
    using assms(2) bt by (simp add: consume_stage_def)
  ultimately show ?thesis
    unfolding reader_abs_def using xs(1) assms(2) by (intro exI [of _ "xs @ [?rd d]"]) simp
qed

lemma reader_step_inv:
  assumes "reader_step c s ds s' ds'" and "reader_inv c s" and "reader_abs c s ds"
  shows "reader_inv c s' \<and> reader_abs c s' ds'"
  using assms
proof (cases rule: reader_step.cases)
  case (step_acquire timer)
  then have "lr_recv s' = lr_recv s \<and> lr_builder s' = lr_builder s \<and> lr_buffer s' = lr_buffer s"
    by (auto simp: acquire_stage_def return_zero_def split: acquire_result.splits)
  with step_acquire assms show ?thesis using inv_acquire reader_abs_same [of c s ds s'] by auto
next
  case (step_read i r)
  then show ?thesis using assms inv_read abs_read by blast
next
  case (step_mark i n)
  then show ?thesis
    using assms inv_mark reader_abs_same [of c s ds "mark_stage i n s"] by (auto simp: mark_stage_def)
next
  case (step_send d)
  then show ?thesis using assms inv_send by (auto simp: reader_abs_def send_stage_def Let_def)
next
  case step_consume
  then show ?thesis using assms inv_consume abs_consume by (metis list.exhaust)
qed

lemma reader_run_inv: "reader_run c s ds \<Longrightarrow> reader_inv c s \<and> reader_abs c s ds"
  unfolding reader_run_def
proof (induction rule: reader_steps.induct)
  case steps_refl
  show ?case
    using reader_inv_init
    by (simp add: reader_abs_def reader_init_def build_packets_def abs_builder_def builder_init_def)
next
  case (steps_step s ds s' ds')
  then show ?case using reader_step_inv by blast
qed

text \<open>
  C6. The shared ring buffer never corrupts data: in every interleaving of the goroutine that stores
  datagrams and the one that assembles events, the equipment data emitted are those of the
  specification applied to the payloads in the order they were sent, less those still waiting in
  the channel.
\<close>

theorem readout_refines_packets:
  assumes "reader_run c s ds"
  shows "\<exists>xs ys. ds = xs @ ys \<and> ys = map (slice_of (lr_buffer s)) (lr_recv s) \<and>
    b_out (lr_builder s) = b_out (build_packets (rc_equipment c) xs) \<and>
    b_stops (lr_builder s) = b_stops (build_packets (rc_equipment c) xs)"
proof -
  obtain xs where "ds = xs @ map (slice_of (lr_buffer s)) (lr_recv s)"
    and abs: "abs_builder (slice_of (lr_buffer s)) (lr_builder s) = build_packets (rc_equipment c) xs"
    using reader_run_inv [OF assms] by (auto simp: reader_abs_def)
  moreover have "b_out (lr_builder s) = b_out (build_packets (rc_equipment c) xs)"
    "b_stops (lr_builder s) = b_stops (build_packets (rc_equipment c) xs)"
    by (simp_all add: abs [symmetric] abs_builder_def)
  ultimately show ?thesis by blast
qed

section \<open>What is emitted for a stream of packets\<close>

definition is_end :: "bytes \<Rightarrow> bool" where
  "is_end p \<longleftrightarrow> length p = 4 \<and> le32_at p 0 = END_WORD"

text \<open>
  The check of the sequence counters of an event, from a first expected value on: packets of four
  bytes are not checked, shorter ones are errors.
\<close>

fun seg_ok :: "int \<Rightarrow> bytes list \<Rightarrow> bool" where
  "seg_ok n [] = True"
| "seg_ok n (p # ps) =
     (if length p = 4 then seg_ok n ps
      else 4 < length p \<and> be32_at p 0 = word_of_int n \<and> seg_ok (n + 1) ps)"

text \<open>Numbered packets pass the check exactly when each carries its number.\<close>

lemma seg_ok_upt:
  assumes "\<And>j. 4 < length (f j)"
  shows "seg_ok (int a) (map f [a..<b]) \<longleftrightarrow> (\<forall>j \<in> {a..<b}. be32_at (f j) 0 = of_nat j)"
proof (induction "b - a" arbitrary: a)
  case 0
  then show ?case by simp
next
  case (Suc n)
  then have ab: "a < b" by simp
  then have "{a..<b} = insert a {Suc a..<b}" by auto
  moreover have "seg_ok (int (Suc a)) (map f [Suc a..<b]) \<longleftrightarrow> (\<forall>j \<in> {Suc a..<b}. be32_at (f j) 0 = of_nat j)"
    using Suc(1) [of "Suc a"] Suc(2) by simp
  ultimately show ?case
    using assms [of a] by (auto simp: upt_conv_Cons [OF ab] add.commute)
qed

lemma build_packet_simps:
  "is_end p \<Longrightarrow> build_packet e b p =
     b\<lparr>b_fragments := [], b_bufferPositions := [],
       b_out := (if \<not> b_evtError b then b_out b @ [\<lparr>ed_EventID = b_eventID b, ed_EquipmentID = eq_ID e,
         ed_Data = addEquipmentHeader (concat (b_fragments b @ [p])) e, ed_Error = False\<rparr>] else b_out b),
       b_eventID := b_eventID b + 1, b_evtError := False, b_expectedSequenceCounter := 0\<rparr>"
  "\<not> is_end p \<Longrightarrow> length p = 4 \<Longrightarrow> build_packet e b p =
     b\<lparr>b_fragments := b_fragments b @ [p], b_bufferPositions := []\<rparr>"
  "length p < 4 \<Longrightarrow> build_packet e b p =
     b\<lparr>b_fragments := b_fragments b @ [p], b_bufferPositions := [], b_evtError := True,
       b_stops := b_stops b @ [packet_too_short (b_eventID b) (length p) (eq_ID e)]\<rparr>"
  "4 < length p \<Longrightarrow> be32_at p 0 = word_of_int (b_expectedSequenceCounter b) \<Longrightarrow> build_packet e b p =
     b\<lparr>b_fragments := b_fragments b @ [p], b_bufferPositions := [],
       b_expectedSequenceCounter := b_expectedSequenceCounter b + 1\<rparr>"
  "4 < length p \<Longrightarrow> be32_at p 0 \<noteq> word_of_int (b_expectedSequenceCounter b) \<Longrightarrow> build_packet e b p =
     b\<lparr>b_fragments := b_fragments b @ [p], b_bufferPositions := [], b_evtError := True,
       b_stops := b_stops b @ [packet_mismatch (b_eventID b) (b_expectedSequenceCounter b) (be32_at p 0)
         (length p) (eq_ID e)],
       b_expectedSequenceCounter := b_expectedSequenceCounter b + 1\<rparr>"
  by (simp_all add: build_packet_def buildEquipmentData_def Let_def is_end_def)

text \<open>Packets before the end word collect, and set the error flag exactly when the check fails.\<close>

lemma build_segment:
  "\<forall>p \<in> set ps. \<not> is_end p \<Longrightarrow>
   \<exists>n stops. foldl (build_packet e) b ps =
       b\<lparr>b_fragments := b_fragments b @ ps,
         b_bufferPositions := (if ps = [] then b_bufferPositions b else []),
         b_evtError := b_evtError b \<or> \<not> seg_ok (b_expectedSequenceCounter b) ps,
         b_expectedSequenceCounter := n, b_stops := b_stops b @ stops\<rparr> \<and>
     (stops = [] \<longleftrightarrow> seg_ok (b_expectedSequenceCounter b) ps)"
proof (induction ps arbitrary: b)
  case Nil
  show ?case by (rule exI [of _ "b_expectedSequenceCounter b"], rule exI [of _ "[]"]) simp
next
  case (Cons p ps)
  let ?b = "build_packet e b p"
  consider (four) "length p = 4" | (short) "length p < 4"
    | (good) "4 < length p" "be32_at p 0 = word_of_int (b_expectedSequenceCounter b)"
    | (bad) "4 < length p" "be32_at p 0 \<noteq> word_of_int (b_expectedSequenceCounter b)"
    by linarith
  then have "\<exists>n st. ?b = b\<lparr>b_fragments := b_fragments b @ [p], b_bufferPositions := [],
        b_evtError := b_evtError b \<or> st \<noteq> [], b_expectedSequenceCounter := n,
        b_stops := b_stops b @ st\<rparr> \<and>
      (seg_ok (b_expectedSequenceCounter b) (p # ps) \<longleftrightarrow> st = [] \<and> seg_ok n ps)"
  proof cases
    case four
    with Cons.prems show ?thesis
      by (intro exI [of _ "b_expectedSequenceCounter b"] exI [of _ "[]"]) (simp add: build_packet_simps)
  next
    case short
    then show ?thesis
      by (intro exI [of _ "b_expectedSequenceCounter b"] exI [of _ "[_]"]) (simp add: build_packet_simps)
  next
    case good
    then show ?thesis
      by (intro exI [of _ "b_expectedSequenceCounter b + 1"] exI [of _ "[]"]) (simp add: build_packet_simps)
  next
    case bad
    then show ?thesis
      by (intro exI [of _ "b_expectedSequenceCounter b + 1"] exI [of _ "[packet_mismatch (b_eventID b)
            (b_expectedSequenceCounter b) (be32_at p 0) (length p) (eq_ID e)]"])
        (simp add: build_packet_simps)
  qed
  then obtain n st where b: "?b = b\<lparr>b_fragments := b_fragments b @ [p], b_bufferPositions := [],
        b_evtError := b_evtError b \<or> st \<noteq> [], b_expectedSequenceCounter := n,
        b_stops := b_stops b @ st\<rparr>"
    and ok: "seg_ok (b_expectedSequenceCounter b) (p # ps) \<longleftrightarrow> st = [] \<and> seg_ok n ps" by blast
  from Cons.IH [of ?b] Cons.prems obtain m stops where
    fold: "foldl (build_packet e) ?b ps = ?b\<lparr>b_fragments := b_fragments ?b @ ps,
      b_bufferPositions := [],
      b_evtError := b_evtError ?b \<or> \<not> seg_ok n ps,
      b_expectedSequenceCounter := m, b_stops := b_stops ?b @ stops\<rparr>"
    and stops: "stops = [] \<longleftrightarrow> seg_ok n ps"
    by (fastforce simp: b)
  show ?case
    by (intro exI [of _ m] exI [of _ "st @ stops"], unfold ok)
      (simp add: fold stops del: seg_ok.simps, simp add: b disj_assoc)
qed

text \<open>The complete events of a stream: the packets of each before its end word.\<close>

definition event_stream :: "bytes list list \<Rightarrow> bytes list" where
  "event_stream segs = concat (map (\<lambda>seg. seg @ [put_le32 END_WORD]) segs)"

definition emitted :: "Equipment \<Rightarrow> int \<Rightarrow> bytes list list \<Rightarrow> EquipmentData list" where
  "emitted e n segs =
     map (\<lambda>(k, seg). \<lparr>ed_EventID = n + int k, ed_EquipmentID = eq_ID e,
          ed_Data = addEquipmentHeader (concat seg @ put_le32 END_WORD) e, ed_Error = False\<rparr>)
       (filter (\<lambda>(k, seg). seg_ok 0 seg) (enumerate 0 segs))"

lemma is_end_put [simp]: "is_end (put_le32 END_WORD)"
  using le32_at_put_le32 [of END_WORD "[]"] by (simp add: is_end_def)

lemma enumerate_Suc: "enumerate (Suc n) xs = map (\<lambda>(k, x). (Suc k, x)) (enumerate n xs)"
  by (induction xs arbitrary: n) auto

lemma emitted_Nil [simp]: "emitted e n [] = []"
  by (simp add: emitted_def)

lemma emitted_Cons:
  "emitted e n (seg # segs) =
     (if seg_ok 0 seg
      then [\<lparr>ed_EventID = n, ed_EquipmentID = eq_ID e,
             ed_Data = addEquipmentHeader (concat seg @ put_le32 END_WORD) e, ed_Error = False\<rparr>]
      else []) @ emitted e (n + 1) segs"
  by (auto simp: emitted_def enumerate_Suc filter_map o_def split_def algebra_simps cong: filter_cong)

lemma emitted_all:
  assumes "\<forall>seg \<in> set segs. seg_ok 0 seg"
  shows "map ed_Data (emitted e k segs) = map (\<lambda>seg. addEquipmentHeader (concat seg @ put_le32 END_WORD) e) segs"
    and "map ed_EventID (emitted e k segs) = map (\<lambda>i. k + int i) [0..<length segs]"
  using assms by (induction segs arbitrary: k) (simp_all add: emitted_Cons map_upt_Suc algebra_simps del: upt_Suc)

definition clean :: "bytes builder \<Rightarrow> bool" where
  "clean b \<longleftrightarrow> b_fragments b = [] \<and> b_bufferPositions b = [] \<and> \<not> b_evtError b \<and>
     b_expectedSequenceCounter b = 0"

lemma build_event:
  assumes "clean b" and "\<forall>p \<in> set seg. \<not> is_end p"
  shows "\<exists>stops. foldl (build_packet e) b (seg @ [put_le32 END_WORD]) =
      b\<lparr>b_out := b_out b @ (if seg_ok 0 seg
          then [\<lparr>ed_EventID = b_eventID b, ed_EquipmentID = eq_ID e,
                 ed_Data = addEquipmentHeader (concat seg @ put_le32 END_WORD) e, ed_Error = False\<rparr>]
          else []),
        b_eventID := b_eventID b + 1, b_stops := b_stops b @ stops\<rparr> \<and> (stops = [] \<longleftrightarrow> seg_ok 0 seg)"
proof -
  obtain n stops where f: "foldl (build_packet e) b seg =
      b\<lparr>b_fragments := seg, b_bufferPositions := [], b_evtError := \<not> seg_ok 0 seg,
        b_expectedSequenceCounter := n, b_stops := b_stops b @ stops\<rparr>"
    and st: "stops = [] \<longleftrightarrow> seg_ok 0 seg"
    using build_segment [OF assms(2), of e b] assms(1) unfolding clean_def by (auto cong: if_cong)
  then show ?thesis
    using assms(1) by (intro exI [of _ stops]) (simp add: f build_packet_simps clean_def)
qed

lemma build_events:
  assumes "clean b" and "\<forall>seg \<in> set segs. \<forall>p \<in> set seg. \<not> is_end p"
  shows "\<exists>stops. foldl (build_packet e) b (event_stream segs) =
      b\<lparr>b_out := b_out b @ emitted e (b_eventID b) segs, b_eventID := b_eventID b + int (length segs),
        b_stops := b_stops b @ stops\<rparr> \<and> (stops = [] \<longleftrightarrow> (\<forall>seg \<in> set segs. seg_ok 0 seg))"
  using assms
proof (induction segs arbitrary: b)
  case Nil
  then show ?case by (intro exI [of _ "[]"]) (simp add: event_stream_def)
next
  case (Cons seg segs)
  obtain st where b: "foldl (build_packet e) b (seg @ [put_le32 END_WORD]) =
      b\<lparr>b_out := b_out b @ emitted e (b_eventID b) [seg], b_eventID := b_eventID b + 1,
        b_stops := b_stops b @ st\<rparr>" and st: "st = [] \<longleftrightarrow> seg_ok 0 seg"
    using build_event [OF Cons.prems(1), of seg e] Cons.prems(2)
    by (auto simp: emitted_Cons)
  let ?b = "b\<lparr>b_out := b_out b @ emitted e (b_eventID b) [seg], b_eventID := b_eventID b + 1,
        b_stops := b_stops b @ st\<rparr>"
  have "clean ?b" using Cons.prems(1) by (simp add: clean_def)
  from Cons.IH [OF this] Cons.prems(2) obtain stops where
    fold: "foldl (build_packet e) ?b (event_stream segs) =
      ?b\<lparr>b_out := b_out ?b @ emitted e (b_eventID ?b) segs,
         b_eventID := b_eventID ?b + int (length segs), b_stops := b_stops ?b @ stops\<rparr>"
    and stops: "stops = [] \<longleftrightarrow> (\<forall>seg \<in> set segs. seg_ok 0 seg)" by auto
  have "event_stream (seg # segs) = (seg @ [put_le32 END_WORD]) @ event_stream segs"
    by (simp add: event_stream_def)
  then have "foldl (build_packet e) b (event_stream (seg # segs)) =
      foldl (build_packet e) ?b (event_stream segs)"
    by (simp only: foldl_append [of _ _ "seg @ [put_le32 END_WORD]"] b)
  with fold show ?case
    by (intro exI [of _ "st @ stops"]) (auto simp: st stops emitted_Cons)
qed

lemma build_packets_stream:
  assumes "\<forall>seg \<in> set segs. \<forall>p \<in> set seg. \<not> is_end p"
  shows "b_out (build_packets e (event_stream segs)) = emitted e 1 segs"
    and "b_eventID (build_packets e (event_stream segs)) = 1 + int (length segs)"
    and "b_stops (build_packets e (event_stream segs)) = [] \<longleftrightarrow> (\<forall>seg \<in> set segs. seg_ok 0 seg)"
proof -
  have "clean builder_init" by (simp add: clean_def builder_init_def)
  from build_events [OF this assms, of e]
  show "b_out (build_packets e (event_stream segs)) = emitted e 1 segs"
    "b_eventID (build_packets e (event_stream segs)) = 1 + int (length segs)"
    "b_stops (build_packets e (event_stream segs)) = [] \<longleftrightarrow> (\<forall>seg \<in> set segs. seg_ok 0 seg)"
    by (auto simp: build_packets_def builder_init_def)
qed

text \<open>
  C7. For every stream of complete events the LDC emits one block per event whose packets pass the
  length and sequence check, numbered by the event's place in the stream; a corrupted event is
  dropped, still counts, and asks for a stop of the run.
\<close>

theorem build_packets_emits:
  assumes "\<forall>seg \<in> set segs. \<forall>p \<in> set seg. \<not> is_end p"
  shows "b_out (build_packets e (event_stream segs)) = emitted e 1 segs \<and>
    b_eventID (build_packets e (event_stream segs)) = 1 + int (length segs) \<and>
    (b_stops (build_packets e (event_stream segs)) = [] \<longleftrightarrow> (\<forall>seg \<in> set segs. seg_ok 0 seg))"
  using build_packets_stream [OF assms] by blast

theorem build_packets_emits_witness:
  "map ed_EventID (b_out (build_packets example_equipment (event_stream
     [[[0, 0, 0, 0, 7]], [[0, 0, 0, 1, 8]], [[0, 0, 0, 0, 9], [0, 0, 0, 1, 10]]]))) = [1, 3]"
proof -
  have "emitted example_equipment 1 [[[0, 0, 0, 0, 7]], [[0, 0, 0, 1, 8]], [[0, 0, 0, 0, 9], [0, 0, 0, 1, 10]]] =
      emitted example_equipment 1 [[[0, 0, 0, 0, 7]]] @
      emitted example_equipment 3 [[[0, 0, 0, 0, 9], [0, 0, 0, 1, 10]]]"
    by (simp add: emitted_Cons emitted_def be32_at_def be32_def le32_def)
  then show ?thesis
    using build_packets_emits [of "[[[0, 0, 0, 0, 7]], [[0, 0, 0, 1, 8]], [[0, 0, 0, 0, 9], [0, 0, 0, 1, 10]]]"
        example_equipment]
    by (simp add: is_end_def emitted_Cons emitted_def be32_at_def be32_def le32_def)
qed

section \<open>Concrete runs, and the position after a failed read\<close>

text \<open>An executable scheduler: one uninterrupted \<open>readUDPSocket\<close>, or one packet consumed.\<close>

datatype reader_act = ReadSocket bool udp_read | ConsumePacket

fun reader_exec :: "reader_config \<Rightarrow> reader_act list \<Rightarrow> reader \<times> bytes list \<Rightarrow> (reader \<times> bytes list) option" where
  "reader_exec c [] st = Some st"
| "reader_exec c (ReadSocket timer r # as) (s, ds) =
     (if lr_pc s = AtStart \<and> length (lr_recv s) < max 1 (rc_recvCap c)
      then (case readUDPSocket c timer r s of
              None \<Rightarrow> None
            | Some s' \<Rightarrow> reader_exec c as
                (s', ds @ map (slice_of (lr_buffer s')) (drop (length (lr_recv s)) (lr_recv s'))))
      else None)"
| "reader_exec c (ConsumePacket # as) (s, ds) =
     (if lr_recv s = [] then None else reader_exec c as (consume_stage c s, ds))"

lemma steps_trans:
  "reader_steps c s1 d1 s2 d2 \<Longrightarrow> reader_steps c s0 d0 s1 d1 \<Longrightarrow> reader_steps c s0 d0 s2 d2"
  by (induction rule: reader_steps.induct) (auto intro: reader_steps.intros)

lemmas one_step = reader_steps.steps_step [OF reader_steps.steps_refl]

text \<open>\<open>readUDPSocket\<close> is a sequence of its stages.\<close>

lemma steps_readUDPSocket:
  assumes s': "readUDPSocket c timer r s = Some s'" and pc: "lr_pc s = AtStart"
    and room: "length (lr_recv s) < max 1 (rc_recvCap c)"
  shows "reader_steps c s ds s'
    (ds @ map (slice_of (lr_buffer s')) (drop (length (lr_recv s)) (lr_recv s')))"
proof -
  obtain s1 where s1: "acquire_stage c timer s = Some s1"
    using s' by (auto simp: readUDPSocket_def split: option.splits)
  have a: "reader_steps c s ds s1 ds" using one_step [OF step_acquire [OF pc s1]] .
  have r1: "lr_recv s1 = lr_recv s" and p1: "lr_pc s1 = AtStart \<or> (\<exists>i. lr_pc s1 = AtRead i)"
    using s1 by (auto simp: acquire_stage_def return_zero_def split: acquire_result.splits)
  show ?thesis
  proof (cases "lr_pc s1")
    case (AtRead i)
    let ?s2 = "read_stage c i r s1"
    have b: "reader_steps c s1 ds ?s2 ds" using one_step [OF step_read [OF AtRead]] .
    have r2: "lr_recv ?s2 = lr_recv s1" and p2: "lr_pc ?s2 = AtStart \<or> (\<exists>n. lr_pc ?s2 = AtMark i n)"
      by (auto simp: read_stage_def return_zero_def Let_def split: udp_read.splits)
    show ?thesis
    proof (cases "lr_pc ?s2")
      case (AtMark j n)
      let ?s3 = "mark_stage j n ?s2" and ?d = "\<lparr>rbd_off = lr_position ?s2, rbd_len = n, rbd_position = j\<rparr>"
      have c: "reader_steps c ?s2 ds ?s3 ds" using one_step [OF step_mark [OF AtMark]] .
      have m: "lr_pc ?s3 = AtSend ?d" "lr_recv ?s3 = lr_recv ?s2" by (simp_all add: mark_stage_def)
      have d: "reader_steps c ?s3 ds (send_stage c ?d ?s3) (ds @ [slice_of (lr_buffer ?s3) ?d])"
        using one_step [OF step_send [OF m(1)]] room r1 r2 m(2) by simp
      have "s' = send_stage c ?d ?s3"
        using s' s1 AtRead AtMark m(1) by (simp add: readUDPSocket_def Let_def)
      with d have "reader_steps c ?s3 ds s'
          (ds @ map (slice_of (lr_buffer s')) (drop (length (lr_recv s)) (lr_recv s')))"
        using r1 r2 m(2) by (simp add: send_stage_def Let_def)
      with a b c show ?thesis by (blast intro: steps_trans)
    next
      case AtStart
      then have "s' = ?s2" using s' s1 AtRead by (simp add: readUDPSocket_def Let_def)
      with a b r1 r2 show ?thesis by (auto intro: steps_trans)
    qed (use p2 in auto)
  next
    case AtStart
    then have "s' = s1" using s' s1 by (simp add: readUDPSocket_def)
    with a r1 show ?thesis by simp
  qed (use p1 in auto)
qed

lemma reader_exec_steps:
  "reader_exec c as (s, ds) = Some (s', ds') \<Longrightarrow> reader_steps c s ds s' ds'"
proof (induction as arbitrary: s ds)
  case Nil
  then show ?case by (simp add: steps_refl)
next
  case (Cons a as)
  show ?case
  proof (cases a)
    case (ReadSocket timer r)
    with Cons.prems obtain s1 where "lr_pc s = AtStart" "length (lr_recv s) < max 1 (rc_recvCap c)"
      "readUDPSocket c timer r s = Some s1"
      "reader_exec c as (s1, ds @ map (slice_of (lr_buffer s1)) (drop (length (lr_recv s)) (lr_recv s1))) = Some (s', ds')"
      by (auto split: if_splits option.splits)
    then show ?thesis using Cons.IH steps_readUDPSocket steps_trans by blast
  next
    case ConsumePacket
    with Cons.prems have "lr_recv s \<noteq> []" "reader_exec c as (consume_stage c s, ds) = Some (s', ds')"
      by (auto split: if_splits)
    then show ?thesis using Cons.IH one_step [OF step_consume] steps_trans by blast
  qed
qed

definition example_config :: reader_config where
  "example_config = \<lparr>rc_equipment = example_equipment, rc_packetBufferSize = 8, rc_nPacketsInBuffer = 2,
     rc_bufferTimeout = 0, rc_recvCap = 4\<rparr>"

text \<open>An event of two packets through a buffer of two slots.\<close>

definition example_acts :: "reader_act list" where
  "example_acts =
     [ReadSocket False (UdpPacket [0, 0, 0, 0, 1] True),
      ReadSocket False (UdpPacket [0xfa, 0xfa, 0xfa, 0xfa] True), ConsumePacket, ConsumePacket]"

theorem readout_refines_packets_witness:
  "\<exists>s. reader_run example_config s [[0, 0, 0, 0, 1], [0xfa, 0xfa, 0xfa, 0xfa]] \<and>
     map ed_EventID (b_out (lr_builder s)) = [1] \<and>
     (\<exists>xs ys. [[0, 0, 0, 0, 1], [0xfa, 0xfa, 0xfa, 0xfa]] = xs @ ys \<and>
        ys = map (slice_of (lr_buffer s)) (lr_recv s) \<and>
        b_out (lr_builder s) = b_out (build_packets (rc_equipment example_config) xs) \<and>
        b_stops (lr_builder s) = b_stops (build_packets (rc_equipment example_config) xs))"
proof -
  let ?ds = "[[0, 0, 0, 0, 1], [0xfa, 0xfa, 0xfa, 0xfa]]"
  have "map_option (\<lambda>(s, ds). (map ed_EventID (b_out (lr_builder s)), ds))
      (reader_exec example_config example_acts (reader_init example_config, [])) = Some ([1], ?ds)"
    by code_simp
  then obtain s where ex: "reader_exec example_config example_acts (reader_init example_config, []) = Some (s, ?ds)"
    and out: "map ed_EventID (b_out (lr_builder s)) = [1]" by auto
  have run: "reader_run example_config s ?ds"
    using reader_exec_steps [OF ex] by (simp add: reader_run_def)
  show ?thesis
    by (rule exI [of _ s]) (intro conjI run out readout_refines_packets [OF run])
qed

text \<open>
  The reader waits for slot 0 while the consumer holds it for an event that is not complete, and
  nothing is queued: no step but a failing acquisition is possible.
\<close>

definition wedged :: "reader \<Rightarrow> bool" where
  "wedged s \<longleftrightarrow> lr_pc s = AtStart \<and> lr_recv s = [] \<and> lr_position s = 0 \<and>
     rb_invar (lr_tracking s) \<and> rb_slot (lr_tracking s) 0 = InUse"

lemma wedged_step:
  assumes "reader_step c s ds s' ds'" and "wedged s"
  shows "wedged s' \<and> ds' = ds \<and> lr_builder s' = lr_builder s"
  using assms(1)
proof (cases rule: reader_step.cases)
  case (step_acquire timer)
  have "TryAcquirePosition (lr_tracking s) (bufferIndex c s) t timer \<noteq> AcqOk r" for t r
    using TryAcquirePosition_free [of "lr_tracking s" "bufferIndex c s" t timer r] assms(2)
    by (auto simp: wedged_def bufferIndex_def)
  with step_acquire have "s' = return_zero (s\<lparr>lr_bufferErrors := lr_bufferErrors s + 1\<rparr>)"
    by (auto simp: acquire_stage_def split: acquire_result.splits)
  with assms(2) step_acquire show ?thesis by (simp add: wedged_def return_zero_def)
qed (use assms(2) in \<open>auto simp: wedged_def\<close>)

lemma wedged_steps:
  "reader_steps c s ds s' ds' \<Longrightarrow> wedged s \<Longrightarrow> wedged s' \<and> ds' = ds \<and> lr_builder s' = lr_builder s"
  by (induction rule: reader_steps.induct) (auto dest: wedged_step)

text \<open>
  C36. \<open>readUDPSocket\<close> returns position 0, not the current one, when a datagram does not come from the
  device (or a read fails): after a first packet of an event and one stray datagram the reader waits
  for slot 0, which the unfinished event holds, and in every continuation nothing is received any
  more, although the other slot is free.
\<close>

theorem stray_datagram_wedges_reader:
  "\<exists>s. reader_exec example_config
      [ReadSocket False (UdpPacket [0, 0, 0, 0, 1] True), ConsumePacket, ReadSocket False (UdpPacket [9] False)]
      (reader_init example_config, []) = Some (s, [[0, 0, 0, 0, 1]]) \<and>
    rb_slot (lr_tracking s) 1 = Free \<and>
    (\<forall>s' ds'. reader_steps example_config s [[0, 0, 0, 0, 1]] s' ds' \<longrightarrow>
       ds' = [[0, 0, 0, 0, 1]] \<and> b_out (lr_builder s') = [])"
proof -
  let ?acts = "[ReadSocket False (UdpPacket [0, 0, 0, 0, 1] True), ConsumePacket,
    ReadSocket False (UdpPacket [9] False)]"
  have "map_option (\<lambda>(s, ds). (ds, lr_pc s = AtStart, lr_recv s = [], lr_position s,
        rb_slot (lr_tracking s) 0, rb_slot (lr_tracking s) 1, b_out (lr_builder s)))
      (reader_exec example_config ?acts (reader_init example_config, [])) =
      Some ([[0, 0, 0, 0, 1]], True, True, 0, InUse, Free, [])"
    by code_simp
  then obtain s where ex: "reader_exec example_config ?acts (reader_init example_config, []) =
        Some (s, [[0, 0, 0, 0, 1]])"
    and st: "lr_pc s = AtStart" "lr_recv s = []" "lr_position s = 0"
      "rb_slot (lr_tracking s) 0 = InUse" "rb_slot (lr_tracking s) 1 = Free" "b_out (lr_builder s) = []"
    by auto
  have "reader_run example_config s [[0, 0, 0, 0, 1]]"
    using reader_exec_steps [OF ex] by (simp add: reader_run_def)
  then have "wedged s" using reader_run_inv st by (simp add: wedged_def reader_inv_def)
  with ex st wedged_steps show ?thesis by metis
qed

theorem stray_datagram_wedges_reader_witness:
  "\<exists>s. reader_exec example_config
      [ReadSocket False (UdpPacket [0, 0, 0, 0, 1] True), ConsumePacket, ReadSocket False (UdpPacket [9] False)]
      (reader_init example_config, []) = Some (s, [[0, 0, 0, 0, 1]]) \<and>
    reader_steps example_config s [[0, 0, 0, 0, 1]] s [[0, 0, 0, 0, 1]] \<and> b_out (lr_builder s) = []"
  using stray_datagram_wedges_reader reader_steps.intros(1) by blast

end
