(* ===== verification/Event_Assembly.thy ===== *)
theory Event_Assembly
  imports Duck_Prelude
begin

text \<open>
  What the LDC (\<open>mountSubEvent\<close>) and the GDC (\<open>mountEvent\<close>) have in common: data of several sources
  are collected in a map from event numbers to maps from sources to data, and an event with as
  many sources as expected is taken out of the map.

  The locale \<open>event_numbering\<close> is the contract between a builder and its sources: the sources of a
  stream number their data in the same way, without repetition. Its theorem says what the builder
  then does, whatever the interleaving of the sources: the events are completed in order, each with
  the data of every source.
\<close>

section \<open>Definitions\<close>

type_synonym ('e, 's, 'd) event_map = "('e, ('s, 'd) go_map) go_map"

text \<open>The data collected for an event, a new map at its first datum.\<close>

definition collect :: "'e \<Rightarrow> 's \<Rightarrow> 'd \<Rightarrow> ('e, 's, 'd) event_map \<Rightarrow> ('s, 'd) go_map" where
  "collect e s d m = gm_set s d (gm_get_or gm_empty m e)"

definition assemble_step ::
  "nat \<Rightarrow> ('e \<times> 's \<times> 'd) \<Rightarrow> ('e, 's, 'd) event_map \<Rightarrow>
   ('e, 's, 'd) event_map \<times> ('e \<times> ('s, 'd) go_map) list" where
  "assemble_step n = (\<lambda>(e, s, d) m.
     let inner = collect e s d m;
         m' = gm_set e inner m
     in if gm_len inner = n then (gm_delete e m', [(e, inner)]) else (m', []))"

fun assemble ::
  "nat \<Rightarrow> ('e \<times> 's \<times> 'd) list \<Rightarrow> ('e, 's, 'd) event_map \<Rightarrow>
   ('e, 's, 'd) event_map \<times> ('e \<times> ('s, 'd) go_map) list" where
  "assemble n [] m = (m, [])"
| "assemble n (x # xs) m =
     (let (m', out) = assemble_step n x m; (m'', outs) = assemble n xs m' in (m'', out @ outs))"

text \<open>The messages of one source, and how many there are.\<close>

definition of_source :: "'s \<Rightarrow> ('e \<times> 's \<times> 'd) list \<Rightarrow> ('e \<times> 's \<times> 'd) list" where
  "of_source s xs = filter (\<lambda>(e, s', d). s' = s) xs"

text \<open>Every source sends its \<open>j\<close>-th datum under the number \<open>f j\<close>, in order.\<close>

definition in_order :: "(nat \<Rightarrow> 'e) \<Rightarrow> 's set \<Rightarrow> ('s \<Rightarrow> nat \<Rightarrow> 'd) \<Rightarrow> ('e \<times> 's \<times> 'd) list \<Rightarrow> bool" where
  "in_order f S d xs \<longleftrightarrow> (\<forall>(e, s, x) \<in> set xs. s \<in> S) \<and>
     (\<forall>s. of_source s xs = map (\<lambda>j. (f j, s, d s j)) [0..<length (of_source s xs)])"

section \<open>Lemmas\<close>

lemma assemble_append:
  "assemble n (xs @ ys) m =
     (let (m', o1) = assemble n xs m; (m'', o2) = assemble n ys m' in (m'', o1 @ o2))"
  by (induction xs arbitrary: m) (auto simp: Let_def split: prod.splits)

lemma of_source_append: "of_source s (xs @ ys) = of_source s xs @ of_source s ys"
  by (simp add: of_source_def)

lemma of_source_single: "of_source s [(e, s', d)] = (if s' = s then [(e, s', d)] else [])"
  by (simp add: of_source_def)

lemma in_order_snoc:
  assumes "in_order f S d (xs @ [(e, s, x)])"
  shows "in_order f S d xs" and "s \<in> S" and "e = f (length (of_source s xs))"
    and "x = d s (length (of_source s xs))"
proof -
  show "s \<in> S" using assms by (auto simp: in_order_def)
  let ?k = "length (of_source s xs)"
  have all: "of_source t (xs @ [(e, s, x)]) =
      map (\<lambda>j. (f j, t, d t j)) [0..<length (of_source t (xs @ [(e, s, x)]))]" for t
    using assms unfolding in_order_def by blast
  have "of_source s xs @ [(e, s, x)] = map (\<lambda>j. (f j, s, d s j)) [0..<Suc ?k]"
    using all [of s] by (simp add: of_source_append of_source_single)
  then have own: "of_source s xs = map (\<lambda>j. (f j, s, d s j)) [0..<?k]"
    and "(e, s, x) = (f ?k, s, d s ?k)" by auto
  then show "e = f ?k" and "x = d s ?k" by auto
  have "of_source s' xs = map (\<lambda>j. (f j, s', d s' j)) [0..<length (of_source s' xs)]" for s'
  proof (cases "s' = s")
    case True
    then show ?thesis using own by simp
  next
    case False
    then show ?thesis using all [of s'] by (simp add: of_source_append of_source_single)
  qed
  then show "in_order f S d xs" using assms by (auto simp: in_order_def)
qed

text \<open>
  The state of the builder after the sources have sent \<open>c s\<close> data each: the map holds the events for
  which some but not all sources have sent, each with the data sent.
\<close>

definition pending :: "'s set \<Rightarrow> ('s \<Rightarrow> nat) \<Rightarrow> nat \<Rightarrow> bool" where
  "pending S c j \<longleftrightarrow> (\<exists>s \<in> S. j < c s) \<and> (\<exists>s \<in> S. c s \<le> j)"

definition partial_data :: "'s set \<Rightarrow> ('s \<Rightarrow> nat \<Rightarrow> 'd) \<Rightarrow> ('s \<Rightarrow> nat) \<Rightarrow> nat \<Rightarrow> 's \<Rightarrow> 'd option" where
  "partial_data S d c j = (\<lambda>s. if s \<in> S \<and> j < c s then Some (d s j) else None)"

definition builder_state ::
  "(nat \<Rightarrow> 'e) \<Rightarrow> 's set \<Rightarrow> ('s \<Rightarrow> nat \<Rightarrow> 'd) \<Rightarrow> ('s \<Rightarrow> nat) \<Rightarrow> ('e, 's, 'd) event_map \<Rightarrow> bool" where
  "builder_state f S d c m \<longleftrightarrow> gm_invar m \<and>
     (\<forall>j. case gm_get m (f j) of
        None \<Rightarrow> \<not> pending S c j
      | Some inner \<Rightarrow> pending S c j \<and> gm_invar inner \<and> gm_get inner = partial_data S d c j)"

locale event_numbering =
  fixes f :: "'p \<Rightarrow> nat \<Rightarrow> 'e" and ok :: "'p \<Rightarrow> bool"
  assumes numbers_distinct: "ok p \<Longrightarrow> inj (f p)"
begin

lemma step_pending:
  assumes ok: "ok p" and S: "finite S" "s \<in> S" and st: "builder_state (f p) S d c m"
    and step: "assemble_step (card S) (f p (c s), s, d s (c s)) m = (m', out)"
  defines "c' \<equiv> c(s := Suc (c s))"
  shows "builder_state (f p) S d c' m'"
    and "if \<forall>t \<in> S. c s < c' t then \<exists>inner. out = [(f p (c s), inner)] \<and> gm_invar inner \<and>
           gm_get inner = (\<lambda>t. if t \<in> S then Some (d t (c s)) else None) else out = []"
proof -
  let ?k = "c s" and ?e = "f p (c s)"
  let ?inner = "collect ?e s (d s ?k) m"
  have m: "gm_invar m" using st by (simp add: builder_state_def)
  have old: "gm_invar (gm_get_or gm_empty m ?e) \<and> gm_get (gm_get_or gm_empty m ?e) = partial_data S d c ?k"
  proof (cases "gm_get m ?e")
    case None
    then have "\<not> pending S c ?k" using st by (auto simp: builder_state_def dest!: spec [of _ "c s"])
    then have "\<forall>t \<in> S. \<not> ?k < c t" using S by (auto simp: pending_def)
    then show ?thesis using None
      by (auto simp: gm_get_or_def partial_data_def gomap_simps fun_eq_iff)
  next
    case (Some inner)
    then show ?thesis using st
      by (auto simp: builder_state_def gm_get_or_def dest!: spec [of _ "c s"])
  qed
  then have inner: "gm_invar ?inner" "gm_get ?inner = partial_data S d c' ?k"
    using S by (auto simp: collect_def gomap_simps partial_data_def fun_eq_iff c'_def)
  have dom: "dom (gm_get ?inner) \<subseteq> S" by (auto simp: inner partial_data_def split: if_splits)
  have full: "gm_len ?inner = card S \<longleftrightarrow> (\<forall>t \<in> S. ?k < c' t)"
    using gm.full_keys [OF inner(1) dom S(1)]
    by (auto simp: inner(2) partial_data_def dom_def split: if_splits)
  have other: "pending S c' j \<longleftrightarrow> pending S c j" "partial_data S d c' j = partial_data S d c j"
    if "j \<noteq> ?k" for j
  proof -
    have "j < c' t \<longleftrightarrow> j < c t" for t using that by (auto simp: c'_def)
    then show "pending S c' j \<longleftrightarrow> pending S c j" "partial_data S d c' j = partial_data S d c j"
      by (simp_all add: pending_def partial_data_def not_less [symmetric])
  qed
  have inj: "f p i = f p j \<longleftrightarrow> i = j" for i j using numbers_distinct [OF ok] by (simp add: inj_eq)
  have out: "m' = (if gm_len ?inner = card S then gm_delete ?e (gm_set ?e ?inner m) else gm_set ?e ?inner m)"
    "out = (if gm_len ?inner = card S then [(?e, ?inner)] else [])"
    using step by (auto simp: assemble_step_def Let_def split: if_splits)
  have pk: "pending S c' ?k \<longleftrightarrow> \<not> (\<forall>t \<in> S. ?k < c' t)"
    using S by (auto simp: pending_def c'_def not_less)
  have "case gm_get m' (f p j) of None \<Rightarrow> \<not> pending S c' j
      | Some i \<Rightarrow> pending S c' j \<and> gm_invar i \<and> gm_get i = partial_data S d c' j" for j
  proof (cases "j = ?k")
    case True
    then show ?thesis using m inner pk full by (simp add: out gomap_simps)
  next
    case False
    then have eq: "gm_get m' (f p j) = gm_get m (f p j)" using m inj by (simp add: out gomap_simps)
    show ?thesis unfolding eq other [OF False] using st by (simp add: builder_state_def)
  qed
  moreover have "gm_invar m'" using m by (simp add: out gomap_simps)
  ultimately show "builder_state (f p) S d c' m'" by (simp add: builder_state_def)
  show "if \<forall>t \<in> S. ?k < c' t then \<exists>inner. out = [(?e, inner)] \<and> gm_invar inner \<and>
      gm_get inner = (\<lambda>t. if t \<in> S then Some (d t ?k) else None) else out = []"
    using full inner by (auto simp: out partial_data_def fun_eq_iff)
qed

text \<open>The least count after one more datum of a source.\<close>

lemma Min_step:
  fixes S :: "'s set" and c :: "'s \<Rightarrow> nat"
  assumes "finite S" and "s \<in> S"
  shows "Min ((c(s := Suc (c s))) ` S) =
    (if \<forall>t \<in> S. c s < (c(s := Suc (c s))) t then Suc (c s) else Min (c ` S))"
    and "\<forall>t \<in> S. c s < (c(s := Suc (c s))) t \<Longrightarrow> Min (c ` S) = c s"
proof -
  have fin: "finite (g ` S)" "g ` S \<noteq> {}" for g :: "'s \<Rightarrow> nat" using assms by auto
  let ?c = "c(s := Suc (c s))"
  show eq: "Min (c ` S) = c s" if "\<forall>t \<in> S. c s < ?c t"
    using that assms by (intro Min_eqI) (auto split: if_splits simp: less_imp_le)
  show "Min (?c ` S) = (if \<forall>t \<in> S. c s < ?c t then Suc (c s) else Min (c ` S))"
  proof (cases "\<forall>t \<in> S. c s < ?c t")
    case True
    then have "Min (?c ` S) = Suc (c s)" using assms by (intro Min_eqI) (auto simp: Suc_le_eq)
    with True show ?thesis by simp
  next
    case False
    then obtain t where t: "t \<in> S" "t \<noteq> s" "c t \<le> c s" by (auto split: if_splits)
    obtain u where u: "u \<in> S" "c u = Min (c ` S)" using Min_in [OF fin] by (metis imageE)
    have le: "Min (c ` S) \<le> c v" if "v \<in> S" for v using that fin by simp
    obtain v where v: "v \<in> S" "v \<noteq> s" "c v = Min (c ` S)"
      using t u le [OF t(1)] le [OF assms(2)] by (metis le_antisym order_trans)
    then have "Min (c ` S) = ?c v" by simp
    then have "Min (c ` S) \<in> ?c ` S" using v(1) by (rule image_eqI)
    moreover have "Min (c ` S) \<le> ?c w" if "w \<in> S" for w
      using le [OF that] by auto
    ultimately have "Min (?c ` S) = Min (c ` S)"
      using assms(1) by (intro Min_eqI) blast+
    then show ?thesis unfolding if_not_P [OF False] .
  qed
qed

text \<open>
  Whatever the interleaving, as many events are complete as the slowest source has sent data, in
  order, each with the data of every source.
\<close>

theorem completed_in_order:
  assumes "ok p" and "finite S" and "S \<noteq> {}" and "in_order (f p) S d xs"
    and "assemble (card S) xs gm_empty = (m, outs)"
  shows "builder_state (f p) S d (\<lambda>s. length (of_source s xs)) m \<and>
    length outs = Min ((\<lambda>s. length (of_source s xs)) ` S) \<and>
    (\<forall>j < length outs. fst (outs ! j) = f p j \<and> gm_invar (snd (outs ! j)) \<and>
       gm_get (snd (outs ! j)) = (\<lambda>s. if s \<in> S then Some (d s j) else None))"
  using assms(4,5)
proof (induction xs arbitrary: m outs rule: rev_induct)
  case Nil
  then show ?case
    using assms(2,3) by (auto simp: builder_state_def gomap_simps pending_def of_source_def image_constant_conv)
next
  case (snoc x xs)
  obtain e s y where x: "x = (e, s, y)" by (cases x)
  let ?c = "\<lambda>s. length (of_source s xs)"
  note io = in_order_snoc [OF snoc.prems(1) [unfolded x]]
  obtain m1 o1 where a1: "assemble (card S) xs gm_empty = (m1, o1)" by force
  obtain m2 o2 where a2: "assemble_step (card S) (f p (?c s), s, d s (?c s)) m1 = (m2, o2)" by force
  have m: "m = m2" "outs = o1 @ o2"
    using snoc.prems(2) a1 a2 io(3,4) by (auto simp: assemble_append x)
  have IH: "builder_state (f p) S d ?c m1" "length o1 = Min (?c ` S)"
    "\<forall>j < length o1. fst (o1 ! j) = f p j \<and> gm_invar (snd (o1 ! j)) \<and>
       gm_get (snd (o1 ! j)) = (\<lambda>s. if s \<in> S then Some (d s j) else None)"
    using snoc.IH [OF io(1) a1] by auto
  have c': "(\<lambda>t. length (of_source t (xs @ [x]))) = ?c(s := Suc (?c s))"
    by (auto simp: x of_source_append of_source_single)
  note st = step_pending [OF assms(1,2) io(2) IH(1) a2]
  note mn = Min_step [OF assms(2) io(2), of ?c]
  show ?case
  proof (cases "\<forall>t \<in> S. ?c s < (?c(s := Suc (?c s))) t")
    case True
    then obtain inner where "o2 = [(f p (?c s), inner)]" "gm_invar inner"
      "gm_get inner = (\<lambda>t. if t \<in> S then Some (d t (?c s)) else None)" using st(2) by auto
    with True st(1) mn IH(2,3) show ?thesis
      unfolding c' m by (auto simp: nth_append less_Suc_eq)
  next
    case False
    then have "o2 = []" using st(2) by auto
    with False st(1) mn IH(2,3) show ?thesis unfolding c' m by auto
  qed
qed

end

end
