(* ===== verification/Ldc_Builder.thy ===== *)
theory Ldc_Builder
  imports Ldc_Equipment Event_Assembly
begin

text \<open>
  The event builder of an LDC and its connections: \<open>src/ldcRPC/ldc.go\<close> (\<open>readSubEvents\<close>,
  \<open>mountSubEvent\<close>, \<open>sendDataToGDC\<close>), \<open>src/ldcRPC/gdcs.go\<close> and \<open>src/ldcRPC/ping.go\<close>.

  The builder collects the data of the enabled equipments in a map from event numbers to maps from
  equipments to data. A complete event gets the LDC header and goes to the GDC whose turn it is.
  Inputs of the model: the clock, the iteration order of maps, what a write to a connection, a
  name resolution, a dial and a ping return.
\<close>

section \<open>Definitions\<close>

subsection \<open>Sub-events (ldc.go)\<close>

text \<open>The values of the run's context that the builder reads.\<close>

record ldc_context =
  cx_runNumber :: "int option"
  cx_nEnabledEquipments :: "int option"

record sub_builder =
  sb_eventData :: "(int, int, bytes) event_map"
  sb_currentGDC :: nat
  sb_incompleteEvents :: int
  sb_stops :: "string list"
  sb_sent :: "(nat \<times> bytes) list"
  sb_metrics :: "nat list"

definition sub_builder_init :: sub_builder where
  "sub_builder_init = \<lparr>sb_eventData = gm_empty, sb_currentGDC = 0, sb_incompleteEvents = 0,
     sb_stops = [], sb_sent = [], sb_metrics = []\<rparr>"

text \<open>The result of a write: the bytes written and the error, if any.\<close>

type_synonym write_result = "nat \<times> string option"

definition sendDataToGDC ::
  "bytes \<Rightarrow> nat \<Rightarrow> write_result \<Rightarrow> sub_builder \<Rightarrow> string option \<times> sub_builder" where
  "sendDataToGDC ldcData gdcId = (\<lambda>(nBytes, err) st.
     (err, st\<lparr>sb_sent := sb_sent st @ [(gdcId, ldcData)], sb_metrics := sb_metrics st @ [nBytes]\<rparr>))"

definition mountSubEvent ::
  "(int, bytes) iteration \<Rightarrow> int \<Rightarrow> write_result \<Rightarrow> ldc_context \<Rightarrow> LDCConfiguration \<Rightarrow> nat \<Rightarrow>
   EquipmentData \<Rightarrow> sub_builder \<Rightarrow> bool \<times> string option \<times> sub_builder" where
  "mountSubEvent ord now wr cx ldc gdcId data st =
     (let ev = ed_EventID data;
          st1 = (case gm_get (sb_eventData st) ev of
                   None \<Rightarrow> st\<lparr>sb_eventData := gm_set ev gm_empty (sb_eventData st),
                             sb_incompleteEvents := sb_incompleteEvents st + 1\<rparr>
                 | Some _ \<Rightarrow> st);
          equipments = gm_set (ed_EquipmentID data) (ed_Data data)
                         (gm_get_or gm_empty (sb_eventData st1) ev);
          st2 = st1\<lparr>sb_eventData := gm_set ev equipments (sb_eventData st1)\<rparr>
      in case cx_runNumber cx of
           None \<Rightarrow> (False, Some ''error getting run number from context'', st2)
         | Some runNumber \<Rightarrow>
             let nEnabledEquipments = (case cx_nEnabledEquipments cx of None \<Rightarrow> 0 | Some n \<Rightarrow> n);
                 nEquipments = int (gm_len equipments)
             in if nEquipments = nEnabledEquipments then
                  let ldcData = addLDCHeader ord now equipments ev ldc runNumber;
                      (err, st3) = sendDataToGDC ldcData gdcId wr st2
                  in (True, err, st3\<lparr>sb_eventData := gm_delete ev (sb_eventData st3),
                        sb_incompleteEvents := sb_incompleteEvents st3 - 1\<rparr>)
                else (False, None, st2))"

text \<open>
  One receipt of \<open>readSubEvents\<close>: indexing the connections panics when there is none, as does the
  remainder by zero.
\<close>

definition readSubEvents_recv ::
  "(int, bytes) iteration \<Rightarrow> ldc_context \<Rightarrow> LDCConfiguration \<Rightarrow> nat \<Rightarrow>
   EquipmentData \<times> int \<times> write_result \<Rightarrow> sub_builder \<Rightarrow> sub_builder outcome" where
  "readSubEvents_recv ord cx ldc nGDCs = (\<lambda>(data, now, wr) st.
     if \<not> ed_Error data then
       if sb_currentGDC st < nGDCs then
         let (eventMounted, err, st1) = mountSubEvent ord now wr cx ldc (sb_currentGDC st) data st;
             st2 = (case err of
                      None \<Rightarrow> st1
                    | Some e \<Rightarrow> st1\<lparr>sb_stops := sb_stops st1 @ [''Error mounting subevent: '' @ e]\<rparr>)
         in Ok (if eventMounted then st2\<lparr>sb_currentGDC := (sb_currentGDC st2 + 1) mod nGDCs\<rparr> else st2)
       else Panic
     else if nGDCs = 0 then Panic
     else Ok (st\<lparr>sb_currentGDC := (sb_currentGDC st + 1) mod nGDCs\<rparr>))"

fun readSubEvents ::
  "(int, bytes) iteration \<Rightarrow> ldc_context \<Rightarrow> LDCConfiguration \<Rightarrow> nat \<Rightarrow>
   (EquipmentData \<times> int \<times> write_result) list \<Rightarrow> sub_builder \<Rightarrow> sub_builder outcome" where
  "readSubEvents ord cx ldc nGDCs [] st = Ok st"
| "readSubEvents ord cx ldc nGDCs (x # xs) st =
     bind_outcome (readSubEvents_recv ord cx ldc nGDCs x st) (readSubEvents ord cx ldc nGDCs xs)"

subsection \<open>Connections to the GDCs (gdcs.go)\<close>

datatype GDCConnectionError =
    DNSError string string string
  | ConnectionRefusedError string string int string
  | TimeoutError string string int string
  | OtherError string

fun gdc_error_message :: "GDCConnectionError \<Rightarrow> string" where
  "gdc_error_message (DNSError host ip err) = ''DNS error for GDC '' @ host @ '' (IP: '' @ ip @ ''): '' @ err"
| "gdc_error_message (ConnectionRefusedError host ip port err) =
     ''connection refused for GDC '' @ host @ '' ('' @ ip @ '':'' @ show_int port @ ''): '' @ err"
| "gdc_error_message (TimeoutError host ip port err) =
     ''timeout connecting to GDC '' @ host @ '' ('' @ ip @ '':'' @ show_int port @ ''): '' @ err"
| "gdc_error_message (OtherError message) = message"

fun gdc_error_type :: "GDCConnectionError \<Rightarrow> string" where
  "gdc_error_type (DNSError _ _ _) = ''dns''"
| "gdc_error_type (ConnectionRefusedError _ _ _ _) = ''refused''"
| "gdc_error_type (TimeoutError _ _ _ _) = ''timeout''"
| "gdc_error_type (OtherError _) = []"

text \<open>\<open>strings.Contains\<close>.\<close>

fun contains :: "string \<Rightarrow> string \<Rightarrow> bool" where
  "contains [] t = (t = [])"
| "contains (c # cs) t = (take (length t) (c # cs) = t \<or> contains cs t)"

text \<open>What the network answers: resolution fails, or dialling fails with or without a timeout.\<close>

datatype dial_result = DialOk | ResolveFailed string | DialFailed bool string

definition gdcConnection :: "(GDCConfiguration \<Rightarrow> dial_result) \<Rightarrow> GDCConfiguration \<Rightarrow> GDCConnectionError + int" where
  "gdcConnection dial gdc =
     (case dial gdc of
        DialOk \<Rightarrow> Inr (gdc_ID gdc)
      | ResolveFailed err \<Rightarrow> Inl (DNSError (gdc_Host gdc) (gdc_IP gdc) err)
      | DialFailed timedOut err \<Rightarrow>
          Inl (if timedOut then TimeoutError (gdc_Host gdc) (gdc_IP gdc) (gdc_Port gdc) err
               else if contains err ''connection refused'' \<or> contains err ''connect: connection refused''
               then ConnectionRefusedError (gdc_Host gdc) (gdc_IP gdc) (gdc_Port gdc) err
               else OtherError (''error connecting to GDC '' @ gdc_Host gdc @ '' ('' @ gdc_IP gdc @ '':'' @
                      show_int (gdc_Port gdc) @ ''): '' @ err)))"

text \<open>The connections open and those closed again after a failure.\<close>

fun gdc_pool :: "(GDCConfiguration \<Rightarrow> dial_result) \<Rightarrow> GDCConfiguration list \<Rightarrow> int list \<Rightarrow>
   (GDCConnectionError \<times> int list) + int list" where
  "gdc_pool dial [] conns = Inr conns"
| "gdc_pool dial (g # gs) conns =
     (if gdc_Enabled g then
        (case gdcConnection dial g of
           Inl err \<Rightarrow> Inl (err, conns)
         | Inr conn \<Rightarrow> gdc_pool dial gs (conns @ [conn]))
      else gdc_pool dial gs conns)"

definition gdcGDCConnetionPool ::
  "(GDCConfiguration \<Rightarrow> dial_result) \<Rightarrow> GDCConfiguration list \<Rightarrow> (GDCConnectionError \<times> int list) + int list" where
  "gdcGDCConnetionPool dial gdcs = gdc_pool dial gdcs []"

subsection \<open>Pinging the devices (ping.go)\<close>

datatype ping_result = NewPingerFailed string | RunFailed string | PacketsRecv int

fun pingDevices :: "(string \<Rightarrow> ping_result) \<Rightarrow> Equipment list \<Rightarrow> bool" where
  "pingDevices ping [] = True"
| "pingDevices ping (e # es) =
     (if eq_Enabled e then
        (case ping (eq_DeviceIP e) of
           NewPingerFailed _ \<Rightarrow> False
         | RunFailed _ \<Rightarrow> False
         | PacketsRecv n \<Rightarrow> if n < 1 then False else pingDevices ping es)
      else pingDevices ping es)"

section \<open>Properties\<close>

subsection \<open>The builder assembles\<close>

definition message_of :: "EquipmentData \<times> int \<times> write_result \<Rightarrow> int \<times> int \<times> bytes" where
  "message_of = (\<lambda>(data, _). (ed_EventID data, ed_EquipmentID data, ed_Data data))"

lemma gm_set_set: "gm_set k v (gm_set k w m) = gm_set k v m"
  by (induction m) (auto simp: gm_set_def)

lemma gm_get_or_set_empty: "gm_get_or gm_empty (gm_set k gm_empty m) k = gm_empty"
  by (simp add: gm_get_or_def gm_get_def gm_set_def update_conv')

text \<open>Without errors of the context, mounting is a step of the assembler.\<close>

lemma mountSubEvent_assemble:
  assumes "cx_runNumber cx = Some run" and "cx_nEnabledEquipments cx = Some (int n)"
    and "assemble_step n (ed_EventID data, ed_EquipmentID data, ed_Data data) (sb_eventData st) = (m, outs)"
  shows "\<exists>st'. mountSubEvent ord now wr cx ldc g data st =
      (outs \<noteq> [], if outs = [] then None else snd wr, st') \<and> sb_eventData st' = m \<and>
    sb_sent st' = sb_sent st @ map (\<lambda>(e, eqs). (g, addLDCHeader ord now eqs e ldc run)) outs \<and>
    sb_currentGDC st' = sb_currentGDC st"
proof (cases "gm_get (sb_eventData st) (ed_EventID data)")
  case None
  then have "gm_get_or gm_empty (sb_eventData st) (ed_EventID data) = gm_empty"
    by (simp add: gm_get_or_def)
  with None assms show ?thesis
    by (cases wr) (auto simp: mountSubEvent_def assemble_step_def collect_def Let_def sendDataToGDC_def
        gm_get_or_set_empty gm_set_set split: if_splits)
next
  case (Some a)
  with assms show ?thesis
    by (cases wr) (auto simp: mountSubEvent_def assemble_step_def collect_def Let_def sendDataToGDC_def
        split: if_splits)
qed

lemma assemble_step_single: "assemble_step n x m = (m', outs) \<Longrightarrow> outs = [] \<or> (\<exists>p. outs = [p])"
  by (auto simp: assemble_step_def Let_def split: prod.splits if_splits)

lemma readSubEvents_recv_assemble:
  assumes cx: "cx_runNumber cx = Some run" "cx_nEnabledEquipments cx = Some (int n)"
    and ok: "\<not> ed_Error (fst x)" "sb_currentGDC st < nGDCs"
    and step: "assemble_step n (message_of x) (sb_eventData st) = (m, outs)"
  shows "\<exists>st'. readSubEvents_recv ord cx ldc nGDCs x st = Ok st' \<and> sb_eventData st' = m \<and>
    sb_currentGDC st' = (sb_currentGDC st + length outs) mod nGDCs \<and>
    sb_sent st' = sb_sent st @
      map (\<lambda>(e, eqs). (sb_currentGDC st, addLDCHeader ord (fst (snd x)) eqs e ldc run)) outs"
proof -
  obtain data now wr where x: "x = (data, now, wr)" by (cases x)
  from mountSubEvent_assemble [OF cx, of data st m outs ord now wr ldc "sb_currentGDC st"] step x
  obtain st1 where "mountSubEvent ord now wr cx ldc (sb_currentGDC st) data st =
      (outs \<noteq> [], if outs = [] then None else snd wr, st1)" "sb_eventData st1 = m"
    "sb_sent st1 = sb_sent st @ map (\<lambda>(e, eqs). (sb_currentGDC st, addLDCHeader ord now eqs e ldc run)) outs"
    "sb_currentGDC st1 = sb_currentGDC st"
    by (auto simp: message_of_def)
  then show ?thesis
    using assemble_step_single [OF step] ok
    by (auto simp: readSubEvents_recv_def x split: option.splits)
qed

text \<open>The whole loop: the complete events of the assembler, sent to the GDCs in turn.\<close>

lemma readSubEvents_assemble:
  assumes cx: "cx_runNumber cx = Some run" "cx_nEnabledEquipments cx = Some (int n)" and "0 < nGDCs"
  shows "\<forall>x \<in> set xs. \<not> ed_Error (fst x) \<Longrightarrow> sb_currentGDC st < nGDCs \<Longrightarrow>
    assemble n (map message_of xs) (sb_eventData st) = (m, outs) \<Longrightarrow>
    \<exists>st' sent. readSubEvents ord cx ldc nGDCs xs st = Ok st' \<and> sb_eventData st' = m \<and>
      sb_sent st' = sb_sent st @ sent \<and> length sent = length outs \<and>
      (\<forall>i < length outs. \<exists>now. sent ! i = ((sb_currentGDC st + i) mod nGDCs,
         addLDCHeader ord now (snd (outs ! i)) (fst (outs ! i)) ldc run))"
proof (induction xs arbitrary: st m outs)
  case Nil
  then show ?case by simp
next
  case (Cons x xs)
  obtain m1 o1 where s1: "assemble_step n (message_of x) (sb_eventData st) = (m1, o1)" by force
  obtain o2 where s2: "assemble n (map message_of xs) m1 = (m, o2)" and outs: "outs = o1 @ o2"
    using Cons.prems(3) s1 by (auto split: prod.splits)
  from Cons.prems(1) have "\<not> ed_Error (fst x)" by simp
  from readSubEvents_recv_assemble [OF cx this Cons.prems(2) s1] obtain st1 where
    st1: "readSubEvents_recv ord cx ldc nGDCs x st = Ok st1" "sb_eventData st1 = m1"
      "sb_currentGDC st1 = (sb_currentGDC st + length o1) mod nGDCs"
      "sb_sent st1 = sb_sent st @
        map (\<lambda>(e, eqs). (sb_currentGDC st, addLDCHeader ord (fst (snd x)) eqs e ldc run)) o1"
    by blast
  have "sb_currentGDC st1 < nGDCs" using st1(3) assms(3) by simp
  from Cons.IH [OF _ this s2 [folded st1(2)]] Cons.prems(1) obtain st' sent where
    st': "readSubEvents ord cx ldc nGDCs xs st1 = Ok st'" "sb_eventData st' = m"
      "sb_sent st' = sb_sent st1 @ sent" "length sent = length o2"
      "\<forall>i < length o2. \<exists>now. sent ! i = ((sb_currentGDC st1 + i) mod nGDCs,
         addLDCHeader ord now (snd (o2 ! i)) (fst (o2 ! i)) ldc run)" by auto
  let ?sent = "map (\<lambda>(e, eqs). (sb_currentGDC st, addLDCHeader ord (fst (snd x)) eqs e ldc run)) o1 @ sent"
  have o1: "o1 = [] \<or> (\<exists>p. o1 = [p])" by (rule assemble_step_single [OF s1])
  have "\<exists>now. ?sent ! i = ((sb_currentGDC st + i) mod nGDCs,
      addLDCHeader ord now (snd (outs ! i)) (fst (outs ! i)) ldc run)" if "i < length outs" for i
  proof (cases "i < length o1")
    case True
    then show ?thesis using o1 outs Cons.prems(2) by (auto simp: split_def)
  next
    case False
    then obtain j where j: "i = length o1 + j" by (metis le_Suc_ex not_less)
    with that outs have "j < length o2" by simp
    with st'(5) st1(3) j outs show ?thesis
      by (auto simp: nth_append mod_add_left_eq add.assoc)
  qed
  then show ?case
    using st1 st' outs by (intro exI [of _ st'] exI [of _ ?sent]) auto
qed

text \<open>The equipments of an LDC number their events from one.\<close>

interpretation ldc_numbers: event_numbering "\<lambda>_ :: unit. \<lambda>j. 1 + int j" "\<lambda>_. True"
  by unfold_locales (simp add: inj_def)

lemma readSubEvents_in_order:
  assumes "cx_runNumber cx = Some run" and "cx_nEnabledEquipments cx = Some (int (card S))"
    and "finite S" and "S \<noteq> {}" and "0 < nGDCs" and "\<forall>x \<in> set xs. \<not> ed_Error (fst x)"
    and "in_order (\<lambda>j. 1 + int j) S d (map message_of xs)"
  shows "\<exists>st. readSubEvents ord cx ldc nGDCs xs sub_builder_init = Ok st \<and>
    length (sb_sent st) = Min ((\<lambda>s. length (of_source s (map message_of xs))) ` S) \<and>
    (\<forall>j < length (sb_sent st). \<exists>now eqs. gm_invar eqs \<and>
       gm_get eqs = (\<lambda>s. if s \<in> S then Some (d s j) else None) \<and>
       sb_sent st ! j = (j mod nGDCs, addLDCHeader ord now eqs (1 + int j) ldc run))"
proof -
  obtain m outs where a: "assemble (card S) (map message_of xs) gm_empty = (m, outs)" by force
  note c = ldc_numbers.completed_in_order [OF _ assms(3,4,7) a]
  have "sb_currentGDC sub_builder_init < nGDCs" "sb_eventData sub_builder_init = gm_empty"
    "sb_currentGDC sub_builder_init = 0" "sb_sent sub_builder_init = []"
    using assms(5) by (simp_all add: sub_builder_init_def)
  then obtain st where "readSubEvents ord cx ldc nGDCs xs sub_builder_init = Ok st"
    "length (sb_sent st) = length outs"
    "\<forall>i < length outs. \<exists>now. sb_sent st ! i =
       (i mod nGDCs, addLDCHeader ord now (snd (outs ! i)) (fst (outs ! i)) ldc run)"
    using readSubEvents_assemble [OF assms(1,2,5,6), of sub_builder_init m outs ord ldc] a by auto
  with c show ?thesis by (metis (no_types, lifting))
qed

text \<open>
  C8. The LDC's event builder: when every enabled equipment numbers its data 1, 2, 3, ... in order, then
  for every interleaving of the equipments as many sub-events are sent as the slowest equipment has
  delivered; the sub-event sent in place \<open>j\<close> has the number \<open>1 + j\<close>, holds the \<open>j\<close>-th datum of every
  equipment and nothing else, and goes to GDC \<open>j mod nGDCs\<close>.
\<close>

theorem ldc_builder_round_robin:
  assumes "cx_runNumber cx = Some run" and "cx_nEnabledEquipments cx = Some (int (card S))"
    and "finite S" and "S \<noteq> {}" and "0 < nGDCs" and "\<forall>x \<in> set xs. \<not> ed_Error (fst x)"
    and "in_order (\<lambda>j. 1 + int j) S d (map message_of xs)"
  shows "\<exists>st. readSubEvents ord cx ldc nGDCs xs sub_builder_init = Ok st \<and>
    length (sb_sent st) = Min ((\<lambda>s. length (of_source s (map message_of xs))) ` S) \<and>
    (\<forall>j < length (sb_sent st). \<exists>now eqs. gm_invar eqs \<and>
       gm_get eqs = (\<lambda>s. if s \<in> S then Some (d s j) else None) \<and>
       sb_sent st ! j = (j mod nGDCs, addLDCHeader ord now eqs (1 + int j) ldc run))"
  using assms by (rule readSubEvents_in_order)

definition example_data :: "int \<Rightarrow> int \<Rightarrow> byte \<Rightarrow> EquipmentData \<times> int \<times> write_result" where
  "example_data ev eq b = (\<lparr>ed_EventID = ev, ed_EquipmentID = eq, ed_Data = [b], ed_Error = False\<rparr>, 0, (1, None))"

theorem ldc_builder_round_robin_witness:
  "\<exists>st. readSubEvents (\<lambda>m. m) \<lparr>cx_runNumber = Some 100, cx_nEnabledEquipments = Some 2\<rparr> example_ldc 2
      [example_data 1 5 1, example_data 1 6 2, example_data 2 6 3, example_data 2 5 4] sub_builder_init = Ok st \<and>
    length (sb_sent st) = 2 \<and> fst (sb_sent st ! 1) = 1"
proof -
  let ?xs = "[example_data 1 5 1, example_data 1 6 2, example_data 2 6 3, example_data 2 5 4]"
  let ?d = "\<lambda>s j. if s = 5 then (if j = 0 then [1] else [4]) else if j = 0 then [2] else [3 :: byte]"
  have io: "in_order (\<lambda>j. 1 + int j) {5, 6} ?d (map message_of ?xs)"
    by (auto simp: in_order_def of_source_def message_of_def example_data_def)
  obtain st where "readSubEvents (\<lambda>m. m) \<lparr>cx_runNumber = Some 100, cx_nEnabledEquipments = Some 2\<rparr>
      example_ldc 2 ?xs sub_builder_init = Ok st"
    and "length (sb_sent st) = Min ((\<lambda>s. length (of_source s (map message_of ?xs))) ` {5, 6})"
    and sent: "(\<forall>j < length (sb_sent st). \<exists>now eqs. gm_invar eqs \<and>
       gm_get eqs = (\<lambda>s. if s \<in> {5, 6} then Some (?d s j) else None) \<and>
       sb_sent st ! j = (j mod 2, addLDCHeader (\<lambda>m. m) now eqs (1 + int j) example_ldc 100))"
    using ldc_builder_round_robin [OF _ _ _ _ _ _ io, of
        "\<lparr>cx_runNumber = Some 100, cx_nEnabledEquipments = Some 2\<rparr>" 100 2 "\<lambda>m. m" example_ldc]
    by (auto simp: example_data_def)
  moreover have "Min ((\<lambda>s. length (of_source s (map message_of ?xs))) ` {5, 6}) = 2"
    by (simp add: of_source_def message_of_def example_data_def)
  ultimately show ?thesis using sent [rule_format, of 1] by force
qed

text \<open>
  With no enabled GDC the connection pool is empty without an error, and the first datum of an
  equipment makes the builder panic.
\<close>

theorem no_gdc_panics:
  assumes "\<forall>g \<in> set gdcs. \<not> gdc_Enabled g"
  shows "gdcGDCConnetionPool dial gdcs = Inr [] \<and>
    readSubEvents ord cx ldc (length ([] :: int list)) (x # xs) sub_builder_init = Panic"
proof -
  have "gdc_pool dial gdcs [] = Inr []" using assms by (induction gdcs) auto
  then show ?thesis
    by (cases x) (simp add: gdcGDCConnetionPool_def readSubEvents_recv_def)
qed

theorem no_gdc_panics_witness:
  "readSubEvents (\<lambda>m. m) \<lparr>cx_runNumber = Some 100, cx_nEnabledEquipments = Some 2\<rparr> example_ldc
     (length ([] :: int list)) [example_data 1 5 1] sub_builder_init = Panic"
  by (rule conjunct2 [OF no_gdc_panics [of "[]" "\<lambda>_. DialOk"]]) simp

subsection \<open>The number of incomplete events\<close>

lemma mountSubEvent_gauge:
  assumes "gm_invar (sb_eventData st)" and "sb_incompleteEvents st = int (gm_len (sb_eventData st))"
    and "mountSubEvent ord now wr cx ldc g data st = (b, e, st')"
  shows "gm_invar (sb_eventData st') \<and> sb_incompleteEvents st' = int (gm_len (sb_eventData st'))"
proof -
  let ?ev = "ed_EventID data"
  let ?st1 = "case gm_get (sb_eventData st) ?ev of
      None \<Rightarrow> st\<lparr>sb_eventData := gm_set ?ev gm_empty (sb_eventData st),
               sb_incompleteEvents := sb_incompleteEvents st + 1\<rparr>
    | Some _ \<Rightarrow> st"
  have st1: "gm_invar (sb_eventData ?st1)" "sb_incompleteEvents ?st1 = int (gm_len (sb_eventData ?st1))"
    "gm_get (sb_eventData ?st1) ?ev \<noteq> None"
    using assms(1,2) by (auto split: option.splits simp: gomap_simps gm.len_set)
  define m where "m = gm_set ?ev (gm_set (ed_EquipmentID data) (ed_Data data)
      (gm_get_or gm_empty (sb_eventData ?st1) ?ev)) (sb_eventData ?st1)"
  have m: "gm_invar m" "gm_len m = gm_len (sb_eventData ?st1)" "gm_get m ?ev \<noteq> None"
    using st1 by (auto simp: m_def gomap_simps gm.len_set)
  then have del: "int (gm_len (gm_delete ?ev m)) = int (gm_len m) - 1"
    using gm.len_delete [OF m(1,3)] by simp
  have "(sb_eventData st' = m \<and> sb_incompleteEvents st' = sb_incompleteEvents ?st1) \<or>
      (sb_eventData st' = gm_delete ?ev m \<and> sb_incompleteEvents st' = sb_incompleteEvents ?st1 - 1)"
    using assms(3)
    by (auto simp: mountSubEvent_def Let_def sendDataToGDC_def m_def split: option.splits if_splits prod.splits)
  then show ?thesis using m st1 del by (auto simp: gomap_simps)
qed

lemma readSubEvents_recv_gauge:
  assumes "gm_invar (sb_eventData st)" and "sb_incompleteEvents st = int (gm_len (sb_eventData st))"
    and "readSubEvents_recv ord cx ldc n x st = Ok st'"
  shows "gm_invar (sb_eventData st') \<and> sb_incompleteEvents st' = int (gm_len (sb_eventData st'))"
proof -
  obtain data now wr where x: "x = (data, now, wr)" by (cases x)
  obtain b e st1 where m: "mountSubEvent ord now wr cx ldc (sb_currentGDC st) data st = (b, e, st1)"
    by (metis prod_cases3)
  show ?thesis
    using assms mountSubEvent_gauge [OF assms(1,2) m] m
    by (auto simp: readSubEvents_recv_def x Let_def split: if_splits option.splits)
qed

text \<open>
  The gauge of incomplete events is the number of events in the builder's map, whatever the
  equipments send.
\<close>

theorem incomplete_events_gauge:
  assumes "readSubEvents ord cx ldc n xs sub_builder_init = Ok st"
  shows "sb_incompleteEvents st = int (gm_len (sb_eventData st))"
proof -
  have "gm_invar (sb_eventData st') \<and> sb_incompleteEvents st' = int (gm_len (sb_eventData st'))"
    if "gm_invar (sb_eventData s)" "sb_incompleteEvents s = int (gm_len (sb_eventData s))"
      "readSubEvents ord cx ldc n xs s = Ok st'" for s st'
    using that
  proof (induction xs arbitrary: s)
    case Nil
    then show ?case by simp
  next
    case (Cons x xs)
    then obtain s1 where s1: "readSubEvents_recv ord cx ldc n x s = Ok s1"
      and "readSubEvents ord cx ldc n xs s1 = Ok st'"
      by (cases "readSubEvents_recv ord cx ldc n x s") auto
    then show ?case using Cons.IH readSubEvents_recv_gauge [OF Cons.prems(1,2) s1] by blast
  qed
  from this [OF _ _ assms] show ?thesis by (simp add: sub_builder_init_def gomap_simps)
qed

theorem incomplete_events_gauge_witness:
  "\<exists>st. readSubEvents (\<lambda>m. m) \<lparr>cx_runNumber = Some 100, cx_nEnabledEquipments = Some 2\<rparr> example_ldc 2
      [example_data 1 5 1] sub_builder_init = Ok st \<and> sb_incompleteEvents st = 1"
proof -
  obtain st where st: "readSubEvents (\<lambda>m. m) \<lparr>cx_runNumber = Some 100, cx_nEnabledEquipments = Some 2\<rparr>
      example_ldc 2 [example_data 1 5 1] sub_builder_init = Ok st" and "gm_len (sb_eventData st) = 1"
    by (simp add: readSubEvents_recv_def mountSubEvent_def example_data_def sub_builder_init_def
        gm_get_def gm_empty_def gm_set_def gm_len_def gm_get_or_def)
  then show ?thesis using incomplete_events_gauge [OF st] by auto
qed

subsection \<open>Connections and pings\<close>

lemma gdc_pool_spec:
  "gdc_pool dial gs conns =
     (case find (\<lambda>g. gdc_Enabled g \<and> dial g \<noteq> DialOk) gs of
        None \<Rightarrow> Inr (conns @ map gdc_ID (filter gdc_Enabled gs))
      | Some g \<Rightarrow> (case gdcConnection dial g of
            Inl e \<Rightarrow> Inl (e, conns @ map gdc_ID (filter gdc_Enabled (takeWhile (\<lambda>g. \<not> gdc_Enabled g \<or> dial g = DialOk) gs)))
          | Inr _ \<Rightarrow> Inr []))"
  by (induction gs arbitrary: conns)
    (auto simp: gdcConnection_def split: option.splits dial_result.splits)

text \<open>
  The pool of connections holds one connection per enabled GDC, in order, when every enabled GDC
  answers; otherwise it is an error and every connection opened before the failure is closed.
\<close>

theorem connection_pool_all_or_none:
  "gdcGDCConnetionPool dial gdcs = Inr conns \<longleftrightarrow>
     (\<forall>g \<in> set gdcs. gdc_Enabled g \<longrightarrow> dial g = DialOk) \<and> conns = map gdc_ID (EnabledGDCs gdcs)"
proof (cases "find (\<lambda>g. gdc_Enabled g \<and> dial g \<noteq> DialOk) gdcs")
  case None
  then have "\<forall>g \<in> set gdcs. gdc_Enabled g \<longrightarrow> dial g = DialOk" by (auto simp: find_None_iff)
  moreover have "gdc_pool dial gdcs [] = Inr (map gdc_ID (filter gdc_Enabled gdcs))"
    unfolding gdc_pool_spec None by simp
  ultimately show ?thesis by (auto simp: gdcGDCConnetionPool_def EnabledGDCs_def)
next
  case (Some g)
  then have "g \<in> set gdcs" "gdc_Enabled g" "dial g \<noteq> DialOk"
    by (auto simp: find_Some_iff)
  moreover from this obtain e where "gdcConnection dial g = Inl e"
    by (cases "dial g") (auto simp: gdcConnection_def)
  ultimately show ?thesis using Some by (auto simp: gdcGDCConnetionPool_def gdc_pool_spec)
qed

theorem connection_pool_all_or_none_witness:
  "gdcGDCConnetionPool (\<lambda>_. DialOk) [] = Inr []"
  using connection_pool_all_or_none [of "\<lambda>_. DialOk" "[]" "[]"] by (simp add: EnabledGDCs_def)

lemma pingDevices_iff:
  "pingDevices ping es \<longleftrightarrow> (\<forall>e \<in> set es. eq_Enabled e \<longrightarrow> (\<exists>n \<ge> 1. ping (eq_DeviceIP e) = PacketsRecv n))"
  by (induction es) (auto split: ping_result.splits)

end
