(* ===== verification/Gdc_Stream.thy ===== *)
theory Gdc_Stream
  imports Date_Format
begin

text \<open>
  The reception of sub-events over TCP by a GDC, \<open>src/gdcRPC/ldcData.go\<close>.

  TCP delivers a stream of bytes in chunks of any length (a read returns at most 9600 bytes);
  \<open>processData\<close> cuts the stream into events with the size that starts every event. The counters are
  32-bit words, with their wrap-around. The specification cuts the stream without looking at the
  chunks; the main theorem says that the result does not depend on the chunks.

  \<open>slices.Concat\<close> returns a slice whose capacity the run-time chooses; \<open>wholeData[4:8]\<close> is legal up to
  the capacity, and the bytes behind the length are zero. The capacity is the argument \<open>cap\<close>.
\<close>

section \<open>Definitions\<close>

record LDCData =
  ld_EventID :: int
  ld_ldcID :: int
  ld_Data :: bytes

text \<open>
  The variables of \<open>handleConnection\<close>, with what it has counted and, in order, what it did that others see: sub-events sent on and
  stops asked for.
\<close>

datatype conn_effect = SendOn LDCData | AskStop string

record ldc_conn =
  lc_data :: "bytes list"
  lc_count :: u32
  lc_size :: u32
  lc_expectedEventID :: int
  lc_ldc :: int
  lc_evtErrors :: nat
  lc_effects :: "conn_effect list"

definition conn_init :: ldc_conn where
  "conn_init = \<lparr>lc_data = [], lc_count = 0, lc_size = 0, lc_expectedEventID = -1, lc_ldc = 0,
     lc_evtErrors = 0, lc_effects = []\<rparr>"

fun sent_on :: "conn_effect list \<Rightarrow> LDCData list" where
  "sent_on [] = []"
| "sent_on (SendOn x # fs) = x # sent_on fs"
| "sent_on (AskStop m # fs) = sent_on fs"

fun stops_asked :: "conn_effect list \<Rightarrow> string list" where
  "stops_asked [] = []"
| "stops_asked (SendOn x # fs) = stops_asked fs"
| "stops_asked (AskStop m # fs) = m # stops_asked fs"

abbreviation lc_out :: "ldc_conn \<Rightarrow> LDCData list" where
  "lc_out st \<equiv> sent_on (lc_effects st)"

abbreviation lc_stops :: "ldc_conn \<Rightarrow> string list" where
  "lc_stops st \<equiv> stops_asked (lc_effects st)"

definition reset_conn :: "ldc_conn \<Rightarrow> ldc_conn" where
  "reset_conn st = st\<lparr>lc_count := 0, lc_data := [], lc_size := 0\<rparr>"

lemma effects_append [simp]:
  "sent_on (fs @ gs) = sent_on fs @ sent_on gs" "stops_asked (fs @ gs) = stops_asked fs @ stops_asked gs"
  by (induction fs rule: sent_on.induct) simp_all

lemma only_sends: "stops_asked fs = [] \<Longrightarrow> fs = map SendOn (sent_on fs)"
  by (induction fs rule: sent_on.induct) simp_all

text \<open>\<open>wholeData[4:8]\<close>, read as a little-endian word.\<close>

definition magic_word :: "(nat \<Rightarrow> nat) \<Rightarrow> bytes \<Rightarrow> u32 outcome" where
  "magic_word cap whole =
     (if 8 \<le> cap (length whole) then Ok (le32_at (whole @ replicate 8 0) 4) else Panic)"

definition invalid_magic :: "u32 \<Rightarrow> string" where
  "invalid_magic m = ''invalid magic number 0x'' @ show_hex8 m @ '': expected 0x'' @
     show_hex8 EVENT_MAGIC_NUMBER"

definition incomplete_header :: "nat \<Rightarrow> string" where
  "incomplete_header n = ''incomplete event header: '' @ show_nat n @ '' bytes (minimum 80)''"

definition wrong_event :: "int \<Rightarrow> u32 \<Rightarrow> u32 \<Rightarrow> string" where
  "wrong_event expected found ldc = ''GDC Error, expected event '' @ show_int expected @ '', found '' @
     show_nat (unat found) @ '', from LDC '' @ show_nat (unat ldc)"

definition local_error :: "string \<Rightarrow> ldc_conn \<Rightarrow> ldc_conn" where
  "local_error message st =
     st\<lparr>lc_evtErrors := lc_evtErrors st + 1, lc_effects := lc_effects st @ [AskStop message]\<rparr>"

text \<open>What happens with a complete event: the expected number is checked, the event is sent on.\<close>

definition emit_event :: "int \<Rightarrow> bytes \<Rightarrow> ldc_conn \<Rightarrow> ldc_conn" where
  "emit_event nGDCs whole st =
     (let eventID = le32_at whole 24;
          ldcID = le32_at whole 64;
          st1 = st\<lparr>lc_ldc := uint ldcID,
                   lc_expectedEventID := (if lc_expectedEventID st = -1 then uint eventID
                                          else lc_expectedEventID st)\<rparr>;
          st2 = (if eventID \<noteq> word_of_int (lc_expectedEventID st1)
                 then (local_error (wrong_event (lc_expectedEventID st1) eventID ldcID) st1)
                        \<lparr>lc_expectedEventID := uint eventID\<rparr>
                 else st1)
      in (reset_conn (st2\<lparr>lc_effects := lc_effects st2 @
            [SendOn \<lparr>ld_EventID = uint eventID, ld_ldcID = uint ldcID, ld_Data = whole\<rparr>]\<rparr>))
           \<lparr>lc_expectedEventID := lc_expectedEventID st2 + nGDCs\<rparr>)"

text \<open>
  The size of the event, once four of its bytes are there: \<open>None\<close> when they are not, and the chunk is
  only kept.
\<close>

definition read_size :: "bytes \<Rightarrow> ldc_conn \<Rightarrow> ldc_conn option" where
  "read_size chunk st =
     (if lc_size st = 0 then
        let whole = concat (lc_data st @ [chunk])
        in if 4 \<le> length whole then Some (st\<lparr>lc_size := le32_at whole 0\<rparr>) else None
      else Some st)"

definition keep_chunk :: "bytes \<Rightarrow> ldc_conn \<Rightarrow> ldc_conn" where
  "keep_chunk chunk st = st\<lparr>lc_data := lc_data st @ [chunk], lc_count := lc_count st + of_nat (length chunk)\<rparr>"

lemma read_size_same:
  "read_size chunk st = Some st1 \<Longrightarrow> lc_data st1 = lc_data st \<and> lc_count st1 = lc_count st \<and>
    (lc_size st \<noteq> 0 \<longrightarrow> st1 = st)"
  by (auto simp: read_size_def Let_def split: if_splits)

text \<open>
  \<open>processData\<close> of the chunk \<open>tmp[:nRead]\<close>. The recursion on the rest of the chunk ends: an event
  takes a part of the chunk, or it was complete before, and then the next one is not.
\<close>

function processData :: "(nat \<Rightarrow> nat) \<Rightarrow> int option \<Rightarrow> bytes \<Rightarrow> ldc_conn \<Rightarrow> ldc_conn outcome" where
  "processData cap nGDCs chunk st =
     (case nGDCs of
        None \<Rightarrow> Ok (st\<lparr>lc_evtErrors := lc_evtErrors st + 1\<rparr>)
      | Some n \<Rightarrow>
          (case read_size chunk st of
             None \<Rightarrow> Ok (keep_chunk chunk st)
           | Some st1 \<Rightarrow>
               let remaining = unat (lc_size st1 - lc_count st1)
               in if remaining \<le> length chunk then
                    let whole = concat (lc_data st1 @ [take remaining chunk])
                    in case magic_word cap whole of
                         Panic \<Rightarrow> Panic
                       | Ok magicNumber \<Rightarrow>
                           if magicNumber \<noteq> EVENT_MAGIC_NUMBER
                           then Ok (reset_conn (local_error (invalid_magic magicNumber) st1))
                           else if length whole < 80
                           then Ok (reset_conn (local_error (incomplete_header (length whole)) st1))
                           else
                             let st2 = emit_event n whole st1;
                                 rest = drop remaining chunk
                             in if rest \<noteq> [] then processData cap nGDCs rest st2 else Ok st2
                  else Ok (keep_chunk chunk st1)))"
  by pat_completeness auto
termination
proof (relation "measures [\<lambda>(cap, n, chunk, st). length chunk,
    \<lambda>(cap, n, chunk, st). if lc_data st = [] \<and> lc_count st = 0 \<and> lc_size st = 0 then 0 else 1]", simp, goal_cases)
  case (1 cap nGDCs chunk st n st1 remaining whole magic)
  have reset: "lc_data (emit_event n whole st1) = []" "lc_count (emit_event n whole st1) = 0"
    "lc_size (emit_event n whole st1) = 0"
    by (simp_all add: emit_event_def Let_def reset_conn_def)
  show ?case
  proof (cases "remaining = 0")
    case True
    with 1 have "\<not> length (concat (lc_data st1)) < 80" by simp
    then have "concat (lc_data st1) \<noteq> []" by (intro notI) simp
    then have "lc_data st \<noteq> []" using read_size_same [OF 1(2)] by auto
    with True reset 1 show ?thesis by auto
  next
    case False
    with 1 show ?thesis by auto
  qed
qed

text \<open>\<open>handleConnection\<close> until the connection ends: a read returns at most 9600 bytes.\<close>

fun handle_chunks :: "(nat \<Rightarrow> nat) \<Rightarrow> int option \<Rightarrow> bytes list \<Rightarrow> ldc_conn \<Rightarrow> ldc_conn outcome" where
  "handle_chunks cap nGDCs [] st = Ok st"
| "handle_chunks cap nGDCs (c # cs) st = bind_outcome (processData cap nGDCs c st) (handle_chunks cap nGDCs cs)"

declare processData.simps [simp del]

section \<open>The stream without its chunks\<close>

text \<open>An event as the LDC sends it: its size is its length, and the magic number is right.\<close>

definition valid_event :: "bytes \<Rightarrow> bool" where
  "valid_event e \<longleftrightarrow> 80 \<le> length e \<and> length e < 2 ^ 32 \<and> le32_at e 0 = of_nat (length e) \<and>
     le32_at e 4 = EVENT_MAGIC_NUMBER"

text \<open>The state in the middle of an event \<open>e\<close> of which the bytes \<open>r\<close> have arrived.\<close>

definition in_event :: "bytes \<Rightarrow> bytes \<Rightarrow> ldc_conn \<Rightarrow> bool" where
  "in_event e r st \<longleftrightarrow> concat (lc_data st) = r \<and> lc_count st = of_nat (length r) \<and>
     lc_size st = (if length r < 4 then 0 else of_nat (length e))"

lemma in_event_next: "in_event e [] st \<Longrightarrow> in_event e' [] st"
  by (simp add: in_event_def)

text \<open>What a connection has done, without the bytes it waits with.\<close>

definition observed :: "ldc_conn \<Rightarrow> ldc_conn" where
  "observed st = reset_conn st"

definition emit_events :: "int \<Rightarrow> bytes list \<Rightarrow> ldc_conn \<Rightarrow> ldc_conn" where
  "emit_events n es st = foldl (\<lambda>st e. emit_event n e st) st es"

lemma size_nonzero: "valid_event e \<Longrightarrow> (of_nat (length e) :: u32) \<noteq> 0"
  using unat_of_nat_u32 [of "length e"] by (auto simp: valid_event_def)

lemma observed_simps [simp]:
  "observed (st\<lparr>lc_size := x\<rparr>) = observed st" "observed (keep_chunk c st) = observed st"
  by (simp_all add: observed_def reset_conn_def keep_chunk_def)

lemma emit_event_observed: "observed (emit_event n e st) = emit_event n e (observed st)"
  by (simp add: observed_def emit_event_def reset_conn_def local_error_def Let_def)

lemma emit_event_size: "emit_event n e (st\<lparr>lc_size := x\<rparr>) = emit_event n e st"
  by (simp add: emit_event_def reset_conn_def local_error_def Let_def)

lemma in_event_emit: "in_event e' [] (emit_event n e st)"
  by (simp add: in_event_def emit_event_def Let_def reset_conn_def)

text \<open>The size is known as soon as four bytes are there.\<close>

lemma read_size_in_event:
  assumes "valid_event e" and "in_event e r st" and "e = r @ c @ z"
  shows "length (r @ c) < 4 \<Longrightarrow> read_size c st = None"
    and "4 \<le> length (r @ c) \<Longrightarrow> read_size c st = Some (st\<lparr>lc_size := of_nat (length e)\<rparr>)"
proof -
  have sz: "le32_at (r @ c) 0 = of_nat (length e)" if "4 \<le> length (r @ c)"
    using that assms(1,3) le32_at_append_left [of 0 "r @ c" z] by (simp add: valid_event_def)
  show "read_size c st = None" if "length (r @ c) < 4"
    using that assms(2) by (simp add: read_size_def in_event_def)
  show "read_size c st = Some (st\<lparr>lc_size := of_nat (length e)\<rparr>)" if "4 \<le> length (r @ c)"
    using that assms(2) sz [OF that] size_nonzero [OF assms(1)]
    by (auto simp: read_size_def in_event_def Let_def)
qed

lemma remaining_in_event:
  assumes "valid_event e" and "length r \<le> length e"
  shows "unat (of_nat (length e) - of_nat (length r) :: u32) = length e - length r"
proof -
  have "(of_nat (length e) - of_nat (length r) :: u32) = of_nat (length e - length r)"
    using assms(2) by (simp add: of_nat_diff)
  moreover have "length e - length r < 2 ^ 32" using assms(1) by (auto simp: valid_event_def)
  ultimately show ?thesis by (simp only: unat_of_nat_u32)
qed

lemma magic_word_valid:
  "valid_event e \<Longrightarrow> \<forall>n. n \<le> cap n \<Longrightarrow> magic_word cap e = Ok EVENT_MAGIC_NUMBER"
  using order_trans [of 8 "length e" "cap (length e)"]
  by (simp add: magic_word_def valid_event_def le32_at_append_left)

text \<open>A chunk that does not complete the event is kept.\<close>

lemma process_incomplete:
  assumes e: "valid_event e" and st: "in_event e r st" and c: "e = r @ c @ z" "z \<noteq> []"
  shows "\<exists>st'. processData cap (Some n) c st = Ok st' \<and> in_event e (r @ c) st' \<and>
    observed st' = observed st"
proof (cases "length (r @ c) < 4")
  case True
  then show ?thesis
    using read_size_in_event(1) [OF e st c(1)] st
    by (subst processData.simps) (simp add: in_event_def keep_chunk_def observed_def reset_conn_def)
next
  case False
  then have rs: "read_size c st = Some (st\<lparr>lc_size := of_nat (length e)\<rparr>)"
    using read_size_in_event(2) [OF e st c(1)] by simp
  have "unat (of_nat (length e) - lc_count st) = length e - length r"
    using remaining_in_event [OF e, of r] st c(1) by (simp add: in_event_def)
  then show ?thesis
    using False c st
    by (subst processData.simps) (simp add: rs Let_def in_event_def keep_chunk_def observed_def reset_conn_def)
qed

text \<open>A chunk that completes the event sends it on and goes on with its rest.\<close>

lemma process_complete:
  assumes e: "valid_event e" and st: "in_event e r st" and c: "e = r @ z"
    and cap: "\<forall>n. n \<le> cap n"
  shows "processData cap (Some n) (z @ rest) st =
    (if rest \<noteq> [] then processData cap (Some n) rest (emit_event n e st) else Ok (emit_event n e st))"
proof -
  have rs: "read_size (z @ rest) st = Some (st\<lparr>lc_size := of_nat (length e)\<rparr>)"
  proof -
    have "le32_at (r @ z @ rest) 0 = of_nat (length e)"
      using e c le32_at_append_left [of 0 "r @ z" rest] by (simp add: valid_event_def)
    moreover have "4 \<le> length r + length z" using e c by (simp add: valid_event_def)
    ultimately show ?thesis
      using st size_nonzero [OF e] by (auto simp: read_size_def in_event_def Let_def)
  qed
  have rem: "unat (of_nat (length e) - lc_count st) = length z"
    using remaining_in_event [OF e, of r] st c by (simp add: in_event_def)
  have "concat (lc_data st @ [z]) = e" using st c by (simp add: in_event_def)
  moreover have "\<not> length e < 80" using e by (simp add: valid_event_def)
  ultimately show ?thesis
    by (subst processData.simps)
      (simp add: rs rem magic_word_valid [OF e cap] emit_event_size)
qed

text \<open>One chunk, whatever it contains: the rest of an event, whole events, the start of another.\<close>

lemma process_chunk:
  assumes cap: "\<forall>n. n \<le> cap n" and all: "\<forall>e \<in> set es. valid_event e" and last: "valid_event e'" "e' = r' @ z" "z \<noteq> []"
  shows "r @ c = concat es @ r' \<Longrightarrow> length r < length (hd (es @ [e'])) \<Longrightarrow> in_event (hd (es @ [e'])) r st \<Longrightarrow>
    c \<noteq> [] \<or> es = [] \<Longrightarrow>
    \<exists>st'. processData cap (Some n) c st = Ok st' \<and> in_event e' r' st' \<and>
      observed st' = emit_events n es (observed st)"
  using all
proof (induction es arbitrary: r c st)
  case Nil
  then have "e' = r @ c @ z" using last(2) by simp
  with process_incomplete [OF last(1) _ this last(3)] Nil show ?case
    by (simp add: emit_events_def)
next
  case (Cons e es)
  have e: "valid_event e" using Cons.prems by simp
  have "length r < length e" "in_event e r st" using Cons.prems by simp_all
  obtain u where u: "e = r @ u" "c = u @ concat es @ r'"
    using Cons.prems(1) \<open>length r < length e\<close> by (auto simp: append_eq_append_conv2)
  let ?st = "emit_event n e st"
  have obs: "observed ?st = emit_event n e (observed st)" by (rule emit_event_observed)
  note pc = process_complete [OF e \<open>in_event e r st\<close> u(1) cap, of n "concat es @ r'"]
  show ?case
  proof (cases "concat es @ r' = []")
    case True
    moreover have "es = []"
    proof (rule ccontr)
      assume "es \<noteq> []"
      then obtain a where a: "a \<in> set es" by (cases es) auto
      then have "a = []" using True by simp
      with a Cons.prems(5) show False by (auto simp: valid_event_def)
    qed
    ultimately show ?thesis
      using pc u(2) obs by (simp add: in_event_emit emit_events_def)
  next
    case False
    have "valid_event (hd (es @ [e']))" using Cons.prems(5) last(1) by (cases es) auto
    then have "length ([] :: bytes) < length (hd (es @ [e']))" by (auto simp: valid_event_def)
    with Cons.IH [of "[]" "concat es @ r'" ?st] False Cons.prems(5) show ?thesis
      using pc u(2) obs by (auto simp: in_event_emit emit_events_def)
  qed
qed

text \<open>Where a point of the stream lies: between events, or inside one.\<close>

lemma stream_split:
  assumes "\<forall>e \<in> set es. valid_event e" and "length p < length (concat es @ r') \<or> r' = []"
    and "p @ q = concat es @ r'"
  shows "\<exists>es1 es2 r. es = es1 @ es2 \<and> p = concat es1 @ r \<and> r @ q = concat es2 @ r' \<and>
    (es2 \<noteq> [] \<longrightarrow> length r < length (hd es2))"
  using assms
proof (induction es arbitrary: p)
  case Nil
  then show ?case by auto
next
  case (Cons e es)
  show ?case
  proof (cases "length p < length e")
    case True
    then show ?thesis using Cons.prems(3) by (intro exI [of _ "[]"] exI [of _ "e # es"] exI [of _ p]) simp
  next
    case False
    then obtain p' where p': "p = e @ p'"
      using Cons.prems(3) by (auto simp: append_eq_append_conv2)
    with Cons.prems Cons.IH [of p'] obtain es1 es2 r where
      "es = es1 @ es2 \<and> p' = concat es1 @ r \<and> r @ q = concat es2 @ r' \<and>
        (es2 \<noteq> [] \<longrightarrow> length r < length (hd es2))" by auto
    with p' show ?thesis by (intro exI [of _ "e # es1"] exI [of _ es2] exI [of _ r]) simp
  qed
qed

lemma handle_chunks_stream:
  assumes cap: "\<forall>n. n \<le> cap n" and last: "valid_event e'" "e' = r' @ z" "z \<noteq> []"
  shows "\<forall>e \<in> set es. valid_event e \<Longrightarrow> r @ concat cs = concat es @ r' \<Longrightarrow>
    length r < length (hd (es @ [e'])) \<Longrightarrow> in_event (hd (es @ [e'])) r st \<Longrightarrow>
    \<exists>st'. handle_chunks cap (Some n) cs st = Ok st' \<and> in_event e' r' st' \<and>
      observed st' = emit_events n es (observed st)"
proof (induction cs arbitrary: es r st)
  case Nil
  have "es = []"
  proof (rule ccontr)
    assume "es \<noteq> []"
    then have "length (hd es) \<le> length (concat es @ r')" by (cases es) auto
    with Nil \<open>es \<noteq> []\<close> show False by simp
  qed
  with Nil show ?case by (simp add: emit_events_def)
next
  case (Cons c cs)
  have "\<exists>es1 es2 r1. es = es1 @ es2 \<and> r @ c = concat es1 @ r1 \<and> r1 @ concat cs = concat es2 @ r' \<and>
      (es2 \<noteq> [] \<longrightarrow> length r1 < length (hd es2))"
  proof (cases "length (r @ c) < length (concat es @ r')")
    case True
    then show ?thesis using stream_split [OF Cons.prems(1), of "r @ c" r' "concat cs"] Cons.prems(2) by simp
  next
    case False
    then have "concat cs = []" and "r @ c = concat es @ r'"
      using Cons.prems(2) by (metis append.assoc append_Nil2 append_eq_append_conv_if concat.simps(2) length_append not_less le_add1 append_eq_conv_conj drop_eq_Nil)+
    then show ?thesis by (intro exI [of _ es] exI [of _ "[]"] exI [of _ r']) simp
  qed
  then obtain es1 es2 r1 where sp: "es = es1 @ es2" "r @ c = concat es1 @ r1"
    "r1 @ concat cs = concat es2 @ r'" "es2 \<noteq> [] \<longrightarrow> length r1 < length (hd es2)" by blast
  let ?next = "hd (es2 @ [e'])"
  have nv: "valid_event ?next" using Cons.prems(1) last(1) sp(1) by (cases es2) auto
  have r1: "\<exists>z1. ?next = r1 @ z1 \<and> z1 \<noteq> []"
  proof (cases es2)
    case Nil
    then have "r' = r1 @ concat cs" using sp(3) by simp
    then show ?thesis using Nil last(2,3) by (intro exI [of _ "concat cs @ z"]) simp
  next
    case (Cons a as)
    then have "r1 @ concat cs = a @ concat as @ r'" "length r1 < length a" using sp(3,4) by auto
    then show ?thesis using Cons by (auto simp: append_eq_append_conv2)
  qed
  then obtain z1 where z1: "?next = r1 @ z1" "z1 \<noteq> []" by blast
  have hd1: "hd (es1 @ [?next]) = hd (es @ [e'])" using sp(1) by (cases es1; cases es2) auto
  have ne: "c \<noteq> [] \<or> es1 = []"
  proof (rule ccontr)
    assume "\<not> (c \<noteq> [] \<or> es1 = [])"
    then have "c = []" "es1 \<noteq> []" by auto
    then have "length (hd es1) \<le> length r" using sp(2) by (cases es1) auto
    with \<open>es1 \<noteq> []\<close> Cons.prems(3) hd1 show False by (cases es1) auto
  qed
  have "\<forall>e \<in> set es1. valid_event e" using Cons.prems(1) sp(1) by simp
  from process_chunk [OF cap this nv z1, of r c st n] sp(2) hd1 Cons.prems(3,4) ne obtain st1 where
    st1: "processData cap (Some n) c st = Ok st1" "in_event ?next r1 st1"
      "observed st1 = emit_events n es1 (observed st)" by auto
  have "length r1 < length ?next" using z1 by simp
  with Cons.IH [of es2 r1 st1] st1(2) sp(1,3) Cons.prems(1) obtain st' where
    "handle_chunks cap (Some n) cs st1 = Ok st'" "in_event e' r' st'"
    "observed st' = emit_events n es2 (observed st1)" by auto
  with st1 sp(1) show ?case by (simp add: emit_events_def)
qed

section \<open>Properties\<close>

definition ldc_data_of :: "bytes \<Rightarrow> LDCData" where
  "ldc_data_of e = \<lparr>ld_EventID = uint (le32_at e 24), ld_ldcID = uint (le32_at e 64), ld_Data = e\<rparr>"

text \<open>The numbers of the events of a connection go up by the number of GDCs.\<close>

definition in_sequence :: "int \<Rightarrow> int \<Rightarrow> bytes list \<Rightarrow> bool" where
  "in_sequence n x es \<longleftrightarrow> (\<forall>k < length es. le32_at (es ! k) 24 = word_of_int (x + int k * n))"

lemma emit_events_Cons: "emit_events n (e # es) st = emit_events n es (emit_event n e st)"
  by (simp add: emit_events_def)

lemma emit_event_out: "lc_out (emit_event n e st) = lc_out st @ [ldc_data_of e]"
  by (simp add: emit_event_def Let_def reset_conn_def local_error_def ldc_data_of_def)

lemma emit_events_out: "lc_out (emit_events n es st) = lc_out st @ map ldc_data_of es"
  by (induction es arbitrary: st) (simp_all add: emit_events_def emit_event_out)

lemma emit_event_good:
  "lc_expectedEventID st \<noteq> -1 \<Longrightarrow> le32_at e 24 = word_of_int (lc_expectedEventID st) \<Longrightarrow>
   lc_stops (emit_event n e st) = lc_stops st \<and>
   lc_expectedEventID (emit_event n e st) = lc_expectedEventID st + n"
  by (simp add: emit_event_def Let_def reset_conn_def)

lemma emit_event_bad:
  "lc_expectedEventID st \<noteq> -1 \<Longrightarrow> le32_at e 24 \<noteq> word_of_int (lc_expectedEventID st) \<Longrightarrow>
   length (lc_stops (emit_event n e st)) = Suc (length (lc_stops st))"
  by (simp add: emit_event_def Let_def reset_conn_def local_error_def)

lemma emit_events_stops_mono: "length (lc_stops st) \<le> length (lc_stops (emit_events n es st))"
proof (induction es arbitrary: st)
  case (Cons e es)
  have "length (lc_stops st) \<le> length (lc_stops (emit_event n e st))"
    by (simp add: emit_event_def Let_def reset_conn_def local_error_def)
  then show ?case using Cons [of "emit_event n e st"] by (simp add: emit_events_Cons)
qed (simp add: emit_events_def)

lemma in_sequence_Cons:
  "in_sequence n x (e # es) \<longleftrightarrow> le32_at e 24 = word_of_int x \<and> in_sequence n (x + n) es"
  unfolding in_sequence_def
  by (auto simp: nth_Cons algebra_simps split: nat.splits)

lemma emit_events_stops:
  "0 \<le> lc_expectedEventID st \<Longrightarrow> 0 \<le> n \<Longrightarrow>
   length (lc_stops (emit_events n es st)) = length (lc_stops st) \<longleftrightarrow> in_sequence n (lc_expectedEventID st) es"
proof (induction es arbitrary: st)
  case Nil
  then show ?case by (simp add: emit_events_def in_sequence_def)
next
  case (Cons e es)
  show ?case
  proof (cases "le32_at e 24 = word_of_int (lc_expectedEventID st)")
    case True
    then show ?thesis
      using emit_event_good [of st e n] Cons.IH [of "emit_event n e st"] Cons.prems
      by (simp add: emit_events_Cons in_sequence_Cons)
  next
    case False
    then show ?thesis
      using emit_event_bad [of st e n] emit_events_stops_mono [of "emit_event n e st" n es] Cons.prems
      by (simp add: emit_events_Cons in_sequence_Cons)
  qed
qed

text \<open>The first event of a connection sets the number it expects.\<close>

lemma emit_first:
  "lc_expectedEventID st = -1 \<Longrightarrow> emit_event n e st = emit_event n e (st\<lparr>lc_expectedEventID := uint (le32_at e 24)\<rparr>)"
proof -
  have "0 \<le> uint (le32_at e 24)" by simp
  then have "uint (le32_at e 24) \<noteq> -1" by linarith
  then show "lc_expectedEventID st = -1 \<Longrightarrow> ?thesis"
    by (simp add: emit_event_def Let_def reset_conn_def local_error_def)
qed

lemma emit_events_stops_init:
  assumes "0 \<le> n"
  shows "lc_stops (emit_events n es conn_init) = [] \<longleftrightarrow>
    es = [] \<or> in_sequence n (uint (le32_at (hd es) 24)) es"
proof (cases es)
  case Nil
  then show ?thesis by (simp add: emit_events_def conn_init_def)
next
  case (Cons e rest)
  let ?st = "conn_init\<lparr>lc_expectedEventID := uint (le32_at e 24)\<rparr>"
  have "emit_events n es conn_init = emit_events n es ?st"
    using Cons emit_first [of conn_init n e] by (simp add: emit_events_Cons conn_init_def)
  moreover have "lc_stops ?st = []" by (simp add: conn_init_def)
  ultimately show ?thesis
    using emit_events_stops [of ?st n es] assms Cons by simp
qed

lemma handle_chunks_whole:
  fixes cap :: "nat \<Rightarrow> nat" and es cs :: "bytes list"
  assumes "\<forall>n. n \<le> cap n" and "\<forall>e \<in> set es. valid_event e"
    and "concat cs = concat es @ r" and "valid_event e'" and "e' = r @ z" and "z \<noteq> []" and "0 \<le> nGDCs"
  shows "\<exists>st. handle_chunks cap (Some nGDCs) cs conn_init = Ok st \<and> lc_out st = map ldc_data_of es \<and>
    concat (lc_data st) = r \<and>
    (lc_stops st = [] \<longleftrightarrow> es = [] \<or> in_sequence nGDCs (uint (le32_at (hd es) 24)) es)"
proof -
  have "valid_event (hd (es @ [e']))" using assms(2,4) by (cases es) auto
  then have "length ([] :: bytes) < length (hd (es @ [e']))" by (auto simp: valid_event_def)
  moreover have "in_event (hd (es @ [e'])) [] conn_init" by (simp add: in_event_def conn_init_def)
  moreover have "[] @ concat cs = concat es @ r" using assms(3) by simp
  ultimately obtain st where st: "handle_chunks cap (Some nGDCs) cs conn_init = Ok st"
    "in_event e' r st" "observed st = emit_events nGDCs es (observed conn_init)"
    using handle_chunks_stream [OF assms(1,4,5,6,2)] by blast
  have init: "observed conn_init = conn_init"
    by (simp add: observed_def reset_conn_def conn_init_def)
  have "lc_out st = lc_out (observed st)" "lc_stops st = lc_stops (observed st)"
    by (simp_all add: observed_def reset_conn_def)
  then have "lc_out st = map ldc_data_of es"
    "lc_stops st = [] \<longleftrightarrow> es = [] \<or> in_sequence nGDCs (uint (le32_at (hd es) 24)) es"
    using st(3) init emit_events_stops_init [OF assms(7), of es]
    by (simp_all add: emit_events_out) (simp add: conn_init_def)
  with st show ?thesis by (auto simp: in_event_def)
qed

text \<open>
  C5. Reassembly does not depend on how TCP cuts the stream: if the bytes received are whole valid
  events followed by an incomplete one, then, whatever the chunks, exactly those events are sent on,
  in order and unchanged, with their event and LDC numbers; the connection never panics; and a stop
  is asked for exactly when the event numbers do not go up by the number of GDCs.
\<close>

theorem reassembly_chunk_independent:
  fixes cap :: "nat \<Rightarrow> nat" and es cs :: "bytes list"
  assumes "\<forall>n. n \<le> cap n" and "\<forall>e \<in> set es. valid_event e"
    and "concat cs = concat es @ r" and "valid_event e'" and "e' = r @ z" and "z \<noteq> []" and "0 \<le> nGDCs"
  shows "\<exists>st. handle_chunks cap (Some nGDCs) cs conn_init = Ok st \<and> lc_out st = map ldc_data_of es \<and>
    concat (lc_data st) = r \<and>
    (lc_stops st = [] \<longleftrightarrow> es = [] \<or> in_sequence nGDCs (uint (le32_at (hd es) 24)) es)"
  using assms by (rule handle_chunks_whole)

definition example_event :: "u32 \<Rightarrow> bytes" where
  "example_event i = words_le [84, EVENT_MAGIC_NUMBER, 80, EVENT_CURRENT_VERSION, 7, 100, i, 0, 0, 0, 0, 0, 0,
     0, 0, 0x200, 3, 0xffffffff, 0, 0, 0xcafe]"

lemma example_event_valid: "valid_event (example_event i)"
  using le32_at_words_le [of 0 _ "[]"] le32_at_word [of 1 4 _ "[]"]
  unfolding valid_event_def example_event_def by (simp del: words_le_Cons)

theorem reassembly_chunk_independent_witness:
  "\<exists>st. handle_chunks (\<lambda>n. n) (Some 2) [take 3 (example_event 1), drop 3 (example_event 1) @ take 50 (example_event 3),
        drop 50 (example_event 3)] conn_init = Ok st \<and>
     lc_out st = [ldc_data_of (example_event 1), ldc_data_of (example_event 3)] \<and> lc_stops st = []"
proof -
  have id: "le32_at (example_event i) 24 = i" for i
    using le32_at_word [of 6 24 _ "[]"] unfolding example_event_def by (simp del: words_le_Cons)
  have "in_sequence 2 (uint (le32_at (example_event 1) 24)) [example_event 1, example_event 3]"
    by (auto simp: in_sequence_def id less_Suc_eq)
  moreover have "example_event 5 \<noteq> []" by (simp add: example_event_def put_le32_def)
  ultimately show ?thesis
    using reassembly_chunk_independent [of "\<lambda>n. n" "[example_event 1, example_event 3]"
        "[take 3 (example_event 1), drop 3 (example_event 1) @ take 50 (example_event 3), drop 50 (example_event 3)]"
        "[]" "example_event 5" "example_event 5" 2] example_event_valid
    by (auto simp flip: append.assoc)
qed

text \<open>
  A sub-event that announces the size zero makes the connection panic when \<open>slices.Concat\<close> of
  nothing has no capacity: the slice \<open>wholeData[4:8]\<close> is taken before the length is checked.
\<close>

theorem zero_size_panics:
  assumes "cap 0 < 8" and "le32_at chunk 0 = 0" and "4 \<le> length chunk"
  shows "processData cap (Some n) chunk conn_init = Panic"
  using assms
  by (subst processData.simps) (simp add: read_size_def conn_init_def magic_word_def Let_def)

theorem zero_size_panics_witness:
  "processData (\<lambda>n. n) (Some 1) (replicate 80 0) conn_init = Panic"
  by (rule zero_size_panics) (simp_all add: le32_at_def le32_def)

end
