(* ===== verification/Gdc_Builder.thy ===== *)
theory Gdc_Builder
  imports Event_Assembly Gdc_Stream
begin

text \<open>
  The event builder of a GDC and its binary files: \<open>src/gdcRPC/processEvents.go\<close>, \<open>src/gdcRPC/io.go\<close>,
  \<open>src/gdcRPC/binaryWriter.go\<close> and \<open>countEnabledGDCs\<close> of \<open>src/gdcRPC/gdc.go\<close>.

  \<open>mountEvent\<close> collects the sub-events of the LDCs; a complete event gets the GDC header and is sent to
  the writer of the current file, to the decoder and to the accounting of the file closer.
  \<open>readData\<close> starts a new file when the current one exceeds the configured size. A channel is the
  list of what was sent on it; the channels of the binary writers are kept oldest first, one for each
  sub-run. The writer itself is a function of the cases its \<open>select\<close> takes.
\<close>

section \<open>Definitions\<close>

definition countEnabledGDCs :: "GDCConfiguration list \<Rightarrow> nat" where
  "countEnabledGDCs gdcs = foldl (\<lambda>n g. if gdc_Enabled g then n + 1 else n) 0 gdcs"

text \<open>An LDC counts when it is enabled and has an enabled equipment.\<close>

definition countEnabledLDCs :: "LDCConfiguration list \<Rightarrow> nat" where
  "countEnabledLDCs ldcs =
     foldl (\<lambda>n l. let nEnabledEquipments =
                       foldl (\<lambda>k e. if eq_Enabled e then k + 1 else k) (0 :: nat) (ldc_Equipments l)
                 in if ldc_Enabled l \<and> nEnabledEquipments > 0 then n + 1 else n) 0 ldcs"

text \<open>
  The values of the run's context that the builder reads. \<open>gdcServer\<close> also sets the configuration of the GDC and the size of the metrics channel before it
  starts the builder; a context without them, on which the builder would panic or return, is not represented.
\<close>

record gdc_context =
  gx_runNumber :: "int option"
  gx_writeOutput :: bool
  gx_decode :: bool
  gx_decoderConfig :: "DecoderConfiguration option"
  gx_maxFilesize :: "int option"

definition writes_data :: "gdc_context \<Rightarrow> bool" where
  "writes_data cx = (case gx_decoderConfig cx of None \<Rightarrow> False | Some d \<Rightarrow> dec_WriteData d)"

text \<open>A job of the decoder: event, data and the sub-run whose writers it is for.\<close>

record DecoderJob =
  dj_DuckEventID :: int
  dj_Data :: bytes
  dj_SubRun :: nat

record gdc_builder =
  gb_eventData :: "(int, int, bytes) event_map"
  gb_bytesInFile :: int
  gb_subRun :: nat
  gb_incompleteEvents :: int
  gb_binary :: "bytes list list"
  gb_received :: "(nat \<times> int) list"
  gb_jobs :: "DecoderJob list"
  gb_dataEnds :: "nat list"
  gb_closers :: "nat list"
  gb_metrics :: "nat list"

definition gdc_builder_init :: "gdc_context \<Rightarrow> gdc_builder" where
  "gdc_builder_init cx = \<lparr>gb_eventData = gm_empty, gb_bytesInFile = 0, gb_subRun = 0,
     gb_incompleteEvents = 0, gb_binary = (if gx_writeOutput cx then [[]] else []), gb_received = [],
     gb_jobs = [], gb_dataEnds = [], gb_closers = (if writes_data cx then [0] else []),
     gb_metrics = []\<rparr>"

text \<open>A send on the channel of the current writer.\<close>

definition send_current :: "bytes \<Rightarrow> bytes list list \<Rightarrow> bytes list list" where
  "send_current d chs = butlast chs @ [last chs @ [d]]"

definition mountEvent ::
  "(int, bytes) iteration \<Rightarrow> int \<Rightarrow> gdc_context \<Rightarrow> int \<Rightarrow> nat \<Rightarrow> LDCData \<Rightarrow> gdc_builder \<Rightarrow> gdc_builder" where
  "mountEvent ord now cx gdcID nLDCs ldcData st =
     (let runNumber = (case gx_runNumber cx of None \<Rightarrow> 0 | Some r \<Rightarrow> r);
          ev = ld_EventID ldcData;
          st1 = (case gm_get (gb_eventData st) ev of
                   None \<Rightarrow> st\<lparr>gb_eventData := gm_set ev gm_empty (gb_eventData st),
                             gb_incompleteEvents := gb_incompleteEvents st + 1\<rparr>
                 | Some _ \<Rightarrow> st);
          ldcs = gm_set (ld_ldcID ldcData) (ld_Data ldcData) (gm_get_or gm_empty (gb_eventData st1) ev);
          st2 = st1\<lparr>gb_eventData := gm_set ev ldcs (gb_eventData st1)\<rparr>
      in if gm_len ldcs = nLDCs then
           let gdcData = addGDCHeader ord now ldcs ev gdcID runNumber;
               st3 = st2\<lparr>gb_bytesInFile := gb_bytesInFile st2 + int (length gdcData)\<rparr>;
               st4 = (if writes_data cx then st3\<lparr>gb_received := gb_received st3 @ [(gb_subRun st3, ev)]\<rparr> else st3);
               st5 = (if gx_writeOutput cx then st4\<lparr>gb_binary := send_current gdcData (gb_binary st4)\<rparr> else st4);
               st6 = (if gx_decode cx
                      then st5\<lparr>gb_jobs := gb_jobs st5 @
                             [\<lparr>dj_DuckEventID = ev, dj_Data = gdcData, dj_SubRun = gb_subRun st5\<rparr>]\<rparr>
                      else st5)
           in st6\<lparr>gb_metrics := gb_metrics st6 @ [length gdcData],
                  gb_eventData := gm_delete ev (gb_eventData st6),
                  gb_incompleteEvents := gb_incompleteEvents st6 - 1\<rparr>
         else st2)"

text \<open>The new files when the current one is too large.\<close>

definition rotate_files :: "gdc_context \<Rightarrow> gdc_builder \<Rightarrow> gdc_builder" where
  "rotate_files cx st =
     (let st1 = st\<lparr>gb_subRun := gb_subRun st + 1\<rparr>;
          st2 = (if gx_writeOutput cx then st1\<lparr>gb_binary := gb_binary st1 @ [[]]\<rparr> else st1);
          st3 = (if writes_data cx
                 then st2\<lparr>gb_dataEnds := gb_dataEnds st2 @ [gb_subRun st],
                          gb_closers := gb_closers st2 @ [gb_subRun st2]\<rparr>
                 else st2)
      in st3\<lparr>gb_bytesInFile := 0\<rparr>)"

definition readData_recv ::
  "(int, bytes) iteration \<Rightarrow> gdc_context \<Rightarrow> int \<Rightarrow> nat \<Rightarrow> int \<Rightarrow> LDCData \<times> int \<Rightarrow> gdc_builder \<Rightarrow> gdc_builder" where
  "readData_recv ord cx gdcID nLDCs maxFilesize = (\<lambda>(ldcData, now) st.
     let st1 = mountEvent ord now cx gdcID nLDCs ldcData st
     in if gb_bytesInFile st1 > maxFilesize then rotate_files cx st1 else st1)"

text \<open>The end of the run: the file closer hears that no more data come.\<close>

definition readData_stop :: "gdc_builder \<Rightarrow> gdc_builder" where
  "readData_stop st = st\<lparr>gb_dataEnds := gb_dataEnds st @ [gb_subRun st]\<rparr>"

definition readData ::
  "(int, bytes) iteration \<Rightarrow> gdc_context \<Rightarrow> int \<Rightarrow> LDCConfiguration list \<Rightarrow> (LDCData \<times> int) list \<Rightarrow> gdc_builder option" where
  "readData ord cx gdcID ldcs xs =
     (case gx_maxFilesize cx of
        None \<Rightarrow> None
      | Some maxFilesize \<Rightarrow>
          Some (foldl (\<lambda>st x. readData_recv ord cx gdcID (countEnabledLDCs ldcs) maxFilesize x st)
                  (gdc_builder_init cx) xs))"

subsection \<open>Files (io.go, binaryWriter.go)\<close>

text \<open>The verb \<open>%0nd\<close>: zeros in front up to the width.\<close>

definition show_pad :: "nat \<Rightarrow> nat \<Rightarrow> string" where
  "show_pad w n = replicate (w - length (show_nat n)) (CHR ''0'') @ show_nat n"

definition output_filename :: "string \<Rightarrow> int \<Rightarrow> string \<Rightarrow> string \<Rightarrow> nat \<Rightarrow> string" where
  "output_filename path run host experiment subrun =
     path @ ''/run_'' @ show_int run @ ''.'' @ host @ ''.'' @ experiment @ ''.'' @ show_pad 5 subrun @ ''.rd''"

definition getDecodedOutputFilename :: "string \<Rightarrow> int \<Rightarrow> nat \<Rightarrow> int \<Rightarrow> nat \<Rightarrow> string" where
  "getDecodedOutputFilename path run subrun gdcID trigger =
     path @ ''/run_'' @ show_int run @ ''_'' @ show_pad 4 subrun @ ''_ldc'' @ show_int gdcID @ ''_trg'' @
     show_nat trigger @ ''.waveforms.h5''"

text \<open>
  The cases the writer's \<open>select\<close> takes: the end of the context, the next datum with the error its
  write returns, the closed channel.
\<close>

datatype writer_case = WCtxDone | WData bytes "string option" | WClosed

record writer_result =
  wr_written :: "bytes list"
  wr_closed :: bool

fun binaryWriterWithFile :: "writer_case list \<Rightarrow> bytes list \<Rightarrow> writer_result" where
  "binaryWriterWithFile [] written = \<lparr>wr_written = written, wr_closed = False\<rparr>"
| "binaryWriterWithFile (WCtxDone # cs) written = \<lparr>wr_written = written, wr_closed = True\<rparr>"
| "binaryWriterWithFile (WClosed # cs) written = \<lparr>wr_written = written, wr_closed = True\<rparr>"
| "binaryWriterWithFile (WData d err # cs) written =
     (case err of
        None \<Rightarrow> binaryWriterWithFile cs (written @ [d])
      | Some _ \<Rightarrow> \<lparr>wr_written = written, wr_closed = True\<rparr>)"

text \<open>
  The cases a \<open>select\<close> can take when the channel holds the data \<open>q\<close> and is then closed: data in order,
  the context's end (when it is cancelled) at any point, the close only after the last datum.
\<close>

fun writer_cases :: "bool \<Rightarrow> bytes list \<Rightarrow> writer_case list \<Rightarrow> bool" where
  "writer_cases cancelled q [] = False"
| "writer_cases cancelled q (WCtxDone # cs) = cancelled"
| "writer_cases cancelled q (WClosed # cs) = (q = [])"
| "writer_cases cancelled q (WData d err # cs) =
     (q \<noteq> [] \<and> hd q = d \<and> (err \<noteq> None \<or> writer_cases cancelled (tl q) cs))"

section \<open>Properties\<close>

subsection \<open>Counting\<close>

lemma foldl_count: "foldl (\<lambda>n x. if P x then n + 1 else n) k xs = k + length (filter P xs)"
  for k :: nat
  by (induction xs arbitrary: k) auto

lemma countEnabledGDCs_eq: "countEnabledGDCs gdcs = length (EnabledGDCs gdcs)"
  by (simp add: countEnabledGDCs_def EnabledGDCs_def foldl_count)

lemma countEnabledLDCs_eq:
  "countEnabledLDCs ldcs = length (filter (\<lambda>l. ldc_Enabled l \<and> (\<exists>e \<in> set (ldc_Equipments l). eq_Enabled e)) ldcs)"
  unfolding countEnabledLDCs_def foldl_count Let_def
  by (simp add: foldl_count filter_empty_conv)

subsection \<open>The builder assembles\<close>

definition ldc_message :: "LDCData \<times> int \<Rightarrow> int \<times> int \<times> bytes" where
  "ldc_message = (\<lambda>(d, _). (ld_EventID d, ld_ldcID d, ld_Data d))"

definition run_of :: "gdc_context \<Rightarrow> int" where
  "run_of cx = (case gx_runNumber cx of None \<Rightarrow> 0 | Some r \<Rightarrow> r)"

lemma gm_set_twice: "gm_set k v (gm_set k w m) = gm_set k v m"
  by (induction m) (auto simp: gm_set_def)

lemma gm_get_or_fresh: "gm_get_or gm_empty (gm_set k gm_empty m) k = gm_empty"
  by (simp add: gm_get_or_def gm_get_def gm_set_def update_conv')

text \<open>A sub-event that completes its event, and one that does not.\<close>

lemma mountEvent_assemble:
  assumes "assemble_step n (ld_EventID d, ld_ldcID d, ld_Data d) (gb_eventData st) = (m, outs)"
    and "gx_writeOutput cx" and "st' = mountEvent ord now cx gdcID n d st"
  defines "evs \<equiv> map (\<lambda>(e, ls). addGDCHeader ord now ls e gdcID (run_of cx)) outs"
  shows "gb_eventData st' = m" and "gb_subRun st' = gb_subRun st"
    and "gb_binary st' = (if outs = [] then gb_binary st else send_current (hd evs) (gb_binary st))"
    and "gb_bytesInFile st' = gb_bytesInFile st + int (sum_list (map length evs))"
    and "gb_metrics st' = gb_metrics st @ map length evs"
proof -
  have "gb_eventData st' = m \<and> gb_subRun st' = gb_subRun st \<and>
      gb_binary st' = (if outs = [] then gb_binary st else send_current (hd evs) (gb_binary st)) \<and>
      gb_bytesInFile st' = gb_bytesInFile st + int (sum_list (map length evs)) \<and>
      gb_metrics st' = gb_metrics st @ map length evs"
  proof (cases "gm_get (gb_eventData st) (ld_EventID d)")
    case None
    then have "gm_get_or gm_empty (gb_eventData st) (ld_EventID d) = gm_empty"
      by (simp add: gm_get_or_def)
    with None assms show ?thesis
      by (auto simp: mountEvent_def assemble_step_def collect_def Let_def gm_get_or_fresh gm_set_twice
          run_of_def split: if_splits)
  next
    case (Some a)
    with assms show ?thesis
      by (auto simp: mountEvent_def assemble_step_def collect_def Let_def run_of_def split: if_splits)
  qed
  then show "gb_eventData st' = m" and "gb_subRun st' = gb_subRun st"
    and "gb_binary st' = (if outs = [] then gb_binary st else send_current (hd evs) (gb_binary st))"
    and "gb_bytesInFile st' = gb_bytesInFile st + int (sum_list (map length evs))"
    and "gb_metrics st' = gb_metrics st @ map length evs" by auto
qed

lemma assemble_step_at_most_one: "assemble_step n x m = (m', outs) \<Longrightarrow> outs = [] \<or> (\<exists>p. outs = [p])"
  by (auto simp: assemble_step_def Let_def split: prod.splits if_splits)

subsection \<open>Files\<close>

definition size_of :: "bytes list \<Rightarrow> int" where
  "size_of evs = int (sum_list (map length evs))"

text \<open>
  The files of a run: those that were closed are just over the size limit, the current one is not,
  and its size is what the builder counts.
\<close>

definition files_ok :: "int \<Rightarrow> gdc_builder \<Rightarrow> bool" where
  "files_ok maxsize st \<longleftrightarrow> length (gb_binary st) = Suc (gb_subRun st) \<and>
     gb_bytesInFile st = size_of (last (gb_binary st)) \<and> gb_bytesInFile st \<le> maxsize \<and>
     (\<forall>f \<in> set (butlast (gb_binary st)). size_of f > maxsize \<and> size_of (butlast f) \<le> maxsize)"

lemma files_ok_init: "0 \<le> maxsize \<Longrightarrow> gx_writeOutput cx \<Longrightarrow> files_ok maxsize (gdc_builder_init cx)"
  by (simp add: files_ok_def gdc_builder_init_def size_of_def)

lemma size_of_snoc [simp]: "size_of (f @ [d]) = size_of f + int (length d)"
  by (simp add: size_of_def)

lemma rotate_files_simps:
  "gx_writeOutput cx \<Longrightarrow> gb_binary (rotate_files cx st) = gb_binary st @ [[]]"
  "gb_subRun (rotate_files cx st) = Suc (gb_subRun st)" "gb_bytesInFile (rotate_files cx st) = 0"
  "gb_eventData (rotate_files cx st) = gb_eventData st"
  by (simp_all add: rotate_files_def Let_def)

lemma readData_recv_step:
  assumes step: "assemble_step n (ldc_message x) (gb_eventData st) = (m, outs)"
    and out: "gx_writeOutput cx" and ok: "files_ok maxsize st" and "0 \<le> maxsize"
    and st': "st' = readData_recv ord cx gdcID n maxsize x st"
  shows "files_ok maxsize st' \<and> gb_eventData st' = m \<and>
    concat (gb_binary st') = concat (gb_binary st) @
      map (\<lambda>(e, ls). addGDCHeader ord (snd x) ls e gdcID (run_of cx)) outs"
proof -
  obtain d now where x: "x = (d, now)" by (cases x)
  let ?s = "mountEvent ord now cx gdcID n d st"
  note mt = mountEvent_assemble [OF step [unfolded x ldc_message_def prod.case] out refl, of ord now gdcID]
  have ne: "gb_binary st \<noteq> []" using ok by (auto simp: files_ok_def)
  consider (no) "outs = []" | (one) e ls where "outs = [(e, ls)]"
    using assemble_step_at_most_one [OF step] by auto
  then show ?thesis
  proof cases
    case no
    then have "\<not> gb_bytesInFile ?s > maxsize" using mt(4) ok by (simp add: files_ok_def)
    then have "st' = ?s" using st' by (simp add: readData_recv_def x)
    then show ?thesis using no mt ok x by (simp add: files_ok_def)
  next
    case one
    let ?ev = "addGDCHeader ord now ls e gdcID (run_of cx)"
    have bin: "gb_binary ?s = butlast (gb_binary st) @ [last (gb_binary st) @ [?ev]]"
      using mt(3) one by (simp add: send_current_def)
    have cat: "concat (gb_binary ?s) = concat (gb_binary st) @ [?ev]"
    proof -
      have "concat (gb_binary st) = concat (butlast (gb_binary st)) @ last (gb_binary st)"
        using ne append_butlast_last_id [of "gb_binary st"] concat_append by (metis concat.simps append_Nil2)
      then show ?thesis using bin by simp
    qed
    have size: "gb_bytesInFile ?s = size_of (last (gb_binary ?s))"
      using mt(4) one ok bin by (simp add: files_ok_def)
    show ?thesis
    proof (cases "gb_bytesInFile ?s > maxsize")
      case True
      then have r: "st' = rotate_files cx ?s" using st' by (simp add: readData_recv_def x)
      then have b: "gb_binary st' = gb_binary ?s @ [[]]" using out by (simp add: rotate_files_simps)
      have "butlast (gb_binary st') = butlast (gb_binary st) @ [last (gb_binary st) @ [?ev]]"
        unfolding b butlast_snoc bin by (rule refl)
      moreover have "size_of (last (gb_binary st')) = 0" using b by (simp add: size_of_def)
      ultimately have "files_ok maxsize st'"
        using True mt(2) ok bin size assms(4) r b
        by (auto simp: rotate_files_simps files_ok_def)
      then show ?thesis
        using mt(1) cat one x r b by (simp add: rotate_files_simps)
    next
      case False
      then have "st' = ?s" using st' by (simp add: readData_recv_def x)
      then show ?thesis using False mt(1,2) ok bin cat size one x by (auto simp: files_ok_def)
    qed
  qed
qed

lemma readData_assemble:
  assumes out: "gx_writeOutput cx" and "0 \<le> maxsize"
  shows "files_ok maxsize st \<Longrightarrow> assemble n (map ldc_message xs) (gb_eventData st) = (m, outs) \<Longrightarrow>
    st' = foldl (\<lambda>st x. readData_recv ord cx gdcID n maxsize x st) st xs \<Longrightarrow>
    files_ok maxsize st' \<and> gb_eventData st' = m \<and>
    (\<exists>nows. length nows = length outs \<and> concat (gb_binary st') = concat (gb_binary st) @
      map (\<lambda>(now, e, ls). addGDCHeader ord now ls e gdcID (run_of cx)) (zip nows outs))"
proof (induction xs arbitrary: st m outs)
  case Nil
  then show ?case by simp
next
  case (Cons x xs)
  obtain m1 o1 where s1: "assemble_step n (ldc_message x) (gb_eventData st) = (m1, o1)" by force
  obtain o2 where s2: "assemble n (map ldc_message xs) m1 = (m, o2)" and outs: "outs = o1 @ o2"
    using Cons.prems(2) s1 by (auto split: prod.splits)
  let ?s = "readData_recv ord cx gdcID n maxsize x st"
  have r: "files_ok maxsize ?s" "gb_eventData ?s = m1" "concat (gb_binary ?s) = concat (gb_binary st) @
      map (\<lambda>(e, ls). addGDCHeader ord (snd x) ls e gdcID (run_of cx)) o1"
    using readData_recv_step [OF s1 out Cons.prems(1) assms(2) refl] by auto
  from Cons.IH [OF r(1) s2 [folded r(2)]] Cons.prems(3) obtain nows where
    i: "files_ok maxsize st'" "gb_eventData st' = m" "length nows = length o2"
      "concat (gb_binary st') = concat (gb_binary ?s) @
        map (\<lambda>(now, e, ls). addGDCHeader ord now ls e gdcID (run_of cx)) (zip nows o2)" by auto
  have "map (\<lambda>(e, ls). addGDCHeader ord (snd x) ls e gdcID (run_of cx)) o1 =
      map (\<lambda>(now, e, ls). addGDCHeader ord now ls e gdcID (run_of cx)) (zip (replicate (length o1) (snd x)) o1)"
    using assemble_step_at_most_one [OF s1] by auto
  with i r(3) outs show ?case
    by (intro conjI exI [of _ "replicate (length o1) (snd x) @ nows"]) simp_all
qed

text \<open>The sub-events of one GDC are numbered from its first event in steps of the number of GDCs.\<close>

interpretation gdc_numbers: event_numbering "\<lambda>(g :: int, n :: int) j. g + int j * n" "\<lambda>(g, n). 0 < n"
  by unfold_locales (auto simp: inj_def)

lemma readData_in_order:
  fixes g nGDCs maxsize :: int
  assumes "gx_writeOutput cx" and "gx_maxFilesize cx = Some maxsize" and "0 \<le> maxsize"
    and "finite S" and "S \<noteq> {}" and "countEnabledLDCs ldcs = card S" and "0 < nGDCs"
    and "in_order (\<lambda>j. g + int j * nGDCs) S d (map ldc_message xs)"
  shows "\<exists>st. readData ord cx gdcID ldcs xs = Some st \<and>
    length (concat (gb_binary st)) = Min ((\<lambda>s. length (of_source s (map ldc_message xs))) ` S) \<and>
    (\<forall>j < length (concat (gb_binary st)). \<exists>now ls. gm_invar ls \<and>
       gm_get ls = (\<lambda>s. if s \<in> S then Some (d s j) else None) \<and>
       concat (gb_binary st) ! j = addGDCHeader ord now ls (g + int j * nGDCs) gdcID (run_of cx))"
proof -
  obtain m outs where a: "assemble (card S) (map ldc_message xs) gm_empty = (m, outs)" by force
  note c = gdc_numbers.completed_in_order [of "(g, nGDCs)", OF _ assms(4,5) _ a]
  define st where "st = foldl (\<lambda>st x. readData_recv ord cx gdcID (card S) maxsize x st) (gdc_builder_init cx) xs"
  have ev: "gb_eventData (gdc_builder_init cx) = gm_empty" "concat (gb_binary (gdc_builder_init cx)) = []"
    by (simp_all add: gdc_builder_init_def)
  obtain nows where nows: "length nows = length outs" "concat (gb_binary st) =
      map (\<lambda>(now, e, ls). addGDCHeader ord now ls e gdcID (run_of cx)) (zip nows outs)"
    using readData_assemble [OF assms(1,3) files_ok_init [OF assms(3,1)] _ st_def] a ev by auto
  have "readData ord cx gdcID ldcs xs = Some st"
    using assms(2,6) by (simp add: readData_def st_def)
  moreover have "concat (gb_binary st) ! j = addGDCHeader ord (nows ! j) (snd (outs ! j)) (fst (outs ! j)) gdcID (run_of cx)"
    if "j < length outs" for j
    using that nows by (simp add: split_def)
  moreover have "length (concat (gb_binary st)) = length outs" using nows by simp
  ultimately show ?thesis using c assms(7,8) by (metis (no_types, lifting) case_prod_conv)
qed

text \<open>
  C11. The GDC's event builder: when every LDC sends its sub-events with the numbers \<open>g\<close>, \<open>g + nGDCs\<close>,
  \<open>g + 2 * nGDCs\<close>, ... in order, then for every interleaving of the LDCs the events written, over all
  files in the order of the sub-runs, are as many as the slowest LDC has delivered; the event in
  place \<open>j\<close> has the number \<open>g + j * nGDCs\<close> and holds the \<open>j\<close>-th sub-event of every LDC.
\<close>

theorem gdc_builder_complete:
  fixes g nGDCs maxsize :: int
  assumes "gx_writeOutput cx" and "gx_maxFilesize cx = Some maxsize" and "0 \<le> maxsize"
    and "finite S" and "S \<noteq> {}" and "countEnabledLDCs ldcs = card S" and "0 < nGDCs"
    and "in_order (\<lambda>j. g + int j * nGDCs) S d (map ldc_message xs)"
  shows "\<exists>st. readData ord cx gdcID ldcs xs = Some st \<and>
    length (concat (gb_binary st)) = Min ((\<lambda>s. length (of_source s (map ldc_message xs))) ` S) \<and>
    (\<forall>j < length (concat (gb_binary st)). \<exists>now ls. gm_invar ls \<and>
       gm_get ls = (\<lambda>s. if s \<in> S then Some (d s j) else None) \<and>
       concat (gb_binary st) ! j = addGDCHeader ord now ls (g + int j * nGDCs) gdcID (run_of cx))"
  using assms by (rule readData_in_order)

definition example_gdc_context :: gdc_context where
  "example_gdc_context = \<lparr>gx_runNumber = Some 100, gx_writeOutput = True, gx_decode = False,
     gx_decoderConfig = None, gx_maxFilesize = Some 100\<rparr>"

definition example_ldc_data :: "(LDCData \<times> int) list" where
  "example_ldc_data = [(\<lparr>ld_EventID = 1, ld_ldcID = 3, ld_Data = [7]\<rparr>, 0),
     (\<lparr>ld_EventID = 3, ld_ldcID = 3, ld_Data = [8]\<rparr>, 0)]"

theorem gdc_builder_complete_witness:
  "\<exists>st. readData (\<lambda>m. m) example_gdc_context 1 [example_ldc] example_ldc_data = Some st \<and>
     length (concat (gb_binary st)) = 2"
proof -
  let ?d = "\<lambda>(_ :: int) j. if j = (0 :: nat) then [7 :: byte] else [8]"
  have io: "in_order (\<lambda>j. 1 + int j * 2) {3} ?d (map ldc_message example_ldc_data)"
    by (auto simp: in_order_def of_source_def ldc_message_def example_ldc_data_def)
  have n: "countEnabledLDCs [example_ldc] = card {3 :: int}"
    by (simp add: countEnabledLDCs_def example_ldc_def example_equipment_def)
  have "Min ((\<lambda>s. length (of_source s (map ldc_message example_ldc_data))) ` {3}) = 2"
    by (simp add: of_source_def ldc_message_def example_ldc_data_def)
  then show ?thesis
    using gdc_builder_complete [of example_gdc_context 100 "{3}" "[example_ldc]" 2 1 ?d example_ldc_data
        "\<lambda>m. m" 1] io n
    by (auto simp: example_gdc_context_def)
qed

text \<open>
  C12. File rotation loses nothing and bounds the files, whatever arrives: there is one file for each
  sub-run from 0 to the current one, every closed file exceeds the size limit only by its last event,
  the current file does not exceed it, and the builder's byte count is the size of the current file.
\<close>

theorem file_rotation_bounds:
  assumes "gx_writeOutput cx" and "gx_maxFilesize cx = Some maxsize" and "0 \<le> maxsize"
    and "readData ord cx gdcID ldcs xs = Some st"
  shows "length (gb_binary st) = Suc (gb_subRun st) \<and>
    gb_bytesInFile st = size_of (last (gb_binary st)) \<and> gb_bytesInFile st \<le> maxsize \<and>
    (\<forall>f \<in> set (butlast (gb_binary st)). maxsize < size_of f \<and> size_of (butlast f) \<le> maxsize)"
proof -
  obtain m outs where a: "assemble (countEnabledLDCs ldcs) (map ldc_message xs) gm_empty = (m, outs)" by force
  have st: "st = foldl (\<lambda>st x. readData_recv ord cx gdcID (countEnabledLDCs ldcs) maxsize x st)
      (gdc_builder_init cx) xs"
    using assms(2,4) by (simp add: readData_def)
  have "gb_eventData (gdc_builder_init cx) = gm_empty" by (simp add: gdc_builder_init_def)
  then have "files_ok maxsize st"
    using readData_assemble [OF assms(1,3) files_ok_init [OF assms(3,1)] _ st] a by simp
  then show ?thesis by (simp add: files_ok_def)
qed

theorem file_rotation_bounds_witness:
  "\<exists>st. readData (\<lambda>m. m) example_gdc_context 1 [example_ldc] example_ldc_data = Some st \<and>
     gb_bytesInFile st \<le> 100"
proof -
  obtain st where st: "readData (\<lambda>m. m) example_gdc_context 1 [example_ldc] example_ldc_data = Some st"
    by (simp add: readData_def example_gdc_context_def)
  then show ?thesis
    using file_rotation_bounds [OF _ _ _ st, of 100] by (simp add: example_gdc_context_def)
qed

subsection \<open>File names\<close>

lemma read_nat_zeros: "read_nat 0 (replicate k (CHR ''0'') @ s) = read_nat 0 s"
  by (induction k) simp_all

lemma show_pad_inject [simp]: "show_pad w m = show_pad w n \<longleftrightarrow> m = n"
  by (metis read_nat_zeros read_show_nat show_pad_def)

lemma output_filename_inject:
  "output_filename path run host experiment m = output_filename path run host experiment n \<longleftrightarrow> m = n"
  by (simp add: output_filename_def)

subsection \<open>The writer\<close>

lemma binaryWriter_prefix:
  "writer_cases cancelled q cs \<Longrightarrow>
   \<exists>k \<le> length q. binaryWriterWithFile cs written = \<lparr>wr_written = written @ take k q, wr_closed = True\<rparr> \<and>
     (\<not> cancelled \<and> (\<forall>d e. WData d e \<in> set cs \<longrightarrow> e = None) \<longrightarrow> k = length q)"
proof (induction cs written arbitrary: q rule: binaryWriterWithFile.induct)
  case (4 d err cs written)
  then obtain q' where q: "q = d # q'" by (cases q) auto
  show ?case
  proof (cases err)
    case None
    with 4 q obtain k where "k \<le> length q'"
      "binaryWriterWithFile cs (written @ [d]) = \<lparr>wr_written = (written @ [d]) @ take k q', wr_closed = True\<rparr>"
      "\<not> cancelled \<and> (\<forall>d e. WData d e \<in> set cs \<longrightarrow> e = None) \<longrightarrow> k = length q'"
      by fastforce
    with None q show ?thesis by (intro exI [of _ "Suc k"]) auto
  next
    case (Some e)
    then show ?thesis by (intro exI [of _ 0]) auto
  qed
qed auto

text \<open>
  The binary writer writes a prefix of the events queued for it, in order, and always closes the
  file; without a write error and without the end of the run's context it writes them all.
\<close>

theorem binary_writer_writes_prefix:
  assumes "writer_cases cancelled q cs"
  shows "\<exists>k \<le> length q. binaryWriterWithFile cs [] = \<lparr>wr_written = take k q, wr_closed = True\<rparr> \<and>
    (\<not> cancelled \<and> (\<forall>d e. WData d e \<in> set cs \<longrightarrow> e = None) \<longrightarrow> k = length q)"
  using binaryWriter_prefix [OF assms, of "[]"] by simp

theorem binary_writer_writes_prefix_witness:
  "wr_written (binaryWriterWithFile [WData [1] None, WData [2] None, WClosed] []) = [[1], [2]]"
  using binary_writer_writes_prefix [of False "[[1], [2]]" "[WData [1] None, WData [2] None, WClosed]"]
  by auto

text \<open>
  When the run's context is cancelled the writer may stop with any number of events still queued:
  they are complete and counted, and never reach the file.
\<close>

theorem stop_drops_queued_events:
  assumes "k \<le> length q"
  shows "\<exists>cs. writer_cases True q cs \<and>
    binaryWriterWithFile cs [] = \<lparr>wr_written = take k q, wr_closed = True\<rparr>"
proof -
  let ?cs = "\<lambda>k q. map (\<lambda>d. WData d None) (take k q) @ [WCtxDone]"
  have "writer_cases True q (?cs k q)" using assms
    by (induction k arbitrary: q) (auto simp: take_Suc neq_Nil_conv Suc_le_length_iff)
  moreover have "binaryWriterWithFile (?cs k q) w = \<lparr>wr_written = w @ take k q, wr_closed = True\<rparr>" for w
    using assms by (induction k arbitrary: q w) (auto simp: take_Suc Suc_le_length_iff)
  ultimately show ?thesis by (metis append_Nil)
qed

theorem stop_drops_queued_events_witness:
  "\<exists>cs. writer_cases True [[1], [2 :: byte]] cs \<and> wr_written (binaryWriterWithFile cs []) = []"
  using stop_drops_queued_events [of 0 "[[1], [2 :: byte]]"] by auto

end
