(* ===== verification/Data_Flow.thy ===== *)
theory Data_Flow
  imports Ldc_Builder Gdc_Builder
begin

text \<open>
  The way of the data through the system: what the LDCs' event builders (\<open>src/ldcRPC/ldc.go\<close>) send to one GDC,
  what its connections (\<open>src/gdcRPC/ldcData.go\<close>) make of the bytes, and what its event builder
  (\<open>src/gdcRPC/processEvents.go\<close>) makes of the sub-events.

  The lemmas show that each stage gives the next one what it relies on: the sub-events for one GDC are the
  \<open>g\<close>-th, the \<open>(g + n)\<close>-th, ... of the LDC; they are valid events in sequence for the connection; and the
  sub-events that the connections pass on are in order for the event builder.
\<close>

section \<open>The sub-events for one GDC\<close>

text \<open>The data an LDC writes on its connection to GDC \<open>g\<close>, in the order of the writes.\<close>

definition sub_events_for :: "nat \<Rightarrow> sub_builder \<Rightarrow> bytes list" where
  "sub_events_for g st = map snd (filter (\<lambda>(i, b). i = g) (sb_sent st))"

lemma residue_positions:
  fixes n g N :: nat
  assumes "g < n"
  shows "\<exists>K. filter (\<lambda>j. j mod n = g) [0..<N] = map (\<lambda>k. g + k * n) [0..<K] \<and> (\<forall>k. g + k * n < N \<longleftrightarrow> k < K)"
proof (induction N)
  case 0
  then show ?case by (intro exI [of _ 0]) simp
next
  case (Suc N)
  then obtain K where K: "filter (\<lambda>j. j mod n = g) [0..<N] = map (\<lambda>k. g + k * n) [0..<K]"
    and lt: "\<forall>k. g + k * n < N \<longleftrightarrow> k < K" by blast
  show ?case
  proof (cases "N mod n = g")
    case True
    then have N: "N = g + (N div n) * n" by (metis add.commute div_mult_mod_eq)
    have "k < K \<longleftrightarrow> k < N div n" for k
      using lt N assms by (metis add_less_cancel_left mult_less_cancel2 gr_implies_not0 neq0_conv)
    then have "K = N div n" by (metis less_irrefl linorder_neqE_nat)
    moreover have "g + k * n < Suc N \<longleftrightarrow> k < Suc (N div n)" for k
      using N assms by (metis add_le_cancel_left less_Suc_eq_le mult_le_cancel2 neq0_conv gr_implies_not0)
    ultimately show ?thesis using K True N by (intro exI [of _ "Suc K"]) auto
  next
    case False
    then have "g + k * n \<noteq> N" for k using assms by auto
    then have "g + k * n < Suc N \<longleftrightarrow> k < K" for k using lt by (metis less_Suc_eq)
    then show ?thesis using K False by (intro exI [of _ K]) simp
  qed
qed

lemma filter_positions:
  assumes "\<forall>j < length xs. fst (xs ! j) = j mod n"
  shows "map snd (filter (\<lambda>(i, b). i = g) xs) = map (\<lambda>j. snd (xs ! j)) (filter (\<lambda>j. j mod n = g) [0..<length xs])"
proof -
  have "filter (\<lambda>(i, b). i = g) xs = filter (\<lambda>(i, b). i = g) (map ((!) xs) [0..<length xs])"
    by (simp add: map_nth)
  also have "\<dots> = map ((!) xs) (filter (\<lambda>j. fst (xs ! j) = g) [0..<length xs])"
    by (simp add: filter_map o_def split_def)
  also have "filter (\<lambda>j. fst (xs ! j) = g) [0..<length xs] = filter (\<lambda>j. j mod n = g) [0..<length xs]"
    using assms by (intro filter_cong) auto
  finally show ?thesis by simp
qed

lemma sub_events_positions:
  assumes "\<forall>j < length (sb_sent st). fst (sb_sent st ! j) = j mod n"
  shows "sub_events_for g st = map (\<lambda>j. snd (sb_sent st ! j)) (filter (\<lambda>j. j mod n = g) [0..<length (sb_sent st)])"
  unfolding sub_events_for_def by (rule filter_positions [OF assms])

lemma filter_residue:
  assumes "g < n" and "\<forall>j < length xs. fst (xs ! j) = j mod n"
  shows "\<exists>K. map snd (filter (\<lambda>(i, b). i = g) xs) = map (\<lambda>k. snd (xs ! (g + k * n))) [0..<K] \<and>
    (\<forall>k < K. g + k * n < length xs)"
proof -
  obtain K where K: "filter (\<lambda>j. j mod n = g) [0..<length xs] = map (\<lambda>k. g + k * n) [0..<K]"
    "\<forall>k. g + k * n < length xs \<longleftrightarrow> k < K"
    using residue_positions [OF assms(1)] by blast
  then show ?thesis unfolding filter_positions [OF assms(2)] by (intro exI [of _ K]) (simp add: o_def)
qed

text \<open>The positions with the residues \<open>0\<close> to \<open>n - 1\<close> are all positions.\<close>

lemma residues_partition:
  fixes xs :: "nat list"
  assumes "0 < n"
  shows "mset (concat (map (\<lambda>g. filter (\<lambda>j. j mod n = g) xs) [0..<n])) = mset xs"
proof (induction xs)
  case Nil
  then show ?case by (induction n) simp_all
next
  case (Cons x xs)
  have one: "(\<Sum>g \<leftarrow> [0..<n]. if x mod n = g then {#x#} else {#}) = {#x#}"
    using assms by (subst sum_list_distinct_conv_sum_set) (simp_all add: sum.delta)
  have "mset (concat (map (\<lambda>g. filter (\<lambda>j. j mod n = g) (x # xs)) [0..<n])) =
      (\<Sum>g \<leftarrow> [0..<n]. (if x mod n = g then {#x#} else {#}) + mset (filter (\<lambda>j. j mod n = g) xs))"
    unfolding mset_concat by (intro arg_cong [of _ _ sum_list]) auto
  also have "\<dots> = {#x#} + mset (concat (map (\<lambda>g. filter (\<lambda>j. j mod n = g) xs) [0..<n]))"
    unfolding sum_list_addf one mset_concat by (simp add: o_def)
  finally show ?case using Cons.IH by simp
qed

section \<open>A sub-event on its connection\<close>

lemma addLDCHeader_valid:
  assumes "length (addLDCHeader ord now eqs ev ldc run) < 2 ^ 32"
  shows "valid_event (addLDCHeader ord now eqs ev ldc run)"
    and "le32_at (addLDCHeader ord now eqs ev ldc run) 24 = word_of_int ev"
    and "le32_at (addLDCHeader ord now eqs ev ldc run) 64 = word_of_int (ldc_ID ldc)"
proof -
  let ?n = "sum_list (map (length \<circ> snd) (ord eqs))"
  let ?h = "ldc_header ?n ev (ldc_ID ldc) run now"
  have b: "addLDCHeader ord now eqs ev ldc run = words_le (event_words ?h) @ concat (map snd (ord eqs))"
    by (rule addLDCHeader_bytes)
  have words: "length (event_words ?h) = 20" by simp
  have at: "le32_at (addLDCHeader ord now eqs ev ldc run) (4 * k) = event_words ?h ! k" if "k < 20" for k
    unfolding b using that words by (intro le32_at_words_le) simp
  have "event_words ?h ! 0 = of_nat (?n + 80)" "event_words ?h ! 1 = EVENT_MAGIC_NUMBER"
      "event_words ?h ! 6 = word_of_int ev" "event_words ?h ! 16 = word_of_int (ldc_ID ldc)"
    by (simp_all add: event_words_def ldc_header_def)
  then show "valid_event (addLDCHeader ord now eqs ev ldc run)"
    "le32_at (addLDCHeader ord now eqs ev ldc run) 24 = word_of_int ev"
    "le32_at (addLDCHeader ord now eqs ev ldc run) 64 = word_of_int (ldc_ID ldc)"
    using at [of 0] at [of 1] at [of 6] at [of 16] assms by (simp_all add: valid_event_def add.commute)
qed


text \<open>\<open>b\<close> is the sub-event that an LDC makes of the \<open>i\<close>-th data of its equipments \<open>S\<close>.\<close>

definition sub_event_of ::
  "(int, bytes) iteration \<Rightarrow> int set \<Rightarrow> (int \<Rightarrow> nat \<Rightarrow> bytes) \<Rightarrow> LDCConfiguration \<Rightarrow> int \<Rightarrow> nat \<Rightarrow> bytes \<Rightarrow> bool" where
  "sub_event_of ord S d ldc run i b \<longleftrightarrow> (\<exists>now eqs. gm_invar eqs \<and>
     gm_get eqs = (\<lambda>s. if s \<in> S then Some (d s i) else None) \<and> b = addLDCHeader ord now eqs (1 + int i) ldc run)"

lemma ldc_targets:
  assumes "cx_runNumber cx = Some run" "cx_nEnabledEquipments cx = Some (int (card S))"
    and "finite S" "S \<noteq> {}" and "0 < n" and "\<forall>x \<in> set xs. \<not> ed_Error (fst x)"
    and "in_order (\<lambda>j. 1 + int j) S d (map message_of xs)" and st: "readSubEvents ord cx ldc n xs sub_builder_init = Ok st"
  shows "\<forall>j < length (sb_sent st). fst (sb_sent st ! j) = j mod n"
proof -
  have "\<exists>now eqs. gm_invar eqs \<and> gm_get eqs = (\<lambda>s. if s \<in> S then Some (d s j) else None) \<and>
      sb_sent st ! j = (j mod n, addLDCHeader ord now eqs (1 + int j) ldc run)" if "j < length (sb_sent st)" for j
    using readSubEvents_in_order [OF assms(1-7), of ord ldc] st that by auto
  then show ?thesis by fastforce
qed

lemma ldc_stage:
  assumes cx: "cx_runNumber cx = Some run" "cx_nEnabledEquipments cx = Some (int (card S))"
    and S: "finite S" "S \<noteq> {}" and "g < n" and "\<forall>x \<in> set xs. \<not> ed_Error (fst x)"
    and io: "in_order (\<lambda>j. 1 + int j) S d (map message_of xs)"
    and st: "readSubEvents ord cx ldc n xs sub_builder_init = Ok st"
    and k: "k < length (sub_events_for g st)"
  shows "g + k * n < length (sb_sent st)" and "sub_event_of ord S d ldc run (g + k * n) (sub_events_for g st ! k)"
    and "(g, sub_events_for g st ! k) \<in> set (sb_sent st)"
proof -
  have "0 < n" using assms(5) by simp
  have sent: "\<exists>now eqs. gm_invar eqs \<and> gm_get eqs = (\<lambda>s. if s \<in> S then Some (d s j) else None) \<and>
      sb_sent st ! j = (j mod n, addLDCHeader ord now eqs (1 + int j) ldc run)" if "j < length (sb_sent st)" for j
    using readSubEvents_in_order [OF cx S \<open>0 < n\<close> assms(6) io, of ord ldc] st that by auto
  then have "\<forall>j < length (sb_sent st). fst (sb_sent st ! j) = j mod n" by fastforce
  then obtain K where K: "sub_events_for g st = map (\<lambda>k. snd (sb_sent st ! (g + k * n))) [0..<K]"
      "\<forall>k < K. g + k * n < length (sb_sent st)"
    using filter_residue [OF assms(5)] unfolding sub_events_for_def by blast
  then have kK: "k < K" using k by simp
  then show lt: "g + k * n < length (sb_sent st)" using K(2) by blast
  have "(g + k * n) mod n = g" using assms(5) by simp
  with sent [OF lt] obtain now eqs where *: "gm_invar eqs" "gm_get eqs = (\<lambda>s. if s \<in> S then Some (d s (g + k * n)) else None)"
      "sb_sent st ! (g + k * n) = (g, addLDCHeader ord now eqs (1 + int (g + k * n)) ldc run)" by auto
  then show "sub_event_of ord S d ldc run (g + k * n) (sub_events_for g st ! k)"
    using kK K(1) unfolding sub_event_of_def by auto
  show "(g, sub_events_for g st ! k) \<in> set (sb_sent st)"
    using *(3) kK K(1) lt nth_mem [OF lt] by simp
qed

lemma sub_event_data:
  assumes "sub_event_of ord S d ldc run i b" and "length b < 2 ^ 32" and "1 + int i < 2 ^ 32"
    and "0 \<le> ldc_ID ldc" and "ldc_ID ldc < 2 ^ 32"
  shows "valid_event b" and "ldc_data_of b = \<lparr>ld_EventID = 1 + int i, ld_ldcID = ldc_ID ldc, ld_Data = b\<rparr>"
    and "le32_at b 24 = word_of_int (1 + int i)"
proof -
  obtain now eqs where b: "b = addLDCHeader ord now eqs (1 + int i) ldc run"
    using assms(1) by (auto simp: sub_event_of_def)
  note v = addLDCHeader_valid [OF assms(2) [unfolded b], folded b]
  show "valid_event b" "le32_at b 24 = word_of_int (1 + int i)" by (rule v)+
  have "uint (word_of_int (1 + int i) :: u32) = 1 + int i" "uint (word_of_int (ldc_ID ldc) :: u32) = ldc_ID ldc"
    using assms(3,4,5) by (simp_all add: word_of_int_inverse)
  then show "ldc_data_of b = \<lparr>ld_EventID = 1 + int i, ld_ldcID = ldc_ID ldc, ld_Data = b\<rparr>"
    using v by (simp add: ldc_data_of_def)
qed

text \<open>The connection passes the sub-events on unchanged and finds their numbers in sequence.\<close>

lemma connection_stage:
  assumes "\<forall>n. n \<le> cap n" and "concat cs = concat es" and conn: "handle_chunks cap (Some (int n)) cs conn_init = Ok conn"
    and es: "\<And>k. k < length es \<Longrightarrow> sub_event_of ord S d ldc run (g + k * n) (es ! k) \<and> length (es ! k) < 2 ^ 32 \<and>
      1 + int (g + k * n) < 2 ^ 32"
    and "0 \<le> ldc_ID ldc" and "ldc_ID ldc < 2 ^ 32"
  shows "lc_out conn = map (\<lambda>k. \<lparr>ld_EventID = (1 + int g) + int k * int n, ld_ldcID = ldc_ID ldc, ld_Data = es ! k\<rparr>)
      [0..<length es]" and "lc_stops conn = []"
proof -
  have ev: "valid_event (es ! k)" "ldc_data_of (es ! k) =
      \<lparr>ld_EventID = 1 + int (g + k * n), ld_ldcID = ldc_ID ldc, ld_Data = es ! k\<rparr>"
      "le32_at (es ! k) 24 = word_of_int (1 + int (g + k * n))" if "k < length es" for k
  proof -
    have e: "sub_event_of ord S d ldc run (g + k * n) (es ! k)" "length (es ! k) < 2 ^ 32" "1 + int (g + k * n) < 2 ^ 32"
      using es [OF that] by blast+
    show "valid_event (es ! k)" "ldc_data_of (es ! k) =
        \<lparr>ld_EventID = 1 + int (g + k * n), ld_ldcID = ldc_ID ldc, ld_Data = es ! k\<rparr>"
      "le32_at (es ! k) 24 = word_of_int (1 + int (g + k * n))"
      by (rule sub_event_data [OF e assms(5,6)])+
  qed
  then have valid: "\<forall>e \<in> set es. valid_event e" by (metis in_set_conv_nth)
  have ne: "example_event 1 \<noteq> []" using example_event_valid [of 1] by (auto simp: valid_event_def)
  have "concat cs = concat es @ []" using assms(2) by simp
  from handle_chunks_whole [OF assms(1) valid this example_event_valid [of 1] append_Nil [symmetric] ne, of "int n"] conn
  have out: "lc_out conn = map ldc_data_of es"
    and stops: "lc_stops conn = [] \<longleftrightarrow> es = [] \<or> in_sequence (int n) (uint (le32_at (hd es) 24)) es" by auto
  show "lc_out conn = map (\<lambda>k. \<lparr>ld_EventID = (1 + int g) + int k * int n, ld_ldcID = ldc_ID ldc, ld_Data = es ! k\<rparr>)
      [0..<length es]"
    unfolding out using ev(2) by (intro nth_equalityI) (auto simp: algebra_simps)
  show "lc_stops conn = []"
  proof (cases es)
    case (Cons e rest)
    then have "uint (le32_at (hd es) 24) = 1 + int g"
      using ev(3) [of 0] es [of 0] by (simp add: word_of_int_inverse)
    then show ?thesis unfolding stops in_sequence_def using ev(3) by (simp add: algebra_simps)
  qed (simp add: stops)
qed

text \<open>The GDC's builder receives, from every LDC, what its connection passed on, in that order.\<close>

definition merges :: "int set \<Rightarrow> (int \<Rightarrow> ldc_conn) \<Rightarrow> (LDCData \<times> int) list \<Rightarrow> bool" where
  "merges L conn ys \<longleftrightarrow> (\<forall>(y, now) \<in> set ys. ld_ldcID y \<in> L) \<and>
     (\<forall>l \<in> L. filter (\<lambda>y. ld_ldcID y = l) (map fst ys) = lc_out (conn l))"

lemma merged_source:
  "of_source l (map ldc_message ys) =
     map (\<lambda>y. (ld_EventID y, ld_ldcID y, ld_Data y)) (filter (\<lambda>y. ld_ldcID y = l) (map fst ys))"
  by (simp add: of_source_def ldc_message_def filter_map o_def split_def)

lemma merged_in_order:
  assumes "merges L conn ys"
    and "\<And>l. l \<in> L \<Longrightarrow> lc_out (conn l) = map (\<lambda>k. \<lparr>ld_EventID = f k, ld_ldcID = l, ld_Data = es l ! k\<rparr>) [0..<length (es l)]"
  shows "in_order f L (\<lambda>l k. es l ! k) (map ldc_message ys)"
    and "\<And>l. l \<in> L \<Longrightarrow> length (of_source l (map ldc_message ys)) = length (es l)"
proof -
  have own: "of_source l (map ldc_message ys) = map (\<lambda>k. (f k, l, es l ! k)) [0..<length (es l)]" if "l \<in> L" for l
    using assms that unfolding merged_source merges_def by (simp add: o_def)
  then show len: "length (of_source l (map ldc_message ys)) = length (es l)" if "l \<in> L" for l
    using that by simp
  have none: "of_source l (map ldc_message ys) = []" if "l \<notin> L" for l
    using assms(1) that unfolding merged_source merges_def by (auto simp: filter_empty_conv)
  have "of_source l (map ldc_message ys) = map (\<lambda>k. (f k, l, es l ! k)) [0..<length (of_source l (map ldc_message ys))]" for l
    by (cases "l \<in> L") (simp_all add: own none)
  moreover have "\<forall>(e, s, x) \<in> set (map ldc_message ys). s \<in> L"
    using assms(1) by (auto simp: merges_def ldc_message_def)
  ultimately show "in_order f L (\<lambda>l k. es l ! k) (map ldc_message ys)" by (simp add: in_order_def)
qed

text \<open>The event builder puts together the sub-events in the same place of all LDCs.\<close>

lemma event_stage:
  fixes n :: int
  assumes gdc: "gx_writeOutput gx" "gx_maxFilesize gx = Some maxsize" "0 \<le> maxsize"
    and L: "finite L" "L \<noteq> {}" "countEnabledLDCs ldcs = card L" and n: "0 < n" and ys: "merges L conn ys"
    and out: "\<And>l. l \<in> L \<Longrightarrow>
      lc_out (conn l) = map (\<lambda>k. \<lparr>ld_EventID = g + int k * n, ld_ldcID = l, ld_Data = es l ! k\<rparr>) [0..<length (es l)]"
    and es: "\<And>l k. l \<in> L \<Longrightarrow> k < length (es l) \<Longrightarrow> P l k (es l ! k)"
  shows "\<exists>gb. readData gord gx gdcID ldcs ys = Some gb \<and>
    length (concat (gb_binary gb)) = Min ((\<lambda>l. length (es l)) ` L) \<and>
    (\<forall>j < length (concat (gb_binary gb)). \<exists>now ls. gm_invar ls \<and> dom (gm_get ls) = L \<and>
       concat (gb_binary gb) ! j = addGDCHeader gord now ls (g + int j * n) gdcID (run_of gx) \<and>
       (\<forall>l \<in> L. \<exists>b. gm_get ls l = Some b \<and> P l j b))"
proof -
  note merged = merged_in_order [OF ys out]
  from readData_in_order [OF gdc L n merged(1), of gord gdcID]
  obtain gb where gb: "readData gord gx gdcID ldcs ys = Some gb"
      "length (concat (gb_binary gb)) = Min ((\<lambda>l. length (of_source l (map ldc_message ys))) ` L)"
      and evs: "\<And>j. j < length (concat (gb_binary gb)) \<Longrightarrow> \<exists>now ls. gm_invar ls \<and>
        gm_get ls = (\<lambda>l. if l \<in> L then Some (es l ! j) else None) \<and>
        concat (gb_binary gb) ! j = addGDCHeader gord now ls (g + int j * n) gdcID (run_of gx)"
    by blast
  have len: "length (concat (gb_binary gb)) = Min ((\<lambda>l. length (es l)) ` L)"
    unfolding gb(2) using merged(2) by (metis (no_types, lifting) image_cong)
  have "\<exists>now ls. gm_invar ls \<and> dom (gm_get ls) = L \<and>
      concat (gb_binary gb) ! j = addGDCHeader gord now ls (g + int j * n) gdcID (run_of gx) \<and>
      (\<forall>l \<in> L. \<exists>b. gm_get ls l = Some b \<and> P l j b)" if j: "j < length (concat (gb_binary gb))" for j
  proof -
    obtain now ls where ls: "gm_invar ls" "gm_get ls = (\<lambda>l. if l \<in> L then Some (es l ! j) else None)"
        "concat (gb_binary gb) ! j = addGDCHeader gord now ls (g + int j * n) gdcID (run_of gx)"
      using evs [OF j] by blast
    have "j < length (es l)" if "l \<in> L" for l
      using j that L(1) unfolding len by (metis (no_types, lifting) Min_le finite_imageI image_eqI order_less_le_trans)
    moreover have "dom (gm_get ls) = L" by (auto simp: ls(2) dom_def)
    ultimately show ?thesis using es ls by (intro exI [of _ now] exI [of _ ls]) simp
  qed
  with gb(1) len show ?thesis by blast
qed

section \<open>All stages\<close>

text \<open>What the LDCs of a run send to GDC \<open>g\<close>, and what the connections of the GDC make of it.\<close>

lemma run_sub_events:
  fixes n g :: nat and L :: "int set" and cfg :: "int \<Rightarrow> LDCConfiguration"
  assumes L: "finite L" "L \<noteq> {}" "\<forall>l \<in> L. 0 \<le> l \<and> l < 2 ^ 32 \<and> ldc_ID (cfg l) = l" and g: "g < n"
    and cx: "\<forall>l \<in> L. cx_runNumber (cx l) = Some run \<and> cx_nEnabledEquipments (cx l) = Some (int (card (S l))) \<and>
      finite (S l) \<and> S l \<noteq> {}"
    and xs: "\<forall>l \<in> L. (\<forall>x \<in> set (xs l). \<not> ed_Error (fst x)) \<and> in_order (\<lambda>j. 1 + int j) (S l) (d l) (map message_of (xs l))"
    and st: "\<forall>l \<in> L. readSubEvents (ord l) (cx l) (cfg l) n (xs l) sub_builder_init = Ok (st l)"
    and small: "\<forall>l \<in> L. length (sb_sent (st l)) < 2 ^ 32 - 1 \<and> (\<forall>(i, b) \<in> set (sb_sent (st l)). length b < 2 ^ 32)"
    and l: "l \<in> L" and k: "k < length (sub_events_for g (st l))"
  shows "sub_event_of (ord l) (S l) (d l) (cfg l) run (g + k * n) (sub_events_for g (st l) ! k) \<and>
    length (sub_events_for g (st l) ! k) < 2 ^ 32 \<and> 1 + int (g + k * n) < 2 ^ 32"
proof -
  have "cx_runNumber (cx l) = Some run" "cx_nEnabledEquipments (cx l) = Some (int (card (S l)))" "finite (S l)"
      "S l \<noteq> {}" "\<forall>x \<in> set (xs l). \<not> ed_Error (fst x)" "in_order (\<lambda>j. 1 + int j) (S l) (d l) (map message_of (xs l))"
      "readSubEvents (ord l) (cx l) (cfg l) n (xs l) sub_builder_init = Ok (st l)"
    using cx xs st l by blast+
  note stage = ldc_stage [OF this(1-4) g this(5-7) k]
  have sm: "length (sb_sent (st l)) < 2 ^ 32 - 1" "\<forall>(i, b) \<in> set (sb_sent (st l)). length b < 2 ^ 32"
    using small l by blast+
  have "1 + int q < 2 ^ 32" if "q < 2 ^ 32 - 1" for q :: nat using that by simp
  from this [OF less_trans [OF stage(1) sm(1)]] have "1 + int (g + k * n) < 2 ^ 32" .
  with stage(2) bspec [OF sm(2) stage(3)] show ?thesis by simp
qed

lemma run_connections:
  fixes n g :: nat and L :: "int set" and cfg :: "int \<Rightarrow> LDCConfiguration"
  assumes L: "finite L" "L \<noteq> {}" "\<forall>l \<in> L. 0 \<le> l \<and> l < 2 ^ 32 \<and> ldc_ID (cfg l) = l" and g: "g < n"
    and cx: "\<forall>l \<in> L. cx_runNumber (cx l) = Some run \<and> cx_nEnabledEquipments (cx l) = Some (int (card (S l))) \<and>
      finite (S l) \<and> S l \<noteq> {}"
    and xs: "\<forall>l \<in> L. (\<forall>x \<in> set (xs l). \<not> ed_Error (fst x)) \<and> in_order (\<lambda>j. 1 + int j) (S l) (d l) (map message_of (xs l))"
    and st: "\<forall>l \<in> L. readSubEvents (ord l) (cx l) (cfg l) n (xs l) sub_builder_init = Ok (st l)"
    and small: "\<forall>l \<in> L. length (sb_sent (st l)) < 2 ^ 32 - 1 \<and> (\<forall>(i, b) \<in> set (sb_sent (st l)). length b < 2 ^ 32)"
    and cap: "\<forall>k. k \<le> cap k"
    and conn: "concat cs = concat (sub_events_for g (st l))" "handle_chunks cap (Some (int n)) cs conn_init = Ok conn" and l: "l \<in> L"
  shows "lc_out conn = map (\<lambda>k. \<lparr>ld_EventID = (1 + int g) + int k * int n, ld_ldcID = l, ld_Data = sub_events_for g (st l) ! k\<rparr>)
      [0..<length (sub_events_for g (st l))]" "lc_stops conn = []"
proof -
  have h: "0 \<le> ldc_ID (cfg l)" "ldc_ID (cfg l) < 2 ^ 32" "ldc_ID (cfg l) = l" using L(3) l by auto
  note stage = connection_stage [OF cap conn run_sub_events [OF L g cx xs st small l] h(1,2)]
  show "lc_out conn = map (\<lambda>k. \<lparr>ld_EventID = (1 + int g) + int k * int n, ld_ldcID = l, ld_Data = sub_events_for g (st l) ! k\<rparr>)
      [0..<length (sub_events_for g (st l))]" "lc_stops conn = []"
    using stage h(3) by auto
qed

text \<open>
  The events in the files of one GDC, for any interleaving of equipments and LDCs and any chunks on the connections: the
  \<open>j\<close>-th event holds the \<open>j\<close>-th sub-event that every LDC sent to the GDC.
\<close>

lemma run_stage:
  fixes n g :: nat and L :: "int set" and cfg :: "int \<Rightarrow> LDCConfiguration"
  assumes L: "finite L" "L \<noteq> {}" "\<forall>l \<in> L. 0 \<le> l \<and> l < 2 ^ 32 \<and> ldc_ID (cfg l) = l" and g: "g < n"
    and cx: "\<forall>l \<in> L. cx_runNumber (cx l) = Some run \<and> cx_nEnabledEquipments (cx l) = Some (int (card (S l))) \<and>
      finite (S l) \<and> S l \<noteq> {}"
    and xs: "\<forall>l \<in> L. (\<forall>x \<in> set (xs l). \<not> ed_Error (fst x)) \<and> in_order (\<lambda>j. 1 + int j) (S l) (d l) (map message_of (xs l))"
    and st: "\<forall>l \<in> L. readSubEvents (ord l) (cx l) (cfg l) n (xs l) sub_builder_init = Ok (st l)"
    and small: "\<forall>l \<in> L. length (sb_sent (st l)) < 2 ^ 32 - 1 \<and> (\<forall>(i, b) \<in> set (sb_sent (st l)). length b < 2 ^ 32)"
    and cap: "\<forall>k. k \<le> cap k"
    and conn: "\<forall>l \<in> L. concat (cs l) = concat (sub_events_for g (st l)) \<and>
      handle_chunks cap (Some (int n)) (cs l) conn_init = Ok (conn l)"
    and ys: "merges L conn ys"
    and gdc: "gx_writeOutput gx" "gx_maxFilesize gx = Some maxsize" "0 \<le> maxsize" "countEnabledLDCs ldcs = card L"
  shows "(\<forall>l \<in> L. lc_stops (conn l) = []) \<and>
    (\<exists>gb. readData gord gx gdcID ldcs ys = Some gb \<and>
      length (concat (gb_binary gb)) = Min ((\<lambda>l. length (sub_events_for g (st l))) ` L) \<and>
      (\<forall>j < length (concat (gb_binary gb)). \<exists>now ls. gm_invar ls \<and> dom (gm_get ls) = L \<and>
         concat (gb_binary gb) ! j = addGDCHeader gord now ls (1 + int g + int j * int n) gdcID (run_of gx) \<and>
         (\<forall>l \<in> L. \<exists>b. gm_get ls l = Some b \<and> b = sub_events_for g (st l) ! j \<and> length b < 2 ^ 32 \<and> 1 + int (g + j * n) < 2 ^ 32 \<and>
           sub_event_of (ord l) (S l) (d l) (cfg l) run (g + j * n) b)))"
proof -
  let ?es = "\<lambda>l. sub_events_for g (st l)"
  note ev = run_sub_events [OF L g cx xs st small]
  have c: "lc_out (conn l) = map (\<lambda>k. \<lparr>ld_EventID = (1 + int g) + int k * int n, ld_ldcID = l, ld_Data = ?es l ! k\<rparr>)
        [0..<length (?es l)]" "lc_stops (conn l) = []" if "l \<in> L" for l
    using run_connections [OF L g cx xs st small cap, of "cs l" l "conn l"] conn that by blast+
  have "0 < int n" using g by simp
  from event_stage [OF gdc(1-3) L(1,2) gdc(4) this ys c(1), of "\<lambda>l k b. b = ?es l ! k \<and> length b < 2 ^ 32 \<and>
      1 + int (g + k * n) < 2 ^ 32 \<and> sub_event_of (ord l) (S l) (d l) (cfg l) run (g + k * n) b"] ev c(2)
  show ?thesis by blast
qed

end
