(* ===== verification/Event_Dump.thy ===== *)
theory Event_Dump
  imports Date_Format
begin

text \<open>
  The tool that prints a raw data file, \<open>src/eventDump/main.go\<close>.

  A file is the list of its bytes; every function that prints is the text it prints. The two walks
  over the data of an event (\<open>dumpEventNormal\<close> and the first pass of \<open>dumpEventSorted\<close>) advance by a
  size read from the file, so they may not end: they have fuel and \<open>None\<close> stands for a walk that has
  not ended. The local time zone is an argument (\<open>zone t\<close> is its offset in seconds at the instant
  \<open>t\<close>), and so is the sort of the sorted mode: \<open>sort.Slice\<close> promises a sorted permutation, not a
  stable one, and \<open>sorts_by_id\<close> says just that.

  The lemmas compare the walks with a structural printer: an event tree is a header with its
  sub-events, each a header with its equipment blocks; printing the bytes of a tree is printing the
  tree.
\<close>

section \<open>Definitions\<close>

subsection \<open>Formatting\<close>

definition newline :: string where
  "newline = [CHR 0x0A]"

text \<open>The verbs \<open>%02x\<close>, and \<open>%d\<close> padded on the left to a width (\<open>%2d\<close> with blanks, \<open>%06d\<close> with zeros).\<close>

definition show_hex2 :: "byte \<Rightarrow> string" where
  "show_hex2 b = [hex_char (unat b div 16), hex_char (unat b mod 16)]"

definition pad_left :: "char \<Rightarrow> nat \<Rightarrow> string \<Rightarrow> string" where
  "pad_left c n s = replicate (n - length s) c @ s"

definition show_u32 :: "u32 \<Rightarrow> string" where
  "show_u32 w = show_nat (unat w)"

text \<open>The layout \<open>Mon Jan 2 15:04:05 2006\<close> of a number of seconds since 1970, in the local time.\<close>

definition weekday_name :: "int \<Rightarrow> string" where
  "weekday_name days =
     [''Sun'', ''Mon'', ''Tue'', ''Wed'', ''Thu'', ''Fri'', ''Sat''] ! nat ((days + 4) mod 7)"

definition month_name :: "int \<Rightarrow> string" where
  "month_name m = [''Jan'', ''Feb'', ''Mar'', ''Apr'', ''May'', ''Jun'', ''Jul'', ''Aug'', ''Sep'',
     ''Oct'', ''Nov'', ''Dec''] ! nat (m - 1)"

text \<open>Year, month and day of the month, counted in eras of 400 years that begin in March.\<close>

definition civil_date :: "int \<Rightarrow> int \<times> int \<times> int" where
  "civil_date days =
     (let z = days + 719468;
          era = z div 146097;
          doe = z mod 146097;
          yoe = (doe - doe div 1460 + doe div 36524 - doe div 146096) div 365;
          doy = doe - (365 * yoe + yoe div 4 - yoe div 100);
          mp = (5 * doy + 2) div 153;
          d = doy - (153 * mp + 2) div 5 + 1;
          m = (if mp < 10 then mp + 3 else mp - 9)
      in (yoe + era * 400 + (if m \<le> 2 then 1 else 0), m, d))"

definition format_time :: "(int \<Rightarrow> int) \<Rightarrow> int \<Rightarrow> string" where
  "format_time zone t =
     (let local_t = t + zone t;
          days = local_t div 86400;
          secs = nat (local_t mod 86400);
          (y, m, d) = civil_date days;
          two = (\<lambda>n. pad_left (CHR ''0'') 2 (show_nat n))
      in weekday_name days @ '' '' @ month_name m @ '' '' @ show_int d @ '' '' @
         two (secs div 3600) @ '':'' @ two (secs mod 3600 div 60) @ '':'' @ two (secs mod 60) @ '' '' @
         show_int y)"

subsection \<open>Reading\<close>

text \<open>
  One \<open>Read\<close> of a regular file into a buffer of \<open>n\<close> bytes: at most one gigabyte, and nothing at the
  end of the file.
\<close>

definition file_read :: "nat \<Rightarrow> bytes \<Rightarrow> bytes" where
  "file_read n s = take (min n (2 ^ 30)) s"

definition readEventHeader :: "bytes \<Rightarrow> string + EventHeaderStruct \<times> bytes" where
  "readEventHeader s =
     (let headerBytes = file_read 80 s;
          n = length headerBytes
      in if n = 0 then Inl ''EOF''
         else if n < 80 then Inl (''incomplete header: got '' @ show_nat n @ '' bytes, expected 80'')
         else Inr (parseLDCHeader headerBytes, drop 80 s))"

function countSubEvents_from :: "bytes \<Rightarrow> nat \<Rightarrow> nat" where
  "countSubEvents_from eventData offset =
     (if offset < length eventData then
        if offset + 80 > length eventData then 0
        else
          let eventSize = unat (le32_at eventData offset)
          in if eventSize = 0 \<or> eventSize > length eventData - offset then 0
             else Suc (countSubEvents_from eventData (offset + eventSize))
      else 0)"
  by pat_completeness auto
termination
  by (relation "measure (\<lambda>(d, i). length d - i)") auto

definition countSubEvents :: "bytes \<Rightarrow> nat" where
  "countSubEvents eventData = countSubEvents_from eventData 0"

subsection \<open>Printing\<close>

definition printEqualsLine :: string where
  "printEqualsLine = replicate 79 CHR ''='' @ newline"

definition printDottedLine :: string where
  "printDottedLine = replicate 79 CHR ''.'' @ newline"

definition getEventTypeName :: "u32 \<Rightarrow> string" where
  "getEventTypeName eventType =
     (if eventType = event_type_code START_OF_RUN then ''StartOfRun''
      else if eventType = event_type_code END_OF_RUN then ''EndOfRun''
      else if eventType = event_type_code PHYSICS_EVENT then ''PhysicsEvent''
      else if eventType = event_type_code CALIBRATION_EVENT then ''CalibrationEvent''
      else ''Unknown('' @ show_u32 eventType @ '')'')"

fun join_plus :: "string list \<Rightarrow> string" where
  "join_plus [] = []"
| "join_plus [a] = a"
| "join_plus (a # as) = a @ ''+'' @ join_plus as"

definition getAttributesStr :: "u32 list \<Rightarrow> string" where
  "getAttributesStr attr =
     (let attrs = (if attr ! 2 AND SUPER_EVENT \<noteq> 0 then [''Super''] else []) @
                  (if attr ! 2 AND ORIGINAL_EVENT \<noteq> 0 then [''OriginalEvent''] else [])
      in if attrs = [] then ''noAttr'' else join_plus attrs)"

definition getEquipmentAttributesStr :: "u32 list \<Rightarrow> string" where
  "getEquipmentAttributesStr attr =
     (if attr ! 0 = 0 \<and> attr ! 1 = 0 \<and> attr ! 2 = 0 then ''noAttr'' else ''hasAttr'')"

text \<open>The instant of a header: microseconds beyond a second carry into the seconds.\<close>

definition timestamp_str :: "(int \<Rightarrow> int) \<Rightarrow> EventHeaderStruct \<Rightarrow> string" where
  "timestamp_str zone h =
     format_time zone (uint (EventTimestampSec h) + uint (EventTimestampUsec h) div 1000000) @
     '' +'' @ pad_left (CHR ''0'') 6 (show_u32 (EventTimestampUsec h)) @ ''usec''"

text \<open>The run line and the pattern line, the same in both header printers.\<close>

definition header_lines :: "(int \<Rightarrow> int) \<Rightarrow> EventHeaderStruct \<Rightarrow> string" where
  "header_lines zone h =
     (let ldcIdStr = (if EventLdcId h \<noteq> LDC_VOID then show_u32 (EventLdcId h) else ''VOID'');
          gdcIdStr = (if EventGdcId h \<noteq> GDC_VOID then show_u32 (EventGdcId h) else ''VOID'')
      in ''RunNb:'' @ show_u32 (EventRunNb h) @ '' nbInRun:'' @ show_u32 (EventId h ! 0) @
         '' burstNb:'' @ show_u32 (EventId h ! 1) @ '' nbInBurst:0 ldcId:'' @ ldcIdStr @
         '' gdcId:'' @ gdcIdStr @ '' time:'' @ timestamp_str zone h @
         '' Attributes:'' @ getAttributesStr (EventTypeAttribute h) @ ''('' @
         show_hex8 (EventTypeAttribute h ! 0) @ ''.'' @ show_hex8 (EventTypeAttribute h ! 1) @ ''.'' @
         show_hex8 (EventTypeAttribute h ! 2) @ '')'' @ newline @
         ''triggerPattern: 0)'' @ show_hex8 (EventTriggerPattern h ! 0) @
         '' 1)'' @ show_hex8 (EventTriggerPattern h ! 1) @ '' 2)'' @ show_hex8 (EventTriggerPattern h ! 2) @
         '' 3)'' @ show_hex8 (EventTriggerPattern h ! 3) @
         '' detectorPattern:'' @ show_hex8 (EventDetectorPattern h) @ ''[invalid]'' @ newline)"

definition size_text :: "EventHeaderStruct \<Rightarrow> string" where
  "size_text h = ''Size:'' @ show_u32 (EventSize h) @ '' (header:'' @ show_u32 (EventHeadSize h) @
     '') Version:0x'' @ show_hex8 (EventVersion h) @ '' Type:'' @ getEventTypeName (EventType h)"

definition printEventHeaderWithSubevents :: "(int \<Rightarrow> int) \<Rightarrow> EventHeaderStruct \<Rightarrow> nat \<Rightarrow> string" where
  "printEventHeaderWithSubevents zone h subevents =
     size_text h @ '' Subevents:'' @ show_nat subevents @ newline @ header_lines zone h"

definition printEventHeader :: "(int \<Rightarrow> int) \<Rightarrow> EventHeaderStruct \<Rightarrow> string \<Rightarrow> string" where
  "printEventHeader zone h eventType =
     size_text h @ (if eventType = ''GDC'' then '' Subevents:?'' else []) @ newline @ header_lines zone h"

definition printEquipmentHeader :: "EquipmentHeaderStruct \<Rightarrow> string" where
  "printEquipmentHeader h =
     '' - Equipment: size:'' @ show_u32 (EquipmentSize h) @ '' type:'' @ show_u32 (EquipmentType h) @
     '' id:'' @ show_u32 (EquipmentId h) @ '' basicElementSize:'' @ show_u32 (EquipmentBasicElementSize h) @
     '' attributes:'' @ getEquipmentAttributesStr (EquipmentTypeAttribute h) @ ''('' @
     show_hex8 (EquipmentTypeAttribute h ! 0) @ ''.'' @ show_hex8 (EquipmentTypeAttribute h ! 1) @ ''.'' @
     show_hex8 (EquipmentTypeAttribute h ! 2) @ '')'' @ newline"

text \<open>One row of a hex dump: words of four bytes in hexadecimal, then the same bytes as text.\<close>

fun hex_words :: "bytes \<Rightarrow> string" where
  "hex_words (a # b # c # d # s) = show_hex8 (le32 a b c d) @ '' '' @ hex_words s"
| "hex_words [] = []"
| "hex_words s = concat (map show_hex2 s) @ '' ''"

definition ascii_char :: "byte \<Rightarrow> char" where
  "ascii_char c = (if c \<ge> 32 \<and> c \<le> 126 then char_of (unat c) else CHR ''.'')"

fun ascii_words :: "bytes \<Rightarrow> string" where
  "ascii_words (a # b # c # d # s) = map ascii_char [a, b, c, d] @ '' '' @ ascii_words s"
| "ascii_words [] = []"
| "ascii_words s = map ascii_char s @ '' ''"

fun hex_rows :: "nat \<Rightarrow> bytes \<Rightarrow> string" where
  "hex_rows i data =
     (if data = [] then []
      else ''  '' @ pad_left (CHR '' '') 2 (show_nat i) @ '') '' @ hex_words (take 16 data) @
           ''| '' @ ascii_words (take 16 data) @ ''|'' @ newline @ hex_rows (i + 16) (drop 16 data))"

definition printHexDump :: "bytes \<Rightarrow> string" where
  "printHexDump data = hex_rows 0 data"


declare countSubEvents_from.simps [simp del] hex_rows.simps [simp del]

subsection \<open>Walking over the data of an event\<close>

definition byte_slice :: "nat \<Rightarrow> nat \<Rightarrow> bytes \<Rightarrow> bytes" where
  "byte_slice i n s = take n (drop i s)"

text \<open>
  What both walks do with the block at \<open>equipOffset\<close>: parse its header and take its payload, empty
  when it has no bytes or does not fit into the event.
\<close>

definition equipment_at :: "bytes \<Rightarrow> nat \<Rightarrow> EquipmentHeaderStruct \<times> bytes" where
  "equipment_at eventData equipOffset =
     (let equipHeader = readEquipmentHeader (byte_slice equipOffset 28 eventData);
          equipDataSize = int (unat (EquipmentSize equipHeader)) - 28
      in (equipHeader,
          if equipDataSize > 0 \<and> int equipOffset + 28 + equipDataSize \<le> int (length eventData)
          then byte_slice (equipOffset + 28) (nat equipDataSize) eventData else []))"

definition print_equipment :: "bool \<Rightarrow> EquipmentHeaderStruct \<times> bytes \<Rightarrow> string" where
  "print_equipment headersOnly = (\<lambda>(equipHeader, data).
     printEquipmentHeader equipHeader @
     (if \<not> headersOnly \<and> length data > 0 then printHexDump data else []))"

fun dump_equipments :: "nat \<Rightarrow> bytes \<Rightarrow> bool \<Rightarrow> nat \<Rightarrow> nat \<Rightarrow> string option" where
  "dump_equipments 0 eventData headersOnly ldcEnd equipOffset = None"
| "dump_equipments (Suc fuel) eventData headersOnly ldcEnd equipOffset =
     (if equipOffset < ldcEnd then
        if equipOffset + 28 > length eventData then Some []
        else
          let equip = equipment_at eventData equipOffset
          in map_option (\<lambda>out. print_equipment headersOnly equip @ out)
               (dump_equipments fuel eventData headersOnly ldcEnd
                  (equipOffset + unat (EquipmentSize (fst equip))))
      else Some [])"

fun dump_ldcs :: "nat \<Rightarrow> (int \<Rightarrow> int) \<Rightarrow> bytes \<Rightarrow> bool \<Rightarrow> nat \<Rightarrow> string option" where
  "dump_ldcs 0 zone eventData headersOnly offset = None"
| "dump_ldcs (Suc fuel) zone eventData headersOnly offset =
     (if offset < length eventData then
        if offset + 80 > length eventData then Some []
        else
          let ldcHeader = parseLDCHeader (byte_slice offset 80 eventData);
              eventEnd = offset + unat (EventSize ldcHeader)
          in case dump_equipments fuel eventData headersOnly eventEnd (offset + 80) of
               None \<Rightarrow> None
             | Some out \<Rightarrow>
                 map_option (\<lambda>rest. printDottedLine @ printEventHeader zone ldcHeader ''LDC'' @ out @ rest)
                   (dump_ldcs fuel zone eventData headersOnly eventEnd)
      else Some [])"

definition dumpEventNormal :: "nat \<Rightarrow> (int \<Rightarrow> int) \<Rightarrow> bytes \<Rightarrow> bool \<Rightarrow> string option" where
  "dumpEventNormal fuel zone eventData headersOnly = dump_ldcs fuel zone eventData headersOnly 0"

record equipmentData =
  header :: EquipmentHeaderStruct
  edata :: bytes
  ldcHeader :: EventHeaderStruct
  ldcOffset :: nat

definition equipmentData_of ::
  "EventHeaderStruct \<Rightarrow> nat \<Rightarrow> EquipmentHeaderStruct \<times> bytes \<Rightarrow> equipmentData" where
  "equipmentData_of h offset e = \<lparr>header = fst e, edata = snd e, ldcHeader = h, ldcOffset = offset\<rparr>"

fun collect_equipments ::
  "nat \<Rightarrow> bytes \<Rightarrow> EventHeaderStruct \<Rightarrow> nat \<Rightarrow> nat \<Rightarrow> nat \<Rightarrow> equipmentData list option" where
  "collect_equipments 0 eventData h offset ldcEnd equipOffset = None"
| "collect_equipments (Suc fuel) eventData h offset ldcEnd equipOffset =
     (if equipOffset < ldcEnd then
        if equipOffset + 28 > length eventData then Some []
        else
          let equip = equipment_at eventData equipOffset
          in map_option (Cons (equipmentData_of h offset equip))
               (collect_equipments fuel eventData h offset ldcEnd
                  (equipOffset + unat (EquipmentSize (fst equip))))
      else Some [])"

fun collect_ldcs :: "nat \<Rightarrow> bytes \<Rightarrow> nat \<Rightarrow> equipmentData list option" where
  "collect_ldcs 0 eventData offset = None"
| "collect_ldcs (Suc fuel) eventData offset =
     (if offset < length eventData then
        if offset + 80 > length eventData then Some []
        else
          let h = parseLDCHeader (byte_slice offset 80 eventData);
              eventEnd = offset + unat (EventSize h)
          in case collect_equipments fuel eventData h offset eventEnd (offset + 80) of
               None \<Rightarrow> None
             | Some es \<Rightarrow> map_option ((@) es) (collect_ldcs fuel eventData eventEnd)
      else Some [])"

fun print_sorted :: "(int \<Rightarrow> int) \<Rightarrow> bool \<Rightarrow> u32 \<Rightarrow> equipmentData list \<Rightarrow> string" where
  "print_sorted zone headersOnly lastLDCId [] = []"
| "print_sorted zone headersOnly lastLDCId (equip # equips) =
     (if lastLDCId \<noteq> EventLdcId (ldcHeader equip)
      then printDottedLine @ printEventHeader zone (ldcHeader equip) ''LDC'' else []) @
     print_equipment headersOnly (header equip, edata equip) @
     print_sorted zone headersOnly (EventLdcId (ldcHeader equip)) equips"

definition equip_id :: "equipmentData \<Rightarrow> u32" where
  "equip_id e = EquipmentId (header e)"

type_synonym slice_sort = "equipmentData list \<Rightarrow> equipmentData list"

definition sorts_by_id :: "slice_sort \<Rightarrow> bool" where
  "sorts_by_id srt \<longleftrightarrow> (\<forall>es. mset (srt es) = mset es \<and> sorted (map equip_id (srt es)))"

definition dumpEventSorted ::
  "nat \<Rightarrow> slice_sort \<Rightarrow> (int \<Rightarrow> int) \<Rightarrow> bytes \<Rightarrow> bool \<Rightarrow> string option" where
  "dumpEventSorted fuel srt zone eventData headersOnly =
     map_option (\<lambda>equipments. print_sorted zone headersOnly 0xFFFFFFFF (srt equipments))
       (collect_ldcs fuel eventData 0)"

subsection \<open>Events and the main loop\<close>

text \<open>
  What \<open>dumpEvent\<close> does: it prints an event and leaves the rest of the file, it returns an error, or
  it panics, when the size of the event is smaller than its header.
\<close>

datatype dump_step = Dumped string bytes | DumpError string | DumpPanic

record dump_flags =
  df_headersOnly :: bool
  df_sortedByEquipID :: bool

definition dumpEvent ::
  "nat \<Rightarrow> slice_sort \<Rightarrow> (int \<Rightarrow> int) \<Rightarrow> dump_flags \<Rightarrow> bytes \<Rightarrow> dump_step option" where
  "dumpEvent fuel srt zone fl s =
     (case readEventHeader s of
        Inl err \<Rightarrow> Some (DumpError err)
      | Inr (gdcHeader, rest) \<Rightarrow>
          if unat (EventSize gdcHeader) < 80 then Some DumpPanic
          else
            let remainingSize = unat (EventSize gdcHeader) - 80;
                eventData = file_read remainingSize rest;
                n = length eventData
            in if remainingSize > 0 \<and> n = 0 then Some (DumpError ''error reading event data: EOF'')
               else if n < remainingSize then
                 Some (DumpError (''incomplete event data: got '' @ show_nat n @ '' bytes, expected '' @
                   show_nat remainingSize))
               else
                 map_option
                   (\<lambda>out. Dumped (printEqualsLine @
                      printEventHeaderWithSubevents zone gdcHeader (countSubEvents eventData) @ out)
                      (drop remainingSize rest))
                   (if df_sortedByEquipID fl
                    then dumpEventSorted fuel srt zone eventData (df_headersOnly fl)
                    else dumpEventNormal fuel zone eventData (df_headersOnly fl)))"

text \<open>How the program ends: what it printed on both streams, and whether it panicked.\<close>

record dump_result =
  dr_stdout :: string
  dr_stderr :: string
  dr_panic :: bool

fun dump_events ::
  "nat \<Rightarrow> slice_sort \<Rightarrow> (int \<Rightarrow> int) \<Rightarrow> dump_flags \<Rightarrow> int \<Rightarrow> int \<Rightarrow> bytes \<Rightarrow> dump_result option" where
  "dump_events 0 srt zone fl maxEvents eventCount s = None"
| "dump_events (Suc fuel) srt zone fl maxEvents eventCount s =
     (if maxEvents > 0 \<and> eventCount \<ge> maxEvents then
        Some \<lparr>dr_stdout = [], dr_stderr = [], dr_panic = False\<rparr>
      else case dumpEvent fuel srt zone fl s of
        None \<Rightarrow> None
      | Some (DumpError err) \<Rightarrow>
          Some \<lparr>dr_stdout = [], dr_stderr = ''Error reading event: '' @ err @ newline, dr_panic = False\<rparr>
      | Some DumpPanic \<Rightarrow> Some \<lparr>dr_stdout = [], dr_stderr = [], dr_panic = True\<rparr>
      | Some (Dumped out rest) \<Rightarrow>
          map_option (\<lambda>r. r\<lparr>dr_stdout := out @ dr_stdout r\<rparr>)
            (dump_events fuel srt zone fl maxEvents (eventCount + 1) rest))"

text \<open>The part of \<open>main\<close> after the file was opened.\<close>

definition dump_main ::
  "nat \<Rightarrow> slice_sort \<Rightarrow> (int \<Rightarrow> int) \<Rightarrow> dump_flags \<Rightarrow> int \<Rightarrow> bytes \<Rightarrow> dump_result option" where
  "dump_main fuel srt zone fl maxEvents s =
     map_option
       (\<lambda>r. r\<lparr>dr_stdout := (if maxEvents > 0
          then ''Taking max. '' @ show_int maxEvents @ '' events'' @ newline else []) @ dr_stdout r\<rparr>)
       (dump_events fuel srt zone fl maxEvents 0 s)"


section \<open>Event trees\<close>

type_synonym equipment_tree = "EquipmentHeaderStruct \<times> bytes"
type_synonym ldc_tree = "EventHeaderStruct \<times> equipment_tree list"
type_synonym event_tree = "EventHeaderStruct \<times> ldc_tree list"

definition equipment_bytes :: "equipment_tree \<Rightarrow> bytes" where
  "equipment_bytes e = words_le (equipment_words (fst e)) @ snd e"

definition ldc_bytes :: "ldc_tree \<Rightarrow> bytes" where
  "ldc_bytes l = words_le (event_words (fst l)) @ concat (map equipment_bytes (snd l))"

definition event_bytes :: "event_tree \<Rightarrow> bytes" where
  "event_bytes t = words_le (event_words (fst t)) @ concat (map ldc_bytes (snd t))"

text \<open>A tree is well formed when its headers have the shape of the format and carry the sizes.\<close>

definition equipment_ok :: "equipment_tree \<Rightarrow> bool" where
  "equipment_ok e \<longleftrightarrow> length (EquipmentTypeAttribute (fst e)) = 3 \<and>
     unat (EquipmentSize (fst e)) = length (equipment_bytes e)"

definition ldc_ok :: "ldc_tree \<Rightarrow> bool" where
  "ldc_ok l \<longleftrightarrow> event_header_wf (fst l) \<and> unat (EventSize (fst l)) = length (ldc_bytes l) \<and>
     list_all equipment_ok (snd l)"

definition event_ok :: "event_tree \<Rightarrow> bool" where
  "event_ok t \<longleftrightarrow> event_header_wf (fst t) \<and> unat (EventSize (fst t)) = length (event_bytes t) \<and>
     length (event_bytes t) \<le> 2 ^ 30 \<and> list_all ldc_ok (snd t)"

lemma length_equipment_bytes:
  "equipment_ok e \<Longrightarrow> length (equipment_bytes e) = 28 + length (snd e)"
  by (simp add: equipment_ok_def equipment_bytes_def equipment_words_def)

lemma length_ldc_bytes:
  "ldc_ok l \<Longrightarrow> length (ldc_bytes l) = 80 + length (concat (map equipment_bytes (snd l)))"
  by (simp add: ldc_ok_def ldc_bytes_def length_event_words)

lemma length_event_bytes:
  "event_ok t \<Longrightarrow> length (event_bytes t) = 80 + length (concat (map ldc_bytes (snd t)))"
  by (simp add: event_ok_def event_bytes_def length_event_words)

lemma equipments_length:
  "list_all equipment_ok es \<Longrightarrow> length es \<le> length (concat (map equipment_bytes es))"
  by (induction es) (auto simp: length_equipment_bytes)

lemma ldcs_length:
  "list_all ldc_ok ls \<Longrightarrow> length ls \<le> length (concat (map ldc_bytes ls)) \<and>
   (\<forall>l \<in> set ls. length (snd l) + length ls \<le> length (concat (map ldc_bytes ls)))"
proof (induction ls)
  case Nil
  then show ?case by simp
next
  case (Cons l ls)
  then have "length (snd l) \<le> length (concat (map equipment_bytes (snd l)))"
    by (simp add: ldc_ok_def equipments_length)
  with Cons show ?case by (auto simp: length_ldc_bytes)
qed

text \<open>The header at the front of the bytes is the header of the tree.\<close>

lemma parse_front:
  assumes "event_header_wf h"
  shows "parseLDCHeader (take 80 (words_le (event_words h) @ s)) = h"
proof -
  have "length (words_le (event_words h)) = 80" using assms by (simp add: length_event_words)
  then show ?thesis using parse_event_words [OF assms, of "[]"] by simp
qed

lemma slice_front: "byte_slice (length pre) n (pre @ s) = take n s"
  by (simp add: byte_slice_def)

lemma slice_behind: "byte_slice (length pre + k) n (pre @ s) = take n (drop k s)"
  by (simp add: byte_slice_def add.commute)

lemma equipment_at_tree:
  assumes "equipment_ok e"
  shows "equipment_at (pre @ equipment_bytes e @ post) (length pre) = e"
proof -
  obtain h p where e: "e = (h, p)" by force
  have w: "length (words_le (equipment_words h)) = 28" and att: "length (EquipmentTypeAttribute h) = 3"
    using assms by (simp_all add: e equipment_ok_def equipment_words_def)
  have s: "unat (EquipmentSize h) = 28 + length p"
    using assms length_equipment_bytes [OF assms] by (simp add: e equipment_ok_def)
  then have u: "uint (EquipmentSize h) = 28 + int (length p)" unfolding uint_nat by simp
  have "readEquipmentHeader (byte_slice (length pre) 28 (pre @ equipment_bytes e @ post)) = h"
    using parse_equipment_words [OF att, of "[]"] w by (simp add: slice_front e equipment_bytes_def)
  moreover have "byte_slice (length pre + 28) (length p) (pre @ equipment_bytes e @ post) = p"
    using w by (simp add: slice_behind e equipment_bytes_def)
  ultimately show ?thesis
    using w u by (simp add: equipment_at_def Let_def e equipment_bytes_def)
qed

section \<open>The walks print the tree\<close>

lemma collect_equipments_tree:
  assumes "list_all equipment_ok es" and "length es < fuel"
  shows "collect_equipments fuel (pre @ concat (map equipment_bytes es) @ post) h offset
      (length pre + length (concat (map equipment_bytes es))) (length pre) =
    Some (map (equipmentData_of h offset) es)"
  using assms
proof (induction es arbitrary: pre fuel)
  case Nil
  then show ?case by (cases fuel) simp_all
next
  case (Cons e es)
  then obtain k where k: "fuel = Suc k" by (cases fuel) auto
  have e: "equipment_ok e" using Cons.prems by simp
  let ?r = "concat (map equipment_bytes es) @ post"
  have at: "equipment_at (pre @ equipment_bytes e @ ?r) (length pre) = e"
    by (rule equipment_at_tree [OF e])
  have size: "unat (EquipmentSize (fst e)) = length (equipment_bytes e)"
    using e by (simp add: equipment_ok_def)
  have "collect_equipments k ((pre @ equipment_bytes e) @ ?r) h offset
      (length (pre @ equipment_bytes e) + length (concat (map equipment_bytes es)))
      (length (pre @ equipment_bytes e)) = Some (map (equipmentData_of h offset) es)"
    using Cons.prems k by (intro Cons.IH) simp_all
  then show ?case
    using at size length_equipment_bytes [OF e] by (simp add: k Let_def add.assoc)
qed

text \<open>Both walks over the equipment blocks see the same blocks, whatever the data.\<close>

lemma dump_equipments_collect:
  "dump_equipments fuel d headersOnly ldcEnd i =
     map_option (\<lambda>es. concat (map (\<lambda>e. print_equipment headersOnly (header e, edata e)) es))
       (collect_equipments fuel d h offset ldcEnd i)"
  by (induction fuel d headersOnly ldcEnd i rule: dump_equipments.induct)
    (simp_all add: Let_def option.map_comp o_def equipmentData_of_def)

lemma dump_equipments_tree:
  assumes "list_all equipment_ok es" and "length es < fuel"
  shows "dump_equipments fuel (pre @ concat (map equipment_bytes es) @ post) headersOnly
      (length pre + length (concat (map equipment_bytes es))) (length pre) =
    Some (concat (map (print_equipment headersOnly) es))"
  unfolding dump_equipments_collect [where h = undefined and offset = 0]
    collect_equipments_tree [OF assms]
  by (simp add: equipmentData_of_def o_def)

definition ldc_text :: "(int \<Rightarrow> int) \<Rightarrow> bool \<Rightarrow> ldc_tree \<Rightarrow> string" where
  "ldc_text zone headersOnly l = printDottedLine @ printEventHeader zone (fst l) ''LDC'' @
     concat (map (print_equipment headersOnly) (snd l))"

fun tree_equipments :: "nat \<Rightarrow> ldc_tree list \<Rightarrow> equipmentData list" where
  "tree_equipments offset [] = []"
| "tree_equipments offset (l # ls) =
     map (equipmentData_of (fst l) offset) (snd l) @ tree_equipments (offset + length (ldc_bytes l)) ls"

text \<open>What the three walks see of a sub-event: its header, then its equipment blocks up to its end.\<close>

lemma ldc_front:
  assumes "ldc_ok l"
  shows "parseLDCHeader (byte_slice (length pre) 80 (pre @ ldc_bytes l @ post)) = fst l"
    and "le32_at (pre @ ldc_bytes l @ post) (length pre) = EventSize (fst l)"
    and "unat (EventSize (fst l)) = length (ldc_bytes l)"
proof -
  have wf: "event_header_wf (fst l)" using assms by (simp add: ldc_ok_def)
  show "parseLDCHeader (byte_slice (length pre) 80 (pre @ ldc_bytes l @ post)) = fst l"
    by (simp add: slice_front ldc_bytes_def parse_front [OF wf] del: take_append)
  have "le32_at (ldc_bytes l @ post) 0 = EventSize (fst l)"
    using le32_at_word [of 0 0 "event_words (fst l)"] length_event_words [OF wf]
    by (simp add: ldc_bytes_def event_words_def)
  then show "le32_at (pre @ ldc_bytes l @ post) (length pre) = EventSize (fst l)"
    by (simp add: le32_at_append_right)
  show "unat (EventSize (fst l)) = length (ldc_bytes l)" using assms by (simp add: ldc_ok_def)
qed

lemma ldc_inside:
  assumes "ldc_ok l" and "length (snd l) < fuel"
  shows "collect_equipments fuel (pre @ ldc_bytes l @ post) (fst l) offset
      (length pre + length (ldc_bytes l)) (length pre + 80) = Some (map (equipmentData_of (fst l) offset) (snd l))"
    and "dump_equipments fuel (pre @ ldc_bytes l @ post) headersOnly
      (length pre + length (ldc_bytes l)) (length pre + 80) = Some (concat (map (print_equipment headersOnly) (snd l)))"
proof -
  let ?pre = "pre @ words_le (event_words (fst l))"
  have ok: "list_all equipment_ok (snd l)" and len: "length ?pre = length pre + 80"
    using assms(1) by (simp_all add: ldc_ok_def length_event_words)
  have split: "pre @ ldc_bytes l @ post = ?pre @ concat (map equipment_bytes (snd l)) @ post"
    "length pre + length (ldc_bytes l) = length ?pre + length (concat (map equipment_bytes (snd l)))"
    by (simp_all add: ldc_bytes_def)
  show "collect_equipments fuel (pre @ ldc_bytes l @ post) (fst l) offset
      (length pre + length (ldc_bytes l)) (length pre + 80) = Some (map (equipmentData_of (fst l) offset) (snd l))"
    using collect_equipments_tree [OF ok assms(2), of ?pre] unfolding split len [symmetric] .
  show "dump_equipments fuel (pre @ ldc_bytes l @ post) headersOnly
      (length pre + length (ldc_bytes l)) (length pre + 80) = Some (concat (map (print_equipment headersOnly) (snd l)))"
    using dump_equipments_tree [OF ok assms(2), of ?pre] unfolding split len [symmetric] .
qed

lemma dump_ldcs_tree:
  assumes "list_all ldc_ok ls" and "length ls < fuel" and "\<forall>l \<in> set ls. length (snd l) + length ls < fuel"
  shows "dump_ldcs fuel zone (pre @ concat (map ldc_bytes ls)) headersOnly (length pre) =
    Some (concat (map (ldc_text zone headersOnly) ls))"
  using assms
proof (induction ls arbitrary: pre fuel)
  case Nil
  then show ?case by (cases fuel) simp_all
next
  case (Cons l ls)
  then obtain k where k: "fuel = Suc k" by (cases fuel) auto
  have l: "ldc_ok l" and lk: "length (snd l) < k" using Cons.prems k by auto
  let ?r = "concat (map ldc_bytes ls)"
  have "dump_ldcs k zone ((pre @ ldc_bytes l) @ ?r) headersOnly (length (pre @ ldc_bytes l)) =
      Some (concat (map (ldc_text zone headersOnly) ls))"
    using Cons.prems k by (intro Cons.IH) auto
  then show ?case
    using ldc_front(1) [OF l, of pre ?r] ldc_front(3) [OF l] ldc_inside(2) [OF l lk, of pre ?r headersOnly] length_ldc_bytes [OF l]
    by (simp add: k Let_def ldc_text_def [of zone headersOnly l])
qed

lemma collect_ldcs_tree:
  assumes "list_all ldc_ok ls" and "length ls < fuel" and "\<forall>l \<in> set ls. length (snd l) + length ls < fuel"
  shows "collect_ldcs fuel (pre @ concat (map ldc_bytes ls)) (length pre) = Some (tree_equipments (length pre) ls)"
  using assms
proof (induction ls arbitrary: pre fuel)
  case Nil
  then show ?case by (cases fuel) simp_all
next
  case (Cons l ls)
  then obtain k where k: "fuel = Suc k" by (cases fuel) auto
  have l: "ldc_ok l" and lk: "length (snd l) < k" using Cons.prems k by auto
  let ?r = "concat (map ldc_bytes ls)"
  have "collect_ldcs k ((pre @ ldc_bytes l) @ ?r) (length (pre @ ldc_bytes l)) =
      Some (tree_equipments (length (pre @ ldc_bytes l)) ls)"
    using Cons.prems k by (intro Cons.IH) auto
  then show ?case
    using ldc_front(1) [OF l, of pre ?r] ldc_front(3) [OF l] ldc_inside(1) [OF l lk, of pre ?r "length pre"] length_ldc_bytes [OF l]
    by (simp add: k Let_def)
qed

lemma countSubEvents_tree:
  "list_all ldc_ok ls \<Longrightarrow> countSubEvents_from (pre @ concat (map ldc_bytes ls)) (length pre) = length ls"
proof (induction ls arbitrary: pre)
  case Nil
  then show ?case by (simp add: countSubEvents_from.simps)
next
  case (Cons l ls)
  then have l: "ldc_ok l" by simp
  let ?r = "concat (map ldc_bytes ls)"
  have "countSubEvents_from ((pre @ ldc_bytes l) @ ?r) (length (pre @ ldc_bytes l)) = length ls"
    using Cons.prems by (intro Cons.IH) simp
  then show ?case
    using ldc_front(2) [OF l, of pre ?r] ldc_front(3) [OF l] length_ldc_bytes [OF l]
    by (subst countSubEvents_from.simps) (simp add: Let_def)
qed


section \<open>Printing a file\<close>

definition event_text :: "slice_sort \<Rightarrow> (int \<Rightarrow> int) \<Rightarrow> dump_flags \<Rightarrow> event_tree \<Rightarrow> string" where
  "event_text srt zone fl t =
     printEqualsLine @ printEventHeaderWithSubevents zone (fst t) (length (snd t)) @
     (if df_sortedByEquipID fl
      then print_sorted zone (df_headersOnly fl) 0xFFFFFFFF (srt (tree_equipments 0 (snd t)))
      else concat (map (ldc_text zone (df_headersOnly fl)) (snd t)))"

lemma readEventHeader_tree:
  assumes "event_ok t"
  shows "readEventHeader (event_bytes t @ s) = Inr (fst t, concat (map ldc_bytes (snd t)) @ s)"
proof -
  have wf: "event_header_wf (fst t)" using assms by (simp add: event_ok_def)
  then have len: "length (words_le (event_words (fst t))) = 80" by (simp add: length_event_words)
  have rd: "file_read 80 (event_bytes t @ s) = take 80 (words_le (event_words (fst t)) @ concat (map ldc_bytes (snd t)) @ s)"
    by (simp add: file_read_def event_bytes_def del: take_append)
  have "parseLDCHeader (file_read 80 (event_bytes t @ s)) = fst t"
    unfolding rd by (rule parse_front [OF wf])
  moreover have "length (file_read 80 (event_bytes t @ s)) = 80" unfolding rd using len by simp
  moreover have "drop 80 (event_bytes t @ s) = concat (map ldc_bytes (snd t)) @ s"
    using len by (simp add: event_bytes_def)
  ultimately show ?thesis unfolding readEventHeader_def Let_def by (simp del: drop_append length_0_conv)
qed

lemma dumpEvent_tree:
  assumes t: "event_ok t" and fuel: "length (concat (map ldc_bytes (snd t))) < fuel"
  shows "dumpEvent fuel srt zone fl (event_bytes t @ s) = Some (Dumped (event_text srt zone fl t) s)"
proof -
  define d where "d = concat (map ldc_bytes (snd t))"
  have ok: "list_all ldc_ok (snd t)" and small: "length d \<le> 2 ^ 30"
    and size: "unat (EventSize (fst t)) = 80 + length d"
    using t length_event_bytes [OF t] by (simp_all add: event_ok_def d_def)
  have "length (snd t) < fuel" "\<forall>l \<in> set (snd t). length (snd l) + length (snd t) < fuel"
    using ldcs_length [OF ok] fuel by auto
  note walk = dump_ldcs_tree [OF ok this, of zone "[]", simplified, folded d_def]
    collect_ldcs_tree [OF ok this, of "[]", simplified, folded d_def]
  have "file_read (length d) (d @ s) = d" using small by (simp add: file_read_def)
  moreover have "countSubEvents d = length (snd t)"
    using countSubEvents_tree [OF ok, of "[]"] by (simp add: countSubEvents_def d_def)
  ultimately show ?thesis
    using size walk readEventHeader_tree [OF t, of s, folded d_def]
    by (simp add: dumpEvent_def Let_def event_text_def dumpEventNormal_def dumpEventSorted_def)
qed

lemma dumpEvent_end: "dumpEvent fuel srt zone fl [] = Some (DumpError ''EOF'')"
  by (simp add: dumpEvent_def readEventHeader_def file_read_def)

lemma dump_events_tree:
  assumes "list_all event_ok ts" and "length (concat (map event_bytes ts)) < fuel"
  shows "dump_events fuel srt zone fl maxEvents c (concat (map event_bytes ts)) =
    Some (if maxEvents > 0 \<and> maxEvents - c \<le> int (length ts)
      then \<lparr>dr_stdout = concat (map (event_text srt zone fl) (take (nat (maxEvents - c)) ts)), dr_stderr = [],
            dr_panic = False\<rparr>
      else \<lparr>dr_stdout = concat (map (event_text srt zone fl) ts),
            dr_stderr = ''Error reading event: EOF'' @ newline, dr_panic = False\<rparr>)"
  using assms
proof (induction ts arbitrary: fuel c)
  case Nil
  then obtain k where "fuel = Suc k" by (cases fuel) auto
  then show ?case by (simp add: dumpEvent_end)
next
  case (Cons t ts)
  then obtain k where k: "fuel = Suc k" by (cases fuel) auto
  have t: "event_ok t" using Cons.prems by simp
  have "length (concat (map ldc_bytes (snd t))) < k"
    using Cons.prems(2) length_event_bytes [OF t] k by (simp del: length_concat)
  note ev = dumpEvent_tree [OF t this, of srt zone fl "concat (map event_bytes ts)"]
  have "length (concat (map event_bytes ts)) < k"
    using Cons.prems(2) length_event_bytes [OF t] k by (simp del: length_concat)
  note IH = Cons.IH [OF _ this, of "c + 1"]
  show ?case
  proof (cases "maxEvents > 0 \<and> maxEvents \<le> c")
    case True
    then show ?thesis by (simp add: k)
  next
    case False
    have "nat (maxEvents - c) = Suc (nat (maxEvents - (c + 1)))" if "maxEvents > 0"
      using that False by simp
    then show ?thesis
      using False Cons.prems(1) IH by (auto simp: k ev)
  qed
qed


subsection \<open>The blocks the DAQ writes are trees\<close>

definition built_equipment :: "bytes \<Rightarrow> Equipment \<Rightarrow> equipment_tree" where
  "built_equipment sub e = (equipment_header (length sub) e, flip_words sub)"

lemma built_equipment_bytes: "equipment_bytes (built_equipment sub e) = addEquipmentHeader sub e"
  by (simp add: equipment_bytes_def built_equipment_def addEquipmentHeader_bytes)

lemma built_equipment_ok:
  assumes "length sub + 28 < 2 ^ 32"
  shows "equipment_ok (built_equipment sub e)"
proof -
  have "unat (of_nat (length sub + 7 * 4) :: u32) = length sub + 7 * 4"
    using assms by (intro unat_of_nat_u32) simp
  then show ?thesis
    by (simp add: equipment_ok_def built_equipment_bytes) (simp add: built_equipment_def equipment_header_def)
qed

lemma built_ldc:
  fixes eventID run now :: int and ldc :: LDCConfiguration
  assumes "map snd (ord m) = map equipment_bytes es" and "list_all equipment_ok es"
    and "length (concat (map equipment_bytes es)) + 80 < 2 ^ 32"
  defines "t \<equiv> (ldc_header (length (concat (map equipment_bytes es))) eventID (ldc_ID ldc) run now, es)"
  shows "addLDCHeader ord now m eventID ldc run = ldc_bytes t" and "ldc_ok t"
proof -
  let ?n = "length (concat (map equipment_bytes es))"
  have n: "sum_list (map (length \<circ> snd) (ord m)) = ?n"
    using arg_cong [OF assms(1), of "map length"] by (simp add: length_concat o_def)
  show b: "addLDCHeader ord now m eventID ldc run = ldc_bytes t"
    unfolding addLDCHeader_bytes n t_def ldc_bytes_def assms(1) by simp
  have "unat (of_nat (?n + 20 * 4) :: u32) = ?n + 20 * 4"
    using assms(3) by (intro unat_of_nat_u32) simp
  then show "ldc_ok t"
    using assms(2) by (simp add: ldc_ok_def t_def ldc_bytes_def length_event_words, simp add: ldc_header_def)
qed

lemma built_event:
  fixes eventID gdc run now :: int
  assumes "map snd (ord m) = map ldc_bytes ls" and "list_all ldc_ok ls"
    and "length (concat (map ldc_bytes ls)) + 80 \<le> 2 ^ 30"
  defines "t \<equiv> (gdc_header (length (concat (map ldc_bytes ls))) eventID gdc run now, ls)"
  shows "addGDCHeader ord now m eventID gdc run = event_bytes t" and "event_ok t"
proof -
  let ?n = "length (concat (map ldc_bytes ls))"
  have n: "sum_list (map (length \<circ> snd) (ord m)) = ?n"
    using arg_cong [OF assms(1), of "map length"] by (simp add: length_concat o_def)
  show "addGDCHeader ord now m eventID gdc run = event_bytes t"
    unfolding addGDCHeader_bytes n t_def event_bytes_def assms(1) by simp
  have "unat (of_nat (?n + 20 * 4) :: u32) = ?n + 20 * 4"
    using assms(3) by (intro unat_of_nat_u32) simp
  moreover have "length (event_bytes t) = 80 + ?n"
    by (simp add: t_def event_bytes_def length_event_words)
  moreover have "unat (EventSize (fst t)) = unat (of_nat (?n + 20 * 4) :: u32)"
    by (simp add: t_def gdc_header_def)
  ultimately show "event_ok t"
    using assms(2,3) by (simp add: event_ok_def) (simp add: t_def)
qed

definition example_tree :: event_tree where
  "example_tree =
     (gdc_header 116 7 1 100 1700000000123456,
      [(ldc_header 36 7 3 100 1700000000123450, [built_equipment [1, 2, 3, 4, 250, 250, 250, 250] example_equipment])])"

lemma example_tree_built:
  "event_bytes example_tree = addGDCHeader id 1700000000123456
     [(3, addLDCHeader id 1700000000123450
       [(5, addEquipmentHeader [1, 2, 3, 4, 250, 250, 250, 250] example_equipment)] 7 example_ldc 100)] 7 1 100"
  "event_ok example_tree"
proof -
  let ?e = "built_equipment [1, 2, 3, 4, 250, 250, 250, 250] example_equipment"
  let ?eqs = "[(5, addEquipmentHeader [1, 2, 3, 4, 250, 250, 250, 250] example_equipment)]"
  have e: "equipment_ok ?e" by (simp add: built_equipment_ok)
  have len: "length (equipment_bytes ?e) = 36" by (simp add: built_equipment_bytes)
  have "ldc_ID example_ldc = 3" by (simp add: example_ldc_def)
  then have l: "addLDCHeader id 1700000000123450 ?eqs 7 example_ldc 100 =
        ldc_bytes (ldc_header 36 7 3 100 1700000000123450, [?e])"
      "ldc_ok (ldc_header 36 7 3 100 1700000000123450, [?e])"
    using built_ldc [where ord = id and m = ?eqs and es = "[?e]" and eventID = 7 and ldc = example_ldc and run = 100
        and now = 1700000000123450] e len
    by (simp_all add: built_equipment_bytes)
  have "length (ldc_bytes (ldc_header 36 7 3 100 1700000000123450, [?e])) = 116"
    using length_ldc_bytes [OF l(2)] len by simp
  then show "event_bytes example_tree = addGDCHeader id 1700000000123456
       [(3, addLDCHeader id 1700000000123450 ?eqs 7 example_ldc 100)] 7 1 100" "event_ok example_tree"
    using built_event [where ord = id and m = "[(3, addLDCHeader id 1700000000123450 ?eqs 7 example_ldc 100)]"
        and ls = "[(ldc_header 36 7 3 100 1700000000123450, [?e])]" and eventID = 7 and gdc = 1 and run = 100
        and now = 1700000000123456] l
    by (simp_all add: example_tree_def)
qed

text \<open>
  C32. Printing a raw data file ends, and prints the events, sub-events and equipment blocks of the
  file in their order (or, in the sorted mode, the blocks of each event in the order of the sort):
  the walks over the bytes agree with the printer on the tree. With a maximum the program prints that
  many events and no error; without one, or when the file is shorter, it prints them all, and then
  also reports the end of the file as an error.
\<close>

theorem dump_prints_the_tree:
  assumes "list_all event_ok ts" and "length (concat (map event_bytes ts)) < fuel"
  shows "dump_main fuel srt zone fl maxEvents (concat (map event_bytes ts)) =
    Some (if maxEvents > 0 \<and> maxEvents \<le> int (length ts)
      then \<lparr>dr_stdout = ''Taking max. '' @ show_int maxEvents @ '' events'' @ newline @
              concat (map (event_text srt zone fl) (take (nat maxEvents) ts)),
            dr_stderr = [], dr_panic = False\<rparr>
      else \<lparr>dr_stdout = (if maxEvents > 0 then ''Taking max. '' @ show_int maxEvents @ '' events'' @ newline else []) @
              concat (map (event_text srt zone fl) ts),
            dr_stderr = ''Error reading event: EOF'' @ newline, dr_panic = False\<rparr>)"
  unfolding dump_main_def dump_events_tree [OF assms] by simp

theorem dump_prints_the_tree_witness:
  "dump_main 1000 (sort_key equip_id) (\<lambda>_. 3600) \<lparr>df_headersOnly = False, df_sortedByEquipID = True\<rparr> (-1)
     (event_bytes example_tree) =
   Some \<lparr>dr_stdout = event_text (sort_key equip_id) (\<lambda>_. 3600)
       \<lparr>df_headersOnly = False, df_sortedByEquipID = True\<rparr> example_tree,
     dr_stderr = ''Error reading event: EOF'' @ newline, dr_panic = False\<rparr>"
  using dump_prints_the_tree [of "[example_tree]" 1000 "sort_key equip_id" "\<lambda>_. 3600"
      "\<lparr>df_headersOnly = False, df_sortedByEquipID = True\<rparr>" "-1"] example_tree_built(2)
  by (simp add: example_tree_built(1))

subsection \<open>A size of zero\<close>

lemma dump_ldcs_zero:
  "80 \<le> length d \<Longrightarrow> le32_at d 0 = 0 \<Longrightarrow> dump_ldcs fuel zone d headersOnly 0 = None"
  by (induction fuel) (auto simp: parseLDCHeader_def byte_slice_def le32_at_take Let_def split: option.split)

lemma collect_ldcs_zero: "80 \<le> length d \<Longrightarrow> le32_at d 0 = 0 \<Longrightarrow> collect_ldcs fuel d 0 = None"
  by (induction fuel) (auto simp: parseLDCHeader_def byte_slice_def le32_at_take Let_def split: option.split)

lemma collect_equipments_zero:
  "i < ldcEnd \<Longrightarrow> i + 28 \<le> length d \<Longrightarrow> le32_at d i = 0 \<Longrightarrow>
   collect_equipments fuel d h offset ldcEnd i = None"
  by (induction fuel)
    (simp_all add: equipment_at_def readEquipmentHeader_def byte_slice_def le32_at_take le32_at_drop Let_def)

text \<open>
  Neither mode ends on a damaged file in which the first sub-event, or the first equipment block of
  the first sub-event, has the size zero: the walk never leaves the block, whatever time it is
  given. (\<open>countSubEvents\<close> has the check that is missing here.)
\<close>

theorem zero_size_never_ends:
  assumes "108 \<le> length d" and "le32_at d 0 = 0 \<or> (80 < unat (le32_at d 0) \<and> le32_at d 80 = 0)"
  shows "dumpEventNormal fuel zone d headersOnly = None \<and> dumpEventSorted fuel srt zone d headersOnly = None"
proof (cases "le32_at d 0 = 0")
  case True
  then show ?thesis
    using assms(1) by (simp add: dumpEventNormal_def dumpEventSorted_def dump_ldcs_zero collect_ldcs_zero)
next
  case False
  then have c: "collect_equipments n d h off (unat (le32_at d 0)) 80 = None" for n h off
    using assms by (intro collect_equipments_zero) auto
  have "le32_at (byte_slice 0 80 d) 0 = le32_at d 0"
    using assms(1) by (simp add: byte_slice_def le32_at_take)
  then show ?thesis
    using assms(1) c list.size(3)
    by (cases fuel; cases d) (simp_all add: dumpEventNormal_def dumpEventSorted_def Let_def parseLDCHeader_def
        dump_equipments_collect [where h = undefined and offset = 0])
qed

theorem zero_size_never_ends_witness:
  "dumpEventNormal 5 (\<lambda>_. 0) (replicate 108 0) True = None"
  using zero_size_never_ends [of "replicate 108 0" 5 "\<lambda>_. 0" True id] by (simp add: le32_at_def le32_def)

end
