(* ===== verification/Ldc_Extract.thy ===== *)
theory Ldc_Extract
  imports Event_Dump
begin

text \<open>
  The two tools that cut test data out of raw data files: \<open>src/testDataBuilder\<close> collects the sub-events of one
  LDC from all files of a directory and writes them in the order of their event numbers, and
  \<open>src/next100/extract_events.go\<close> copies the first events of a file.

  The walks follow sizes read from the data, so they have fuel, and \<open>None\<close> is a walk that has not ended. How a
  program ends is a value of type \<open>exit\<close>: it stops with \<open>log.Fatalf\<close>, or crashes on a slice out of range. A Go
  slice reaches beyond its length up to its capacity, and \<open>s[i:j]\<close> is checked against the capacity but \<open>s[i:]\<close>
  against the length, so a slice is the bytes up to its capacity together with its length. The lines the tools print
  for the user are left out, except the warnings on missing events.

  The lemmas show that on files with well-formed events the tool writes the sub-events of the LDC in the order of the
  event numbers, whatever files they come from and in whatever order the files are read.
\<close>

section \<open>Definitions\<close>

record go_slice =
  sl_data :: bytes
  sl_len :: nat

definition slice_bytes :: "go_slice \<Rightarrow> bytes" where
  "slice_bytes s = take (sl_len s) (sl_data s)"

text \<open>The slice that \<open>make([]byte, n)\<close> gives, filled with \<open>d\<close> from its start.\<close>

definition make_slice :: "bytes \<Rightarrow> go_slice" where
  "make_slice d = \<lparr>sl_data = d, sl_len = length d\<rparr>"

subsection \<open>testDataBuilder\<close>

text \<open>The entries that \<open>os.ReadDir\<close> returns: names and whether they are directories.\<close>

definition getRawdataFiles :: "string \<Rightarrow> string + (string \<times> bool) list \<Rightarrow> string + string list" where
  "getRawdataFiles dataPath listing =
     (case listing of
        Inl err \<Rightarrow> Inl (''error reading data path: '' @ err)
      | Inr files \<Rightarrow>
          let rawdataFiles = map (\<lambda>(name, dir). dataPath @ ''/'' @ name)
                (filter (\<lambda>(name, dir). has_suffix name ''rd'' \<and> \<not> dir) files)
          in if rawdataFiles = [] then Inl (''no files found in the data path: '' @ dataPath)
             else Inr rawdataFiles)"

definition readEquipment :: "go_slice \<Rightarrow> nat \<Rightarrow> nat exit" where
  "readEquipment eventData position =
     (if position + 28 > length (sl_data eventData) then Crashes
      else Returns (unat (EquipmentSize (readEquipmentHeader (byte_slice position 28 (sl_data eventData))))))"

fun read_equipments :: "nat \<Rightarrow> go_slice \<Rightarrow> EventHeaderStruct \<Rightarrow> nat \<Rightarrow> unit exit option" where
  "read_equipments 0 s h startPosition = None"
| "read_equipments (Suc fuel) s h startPosition =
     (case readEquipment s startPosition of
        Returns nRead \<Rightarrow>
          if startPosition + nRead + unat (EventHeadSize h) \<ge> unat (EventSize h) then Some (Returns ())
          else read_equipments fuel s h (startPosition + nRead)
      | Fatal e \<Rightarrow> Some (Fatal e)
      | Crashes \<Rightarrow> Some Crashes)"

definition readLDC :: "nat \<Rightarrow> go_slice \<Rightarrow> nat \<Rightarrow> u32 \<Rightarrow> (nat \<times> go_slice option) exit option" where
  "readLDC fuel eventData position ldcID =
     (if position + 80 > length (sl_data eventData) then Some Crashes
      else
        let h = parseLDCHeader (byte_slice position 80 (sl_data eventData));
            size = unat (EventSize h);
            startLDCPayload = position + unat (EventHeadSize h)
        in if EventLdcId h \<noteq> ldcID then Some (Returns (size, None))
           else if startLDCPayload > sl_len eventData then Some Crashes
           else case read_equipments fuel \<lparr>sl_data = drop startLDCPayload (sl_data eventData),
                       sl_len = sl_len eventData - startLDCPayload\<rparr> h 0 of
                  None \<Rightarrow> None
                | Some (Fatal e) \<Rightarrow> Some (Fatal e)
                | Some Crashes \<Rightarrow> Some Crashes
                | Some (Returns _) \<Rightarrow>
                    if position + size > length (sl_data eventData) then Some Crashes
                    else Some (Returns (size, Some \<lparr>sl_data = drop position (sl_data eventData), sl_len = size\<rparr>)))"

text \<open>The loop of \<open>ReadGDC\<close>; the second walk over the sub-event found only checks it.\<close>

fun read_ldcs :: "nat \<Rightarrow> go_slice \<Rightarrow> EventHeaderStruct \<Rightarrow> u32 \<Rightarrow> nat \<Rightarrow> bytes exit option" where
  "read_ldcs 0 eventData h ldcID position = None"
| "read_ldcs (Suc fuel) eventData h ldcID position =
     (case readLDC fuel eventData position ldcID of
        None \<Rightarrow> None
      | Some Crashes \<Rightarrow> Some Crashes
      | Some (Fatal e) \<Rightarrow> Some (Fatal e)
      | Some (Returns (nRead, Some ldcData)) \<Rightarrow>
          (case readLDC fuel ldcData 0 ldcID of
             None \<Rightarrow> None
           | Some Crashes \<Rightarrow> Some Crashes
           | Some (Fatal e) \<Rightarrow> Some (Fatal e)
           | Some (Returns _) \<Rightarrow> Some (Returns (slice_bytes ldcData)))
      | Some (Returns (nRead, None)) \<Rightarrow>
          if position + nRead \<ge> sl_len eventData
          then Some (Fatal (''Error: No LDC data found for LDC ID '' @ show_u32 ldcID @ '' in event '' @
                 show_u32 (EventId h ! 0)))
          else read_ldcs fuel eventData h ldcID (position + nRead))"

definition ReadGDC :: "nat \<Rightarrow> bytes \<Rightarrow> EventHeaderStruct \<Rightarrow> u32 \<Rightarrow> bytes exit option" where
  "ReadGDC fuel eventData h ldcID = read_ldcs fuel (make_slice eventData) h ldcID 0"

text \<open>
  \<open>readEvent\<close>: \<open>None\<close> is the end of the file. A short read is not noticed, the buffers keep the zeros they were
  made with; the size of the payload is computed with \<open>uint32\<close> and wraps.
\<close>

definition fill :: "nat \<Rightarrow> bytes \<Rightarrow> bytes" where
  "fill n d = d @ replicate (n - length d) 0"

definition extract_readEvent :: "bytes \<Rightarrow> (EventHeaderStruct \<times> bytes \<times> bytes) option" where
  "extract_readEvent s =
     (if s = [] then None
      else
        let h = parseLDCHeader (fill 80 (file_read 80 s));
            rest = drop 80 s;
            payloadSize = unat (EventSize h - 80);
            d = file_read payloadSize rest
        in Some (h, fill payloadSize d, drop (length d) rest))"

text \<open>The loop of \<open>processFile\<close> over the events of one file.\<close>

fun process_events :: "nat \<Rightarrow> bytes \<Rightarrow> u32 \<Rightarrow> (int, bytes) go_map \<Rightarrow> (int, bytes) go_map exit option" where
  "process_events 0 s ldcID evtData = None"
| "process_events (Suc fuel) s ldcID evtData =
     (case extract_readEvent s of
        None \<Rightarrow> Some (Returns evtData)
      | Some (h, eventData, rest) \<Rightarrow>
          (case ReadGDC fuel eventData h ldcID of
             None \<Rightarrow> None
           | Some (Fatal e) \<Rightarrow> Some (Fatal e)
           | Some Crashes \<Rightarrow> Some Crashes
           | Some (Returns ldcData) \<Rightarrow>
               process_events fuel rest ldcID (gm_set (uint (EventId h ! 0)) ldcData evtData)))"

text \<open>A file that cannot be opened is an error that \<open>main\<close> ignores.\<close>

definition processFile ::
  "nat \<Rightarrow> (string \<Rightarrow> bytes option) \<Rightarrow> string \<Rightarrow> u32 \<Rightarrow> (int, bytes) go_map \<Rightarrow> (int, bytes) go_map exit option" where
  "processFile fuel contents filePath ldcID evtData =
     (case contents filePath of
        None \<Rightarrow> Some (Returns evtData)
      | Some s \<Rightarrow> process_events fuel s ldcID evtData)"

fun process_files ::
  "nat \<Rightarrow> (string \<Rightarrow> bytes option) \<Rightarrow> string list \<Rightarrow> u32 \<Rightarrow> (int, bytes) go_map \<Rightarrow>
   (int, bytes) go_map exit option" where
  "process_files fuel contents [] ldcID evtData = Some (Returns evtData)"
| "process_files fuel contents (f # fs) ldcID evtData =
     (case processFile fuel contents f ldcID evtData of
        Some (Returns evtData') \<Rightarrow> process_files fuel contents fs ldcID evtData'
      | r \<Rightarrow> r)"

text \<open>
  The events in the order of their numbers. \<open>sort.Ints\<close> leaves no choice, so the iteration over the map does not
  matter; \<open>wr k\<close> says whether the \<open>k\<close>-th write succeeds.
\<close>

record extracted =
  ex_file :: bytes
  ex_missing :: "(int \<times> int) list"

fun write_sorted ::
  "(nat \<Rightarrow> bool) \<Rightarrow> (int, bytes) go_map \<Rightarrow> int \<Rightarrow> nat \<Rightarrow> int list \<Rightarrow> extracted \<Rightarrow> extracted exit" where
  "write_sorted wr evtData previousEventID k [] ex = Returns ex"
| "write_sorted wr evtData previousEventID k (eventID # ids) ex =
     (let ex' = (if eventID \<noteq> previousEventID + 1
                 then ex\<lparr>ex_missing := ex_missing ex @ [(eventID, previousEventID)]\<rparr> else ex)
      in if wr k
         then write_sorted wr evtData eventID (Suc k) ids
                (ex'\<lparr>ex_file := ex_file ex' @ gm_get_or [] evtData eventID\<rparr>)
         else Fatal ''Error writing event data to file'')"

definition extract_main ::
  "nat \<Rightarrow> (int, bytes) iteration \<Rightarrow> (nat \<Rightarrow> bool) \<Rightarrow> string \<Rightarrow> string + (string \<times> bool) list \<Rightarrow>
   (string \<Rightarrow> bytes option) \<Rightarrow> int \<Rightarrow> extracted exit option" where
  "extract_main fuel ord wr dataPath listing contents ldcID =
     (case getRawdataFiles dataPath listing of
        Inl err \<Rightarrow> Some (Fatal (''Error getting raw data files: '' @ err))
      | Inr rawFiles \<Rightarrow>
          (case process_files fuel contents rawFiles (word_of_int ldcID) gm_empty of
             None \<Rightarrow> None
           | Some (Fatal e) \<Rightarrow> Some (Fatal e)
           | Some Crashes \<Rightarrow> Some Crashes
           | Some (Returns evtData) \<Rightarrow>
               (case sort (map fst (ord evtData)) of
                  [] \<Rightarrow> Some Crashes
                | i # ids \<Rightarrow> Some (write_sorted wr evtData (i - 1) 0 (i # ids) \<lparr>ex_file = [], ex_missing = []\<rparr>))))"

subsection \<open>extract\_events\<close>

text \<open>
  The loop of \<open>extract_events.go\<close>: what is written to the output, and what is printed to the error stream. A short
  event ends it; when the size in a header is below 80, only that many bytes of the header are copied.
\<close>

fun extract_events :: "nat \<Rightarrow> bytes \<Rightarrow> bytes \<times> string list" where
  "extract_events 0 s = ([], [])"
| "extract_events (Suc n) s =
     (let head = file_read 80 s
      in if length head < 80 then ([], [''Error reading header: '' @ (if head = [] then ''EOF'' else ''<nil>'')])
         else
           let eventSize = unat (le32_at head 0);
               body = file_read (eventSize - 80) (drop 80 s)
           in if 80 < eventSize \<and> length body < eventSize - 80 then ([], [''Error reading event data: '' @ (if body = [] then ''EOF'' else ''<nil>'')])
              else
                let (out, err) = extract_events n (drop (length body) (drop 80 s))
                in (take eventSize head @ body @ out, err))"

section \<open>One event\<close>

text \<open>The sub-event of an LDC in an event tree.\<close>

definition sub_tree :: "u32 \<Rightarrow> event_tree \<Rightarrow> ldc_tree option" where
  "sub_tree ldcID t = find (\<lambda>l. EventLdcId (fst l) = ldcID) (snd t)"

definition sub_bytes :: "u32 \<Rightarrow> event_tree \<Rightarrow> bytes" where
  "sub_bytes ldcID t = (case sub_tree ldcID t of None \<Rightarrow> [] | Some l \<Rightarrow> ldc_bytes l)"

text \<open>
  What the tool needs of an event beyond its form: the LDC is in it, with at least one equipment block (the walk
  over the blocks reads one before it looks for the end) and with the header size of the format.
\<close>

definition walkable :: "ldc_tree \<Rightarrow> bool" where
  "walkable l \<longleftrightarrow> snd l \<noteq> [] \<and> EventHeadSize (fst l) = 80"

definition extractable :: "u32 \<Rightarrow> event_tree \<Rightarrow> bool" where
  "extractable ldcID t \<longleftrightarrow> event_ok t \<and> (\<exists>l. sub_tree ldcID t = Some l \<and> walkable l)"

definition event_number :: "event_tree \<Rightarrow> int" where
  "event_number t = uint (EventId (fst t) ! 0)"

lemma readEquipment_tree:
  assumes "equipment_ok e"
  shows "readEquipment \<lparr>sl_data = pre @ equipment_bytes e @ post, sl_len = n\<rparr> (length pre) =
    Returns (length (equipment_bytes e))"
proof -
  have "fst (equipment_at (pre @ equipment_bytes e @ post) (length pre)) = fst e"
    by (simp add: equipment_at_tree [OF assms])
  then have "readEquipmentHeader (byte_slice (length pre) 28 (pre @ equipment_bytes e @ post)) = fst e"
    by (simp add: equipment_at_def Let_def)
  with assms length_equipment_bytes [OF assms] show ?thesis
    by (simp add: readEquipment_def equipment_ok_def)
qed

lemma read_equipments_tree:
  assumes "list_all equipment_ok es" "es \<noteq> []" "length es \<le> fuel" and h: "EventHeadSize h = 80"
    and "unat (EventSize h) = 80 + length pre + length (concat (map equipment_bytes es))"
  shows "read_equipments fuel \<lparr>sl_data = pre @ concat (map equipment_bytes es) @ post, sl_len = n\<rparr> h (length pre) =
    Some (Returns ())"
  using assms(1-3,5)
proof (induction es arbitrary: pre fuel)
  case Nil
  then show ?case by simp
next
  case (Cons e es)
  then obtain k where k: "fuel = Suc k" by (cases fuel) auto
  have e: "equipment_ok e" using Cons.prems by simp
  let ?s = "\<lparr>sl_data = pre @ equipment_bytes e @ concat (map equipment_bytes es) @ post, sl_len = n\<rparr>"
  have read: "readEquipment ?s (length pre) = Returns (length (equipment_bytes e))"
    by (rule readEquipment_tree [OF e])
  show ?case
  proof (cases es)
    case Nil
    then show ?thesis using Cons.prems(4) read h by (simp add: k)
  next
    case (Cons e' es')
    then have ne: "es \<noteq> []" by simp
    have ok': "equipment_ok e'" using Cons.prems(1) Cons by simp
    have "unat (EventSize h) > 80 + length pre + length (equipment_bytes e)"
      using Cons.prems(4) length_equipment_bytes [OF ok'] Cons by simp
    moreover have "read_equipments k \<lparr>sl_data = (pre @ equipment_bytes e) @ concat (map equipment_bytes es) @ post, sl_len = n\<rparr>
        h (length (pre @ equipment_bytes e)) = Some (Returns ())"
      using Cons.prems k ne by (intro Cons.IH) simp_all
    ultimately show ?thesis using read h by (simp add: k)
  qed
qed

lemma readLDC_header:
  assumes "ldc_ok l"
  shows "parseLDCHeader (byte_slice (length pre) 80 (pre @ ldc_bytes l @ post)) = fst l"
    and "length pre + 80 \<le> length (pre @ ldc_bytes l @ post)" and "unat (EventSize (fst l)) = length (ldc_bytes l)"
  using ldc_front [OF assms] length_ldc_bytes [OF assms] by simp_all

lemma readLDC_found:
  assumes l: "ldc_ok l" "walkable l" "EventLdcId (fst l) = ldcID" and "length (snd l) \<le> fuel"
    and n: "length pre + length (ldc_bytes l) \<le> n"
  shows "readLDC fuel \<lparr>sl_data = pre @ ldc_bytes l @ post, sl_len = n\<rparr> (length pre) ldcID =
    Some (Returns (length (ldc_bytes l), Some \<lparr>sl_data = ldc_bytes l @ post, sl_len = length (ldc_bytes l)\<rparr>))"
proof -
  have hs: "EventHeadSize (fst l) = 80" and ne: "snd l \<noteq> []" using l(2) by (simp_all add: walkable_def)
  have ok: "list_all equipment_ok (snd l)" and w: "length (words_le (event_words (fst l))) = 80"
    using l(1) by (simp_all add: ldc_ok_def length_event_words)
  have "drop (length pre + 80) (pre @ ldc_bytes l @ post) = [] @ concat (map equipment_bytes (snd l)) @ post"
    using w by (simp add: ldc_bytes_def)
  moreover have "read_equipments fuel \<lparr>sl_data = [] @ concat (map equipment_bytes (snd l)) @ post, sl_len = n - (length pre + 80)\<rparr>
      (fst l) (length ([] :: bytes)) = Some (Returns ())"
    using readLDC_header(3) [OF l(1)] length_ldc_bytes [OF l(1)]
    by (intro read_equipments_tree [OF ok ne assms(4) hs]) simp
  ultimately have "read_equipments fuel \<lparr>sl_data = drop (length pre + 80) (pre @ ldc_bytes l @ post), sl_len = n - (length pre + 80)\<rparr>
      (fst l) 0 = Some (Returns ())" by simp
  moreover have "length pre + 80 \<le> n" using n length_ldc_bytes [OF l(1)] by simp
  ultimately show ?thesis
    using readLDC_header(1,2) [OF l(1), of pre post] readLDC_header(3) [OF l(1)] l(3) hs n
    by (simp add: readLDC_def Let_def del: length_append drop_append) simp
qed

lemma readLDC_skip:
  assumes "ldc_ok l" "EventLdcId (fst l) \<noteq> ldcID"
  shows "readLDC fuel \<lparr>sl_data = pre @ ldc_bytes l @ post, sl_len = n\<rparr> (length pre) ldcID =
    Some (Returns (length (ldc_bytes l), None))"
  using readLDC_header(1,2) [OF assms(1), of pre post] readLDC_header(3) [OF assms(1)] assms(2) by (simp add: readLDC_def Let_def)

lemma read_ldcs_tree:
  assumes "list_all ldc_ok ls" "find (\<lambda>l. EventLdcId (fst l) = ldcID) ls = Some l" "walkable l"
    and "\<forall>l \<in> set ls. length (snd l) + length ls < fuel"
  shows "read_ldcs fuel (make_slice (pre @ concat (map ldc_bytes ls))) h ldcID (length pre) = Some (Returns (ldc_bytes l))"
  using assms
proof (induction ls arbitrary: pre fuel)
  case Nil
  then show ?case by simp
next
  case (Cons a ls)
  have "length (snd a) + length (a # ls) < fuel" using Cons.prems(4) by simp
  then obtain k where k: "fuel = Suc k" by (cases fuel) simp_all
  have a: "ldc_ok a" "length (snd a) \<le> k" using Cons.prems k by auto
  have s: "make_slice (pre @ concat (map ldc_bytes (a # ls))) =
      \<lparr>sl_data = pre @ ldc_bytes a @ concat (map ldc_bytes ls), sl_len = length (pre @ concat (map ldc_bytes (a # ls)))\<rparr>"
    by (simp add: make_slice_def)
  show ?case
  proof (cases "EventLdcId (fst a) = ldcID")
    case True
    then have l: "a = l" using Cons.prems(2) by simp
    have "readLDC k \<lparr>sl_data = [] @ ldc_bytes a @ concat (map ldc_bytes ls), sl_len = length (ldc_bytes a)\<rparr> (length ([] :: bytes)) ldcID =
        Some (Returns (length (ldc_bytes a), Some \<lparr>sl_data = ldc_bytes a @ concat (map ldc_bytes ls), sl_len = length (ldc_bytes a)\<rparr>))"
      using a True Cons.prems(3) l by (intro readLDC_found) simp_all
    moreover have "readLDC k (make_slice (pre @ concat (map ldc_bytes (a # ls)))) (length pre) ldcID =
        Some (Returns (length (ldc_bytes a), Some \<lparr>sl_data = ldc_bytes a @ concat (map ldc_bytes ls), sl_len = length (ldc_bytes a)\<rparr>))"
      unfolding s using a True Cons.prems(3) l by (intro readLDC_found) simp_all
    ultimately show ?thesis unfolding k read_ldcs.simps by (simp add: slice_bytes_def l)
  next
    case False
    then have f: "find (\<lambda>l. EventLdcId (fst l) = ldcID) ls = Some l" using Cons.prems(2) by simp
    then have "ls \<noteq> []" by auto
    then obtain b where "b \<in> set ls" "ldc_ok b" using Cons.prems(1) by (cases ls) auto
    then have "0 < length (concat (map ldc_bytes ls))"
      using length_ldc_bytes [of b] split_list [of b ls] by (force simp del: length_concat)
    moreover have "read_ldcs k (make_slice ((pre @ ldc_bytes a) @ concat (map ldc_bytes ls))) h ldcID (length (pre @ ldc_bytes a)) =
        Some (Returns (ldc_bytes l))"
      using Cons.prems k f by (intro Cons.IH) auto
    moreover have "readLDC k (make_slice (pre @ concat (map ldc_bytes (a # ls)))) (length pre) ldcID = Some (Returns (length (ldc_bytes a), None))"
      unfolding s by (rule readLDC_skip [OF a(1) False])
    ultimately show ?thesis unfolding k read_ldcs.simps by (simp add: make_slice_def)
  qed
qed

lemma ReadGDC_tree:
  assumes t: "extractable ldcID t" and "length (event_bytes t) \<le> fuel"
  shows "ReadGDC fuel (concat (map ldc_bytes (snd t))) h ldcID = Some (Returns (sub_bytes ldcID t))"
proof -
  obtain l where ok: "event_ok t" and l: "sub_tree ldcID t = Some l" "walkable l"
    using t by (auto simp: extractable_def)
  have ls: "list_all ldc_ok (snd t)" using ok by (simp add: event_ok_def)
  have "\<forall>l \<in> set (snd t). length (snd l) + length (snd t) < fuel"
    using ldcs_length [OF ls] length_event_bytes [OF ok] assms(2) by fastforce
  from read_ldcs_tree [OF ls l(1) [unfolded sub_tree_def] l(2) this, of "[]" h] show ?thesis
    by (simp add: ReadGDC_def sub_bytes_def l(1))
qed

lemma extract_readEvent_tree:
  assumes "event_ok t"
  shows "extract_readEvent (event_bytes t @ s) = Some (fst t, concat (map ldc_bytes (snd t)), s)"
proof -
  let ?d = "concat (map ldc_bytes (snd t))"
  have wf: "event_header_wf (fst t)" and size: "unat (EventSize (fst t)) = 80 + length ?d" and small: "length ?d \<le> 2 ^ 30"
    using assms length_event_bytes [OF assms] by (simp_all add: event_ok_def)
  have b: "event_bytes t @ s = words_le (event_words (fst t)) @ ?d @ s" by (simp add: event_bytes_def)
  have w: "length (words_le (event_words (fst t))) = 80" using wf by (simp add: length_event_words)
  have head: "file_read 80 (event_bytes t @ s) = words_le (event_words (fst t))" using w by (simp add: file_read_def b)
  then have "parseLDCHeader (fill 80 (file_read 80 (event_bytes t @ s))) = fst t"
    using parse_front [OF wf, of "[]"] w by (simp add: fill_def)
  moreover have "unat (EventSize (fst t) - 80) = length ?d"
    using size by (simp add: unat_sub word_le_nat_alt)
  moreover have "file_read (length ?d) (?d @ s) = ?d" using small by (simp add: file_read_def)
  moreover have "drop 80 (event_bytes t @ s) = ?d @ s" "event_bytes t @ s \<noteq> []" using w by (auto simp: b simp del: length_words_le)
  ultimately show ?thesis by (simp add: extract_readEvent_def Let_def fill_def del: length_concat)
qed

section \<open>All files\<close>

lemma process_events_trees:
  assumes "list_all (extractable ldcID) ts" and "length (concat (map event_bytes ts)) < fuel"
  shows "process_events fuel (concat (map event_bytes ts)) ldcID evtData =
    Some (Returns (fold (\<lambda>t. gm_set (event_number t) (sub_bytes ldcID t)) ts evtData))"
  using assms
proof (induction ts arbitrary: fuel evtData)
  case Nil
  then show ?case by (cases fuel) (simp_all add: extract_readEvent_def)
next
  case (Cons t ts)
  then obtain k where k: "fuel = Suc k" by (cases fuel) auto
  have t: "extractable ldcID t" and ok: "event_ok t" using Cons.prems by (simp_all add: extractable_def)
  have "length (event_bytes t) \<le> k" "length (concat (map event_bytes ts)) < k"
    using Cons.prems k length_event_bytes [OF ok] by simp_all
  note len = ReadGDC_tree [OF t this(1)] this(2)
  show ?case
    using extract_readEvent_tree [OF ok, of "concat (map event_bytes ts)"] len(1) Cons.IH [OF _ len(2)] Cons.prems(1)
    by (simp add: k event_number_def)
qed

lemma process_files_trees:
  assumes "map contents fs = map (\<lambda>ts. Some (concat (map event_bytes ts))) tss"
    and "\<forall>ts \<in> set tss. list_all (extractable ldcID) ts \<and> length (concat (map event_bytes ts)) < fuel"
  shows "process_files fuel contents fs ldcID evtData =
    Some (Returns (fold (\<lambda>t. gm_set (event_number t) (sub_bytes ldcID t)) (concat tss) evtData))"
  using assms
proof (induction fs arbitrary: tss evtData)
  case Nil
  then show ?case by simp
next
  case (Cons f fs)
  then obtain ts tss' where "tss = ts # tss'" "contents f = Some (concat (map event_bytes ts))" by auto
  with Cons show ?case by (simp add: processFile_def process_events_trees)
qed

text \<open>Filling a map with different keys.\<close>

lemma fold_gm_set:
  assumes "distinct (map fst m @ map k xs)"
  shows "fold (\<lambda>x. gm_set (k x) (v x)) xs m = m @ map (\<lambda>x. (k x, v x)) xs"
  using assms
proof (induction xs arbitrary: m)
  case Nil
  then show ?case by simp
next
  case (Cons x xs)
  then have "k x \<notin> set (map fst m)" by auto
  then have "gm_set (k x) (v x) m = m @ [(k x, v x)]"
    unfolding gm_set_def by (induction m) auto
  with Cons show ?case by auto
qed

lemma write_sorted_all:
  assumes "\<forall>k. wr k"
  shows "\<exists>miss. write_sorted wr m previous k ids ex =
      Returns \<lparr>ex_file = ex_file ex @ concat (map (gm_get_or [] m) ids), ex_missing = ex_missing ex @ miss\<rparr> \<and>
    (miss = [] \<longleftrightarrow> ids = [previous + 1..previous + int (length ids)])"
proof (induction ids arbitrary: previous k ex)
  case Nil
  then show ?case by simp
next
  case (Cons i ids)
  have up: "[previous + 1..previous + int (length (i # ids))] =
      (previous + 1) # [(previous + 1) + 1..(previous + 1) + int (length ids)]"
    by (subst upto.simps) (simp add: algebra_simps)
  show ?case
  proof (cases "i = previous + 1")
    case True
    then show ?thesis
      using Cons.IH [of i "Suc k" "ex\<lparr>ex_file := ex_file ex @ gm_get_or [] m i\<rparr>"] assms
      unfolding up by (auto simp: Let_def)
  next
    case False
    then show ?thesis
      using Cons.IH [of i "Suc k" "ex\<lparr>ex_missing := ex_missing ex @ [(i, previous)],
          ex_file := ex_file ex @ gm_get_or [] m i\<rparr>"] assms
      unfolding up by (auto simp: Let_def)
  qed
qed

lemma sort_map_key: "sort (map f xs) = map f (sort_key f xs)"
  by (rule properties_for_sort) simp_all

text \<open>The sorted writes of a map that was filled from distinct events.\<close>

lemma sorted_values:
  fixes k :: "'a \<Rightarrow> int" and v :: "'a \<Rightarrow> bytes"
  assumes "distinct (map k xs)" and ord: "iteration_order ord"
  defines "m \<equiv> map (\<lambda>x. (k x, v x)) xs"
  shows "sort (map fst (ord m)) = map k (sort_key k xs)"
    and "concat (map (gm_get_or [] m) (map k (sort_key k xs))) = concat (map v (sort_key k xs))"
proof -
  have "mset (map fst (ord m)) = mset (map k xs)"
    using ord by (simp only: iteration_order_def mset_map) (simp add: m_def o_def image_mset.compositionality)
  then have "sort (map fst (ord m)) = sort (map k xs)" by (metis mset_sort properties_for_sort sorted_sort)
  then show "sort (map fst (ord m)) = map k (sort_key k xs)" by (simp add: sort_map_key)
  have "gm_get m (k x) = Some (v x)" if "x \<in> set xs" for x
    using that assms(1) unfolding gm_get_def m_def by (force intro: map_of_is_SomeI simp: o_def)
  then show "concat (map (gm_get_or [] m) (map k (sort_key k xs))) = concat (map v (sort_key k xs))"
    by (auto simp: gm_get_or_def intro!: arg_cong [of _ _ concat])
qed

lemma extract_main_trees:
  assumes files: "getRawdataFiles dataPath listing = Inr fs"
    and fs: "map contents fs = map (\<lambda>ts. Some (concat (map event_bytes ts))) tss"
      "\<forall>ts \<in> set tss. list_all (extractable (word_of_int ldcID)) ts \<and> length (concat (map event_bytes ts)) < fuel"
    and ts: "ts = concat tss" "ts \<noteq> []" "distinct (map event_number ts)"
    and "iteration_order ord" and "\<forall>k. wr k"
  shows "\<exists>miss. extract_main fuel ord wr dataPath listing contents ldcID =
      Some (Returns \<lparr>ex_file = concat (map (sub_bytes (word_of_int ldcID)) (sort_key event_number ts)), ex_missing = miss\<rparr>) \<and>
    (miss = [] \<longleftrightarrow> (\<exists>i. sort (map event_number ts) = [i..i + int (length ts) - 1]))"
proof -
  let ?v = "sub_bytes (word_of_int ldcID)"
  define m where "m = map (\<lambda>t. (event_number t, ?v t)) ts"
  have m: "process_files fuel contents fs (word_of_int ldcID) gm_empty = Some (Returns m)"
    using process_files_trees [OF fs, of gm_empty] fold_gm_set [of "[]" event_number ts ?v] ts
    by (simp add: gm_empty_def m_def)
  note srt = sorted_values [OF ts(3) assms(7), of ?v, folded m_def]
  obtain i ids where ids: "map event_number (sort_key event_number ts) = i # ids"
    using ts(2) by (metis length_0_conv length_map length_sort list.exhaust)
  have len: "length (i # ids) = length ts" unfolding ids [symmetric] by simp
  from write_sorted_all [OF assms(8), of m "i - 1" 0 "i # ids" "\<lparr>ex_file = [], ex_missing = []\<rparr>"] obtain miss
    where "write_sorted wr m (i - 1) 0 (i # ids) \<lparr>ex_file = [], ex_missing = []\<rparr> =
        Returns \<lparr>ex_file = concat (map (gm_get_or [] m) (i # ids)), ex_missing = miss\<rparr>"
      and miss: "miss = [] \<longleftrightarrow> i # ids = [i..i + int (length ts) - 1]"
    unfolding len by (auto simp: algebra_simps)
  moreover have "miss = [] \<longleftrightarrow> (\<exists>j. sort (map event_number ts) = [j..j + int (length ts) - 1])"
    unfolding miss sort_map_key ids using ts(2)
    by (auto simp: upto.simps [of _ "_ + _ - 1"])
  ultimately show ?thesis
    using files m srt(1) srt(2) unfolding ids by (auto simp: extract_main_def)
qed

section \<open>The first events of a file\<close>

lemma extract_events_step:
  assumes "event_ok t"
  shows "extract_events (Suc n) (event_bytes t @ s) = (event_bytes t @ fst (extract_events n s), snd (extract_events n s))"
proof -
  let ?d = "concat (map ldc_bytes (snd t))"
  have size: "unat (EventSize (fst t)) = 80 + length ?d" and small: "length ?d \<le> 2 ^ 30" and wf: "event_header_wf (fst t)"
    using assms length_event_bytes [OF assms] by (simp_all add: event_ok_def)
  have b: "event_bytes t @ s = words_le (event_words (fst t)) @ ?d @ s" by (simp add: event_bytes_def)
  have w: "length (words_le (event_words (fst t))) = 80" using wf by (simp add: length_event_words)
  have head: "file_read 80 (event_bytes t @ s) = words_le (event_words (fst t))" using w by (simp add: file_read_def b)
  have "le32_at (words_le (event_words (fst t)) @ []) (4 * 0) = event_words (fst t) ! 0"
    using length_event_words [OF wf] by (intro le32_at_words_le) simp
  then have "le32_at (words_le (event_words (fst t))) 0 = EventSize (fst t)" by (simp add: event_words_def)
  moreover have "file_read (length ?d) (?d @ s) = ?d" using small by (simp add: file_read_def)
  moreover have "drop 80 (event_bytes t @ s) = ?d @ s" using w by (simp add: b)
  ultimately show ?thesis
    using head size w unfolding extract_events.simps Let_def
    by (simp add: split_def event_bytes_def del: length_concat length_words_le)
qed

lemma extract_events_tree:
  assumes "list_all event_ok ts"
  shows "extract_events n (concat (map event_bytes ts)) =
    (concat (map event_bytes (take n ts)), if n \<le> length ts then [] else [''Error reading header: EOF''])"
  using assms
proof (induction ts arbitrary: n)
  case Nil
  then show ?case by (cases n) (simp_all add: file_read_def)
next
  case (Cons t ts)
  then show ?case by (cases n) (simp_all add: extract_events_step del: extract_events.simps(2))
qed

end
