(* ===== verification/Extract_Flow.thy ===== *)
theory Extract_Flow
  imports Data_Flow Ldc_Extract
begin

text \<open>
  The test data tool (\<open>src/testDataBuilder\<close>) on the files that the GDCs of a run have written: the sub-events that
  LDCs and GDCs build are event trees (\<open>Event_Dump\<close>), so the tool finds in every event the sub-event of
  its LDC, and sorting by event number undoes the round robin over the GDCs.
\<close>

section \<open>The built events are trees\<close>

lemma iteration_lookup:
  assumes "iteration_order ord" "gm_invar m" "(k, v) \<in> set (ord m)"
  shows "gm_get m k = Some v"
  using assms by (simp add: iteration_set gm_get_def gm_invar_def)

text \<open>A sub-event with a block of every equipment.\<close>

definition has_equipments :: "Equipment set \<Rightarrow> ldc_tree \<Rightarrow> bool" where
  "has_equipments es t \<longleftrightarrow> (\<forall>e \<in> es. \<exists>b \<in> set (snd t). EquipmentId (fst b) = word_of_int (eq_ID e))"

lemma sub_event_tree:
  assumes b: "sub_event_of ord S d ldc run i b" and ord: "iteration_order ord" and S: "S \<noteq> {}" and small: "length b < 2 ^ 32"
    and d: "\<forall>s \<in> S. d s i = addEquipmentHeader (raw s) (eqp s)"
  shows "\<exists>t. b = ldc_bytes t \<and> ldc_ok t \<and> walkable t \<and> EventLdcId (fst t) = word_of_int (ldc_ID ldc) \<and> has_equipments (eqp ` S) t"
proof -
  obtain now eqs where inv: "gm_invar eqs" and get: "gm_get eqs = (\<lambda>s. if s \<in> S then Some (d s i) else None)"
      and b': "b = addLDCHeader ord now eqs (1 + int i) ldc run"
    using b by (auto simp: sub_event_of_def)
  define es where "es = map (\<lambda>(s, v). built_equipment (raw s) (eqp s)) (ord eqs)"
  have el: "v = equipment_bytes (built_equipment (raw s) (eqp s))" if "(s, v) \<in> set (ord eqs)" for s v
  proof -
    have "gm_get eqs s = Some v" by (rule iteration_lookup [OF ord inv that])
    then have "s \<in> S \<and> v = d s i" by (auto simp: get split: if_splits)
    then show ?thesis using d by (simp add: built_equipment_bytes)
  qed
  then have snds: "map snd (ord eqs) = map equipment_bytes es" by (auto simp: es_def)
  then have len: "length (concat (map equipment_bytes es)) + 80 < 2 ^ 32"
    using small by (simp add: b' length_concat o_def flip: snds)
  have "equipment_ok (built_equipment (raw s) (eqp s))" if "(s, v) \<in> set (ord eqs)" for s v
  proof (rule built_equipment_ok)
    have "equipment_bytes (built_equipment (raw s) (eqp s)) \<in> set (map equipment_bytes es)"
      using that unfolding es_def by force
    then have "length (equipment_bytes (built_equipment (raw s) (eqp s))) \<le> length (concat (map equipment_bytes es))"
      using split_list by fastforce
    then show "length (raw s) + 28 < 2 ^ 32" using len by (simp add: built_equipment_bytes del: length_concat)
  qed
  then have ok: "list_all equipment_ok es" by (auto simp: es_def list_all_iff)
  have mem: "built_equipment (raw s) (eqp s) \<in> set es" if "s \<in> S" for s
  proof -
    have "(s, d s i) \<in> set eqs" using that get map_of_SomeD [of eqs s] by (simp add: gm_get_def)
    then show ?thesis using iteration_set [OF ord, of eqs] unfolding es_def by force
  qed
  then have "es \<noteq> []" using S by fastforce
  moreover have "has_equipments (eqp ` S) (h, es)" for h
    using mem by (force simp: has_equipments_def built_equipment_def equipment_header_def)
  moreover note built_ldc [where ord = ord and m = eqs and now = now and eventID = "1 + int i" and ldc = ldc and run = run, OF snds ok len]
  ultimately show ?thesis
    unfolding b' by (intro exI) (auto simp: walkable_def ldc_header_def)
qed

lemma event_number_bytes:
  assumes "event_ok t"
  shows "event_number t = uint (le32_at (event_bytes t) 24)"
proof -
  have wf: "event_header_wf (fst t)" using assms by (simp add: event_ok_def)
  then obtain a c where id: "EventId (fst t) = [a, c]" by (auto simp: event_header_wf_def dest: length_2_3_4(1))
  have "le32_at (words_le (event_words (fst t)) @ concat (map ldc_bytes (snd t))) (4 * 6) = event_words (fst t) ! 6"
    using length_event_words [OF wf] by (intro le32_at_words_le) simp
  then show ?thesis by (simp add: event_number_def event_bytes_def event_words_def id)
qed

lemma event_tree:
  assumes ls: "gm_invar ls" "dom (gm_get ls) = L" and ord: "iteration_order gord"
    and sub: "\<forall>l \<in> L. \<exists>t. gm_get ls l = Some (ldc_bytes t) \<and> ldc_ok t \<and> walkable t \<and> EventLdcId (fst t) = word_of_int l \<and> Q l t"
    and L: "\<forall>l \<in> L. 0 \<le> l \<and> l < 2 ^ 32" and small: "length (addGDCHeader gord now ls ev gid run) \<le> 2 ^ 30"
  shows "\<exists>t. addGDCHeader gord now ls ev gid run = event_bytes t \<and> event_ok t \<and> EventId (fst t) ! 0 = word_of_int ev \<and>
    EventMagic (fst t) = EVENT_MAGIC_NUMBER \<and>
    (\<forall>l \<in> L. extractable (word_of_int l) t \<and> sub_bytes (word_of_int l) t = the (gm_get ls l) \<and>
       (\<exists>u \<in> set (snd t). EventLdcId (fst u) = word_of_int l \<and> Q l u))"
proof -
  obtain T where T: "\<And>l. l \<in> L \<Longrightarrow> gm_get ls l = Some (ldc_bytes (T l)) \<and> ldc_ok (T l) \<and> walkable (T l) \<and>
      EventLdcId (fst (T l)) = word_of_int l \<and> Q l (T l)"
    using bchoice [OF sub] by blast
  define ts where "ts = map (\<lambda>(l, b). T l) (gord ls)"
  have el: "l \<in> L \<and> b = ldc_bytes (T l)" if "(l, b) \<in> set (gord ls)" for l b
    using iteration_lookup [OF ord ls(1) that] ls(2) T [of l] by auto
  then have snds: "map snd (gord ls) = map ldc_bytes ts" by (auto simp: ts_def)
  have ok: "list_all ldc_ok ts" using el T by (auto simp: ts_def list_all_iff)
  have len: "length (concat (map ldc_bytes ts)) + 80 \<le> 2 ^ 30"
    using small by (simp add: length_concat o_def flip: snds)
  define t where "t = (gdc_header (length (concat (map ldc_bytes ts))) ev gid run now, ts)"
  note built = built_event [where ord = gord and m = ls and now = now and eventID = ev and gdc = gid and run = run, OF snds ok len, folded t_def]
  have tree: "sub_tree (word_of_int l) t = Some (T l)" "T l \<in> set (snd t)" if lL: "l \<in> L" for l
  proof -
    obtain b where "(l, b) \<in> set (gord ls)"
      using T [OF lL] iteration_set [OF ord, of ls] map_of_SomeD [of ls l] by (auto simp: gm_get_def)
    then have "T l \<in> set ts" unfolding ts_def by force
    moreover have "y = T l" if y: "y \<in> set ts" "EventLdcId (fst y) = word_of_int l" for y
    proof -
      obtain l' where l': "l' \<in> L" "y = T l'" using y(1) el unfolding ts_def by auto
      then have "word_of_int l' = (word_of_int l :: u32)" using y(2) T [OF l'(1)] by simp
      moreover have "uint (word_of_int k :: u32) = k" if "k \<in> L" for k
        using L that by (simp add: word_of_int_inverse)
      ultimately have "l' = l" using l'(1) lL by metis
      then show ?thesis using l' by simp
    qed
    moreover have "EventLdcId (fst (T l)) = word_of_int l" using T [OF lL] by blast
    ultimately show "sub_tree (word_of_int l) t = Some (T l)"
      unfolding sub_tree_def t_def snd_conv by (intro find_unique ballI impI)
    show "T l \<in> set (snd t)" using \<open>T l \<in> set ts\<close> by (simp add: t_def)
  qed
  have "extractable (word_of_int l) t \<and> sub_bytes (word_of_int l) t = the (gm_get ls l) \<and>
      (\<exists>u \<in> set (snd t). EventLdcId (fst u) = word_of_int l \<and> Q l u)" if "l \<in> L" for l
    using built(2) tree [OF that] T [OF that] by (auto simp: extractable_def sub_bytes_def)
  moreover have "EventId (fst t) ! 0 = word_of_int ev" "EventMagic (fst t) = EVENT_MAGIC_NUMBER"
    by (simp_all add: t_def gdc_header_def)
  ultimately show ?thesis using built by (intro exI [of _ t]) blast
qed

section \<open>The files of one GDC\<close>

text \<open>The number of an event in a file.\<close>

definition bytes_number :: "bytes \<Rightarrow> int" where
  "bytes_number e = uint (le32_at e 24)"

text \<open>What the tool sees of an event: a tree with this number and with the sub-event that the LDC sent in this place.\<close>

definition event_of_run :: "int \<Rightarrow> sub_builder \<Rightarrow> bytes \<Rightarrow> event_tree \<Rightarrow> bool" where
  "event_of_run l st e t \<longleftrightarrow> event_bytes t = e \<and> extractable (word_of_int l) t \<and> event_number t = bytes_number e \<and>
     sub_bytes (word_of_int l) t = snd (sb_sent st ! nat (bytes_number e - 1))"

text \<open>An event with the sub-events of all LDCs, each with the blocks of all its equipments.\<close>

definition complete_event :: "int set \<Rightarrow> (int \<Rightarrow> Equipment set) \<Rightarrow> bytes \<Rightarrow> event_tree \<Rightarrow> bool" where
  "complete_event L es e t \<longleftrightarrow> event_bytes t = e \<and> event_ok t \<and> EventMagic (fst t) = EVENT_MAGIC_NUMBER \<and>
     event_number t = bytes_number e \<and>
     (\<forall>l \<in> L. \<exists>u \<in> set (snd t). EventLdcId (fst u) = word_of_int l \<and> has_equipments (es l) u)"

lemma gdc_files:
  fixes n g :: nat and L :: "int set" and cfg :: "int \<Rightarrow> LDCConfiguration"
  assumes L: "finite L" "L \<noteq> {}" "\<forall>l \<in> L. 0 \<le> l \<and> l < 2 ^ 32 \<and> ldc_ID (cfg l) = l" and g: "g < n"
    and cx: "\<forall>l \<in> L. cx_runNumber (cx l) = Some run \<and> cx_nEnabledEquipments (cx l) = Some (int (card (S l))) \<and>
      finite (S l) \<and> S l \<noteq> {}"
    and xs: "\<forall>l \<in> L. (\<forall>x \<in> set (xs l). \<not> ed_Error (fst x)) \<and> in_order (\<lambda>j. 1 + int j) (S l) (d l) (map message_of (xs l))"
    and st: "\<forall>l \<in> L. readSubEvents (ord l) (cx l) (cfg l) n (xs l) sub_builder_init = Ok (st l)"
    and small: "\<forall>l \<in> L. length (sb_sent (st l)) < 2 ^ 32 - 1 \<and> (\<forall>(i, b) \<in> set (sb_sent (st l)). length b < 2 ^ 32)"
    and cap: "\<forall>k. k \<le> cap k"
    and conn: "\<forall>l \<in> L. concat (cs l) = concat (sub_events_for g (st l)) \<and>
      handle_chunks cap (Some (int n)) (cs l) conn_init = Ok (conn l)"
    and ys: "merges L conn ys"
    and gdc: "gx_writeOutput gx" "gx_maxFilesize gx = Some maxsize" "0 \<le> maxsize" "countEnabledLDCs ldcs = card L"
    and N: "\<forall>l \<in> L. length (sb_sent (st l)) = N" and ord: "\<forall>l \<in> L. iteration_order (ord l)" "iteration_order gord"
    and d: "\<forall>l \<in> L. \<forall>s \<in> S l. \<forall>i. d l s i = addEquipmentHeader (raw l s i) (eqp l s)"
    and gb: "readData gord gx gid ldcs ys = Some gb" "\<forall>e \<in> set (concat (gb_binary gb)). length e \<le> 2 ^ 30"
    and l: "l \<in> L"
  shows "map bytes_number (concat (gb_binary gb)) = map (\<lambda>i. 1 + int i) (filter (\<lambda>i. i mod n = g) [0..<N])"
    and "\<forall>e \<in> set (concat (gb_binary gb)). \<exists>t. event_of_run l (st l) e t \<and> complete_event L (\<lambda>l. eqp l ` S l) e t"
proof -
  let ?E = "concat (gb_binary gb)"
  let ?R = "filter (\<lambda>i. i mod n = g) [0..<N]"
  obtain K where K: "?R = map (\<lambda>k. g + k * n) [0..<K]" using residue_positions [OF g] by blast
  have sub: "sub_events_for g (st l) = map (\<lambda>j. snd (sb_sent (st l) ! j)) ?R" if "l \<in> L" for l
  proof -
    have "\<forall>j < length (sb_sent (st l)). fst (sb_sent (st l) ! j) = j mod n"
      using ldc_targets [of "cx l" run "S l" n "xs l" "d l" "ord l" "cfg l" "st l"] cx xs st g that by auto
    from sub_events_positions [OF this] N that show ?thesis by simp
  qed
  then have len: "length (sub_events_for g (st l)) = K" if "l \<in> L" for l using that K by simp
  from run_stage [OF L g cx xs st small cap conn ys gdc, of gord gid]
  have E: "length ?E = Min ((\<lambda>l. length (sub_events_for g (st l))) ` L)"
    and stage: "\<And>j. j < length ?E \<Longrightarrow> \<exists>now ls. gm_invar ls \<and> dom (gm_get ls) = L \<and>
         ?E ! j = addGDCHeader gord now ls (1 + int g + int j * int n) gid (run_of gx) \<and>
         (\<forall>l \<in> L. \<exists>b. gm_get ls l = Some b \<and> b = sub_events_for g (st l) ! j \<and> length b < 2 ^ 32 \<and> 1 + int (g + j * n) < 2 ^ 32 \<and>
           sub_event_of (ord l) (S l) (d l) (cfg l) run (g + j * n) b)"
    unfolding gb(1) by fast+
  note E
  also have "(\<lambda>l. length (sub_events_for g (st l))) ` L = {K}" using len L(2) by auto
  finally have EK: "length ?E = K" by simp
  have ev: "\<exists>t. event_bytes t = ?E ! j \<and> event_ok t \<and> EventId (fst t) ! 0 = word_of_int (1 + int (g + j * n)) \<and>
      1 + int (g + j * n) < 2 ^ 32 \<and> extractable (word_of_int l) t \<and>
      sub_bytes (word_of_int l) t = snd (sb_sent (st l) ! (g + j * n)) \<and> EventMagic (fst t) = EVENT_MAGIC_NUMBER \<and>
      (\<forall>l \<in> L. \<exists>u \<in> set (snd t). EventLdcId (fst u) = word_of_int l \<and> has_equipments (eqp l ` S l) u)" if j: "j < K" for j
  proof -
    from stage [of j] j EK obtain now ls where ls: "gm_invar ls" "dom (gm_get ls) = L"
        "?E ! j = addGDCHeader gord now ls (1 + int g + int j * int n) gid (run_of gx)"
        and b0: "\<forall>l \<in> L. \<exists>b. gm_get ls l = Some b \<and> b = sub_events_for g (st l) ! j \<and> length b < 2 ^ 32 \<and>
          1 + int (g + j * n) < 2 ^ 32 \<and> sub_event_of (ord l) (S l) (d l) (cfg l) run (g + j * n) b"
      by blast
    note b = bspec [OF b0]
    have "\<exists>t. gm_get ls l = Some (ldc_bytes t) \<and> ldc_ok t \<and> walkable t \<and> EventLdcId (fst t) = word_of_int l \<and>
        has_equipments (eqp l ` S l) t"
      if l: "l \<in> L" for l
    proof -
      obtain b where b': "gm_get ls l = Some b" "length b < 2 ^ 32" "sub_event_of (ord l) (S l) (d l) (cfg l) run (g + j * n) b"
        using b [OF l] by blast
      have "iteration_order (ord l)" "S l \<noteq> {}" "ldc_ID (cfg l) = l"
          "\<forall>s \<in> S l. d l s (g + j * n) = addEquipmentHeader (raw l s (g + j * n)) (eqp l s)"
        using ord(1) cx L(3) d l by auto
      with sub_event_tree [OF b'(3) this(1,2) b'(2) this(4)] b'(1) show ?thesis by auto
    qed
    moreover have "length (?E ! j) \<le> 2 ^ 30" using gb(2) j EK by (metis nth_mem)
    ultimately obtain t where "event_bytes t = ?E ! j" "event_ok t"
        "EventId (fst t) ! 0 = word_of_int (1 + int g + int j * int n)"
        "extractable (word_of_int l) t" "sub_bytes (word_of_int l) t = the (gm_get ls l)" "EventMagic (fst t) = EVENT_MAGIC_NUMBER"
        "\<forall>l \<in> L. \<exists>u \<in> set (snd t). EventLdcId (fst u) = word_of_int l \<and> has_equipments (eqp l ` S l) u"
      using event_tree [OF ls(1,2) ord(2), of "\<lambda>l. has_equipments (eqp l ` S l)" now "1 + int g + int j * int n" gid "run_of gx"] L(3) l unfolding ls(3) by auto
    moreover have "sub_events_for g (st l) ! j = snd (sb_sent (st l) ! (g + j * n))"
      using sub [OF l] K j by simp
    moreover have "1 + int g + int j * int n = 1 + int (g + j * n)" by simp
    ultimately show ?thesis using b [OF l] by (intro exI [of _ t]) auto
  qed
  have num: "bytes_number (?E ! j) = 1 + int (g + j * n)" if j: "j < K" for j
  proof -
    obtain t where t: "event_bytes t = ?E ! j" "event_ok t" "EventId (fst t) ! 0 = word_of_int (1 + int (g + j * n))"
        "1 + int (g + j * n) < 2 ^ 32" using ev [OF j] by blast
    then have "event_number t = 1 + int (g + j * n)" by (simp only: event_number_def) (simp add: word_of_int_inverse)
    then show ?thesis using event_number_bytes [OF t(2)] t(1) by (simp add: bytes_number_def)
  qed
  then show "map bytes_number ?E = map (\<lambda>i. 1 + int i) ?R"
    unfolding K using EK by (intro nth_equalityI) simp_all
  show "\<forall>e \<in> set ?E. \<exists>t. event_of_run l (st l) e t \<and> complete_event L (\<lambda>l. eqp l ` S l) e t"
  proof
    fix e assume "e \<in> set ?E"
    then obtain j where j: "j < K" "e = ?E ! j" using EK by (metis in_set_conv_nth)
    from ev [OF j(1)] num [OF j(1)] event_number_bytes show "\<exists>t. event_of_run l (st l) e t \<and> complete_event L (\<lambda>l. eqp l ` S l) e t"
      unfolding event_of_run_def complete_event_def j(2) by (metis bytes_number_def add_diff_cancel_left' nat_int)
  qed
qed

section \<open>The files of all GDCs\<close>

lemma mset_concat_cong:
  assumes "mset xss = mset yss"
  shows "mset (concat xss) = mset (concat yss)"
proof -
  have "mset (concat zss) = \<Sum>\<^sub># (image_mset mset (mset zss))" for zss :: "'a list list"
    by (simp add: mset_concat sum_mset_sum_list flip: mset_map)
  then show ?thesis by (simp add: assms)
qed

text \<open>Files whose events have, together, the numbers \<open>1\<close> to \<open>N\<close>, each with the sub-event in its place.\<close>

lemma extract_main_run:
  fixes st :: sub_builder and l :: int
  assumes files: "getRawdataFiles dataPath listing = Inr fs" "map contents fs = map (\<lambda>f. Some (concat f)) fls"
    and fuel: "\<forall>f \<in> set fls. length (concat f) < fuel"
    and ev: "\<forall>e \<in> set (concat fls). \<exists>t. event_of_run l st e t"
    and num: "mset (map bytes_number (concat fls)) = mset (map (\<lambda>i. 1 + int i) [0..<length (sb_sent st)])"
    and N: "sb_sent st \<noteq> []" and ord: "iteration_order ord" and wr: "\<forall>k. wr k"
  shows "extract_main fuel ord wr dataPath listing contents l =
    Some (Returns \<lparr>ex_file = concat (map snd (sb_sent st)), ex_missing = []\<rparr>)"
proof -
  let ?N = "length (sb_sent st)"
  obtain T where T: "\<And>e. e \<in> set (concat fls) \<Longrightarrow> event_of_run l st e (T e)" using bchoice [OF ev] by blast
  then have Tf: "event_of_run l st e (T e)" if "f \<in> set fls" "e \<in> set f" for f e using that by auto
  define tss where "tss = map (map T) fls"
  define ts where "ts = concat tss"
  have bytes: "map event_bytes (map T f) = f" if "f \<in> set fls" for f
    using Tf [OF that] by (simp add: event_of_run_def map_idI)
  have c: "map contents fs = map (\<lambda>ts. Some (concat (map event_bytes ts))) tss"
    unfolding files(2) tss_def using bytes by simp
  have "list_all (extractable (word_of_int l)) ts' \<and> length (concat (map event_bytes ts')) < fuel" if ts': "ts' \<in> set tss" for ts'
  proof -
    obtain f where f: "f \<in> set fls" "ts' = map T f" using ts' by (auto simp: tss_def)
    then have "\<forall>e \<in> set f. extractable (word_of_int l) (T e)" using Tf [OF f(1)] by (auto simp: event_of_run_def)
    then show ?thesis using bytes [OF f(1)] fuel f by (simp add: list_all_iff)
  qed
  then have ok: "\<forall>ts' \<in> set tss. list_all (extractable (word_of_int l)) ts' \<and> length (concat (map event_bytes ts')) < fuel" by blast
  have ts: "ts = map T (concat fls)" by (simp add: ts_def tss_def map_concat)
  then have numbers: "map event_number ts = map bytes_number (concat fls)"
    using T by (simp add: event_of_run_def del: set_concat)
  have sorted: "sort (map event_number ts) = map (\<lambda>i. 1 + int i) [0..<?N]"
    unfolding numbers using num by (intro properties_for_sort) (simp_all add: sorted_wrt_map sorted_iff_nth_mono)
  have "distinct (map (\<lambda>i. 1 + int i) [0..<?N])" by (simp add: distinct_map inj_on_def)
  then have dist: "distinct (map event_number ts)" unfolding sorted [symmetric] by simp
  have "length ts = ?N" using arg_cong [OF sorted, of length] by simp
  with N have ne: "ts \<noteq> []" by auto
  from extract_main_trees [OF files(1) c ok ts_def ne dist ord wr] obtain miss where
      main: "extract_main fuel ord wr dataPath listing contents l =
        Some (Returns \<lparr>ex_file = concat (map (sub_bytes (word_of_int l)) (sort_key event_number ts)), ex_missing = miss\<rparr>)"
      and miss: "miss = [] \<longleftrightarrow> (\<exists>i. sort (map event_number ts) = [i..i + int (length ts) - 1])" by blast
  have "map (\<lambda>i. 1 + int i) [0..<?N] = [1..1 + int (length ts) - 1]"
    unfolding \<open>length ts = ?N\<close> by (intro nth_equalityI) simp_all
  then have "miss = []" unfolding miss sorted by blast
  have "sub_bytes (word_of_int l) t = snd (sb_sent st ! nat (event_number t - 1))" if "t \<in> set (sort_key event_number ts)" for t
    using that Tf by (auto simp: ts event_of_run_def)
  then have "map (sub_bytes (word_of_int l)) (sort_key event_number ts) =
      map (\<lambda>k. snd (sb_sent st ! nat (k - 1))) (map event_number (sort_key event_number ts))" by simp
  also have "\<dots> = map snd (sb_sent st)"
    unfolding sort_map_key [symmetric] sorted by (intro nth_equalityI) simp_all
  finally show ?thesis using main \<open>miss = []\<close> by simp
qed

text \<open>
  C2. Cutting the data of one LDC out of the files of a run gives back what the LDC sent. Let every LDC of \<open>L\<close>
  send the sub-events of its equipments' data round robin to \<open>n\<close> GDCs, all LDCs the same number of them; let the GDCs receive
  them in any chunks and any interleaving and write their files. When the directory holds these files, in any order, the
  tool run for LDC \<open>l\<close> ends, writes exactly the bytes that \<open>l\<close> sent, in the order it sent them, and warns of no missing
  event.
\<close>

theorem test_data_are_what_the_ldc_sent:
  fixes n N :: nat and L :: "int set" and cfg :: "int \<Rightarrow> LDCConfiguration"
  assumes L: "finite L" "L \<noteq> {}" "\<forall>l \<in> L. 0 \<le> l \<and> l < 2 ^ 32 \<and> ldc_ID (cfg l) = l" and n: "0 < n"
    and cx: "\<forall>l \<in> L. cx_runNumber (cx l) = Some run \<and> cx_nEnabledEquipments (cx l) = Some (int (card (S l))) \<and>
      finite (S l) \<and> S l \<noteq> {}"
    and xs: "\<forall>l \<in> L. (\<forall>x \<in> set (xs l). \<not> ed_Error (fst x)) \<and> in_order (\<lambda>j. 1 + int j) (S l) (d l) (map message_of (xs l))"
    and st: "\<forall>l \<in> L. readSubEvents (ord l) (cx l) (cfg l) n (xs l) sub_builder_init = Ok (st l)"
    and small: "\<forall>l \<in> L. length (sb_sent (st l)) < 2 ^ 32 - 1 \<and> (\<forall>(i, b) \<in> set (sb_sent (st l)). length b < 2 ^ 32)"
    and N: "\<forall>l \<in> L. length (sb_sent (st l)) = N" "0 < N"
    and d: "\<forall>l \<in> L. \<forall>s \<in> S l. \<forall>i. d l s i = addEquipmentHeader (raw l s i) (eqp l s)"
    and ord: "\<forall>l \<in> L. iteration_order (ord l)" "iteration_order gord" "iteration_order mord"
    and cap: "\<forall>k. k \<le> cap k"
    and conn: "\<forall>g < n. \<forall>l \<in> L. concat (cs g l) = concat (sub_events_for g (st l)) \<and>
      handle_chunks cap (Some (int n)) (cs g l) conn_init = Ok (conn g l)"
    and ys: "\<forall>g < n. merges L (conn g) (ys g)" and ldcs: "countEnabledLDCs ldcs = card L"
    and gdc: "\<forall>g < n. gx_writeOutput (gx g) \<and> gx_maxFilesize (gx g) = Some (maxsize g) \<and> 0 \<le> maxsize g \<and>
      readData gord (gx g) (gid g) ldcs (ys g) = Some (gb g) \<and> (\<forall>e \<in> set (concat (gb_binary (gb g))). length e \<le> 2 ^ 30)"
    and files: "getRawdataFiles dataPath listing = Inr fs" "map contents fs = map (\<lambda>f. Some (concat f)) fls"
      "mset fls = mset (concat (map (\<lambda>g. gb_binary (gb g)) [0..<n]))"
    and fuel: "\<forall>f \<in> set fls. length (concat f) < fuel" and wr: "\<forall>k. wr k" and l: "l \<in> L"
  shows "extract_main fuel mord wr dataPath listing contents l =
    Some (Returns \<lparr>ex_file = concat (map snd (sb_sent (st l))), ex_missing = []\<rparr>)"
proof (rule extract_main_run [OF files(1,2) fuel])
  have g: "map bytes_number (concat (gb_binary (gb g))) = map (\<lambda>i. 1 + int i) (filter (\<lambda>i. i mod n = g) [0..<N])"
      "\<forall>e \<in> set (concat (gb_binary (gb g))). \<exists>t. event_of_run l (st l) e t" if "g < n" for g
  proof -
    have c: "\<forall>l \<in> L. concat (cs g l) = concat (sub_events_for g (st l)) \<and>
        handle_chunks cap (Some (int n)) (cs g l) conn_init = Ok (conn g l)" "merges L (conn g) (ys g)"
        "gx_writeOutput (gx g)" "gx_maxFilesize (gx g) = Some (maxsize g)" "0 \<le> maxsize g"
        "readData gord (gx g) (gid g) ldcs (ys g) = Some (gb g)" "\<forall>e \<in> set (concat (gb_binary (gb g))). length e \<le> 2 ^ 30"
      using conn ys gdc that by blast+
    note run = gdc_files [OF L that cx xs st small cap c(1-5) ldcs N(1) ord(1,2) d c(6,7) l]
    show "map bytes_number (concat (gb_binary (gb g))) = map (\<lambda>i. 1 + int i) (filter (\<lambda>i. i mod n = g) [0..<N])"
      "\<forall>e \<in> set (concat (gb_binary (gb g))). \<exists>t. event_of_run l (st l) e t" using run by blast+
  qed
  have fls: "set fls = (\<Union>g < n. set (gb_binary (gb g)))" using mset_eq_setD [OF files(3)] by auto
  then have "set (concat fls) = (\<Union>g < n. set (concat (gb_binary (gb g))))" by auto
  then show "\<forall>e \<in> set (concat fls). \<exists>t. event_of_run l (st l) e t" using g(2) by auto
  have "mset (map bytes_number (concat fls)) = mset (map bytes_number (concat (concat (map (\<lambda>g. gb_binary (gb g)) [0..<n]))))"
    unfolding mset_map mset_concat_cong [OF files(3)] ..
  also have "map bytes_number (concat (concat (map (\<lambda>g. gb_binary (gb g)) [0..<n]))) =
      concat (map (\<lambda>g. map bytes_number (concat (gb_binary (gb g)))) [0..<n])"
    by (induction n) simp_all
  also have "\<dots> = map (\<lambda>i. 1 + int i) (concat (map (\<lambda>g. filter (\<lambda>i. i mod n = g) [0..<N]) [0..<n]))"
    unfolding map_concat map_map o_def using g(1) by (auto simp: map_concat intro!: arg_cong [of _ _ concat])
  finally show "mset (map bytes_number (concat fls)) = mset (map (\<lambda>i. 1 + int i) [0..<length (sb_sent (st l))])"
    using residues_partition [OF n, of "[0..<N]"] N l by (simp only: mset_map)
  show "sb_sent (st l) \<noteq> []" using N l by auto
qed (rule ord(3), rule wr)

text \<open>One LDC with one equipment, one event, one GDC; its file is closed and an empty one follows.\<close>

definition example_sub :: bytes where
  "example_sub = addLDCHeader (\<lambda>m. m) 0 [(5, addEquipmentHeader [1, 2, 3, 4] example_equipment)] 1 example_ldc 100"

definition example_input :: "(EquipmentData \<times> int \<times> write_result) list" where
  "example_input = [(\<lparr>ed_EventID = 1, ed_EquipmentID = 5, ed_Data = addEquipmentHeader [1, 2, 3, 4] example_equipment,
     ed_Error = False\<rparr>, 0, (1, None))]"

lemma length_example_sub: "length example_sub = 112"
  by (simp add: example_sub_def)

lemma example_run:
  shows "\<exists>st. readSubEvents (\<lambda>m. m) \<lparr>cx_runNumber = Some 100, cx_nEnabledEquipments = Some 1\<rparr> example_ldc 1
      example_input sub_builder_init = Ok st \<and> sb_sent st = [(0, example_sub)]"
    and "\<exists>c. handle_chunks (\<lambda>k. k) (Some 1) [example_sub] conn_init = Ok c \<and> merges {3} (\<lambda>_. c) [(ldc_data_of example_sub, 0)]"
    and "\<exists>gb. readData (\<lambda>m. m) example_gdc_context 1 [example_ldc] [(ldc_data_of example_sub, 0)] = Some gb \<and>
      gb_binary gb = [[addGDCHeader (\<lambda>m. m) 0 [(3, example_sub)] 1 1 100], []]"
    and "in_order (\<lambda>j. 1 + int j) {5} (\<lambda>_ _. addEquipmentHeader [1, 2, 3, 4] example_equipment) (map message_of example_input)"
    and "countEnabledLDCs [example_ldc] = 1" "ldc_ID example_ldc = 3"
proof -
  show "\<exists>st. readSubEvents (\<lambda>m. m) \<lparr>cx_runNumber = Some 100, cx_nEnabledEquipments = Some 1\<rparr> example_ldc 1
      example_input sub_builder_init = Ok st \<and> sb_sent st = [(0, example_sub)]"
    by (simp add: readSubEvents_recv_def mountSubEvent_def sendDataToGDC_def sub_builder_init_def Let_def example_sub_def
        example_input_def gm_empty_def gm_get_def gm_set_def gm_get_or_def gm_len_def)
  have "length example_sub < 2 ^ 32" by (simp add: length_example_sub)
  note v = addLDCHeader_valid [OF this [unfolded example_sub_def], folded example_sub_def]
  have "example_event 1 \<noteq> []" using example_event_valid [of 1] by (auto simp: valid_event_def)
  from handle_chunks_whole [of "\<lambda>k. k" "[example_sub]" "[example_sub]" "[]", OF _ _ _ example_event_valid [of 1] append_Nil [symmetric] this, of 1]
  obtain c where c: "handle_chunks (\<lambda>k. k) (Some 1) [example_sub] conn_init = Ok c" "lc_out c = [ldc_data_of example_sub]"
    using v(1) by auto
  show id: "ldc_ID example_ldc = 3" by (simp add: example_ldc_def)
  show "\<exists>c. handle_chunks (\<lambda>k. k) (Some 1) [example_sub] conn_init = Ok c \<and> merges {3} (\<lambda>_. c) [(ldc_data_of example_sub, 0)]"
    using v(3) id c by (intro exI [of _ c]) (simp add: merges_def ldc_data_of_def)
  show "in_order (\<lambda>j. 1 + int j) {5} (\<lambda>_ _. addEquipmentHeader [1, 2, 3, 4] example_equipment) (map message_of example_input)"
    by (auto simp: in_order_def of_source_def message_of_def example_input_def)
  show en: "countEnabledLDCs [example_ldc] = 1"
    by (simp add: countEnabledLDCs_def example_ldc_def example_equipment_def)
  have "ld_EventID (ldc_data_of example_sub) = 1" "ld_ldcID (ldc_data_of example_sub) = 3" "ld_Data (ldc_data_of example_sub) = example_sub"
    using v(2,3) id by (simp_all add: ldc_data_of_def)
  then show "\<exists>gb. readData (\<lambda>m. m) example_gdc_context 1 [example_ldc] [(ldc_data_of example_sub, 0)] = Some gb \<and>
      gb_binary gb = [[addGDCHeader (\<lambda>m. m) 0 [(3, example_sub)] 1 1 100], []]"
    using length_example_sub
    by (simp add: readData_def readData_recv_def mountEvent_def rotate_files_def en example_gdc_context_def gdc_builder_init_def
        writes_data_def send_current_def Let_def gm_empty_def gm_get_def gm_set_def gm_get_or_def gm_len_def)
qed

theorem test_data_are_what_the_ldc_sent_witness:
  "\<exists>gb. readData (\<lambda>m. m) example_gdc_context 1 [example_ldc] [(ldc_data_of example_sub, 0)] = Some gb \<and>
     extract_main 1000 (\<lambda>m. m) (\<lambda>_. True) ''d'' (Inr [(''a.rd'', False), (''b.rd'', False)])
       (\<lambda>f. Some (if f = ''d/a.rd'' then concat (gb_binary gb ! 0) else [])) 3 =
     Some (Returns \<lparr>ex_file = example_sub, ex_missing = []\<rparr>)"
proof -
  let ?cx = "\<lparr>cx_runNumber = Some 100, cx_nEnabledEquipments = Some 1\<rparr>"
  let ?d = "\<lambda>(l :: int) (s :: int) (j :: nat). addEquipmentHeader [1, 2, 3, 4] example_equipment"
  obtain st where st: "readSubEvents (\<lambda>m. m) ?cx example_ldc 1 example_input sub_builder_init = Ok st" "sb_sent st = [(0, example_sub)]"
    using example_run(1) by blast
  obtain c where c: "handle_chunks (\<lambda>k. k) (Some 1) [example_sub] conn_init = Ok c" "merges {3} (\<lambda>_. c) [(ldc_data_of example_sub, 0)]"
    using example_run(2) by blast
  obtain gb where gb: "readData (\<lambda>m. m) example_gdc_context 1 [example_ldc] [(ldc_data_of example_sub, 0)] = Some gb"
      "gb_binary gb = [[addGDCHeader (\<lambda>m. m) 0 [(3, example_sub)] 1 1 100], []]"
    using example_run(3) by blast
  have es: "sub_events_for 0 st = [example_sub]" by (simp add: sub_events_for_def st(2))
  have files: "getRawdataFiles ''d'' (Inr [(''a.rd'', False), (''b.rd'', False)]) = Inr [''d/a.rd'', ''d/b.rd'']"
    by (simp add: getRawdataFiles_def has_suffix_def)
  have "extract_main 1000 (\<lambda>m. m) (\<lambda>_. True) ''d'' (Inr [(''a.rd'', False), (''b.rd'', False)])
       (\<lambda>f. Some (if f = ''d/a.rd'' then concat (gb_binary gb ! 0) else [])) 3 =
     Some (Returns \<lparr>ex_file = concat (map snd (sb_sent st)), ex_missing = []\<rparr>)"
    using test_data_are_what_the_ldc_sent [of "{3}" "\<lambda>_. example_ldc" 1 "\<lambda>_. ?cx" 100 "\<lambda>_. {5}" "\<lambda>_. example_input" ?d "\<lambda>_ m. m"
        "\<lambda>_. st" 1 "\<lambda>_ _ _. [1, 2, 3, 4]" "\<lambda>_ _. example_equipment" "\<lambda>m. m" "\<lambda>m. m" "\<lambda>k. k" "\<lambda>_ _. [example_sub]" "\<lambda>_ _. c"
        "\<lambda>_. [(ldc_data_of example_sub, 0)]" "[example_ldc]" "\<lambda>_. example_gdc_context" "\<lambda>_. 100" "\<lambda>_. 1" "\<lambda>_. gb" "''d''" "Inr [(''a.rd'', False), (''b.rd'', False)]"
        "[''d/a.rd'', ''d/b.rd'']" "\<lambda>f. Some (if f = ''d/a.rd'' then concat (gb_binary gb ! 0) else [])" "gb_binary gb" 1000 "\<lambda>_. True" 3]
      st es c example_run(4-6) gb files length_example_sub
    by (simp add: example_gdc_context_def) (simp add: example_input_def)
  with st(2) gb(1) show ?thesis by auto
qed

end
