(* ===== verification/Binary_Reader.thy ===== *)
theory Binary_Reader
  imports Event_Dump Ldc_Equipment
begin

text \<open>
  The reader of raw data files and the packet generators that the integration tests share:
  \<open>src/integration_tests/testhelpers/binary_reader.go\<close>, \<open>data.go\<close> and \<open>constants.go\<close>.

  The reader checks every size against the data, so its three loops end on any data and it never panics: it is a
  total function, unlike the walks of \<open>Event_Dump\<close>. A reader that returns \<open>nil, nil\<close> is \<open>Inr None\<close>, an error is \<open>Inl\<close>.
  The lemmas show that it reads event trees back, that the checks of the tests say what their names say, and what an LDC
  makes of the generated packets.
\<close>

section \<open>Definitions\<close>

subsection \<open>binary\_reader.go\<close>

record EquipmentEventData =
  ee_EquipmentID :: u32
  ee_EquipmentType :: u32
  ee_Size :: u32
  ee_Data :: bytes
  ee_Offset :: nat

record LDCEventData =
  le_LDCID :: u32
  le_EventID :: u32
  le_Size :: u32
  le_EquipmentData :: "EquipmentEventData list"
  le_Offset :: nat

record BinaryEvent =
  be_EventID :: u32
  be_GDCID :: u32
  be_RunNumber :: u32
  be_Size :: u32
  be_LDCData :: "LDCEventData list"
  be_RawData :: bytes
  be_Offset :: nat

definition readEquipmentData :: "bytes \<Rightarrow> nat \<Rightarrow> string + EquipmentEventData option" where
  "readEquipmentData data offset =
     (if offset + 28 > length data then Inr None
      else
        let equipSize = le32_at data offset
        in if equipSize = 0 \<or> offset + unat equipSize > length data then Inr None
           else if unat equipSize < 28 then Inl (''invalid equipment data size: '' @ show_u32 equipSize)
           else Inr (Some \<lparr>ee_EquipmentID = le32_at data (offset + 8), ee_EquipmentType = le32_at data (offset + 4),
                  ee_Size = equipSize, ee_Data = byte_slice (offset + 28) (unat equipSize - 28) data,
                  ee_Offset = offset\<rparr>))"

lemma readEquipmentData_size:
  assumes "readEquipmentData data offset = Inr (Some e)"
  shows "0 < unat (ee_Size e)"
  using assms unfolding readEquipmentData_def by (auto simp: Let_def unat_gt_0 split: if_splits)

function read_equipment_list ::
  "bytes \<Rightarrow> nat \<Rightarrow> nat \<Rightarrow> string + EquipmentEventData list" where
  "read_equipment_list data equipEnd equipStart =
     (if equipStart < equipEnd then
        (case readEquipmentData data equipStart of
           Inl err \<Rightarrow> Inl err
         | Inr None \<Rightarrow> Inr []
         | Inr (Some e) \<Rightarrow>
             (case read_equipment_list data equipEnd (equipStart + unat (ee_Size e)) of
                Inl err \<Rightarrow> Inl err
              | Inr es \<Rightarrow> Inr (e # es)))
      else Inr [])"
  by pat_completeness auto
termination
  by (relation "measure (\<lambda>(data, e, i). e - i)") (auto dest: readEquipmentData_size)

definition readLDCData :: "bytes \<Rightarrow> nat \<Rightarrow> string + LDCEventData option" where
  "readLDCData data offset =
     (if offset + 80 > length data then Inr None
      else
        let ldcSize = le32_at data offset
        in if ldcSize = 0 \<or> offset + unat ldcSize > length data then Inr None
           else case read_equipment_list data (offset + unat ldcSize) (offset + 80) of
                  Inl err \<Rightarrow> Inl err
                | Inr es \<Rightarrow> Inr (Some \<lparr>le_LDCID = le32_at data (offset + 64), le_EventID = le32_at data (offset + 24),
                    le_Size = ldcSize, le_EquipmentData = es, le_Offset = offset\<rparr>))"

lemma readLDCData_size:
  assumes "readLDCData data offset = Inr (Some l)"
  shows "0 < unat (le_Size l)"
  using assms unfolding readLDCData_def
  by (auto simp: Let_def unat_gt_0 simp del: read_equipment_list.simps split: if_splits sum.splits)

function read_ldc_list :: "bytes \<Rightarrow> nat \<Rightarrow> nat \<Rightarrow> string + LDCEventData list" where
  "read_ldc_list data ldcEnd ldcStart =
     (if ldcStart < ldcEnd then
        (case readLDCData data ldcStart of
           Inl err \<Rightarrow> Inl err
         | Inr None \<Rightarrow> Inr []
         | Inr (Some l) \<Rightarrow>
             (case read_ldc_list data ldcEnd (ldcStart + unat (le_Size l)) of
                Inl err \<Rightarrow> Inl err
              | Inr ls \<Rightarrow> Inr (l # ls)))
      else Inr [])"
  by pat_completeness auto
termination
  by (relation "measure (\<lambda>(data, e, i). e - i)") (auto dest: readLDCData_size)

definition show_HEX8 :: "u32 \<Rightarrow> string" where
  "show_HEX8 w = map (\<lambda>i. let d = unat (drop_bit (4 * i) w) mod 16 in if d < 10 then digit_char d else char_of (55 + d))
     [7, 6, 5, 4, 3, 2, 1, 0]"

definition binary_readEvent :: "bytes \<Rightarrow> nat \<Rightarrow> string + BinaryEvent option" where
  "binary_readEvent data position =
     (if position + 80 > length data then Inr None
      else
        let eventSize = le32_at data position
        in if eventSize = 0 \<or> unat eventSize > length data - position then Inr None
           else if le32_at data (position + 4) \<noteq> 0xDA1E5AFE
           then Inl (''invalid magic number: expected 0xDA1E5AFE, got 0x'' @ show_HEX8 (le32_at data (position + 4)))
           else case read_ldc_list data (position + unat eventSize) (position + 80) of
                  Inl err \<Rightarrow> Inl err
                | Inr ls \<Rightarrow> Inr (Some \<lparr>be_EventID = le32_at data (position + 24), be_GDCID = le32_at data (position + 68),
                    be_RunNumber = le32_at data (position + 20), be_Size = eventSize, be_LDCData = ls,
                    be_RawData = byte_slice position (unat eventSize) data, be_Offset = position\<rparr>))"

lemma binary_readEvent_size:
  assumes "binary_readEvent data position = Inr (Some e)"
  shows "0 < unat (be_Size e)" and "position + 80 \<le> length data"
  using assms unfolding binary_readEvent_def
  by (auto simp: Let_def unat_gt_0 simp del: read_ldc_list.simps split: if_splits sum.splits)

function read_event_list :: "bytes \<Rightarrow> nat \<Rightarrow> string + BinaryEvent list" where
  "read_event_list data position =
     (if position < length data then
        (case binary_readEvent data position of
           Inl err \<Rightarrow> Inl (''error reading event at position '' @ show_nat position @ '': '' @ err)
         | Inr None \<Rightarrow> Inr []
         | Inr (Some e) \<Rightarrow>
             (case read_event_list data (position + unat (be_Size e)) of
                Inl err \<Rightarrow> Inl err
              | Inr es \<Rightarrow> Inr (e # es)))
      else Inr [])"
  by pat_completeness auto
termination
  by (relation "measure (\<lambda>(data, i). length data - i)") (auto dest: binary_readEvent_size(1))

declare read_equipment_list.simps [simp del] read_ldc_list.simps [simp del] read_event_list.simps [simp del]

definition ReadBinaryEventsFromFile :: "string + bytes \<Rightarrow> string + BinaryEvent list" where
  "ReadBinaryEventsFromFile file =
     (case file of
        Inl err \<Rightarrow> Inl (''failed to read file: '' @ err)
      | Inr data \<Rightarrow> read_event_list data 0)"

text \<open>\<open>filepath.Ext\<close> is the name from its last dot; \<open>Join\<close> of a directory and a name.\<close>

definition filepath_Ext :: "string \<Rightarrow> string" where
  "filepath_Ext s = (if CHR ''.'' \<in> set s then CHR ''.'' # rev (takeWhile (\<lambda>c. c \<noteq> CHR ''.'') (rev s)) else [])"

definition FindBinaryFiles :: "(string \<Rightarrow> string) \<Rightarrow> string + (string \<times> bool) list \<Rightarrow> string + string list" where
  "FindBinaryFiles join_dir listing =
     (case listing of
        Inl err \<Rightarrow> Inl (''failed to read directory: '' @ err)
      | Inr entries \<Rightarrow>
          Inr (map (\<lambda>(name, dir). join_dir name) (filter (\<lambda>(name, dir). \<not> dir \<and> filepath_Ext name = ''.rd'') entries)))"

definition ExtractEventIDs :: "BinaryEvent list \<Rightarrow> u32 list" where
  "ExtractEventIDs events = map be_EventID events"

text \<open>The checks return the first expected number that was not found; the message also lists those found.\<close>

definition VerifyEventHasAllEquipments :: "BinaryEvent \<Rightarrow> u32 list \<Rightarrow> u32 option" where
  "VerifyEventHasAllEquipments event expectedEquipIDs =
     (let foundEquipIDs = foldl (\<lambda>found ldc. foldl (\<lambda>found equip. gm_set (ee_EquipmentID equip) True found) found
            (le_EquipmentData ldc)) gm_empty (be_LDCData event)
      in find (\<lambda>expectedID. \<not> gm_get_or False foundEquipIDs expectedID) expectedEquipIDs)"

definition VerifyEventHasAllLDCs :: "BinaryEvent \<Rightarrow> u32 list \<Rightarrow> u32 option" where
  "VerifyEventHasAllLDCs event expectedLDCIDs =
     (let foundLDCIDs = foldl (\<lambda>found ldc. gm_set (le_LDCID ldc) True found) gm_empty (be_LDCData event)
      in find (\<lambda>expectedID. \<not> gm_get_or False foundLDCIDs expectedID) expectedLDCIDs)"

datatype pattern_error = TooShort nat | WrongWord nat u32 u32

fun verify_words :: "u32 \<Rightarrow> u32 \<Rightarrow> bytes \<Rightarrow> nat list \<Rightarrow> pattern_error option" where
  "verify_words equipmentID eventID data [] = None"
| "verify_words equipmentID eventID data (i # is) =
     (let word = be32_at data (i * 4)
      in if i = 1 \<and> word \<noteq> equipmentID then Some (WrongWord 1 equipmentID word)
         else if i = 2 \<and> word \<noteq> eventID then Some (WrongWord 2 eventID word)
         else verify_words equipmentID eventID data is)"

definition VerifyEquipmentDataPattern :: "EquipmentEventData \<Rightarrow> u32 \<Rightarrow> pattern_error option" where
  "VerifyEquipmentDataPattern equip eventID =
     (if length (ee_Data equip) < 12 then Some (TooShort (length (ee_Data equip)))
      else verify_words (ee_EquipmentID equip) eventID (ee_Data equip) [0..<length (ee_Data equip) div 4])"

definition CountEventsByGDC :: "BinaryEvent list \<Rightarrow> (u32, nat) go_map" where
  "CountEventsByGDC events = foldl (\<lambda>counts e. gm_set (be_GDCID e) (gm_get_or 0 counts (be_GDCID e) + 1) counts) gm_empty events"

definition CountEquipmentsInEvent :: "BinaryEvent \<Rightarrow> (u32, nat) go_map" where
  "CountEquipmentsInEvent event =
     foldl (\<lambda>counts ldc. foldl (\<lambda>counts e. gm_set (ee_EquipmentID e) (gm_get_or 0 counts (ee_EquipmentID e) + 1) counts) counts
       (le_EquipmentData ldc)) gm_empty (be_LDCData event)"

subsection \<open>data.go, constants.go\<close>

definition UDPDataPacketSize :: nat where
  "UDPDataPacketSize = 1400"

definition CalculateExpectedEventSize :: "nat \<Rightarrow> nat" where
  "CalculateExpectedEventSize numPackets = 20 * 4 + (7 * 4 + UDPDataPacketSize * numPackets + 4)"

text \<open>\<open>for j := from; j < 1400; j++ { packet[j] = byte((k + j) % 256) }\<close>, for a non-negative \<open>k\<close>.\<close>

definition fill_pattern :: "nat \<Rightarrow> nat \<Rightarrow> bytes \<Rightarrow> bytes" where
  "fill_pattern k from packet = foldl (\<lambda>p j. p[j := of_nat ((k + j) mod 256)]) packet [from..<UDPDataPacketSize]"

definition end_marker_packet :: bytes where
  "end_marker_packet = put_le32_at 0 0xfafafafa (replicate 4 0)"

definition GenerateTestEvent :: "int \<Rightarrow> nat \<Rightarrow> bytes list" where
  "GenerateTestEvent eventID numPackets =
     map (\<lambda>i. fill_pattern i 4 (put_be32_at 0 (of_nat i) (replicate UDPDataPacketSize 0))) [0..<numPackets] @
     [end_marker_packet]"

definition GenerateEventWithSequenceMismatch :: "bytes list" where
  "GenerateEventWithSequenceMismatch =
     [fill_pattern 0 4 (put_be32_at 0 0 (replicate UDPDataPacketSize 0)),
      fill_pattern 1 4 (put_be32_at 0 5 (replicate UDPDataPacketSize 0))]"

definition multi_packet :: "nat \<Rightarrow> int \<Rightarrow> nat \<Rightarrow> bytes" where
  "multi_packet eqID eventID i =
     fill_pattern (eqID + i) 12
       (put_be32_at 8 (word_of_int eventID) (put_be32_at 4 (of_nat eqID) (put_be32_at 0 (of_nat i)
         (replicate UDPDataPacketSize 0))))"

definition GenerateMultiEquipmentEvent :: "nat list \<Rightarrow> int \<Rightarrow> nat \<Rightarrow> (nat, bytes list) go_map" where
  "GenerateMultiEquipmentEvent equipmentIDs eventID numPackets =
     foldl (\<lambda>result eqID. gm_set eqID (map (multi_packet eqID eventID) [0..<numPackets] @ [end_marker_packet]) result)
       gm_empty equipmentIDs"

definition GenerateEventWithSequenceSkip :: "nat \<Rightarrow> int \<Rightarrow> nat \<Rightarrow> int \<Rightarrow> bytes list" where
  "GenerateEventWithSequenceSkip equipmentID eventID numPackets skipAtPacket =
     map (\<lambda>i. let seq = (if int i \<ge> skipAtPacket then i + 1 else i)
              in fill_pattern (equipmentID + i) 12
                   (put_le32_at 8 (word_of_int eventID) (put_le32_at 4 (of_nat equipmentID) (put_be32_at 0 (of_nat seq)
                     (replicate UDPDataPacketSize 0))))) [0..<numPackets] @
     [end_marker_packet]"

section \<open>The checks\<close>

lemma gm_get_fold_True:
  assumes "gm_invar m"
  shows "gm_invar (foldl (\<lambda>m x. gm_set (f x) True m) m xs)"
    and "gm_get_or False (foldl (\<lambda>m x. gm_set (f x) True m) m xs) k \<longleftrightarrow> gm_get_or False m k \<or> k \<in> f ` set xs"
  using assms
proof (induction xs arbitrary: m)
  case (Cons x xs)
  case 1
  then show ?case using Cons by (simp add: gomap_simps)
  case 2
  then show ?case using Cons.IH(2) [of "gm_set (f x) True m"] by (auto simp: gm_get_or_def gomap_simps)
qed simp_all

lemma find_missing: "find (\<lambda>x. \<not> P x) xs = None \<longleftrightarrow> (\<forall>x \<in> set xs. P x)"
  by (auto simp: find_None_iff)

lemma VerifyEventHasAllLDCs_None:
  "VerifyEventHasAllLDCs e ids = None \<longleftrightarrow> set ids \<subseteq> le_LDCID ` set (be_LDCData e)"
  unfolding VerifyEventHasAllLDCs_def Let_def find_missing gm_get_fold_True(2) [OF gm.invar_empty]
  by (auto simp: gm_get_or_def gomap_simps)

definition equipment_ids :: "BinaryEvent \<Rightarrow> u32 set" where
  "equipment_ids e = (\<Union>l \<in> set (be_LDCData e). ee_EquipmentID ` set (le_EquipmentData l))"

lemma foldl_nested: "foldl (\<lambda>m l. foldl f m (g l)) m ls = foldl f m (concat (map g ls))"
  by (induction ls arbitrary: m) simp_all

lemma VerifyEventHasAllEquipments_None:
  "VerifyEventHasAllEquipments e ids = None \<longleftrightarrow> set ids \<subseteq> equipment_ids e"
  unfolding VerifyEventHasAllEquipments_def Let_def find_missing foldl_nested gm_get_fold_True(2) [OF gm.invar_empty]
  by (fastforce simp: gm_get_or_def gomap_simps equipment_ids_def)

section \<open>Reading event trees\<close>

definition equipment_entry :: "nat \<Rightarrow> equipment_tree \<Rightarrow> EquipmentEventData" where
  "equipment_entry offset e = \<lparr>ee_EquipmentID = EquipmentId (fst e), ee_EquipmentType = EquipmentType (fst e),
     ee_Size = EquipmentSize (fst e), ee_Data = snd e, ee_Offset = offset\<rparr>"

fun entries :: "(nat \<Rightarrow> 'a \<Rightarrow> 'b) \<Rightarrow> ('a \<Rightarrow> bytes) \<Rightarrow> nat \<Rightarrow> 'a list \<Rightarrow> 'b list" where
  "entries entry bs offset [] = []"
| "entries entry bs offset (x # xs) = entry offset x # entries entry bs (offset + length (bs x)) xs"

abbreviation equipment_entries :: "nat \<Rightarrow> equipment_tree list \<Rightarrow> EquipmentEventData list" where
  "equipment_entries \<equiv> entries equipment_entry equipment_bytes"

definition ldc_entry :: "nat \<Rightarrow> ldc_tree \<Rightarrow> LDCEventData" where
  "ldc_entry offset l = \<lparr>le_LDCID = EventLdcId (fst l), le_EventID = EventId (fst l) ! 0, le_Size = EventSize (fst l),
     le_EquipmentData = equipment_entries (offset + 80) (snd l), le_Offset = offset\<rparr>"

abbreviation ldc_entries :: "nat \<Rightarrow> ldc_tree list \<Rightarrow> LDCEventData list" where
  "ldc_entries \<equiv> entries ldc_entry ldc_bytes"

definition event_entry :: "nat \<Rightarrow> event_tree \<Rightarrow> BinaryEvent" where
  "event_entry offset t = \<lparr>be_EventID = EventId (fst t) ! 0, be_GDCID = EventGdcId (fst t), be_RunNumber = EventRunNb (fst t),
     be_Size = EventSize (fst t), be_LDCData = ldc_entries (offset + 80) (snd t), be_RawData = event_bytes t,
     be_Offset = offset\<rparr>"

abbreviation event_entries :: "nat \<Rightarrow> event_tree list \<Rightarrow> BinaryEvent list" where
  "event_entries \<equiv> entries event_entry event_bytes"

text \<open>The words of a header in the middle of the data.\<close>

lemma word_in_header:
  assumes "k < length ws"
  shows "le32_at (pre @ words_le ws @ post) (length pre + 4 * k) = ws ! k"
  using le32_at_words_le [OF assms, of post] by (simp add: le32_at_append_right)

lemma header_words:
  fixes pre post :: bytes
  assumes wf: "event_header_wf h"
  defines "w \<equiv> \<lambda>k. le32_at (pre @ words_le (event_words h) @ post) (length pre + k)"
  shows "w 0 = EventSize h" "w 4 = EventMagic h" "w 20 = EventRunNb h" "w 24 = EventId h ! 0" "w 64 = EventLdcId h"
    "w 68 = EventGdcId h"
proof -
  obtain a b where id: "EventId h = [a, b]" using wf by (auto simp: event_header_wf_def dest: length_2_3_4(1))
  obtain c d e f where tr: "EventTriggerPattern h = [c, d, e, f]" using wf by (auto simp: event_header_wf_def dest: length_2_3_4(3))
  obtain x y z where at: "EventTypeAttribute h = [x, y, z]" using wf by (auto simp: event_header_wf_def dest: length_2_3_4(2))
  have k: "w (4 * k) = event_words h ! k" if "k < 20" for k
    unfolding w_def using that length_event_words [OF wf] by (intro word_in_header) simp
  show "w 0 = EventSize h" "w 4 = EventMagic h" "w 20 = EventRunNb h" "w 24 = EventId h ! 0" "w 64 = EventLdcId h"
    "w 68 = EventGdcId h"
    using k [of 0] k [of 1] k [of 5] k [of 6] k [of 16] k [of 17] by (simp_all add: event_words_def id tr at)
qed

lemma readEquipmentData_tree:
  assumes "equipment_ok e"
  shows "readEquipmentData (pre @ equipment_bytes e @ post) (length pre) = Inr (Some (equipment_entry (length pre) e))"
proof -
  let ?d = "pre @ equipment_bytes e @ post"
  have len: "length (equipment_bytes e) = 28 + length (snd e)" "unat (EquipmentSize (fst e)) = 28 + length (snd e)"
    and w: "length (words_le (equipment_words (fst e))) = 28"
    using assms length_equipment_bytes [OF assms] by (simp_all add: equipment_ok_def equipment_words_def)
  have k: "le32_at ?d (length pre + 4 * k) = equipment_words (fst e) ! k" if "k < 7" for k
    unfolding equipment_bytes_def append.assoc using that w by (intro word_in_header) simp
  have "byte_slice (length pre + 28) (length (snd e)) ?d = snd e"
    using w by (simp add: slice_behind equipment_bytes_def)
  then show ?thesis
    using k [of 0] k [of 1] k [of 2] len
    by (simp add: readEquipmentData_def Let_def equipment_words_def equipment_entry_def unat_eq_zero [symmetric])
qed

lemma read_equipment_list_tree:
  assumes "list_all equipment_ok es"
  shows "read_equipment_list (pre @ concat (map equipment_bytes es) @ post)
      (length pre + length (concat (map equipment_bytes es))) (length pre) = Inr (equipment_entries (length pre) es)"
  using assms
proof (induction es arbitrary: pre)
  case Nil
  then show ?case by (simp add: read_equipment_list.simps)
next
  case (Cons e es)
  then have e: "equipment_ok e" by simp
  let ?r = "concat (map equipment_bytes es) @ post"
  have "read_equipment_list ((pre @ equipment_bytes e) @ ?r) (length (pre @ equipment_bytes e) + length (concat (map equipment_bytes es)))
      (length (pre @ equipment_bytes e)) = Inr (equipment_entries (length (pre @ equipment_bytes e)) es)"
    using Cons by (intro Cons.IH) simp
  moreover have "unat (ee_Size (equipment_entry (length pre) e)) = length (equipment_bytes e)"
    using e by (simp add: equipment_entry_def equipment_ok_def)
  ultimately show ?case
    using readEquipmentData_tree [OF e, of pre ?r] length_equipment_bytes [OF e]
    by (subst read_equipment_list.simps) (simp add: add.assoc)
qed

lemma readLDCData_tree:
  assumes "ldc_ok l"
  shows "readLDCData (pre @ ldc_bytes l @ post) (length pre) = Inr (Some (ldc_entry (length pre) l))"
proof -
  let ?d = "pre @ ldc_bytes l @ post" and ?pre = "pre @ words_le (event_words (fst l))"
  have wf: "event_header_wf (fst l)" and ok: "list_all equipment_ok (snd l)" and size: "unat (EventSize (fst l)) = length (ldc_bytes l)"
    using assms by (simp_all add: ldc_ok_def)
  have d: "?d = pre @ words_le (event_words (fst l)) @ concat (map equipment_bytes (snd l)) @ post" by (simp add: ldc_bytes_def)
  have w: "length ?pre = length pre + 80" using wf by (simp add: length_event_words)
  have es: "read_equipment_list ?d (length pre + length (ldc_bytes l)) (length pre + 80) = Inr (equipment_entries (length pre + 80) (snd l))"
    using read_equipment_list_tree [OF ok, of ?pre post] w length_ldc_bytes [OF assms] by (simp add: d add.assoc)
  note hw = header_words [OF wf, of pre "concat (map equipment_bytes (snd l)) @ post", folded d]
  show ?thesis
    using hw es size length_ldc_bytes [OF assms]
    by (simp add: readLDCData_def Let_def ldc_entry_def unat_eq_zero [symmetric])
qed

lemma read_ldc_list_tree:
  assumes "list_all ldc_ok ls"
  shows "read_ldc_list (pre @ concat (map ldc_bytes ls) @ post)
      (length pre + length (concat (map ldc_bytes ls))) (length pre) = Inr (ldc_entries (length pre) ls)"
  using assms
proof (induction ls arbitrary: pre)
  case Nil
  then show ?case by (simp add: read_ldc_list.simps)
next
  case (Cons l ls)
  then have l: "ldc_ok l" by simp
  let ?r = "concat (map ldc_bytes ls) @ post"
  have "read_ldc_list ((pre @ ldc_bytes l) @ ?r) (length (pre @ ldc_bytes l) + length (concat (map ldc_bytes ls)))
      (length (pre @ ldc_bytes l)) = Inr (ldc_entries (length (pre @ ldc_bytes l)) ls)"
    using Cons by (intro Cons.IH) simp
  moreover have "unat (le_Size (ldc_entry (length pre) l)) = length (ldc_bytes l)"
    using l by (simp add: ldc_entry_def ldc_ok_def)
  ultimately show ?case
    using readLDCData_tree [OF l, of pre ?r] length_ldc_bytes [OF l]
    by (subst read_ldc_list.simps) (simp add: add.assoc)
qed

lemma binary_readEvent_tree:
  assumes "event_ok t" and "EventMagic (fst t) = EVENT_MAGIC_NUMBER"
  shows "binary_readEvent (pre @ event_bytes t @ post) (length pre) = Inr (Some (event_entry (length pre) t))"
proof -
  let ?d = "pre @ event_bytes t @ post" and ?pre = "pre @ words_le (event_words (fst t))"
  have wf: "event_header_wf (fst t)" and ok: "list_all ldc_ok (snd t)" and size: "unat (EventSize (fst t)) = length (event_bytes t)"
    using assms by (simp_all add: event_ok_def)
  have d: "?d = pre @ words_le (event_words (fst t)) @ concat (map ldc_bytes (snd t)) @ post" by (simp add: event_bytes_def)
  have w: "length ?pre = length pre + 80" using wf by (simp add: length_event_words)
  have ls: "read_ldc_list ?d (length pre + length (event_bytes t)) (length pre + 80) = Inr (ldc_entries (length pre + 80) (snd t))"
    using read_ldc_list_tree [OF ok, of ?pre post] w length_event_bytes [OF assms(1)] by (simp add: d add.assoc)
  note hw = header_words [OF wf, of pre "concat (map ldc_bytes (snd t)) @ post", folded d]
  have "byte_slice (length pre) (length (event_bytes t)) ?d = event_bytes t" by (simp add: slice_front)
  then show ?thesis
    using hw ls size length_event_bytes [OF assms(1)] assms(2)
    by (simp add: binary_readEvent_def Let_def event_entry_def EVENT_MAGIC_NUMBER_def unat_eq_zero [symmetric])
qed

lemma read_event_list_tree:
  assumes "list_all event_ok ts" "\<forall>t \<in> set ts. EventMagic (fst t) = EVENT_MAGIC_NUMBER"
  shows "read_event_list (pre @ concat (map event_bytes ts)) (length pre) = Inr (event_entries (length pre) ts)"
  using assms
proof (induction ts arbitrary: pre)
  case Nil
  then show ?case by (simp add: read_event_list.simps)
next
  case (Cons t ts)
  then have t: "event_ok t" "EventMagic (fst t) = EVENT_MAGIC_NUMBER" by simp_all
  have "read_event_list ((pre @ event_bytes t) @ concat (map event_bytes ts)) (length (pre @ event_bytes t)) =
      Inr (event_entries (length (pre @ event_bytes t)) ts)"
    using Cons by (intro Cons.IH) simp_all
  moreover have "unat (be_Size (event_entry (length pre) t)) = length (event_bytes t)"
    using t(1) by (simp add: event_entry_def event_ok_def)
  ultimately show ?case
    using binary_readEvent_tree [OF t, of pre "concat (map event_bytes ts)"] length_event_bytes [OF t(1)]
    by (subst read_event_list.simps) simp
qed

section \<open>The generated packets\<close>

lemma fold_update:
  "length (foldl (\<lambda>p j. p[j := f j]) q js) = length q"
  "i \<notin> set js \<Longrightarrow> foldl (\<lambda>p j. p[j := f j]) q js ! i = q ! i"
  by (induction js arbitrary: q) auto

lemma length_fill_pattern [simp]: "length (fill_pattern k from q) = length q"
  by (simp add: fill_pattern_def fold_update)

lemma counter_fill_pattern: "4 \<le> from \<Longrightarrow> be32_at (fill_pattern k from q) 0 = be32_at q 0"
  by (simp add: fill_pattern_def be32_at_def fold_update)

lemma length_put_be32_at [simp]: "i + 4 \<le> length q \<Longrightarrow> length (put_be32_at i w q) = length q"
  by (simp add: put_be32_at_def)

lemma counter_put:
  "4 \<le> length q \<Longrightarrow> be32_at (put_be32_at 0 w q) 0 = w"
  "4 \<le> i \<Longrightarrow> i + 4 \<le> length q \<Longrightarrow> be32_at (put_be32_at i w q) 0 = be32_at q 0"
  "4 \<le> i \<Longrightarrow> i + 4 \<le> length q \<Longrightarrow> be32_at (put_le32_at i w q) 0 = be32_at q 0"
  by (simp_all add: put_be32_at_def put_le32_at_def put_at_def be32_at_put_be32)
    (simp_all add: be32_at_def nth_append)

lemma end_marker_END: "end_marker_packet = put_le32 END_WORD"
  by (simp add: end_marker_packet_def put_le32_at_def put_at_def END_WORD_def)

text \<open>The data packets of a generated event.\<close>

definition test_segment :: "nat \<Rightarrow> bytes list" where
  "test_segment n = map (\<lambda>i. fill_pattern i 4 (put_be32_at 0 (of_nat i) (replicate UDPDataPacketSize 0))) [0..<n]"

definition skip_segment :: "nat \<Rightarrow> int \<Rightarrow> nat \<Rightarrow> int \<Rightarrow> bytes list" where
  "skip_segment eqID ev n k = butlast (GenerateEventWithSequenceSkip eqID ev n k)"

lemma generated_streams:
  "concat (map (\<lambda>(ev, n). GenerateTestEvent ev n) xs) = event_stream (map (test_segment \<circ> snd) xs)"
  "GenerateEventWithSequenceSkip eqID ev n k = event_stream [skip_segment eqID ev n k]"
proof -
  show "concat (map (\<lambda>(ev, n). GenerateTestEvent ev n) xs) = event_stream (map (test_segment \<circ> snd) xs)"
    by (induction xs) (auto simp: event_stream_def GenerateTestEvent_def test_segment_def end_marker_END)
  show "GenerateEventWithSequenceSkip eqID ev n k = event_stream [skip_segment eqID ev n k]"
    by (simp add: event_stream_def skip_segment_def GenerateEventWithSequenceSkip_def end_marker_END)
qed

lemma test_segment_ok: "seg_ok 0 (test_segment n)" "\<forall>p \<in> set (test_segment n). \<not> is_end p"
  "length (concat (test_segment n)) = UDPDataPacketSize * n"
proof -
  let ?f = "\<lambda>i. fill_pattern i 4 (put_be32_at 0 (of_nat i) (replicate UDPDataPacketSize 0))"
  have len: "length (?f i) = UDPDataPacketSize" for i by (simp add: UDPDataPacketSize_def)
  then have "4 < length (?f i)" for i by (simp only: UDPDataPacketSize_def)
  from seg_ok_upt [of ?f 0 n, OF this] show "seg_ok 0 (test_segment n)"
    by (simp add: test_segment_def counter_fill_pattern counter_put UDPDataPacketSize_def)
  show "\<forall>p \<in> set (test_segment n). \<not> is_end p"
    using len by (auto simp: test_segment_def is_end_def UDPDataPacketSize_def)
  show "length (concat (test_segment n)) = UDPDataPacketSize * n"
    using len by (simp add: test_segment_def length_concat o_def sum_list_triv)
qed

lemma skip_segment_bad:
  assumes "0 \<le> k" "k < int n"
  shows "\<not> seg_ok 0 (skip_segment eqID ev n k)" "\<forall>p \<in> set (skip_segment eqID ev n k). \<not> is_end p"
proof -
  define seq where "seq = (\<lambda>i. if int i \<ge> k then i + 1 else i)"
  let ?f = "\<lambda>i. fill_pattern (eqID + i) 12 (put_le32_at 8 (word_of_int ev) (put_le32_at 4 (of_nat eqID)
      (put_be32_at 0 (of_nat (seq i)) (replicate UDPDataPacketSize 0))))"
  have seg: "skip_segment eqID ev n k = map ?f [0..<n]"
    by (simp add: skip_segment_def GenerateEventWithSequenceSkip_def seq_def Let_def)
  have len: "length (?f i) = UDPDataPacketSize" for i by (simp add: UDPDataPacketSize_def)
  then have "4 < length (?f i)" for i by (simp only: UDPDataPacketSize_def)
  from seg_ok_upt [of ?f 0 n, OF this] have "seg_ok 0 (skip_segment eqID ev n k) \<longleftrightarrow> (\<forall>j < n. of_nat (seq j) = (of_nat j :: u32))"
    by (simp add: seg counter_fill_pattern counter_put UDPDataPacketSize_def Ball_def)
  moreover have "of_nat (seq (nat k)) \<noteq> (of_nat (nat k) :: u32)" using assms by (simp add: seq_def)
  ultimately show "\<not> seg_ok 0 (skip_segment eqID ev n k)" using assms by auto
  show "\<forall>p \<in> set (skip_segment eqID ev n k). \<not> is_end p"
    using len by (auto simp: seg is_end_def UDPDataPacketSize_def)
qed

text \<open>
  C16. The packets the tests generate are what the tests take them for. An LDC that receives generated events asks for no
  stop and emits one block for each, numbered from one, of exactly the size that \<open>CalculateExpectedEventSize\<close> predicts for
  its sub-event (less the header of the LDC); of an event with a skipped sequence number it emits nothing, and asks for a stop.
\<close>

theorem generated_packets_read_out:
  fixes xs :: "(int \<times> nat) list"
  assumes "0 \<le> k" "k < int n"
  shows "b_stops (build_packets e (concat (map (\<lambda>(ev, n). GenerateTestEvent ev n) xs))) = [] \<and>
    map ed_EventID (b_out (build_packets e (concat (map (\<lambda>(ev, n). GenerateTestEvent ev n) xs)))) =
      map (\<lambda>i. 1 + int i) [0..<length xs] \<and>
    map (\<lambda>d. length (ed_Data d) + 80) (b_out (build_packets e (concat (map (\<lambda>(ev, n). GenerateTestEvent ev n) xs)))) =
      map (CalculateExpectedEventSize \<circ> snd) xs \<and>
    b_out (build_packets e (GenerateEventWithSequenceSkip eqID ev n k)) = [] \<and>
    b_stops (build_packets e (GenerateEventWithSequenceSkip eqID ev n k)) \<noteq> []"
proof -
  let ?segs = "map (test_segment \<circ> snd) xs"
  have ok: "\<forall>seg \<in> set ?segs. seg_ok 0 seg" and ne: "\<forall>seg \<in> set ?segs. \<forall>p \<in> set seg. \<not> is_end p"
    using test_segment_ok(1,2) by auto
  note good = build_packets_stream [OF ne, of e]
  have "map (\<lambda>d. length (ed_Data d) + 80) (emitted e 1 ?segs) = map (\<lambda>b. length b + 80) (map ed_Data (emitted e 1 ?segs))" by simp
  also have "\<dots> = map (CalculateExpectedEventSize \<circ> snd) xs"
    unfolding emitted_all(1) [OF ok] by (simp add: CalculateExpectedEventSize_def test_segment_ok(3))
  finally have sizes: "map (\<lambda>d. length (ed_Data d) + 80) (emitted e 1 ?segs) = map (CalculateExpectedEventSize \<circ> snd) xs" .
  note bad = skip_segment_bad [OF assms, of eqID ev]
  have "b_out (build_packets e (event_stream [skip_segment eqID ev n k])) = emitted e 1 [skip_segment eqID ev n k] \<and>
      b_stops (build_packets e (event_stream [skip_segment eqID ev n k])) \<noteq> []"
    using build_packets_stream [of "[skip_segment eqID ev n k]" e] bad by simp
  then show ?thesis
    unfolding generated_streams using good ok emitted_all(2) [OF ok, of e 1] sizes bad(1) by (simp add: emitted_Cons)
qed

theorem generated_packets_read_out_witness:
  "map ed_EventID (b_out (build_packets example_equipment (concat (map (\<lambda>(ev, n). GenerateTestEvent ev n) [(1, 3), (2, 0)])))) = [1, 2]"
  using generated_packets_read_out [of 1 2 example_equipment "[(1, 3), (2, 0)]" 5 7] by (simp add: numeral_2_eq_2)

end
