(* ===== verification/Check_Flow.thy ===== *)
theory Check_Flow
  imports Extract_Flow Binary_Reader
begin

text \<open>
  The checks of the end-to-end tests (\<open>src/integration_tests/testhelpers/binary_reader.go\<close>) on the files of a run: what the
  tests look for in a few events holds for every event of every run.
\<close>

lemma entries_offsets: "\<exists>os. length os = length xs \<and> entries entry bs offset xs = map2 entry os xs"
proof (induction xs arbitrary: offset)
  case (Cons x xs)
  then obtain os where "length os = length xs" "entries entry bs (offset + length (bs x)) xs = map2 entry os xs" by blast
  then show ?case by (intro exI [of _ "offset # os"]) simp
qed simp

lemma entries_map:
  assumes "\<And>off x. f (entry off x) = g x"
  shows "map f (entries entry bs offset xs) = map g xs"
  using assms by (induction xs arbitrary: offset) simp_all

lemma complete_entry:
  assumes "complete_event L es e t" and "set lids \<subseteq> word_of_int ` L"
    and "set eids \<subseteq> (\<Union>l \<in> L. (\<lambda>q. word_of_int (eq_ID q)) ` es l)"
  shows "VerifyEventHasAllLDCs (event_entry off t) lids = None"
    and "VerifyEventHasAllEquipments (event_entry off t) eids = None"
proof -
  have ids: "map le_LDCID (ldc_entries k ls) = map (EventLdcId \<circ> fst) ls" for k ls
    by (rule entries_map) (simp add: ldc_entry_def)
  have eqs: "map ee_EquipmentID (equipment_entries k bs) = map (EquipmentId \<circ> fst) bs" for k bs
    by (rule entries_map) (simp add: equipment_entry_def)
  have blocks: "map (\<lambda>l. map ee_EquipmentID (le_EquipmentData l)) (ldc_entries k ls) = map (map (EquipmentId \<circ> fst) \<circ> snd) ls" for k ls
    by (rule entries_map) (simp add: ldc_entry_def eqs)
  let ?ls = "be_LDCData (event_entry off t)"
  have "le_LDCID ` set ?ls = set (map le_LDCID ?ls)" by simp
  also have "\<dots> = (EventLdcId \<circ> fst) ` set (snd t)" unfolding event_entry_def BinaryEvent.simps ids by simp
  finally have lds: "le_LDCID ` set ?ls = (EventLdcId \<circ> fst) ` set (snd t)" .
  have sub: "\<exists>u \<in> set (snd t). EventLdcId (fst u) = word_of_int l \<and> has_equipments (es l) u" if "l \<in> L" for l
    using assms(1) that unfolding complete_event_def by blast
  have "word_of_int l \<in> (EventLdcId \<circ> fst) ` set (snd t)" if "l \<in> L" for l
    using sub [OF that] by (metis comp_apply image_eqI)
  then have "word_of_int ` L \<subseteq> le_LDCID ` set ?ls" unfolding lds by blast
  then show "VerifyEventHasAllLDCs (event_entry off t) lids = None"
    unfolding VerifyEventHasAllLDCs_None using assms(2) by blast
  have "equipment_ids (event_entry off t) = \<Union> (set (map (set \<circ> (\<lambda>l. map ee_EquipmentID (le_EquipmentData l))) ?ls))"
    by (simp add: equipment_ids_def)
  also have "\<dots> = (\<Union>u \<in> set (snd t). (EquipmentId \<circ> fst) ` set (snd u))"
    unfolding map_map [symmetric] event_entry_def BinaryEvent.simps blocks by simp
  finally have eids: "equipment_ids (event_entry off t) = (\<Union>u \<in> set (snd t). (EquipmentId \<circ> fst) ` set (snd u))" .
  have "word_of_int (eq_ID q) \<in> equipment_ids (event_entry off t)" if lq: "l \<in> L" "q \<in> es l" for l q
  proof -
    obtain u where "u \<in> set (snd t)" "has_equipments (es l) u" using sub [OF lq(1)] by blast
    moreover then obtain b where "b \<in> set (snd u)" "EquipmentId (fst b) = word_of_int (eq_ID q)"
      using lq(2) unfolding has_equipments_def by blast
    ultimately show ?thesis unfolding eids by (intro UN_I [of u] image_eqI [of _ _ b]) simp_all
  qed
  then have "(\<Union>l \<in> L. (\<lambda>q. word_of_int (eq_ID q)) ` es l) \<subseteq> equipment_ids (event_entry off t)" by blast
  then show "VerifyEventHasAllEquipments (event_entry off t) eids = None"
    unfolding VerifyEventHasAllEquipments_None using assms(3) by blast
qed

text \<open>Reading one file of complete events.\<close>

lemma read_complete:
  assumes "\<forall>e \<in> set f. \<exists>t. complete_event L es e t" and ids: "set lids \<subseteq> word_of_int ` L"
    "set eids \<subseteq> (\<Union>l \<in> L. (\<lambda>q. word_of_int (eq_ID q)) ` es l)"
  shows "\<exists>evs. ReadBinaryEventsFromFile (Inr (concat f)) = Inr evs \<and> map be_RawData evs = f \<and>
    map uint (ExtractEventIDs evs) = map bytes_number f \<and>
    (\<forall>ev \<in> set evs. VerifyEventHasAllLDCs ev lids = None \<and> VerifyEventHasAllEquipments ev eids = None)"
proof -
  obtain T where T: "\<And>e. e \<in> set f \<Longrightarrow> complete_event L es e (T e)" using bchoice [OF assms(1)] by blast
  let ?ts = "map T f"
  have b: "map event_bytes ?ts = f" using T by (simp add: complete_event_def map_idI)
  have "list_all event_ok ?ts" "\<forall>t \<in> set ?ts. EventMagic (fst t) = EVENT_MAGIC_NUMBER"
    using T by (auto simp: complete_event_def list_all_iff)
  from read_event_list_tree [OF this, of "[]"]
  have "ReadBinaryEventsFromFile (Inr (concat f)) = Inr (event_entries 0 ?ts)"
    unfolding b by (simp add: ReadBinaryEventsFromFile_def)
  moreover have "map be_RawData (event_entries 0 ?ts) = f"
    by (subst entries_map [where g = event_bytes]) (simp_all add: event_entry_def b del: map_map)
  moreover have "map (uint \<circ> be_EventID) (event_entries 0 ?ts) = map event_number ?ts"
    by (rule entries_map) (simp add: event_entry_def event_number_def)
  then have "map uint (ExtractEventIDs (event_entries 0 ?ts)) = map bytes_number f"
    using T by (simp add: ExtractEventIDs_def complete_event_def)
  moreover have "VerifyEventHasAllLDCs ev lids = None \<and> VerifyEventHasAllEquipments ev eids = None"
    if ev: "ev \<in> set (event_entries 0 ?ts)" for ev
  proof -
    obtain os where "event_entries 0 ?ts = map2 event_entry os ?ts" using entries_offsets by blast
    then obtain off x where x: "(off, x) \<in> set (zip os ?ts)" "ev = event_entry off x" using ev by auto
    then obtain e where "e \<in> set f" "ev = event_entry off (T e)" using set_zip_rightD [OF x(1)] by auto
    then show ?thesis by (simp add: complete_entry [OF T ids])
  qed
  ultimately show ?thesis by (intro exI [of _ "event_entries 0 ?ts"]) simp
qed

text \<open>
  C3. The checks of the end-to-end tests hold for every run. Under the conditions of the data flow theorem, with the same number
  of sub-events sent by every LDC, the tests' reader reads each file of GDC \<open>g\<close> without an error: all events of all files,
  in order, have the numbers \<open>1 + i\<close> with \<open>i mod n = g\<close>, below the number of sub-events sent, and every event passes the
  checks for any list of LDCs and of equipments of the run.
\<close>

theorem integration_checks_pass:
  fixes n N g :: nat and L :: "int set" and cfg :: "int \<Rightarrow> LDCConfiguration"
  assumes L: "finite L" "L \<noteq> {}" "\<forall>l \<in> L. 0 \<le> l \<and> l < 2 ^ 32 \<and> ldc_ID (cfg l) = l" and g: "g < n"
    and cx: "\<forall>l \<in> L. cx_runNumber (cx l) = Some run \<and> cx_nEnabledEquipments (cx l) = Some (int (card (S l))) \<and>
      finite (S l) \<and> S l \<noteq> {}"
    and xs: "\<forall>l \<in> L. (\<forall>x \<in> set (xs l). \<not> ed_Error (fst x)) \<and> in_order (\<lambda>j. 1 + int j) (S l) (d l) (map message_of (xs l))"
    and st: "\<forall>l \<in> L. readSubEvents (ord l) (cx l) (cfg l) n (xs l) sub_builder_init = Ok (st l)"
    and small: "\<forall>l \<in> L. length (sb_sent (st l)) < 2 ^ 32 - 1 \<and> (\<forall>(i, b) \<in> set (sb_sent (st l)). length b < 2 ^ 32)"
    and cap: "\<forall>k. k \<le> cap k"
    and conn: "\<forall>l \<in> L. concat (cs l) = concat (sub_events_for g (st l)) \<and>
      handle_chunks cap (Some (int n)) (cs l) conn_init = Ok (conn l)"
    and ys: "merges L conn ys"
    and gdc: "gx_writeOutput gx" "gx_maxFilesize gx = Some maxsize" "0 \<le> maxsize" "countEnabledLDCs ldcs = card L"
    and N: "\<forall>l \<in> L. length (sb_sent (st l)) = N" and ord: "\<forall>l \<in> L. iteration_order (ord l)" "iteration_order gord"
    and d: "\<forall>l \<in> L. \<forall>s \<in> S l. \<forall>i. d l s i = addEquipmentHeader (raw l s i) (eqp l s)"
    and gb: "readData gord gx gid ldcs ys = Some gb" "\<forall>e \<in> set (concat (gb_binary gb)). length e \<le> 2 ^ 30"
    and ids: "set lids \<subseteq> word_of_int ` L" "set eids \<subseteq> (\<Union>l \<in> L. (\<lambda>q. word_of_int (eq_ID q)) ` eqp l ` S l)"
  shows "\<exists>evss. map (\<lambda>f. ReadBinaryEventsFromFile (Inr (concat f))) (gb_binary gb) = map Inr evss \<and>
    map (map be_RawData) evss = gb_binary gb \<and>
    map uint (ExtractEventIDs (concat evss)) = map (\<lambda>i. 1 + int i) (filter (\<lambda>i. i mod n = g) [0..<N]) \<and>
    (\<forall>ev \<in> set (concat evss). VerifyEventHasAllLDCs ev lids = None \<and> VerifyEventHasAllEquipments ev eids = None)"
proof -
  obtain l where "l \<in> L" using L(2) by blast
  note run = gdc_files [OF L g cx xs st small cap conn ys gdc N ord d gb this]
  have complete: "\<forall>e \<in> set f. \<exists>t. complete_event L (\<lambda>l. eqp l ` S l) e t" if "f \<in> set (gb_binary gb)" for f
    using run(2) that unfolding set_concat by blast
  have files: "\<forall>f \<in> set (gb_binary gb). \<exists>evs. ReadBinaryEventsFromFile (Inr (concat f)) = Inr evs \<and> map be_RawData evs = f \<and>
      map uint (ExtractEventIDs evs) = map bytes_number f \<and>
      (\<forall>ev \<in> set evs. VerifyEventHasAllLDCs ev lids = None \<and> VerifyEventHasAllEquipments ev eids = None)"
    by (intro ballI read_complete [OF complete ids])
  from bchoice [OF files] obtain E where E: "\<forall>f \<in> set (gb_binary gb). ReadBinaryEventsFromFile (Inr (concat f)) = Inr (E f) \<and>
      map be_RawData (E f) = f \<and> map uint (ExtractEventIDs (E f)) = map bytes_number f \<and>
      (\<forall>ev \<in> set (E f). VerifyEventHasAllLDCs ev lids = None \<and> VerifyEventHasAllEquipments ev eids = None)"
    by blast
  have "map uint (ExtractEventIDs (concat (map E (gb_binary gb)))) = concat (map (\<lambda>f. map uint (ExtractEventIDs (E f))) (gb_binary gb))"
    by (simp add: ExtractEventIDs_def map_concat o_def)
  also have "\<dots> = map bytes_number (concat (gb_binary gb))"
    using E unfolding map_concat by (intro arg_cong [of _ _ concat]) simp
  also note run(1)
  finally have nums: "map uint (ExtractEventIDs (concat (map E (gb_binary gb)))) =
      map (\<lambda>i. 1 + int i) (filter (\<lambda>i. i mod n = g) [0..<N])" .
  have "map (map be_RawData) (map E (gb_binary gb)) = gb_binary gb"
    unfolding map_map using E by (intro map_idI) simp
  moreover have "map (\<lambda>f. ReadBinaryEventsFromFile (Inr (concat f))) (gb_binary gb) = map Inr (map E (gb_binary gb))"
    using E by simp
  moreover have "\<forall>ev \<in> set (concat (map E (gb_binary gb))). VerifyEventHasAllLDCs ev lids = None \<and>
      VerifyEventHasAllEquipments ev eids = None" using E by auto
  ultimately show ?thesis using nums by blast
qed

theorem integration_checks_pass_witness:
  "\<exists>gb evss. readData (\<lambda>m. m) example_gdc_context 1 [example_ldc] [(ldc_data_of example_sub, 0)] = Some gb \<and>
     map (\<lambda>f. ReadBinaryEventsFromFile (Inr (concat f))) (gb_binary gb) = map Inr evss \<and>
     map uint (ExtractEventIDs (concat evss)) = [1] \<and>
     (\<forall>ev \<in> set (concat evss). VerifyEventHasAllLDCs ev [3] = None)"
proof -
  let ?cx = "\<lparr>cx_runNumber = Some 100, cx_nEnabledEquipments = Some 1\<rparr>"
  let ?d = "\<lambda>(l :: int) (s :: int) (j :: nat). addEquipmentHeader [1, 2, 3, 4] example_equipment"
  obtain st where st: "readSubEvents (\<lambda>m. m) ?cx example_ldc 1 example_input sub_builder_init = Ok st" "sb_sent st = [(0, example_sub)]"
    using example_run(1) by blast
  obtain c where c: "handle_chunks (\<lambda>k. k) (Some 1) [example_sub] conn_init = Ok c" "merges {3} (\<lambda>_. c) [(ldc_data_of example_sub, 0)]"
    using example_run(2) by blast
  obtain gb where gb: "readData (\<lambda>m. m) example_gdc_context 1 [example_ldc] [(ldc_data_of example_sub, 0)] = Some gb"
      "gb_binary gb = [[addGDCHeader (\<lambda>m. m) 0 [(3, example_sub)] 1 1 100], []]"
    using example_run(3) by blast
  have es: "sub_events_for 0 st = [example_sub]" by (simp add: sub_events_for_def st(2))
  have "\<exists>evss. map (\<lambda>f. ReadBinaryEventsFromFile (Inr (concat f))) (gb_binary gb) = map Inr evss \<and>
      map (map be_RawData) evss = gb_binary gb \<and>
      map uint (ExtractEventIDs (concat evss)) = map (\<lambda>i. 1 + int i) (filter (\<lambda>i. i mod 1 = 0) [0..<1]) \<and>
      (\<forall>ev \<in> set (concat evss). VerifyEventHasAllLDCs ev [3] = None \<and> VerifyEventHasAllEquipments ev [] = None)"
  proof (rule integration_checks_pass [of "{3}" "\<lambda>_. example_ldc" 0 1 "\<lambda>_. ?cx" 100 "\<lambda>_. {5}" "\<lambda>_. example_input" ?d "\<lambda>_ m. m"
        "\<lambda>_. st" "\<lambda>k. k" "\<lambda>_. [example_sub]" "\<lambda>_. c" "[(ldc_data_of example_sub, 0)]" example_gdc_context 100 "[example_ldc]" 1
        "\<lambda>m. m" "\<lambda>_ _ _. [1, 2, 3, 4]" "\<lambda>_ _. example_equipment" 1 gb "[3]" "[]"])
    show "\<forall>l \<in> {3 :: int}. (\<forall>x \<in> set example_input. \<not> ed_Error (fst x)) \<and> in_order (\<lambda>j. 1 + int j) {5} (?d l) (map message_of example_input)"
      using example_run(4) by (simp add: example_input_def)
  qed (use st es c example_run(5,6) gb length_example_sub in \<open>simp_all add: example_gdc_context_def\<close>)
  then obtain evss where evss: "map (\<lambda>f. ReadBinaryEventsFromFile (Inr (concat f))) (gb_binary gb) = map Inr evss"
      "map uint (ExtractEventIDs (concat evss)) = [1]" "\<forall>ev \<in> set (concat evss). VerifyEventHasAllLDCs ev [3] = None"
    by (auto simp: numeral_eq_Suc)
  with gb(1) show ?thesis by (intro exI [of _ gb] exI [of _ evss] conjI)
qed

end
