(* ===== verification/Duck_Logger.thy ===== *)
theory Duck_Logger
  imports Duck_Prelude
begin

text \<open>
  The logger and the metrics that the LDCs, the GDCs and the API share: \<open>src/pkg/states.go\<close>,
  \<open>logger.go\<close>, \<open>metrics.go\<close>, \<open>statistics.go\<close>, the message types of \<open>centrifugal.go\<close>, and the decision
  of \<open>src/api/server.go\<close> to stop every process when a message says so.

  A record of the logger has a level; the handler publishes it as a message and passes it on to the
  JSON handler, or not. The content of a message is kept as data (\<open>message_content\<close>); its JSON
  text is the work of \<open>encoding/json\<close>. The rates of \<open>ProcessMetrics\<close> are rational numbers: the rounding of
  \<open>float64\<close> is not modelled. Times are nanoseconds.
\<close>

section \<open>Definitions\<close>

subsection \<open>States and messages\<close>

datatype StateType = INITIALIZED | RUNNING | STARTING | STOPPING | PINGING

fun state_string :: "StateType \<Rightarrow> string" where
  "state_string INITIALIZED = ''INITIALIZED''"
| "state_string RUNNING = ''RUNNING''"
| "state_string STARTING = ''STARTING''"
| "state_string STOPPING = ''STOPPING''"
| "state_string PINGING = ''PINGING''"

text \<open>\<open>MessageNone\<close> is the empty string, the value of a variable of type \<open>MessageType\<close> that is not assigned.\<close>

datatype MessageType = MessageError | MessageInfo | MessageDebug | MessageMetric | MessageState
  | MessageFile | MessageSummary | MessageNone

record RunStatistics =
  rs_Host :: string
  rs_Events :: int
  rs_Bytes :: int
  rs_Errors :: int

record Metrics =
  mt_EventCounter :: int
  mt_ByteCounter :: int
  mt_CurrentTrgRate :: rat
  mt_CurrentDataRate :: rat
  mt_AvgTrgRate :: rat
  mt_AvgDataRate :: rat

datatype message_content = Text string | StateValue StateType | FileValue string int
  | MetricsValue Metrics | SummaryValue RunStatistics

record Message =
  ms_Host :: string
  ms_Type :: MessageType
  ms_Value :: message_content
  ms_StopProcesses :: bool
  ms_RunNumber :: int

subsection \<open>Levels and the handler\<close>

definition LevelDebug :: int where "LevelDebug = -4"
definition LevelInfo :: int where "LevelInfo = 0"
definition LevelWarn :: int where "LevelWarn = 4"
definition LevelError :: int where "LevelError = 8"
definition LevelMetrics :: int where "LevelMetrics = 9"
definition LevelState :: int where "LevelState = 10"
definition LevelNonStoppingError :: int where "LevelNonStoppingError = 11"
definition LevelFile :: int where "LevelFile = 12"
definition LevelSummary :: int where "LevelSummary = 13"

lemmas level_defs = LevelDebug_def LevelInfo_def LevelWarn_def LevelError_def LevelMetrics_def
  LevelState_def LevelNonStoppingError_def LevelFile_def LevelSummary_def

record log_record =
  lg_Level :: int
  lg_Message :: message_content

record DuckLogger =
  dl_Host :: string
  dl_publisher :: bool
  dl_LogLevel :: int
  dl_RunNumber :: int

text \<open>What a record causes: the messages published and the records passed on to the JSON handler.\<close>

record log_effect =
  le_published :: "Message list"
  le_printed :: "log_record list"

definition message_type :: "int \<Rightarrow> MessageType" where
  "message_type level =
     (if level = LevelMetrics then MessageMetric
      else if level = LevelState then MessageState
      else if level = LevelFile then MessageFile
      else if level = LevelSummary then MessageSummary
      else if level = LevelDebug then MessageDebug
      else if level = LevelInfo then MessageInfo
      else if level = LevelError then MessageError
      else if level = LevelNonStoppingError then MessageError
      else MessageNone)"

definition Handle :: "DuckLogger \<Rightarrow> log_record \<Rightarrow> log_effect" where
  "Handle l r =
     (let messageData = \<lparr>ms_Host = dl_Host l, ms_Type = message_type (lg_Level r), ms_Value = lg_Message r,
            ms_StopProcesses = (lg_Level r = LevelError), ms_RunNumber = dl_RunNumber l\<rparr>
      in \<lparr>le_published = (if dl_publisher l then [messageData] else []),
          le_printed = (if lg_Level r = LevelMetrics \<or> lg_Level r = LevelState \<or> lg_Level r = LevelFile
                        then [] else [r])\<rparr>)"

text \<open>\<open>slog\<close> asks the embedded JSON handler first whether the level is enabled.\<close>

definition log_at :: "DuckLogger \<Rightarrow> int \<Rightarrow> message_content \<Rightarrow> log_effect" where
  "log_at l level m =
     (if dl_LogLevel l \<le> level then Handle l \<lparr>lg_Level = level, lg_Message = m\<rparr>
      else \<lparr>le_published = [], le_printed = []\<rparr>)"

definition slog_Error :: "DuckLogger \<Rightarrow> string \<Rightarrow> log_effect" where
  "slog_Error l m = log_at l LevelError (Text m)"

definition NonStoppingError :: "DuckLogger \<Rightarrow> string \<Rightarrow> log_effect" where
  "NonStoppingError l m = log_at l LevelNonStoppingError (Text m)"

definition Metric :: "DuckLogger \<Rightarrow> Metrics \<Rightarrow> log_effect" where
  "Metric l m = log_at l LevelMetrics (MetricsValue m)"

definition State :: "DuckLogger \<Rightarrow> StateType \<Rightarrow> log_effect" where
  "State l st = log_at l LevelState (StateValue st)"

definition OutputFile :: "DuckLogger \<Rightarrow> string \<Rightarrow> int \<Rightarrow> log_effect" where
  "OutputFile l srv subrun = log_at l LevelFile (FileValue srv subrun)"

definition Summary :: "DuckLogger \<Rightarrow> RunStatistics \<Rightarrow> log_effect" where
  "Summary l d = log_at l LevelSummary (SummaryValue d)"

definition NewDuckLoggerWithRun :: "string \<Rightarrow> int \<Rightarrow> bool \<Rightarrow> int \<Rightarrow> DuckLogger" where
  "NewDuckLoggerWithRun hostname run subscription logLevel =
     \<lparr>dl_Host = hostname, dl_publisher = subscription, dl_LogLevel = logLevel, dl_RunNumber = run\<rparr>"

definition NewDuckLogger :: "string \<Rightarrow> bool \<Rightarrow> int \<Rightarrow> DuckLogger" where
  "NewDuckLogger hostname subscription logLevel = NewDuckLoggerWithRun hostname 0 subscription logLevel"

definition AddRunNumberToLogger :: "DuckLogger \<Rightarrow> int \<Rightarrow> DuckLogger" where
  "AddRunNumberToLogger l run = NewDuckLoggerWithRun (dl_Host l) run (dl_publisher l) (dl_LogLevel l)"

definition shouldForceStopFromMessage :: "Message option \<Rightarrow> string \<Rightarrow> bool" where
  "shouldForceStopFromMessage message localHost =
     (case message of
        None \<Rightarrow> False
      | Some m \<Rightarrow>
          if ms_Type m \<noteq> MessageError \<or> \<not> ms_StopProcesses m then False else ms_Host m \<noteq> localHost)"

subsection \<open>Metrics of the data taking (metrics.go)\<close>

record Measurement =
  me_Timestamp :: int
  me_DataSize :: int
  me_EvtCounter :: int

record metrics_state =
  pm_startTime :: int
  pm_totalSize :: int
  pm_evtCounter :: int
  pm_avgTrgRate :: rat
  pm_avgDataRate :: rat
  pm_currentTrgRate :: rat
  pm_currentDataRate :: rat
  pm_latest :: "Measurement list"
  pm_eventGauge :: int
  pm_sizeGauge :: int
  pm_sent :: "Metrics list"

datatype metrics_case = Tick int | DataSize int

definition metrics_init :: "int \<Rightarrow> metrics_state" where
  "metrics_init startTime =
     \<lparr>pm_startTime = startTime, pm_totalSize = 0, pm_evtCounter = 0, pm_avgTrgRate = 0, pm_avgDataRate = 0,
      pm_currentTrgRate = 0, pm_currentDataRate = 0, pm_latest = [], pm_eventGauge = 0, pm_sizeGauge = 0,
      pm_sent = []\<rparr>"

definition seconds :: "int \<Rightarrow> rat" where
  "seconds ns = of_int ns / 1000000000"

definition metrics_tick :: "int \<Rightarrow> metrics_state \<Rightarrow> metrics_state" where
  "metrics_tick tick s =
     (let elapsedTime = seconds (tick - pm_startTime s);
          avgData = (if elapsedTime > 0 then of_int (pm_totalSize s) / elapsedTime else pm_avgDataRate s);
          avgTrg = (if elapsedTime > 0 then of_int (pm_evtCounter s) / elapsedTime else pm_avgTrgRate s);
          m = \<lparr>me_Timestamp = tick, me_DataSize = pm_totalSize s, me_EvtCounter = pm_evtCounter s\<rparr>;
          appended = pm_latest s @ [m];
          latestMeasurements = (if length appended > 5 then tl appended else appended);
          firstMeasurement = hd latestMeasurements;
          lastMeasurement = last latestMeasurements;
          elapsedTimeCurrent = seconds (tick - me_Timestamp firstMeasurement);
          curData = (if elapsedTimeCurrent > 0
            then of_int (me_DataSize lastMeasurement - me_DataSize firstMeasurement) / elapsedTimeCurrent
            else pm_currentDataRate s);
          curTrg = (if elapsedTimeCurrent > 0
            then of_int (me_EvtCounter lastMeasurement - me_EvtCounter firstMeasurement) / elapsedTimeCurrent
            else pm_currentTrgRate s);
          metricData = \<lparr>mt_EventCounter = pm_evtCounter s, mt_ByteCounter = pm_totalSize s,
            mt_CurrentTrgRate = curTrg, mt_CurrentDataRate = curData, mt_AvgTrgRate = avgTrg,
            mt_AvgDataRate = avgData\<rparr>
      in s\<lparr>pm_avgDataRate := avgData, pm_avgTrgRate := avgTrg, pm_latest := latestMeasurements,
           pm_currentDataRate := curData, pm_currentTrgRate := curTrg, pm_sent := pm_sent s @ [metricData]\<rparr>)"

definition metrics_size :: "int \<Rightarrow> metrics_state \<Rightarrow> metrics_state" where
  "metrics_size sz s =
     (if sz < 0 then s
      else s\<lparr>pm_eventGauge := pm_eventGauge s + 1, pm_sizeGauge := pm_sizeGauge s + sz,
             pm_evtCounter := pm_evtCounter s + 1, pm_totalSize := pm_totalSize s + sz\<rparr>)"

text \<open>
  The loop, over the cases its \<open>select\<close> takes before the context is cancelled. \<open>json.Marshal\<close> fails on no
  value the loop builds (every divisor is positive, so no rate is infinite), so its error branch is not
  taken.
\<close>

fun ProcessMetrics :: "metrics_case list \<Rightarrow> metrics_state \<Rightarrow> metrics_state" where
  "ProcessMetrics [] s = s"
| "ProcessMetrics (Tick t # cs) s = ProcessMetrics cs (metrics_tick t s)"
| "ProcessMetrics (DataSize n # cs) s = ProcessMetrics cs (metrics_size n s)"

section \<open>Properties of the logger\<close>

text \<open>
  A record logged at any level forces the API to stop all processes exactly when its level is
  Error, the level is enabled, the logger publishes and the host is not the API's own; a
  non-stopping error, a state change, a metric, a file or a summary never does.
\<close>

theorem only_errors_force_stop:
  "(\<exists>m \<in> set (le_published (log_at l level v)). shouldForceStopFromMessage (Some m) localHost) \<longleftrightarrow>
   level = LevelError \<and> dl_LogLevel l \<le> LevelError \<and> dl_publisher l \<and> dl_Host l \<noteq> localHost"
  by (auto simp: log_at_def Handle_def shouldForceStopFromMessage_def message_type_def level_defs)

text \<open>The messages of the levels above Error cannot be switched off by a log level up to Error.\<close>

lemma duck_levels_enabled:
  assumes "dl_LogLevel l \<le> LevelError" "dl_publisher l"
  shows "le_published (State l st) = [\<lparr>ms_Host = dl_Host l, ms_Type = MessageState, ms_Value = StateValue st,
           ms_StopProcesses = False, ms_RunNumber = dl_RunNumber l\<rparr>]"
    and "le_published (NonStoppingError l t) = [\<lparr>ms_Host = dl_Host l, ms_Type = MessageError,
           ms_Value = Text t, ms_StopProcesses = False, ms_RunNumber = dl_RunNumber l\<rparr>]"
    and "le_published (slog_Error l t) = [\<lparr>ms_Host = dl_Host l, ms_Type = MessageError,
           ms_Value = Text t, ms_StopProcesses = True, ms_RunNumber = dl_RunNumber l\<rparr>]"
  using assms
  by (simp_all add: State_def NonStoppingError_def slog_Error_def log_at_def Handle_def message_type_def level_defs)

section \<open>Properties of the metrics\<close>

text \<open>The sizes that count, and the measurements a sequence of cases takes.\<close>

fun counted :: "metrics_case list \<Rightarrow> int list" where
  "counted [] = []"
| "counted (DataSize n # cs) = (if n < 0 then counted cs else n # counted cs)"
| "counted (Tick t # cs) = counted cs"

fun measurements :: "int \<Rightarrow> int \<Rightarrow> metrics_case list \<Rightarrow> Measurement list" where
  "measurements sz n [] = []"
| "measurements sz n (DataSize k # cs) =
     (if k < 0 then measurements sz n cs else measurements (sz + k) (n + 1) cs)"
| "measurements sz n (Tick t # cs) =
     \<lparr>me_Timestamp = t, me_DataSize = sz, me_EvtCounter = n\<rparr> # measurements sz n cs"

definition latest :: "nat \<Rightarrow> 'a list \<Rightarrow> 'a list" where
  "latest n xs = drop (length xs - n) xs"

lemma latest_step:
  "(if length (latest 5 xs @ [x]) > 5 then tl (latest 5 xs @ [x]) else latest 5 xs @ [x]) = latest 5 (xs @ [x])"
proof (cases "length xs < 5")
  case False
  then have ne: "drop (length xs - 5) xs \<noteq> []" by simp
  have "tl (drop (length xs - 5) xs @ [x]) = drop (Suc (length xs - 5)) xs @ [x]"
    using ne by (simp add: drop_Suc tl_drop)
  moreover from False have "Suc (length xs - 5) = Suc (length xs) - 5" by linarith
  ultimately show ?thesis using False by (simp add: latest_def)
qed (simp add: latest_def)

lemma ProcessMetrics_counts:
  "pm_evtCounter (ProcessMetrics cs s) = pm_evtCounter s + int (length (counted cs)) \<and>
   pm_totalSize (ProcessMetrics cs s) = pm_totalSize s + sum_list (counted cs) \<and>
   pm_eventGauge (ProcessMetrics cs s) = pm_eventGauge s + int (length (counted cs)) \<and>
   pm_sizeGauge (ProcessMetrics cs s) = pm_sizeGauge s + sum_list (counted cs)"
  by (induction cs s rule: ProcessMetrics.induct) (auto simp: metrics_tick_def metrics_size_def Let_def)

lemma ProcessMetrics_latest:
  "pm_latest s = latest 5 ms \<Longrightarrow>
   pm_latest (ProcessMetrics cs s) = latest 5 (ms @ measurements (pm_totalSize s) (pm_evtCounter s) cs)"
proof (induction cs s arbitrary: ms rule: ProcessMetrics.induct)
  case (2 t cs s)
  let ?m = "\<lparr>me_Timestamp = t, me_DataSize = pm_totalSize s, me_EvtCounter = pm_evtCounter s\<rparr>"
  have "pm_latest (metrics_tick t s) = latest 5 (ms @ [?m])"
    using 2(2) latest_step [of ms ?m] by (simp add: metrics_tick_def Let_def)
  from 2(1) [OF this] show ?case by (simp add: metrics_tick_def Let_def)
qed (auto simp: metrics_size_def)

lemma ProcessMetrics_append: "ProcessMetrics (cs @ ds) s = ProcessMetrics ds (ProcessMetrics cs s)"
  by (induction cs s rule: ProcessMetrics.induct) auto

lemma ProcessMetrics_start: "pm_startTime (ProcessMetrics cs s) = pm_startTime s"
  by (induction cs s rule: ProcessMetrics.induct) (auto simp: metrics_tick_def metrics_size_def Let_def)

text \<open>
  What a tick reports: the number and the bytes of the sizes received so far (negative ones are
  ignored), the mean rates since the start, and the rates between the oldest of the latest five
  measurements and now; the two gauges agree with the counters.
\<close>

theorem metrics_tick_report:
  assumes run: "s = ProcessMetrics (cs @ [Tick t]) (metrics_init t0)"
    and window: "first = hd (latest 5 (measurements 0 0 cs @
      [\<lparr>me_Timestamp = t, me_DataSize = sum_list (counted cs), me_EvtCounter = int (length (counted cs))\<rparr>]))"
    and time: "t0 < t" "me_Timestamp first < t"
  shows "last (pm_sent s) =
      \<lparr>mt_EventCounter = int (length (counted cs)), mt_ByteCounter = sum_list (counted cs),
       mt_CurrentTrgRate = of_int (int (length (counted cs)) - me_EvtCounter first) / seconds (t - me_Timestamp first),
       mt_CurrentDataRate = of_int (sum_list (counted cs) - me_DataSize first) / seconds (t - me_Timestamp first),
       mt_AvgTrgRate = of_int (int (length (counted cs))) / seconds (t - t0),
       mt_AvgDataRate = of_int (sum_list (counted cs)) / seconds (t - t0)\<rparr> \<and>
    length (pm_latest s) \<le> 5 \<and>
    pm_eventGauge s = int (length (counted cs)) \<and> pm_sizeGauge s = sum_list (counted cs)"
proof (intro conjI)
  let ?p = "ProcessMetrics cs (metrics_init t0)"
  let ?n = "int (length (counted cs))" and ?b = "sum_list (counted cs)"
  let ?m = "\<lparr>me_Timestamp = t, me_DataSize = ?b, me_EvtCounter = ?n\<rparr>"
  let ?W = "latest 5 (measurements 0 0 cs @ [?m])"
  have c: "pm_evtCounter ?p = ?n" "pm_totalSize ?p = ?b" "pm_eventGauge ?p = ?n" "pm_sizeGauge ?p = ?b"
    "pm_startTime ?p = t0"
    using ProcessMetrics_counts [of cs "metrics_init t0"] ProcessMetrics_start [of cs "metrics_init t0"]
    by (simp_all add: metrics_init_def)
  have l: "pm_latest ?p = latest 5 (measurements 0 0 cs)"
    using ProcessMetrics_latest [of "metrics_init t0" "[]" cs] by (simp add: metrics_init_def latest_def)
  have W: "(if length (pm_latest ?p @ [?m]) > 5 then tl (pm_latest ?p @ [?m]) else pm_latest ?p @ [?m]) = ?W"
    unfolding l by (rule latest_step)
  have last: "last ?W = ?m" by (simp add: latest_def)
  have pos: "0 < seconds (t - t0)" "0 < seconds (t - me_Timestamp first)"
    using time by (simp_all add: seconds_def)
  have s: "s = metrics_tick t ?p" unfolding run by (simp add: ProcessMetrics_append)
  show "last (pm_sent s) =
      \<lparr>mt_EventCounter = ?n, mt_ByteCounter = ?b,
       mt_CurrentTrgRate = of_int (?n - me_EvtCounter first) / seconds (t - me_Timestamp first),
       mt_CurrentDataRate = of_int (?b - me_DataSize first) / seconds (t - me_Timestamp first),
       mt_AvgTrgRate = of_int ?n / seconds (t - t0), mt_AvgDataRate = of_int ?b / seconds (t - t0)\<rparr>"
    unfolding s metrics_tick_def Let_def c W window [symmetric] using last pos by simp
  show "length (pm_latest s) \<le> 5"
    unfolding s metrics_tick_def Let_def c W by (simp add: latest_def)
  show "pm_eventGauge s = ?n" "pm_sizeGauge s = ?b"
    unfolding s metrics_tick_def Let_def using c by simp_all
qed

theorem metrics_tick_report_witness:
  "last (pm_sent (ProcessMetrics [DataSize 300, Tick 1000000000, DataSize 700, DataSize (-1), Tick 3000000000]
     (metrics_init 0))) =
   \<lparr>mt_EventCounter = 2, mt_ByteCounter = 1000, mt_CurrentTrgRate = 1 / 2, mt_CurrentDataRate = 350,
    mt_AvgTrgRate = 2 / 3, mt_AvgDataRate = 1000 / 3\<rparr>"
  using metrics_tick_report [OF refl refl,
      of 0 3000000000 "[DataSize 300, Tick 1000000000, DataSize 700, DataSize (-1)]"]
  by (simp add: latest_def seconds_def)

end
