(* ===== verification/Run_Server.thy ===== *)
theory Run_Server
  imports Duck_Logger
begin

text \<open>
  Run control in the LDC and GDC processes: \<open>src/ldcRPC/main.go\<close> and \<open>src/gdcRPC/main.go\<close> (the handlers,
  the same text in both but for \<open>PingDevices\<close>), the loops \<open>ldcServer\<close> (\<open>ldc.go\<close>) and \<open>gdcServer\<close>
  (\<open>gdc.go\<close>), and \<open>ldcConnectionMonitor\<close> (\<open>gdc.go\<close>).

  A process is a set of goroutines that share the state, the context and the flag \<open>runActive\<close>, each
  behind its own mutex. A step of the model is one critical section, so a handler that takes
  three mutexes one after the other is three steps, and what is left of it is a \<open>thread\<close>; the steps of all
  goroutines interleave. \<open>server_step\<close> is the step for one action, \<open>server_exec\<close> executes a list of
  actions, \<open>server_run\<close> is reachability.

  A context is its number (every \<open>StartRun\<close> makes a new one) and whether the loop has stored the
  configuration of the run in it.
\<close>

section \<open>Definitions\<close>

datatype server_kind = LDC | GDC

record run_context =
  cx_number :: nat
  cx_configured :: bool

text \<open>Where the loop of \<open>ldcServer\<close> or \<open>gdcServer\<close> is.\<close>

datatype loop_pc =
    WaitStart
  | Setup
  | FailInactive
  | FailState
  | WaitSockets nat
  | SetRunning
  | WaitStop
  | CancelContext
  | WaitGoroutines
  | SetInitialized

text \<open>What is left of a handler, of \<open>stopOnLocalError\<close> or of the monitor between two critical sections.\<close>

datatype thread =
    StartSignal
  | StopCancel
  | StopSignal
  | ErrorCancel
  | ErrorSignal
  | MonitorSet bool

text \<open>
  The goroutines that the \<open>WaitGroup\<close> of a run counts: the readout and the packet reader of each enabled equipment, the
  gauges and the event builder of an LDC; the gauge, the event builder and the acceptor of a GDC.
\<close>

datatype goroutine = ReadoutEquipment nat | ReadPacket nat | UpdateGauges | ReadSubEvents | ReadData | AcceptConnections

record server =
  sv_state :: StateType
  sv_ctx :: "run_context option"
  sv_cancelled :: "nat list"
  sv_runActive :: bool
  sv_pc :: loop_pc
  sv_threads :: "thread list"
  sv_pings :: nat
  sv_listening :: bool
  sv_connections :: "int list"
  sv_contexts :: nat
  sv_wg :: "goroutine list"
  sv_log :: "(int \<times> message_content) list"

definition server_init :: server where
  "server_init = \<lparr>sv_state = INITIALIZED, sv_ctx = None, sv_cancelled = [], sv_runActive = False,
     sv_pc = WaitStart, sv_threads = [], sv_pings = 0, sv_listening = False, sv_connections = [], sv_contexts = 0,
     sv_wg = [], sv_log = []\<rparr>"

definition setState :: "StateType \<Rightarrow> server \<Rightarrow> server" where
  "setState newState s = s\<lparr>sv_state := newState, sv_log := sv_log s @ [(LevelState, StateValue newState)]\<rparr>"

definition log_error :: "string \<Rightarrow> server \<Rightarrow> server" where
  "log_error m s = s\<lparr>sv_log := sv_log s @ [(LevelError, Text m)]\<rparr>"

text \<open>\<open>s.cancelCtx()\<close>, with \<open>None\<close> when no context was ever made; a context may be cancelled twice.\<close>

definition cancelCtx :: "server \<Rightarrow> server" where
  "cancelCtx s = (case sv_ctx s of None \<Rightarrow> s | Some c \<Rightarrow> s\<lparr>sv_cancelled := cx_number c # sv_cancelled s\<rparr>)"

definition ctx_done :: "server \<Rightarrow> bool" where
  "ctx_done s = (case sv_ctx s of None \<Rightarrow> False | Some c \<Rightarrow> cx_number c \<in> set (sv_cancelled s))"

definition spawn :: "thread \<Rightarrow> server \<Rightarrow> server" where
  "spawn t s = s\<lparr>sv_threads := sv_threads s @ [t]\<rparr>"

definition finish :: "thread \<Rightarrow> server \<Rightarrow> server" where
  "finish t s = s\<lparr>sv_threads := remove1 t (sv_threads s)\<rparr>"

subsection \<open>The handlers\<close>

text \<open>The first critical section of \<open>StartRun\<close> and its answer.\<close>

definition StartRun :: "server \<Rightarrow> server \<times> string" where
  "StartRun s =
     (if sv_state s \<noteq> INITIALIZED then (s, ''Cannot start before stop'')
      else (spawn StartSignal (setState STARTING
              (s\<lparr>sv_ctx := Some \<lparr>cx_number = sv_contexts s, cx_configured = False\<rparr>,
                 sv_contexts := Suc (sv_contexts s)\<rparr>)), ''Started''))"

definition StopRun :: "server \<Rightarrow> server \<times> string" where
  "StopRun s =
     (if sv_state s = INITIALIZED then (s, ''Stopped'')
      else if sv_state s \<noteq> RUNNING \<and> sv_state s \<noteq> STARTING then (s, ''Can not stop before start'')
      else (spawn StopCancel (setState STOPPING s), ''Stopped''))"

definition GetState :: "server \<Rightarrow> server \<times> string" where
  "GetState s = (s\<lparr>sv_log := sv_log s @ [(LevelState, StateValue (sv_state s))]\<rparr>, state_string (sv_state s))"

text \<open>The first section of \<open>stopOnLocalError\<close>: the message, then the cancellation follows as a thread.\<close>

definition stopOnLocalError :: "string \<Rightarrow> server \<Rightarrow> server" where
  "stopOnLocalError errMsg s = spawn ErrorCancel (log_error errMsg s)"

text \<open>
  \<open>PingDevices\<close> of the LDC sets the state, reads the configuration and pings, and sets the state again;
  \<open>sv_pings\<close> counts the handlers in between. The GDC answers without touching its state.
\<close>

datatype ping_outcome = PingConfigurationError string | PingNameError string | Pinged bool

definition PingDevices :: "server_kind \<Rightarrow> server \<Rightarrow> server" where
  "PingDevices k s =
     (case k of LDC \<Rightarrow> (setState PINGING s)\<lparr>sv_pings := Suc (sv_pings s)\<rparr> | GDC \<Rightarrow> s)"

fun ping_end :: "ping_outcome \<Rightarrow> server \<Rightarrow> server \<times> bool" where
  "ping_end (PingConfigurationError e) s =
     ((setState INITIALIZED (log_error (''Error reading configuration: '' @ e) s))\<lparr>sv_pings := sv_pings s - 1\<rparr>, False)"
| "ping_end (PingNameError e) s =
     ((setState INITIALIZED (log_error (''Error reading LDC configuration: '' @ e) s))\<lparr>sv_pings := sv_pings s - 1\<rparr>,
      False)"
| "ping_end (Pinged success) s = ((setState INITIALIZED s)\<lparr>sv_pings := sv_pings s - 1\<rparr>, success)"

text \<open>The sections that follow.\<close>

fun thread_step :: "thread \<Rightarrow> server \<Rightarrow> server" where
  "thread_step StartSignal s = (finish StartSignal s)\<lparr>sv_runActive := True\<rparr>"
| "thread_step StopCancel s = spawn StopSignal (cancelCtx (finish StopCancel s))"
| "thread_step StopSignal s = (finish StopSignal s)\<lparr>sv_runActive := False\<rparr>"
| "thread_step ErrorCancel s = spawn ErrorSignal (cancelCtx (finish ErrorCancel s))"
| "thread_step ErrorSignal s = (finish ErrorSignal s)\<lparr>sv_runActive := False\<rparr>"
| "thread_step (MonitorSet running) s =
     (let s1 = finish (MonitorSet running) s;
          s2 = (if running then setState STOPPING s1 else s1)
      in if sv_connections s2 = [] then stopOnLocalError ''No LDC connections, stopping GDC'' s2 else s2)"

subsection \<open>The monitor of the connections (GDC)\<close>

text \<open>
  \<open>ldcConnectionMonitor\<close> takes an address from one of its channels. On a close it deletes the
  connection and reads the state (\<open>getState\<close>, one critical section); setting the state and looking
  at the number of connections is the rest.
\<close>

definition monitor_open :: "int \<Rightarrow> server \<Rightarrow> server" where
  "monitor_open address s = s\<lparr>sv_connections := List.insert address (sv_connections s)\<rparr>"

definition monitor_close :: "int \<Rightarrow> server \<Rightarrow> server" where
  "monitor_close address s =
     spawn (MonitorSet (sv_state s = RUNNING)) (s\<lparr>sv_connections := removeAll address (sv_connections s)\<rparr>)"

subsection \<open>The loop\<close>

text \<open>
  How the preparation of a run ends: an error reading the configuration, no entry for this process, no
  connection (the pool of connections of the LDC, the listener of the GDC), or ready, with the number of
  enabled equipments whose sockets the LDC waits for.
\<close>

datatype setup_outcome = ReadConfigurationError string | NameError string | ConnectError string | Ready nat

text \<open>
  The attempts of \<open>gdcServer\<close> to listen: at most ten, half a second apart; \<open>attempt i\<close> is the error of the
  i-th one. The result is the last error, or \<open>None\<close> when an attempt succeeded.
\<close>

fun listen_loop :: "nat \<Rightarrow> nat \<Rightarrow> (nat \<Rightarrow> string option) \<Rightarrow> string option \<Rightarrow> string option" where
  "listen_loop 0 retry attempt err = err"
| "listen_loop (Suc n) retry attempt err =
     (case attempt retry of None \<Rightarrow> None | Some e \<Rightarrow> listen_loop n (Suc retry) attempt (Some e))"

definition gdc_listen :: "(nat \<Rightarrow> string option) \<Rightarrow> setup_outcome" where
  "gdc_listen attempt = (case listen_loop 10 0 attempt None of
      None \<Rightarrow> Ready 0 | Some e \<Rightarrow> ConnectError (''error starting TCP listener after retries: '' @ e))"

definition store_configuration :: "server \<Rightarrow> server" where
  "store_configuration s = s\<lparr>sv_ctx := map_option (\<lambda>c. c\<lparr>cx_configured := True\<rparr>) (sv_ctx s)\<rparr>"

definition config_error :: "server_kind \<Rightarrow> string" where
  "config_error k = (case k of LDC \<Rightarrow> ''Error reading LDC configuration '' | GDC \<Rightarrow> ''Error reading GDC configuration '')"

definition run_goroutines :: "server_kind \<Rightarrow> nat \<Rightarrow> goroutine list" where
  "run_goroutines k n =
     (case k of LDC \<Rightarrow> concat (map (\<lambda>i. [ReadoutEquipment i, ReadPacket i]) [0..<n]) @ [UpdateGauges, ReadSubEvents]
      | GDC \<Rightarrow> [UpdateGauges, ReadData, AcceptConnections])"

fun loop_setup :: "server_kind \<Rightarrow> setup_outcome \<Rightarrow> server \<Rightarrow> server" where
  "loop_setup k (ReadConfigurationError e) s =
     (log_error (''Error reading configuration '' @ e) s)\<lparr>sv_pc := FailInactive\<rparr>"
| "loop_setup k (NameError e) s = (log_error (config_error k @ e) s)\<lparr>sv_pc := FailInactive\<rparr>"
| "loop_setup k (ConnectError e) s = (log_error e (store_configuration s))\<lparr>sv_pc := FailInactive\<rparr>"
| "loop_setup k (Ready n) s =
     (case k of LDC \<Rightarrow> (store_configuration s)\<lparr>sv_wg := run_goroutines LDC n, sv_pc := WaitSockets n\<rparr>
      | GDC \<Rightarrow> (store_configuration s)\<lparr>sv_listening := True, sv_wg := run_goroutines GDC n, sv_pc := SetRunning\<rparr>)"

text \<open>
  The actions of the loop: the outcome of the preparation, a socket that is ready, and the others. \<open>wg.Wait()\<close> returns when the last
  goroutine of the run has ended; nothing makes a goroutine end, it may block for ever.
\<close>

datatype loop_action = LoopSetup setup_outcome | SocketReady | LoopNext

fun loop_step :: "server_kind \<Rightarrow> loop_action \<Rightarrow> server \<Rightarrow> server option" where
  "loop_step k (LoopSetup r) s = (if sv_pc s = Setup then Some (loop_setup k r s) else None)"
| "loop_step k SocketReady s =
     (case sv_pc s of WaitSockets (Suc n) \<Rightarrow> Some (s\<lparr>sv_pc := WaitSockets n\<rparr>) | _ \<Rightarrow> None)"
| "loop_step k LoopNext s =
     (case sv_pc s of
        WaitStart \<Rightarrow> if sv_runActive s then Some (s\<lparr>sv_pc := Setup\<rparr>) else None
      | Setup \<Rightarrow> None
      | FailInactive \<Rightarrow> Some (s\<lparr>sv_runActive := False, sv_pc := FailState\<rparr>)
      | FailState \<Rightarrow> Some ((setState INITIALIZED s)\<lparr>sv_pc := WaitStart\<rparr>)
      | WaitSockets n \<Rightarrow>
          (case n of 0 \<Rightarrow> Some (s\<lparr>sv_pc := SetRunning\<rparr>)
           | Suc m \<Rightarrow> if ctx_done s then Some (s\<lparr>sv_pc := WaitSockets m\<rparr>) else None)
      | SetRunning \<Rightarrow> Some ((setState RUNNING s)\<lparr>sv_pc := WaitStop\<rparr>)
      | WaitStop \<Rightarrow> if sv_runActive s then None else Some (s\<lparr>sv_pc := CancelContext\<rparr>)
      | CancelContext \<Rightarrow> Some ((cancelCtx s)\<lparr>sv_listening := False, sv_pc := WaitGoroutines\<rparr>)
      | WaitGoroutines \<Rightarrow> if sv_wg s = [] then Some (s\<lparr>sv_pc := SetInitialized\<rparr>) else None
      | SetInitialized \<Rightarrow> Some ((setState INITIALIZED s)\<lparr>sv_pc := WaitStart\<rparr>))"

subsection \<open>The process\<close>

datatype server_action =
    CallStart
  | CallStop
  | CallGetState
  | CallPing
  | PingDone ping_outcome
  | LocalError string
  | Thread thread
  | Loop loop_action
  | ConnectionOpen int
  | ConnectionClose int
  | GoroutineEnds goroutine

text \<open>
  A local error and the monitor belong to a run: they occur only after the loop has prepared it. A goroutine of
  a run that has ended may still be on its way, so they are not bound to the position of the loop. A goroutine of the
  wait group may end at any time, also with an error before the stop.
\<close>

fun server_step :: "server_kind \<Rightarrow> server_action \<Rightarrow> server \<Rightarrow> server option" where
  "server_step k CallStart s = Some (fst (StartRun s))"
| "server_step k CallStop s = Some (fst (StopRun s))"
| "server_step k CallGetState s = Some (fst (GetState s))"
| "server_step k CallPing s = Some (PingDevices k s)"
| "server_step k (PingDone r) s = (if sv_pings s = 0 then None else Some (fst (ping_end r s)))"
| "server_step k (LocalError m) s = (if sv_ctx s = None then None else Some (stopOnLocalError m s))"
| "server_step k (Thread t) s = (if t \<in> set (sv_threads s) then Some (thread_step t s) else None)"
| "server_step k (Loop a) s = loop_step k a s"
| "server_step k (ConnectionOpen a) s = (if k = GDC \<and> sv_ctx s \<noteq> None then Some (monitor_open a s) else None)"
| "server_step k (ConnectionClose a) s = (if k = GDC \<and> sv_ctx s \<noteq> None then Some (monitor_close a s) else None)"
| "server_step k (GoroutineEnds g) s = (if g \<in> set (sv_wg s) then Some (s\<lparr>sv_wg := remove1 g (sv_wg s)\<rparr>) else None)"

fun server_exec :: "server_kind \<Rightarrow> server_action list \<Rightarrow> server \<Rightarrow> server option" where
  "server_exec k [] s = Some s"
| "server_exec k (a # as) s = (case server_step k a s of None \<Rightarrow> None | Some s' \<Rightarrow> server_exec k as s')"

text \<open>Reachability, and reachability by runs in which pings are only sent to an idle process.\<close>

inductive server_run :: "server_kind \<Rightarrow> server \<Rightarrow> bool" for k where
  run_init: "server_run k server_init"
| run_step: "server_run k s \<Longrightarrow> server_step k a s = Some s' \<Longrightarrow> server_run k s'"

definition ping_allowed :: "server_action \<Rightarrow> server \<Rightarrow> bool" where
  "ping_allowed a s \<longleftrightarrow> (a = CallPing \<longrightarrow> sv_state s = INITIALIZED)"

inductive orderly_run :: "server_kind \<Rightarrow> server \<Rightarrow> bool" for k where
  orderly_init: "orderly_run k server_init"
| orderly_step: "orderly_run k s \<Longrightarrow> server_step k a s = Some s' \<Longrightarrow> ping_allowed a s \<Longrightarrow> orderly_run k s'"

section \<open>The invariant\<close>

text \<open>
  At most one \<open>StartRun\<close> has still to raise the flag, and then the loop waits and the flag is down; a state that
  accepts a start, or a ping that will lead to one, means that the loop waits with the flag down; after the
  loop has left its wait for the stop the flag stays down; a handler that cancels the context has one.
  The invariant is a predicate on the fields it speaks of, so that a step is reasoned about in terms of
  what it changes.
\<close>

definition raises :: "thread list \<Rightarrow> nat" where
  "raises ts = count (mset ts) StartSignal"

definition flag_down :: "loop_pc \<Rightarrow> bool" where
  "flag_down pc \<longleftrightarrow> pc = FailState \<or> pc = CancelContext \<or> pc = WaitGoroutines \<or> pc = SetInitialized"

definition idle_state :: "StateType \<Rightarrow> bool" where
  "idle_state st \<longleftrightarrow> st = INITIALIZED \<or> st = PINGING"

definition may_listen :: "loop_pc \<Rightarrow> bool" where
  "may_listen pc \<longleftrightarrow> pc = SetRunning \<or> pc = WaitStop \<or> pc = CancelContext"

definition inv_flag :: "thread list \<Rightarrow> bool \<Rightarrow> loop_pc \<Rightarrow> StateType \<Rightarrow> bool" where
  "inv_flag ts act pc st \<longleftrightarrow>
     raises ts \<le> 1 \<and> (raises ts = 1 \<longrightarrow> \<not> act \<and> pc = WaitStart \<and> \<not> idle_state st) \<and>
     (idle_state st \<longrightarrow> pc = WaitStart \<and> \<not> act) \<and> (flag_down pc \<longrightarrow> \<not> act)"

definition inv_ping :: "server_kind \<Rightarrow> thread list \<Rightarrow> StateType \<Rightarrow> nat \<Rightarrow> bool" where
  "inv_ping k ts st pings \<longleftrightarrow>
     pings \<le> 1 \<and> (pings = 1 \<longrightarrow> st = PINGING) \<and> (k = LDC \<longrightarrow> (\<forall>b. MonitorSet b \<notin> set ts)) \<and>
     (k = GDC \<longrightarrow> st \<noteq> PINGING \<and> pings = 0)"

definition inv_ctx :: "thread list \<Rightarrow> bool \<Rightarrow> loop_pc \<Rightarrow> StateType \<Rightarrow> bool \<Rightarrow> bool \<Rightarrow> bool" where
  "inv_ctx ts act pc st hasctx lis \<longleftrightarrow>
     (\<not> hasctx \<longrightarrow> pc = WaitStart \<and> \<not> act \<and> ts = [] \<and> idle_state st) \<and> (lis \<longrightarrow> may_listen pc)"

definition server_inv :: "server_kind \<Rightarrow> server \<Rightarrow> bool" where
  "server_inv k s \<longleftrightarrow>
     inv_flag (sv_threads s) (sv_runActive s) (sv_pc s) (sv_state s) \<and>
     inv_ping k (sv_threads s) (sv_state s) (sv_pings s) \<and>
     inv_ctx (sv_threads s) (sv_runActive s) (sv_pc s) (sv_state s) (sv_ctx s \<noteq> None) (sv_listening s)"

lemmas server_defs = setState_def log_error_def spawn_def finish_def stopOnLocalError_def
  StartRun_def StopRun_def GetState_def PingDevices_def monitor_open_def monitor_close_def
  store_configuration_def

lemma cancelCtx_fields [simp]:
  "sv_state (cancelCtx s) = sv_state s" "sv_ctx (cancelCtx s) = sv_ctx s"
  "sv_runActive (cancelCtx s) = sv_runActive s" "sv_pc (cancelCtx s) = sv_pc s"
  "sv_threads (cancelCtx s) = sv_threads s" "sv_pings (cancelCtx s) = sv_pings s"
  "sv_listening (cancelCtx s) = sv_listening s" "sv_connections (cancelCtx s) = sv_connections s" "sv_wg (cancelCtx s) = sv_wg s"
  by (simp_all add: cancelCtx_def split: option.split)

lemma raises_simps [simp]:
  "raises [] = 0"
  "raises (ts @ [t]) = raises ts + (if t = StartSignal then 1 else 0)"
  "raises (remove1 t ts) = raises ts - (if t = StartSignal then 1 else 0)"
  by (simp_all add: raises_def)

lemma raises_mem [simp]: "StartSignal \<in> set ts \<longleftrightarrow> 0 < raises ts"
  by (simp add: raises_def)

lemma flag_down_simps [simp]:
  "flag_down FailState" "flag_down CancelContext" "flag_down WaitGoroutines" "flag_down SetInitialized"
  "\<not> flag_down WaitStart" "\<not> flag_down Setup" "\<not> flag_down FailInactive" "\<not> flag_down (WaitSockets n)"
  "\<not> flag_down SetRunning" "\<not> flag_down WaitStop"
  by (simp_all add: flag_down_def)

lemma idle_state_simps [simp]:
  "idle_state INITIALIZED" "idle_state PINGING" "\<not> idle_state RUNNING" "\<not> idle_state STARTING"
  "\<not> idle_state STOPPING"
  by (simp_all add: idle_state_def)

lemma may_listen_simps [simp]:
  "may_listen SetRunning" "may_listen WaitStop" "may_listen CancelContext" "\<not> may_listen WaitStart"
  "\<not> may_listen Setup" "\<not> may_listen FailInactive" "\<not> may_listen FailState" "\<not> may_listen (WaitSockets n)"
  "\<not> may_listen WaitGoroutines" "\<not> may_listen SetInitialized"
  by (simp_all add: may_listen_def)

lemma inv_init: "server_inv k server_init"
  by (simp add: server_inv_def server_init_def inv_flag_def inv_ping_def inv_ctx_def)

lemma inv_StartRun: "server_inv k s \<Longrightarrow> server_inv k (fst (StartRun s))"
  by (cases "sv_state s") (auto simp: server_inv_def inv_flag_def inv_ping_def inv_ctx_def server_defs)

lemma inv_StopRun: "server_inv k s \<Longrightarrow> server_inv k (fst (StopRun s))"
  by (cases "sv_state s") (auto simp: server_inv_def inv_flag_def inv_ping_def inv_ctx_def server_defs)

lemma inv_GetState: "server_inv k s \<Longrightarrow> server_inv k (fst (GetState s))"
  by (simp add: server_inv_def server_defs)

lemma inv_ping_begin: "server_inv k s \<Longrightarrow> sv_state s = INITIALIZED \<Longrightarrow> server_inv k (PingDevices k s)"
  by (cases k) (auto simp: server_inv_def inv_flag_def inv_ping_def inv_ctx_def server_defs)

lemma inv_ping_end: "server_inv k s \<Longrightarrow> sv_pings s \<noteq> 0 \<Longrightarrow> server_inv k (fst (ping_end r s))"
  by (cases k; cases r) (auto simp: server_inv_def inv_flag_def inv_ping_def inv_ctx_def server_defs)

lemma inv_local_error: "server_inv k s \<Longrightarrow> sv_ctx s \<noteq> None \<Longrightarrow> server_inv k (stopOnLocalError m s)"
  by (auto simp: server_inv_def inv_flag_def inv_ping_def inv_ctx_def server_defs)

lemma inv_thread: "server_inv k s \<Longrightarrow> t \<in> set (sv_threads s) \<Longrightarrow> server_inv k (thread_step t s)"
  by (cases t; cases k)
    (auto simp: server_inv_def inv_flag_def inv_ping_def inv_ctx_def server_defs Let_def dest: notin_set_remove1)

lemma inv_monitor:
  "server_inv k s \<Longrightarrow> k = GDC \<Longrightarrow> sv_ctx s \<noteq> None \<Longrightarrow> server_inv k (monitor_open a s) \<and> server_inv k (monitor_close a s)"
  by (auto simp: server_inv_def inv_flag_def inv_ping_def inv_ctx_def server_defs)

lemma inv_setup: "server_inv k s \<Longrightarrow> sv_pc s = Setup \<Longrightarrow> server_inv k (loop_setup k r s)"
  by (cases r; cases k) (auto simp: server_inv_def inv_flag_def inv_ping_def inv_ctx_def server_defs)

lemma inv_socket: "server_inv k s \<Longrightarrow> sv_pc s = WaitSockets (Suc n) \<Longrightarrow> server_inv k (s\<lparr>sv_pc := WaitSockets n\<rparr>)"
  by (simp add: server_inv_def inv_flag_def inv_ping_def inv_ctx_def)

lemma inv_next: "server_inv k s \<Longrightarrow> loop_step k LoopNext s = Some s' \<Longrightarrow> server_inv k s'"
  by (cases "sv_pc s"; clarsimp split: nat.splits if_splits;
      simp add: server_inv_def inv_flag_def inv_ping_def inv_ctx_def setState_def; (metis idle_state_simps(2))?)

lemma inv_loop: "server_inv k s \<Longrightarrow> loop_step k a s = Some s' \<Longrightarrow> server_inv k s'"
  by (cases a) (auto simp: inv_setup inv_socket inv_next simp del: loop_step.simps(3) split: if_splits loop_pc.splits nat.splits)

lemma inv_goroutine: "server_inv k s \<Longrightarrow> server_inv k (s\<lparr>sv_wg := ws\<rparr>)"
  by (simp add: server_inv_def)

lemma inv_step:
  assumes "server_inv k s" "server_step k a s = Some s'" "ping_allowed a s"
  shows "server_inv k s'"
  using assms
  by (cases a)
    (auto simp: ping_allowed_def inv_StartRun inv_StopRun inv_GetState inv_ping_begin inv_ping_end inv_local_error
      inv_thread inv_monitor inv_goroutine split: if_splits intro: inv_loop)

lemma orderly_inv: "orderly_run k s \<Longrightarrow> server_inv k s"
  by (induction rule: orderly_run.induct) (auto intro: inv_init inv_step)

section \<open>Properties\<close>

definition contexts_new :: "server \<Rightarrow> bool" where
  "contexts_new s \<longleftrightarrow> (\<forall>n \<in> set (sv_cancelled s). n < sv_contexts s) \<and>
     (case sv_ctx s of None \<Rightarrow> True | Some c \<Rightarrow> cx_number c < sv_contexts s)"

lemma contexts_new_step: "contexts_new s \<Longrightarrow> server_step k a s = Some s' \<Longrightarrow> contexts_new s'"
proof (cases a)
  case (Thread t)
  then show "contexts_new s \<Longrightarrow> server_step k a s = Some s' \<Longrightarrow> contexts_new s'"
    by (cases t) (auto simp: contexts_new_def server_defs cancelCtx_def Let_def split: if_splits option.splits)
next
  case (Loop l)
  then show "contexts_new s \<Longrightarrow> server_step k a s = Some s' \<Longrightarrow> contexts_new s'"
  proof (cases l)
    case (LoopSetup r)
    with Loop show "contexts_new s \<Longrightarrow> server_step k a s = Some s' \<Longrightarrow> contexts_new s'"
      by (cases r; cases k) (auto simp: contexts_new_def server_defs split: if_splits option.splits)
  qed (auto simp: contexts_new_def setState_def cancelCtx_def split: loop_pc.splits nat.splits if_splits option.splits)
next
  case (PingDone r)
  then show "contexts_new s \<Longrightarrow> server_step k a s = Some s' \<Longrightarrow> contexts_new s'"
    by (cases r) (auto simp: contexts_new_def server_defs split: if_splits option.splits)
qed (auto simp: contexts_new_def server_defs less_Suc_eq split: if_splits server_kind.splits option.splits)

lemma orderly_contexts_new: "orderly_run k s \<Longrightarrow> contexts_new s"
proof (induction rule: orderly_run.induct)
  case orderly_init
  show ?case by (simp add: contexts_new_def server_init_def)
qed (rule contexts_new_step)

text \<open>
  C20. Runs do not overlap: in every state that calls, errors and the loop can reach when pings are sent to
  idle processes only, \<open>StartRun\<close> answers that it started only when the loop waits for a start, the flag of
  the previous run is down, no other start is on its way and the listener is closed; then the context is
  new and neither cancelled nor configured.
\<close>

theorem runs_do_not_overlap:
  assumes "orderly_run k s" and "snd (StartRun s) = ''Started''"
  shows "sv_pc s = WaitStart \<and> \<not> sv_runActive s \<and> StartSignal \<notin> set (sv_threads s) \<and> \<not> sv_listening s \<and>
    \<not> ctx_done (fst (StartRun s)) \<and>
    sv_ctx (fst (StartRun s)) = Some \<lparr>cx_number = sv_contexts s, cx_configured = False\<rparr>"
proof -
  have st: "sv_state s = INITIALIZED" using assms(2) by (simp add: StartRun_def split: if_splits)
  have inv: "server_inv k s" by (rule orderly_inv [OF assms(1)])
  from inv st have "sv_pc s = WaitStart" "\<not> sv_runActive s" "raises (sv_threads s) \<le> 1" "raises (sv_threads s) \<noteq> 1"
    "\<not> sv_listening s"
    by (auto simp: server_inv_def inv_flag_def inv_ctx_def)
  moreover have "sv_contexts s \<notin> set (sv_cancelled s)"
    using orderly_contexts_new [OF assms(1)] by (auto simp: contexts_new_def)
  ultimately show ?thesis using st by (simp add: StartRun_def server_defs ctx_done_def)
qed

text \<open>The actions of one complete run of a GDC: start, listen, a connection, stop.\<close>

definition example_run :: "server_action list" where
  "example_run = [CallStart, Thread StartSignal, Loop LoopNext, Loop (LoopSetup (Ready 0)), Loop LoopNext,
     ConnectionOpen 1, CallStop, Thread StopCancel, Thread StopSignal, Loop LoopNext, Loop LoopNext,
     GoroutineEnds AcceptConnections, GoroutineEnds ReadData, GoroutineEnds UpdateGauges, Loop LoopNext, Loop LoopNext]"

lemma server_exec_orderly:
  "orderly_run k s \<Longrightarrow> CallPing \<notin> set as \<Longrightarrow> server_exec k as s = Some s' \<Longrightarrow> orderly_run k s'"
proof (induction as arbitrary: s)
  case (Cons a as)
  from Cons.prems(3) obtain s1 where s1: "server_step k a s = Some s1" "server_exec k as s1 = Some s'"
    by (auto split: option.splits)
  from Cons.prems(2) have "ping_allowed a s" by (auto simp: ping_allowed_def)
  with Cons.prems(1) s1(1) have "orderly_run k s1" by (blast intro: orderly_step)
  with Cons show ?case using s1(2) by simp
qed simp

lemma example_run_ends: "\<exists>s. server_exec GDC example_run server_init = Some s \<and> sv_state s = INITIALIZED"
proof -
  have "map_option sv_state (server_exec GDC example_run server_init) = Some INITIALIZED" by code_simp
  then show ?thesis by auto
qed

theorem runs_do_not_overlap_witness:
  "\<exists>s. server_exec GDC example_run server_init = Some s \<and> snd (StartRun s) = ''Started'' \<and>
     sv_pc s = WaitStart \<and> \<not> sv_runActive s \<and> \<not> sv_listening s"
proof -
  obtain s where s: "server_exec GDC example_run server_init = Some s" "sv_state s = INITIALIZED"
    using example_run_ends by blast
  have "orderly_run GDC s"
    by (rule server_exec_orderly [OF orderly_init _ s(1)]) (simp add: example_run_def)
  moreover have "snd (StartRun s) = ''Started''" using s(2) by (simp add: StartRun_def)
  ultimately show ?thesis using runs_do_not_overlap [of GDC s] s(1) by blast
qed

subsection \<open>Stopping\<close>

text \<open>How far the loop is from the end of the run; the preparation is above any number of sockets.\<close>

fun loop_rank :: "loop_pc \<Rightarrow> nat \<times> nat" where
  "loop_rank WaitStart = (0, 0)"
| "loop_rank Setup = (2, 0)"
| "loop_rank FailInactive = (1, 2)"
| "loop_rank FailState = (1, 1)"
| "loop_rank (WaitSockets n) = (1, n + 6)"
| "loop_rank SetRunning = (1, 5)"
| "loop_rank WaitStop = (1, 4)"
| "loop_rank CancelContext = (1, 3)"
| "loop_rank WaitGoroutines = (1, 2)"
| "loop_rank SetInitialized = (1, 1)"

text \<open>Then the goroutines that are left; a step of the loop counts more than any number of them.\<close>

definition distance :: "server \<Rightarrow> nat \<times> nat \<times> nat" where
  "distance s = (fst (loop_rank (sv_pc s)), snd (loop_rank (sv_pc s)), length (sv_wg s))"

definition closer_to_end :: "(server \<times> server) set" where
  "closer_to_end = inv_image (less_than <*lex*> less_than <*lex*> less_than) distance"

lemma wf_closer_to_end: "wf closer_to_end"
  by (simp add: closer_to_end_def wf_inv_image wf_lex_prod)

text \<open>Goroutines are counted only between the preparation and the end of the wait for them.\<close>

definition in_run :: "loop_pc \<Rightarrow> bool" where
  "in_run pc \<longleftrightarrow> pc \<notin> {WaitStart, Setup, FailInactive, FailState, SetInitialized}"

definition inv_wg :: "server \<Rightarrow> bool" where
  "inv_wg s \<longleftrightarrow> (sv_wg s \<noteq> [] \<longrightarrow> in_run (sv_pc s))"

lemma loop_wg: "inv_wg s \<Longrightarrow> loop_step k a s = Some s' \<Longrightarrow> inv_wg s'"
proof (cases a)
  case (LoopSetup r)
  then show "inv_wg s \<Longrightarrow> loop_step k a s = Some s' \<Longrightarrow> inv_wg s'"
    by (cases r; cases k) (auto simp: inv_wg_def in_run_def server_defs split: if_splits)
qed (auto simp: inv_wg_def in_run_def setState_def split: loop_pc.splits nat.splits if_splits)

text \<open>What a step outside the loop leaves: the position, and the goroutines but for one that ends.\<close>

lemma other_step:
  assumes "server_step k a s = Some s'" "\<And>l. a \<noteq> Loop l"
  shows "sv_pc s' = sv_pc s \<and> sv_wg s' = (case a of GoroutineEnds g \<Rightarrow> remove1 g (sv_wg s) | _ \<Rightarrow> sv_wg s)"
proof (cases a)
  case (Thread t)
  with assms show ?thesis by (cases t) (auto simp: server_defs Let_def split: if_splits)
next
  case (PingDone r)
  with assms show ?thesis by (cases r) (auto simp: server_defs split: if_splits)
qed (use assms in \<open>auto simp: server_defs split: if_splits server_kind.splits\<close>)

lemma orderly_wg: "orderly_run k s \<Longrightarrow> inv_wg s"
proof (induction rule: orderly_run.induct)
  case orderly_init
  show ?case by (simp add: inv_wg_def server_init_def)
next
  case (orderly_step s a s')
  show ?case
  proof (cases "\<exists>l. a = Loop l")
    case True
    with orderly_step show ?thesis by (auto intro: loop_wg)
  next
    case False
    with other_step [OF orderly_step(2)] orderly_step(4) show ?thesis by (auto simp: inv_wg_def split: server_action.splits)
  qed
qed

lemma loop_closer:
  "\<not> sv_runActive s \<Longrightarrow> sv_pc s \<noteq> WaitStart \<Longrightarrow> loop_step k a s = Some s' \<Longrightarrow>
     (s', s) \<in> closer_to_end \<and> \<not> sv_runActive s' \<and> (sv_pc s' = WaitStart \<longrightarrow> sv_state s' = INITIALIZED)"
proof (cases a)
  case (LoopSetup r)
  then show "\<not> sv_runActive s \<Longrightarrow> sv_pc s \<noteq> WaitStart \<Longrightarrow> loop_step k a s = Some s' \<Longrightarrow> ?thesis"
    by (cases r; cases k) (auto simp: closer_to_end_def distance_def server_defs split: if_splits)
qed (auto simp: closer_to_end_def distance_def setState_def split: loop_pc.splits nat.splits if_splits)

lemma flag_stays_down:
  assumes "server_inv k s" "sv_pc s \<noteq> WaitStart" "\<not> sv_runActive s" "server_step k a s = Some s'" "\<And>l. a \<noteq> Loop l"
  shows "\<not> sv_runActive s'"
proof (cases a)
  case (Thread t)
  with assms show ?thesis by (cases t) (auto simp: server_inv_def inv_flag_def server_defs Let_def split: if_splits)
next
  case (PingDone r)
  with assms show ?thesis by (cases r) (auto simp: server_defs split: if_splits)
qed (use assms in \<open>auto simp: server_defs split: if_splits server_kind.splits\<close>)

text \<open>A context that was cancelled stays so, and no new one is made while the loop is in a run.\<close>

lemma ctx_stays_done:
  assumes "server_inv k s" "sv_pc s \<noteq> WaitStart" "ctx_done s" "server_step k a s = Some s'"
  shows "ctx_done s'"
proof -
  have st: "sv_state s \<noteq> INITIALIZED" using assms(1,2) by (auto simp: server_inv_def inv_flag_def)
  show ?thesis
  proof (cases a)
    case (Thread t)
    with assms(3,4) show ?thesis by (cases t) (auto simp: ctx_done_def server_defs cancelCtx_def Let_def split: if_splits option.splits)
  next
    case (PingDone r)
    with assms(3,4) show ?thesis by (cases r) (auto simp: ctx_done_def server_defs split: if_splits option.splits)
  next
    case (Loop l)
    show ?thesis
    proof (cases l)
      case (LoopSetup r)
      with Loop assms(3,4) show ?thesis by (cases r; cases k) (auto simp: ctx_done_def server_defs split: if_splits option.splits)
    qed (use Loop assms(3,4) in \<open>auto simp: ctx_done_def setState_def cancelCtx_def split: loop_pc.splits nat.splits if_splits option.splits\<close>)
  qed (use assms(3,4) st in \<open>auto simp: ctx_done_def server_defs split: if_splits option.splits server_kind.splits\<close>)
qed

text \<open>The run has been told to stop, and the loop is not back at its start.\<close>

definition stopping :: "server_kind \<Rightarrow> server \<Rightarrow> bool" where
  "stopping k s \<longleftrightarrow> server_inv k s \<and> inv_wg s \<and> sv_pc s \<noteq> WaitStart \<and> \<not> sv_runActive s \<and> ctx_done s"

fun progresses :: "server_action \<Rightarrow> bool" where
  "progresses (Loop _) = True"
| "progresses (GoroutineEnds _) = True"
| "progresses _ = False"

lemma stopping_step:
  assumes "stopping k s" "server_step k a s = Some s'" "ping_allowed a s"
  shows "(if progresses a then (s', s) \<in> closer_to_end else distance s' = distance s) \<and>
    (stopping k s' \<or> sv_pc s' = WaitStart \<and> sv_state s' = INITIALIZED \<and> sv_wg s' = [])"
proof -
  note s = assms(1) [unfolded stopping_def]
  have inv: "server_inv k s'" "ctx_done s'" using inv_step ctx_stays_done assms s by blast+
  show ?thesis
  proof (cases "\<exists>l. a = Loop l")
    case True
    then obtain l where l: "a = Loop l" "loop_step k l s = Some s'" using assms(2) by auto
    have "inv_wg s'" using loop_wg l(2) s by blast
    with loop_closer [OF _ _ l(2)] s inv l(1) show ?thesis by (auto simp: stopping_def inv_wg_def in_run_def)
  next
    case False
    then have other: "sv_pc s' = sv_pc s" "sv_wg s' = (case a of GoroutineEnds g \<Rightarrow> remove1 g (sv_wg s) | _ \<Rightarrow> sv_wg s)"
      using other_step [OF assms(2)] by blast+
    moreover have "\<not> sv_runActive s'" using flag_stays_down [OF _ _ _ assms(2)] s False by blast
    moreover have "sv_wg s \<noteq> []" if "a = GoroutineEnds g" for g using assms(2) that by (auto split: if_splits)
    ultimately show ?thesis
      using s inv assms(2) False
      by (cases a) (auto simp: stopping_def inv_wg_def distance_def closer_to_end_def length_remove1 split: if_splits)
  qed
qed

text \<open>
  Executions without end. A step that the loop itself can take (a socket that becomes ready is not up to it) is taken some time, and a
  goroutine of the run that is stopped returns some time.
\<close>

definition server_trace :: "server_kind \<Rightarrow> (nat \<Rightarrow> server_action) \<Rightarrow> (nat \<Rightarrow> server) \<Rightarrow> bool" where
  "server_trace k acts \<sigma> \<longleftrightarrow> (\<forall>i. server_step k (acts i) (\<sigma> i) = Some (\<sigma> (Suc i)) \<and> ping_allowed (acts i) (\<sigma> i))"

definition loop_can :: "server_kind \<Rightarrow> server \<Rightarrow> bool" where
  "loop_can k s \<longleftrightarrow> (\<exists>a. a \<noteq> SocketReady \<and> loop_step k a s \<noteq> None)"

definition loop_fair :: "server_kind \<Rightarrow> (nat \<Rightarrow> server_action) \<Rightarrow> (nat \<Rightarrow> server) \<Rightarrow> bool" where
  "loop_fair k acts \<sigma> \<longleftrightarrow> (\<forall>i. (\<forall>j \<ge> i. loop_can k (\<sigma> j)) \<longrightarrow> (\<exists>j \<ge> i. \<exists>a. acts j = Loop a))"

definition goroutines_return :: "(nat \<Rightarrow> server_action) \<Rightarrow> (nat \<Rightarrow> server) \<Rightarrow> bool" where
  "goroutines_return acts \<sigma> \<longleftrightarrow>
     (\<forall>i. (\<forall>j \<le> i. sv_pc (\<sigma> j) \<noteq> WaitStart) \<longrightarrow> (\<forall>g \<in> set (sv_wg (\<sigma> i)). \<exists>j \<ge> i. acts j = GoroutineEnds g))"

lemma stopping_loop_can: "stopping k s \<Longrightarrow> sv_wg s = [] \<Longrightarrow> loop_can k s"
proof -
  assume s: "stopping k s" "sv_wg s = []"
  show ?thesis
  proof (cases "sv_pc s")
    case Setup
    then have "loop_step k (LoopSetup (Ready 0)) s \<noteq> None" by simp
    then show ?thesis unfolding loop_can_def by blast
  next
    case (WaitSockets n)
    with s have "loop_step k LoopNext s \<noteq> None" by (cases n) (auto simp: stopping_def)
    then show ?thesis unfolding loop_can_def by blast
  next
    case WaitStart
    with s show ?thesis by (simp add: stopping_def)
  qed (use s in \<open>auto simp: loop_can_def stopping_def intro!: exI [of _ LoopNext]\<close>)
qed

lemma stopping_until:
  assumes "server_trace k acts \<sigma>" "stopping k (\<sigma> i)" "i \<le> j" "\<And>l. i \<le> l \<Longrightarrow> l < j \<Longrightarrow> \<not> progresses (acts l)"
  shows "stopping k (\<sigma> j) \<and> distance (\<sigma> j) = distance (\<sigma> i) \<and> sv_wg (\<sigma> j) = sv_wg (\<sigma> i)"
  using assms(3,4)
proof (induction j rule: dec_induct)
  case (step j)
  then have j: "stopping k (\<sigma> j)" "distance (\<sigma> j) = distance (\<sigma> i)" "sv_wg (\<sigma> j) = sv_wg (\<sigma> i)" "\<not> progresses (acts j)" by auto
  have tr: "server_step k (acts j) (\<sigma> j) = Some (\<sigma> (Suc j))" "ping_allowed (acts j) (\<sigma> j)"
    using assms(1) by (simp_all add: server_trace_def)
  have "\<And>l. acts j \<noteq> Loop l" "\<And>g. acts j \<noteq> GoroutineEnds g" using j(4) by auto
  with other_step [OF tr(1)] have "sv_pc (\<sigma> (Suc j)) = sv_pc (\<sigma> j)" "sv_wg (\<sigma> (Suc j)) = sv_wg (\<sigma> j)"
    by (auto split: server_action.splits)
  with stopping_step [OF j(1) tr] j show ?case by (auto simp: stopping_def)
qed (use assms(2) in simp)

lemma stopping_ends:
  assumes tr: "server_trace k acts \<sigma>" and fair: "loop_fair k acts \<sigma>" and ret: "goroutines_return acts \<sigma>"
    and "stopping k (\<sigma> i)" "\<forall>j \<le> i. sv_pc (\<sigma> j) \<noteq> WaitStart"
  shows "\<exists>j \<ge> i. sv_pc (\<sigma> j) = WaitStart \<and> sv_state (\<sigma> j) = INITIALIZED \<and> sv_wg (\<sigma> j) = []"
  using assms(4,5)
proof (induction "\<sigma> i" arbitrary: i rule: wf_induct_rule [OF wf_closer_to_end])
  case (1 i)
  have "\<exists>j \<ge> i. progresses (acts j)"
  proof (rule ccontr)
    assume "\<not> ?thesis"
    then have none: "\<And>j. i \<le> j \<Longrightarrow> \<not> progresses (acts j)" by blast
    have same: "stopping k (\<sigma> j) \<and> sv_wg (\<sigma> j) = sv_wg (\<sigma> i)" if "i \<le> j" for j
      using stopping_until [OF tr 1(2) that] none by blast
    have "sv_wg (\<sigma> i) = []"
    proof (rule ccontr)
      assume "sv_wg (\<sigma> i) \<noteq> []"
      then have "hd (sv_wg (\<sigma> i)) \<in> set (sv_wg (\<sigma> i))" by simp
      then obtain j where j: "j \<ge> i" "acts j = GoroutineEnds (hd (sv_wg (\<sigma> i)))" using ret [unfolded goroutines_return_def] 1(3) by blast
      from none [OF j(1)] j(2) show False by simp
    qed
    then have "\<forall>j \<ge> i. loop_can k (\<sigma> j)" using same stopping_loop_can by metis
    then obtain j a where j: "j \<ge> i" "acts j = Loop a" using fair [unfolded loop_fair_def] by blast
    from none [OF j(1)] j(2) show False by simp
  qed
  then have "\<exists>j. i \<le> j \<and> progresses (acts j)" by blast
  define j where "j = (LEAST j. i \<le> j \<and> progresses (acts j))"
  have j: "i \<le> j" "progresses (acts j)" unfolding j_def using \<open>\<exists>j. i \<le> j \<and> progresses (acts j)\<close> by (auto intro: LeastI2_ex)
  have before: "\<not> progresses (acts l)" if "i \<le> l" "l < j" for l
    using not_less_Least [of l "\<lambda>j. i \<le> j \<and> progresses (acts j)"] that by (auto simp: j_def)
  have until: "stopping k (\<sigma> l) \<and> distance (\<sigma> l) = distance (\<sigma> i)" if "i \<le> l" "l \<le> j" for l
  proof -
    have "\<not> progresses (acts m)" if "i \<le> m" "m < l" for m by (rule before) (use that \<open>l \<le> j\<close> in simp_all)
    from stopping_until [OF tr 1(2) \<open>i \<le> l\<close> this] show ?thesis by simp
  qed
  from until [OF j(1) order_refl] have at_j: "stopping k (\<sigma> j)" "distance (\<sigma> j) = distance (\<sigma> i)" by simp_all
  from tr have "server_step k (acts j) (\<sigma> j) = Some (\<sigma> (Suc j))" "ping_allowed (acts j) (\<sigma> j)" by (simp_all add: server_trace_def)
  from stopping_step [OF at_j(1) this] j(2) at_j(2)
  have next_state: "(\<sigma> (Suc j), \<sigma> i) \<in> closer_to_end"
    "stopping k (\<sigma> (Suc j)) \<or> sv_pc (\<sigma> (Suc j)) = WaitStart \<and> sv_state (\<sigma> (Suc j)) = INITIALIZED \<and> sv_wg (\<sigma> (Suc j)) = []"
    by (auto simp: closer_to_end_def)
  show ?case
  proof (cases "stopping k (\<sigma> (Suc j))")
    case True
    have "sv_pc (\<sigma> l) \<noteq> WaitStart" if "l \<le> Suc j" for l
    proof (cases "l \<le> i")
      case False
      then have "stopping k (\<sigma> l)" using until [of l] True that by (cases "l = Suc j") simp_all
      then show ?thesis by (simp add: stopping_def)
    qed (use 1(3) in blast)
    then have "\<forall>l \<le> Suc j. sv_pc (\<sigma> l) \<noteq> WaitStart" by blast
    from 1(1) [OF next_state(1) True this] j(1) show ?thesis by (meson Suc_leD le_trans)
  next
    case False
    with next_state(2) j(1) show ?thesis by (intro exI [of _ "Suc j"]) auto
  qed
qed

lemma goroutine_holds_step:
  "g \<in> set (sv_wg s) \<Longrightarrow> in_run (sv_pc s) \<Longrightarrow> loop_step k l s = Some s' \<Longrightarrow> g \<in> set (sv_wg s') \<and> in_run (sv_pc s')"
  by (cases l) (auto simp: in_run_def setState_def split: loop_pc.splits nat.splits if_splits)

lemma goroutine_holds_loop:
  assumes "server_trace k acts \<sigma>" "\<forall>i. acts i \<noteq> GoroutineEnds g" "g \<in> set (sv_wg (\<sigma> 0))" "inv_wg (\<sigma> 0)"
  shows "g \<in> set (sv_wg (\<sigma> i)) \<and> in_run (sv_pc (\<sigma> i))"
proof (induction i)
  case 0
  with assms(3,4) show ?case by (auto simp: inv_wg_def)
next
  case (Suc i)
  have step: "server_step k (acts i) (\<sigma> i) = Some (\<sigma> (Suc i))" using assms(1) by (simp add: server_trace_def)
  show ?case
  proof (cases "\<exists>l. acts i = Loop l")
    case True
    then obtain l where "acts i = Loop l" "loop_step k l (\<sigma> i) = Some (\<sigma> (Suc i))" using step by auto
    with Suc show ?thesis using goroutine_holds_step by blast
  next
    case False
    moreover have "g \<in> set (remove1 h (sv_wg (\<sigma> i)))" if "acts i = GoroutineEnds h" for h
      using that assms(2) Suc in_set_remove1 [of g h] by metis
    ultimately show ?thesis using other_step [OF step] Suc by (auto split: server_action.splits)
  qed
qed

text \<open>
  C21. When a run ends. Take any execution of a process from a state in which the run has been told to stop: the flag is down, the context
  cancelled, the loop not yet back at its start, and pings are sent to idle processes only. If the loop takes the steps it can take and each
  goroutine that the run's \<open>WaitGroup\<close> counts returns some time, then the loop comes back to its start in the state INITIALIZED with no
  goroutine of the run left, whatever calls, errors and connections happen meanwhile. The condition on the goroutines cannot be dropped: as
  long as one of them does not return the loop does not come back.
\<close>

theorem stopped_run_ends:
  assumes "orderly_run k (\<sigma> 0)" and "server_trace k acts \<sigma>" and "sv_pc (\<sigma> 0) \<noteq> WaitStart" and "\<not> sv_runActive (\<sigma> 0)" and "ctx_done (\<sigma> 0)"
  shows "(loop_fair k acts \<sigma> \<and> goroutines_return acts \<sigma> \<longrightarrow>
       (\<exists>i. sv_pc (\<sigma> i) = WaitStart \<and> sv_state (\<sigma> i) = INITIALIZED \<and> sv_wg (\<sigma> i) = [])) \<and>
    (\<forall>g \<in> set (sv_wg (\<sigma> 0)). (\<forall>i. acts i \<noteq> GoroutineEnds g) \<longrightarrow> (\<forall>i. sv_pc (\<sigma> i) \<noteq> WaitStart))"
proof -
  have stopping: "stopping k (\<sigma> 0)" using assms orderly_inv orderly_wg by (auto simp: stopping_def)
  then have "\<exists>i. sv_pc (\<sigma> i) = WaitStart \<and> sv_state (\<sigma> i) = INITIALIZED \<and> sv_wg (\<sigma> i) = []"
    if "loop_fair k acts \<sigma>" "goroutines_return acts \<sigma>"
    using stopping_ends [OF assms(2) that stopping] assms(3) by auto
  moreover have "sv_pc (\<sigma> i) \<noteq> WaitStart" if "g \<in> set (sv_wg (\<sigma> 0))" "\<forall>i. acts i \<noteq> GoroutineEnds g" for g i
    using goroutine_holds_loop [OF assms(2) that(2,1) orderly_wg [OF assms(1)], of i] by (auto simp: in_run_def)
  ultimately show ?thesis by blast
qed

text \<open>The end of the example's run, and then a client that asks for the state for ever.\<close>

fun server_states :: "server_kind \<Rightarrow> (nat \<Rightarrow> server_action) \<Rightarrow> server \<Rightarrow> nat \<Rightarrow> server" where
  "server_states k acts s 0 = s"
| "server_states k acts s (Suc i) = (case server_step k (acts i) (server_states k acts s i) of Some s' \<Rightarrow> s' | None \<Rightarrow> server_states k acts s i)"

definition example_end :: "nat \<Rightarrow> server_action" where
  "example_end i = (if i = 0 then GoroutineEnds UpdateGauges else if i < 3 then Loop LoopNext else CallGetState)"

lemma server_states_idle:
  assumes "sv_pc (server_states k acts s n) = WaitStart" "\<not> sv_runActive (server_states k acts s n)" "n \<le> i" "\<forall>j \<ge> n. acts j = CallGetState"
  shows "sv_pc (server_states k acts s i) = WaitStart \<and> \<not> sv_runActive (server_states k acts s i)"
  using assms(3) by (induction i rule: dec_induct) (use assms in \<open>auto simp: GetState_def\<close>)

theorem stopped_run_ends_witness:
  "\<exists>s. server_exec GDC (take 13 example_run) server_init = Some s \<and> sv_pc s = WaitGoroutines \<and> sv_wg s = [UpdateGauges] \<and>
     (\<exists>i. sv_pc (server_states GDC example_end s i) = WaitStart \<and> sv_state (server_states GDC example_end s i) = INITIALIZED)"
proof -
  have "\<exists>s. server_exec GDC (take 13 example_run) server_init = Some s \<and> sv_pc s = WaitGoroutines \<and> \<not> sv_runActive s \<and> ctx_done s \<and>
      sv_wg s = [UpdateGauges]"
    by (simp add: server_init_def server_defs run_goroutines_def example_run_def ctx_done_def cancelCtx_def)
  then obtain s where s: "server_exec GDC (take 13 example_run) server_init = Some s" "sv_pc s = WaitGoroutines" "\<not> sv_runActive s" "ctx_done s"
      "sv_wg s = [UpdateGauges]" by blast
  let ?x = "server_states GDC example_end s"
  have acts: "example_end 0 = GoroutineEnds UpdateGauges" "example_end (Suc 0) = Loop LoopNext" "example_end (Suc (Suc 0)) = Loop LoopNext"
    by (simp_all add: example_end_def)
  have x: "server_step GDC (example_end 0) (?x 0) = Some (?x (Suc 0))" "sv_pc (?x (Suc 0)) = WaitGoroutines" "sv_wg (?x (Suc 0)) = []"
    "\<not> sv_runActive (?x (Suc 0))" using s by (simp_all add: acts)
  have y: "server_step GDC (example_end (Suc 0)) (?x (Suc 0)) = Some (?x (Suc (Suc 0)))" "sv_pc (?x (Suc (Suc 0))) = SetInitialized"
    "sv_wg (?x (Suc (Suc 0))) = []" "\<not> sv_runActive (?x (Suc (Suc 0)))"
    unfolding server_states.simps(2) [of _ _ _ "Suc 0"] using x by (simp_all add: acts del: server_states.simps)
  have z: "server_step GDC (example_end (Suc (Suc 0))) (?x (Suc (Suc 0))) = Some (?x 3)" "sv_pc (?x 3) = WaitStart" "\<not> sv_runActive (?x 3)"
    unfolding eval_nat_numeral(3) numeral_2_eq_2 server_states.simps(2) [of _ _ _ "Suc (Suc 0)"] using y
    by (simp_all add: acts setState_def del: server_states.simps)
  have later: "sv_pc (?x i) = WaitStart \<and> \<not> sv_runActive (?x i)" if "3 \<le> i" for i
    by (rule server_states_idle [OF z(2,3) that]) (simp add: example_end_def)
  have step: "server_step GDC (example_end i) (?x i) = Some (?x (Suc i))" for i
  proof (cases "i < 3")
    case True
    then have "i = 0 \<or> i = Suc 0 \<or> i = Suc (Suc 0)" by auto
    with x(1) y(1) z(1) show ?thesis by (auto simp: numeral_3_eq_3)
  qed (simp add: example_end_def)
  have "server_trace GDC example_end ?x"
    unfolding server_trace_def using step by (auto simp: ping_allowed_def example_end_def)
  moreover have "loop_fair GDC example_end ?x"
  proof -
    have none: "\<not> loop_can GDC (?x (max i 3))" for i
    proof
      assume "loop_can GDC (?x (max i 3))"
      then obtain a where "a \<noteq> SocketReady" "loop_step GDC a (?x (max i 3)) \<noteq> None" unfolding loop_can_def by blast
      then show False using later [of "max i 3"] by (cases a) auto
    qed
    show ?thesis unfolding loop_fair_def
    proof (intro allI impI)
      fix i assume "\<forall>j \<ge> i. loop_can GDC (?x j)"
      then have "loop_can GDC (?x (max i 3))" by simp
      with none show "\<exists>j \<ge> i. \<exists>a. example_end j = Loop a" by blast
    qed
  qed
  moreover have "goroutines_return example_end ?x"
    unfolding goroutines_return_def
  proof (intro allI impI ballI)
    fix i g assume run: "\<forall>j \<le> i. sv_pc (?x j) \<noteq> WaitStart" and g: "g \<in> set (sv_wg (?x i))"
    have "\<not> 3 \<le> i" using run later by blast
    then have "i = 0 \<or> i = Suc 0 \<or> i = Suc (Suc 0)" by auto
    with g s(5) x(3) y(3) have "i = 0 \<and> g = UpdateGauges" by (auto simp del: server_states.simps(2))
    then show "\<exists>j \<ge> i. example_end j = GoroutineEnds g" using acts(1) by blast
  qed
  moreover have "orderly_run GDC s"
    by (rule server_exec_orderly [OF orderly_init _ s(1)]) (simp add: example_run_def)
  ultimately show ?thesis using stopped_run_ends [of GDC ?x example_end] s by auto
qed

subsection \<open>Where the protocol breaks\<close>

inductive server_steps :: "server_kind \<Rightarrow> server \<Rightarrow> server \<Rightarrow> bool" for k s where
  steps_refl: "server_steps k s s"
| steps_step: "server_steps k s s' \<Longrightarrow> server_step k a s' = Some s'' \<Longrightarrow> server_steps k s s''"

text \<open>A context that is no longer the process's own is never cancelled.\<close>

definition orphaned :: "nat \<Rightarrow> server \<Rightarrow> bool" where
  "orphaned n s \<longleftrightarrow> n < sv_contexts s \<and> n \<notin> set (sv_cancelled s) \<and> (\<forall>c. sv_ctx s = Some c \<longrightarrow> cx_number c \<noteq> n)"

lemma orphaned_step: "orphaned n s \<Longrightarrow> server_step k a s = Some s' \<Longrightarrow> orphaned n s'"
proof (cases a)
  case (Thread t)
  then show "orphaned n s \<Longrightarrow> server_step k a s = Some s' \<Longrightarrow> orphaned n s'"
    by (cases t) (auto simp: orphaned_def server_defs cancelCtx_def Let_def split: if_splits option.splits)
next
  case (Loop l)
  then show "orphaned n s \<Longrightarrow> server_step k a s = Some s' \<Longrightarrow> orphaned n s'"
  proof (cases l)
    case (LoopSetup r)
    with Loop show "orphaned n s \<Longrightarrow> server_step k a s = Some s' \<Longrightarrow> orphaned n s'"
      by (cases r; cases k) (auto simp: orphaned_def server_defs split: if_splits)
  qed (auto simp: orphaned_def setState_def cancelCtx_def split: loop_pc.splits nat.splits if_splits option.splits)
next
  case (PingDone r)
  then show "orphaned n s \<Longrightarrow> server_step k a s = Some s' \<Longrightarrow> orphaned n s'"
    by (cases r) (auto simp: orphaned_def server_defs split: if_splits)
qed (auto simp: orphaned_def server_defs split: if_splits server_kind.splits)

lemma orphaned_steps: "server_steps k s s' \<Longrightarrow> orphaned n s \<Longrightarrow> orphaned n s'"
  by (induction rule: server_steps.induct) (auto dest: orphaned_step)

lemma run_contexts_new: "server_run k s \<Longrightarrow> contexts_new s"
proof (induction rule: server_run.induct)
  case run_init
  show ?case by (simp add: contexts_new_def server_init_def)
qed (rule contexts_new_step)

text \<open>
  C33. A ping to an LDC in a run lets a second start through, in every state that an LDC can reach: \<open>PingDevices\<close> sets the state to
  INITIALIZED whatever it was and however the ping ends, so \<open>StartRun\<close> is accepted while the loop and the goroutines are still in the first run.
  It replaces the context by one without configuration, and whatever happens afterwards the context of the first run is never
  cancelled: the goroutine that holds it (\<open>ProcessMetrics\<close>) is never told to end.
\<close>

theorem ping_during_run_allows_second_start:
  assumes "server_run LDC s" and "in_run (sv_pc s)" and "sv_ctx s = Some c" and "cx_number c \<notin> set (sv_cancelled s)"
  shows "\<exists>s'. server_exec LDC [CallPing, PingDone r, CallStart] s = Some s' \<and>
    sv_state s' = STARTING \<and> sv_pc s' = sv_pc s \<and> sv_wg s' = sv_wg s \<and> sv_ctx s' = Some \<lparr>cx_number = sv_contexts s, cx_configured = False\<rparr> \<and>
    (\<forall>s''. server_steps LDC s' s'' \<longrightarrow> cx_number c \<notin> set (sv_cancelled s''))"
proof -
  have "\<exists>s'. server_exec LDC [CallPing, PingDone r, CallStart] s = Some s' \<and> sv_state s' = STARTING \<and> sv_pc s' = sv_pc s \<and>
      sv_wg s' = sv_wg s \<and> sv_ctx s' = Some \<lparr>cx_number = sv_contexts s, cx_configured = False\<rparr> \<and> sv_cancelled s' = sv_cancelled s \<and>
      sv_contexts s' = Suc (sv_contexts s)"
    by (cases r) (simp_all add: server_defs)
  then obtain s' where s': "server_exec LDC [CallPing, PingDone r, CallStart] s = Some s'" "sv_state s' = STARTING" "sv_pc s' = sv_pc s"
      "sv_wg s' = sv_wg s" "sv_ctx s' = Some \<lparr>cx_number = sv_contexts s, cx_configured = False\<rparr>" "sv_cancelled s' = sv_cancelled s"
      "sv_contexts s' = Suc (sv_contexts s)"
    by blast
  have "cx_number c < sv_contexts s" using run_contexts_new [OF assms(1)] assms(3) by (simp add: contexts_new_def)
  then have orph: "orphaned (cx_number c) s'" using s' assms(4) by (simp add: orphaned_def)
  have "cx_number c \<notin> set (sv_cancelled s'')" if "server_steps LDC s' s''" for s''
    using orphaned_steps [OF that orph] by (simp add: orphaned_def)
  with s' show ?thesis by blast
qed

lemma server_exec_run: "server_run k s \<Longrightarrow> server_exec k as s = Some s' \<Longrightarrow> server_run k s'"
  by (induction as arbitrary: s) (auto split: option.splits intro: run_step)

theorem ping_during_run_allows_second_start_witness:
  "\<exists>s s'. server_exec LDC [CallStart, Thread StartSignal, Loop LoopNext, Loop (LoopSetup (Ready 1)), Loop SocketReady, Loop LoopNext, Loop LoopNext]
       server_init = Some s \<and> sv_state s = RUNNING \<and> server_exec LDC [CallPing, PingDone (Pinged True), CallStart] s = Some s' \<and>
     sv_pc s' = WaitStop \<and> ReadSubEvents \<in> set (sv_wg s') \<and> (\<forall>s''. server_steps LDC s' s'' \<longrightarrow> 0 \<notin> set (sv_cancelled s''))"
proof -
  let ?as = "[CallStart, Thread StartSignal, Loop LoopNext, Loop (LoopSetup (Ready 1)), Loop SocketReady, Loop LoopNext, Loop LoopNext]"
  have "\<exists>s. server_exec LDC ?as server_init = Some s \<and> sv_state s = RUNNING \<and> sv_pc s = WaitStop \<and>
      sv_ctx s = Some \<lparr>cx_number = 0, cx_configured = True\<rparr> \<and> sv_cancelled s = [] \<and> ReadSubEvents \<in> set (sv_wg s)"
    by (simp add: server_init_def server_defs run_goroutines_def)
  then obtain s where s: "server_exec LDC ?as server_init = Some s" "sv_state s = RUNNING" "sv_pc s = WaitStop"
      "sv_ctx s = Some \<lparr>cx_number = 0, cx_configured = True\<rparr>" "sv_cancelled s = []" "ReadSubEvents \<in> set (sv_wg s)"
    by blast
  have "server_run LDC s" by (rule server_exec_run [OF run_init s(1)])
  from ping_during_run_allows_second_start [OF this _ s(4), of "Pinged True"] s(3,5)
  obtain s' where "server_exec LDC [CallPing, PingDone (Pinged True), CallStart] s = Some s'" "sv_pc s' = sv_pc s" "sv_wg s' = sv_wg s"
      "\<forall>s''. server_steps LDC s' s'' \<longrightarrow> 0 \<notin> set (sv_cancelled s'')"
    by (auto simp: in_run_def simp del: server_exec.simps)
  with s show ?thesis by metis
qed

text \<open>A process whose loop waits, with nothing on its way that could wake it.\<close>

definition stuck :: "server \<Rightarrow> bool" where
  "stuck s \<longleftrightarrow> sv_state s = STOPPING \<and> sv_pc s = WaitStart \<and> \<not> sv_runActive s \<and> raises (sv_threads s) = 0 \<and> sv_pings s = 0"

lemma stuck_step: "stuck s \<Longrightarrow> server_step GDC a s = Some s' \<Longrightarrow> stuck s'"
proof (cases a)
  case (Thread t)
  then show "stuck s \<Longrightarrow> server_step GDC a s = Some s' \<Longrightarrow> stuck s'"
    by (cases t) (auto simp: stuck_def server_defs Let_def split: if_splits)
next
  case (Loop l)
  then show "stuck s \<Longrightarrow> server_step GDC a s = Some s' \<Longrightarrow> stuck s'" by (cases l) (auto simp: stuck_def)
qed (auto simp: stuck_def server_defs split: if_splits)

lemma stuck_steps: "server_steps GDC s s' \<Longrightarrow> stuck s \<Longrightarrow> stuck s'"
  by (induction rule: server_steps.induct) (auto dest: stuck_step)

text \<open>
  C35. A GDC that is stopped before its loop has seen the start never leaves the state STOPPING: the flag goes
  up and down while the loop sleeps, so the loop does not run and nothing sets the state back. Every later start and
  every later stop is refused.
\<close>

theorem early_stop_is_never_left:
  "\<exists>s. server_exec GDC [CallStart, Thread StartSignal, CallStop, Thread StopCancel, Thread StopSignal] server_init = Some s \<and>
     (\<forall>s'. server_steps GDC s s' \<longrightarrow> sv_state s' = STOPPING \<and> sv_pc s' = WaitStart \<and>
        snd (StartRun s') = ''Cannot start before stop'' \<and> snd (StopRun s') = ''Can not stop before start'')"
proof -
  have "map_option (\<lambda>s. (sv_state s, sv_pc s, sv_runActive s, sv_threads s, sv_pings s))
      (server_exec GDC [CallStart, Thread StartSignal, CallStop, Thread StopCancel, Thread StopSignal] server_init) =
      Some (STOPPING, WaitStart, False, [], 0)" by code_simp
  then obtain s where s: "server_exec GDC [CallStart, Thread StartSignal, CallStop, Thread StopCancel, Thread StopSignal]
      server_init = Some s" and "stuck s" by (auto simp: stuck_def)
  then have "stuck s'" if "server_steps GDC s s'" for s' using stuck_steps that by blast
  then have "\<forall>s'. server_steps GDC s s' \<longrightarrow> sv_state s' = STOPPING \<and> sv_pc s' = WaitStart \<and>
        snd (StartRun s') = ''Cannot start before stop'' \<and> snd (StopRun s') = ''Can not stop before start''"
    by (auto simp: stuck_def StartRun_def StopRun_def)
  with s show ?thesis by blast
qed

theorem early_stop_is_never_left_witness:
  "\<exists>s. server_exec GDC [CallStart, Thread StartSignal, CallStop, Thread StopCancel, Thread StopSignal] server_init = Some s \<and>
     snd (StartRun s) = ''Cannot start before stop'' \<and> snd (StopRun s) = ''Can not stop before start''"
  using early_stop_is_never_left steps_refl [of GDC] by blast

text \<open>
  The normal end of a run reaches the API as an error: when the last LDC has closed its connection, the monitor of a
  GDC logs at the level Error, and the message makes the API stop every process by force (unless the GDC's
  logger publishes nothing or is the API itself).
\<close>

theorem drained_gdc_forces_stop:
  assumes "sv_connections s = []" "dl_LogLevel l \<le> LevelError" "dl_publisher l" "dl_Host l \<noteq> ''api''"
  shows "\<exists>v. last (sv_log (thread_step (MonitorSet b) s)) = (LevelError, v) \<and>
    (\<exists>m \<in> set (le_published (log_at l LevelError v)). shouldForceStopFromMessage (Some m) ''api'')"
  using assms
  by (auto simp: Let_def server_defs log_at_def Handle_def shouldForceStopFromMessage_def message_type_def level_defs)

theorem drained_gdc_forces_stop_witness:
  "last (sv_log (thread_step (MonitorSet True) server_init)) = (LevelError, Text ''No LDC connections, stopping GDC'')"
  using drained_gdc_forces_stop [of server_init "NewDuckLogger ''gdc1'' True LevelInfo" True]
  by (simp add: server_init_def NewDuckLogger_def NewDuckLoggerWithRun_def level_defs Let_def server_defs)

end
