(* ===== verification/Gdc_Accept.thy ===== *)
theory Gdc_Accept
  imports Data_Flow Run_Server
begin

text \<open>
  How the sub-events get from the network to the event builder of a GDC: the accept loop and the monitor of the connections
  (\<open>acceptTCPConnections\<close>, \<open>ldcConnectionMonitor\<close> of \<open>src/gdcRPC/gdc.go\<close>), one \<open>handleConnection\<close> per connection
  (\<open>src/gdcRPC/ldcData.go\<close>) and the channels between them.

  Every goroutine is a program counter; a step is one operation that another goroutine can observe: a channel operation, a read, a
  critical section of the server (\<open>Run_Server\<close>). Channels are bounded queues; their capacities are those of the configuration,
  and a capacity of zero (a rendezvous) is not modelled. A handler that has read a chunk does what \<open>processData\<close> does with it one effect
  at a time, and reads again when all are done: it sends events and asks for stops, in the order of the code; what follows the first
  section of a stop runs as a thread of the server. \<open>ac_sent\<close> and \<open>hn_chunks\<close> are histories, which no step looks at.
\<close>

section \<open>Definitions\<close>

datatype handler_pc = HandlerReads | HandlerCloses | HandlerGone

record conn_handler =
  hn_chunks :: "bytes list"
  hn_conn :: ldc_conn
  hn_pending :: "conn_effect list"
  hn_pc :: handler_pc

datatype acceptor_pc = AcceptorWaits | AcceptorSends int | AcceptorGone

text \<open>The values of the context: the capacities of the channels and the number of GDCs, which the handlers read.\<close>

record accept_params =
  aq_cap :: "nat \<Rightarrow> nat"
  aq_nGDCs :: "int option"
  aq_dataCh :: nat
  aq_tcpConnCh :: "nat option"

record gdc_accept =
  ac_server :: server
  ac_pc :: acceptor_pc
  ac_open :: "int list"
  ac_close :: "int list"
  ac_monitoring :: bool
  ac_handlers :: "int \<Rightarrow> conn_handler option"
  ac_data :: "LDCData list"
  ac_building :: bool
  ac_sent :: "(int \<times> LDCData) list"
  ac_received :: "(LDCData \<times> int) list"
  ac_crashed :: bool

text \<open>The goroutines that \<open>gdcServer\<close> starts; without the size of the channels the accept loop ends at once.\<close>

definition accept_start :: "accept_params \<Rightarrow> server \<Rightarrow> gdc_accept" where
  "accept_start p sv =
     (let started = aq_tcpConnCh p \<noteq> None
      in \<lparr>ac_server = (if started then sv else log_error ''error getting TCP connection channel buffer size'' sv),
          ac_pc = (if started then AcceptorWaits else AcceptorGone), ac_open = [], ac_close = [], ac_monitoring = started,
          ac_handlers = Map.empty, ac_data = [], ac_building = True, ac_sent = [], ac_received = [], ac_crashed = False\<rparr>)"

definition new_handler :: conn_handler where
  "new_handler = \<lparr>hn_chunks = [], hn_conn = conn_init, hn_pending = [], hn_pc = HandlerReads\<rparr>"

definition conn_room :: "accept_params \<Rightarrow> int list \<Rightarrow> bool" where
  "conn_room p ch \<longleftrightarrow> (case aq_tcpConnCh p of None \<Rightarrow> False | Some n \<Rightarrow> length ch < n)"

datatype accept_action =
    AcceptReturns "string + int"
  | SendOpen
  | AcceptorSeesDone
  | ReadChunk int bytes
  | ReadEOF int
  | ReadFails int string
  | SendData int
  | HandlerStops int
  | SendClose int
  | HandlerSeesDone int
  | TakeOpen
  | TakeClose
  | MonitorSeesDone
  | TakeData int
  | BuilderSeesDone
  | ProcessStep server_action

subsection \<open>The accept loop\<close>

definition acceptTCPConnections :: "accept_params \<Rightarrow> accept_action \<Rightarrow> gdc_accept \<Rightarrow> gdc_accept option" where
  "acceptTCPConnections p act s =
     (case (ac_pc s, act) of
        (AcceptorWaits, AcceptorSeesDone) \<Rightarrow> if ctx_done (ac_server s) then Some (s\<lparr>ac_pc := AcceptorGone\<rparr>) else None
      | (AcceptorWaits, AcceptReturns (Inl err)) \<Rightarrow>
          Some (s\<lparr>ac_pc := AcceptorGone,
                  ac_server := (if sv_state (ac_server s) = RUNNING
                                then log_error (''error accepting TCP connection: '' @ err) (ac_server s) else ac_server s)\<rparr>)
      | (AcceptorWaits, AcceptReturns (Inr a)) \<Rightarrow>
          if sv_listening (ac_server s) \<and> ac_handlers s a = None then Some (s\<lparr>ac_pc := AcceptorSends a\<rparr>) else None
      | (AcceptorSends a, SendOpen) \<Rightarrow>
          if conn_room p (ac_open s)
          then Some (s\<lparr>ac_pc := AcceptorWaits, ac_open := ac_open s @ [a], ac_handlers := (ac_handlers s)(a \<mapsto> new_handler)\<rparr>)
          else None
      | _ \<Rightarrow> None)"

subsection \<open>The handler of a connection\<close>

definition set_handler :: "int \<Rightarrow> conn_handler \<Rightarrow> gdc_accept \<Rightarrow> gdc_accept" where
  "set_handler a h s = s\<lparr>ac_handlers := (ac_handlers s)(a \<mapsto> h)\<rparr>"

text \<open>One read of at most 9600 bytes; a panic of \<open>processData\<close> ends the process.\<close>

definition read_chunk :: "accept_params \<Rightarrow> int \<Rightarrow> conn_handler \<Rightarrow> bytes \<Rightarrow> gdc_accept \<Rightarrow> gdc_accept" where
  "read_chunk p a h chunk s =
     (case processData (aq_cap p) (aq_nGDCs p) chunk (hn_conn h) of
        Panic \<Rightarrow> s\<lparr>ac_crashed := True\<rparr>
      | Ok st \<Rightarrow>
          set_handler a (h\<lparr>hn_chunks := hn_chunks h @ [chunk], hn_conn := st,
              hn_pending := drop (length (lc_effects (hn_conn h))) (lc_effects st)\<rparr>) s)"

fun handleConnection :: "accept_params \<Rightarrow> accept_action \<Rightarrow> gdc_accept \<Rightarrow> gdc_accept option" where
  "handleConnection p (ReadChunk a chunk) s =
     (case ac_handlers s a of
        Some h \<Rightarrow> if hn_pc h = HandlerReads \<and> hn_pending h = [] \<and> chunk \<noteq> [] \<and> length chunk \<le> 9600
                  then Some (read_chunk p a h chunk s) else None
      | None \<Rightarrow> None)"
| "handleConnection p (SendData a) s =
     (case ac_handlers s a of
        Some h \<Rightarrow> (case hn_pending h of
            SendOn x # xs \<Rightarrow> if length (ac_data s) < aq_dataCh p
              then Some ((set_handler a (h\<lparr>hn_pending := xs\<rparr>) s)\<lparr>ac_data := ac_data s @ [x], ac_sent := ac_sent s @ [(a, x)]\<rparr>)
              else None
          | _ \<Rightarrow> None)
      | None \<Rightarrow> None)"
| "handleConnection p (HandlerStops a) s =
     (case ac_handlers s a of
        Some h \<Rightarrow> (case hn_pending h of
            AskStop message # xs \<Rightarrow>
              Some ((set_handler a (h\<lparr>hn_pending := xs\<rparr>) s)\<lparr>ac_server := stopOnLocalError message (ac_server s)\<rparr>)
          | _ \<Rightarrow> None)
      | None \<Rightarrow> None)"
| "handleConnection p (ReadEOF a) s =
     (case ac_handlers s a of
        Some h \<Rightarrow> if hn_pc h = HandlerReads \<and> hn_pending h = [] then Some (set_handler a (h\<lparr>hn_pc := HandlerCloses\<rparr>) s) else None
      | None \<Rightarrow> None)"
| "handleConnection p (SendClose a) s =
     (case ac_handlers s a of
        Some h \<Rightarrow> if hn_pc h = HandlerCloses \<and> conn_room p (ac_close s)
                  then Some ((set_handler a (h\<lparr>hn_pc := HandlerGone\<rparr>) s)\<lparr>ac_close := ac_close s @ [a]\<rparr>) else None
      | None \<Rightarrow> None)"
| "handleConnection p (ReadFails a err) s =
     (case ac_handlers s a of
        Some h \<Rightarrow> if hn_pc h = HandlerReads \<and> hn_pending h = []
                  then Some (s\<lparr>ac_server := log_error (''error reading data from LDC: '' @ err) (ac_server s)\<rparr>) else None
      | None \<Rightarrow> None)"
| "handleConnection p (HandlerSeesDone a) s =
     (case ac_handlers s a of
        Some h \<Rightarrow> if hn_pc h = HandlerReads \<and> hn_pending h = [] \<and> ctx_done (ac_server s)
                  then Some (set_handler a (h\<lparr>hn_pc := HandlerGone\<rparr>) s) else None
      | None \<Rightarrow> None)"
| "handleConnection p act s = None"

subsection \<open>The monitor\<close>

text \<open>Its \<open>select\<close> takes any of the cases that are ready, once it is done with the close before.\<close>

definition monitor_ready :: "gdc_accept \<Rightarrow> bool" where
  "monitor_ready s \<longleftrightarrow> ac_monitoring s \<and> (\<forall>b. MonitorSet b \<notin> set (sv_threads (ac_server s)))"

fun ldcConnectionMonitor :: "accept_action \<Rightarrow> gdc_accept \<Rightarrow> gdc_accept option" where
  "ldcConnectionMonitor TakeOpen s =
     (case ac_open s of
        a # as \<Rightarrow> if monitor_ready s then Some (s\<lparr>ac_open := as, ac_server := monitor_open a (ac_server s)\<rparr>) else None
      | [] \<Rightarrow> None)"
| "ldcConnectionMonitor TakeClose s =
     (case ac_close s of
        a # as \<Rightarrow> if monitor_ready s then Some (s\<lparr>ac_close := as, ac_server := monitor_close a (ac_server s)\<rparr>) else None
      | [] \<Rightarrow> None)"
| "ldcConnectionMonitor MonitorSeesDone s =
     (if monitor_ready s \<and> ctx_done (ac_server s) then Some (s\<lparr>ac_monitoring := False\<rparr>) else None)"
| "ldcConnectionMonitor act s = None"

subsection \<open>The event builder's end of the channel, and the rest of the process\<close>

fun builder_end :: "accept_action \<Rightarrow> gdc_accept \<Rightarrow> gdc_accept option" where
  "builder_end (TakeData now) s =
     (case ac_data s of
        x # xs \<Rightarrow> if ac_building s then Some (s\<lparr>ac_data := xs, ac_received := ac_received s @ [(x, now)]\<rparr>) else None
      | [] \<Rightarrow> None)"
| "builder_end BuilderSeesDone s = (if ac_building s \<and> ctx_done (ac_server s) then Some (s\<lparr>ac_building := False\<rparr>) else None)"
| "builder_end act s = None"

definition from_monitor :: "server_action \<Rightarrow> bool" where
  "from_monitor a = (case a of ConnectionOpen _ \<Rightarrow> True | ConnectionClose _ \<Rightarrow> True | _ \<Rightarrow> False)"

fun accept_step :: "accept_params \<Rightarrow> accept_action \<Rightarrow> gdc_accept \<Rightarrow> gdc_accept option" where
  "accept_step p act s =
     (if ac_crashed s then None
      else case act of
        AcceptReturns r \<Rightarrow> acceptTCPConnections p act s
      | SendOpen \<Rightarrow> acceptTCPConnections p act s
      | AcceptorSeesDone \<Rightarrow> acceptTCPConnections p act s
      | TakeOpen \<Rightarrow> ldcConnectionMonitor act s
      | TakeClose \<Rightarrow> ldcConnectionMonitor act s
      | MonitorSeesDone \<Rightarrow> ldcConnectionMonitor act s
      | TakeData now \<Rightarrow> builder_end act s
      | BuilderSeesDone \<Rightarrow> builder_end act s
      | ProcessStep a \<Rightarrow>
          if from_monitor a then None else map_option (\<lambda>sv. s\<lparr>ac_server := sv\<rparr>) (server_step GDC a (ac_server s))
      | _ \<Rightarrow> handleConnection p act s)"

inductive accept_run :: "accept_params \<Rightarrow> gdc_accept \<Rightarrow> gdc_accept \<Rightarrow> bool" for p s0 where
  run_here: "accept_run p s0 s0"
| run_on: "accept_run p s0 s \<Longrightarrow> accept_step p act s = Some s' \<Longrightarrow> accept_run p s0 s'"

fun accept_exec :: "accept_params \<Rightarrow> accept_action list \<Rightarrow> gdc_accept \<Rightarrow> gdc_accept option" where
  "accept_exec p [] s = Some s"
| "accept_exec p (a # as) s = (case accept_step p a s of None \<Rightarrow> None | Some s' \<Rightarrow> accept_exec p as s')"

declare accept_step.simps [simp del]

section \<open>Nothing is lost between the network and the builder\<close>

lemma emit_event_grows: "\<exists>ys. lc_effects (emit_event n e st) = lc_effects st @ ys"
  by (simp add: emit_event_def reset_conn_def local_error_def Let_def)

lemma read_size_out: "read_size chunk st = Some st1 \<Longrightarrow> lc_effects st1 = lc_effects st"
  by (auto simp: read_size_def Let_def split: if_splits)

lemma processData_grows: "processData cap n chunk st = Ok st' \<Longrightarrow> \<exists>ys. lc_effects st' = lc_effects st @ ys"
proof (induction cap n chunk st rule: processData.induct)
  case (1 cap nGDCs chunk st)
  show ?case
  proof (cases nGDCs)
    case None
    then show ?thesis using "1.prems" by (subst (asm) processData.simps) auto
  next
    case n: (Some n)
    show ?thesis
    proof (cases "read_size chunk st")
      case None
      then show ?thesis using "1.prems" n by (subst (asm) processData.simps) (auto simp: keep_chunk_def)
    next
      case st1: (Some st1)
      let ?remaining = "unat (lc_size st1 - lc_count st1)"
      let ?whole = "concat (lc_data st1 @ [take ?remaining chunk])"
      let ?st2 = "emit_event n ?whole st1"
      have out: "lc_effects st1 = lc_effects st" by (rule read_size_out [OF st1])
      note body = "1.prems" [unfolded processData.simps [of cap nGDCs chunk st], unfolded n st1 option.case Let_def]
      show ?thesis
      proof (cases "?remaining \<le> length chunk")
        case False
        then show ?thesis using body out by (auto simp: keep_chunk_def)
      next
        case le: True
        with body obtain m where m: "magic_word cap ?whole = Ok m" by (cases "magic_word cap ?whole") auto
        show ?thesis
        proof (cases "m \<noteq> EVENT_MAGIC_NUMBER \<or> length ?whole < 80")
          case True
          then show ?thesis using body le m out by (auto simp: reset_conn_def local_error_def simp del: concat_append split: if_splits)
        next
          case False
          then have rest: "(if drop ?remaining chunk \<noteq> [] then processData cap (Some n) (drop ?remaining chunk) ?st2 else Ok ?st2) = Ok st'"
            using body le m by (simp del: concat_append drop_eq_Nil)
          have "\<exists>ys. lc_effects st' = lc_effects ?st2 @ ys"
          proof (cases "drop ?remaining chunk = []")
            case nonempty: False
            show ?thesis
              by (rule "1.IH" [OF n st1 refl le refl m _ _ refl refl nonempty]) (use False rest nonempty n in auto)
          qed (use rest in simp)
          then show ?thesis using emit_event_grows [of n ?whole st1] out by auto
        qed
      qed
    qed
  qed
qed

lemma handle_chunks_append:
  "handle_chunks cap n (cs @ ds) st = bind_outcome (handle_chunks cap n cs st) (handle_chunks cap n ds)"
proof (induction cs arbitrary: st)
  case (Cons c cs)
  then show ?case by (cases "processData cap n c st") simp_all
qed simp

text \<open>What a connection has sent to the channel.\<close>

definition sent_by :: "int \<Rightarrow> gdc_accept \<Rightarrow> LDCData list" where
  "sent_by a s = map snd (filter (\<lambda>(b, x). b = a) (ac_sent s))"

text \<open>A handler has sent, or is about to send, the events of the bytes it has read.\<close>

definition handler_ok :: "accept_params \<Rightarrow> LDCData list \<Rightarrow> conn_handler \<Rightarrow> bool" where
  "handler_ok p sent h \<longleftrightarrow> handle_chunks (aq_cap p) (aq_nGDCs p) (hn_chunks h) conn_init = Ok (hn_conn h) \<and>
     sent @ sent_on (hn_pending h) = lc_out (hn_conn h) \<and> (hn_pc h \<noteq> HandlerReads \<longrightarrow> hn_pending h = [])"

definition data_inv :: "accept_params \<Rightarrow> gdc_accept \<Rightarrow> bool" where
  "data_inv p s \<longleftrightarrow> map snd (ac_sent s) = map fst (ac_received s) @ ac_data s \<and> length (ac_data s) \<le> aq_dataCh p \<and>
     (\<forall>a h. ac_handlers s a = Some h \<longrightarrow> handler_ok p (sent_by a s) h) \<and> (\<forall>a x. (a, x) \<in> set (ac_sent s) \<longrightarrow> ac_handlers s a \<noteq> None)"

lemma data_inv_start: "data_inv p (accept_start p sv)"
  by (simp add: data_inv_def accept_start_def Let_def)

lemma handler_ok_read:
  assumes "handler_ok p sent h" "hn_pending h = []" "processData (aq_cap p) (aq_nGDCs p) chunk (hn_conn h) = Ok st"
  shows "handler_ok p sent (h\<lparr>hn_chunks := hn_chunks h @ [chunk], hn_conn := st,
    hn_pending := drop (length (lc_effects (hn_conn h))) (lc_effects st)\<rparr>) \<or> hn_pc h \<noteq> HandlerReads"
  using assms processData_grows [OF assms(3)] by (auto simp: handler_ok_def handle_chunks_append)

lemmas accept_defs = acceptTCPConnections_def set_handler_def read_chunk_def new_handler_def

lemma set_handler_inv:
  assumes "data_inv p s" "ac_handlers s a = Some h" "handler_ok p (sent_by a s) h'"
    and "ac_handlers s' = (ac_handlers s)(a \<mapsto> h')" "ac_sent s' = ac_sent s" "ac_received s' = ac_received s" "ac_data s' = ac_data s"
  shows "data_inv p s'"
  using assms by (auto simp: data_inv_def sent_by_def)

lemma data_invD:
  assumes "data_inv p s"
  shows "map snd (ac_sent s) = map fst (ac_received s) @ ac_data s" "length (ac_data s) \<le> aq_dataCh p"
    "ac_handlers s a = Some h \<Longrightarrow> handler_ok p (sent_by a s) h" "(a, x) \<in> set (ac_sent s) \<Longrightarrow> ac_handlers s a \<noteq> None"
  using assms by (simp_all add: data_inv_def) metis

lemma same_data_inv:
  assumes "data_inv p s" "ac_handlers s' = ac_handlers s" "ac_sent s' = ac_sent s" "ac_received s' = ac_received s" "ac_data s' = ac_data s"
  shows "data_inv p s'"
  using assms by (auto simp: data_inv_def sent_by_def)

lemma acceptor_shape:
  assumes "acceptTCPConnections p act s = Some s'"
  shows "ac_sent s' = ac_sent s \<and> ac_received s' = ac_received s \<and> ac_data s' = ac_data s \<and>
    (ac_handlers s' = ac_handlers s \<and> (\<forall>a. ac_pc s' = AcceptorSends a \<longrightarrow> ac_handlers s' a = None) \<or>
     (\<exists>a. ac_pc s = AcceptorSends a \<and> ac_pc s' = AcceptorWaits \<and> ac_handlers s' = (ac_handlers s)(a \<mapsto> new_handler)))"
  using assms unfolding acceptTCPConnections_def
  by (auto split: acceptor_pc.splits accept_action.splits sum.splits if_splits)

lemma acceptor_inv:
  assumes "acceptTCPConnections p act s = Some s'" "data_inv p s" "\<forall>a. ac_pc s = AcceptorSends a \<longrightarrow> ac_handlers s a = None"
  shows "data_inv p s' \<and> (\<forall>a. ac_pc s' = AcceptorSends a \<longrightarrow> ac_handlers s' a = None)"
proof -
  note shape = acceptor_shape [OF assms(1)]
  show ?thesis
  proof (cases "ac_handlers s' = ac_handlers s")
    case True
    then show ?thesis using shape same_data_inv [OF assms(2)] assms(3) by auto
  next
    case False
    then obtain a where a: "ac_pc s = AcceptorSends a" "ac_pc s' = AcceptorWaits" "ac_handlers s' = (ac_handlers s)(a \<mapsto> new_handler)"
      using shape by blast
    have "sent_by a s = []"
      using assms(2,3) a(1) by (force simp: data_inv_def sent_by_def filter_empty_conv)
    then have "data_inv p s'"
      using assms(2) a shape by (auto simp: data_inv_def sent_by_def new_handler_def handler_ok_def conn_init_def)
    then show ?thesis using a(2) by simp
  qed
qed

lemma handler_inv:
  assumes "handleConnection p act s = Some s'" "data_inv p s"
  shows "data_inv p s' \<and> ac_pc s' = ac_pc s \<and> (\<forall>a. ac_handlers s' a = None \<longleftrightarrow> ac_handlers s a = None)"
proof -
  have ok: "handler_ok p (sent_by a s) h" if "ac_handlers s a = Some h" for a h using assms(2) that by (simp add: data_inv_def)
  show ?thesis
  proof (cases act)
    case (ReadChunk a chunk)
    then obtain h where h: "ac_handlers s a = Some h" "hn_pc h = HandlerReads" "hn_pending h = []" "s' = read_chunk p a h chunk s"
      using assms(1) by (auto split: option.splits if_splits)
    show ?thesis
    proof (cases "processData (aq_cap p) (aq_nGDCs p) chunk (hn_conn h)")
      case Panic
      then show ?thesis using h(4) same_data_inv [OF assms(2)] by (simp add: read_chunk_def)
    next
      case (Ok st)
      with handler_ok_read [OF ok [OF h(1)] h(3) Ok] h show ?thesis
        using set_handler_inv [OF assms(2) h(1)] by (auto simp: read_chunk_def set_handler_def)
    qed
  next
    case (SendData a)
    then obtain h x xs where h: "ac_handlers s a = Some h" "hn_pending h = SendOn x # xs" "length (ac_data s) < aq_dataCh p"
      "s' = (set_handler a (h\<lparr>hn_pending := xs\<rparr>) s)\<lparr>ac_data := ac_data s @ [x], ac_sent := ac_sent s @ [(a, x)]\<rparr>"
      using assms(1) by (auto split: option.splits if_splits list.splits conn_effect.splits)
    have "handler_ok p (sent_by a s @ [x]) (h\<lparr>hn_pending := xs\<rparr>)" using ok [OF h(1)] h(2) by (auto simp: handler_ok_def)
    moreover have "sent_by b s' = (if b = a then sent_by a s @ [x] else sent_by b s)" for b by (simp add: h(4) sent_by_def)
    ultimately show ?thesis using assms(2) h by (auto simp: data_inv_def set_handler_def)
  next
    case (HandlerStops a)
    then obtain h m xs where h: "ac_handlers s a = Some h" "hn_pending h = AskStop m # xs"
      "s' = (set_handler a (h\<lparr>hn_pending := xs\<rparr>) s)\<lparr>ac_server := stopOnLocalError m (ac_server s)\<rparr>"
      using assms(1) by (auto split: option.splits list.splits conn_effect.splits)
    have "handler_ok p (sent_by a s) (h\<lparr>hn_pending := xs\<rparr>)" using ok [OF h(1)] h(2) by (auto simp: handler_ok_def)
    from set_handler_inv [OF assms(2) h(1) this, of s'] show ?thesis using h by (auto simp: set_handler_def)
  next
    case (ReadEOF a)
    then obtain h where h: "ac_handlers s a = Some h" "hn_pending h = []" "s' = set_handler a (h\<lparr>hn_pc := HandlerCloses\<rparr>) s"
      using assms(1) by (auto split: option.splits if_splits)
    have "handler_ok p (sent_by a s) (h\<lparr>hn_pc := HandlerCloses\<rparr>)" using ok [OF h(1)] h(2) by (auto simp: handler_ok_def)
    from set_handler_inv [OF assms(2) h(1) this, of s'] show ?thesis using h by (auto simp: set_handler_def)
  next
    case (SendClose a)
    then obtain h where h: "ac_handlers s a = Some h" "hn_pc h = HandlerCloses"
      "s' = (set_handler a (h\<lparr>hn_pc := HandlerGone\<rparr>) s)\<lparr>ac_close := ac_close s @ [a]\<rparr>"
      using assms(1) by (auto split: option.splits if_splits)
    have "handler_ok p (sent_by a s) (h\<lparr>hn_pc := HandlerGone\<rparr>)" using ok [OF h(1)] h(2) by (auto simp: handler_ok_def)
    from set_handler_inv [OF assms(2) h(1) this, of s'] show ?thesis using h by (auto simp: set_handler_def)
  next
    case (HandlerSeesDone a)
    then obtain h where h: "ac_handlers s a = Some h" "hn_pending h = []" "s' = set_handler a (h\<lparr>hn_pc := HandlerGone\<rparr>) s"
      using assms(1) by (auto split: option.splits if_splits)
    have "handler_ok p (sent_by a s) (h\<lparr>hn_pc := HandlerGone\<rparr>)" using ok [OF h(1)] h(2) by (auto simp: handler_ok_def)
    from set_handler_inv [OF assms(2) h(1) this, of s'] show ?thesis using h by (auto simp: set_handler_def)
  next
    case (ReadFails a err)
    then have "s' = s\<lparr>ac_server := log_error (''error reading data from LDC: '' @ err) (ac_server s)\<rparr>"
      using assms(1) by (simp split: option.splits if_splits)
    then show ?thesis using same_data_inv [OF assms(2)] by simp
  qed (use assms(1) in simp_all)
qed

lemma monitor_data:
  "ldcConnectionMonitor act s = Some s' \<Longrightarrow> ac_handlers s' = ac_handlers s \<and> ac_sent s' = ac_sent s \<and>
     ac_received s' = ac_received s \<and> ac_data s' = ac_data s \<and> ac_pc s' = ac_pc s"
  by (cases act) (auto split: list.splits if_splits)

lemma builder_inv:
  "builder_end act s = Some s' \<Longrightarrow> data_inv p s \<Longrightarrow> data_inv p s' \<and> ac_handlers s' = ac_handlers s \<and> ac_pc s' = ac_pc s"
proof (cases act)
  case (TakeData now)
  assume "builder_end act s = Some s'" "data_inv p s"
  then obtain x xs where "ac_data s = x # xs" "s' = s\<lparr>ac_data := xs, ac_received := ac_received s @ [(x, now)]\<rparr>" "data_inv p s"
    using TakeData by (auto split: list.splits if_splits)
  then show ?thesis by (simp add: data_inv_def sent_by_def)
next
  case BuilderSeesDone
  assume "builder_end act s = Some s'" "data_inv p s"
  then show ?thesis using BuilderSeesDone same_data_inv [of p s s'] by (auto split: if_splits)
qed simp_all

definition accept_inv :: "accept_params \<Rightarrow> gdc_accept \<Rightarrow> bool" where
  "accept_inv p s \<longleftrightarrow> data_inv p s \<and> (\<forall>a. ac_pc s = AcceptorSends a \<longrightarrow> ac_handlers s a = None)"

lemma accept_step_cases:
  assumes "accept_step p act s = Some s'"
  obtains "acceptTCPConnections p act s = Some s'" | "handleConnection p act s = Some s'" | "ldcConnectionMonitor act s = Some s'"
    | "builder_end act s = Some s'"
    | a sv where "act = ProcessStep a" "\<not> from_monitor a" "server_step GDC a (ac_server s) = Some sv" "s' = s\<lparr>ac_server := sv\<rparr>"
  using assms by (cases act) (auto simp: accept_step.simps split: if_splits)

lemma accept_inv_step:
  assumes "accept_step p act s = Some s'" "accept_inv p s"
  shows "accept_inv p s'"
  using assms(1)
proof (cases rule: accept_step_cases)
  case 1
  then show ?thesis using acceptor_inv assms(2) unfolding accept_inv_def by blast
next
  case 2
  then show ?thesis using handler_inv [OF 2] assms(2) unfolding accept_inv_def by simp
next
  case 3
  then show ?thesis using monitor_data [OF 3] same_data_inv assms(2) unfolding accept_inv_def by metis
next
  case 4
  then show ?thesis using builder_inv [OF 4] assms(2) unfolding accept_inv_def by metis
next
  case (5 a sv)
  then show ?thesis using same_data_inv [of p s s'] assms(2) unfolding accept_inv_def by simp
qed

lemma accept_inv_run: "accept_run p s0 s \<Longrightarrow> accept_inv p s0 \<Longrightarrow> accept_inv p s"
  by (induction rule: accept_run.induct) (auto intro: accept_inv_step)

lemma accept_inv_start: "accept_inv p (accept_start p sv)"
  by (simp add: accept_inv_def data_inv_start) (simp add: accept_start_def Let_def)

section \<open>The run through the accept loop\<close>

text \<open>When everything is delivered the builder has a merge of what the connections passed on.\<close>

lemma drained_merges:
  assumes inv: "accept_inv p s" and addr: "inj_on addr L" "dom (ac_handlers s) = addr ` L"
    and conn: "\<forall>l \<in> L. \<exists>h. ac_handlers s (addr l) = Some h \<and> hn_pending h = [] \<and> hn_conn h = conn l"
    and own: "\<forall>l \<in> L. \<forall>x \<in> set (lc_out (conn l)). ld_ldcID x = l" and data: "ac_data s = []"
  shows "merges L conn (ac_received s)"
proof -
  have sent: "map fst (ac_received s) = map snd (ac_sent s)" using inv data by (simp add: accept_inv_def data_inv_def)
  have out: "sent_by (addr l) s = lc_out (conn l)" if lL: "l \<in> L" for l
  proof -
    obtain h where h: "ac_handlers s (addr l) = Some h" "hn_pending h = []" "hn_conn h = conn l"
      using conn lL by blast
    then have "handler_ok p (sent_by (addr l) s) h" using inv data_invD(3) by (simp add: accept_inv_def)
    then show ?thesis using h(2,3) by (simp add: handler_ok_def)
  qed
  have src: "\<exists>l \<in> L. a = addr l \<and> ld_ldcID x = l" if "(a, x) \<in> set (ac_sent s)" for a x
  proof -
    have "a \<in> dom (ac_handlers s)" using inv data_invD(4) [OF _ that] by (auto simp: accept_inv_def)
    then obtain l where l: "l \<in> L" "a = addr l" using addr(2) by auto
    have "x \<in> set (sent_by a s)" using that by (force simp: sent_by_def)
    then show ?thesis using l out own by auto
  qed
  have "filter (\<lambda>y. ld_ldcID y = l) (map snd (ac_sent s)) = lc_out (conn l)" if "l \<in> L" for l
  proof -
    have "filter (\<lambda>(a, x). ld_ldcID x = l) (ac_sent s) = filter (\<lambda>(a, x). a = addr l) (ac_sent s)"
      using src addr(1) that by (intro filter_cong refl) (fastforce dest: inj_onD)
    then have "filter (\<lambda>y. ld_ldcID y = l) (map snd (ac_sent s)) = sent_by (addr l) s"
      by (simp add: filter_map o_def sent_by_def case_prod_unfold)
    then show ?thesis using out [OF that] by simp
  qed
  moreover have "ld_ldcID y \<in> L" if "(y, now) \<in> set (ac_received s)" for y now
  proof -
    have "y \<in> set (map snd (ac_sent s))" unfolding sent [symmetric] using that by force
    then show ?thesis using src by auto
  qed
  ultimately show ?thesis unfolding merges_def sent by auto
qed

section \<open>The channel to the builder drains\<close>

lemma finite_handlers_step:
  assumes "accept_step p act s = Some s'" "accept_inv p s" "finite (dom (ac_handlers s))"
  shows "finite (dom (ac_handlers s'))"
  using assms(1)
proof (cases rule: accept_step_cases)
  case 1
  then show ?thesis using acceptor_shape [OF 1] assms(3) by auto
next
  case 2
  then have "dom (ac_handlers s') = dom (ac_handlers s)"
    using handler_inv [OF 2] assms(2) unfolding accept_inv_def dom_def by auto
  then show ?thesis using assms(3) by simp
next
  case 3
  then show ?thesis using monitor_data [OF 3] assms(3) by simp
next
  case 4
  have "data_inv p s" using assms(2) by (simp add: accept_inv_def)
  from builder_inv [OF 4 this] show ?thesis using assms(3) by simp
qed (use assms(3) in simp)

lemma finite_handlers:
  assumes "accept_run p (accept_start p sv) s"
  shows "finite (dom (ac_handlers s))"
proof -
  have "accept_run p s0 s \<Longrightarrow> accept_inv p s0 \<Longrightarrow> finite (dom (ac_handlers s0)) \<Longrightarrow> finite (dom (ac_handlers s))" for s0
    by (induction rule: accept_run.induct) (auto intro: finite_handlers_step accept_inv_run)
  then show ?thesis using assms accept_inv_start by (simp add: accept_start_def Let_def)
qed

definition in_flight :: "gdc_accept \<Rightarrow> nat" where
  "in_flight s = length (ac_data s) + 2 * (\<Sum>a \<in> dom (ac_handlers s). length (hn_pending (the (ac_handlers s a))))"

definition drained :: "gdc_accept \<Rightarrow> bool" where
  "drained s \<longleftrightarrow> ac_data s = [] \<and> (\<forall>a h. ac_handlers s a = Some h \<longrightarrow> hn_pending h = [])"

text \<open>What the steps that deliver leave as it is: the reads, and which connections there are.\<close>

definition same_reads :: "gdc_accept \<Rightarrow> gdc_accept \<Rightarrow> bool" where
  "same_reads s s' \<longleftrightarrow> dom (ac_handlers s') = dom (ac_handlers s) \<and>
     (\<forall>a h. ac_handlers s a = Some h \<longrightarrow> (\<exists>h'. ac_handlers s' a = Some h' \<and> hn_chunks h' = hn_chunks h \<and> hn_conn h' = hn_conn h))"

lemma same_reads_trans: "same_reads s s' \<Longrightarrow> same_reads s' s'' \<Longrightarrow> same_reads s s''"
  unfolding same_reads_def by metis

lemma deliver_step:
  assumes "\<not> drained s" "\<not> ac_crashed s" "ac_building s" "0 < aq_dataCh p" "finite (dom (ac_handlers s))"
  shows "\<exists>act s'. accept_step p act s = Some s' \<and> in_flight s' < in_flight s \<and> same_reads s s' \<and> \<not> ac_crashed s' \<and> ac_building s'"
proof (cases "ac_data s")
  case (Cons x xs)
  let ?s = "s\<lparr>ac_data := xs, ac_received := ac_received s @ [(x, 0)]\<rparr>"
  have "accept_step p (TakeData 0) s = Some ?s" using Cons assms(2,3) by (simp add: accept_step.simps)
  then show ?thesis
    using Cons assms(2,3) by (intro exI [of _ "TakeData 0"] exI [of _ ?s]) (auto simp: in_flight_def same_reads_def)
next
  case Nil
  then obtain a h f xs where h: "ac_handlers s a = Some h" "hn_pending h = f # xs"
    using assms(1) by (auto simp: drained_def neq_Nil_conv)
  define t where "t = set_handler a (h\<lparr>hn_pending := xs\<rparr>) s"
  obtain act s' where step: "accept_step p act s = Some s'" "ac_handlers s' = ac_handlers t" "length (ac_data s') \<le> 1"
      "\<not> ac_crashed s'" "ac_building s'"
  proof (cases f)
    case (SendOn x)
    then show ?thesis
      using that [of "SendData a" "t\<lparr>ac_data := [x], ac_sent := ac_sent s @ [(a, x)]\<rparr>"] h Nil assms(2-4)
      by (simp add: accept_step.simps t_def set_handler_def)
  next
    case (AskStop m)
    then show ?thesis
      using that [of "HandlerStops a" "t\<lparr>ac_server := stopOnLocalError m (ac_server s)\<rparr>"] h Nil assms(2-4)
      by (simp add: accept_step.simps t_def set_handler_def)
  qed
  have dom: "dom (ac_handlers s') = dom (ac_handlers s)" "a \<in> dom (ac_handlers s)"
    using h(1) step(2) by (auto simp: t_def set_handler_def)
  have rest: "(\<Sum>b \<in> dom (ac_handlers s) - {a}. length (hn_pending (the (ac_handlers s' b)))) =
      (\<Sum>b \<in> dom (ac_handlers s) - {a}. length (hn_pending (the (ac_handlers s b))))"
    using step(2) by (intro sum.cong) (auto simp: t_def set_handler_def)
  have "in_flight s' < in_flight s"
    unfolding in_flight_def dom(1) sum.remove [OF assms(5) dom(2)] rest using Nil h step(2,3) by (simp add: t_def set_handler_def)
  moreover have "same_reads s s'" using h(1) dom(1) step(2) by (auto simp: same_reads_def t_def set_handler_def)
  ultimately show ?thesis using step by blast
qed

lemma accept_run_trans: "accept_run p b c \<Longrightarrow> accept_run p a b \<Longrightarrow> accept_run p a c"
  by (induction rule: accept_run.induct) (auto intro: run_on)

lemma deliver_all:
  assumes "\<not> ac_crashed s" "ac_building s" "0 < aq_dataCh p" "finite (dom (ac_handlers s))"
  shows "\<exists>s'. accept_run p s s' \<and> drained s' \<and> same_reads s s'"
  using assms
proof (induction "in_flight s" arbitrary: s rule: less_induct)
  case less
  show ?case
  proof (cases "drained s")
    case True
    then show ?thesis by (intro exI [of _ s]) (auto simp: same_reads_def intro: run_here)
  next
    case False
    from deliver_step [OF False less.prems] obtain act t where t: "accept_step p act s = Some t" "in_flight t < in_flight s"
        "same_reads s t" "\<not> ac_crashed t" "ac_building t" by blast
    then have "finite (dom (ac_handlers t))" using less.prems(4) by (simp add: same_reads_def)
    from less.hyps [OF t(2,4,5) less.prems(3) this] obtain s' where s': "accept_run p t s'" "drained s'" "same_reads t s'" by blast
    have "accept_run p s s'" using accept_run_trans [OF s'(1)] run_on [OF run_here t(1)] by blast
    then show ?thesis using s'(2) same_reads_trans [OF t(3) s'(3)] by blast
  qed
qed

text \<open>
  C4. From the network to the event builder. However connections are accepted, read, closed and scheduled, what the builder has
  received and what waits in the channel is, connection by connection and in order, what the bytes read from that connection
  hold, less the events its handler is about to send; the channel is never over its size. While the builder runs it cannot get stuck: all
  that was read can still be delivered to it, and then it has received exactly the events of the bytes read.
\<close>

theorem gdc_channel_delivers:
  assumes "accept_run p (accept_start p sv) s"
  shows "map fst (ac_received s) @ ac_data s = map snd (ac_sent s) \<and> length (ac_data s) \<le> aq_dataCh p \<and>
    (\<forall>a h. ac_handlers s a = Some h \<longrightarrow> (\<exists>c. handle_chunks (aq_cap p) (aq_nGDCs p) (hn_chunks h) conn_init = Ok c \<and>
      map snd (filter (\<lambda>(b, x). b = a) (ac_sent s)) @ sent_on (hn_pending h) = lc_out c)) \<and>
    (\<not> ac_crashed s \<and> ac_building s \<and> 0 < aq_dataCh p \<longrightarrow>
      (\<exists>s'. accept_run p s s' \<and> same_reads s s' \<and> map fst (ac_received s') = map snd (ac_sent s') \<and>
        (\<forall>a h. ac_handlers s a = Some h \<longrightarrow> map snd (filter (\<lambda>(b, x). b = a) (ac_sent s')) = lc_out (hn_conn h))))"
proof -
  have inv: "data_inv p s" using accept_inv_run [OF assms accept_inv_start] by (simp add: accept_inv_def)
  have "\<exists>s'. accept_run p s s' \<and> same_reads s s' \<and> map fst (ac_received s') = map snd (ac_sent s') \<and>
        (\<forall>a h. ac_handlers s a = Some h \<longrightarrow> sent_by a s' = lc_out (hn_conn h))"
    if go: "\<not> ac_crashed s" "ac_building s" "0 < aq_dataCh p"
  proof -
    from deliver_all [OF go finite_handlers [OF assms]] obtain s' where s': "accept_run p s s'" "drained s'" "same_reads s s'" by blast
    have inv': "data_inv p s'" using accept_inv_run [OF accept_run_trans [OF s'(1) assms] accept_inv_start] by (simp add: accept_inv_def)
    have "sent_by a s' = lc_out (hn_conn h)" if h: "ac_handlers s a = Some h" for a h
    proof -
      obtain h' where h': "ac_handlers s' a = Some h'" "hn_conn h' = hn_conn h" using s'(3) h unfolding same_reads_def by blast
      then show ?thesis using data_invD(3) [OF inv' h'(1)] s'(2) by (simp add: handler_ok_def drained_def)
    qed
    then show ?thesis using s' data_invD(1) [OF inv'] by (auto simp: drained_def)
  qed
  then show ?thesis
    using data_invD(1,2) [OF inv] data_invD(3) [OF inv] unfolding handler_ok_def sent_by_def by fastforce
qed

definition example_params :: accept_params where
  "example_params = \<lparr>aq_cap = (\<lambda>k. k), aq_nGDCs = Some 2, aq_dataCh = 1, aq_tcpConnCh = Some 1\<rparr>"

definition running_gdc :: server where
  "running_gdc = server_init\<lparr>sv_state := RUNNING, sv_ctx := Some \<lparr>cx_number = 0, cx_configured = True\<rparr>, sv_runActive := True,
     sv_pc := WaitStop, sv_listening := True, sv_contexts := 1\<rparr>"

lemma accept_exec_run: "accept_exec p acts s = Some s' \<Longrightarrow> accept_run p s s'"
proof (induction acts arbitrary: s)
  case (Cons a acts)
  then obtain t where t: "accept_step p a s = Some t" "accept_exec p acts t = Some s'" by (auto split: option.splits)
  from accept_run_trans [OF Cons.IH [OF t(2)] run_on [OF run_here t(1)]] show ?case .
qed (simp add: run_here)

text \<open>One connection that has delivered a sub-event: the builder can get it.\<close>

theorem gdc_channel_delivers_witness:
  "\<exists>s s'. accept_exec example_params [AcceptReturns (Inr 7), SendOpen, ReadChunk 7 (example_event 1)] (accept_start example_params running_gdc) =
     Some s \<and> accept_run example_params s s' \<and> map fst (ac_received s') = map snd (ac_sent s') \<and>
     map snd (filter (\<lambda>(b, x). b = 7) (ac_sent s')) = [ldc_data_of (example_event 1)]"
proof -
  let ?e = "example_event 1"
  have len: "?e \<noteq> []" "length ?e \<le> 9600"
    using example_event_valid [of 1] by (auto simp: valid_event_def) (simp add: example_event_def)
  from handle_chunks_whole [of "\<lambda>k. k" "[?e]" "[?e]" "[]", OF _ _ _ example_event_valid [of 1] append_Nil [symmetric] len(1), of 2]
  obtain c where c: "processData (\<lambda>k. k) (Some 2) ?e conn_init = Ok c" "lc_out c = [ldc_data_of ?e]"
    using example_event_valid [of 1] by (cases "processData (\<lambda>k. k) (Some 2) ?e conn_init") (auto simp: valid_event_def)
  define h where "h = new_handler\<lparr>hn_chunks := [?e], hn_conn := c, hn_pending := lc_effects c\<rparr>"
  obtain s where s: "accept_exec example_params [AcceptReturns (Inr 7), SendOpen, ReadChunk 7 ?e] (accept_start example_params running_gdc) = Some s"
      "ac_handlers s 7 = Some h" "\<not> ac_crashed s" "ac_building s"
    using c len
    by (simp add: accept_step.simps accept_start_def acceptTCPConnections_def example_params_def running_gdc_def conn_room_def
        read_chunk_def set_handler_def new_handler_def h_def conn_init_def)
  then show ?thesis
    using gdc_channel_delivers [OF accept_exec_run [OF s(1)]] c(2) by (auto simp: h_def example_params_def)
qed

section \<open>A stop with a connection open\<close>

text \<open>
  C39. The monitor can stop a run that still has a connection. Opened and closed connections reach it in two channels, between which its
  \<open>select\<close> chooses: when the connection it knows of is closed while the opening of another one is still queued, it finds
  no connection left and stops the GDC, with the other LDC connected and its handler reading.
\<close>

theorem monitor_stops_with_connection_open:
  assumes "sv_state sv = RUNNING" "sv_listening sv" "sv_connections sv = []" "\<forall>b. MonitorSet b \<notin> set (sv_threads sv)"
    and "aq_tcpConnCh p = Some (Suc n)" "a \<noteq> b"
  shows "\<exists>s h. accept_run p (accept_start p sv) s \<and> ac_handlers s b = Some h \<and> hn_pc h = HandlerReads \<and> b \<in> set (ac_open s) \<and>
    (LevelError, Text ''No LDC connections, stopping GDC'') \<in> set (sv_log (ac_server s)) \<and> ErrorCancel \<in> set (sv_threads (ac_server s))"
proof -
  let ?acts = "[AcceptReturns (Inr a), SendOpen, TakeOpen, AcceptReturns (Inr b), SendOpen, ReadEOF a, SendClose a, TakeClose,
    ProcessStep (Thread (MonitorSet True))]"
  have "\<exists>s. accept_exec p ?acts (accept_start p sv) = Some s \<and> ac_handlers s b = Some new_handler \<and> b \<in> set (ac_open s) \<and>
      (LevelError, Text ''No LDC connections, stopping GDC'') \<in> set (sv_log (ac_server s)) \<and> ErrorCancel \<in> set (sv_threads (ac_server s))"
    using assms
    by (simp add: accept_step.simps accept_start_def acceptTCPConnections_def conn_room_def new_handler_def set_handler_def monitor_ready_def
        monitor_open_def monitor_close_def from_monitor_def spawn_def finish_def setState_def stopOnLocalError_def log_error_def Let_def)
  then show ?thesis using accept_exec_run by (fastforce simp: new_handler_def)
qed

theorem monitor_stops_with_connection_open_witness:
  "\<exists>s h. accept_run example_params (accept_start example_params running_gdc) s \<and> ac_handlers s 8 = Some h \<and> hn_pc h = HandlerReads \<and>
    (LevelError, Text ''No LDC connections, stopping GDC'') \<in> set (sv_log (ac_server s))"
  using monitor_stops_with_connection_open [of running_gdc example_params 0 7 8]
  by (fastforce simp: running_gdc_def server_init_def example_params_def)

end
