(* ===== verification/File_Closer.thy ===== *)
theory File_Closer
  imports Gdc_Builder
begin

text \<open>
  The accounting that closes the decoded files and the decoder's workers: \<open>src/gdcRPC/fileCloser.go\<close>,
  \<open>src/gdcRPC/decoder.go\<close> and \<open>src/gdcRPC/types.go\<close>.

  The file closer of a sub-run is a function of the cases its \<open>select\<close> takes, one message at a time
  from channels that keep no common order. The decoding library is not part of the repository: what
  \<open>ReadEvent\<close> and \<open>ReadGDC\<close> answer are arguments. A worker's effects are the messages it sends, in
  order.
\<close>

section \<open>Definitions\<close>

subsection \<open>The file closer (fileCloser.go)\<close>

datatype closer_case =
    EvtReceived int | EvtDecoded int | EvtWritten int | EvtWithError int | DataEnd | TimerFired

record closer =
  fc_events :: "int list"
  fc_eventsDecoded :: "int list"
  fc_eventsWritten :: "int list"
  fc_eventsWithError :: "int list"
  fc_dataEnded :: bool
  fc_closeFiles :: nat
  fc_timedOut :: bool
  fc_loop :: bool

definition closer_init :: closer where
  "closer_init = \<lparr>fc_events = [], fc_eventsDecoded = [], fc_eventsWritten = [], fc_eventsWithError = [],
     fc_dataEnded = False, fc_closeFiles = 0, fc_timedOut = False, fc_loop = True\<rparr>"

fun closer_select :: "closer_case \<Rightarrow> closer \<Rightarrow> closer" where
  "closer_select (EvtReceived e) s = s\<lparr>fc_events := fc_events s @ [e]\<rparr>"
| "closer_select (EvtDecoded e) s = s\<lparr>fc_eventsDecoded := fc_eventsDecoded s @ [e]\<rparr>"
| "closer_select (EvtWritten e) s = s\<lparr>fc_eventsWritten := fc_eventsWritten s @ [e]\<rparr>"
| "closer_select (EvtWithError e) s = s\<lparr>fc_eventsWithError := fc_eventsWithError s @ [e]\<rparr>"
| "closer_select DataEnd s = s\<lparr>fc_dataEnded := True\<rparr>"
| "closer_select TimerFired s =
     s\<lparr>fc_timedOut := True, fc_closeFiles := fc_closeFiles s + 2, fc_loop := False\<rparr>"

definition accounted :: "closer \<Rightarrow> bool" where
  "accounted s \<longleftrightarrow>
     length (fc_events s) = length (fc_eventsDecoded s) + length (fc_eventsWithError s) \<and>
     length (fc_eventsDecoded s) = length (fc_eventsWritten s)"

text \<open>One turn of the loop: the \<open>select\<close>, then the check once the data have ended.\<close>

definition closer_turn :: "closer_case \<Rightarrow> closer \<Rightarrow> closer" where
  "closer_turn c s =
     (let s1 = closer_select c s
      in if fc_dataEnded s1 \<and> accounted s1
         then s1\<lparr>fc_closeFiles := fc_closeFiles s1 + 2, fc_loop := False\<rparr>
         else s1)"

text \<open>The timer runs only after the end of the data.\<close>

fun fileCloser :: "closer_case list \<Rightarrow> closer \<Rightarrow> closer" where
  "fileCloser [] s = s"
| "fileCloser (c # cs) s =
     (if \<not> fc_loop s then s
      else if c = TimerFired \<and> \<not> fc_dataEnded s then fileCloser cs s
      else fileCloser cs (closer_turn c s))"

subsection \<open>Decoding (decoder.go)\<close>

datatype TriggerType = Trg0 | Trg1 | Trg2

fun trigger_string :: "TriggerType \<Rightarrow> string" where
  "trigger_string Trg0 = ''0''"
| "trigger_string Trg1 = ''1''"
| "trigger_string Trg2 = ''2''"

text \<open>The part of a decoded event that the program looks at.\<close>

record decoded_event =
  de_EventID :: int
  de_TriggerType :: int
  de_Error :: bool

text \<open>What the library answers: \<open>ReadEvent\<close> an error or a header, \<open>ReadGDC\<close> also a panic.\<close>

datatype read_gdc = GdcPanic string | GdcError string | GdcEvent decoded_event

text \<open>\<open>nbInRun\<close> is the event number that the library reads from the header.\<close>

datatype decoder_action =
    ToCloser closer_case
  | ToWriter TriggerType int decoded_event
  | CountTrigger TriggerType
  | DecoderError
  | LogError string
  | LogNonStopping string

definition with_closer :: "bool \<Rightarrow> closer_case \<Rightarrow> decoder_action list" where
  "with_closer writeData c = (if writeData then [ToCloser c] else [])"

definition decodeEvent ::
  "DecoderConfiguration \<Rightarrow> int \<Rightarrow> int \<Rightarrow> string option \<Rightarrow> read_gdc \<Rightarrow> decoder_action list" where
  "decodeEvent cfg eventID nbInRun readEventErr readGDC =
     (let w = dec_WriteData cfg in
      case readEventErr of
        Some err \<Rightarrow> with_closer w (EvtWithError eventID) @ [LogError (''error reading event header: '' @ err)]
      | None \<Rightarrow>
        (case readGDC of
           GdcPanic r \<Rightarrow> with_closer w (EvtWithError eventID) @ 
             [LogNonStopping (''decoder recovered from panic on event '' @ show_int nbInRun @ '': '' @ r),
              LogNonStopping (''discarding event '' @ show_int nbInRun), DecoderError]
         | GdcError err \<Rightarrow> with_closer w (EvtWithError eventID) @ [LogError (''error reading GDC data: '' @ err),
             DecoderError]
         | GdcEvent event \<Rightarrow>
             if de_Error event
             then with_closer w (EvtWithError eventID) @
               [LogNonStopping (''discarding event '' @ show_int (de_EventID event) @ '', it has errors''), DecoderError]
             else if dec_SplitTrigger cfg \<and> de_TriggerType event \<noteq> dec_TrgCode1 cfg \<and>
                     de_TriggerType event \<noteq> dec_TrgCode2 cfg
             then [LogError (''discarding event '' @ show_int (de_EventID event) @ '' with unknown trigger type '' @
                     show_int (de_TriggerType event)), DecoderError]
             else
               [CountTrigger (if dec_SplitTrigger cfg
                              then if de_TriggerType event = dec_TrgCode1 cfg then Trg1 else Trg2 else Trg0)] @
               (if w then
                  [ToWriter (if dec_SplitTrigger cfg
                             then if de_TriggerType event = dec_TrgCode1 cfg then Trg1 else Trg2 else Trg1)
                     eventID event,
                   ToCloser (EvtDecoded eventID)]
                else [])))"

text \<open>The loop of a decoded file's writer: what it writes and the messages it sends to the closer.\<close>

datatype h5_case = H5Close | H5Event int decoded_event

fun decodedWriter :: "h5_case list \<Rightarrow> (int \<times> decoded_event) list \<Rightarrow> (int \<times> decoded_event) list \<times> closer_case list" where
  "decodedWriter [] written = (written, [])"
| "decodedWriter (H5Close # cs) written = (written, [])"
| "decodedWriter (H5Event i ev # cs) written =
     (if de_EventID ev = 0 then decodedWriter cs written
      else let (w, ms) = decodedWriter cs (written @ [(i, ev)]) in (w, EvtWritten i # ms))"

text \<open>Creating the writer of a decoded file: ten retries after the first failure.\<close>

fun create_writer :: "(nat \<Rightarrow> bool) \<Rightarrow> nat \<Rightarrow> nat \<Rightarrow> nat option" where
  "create_writer succeeds attempt 0 = (if succeeds attempt then Some attempt else None)"
| "create_writer succeeds attempt (Suc retries) =
     (if succeeds attempt then Some attempt else create_writer succeeds (Suc attempt) retries)"

section \<open>Properties\<close>

lemma closer_stops: "\<not> fc_loop s \<Longrightarrow> fileCloser cs s = s"
  by (cases cs) auto

text \<open>
  While the loop runs, nothing was closed, and after the end of the data the counts do not balance.
  Afterwards the files were closed exactly once for each trigger.
\<close>

definition closer_inv :: "closer \<Rightarrow> bool" where
  "closer_inv s \<longleftrightarrow>
     (if fc_loop s then fc_closeFiles s = 0 \<and> \<not> fc_timedOut s \<and> \<not> (fc_dataEnded s \<and> accounted s)
      else fc_closeFiles s = 2 \<and> fc_dataEnded s \<and> (fc_timedOut s \<longleftrightarrow> \<not> accounted s))"

lemma closer_inv_turn:
  assumes "closer_inv s" and "fc_loop s" and "c = TimerFired \<longrightarrow> fc_dataEnded s"
  shows "closer_inv (closer_turn c s)"
proof -
  have "accounted (s\<lparr>fc_timedOut := b, fc_closeFiles := k, fc_loop := l\<rparr>) = accounted s" for b k l
    by (simp add: accounted_def)
  then show ?thesis
    using assms by (cases c) (auto simp: closer_inv_def closer_turn_def Let_def accounted_def)
qed

lemma closer_inv_run: "closer_inv s \<Longrightarrow> closer_inv (fileCloser cs s)"
  by (induction cs s rule: fileCloser.induct) (auto intro: closer_inv_turn)

lemma closer_inv_init: "closer_inv closer_init"
  by (simp add: closer_inv_def closer_init_def)

text \<open>
  The file closer sends the close signal exactly twice, once for each trigger's writer, and only
  after the end of the data; without a timeout it does so only when every event it has been told of
  is decoded and written, or failed.
\<close>

theorem files_closed_when_accounted:
  assumes "\<not> fc_loop (fileCloser cs closer_init)"
  shows "fc_closeFiles (fileCloser cs closer_init) = 2 \<and> fc_dataEnded (fileCloser cs closer_init) \<and>
    (\<not> fc_timedOut (fileCloser cs closer_init) \<longrightarrow>
       length (fc_events (fileCloser cs closer_init)) =
         length (fc_eventsDecoded (fileCloser cs closer_init)) +
         length (fc_eventsWithError (fileCloser cs closer_init)) \<and>
       length (fc_eventsDecoded (fileCloser cs closer_init)) =
         length (fc_eventsWritten (fileCloser cs closer_init)))"
  using closer_inv_run [OF closer_inv_init, of cs] assms by (auto simp: closer_inv_def accounted_def)

theorem files_closed_when_accounted_witness:
  "fc_closeFiles (fileCloser [EvtReceived 1, EvtDecoded 1, DataEnd, EvtWritten 1] closer_init) = 2"
  using files_closed_when_accounted [of "[EvtReceived 1, EvtDecoded 1, DataEnd, EvtWritten 1]"]
  by (simp add: closer_init_def closer_turn_def accounted_def)

text \<open>The number of messages of a kind.\<close>

fun is_received :: "closer_case \<Rightarrow> bool" where
  "is_received (EvtReceived _) = True" | "is_received _ = False"
fun is_decoded :: "closer_case \<Rightarrow> bool" where
  "is_decoded (EvtDecoded _) = True" | "is_decoded _ = False"
fun is_written :: "closer_case \<Rightarrow> bool" where
  "is_written (EvtWritten _) = True" | "is_written _ = False"
fun is_error :: "closer_case \<Rightarrow> bool" where
  "is_error (EvtWithError _) = True" | "is_error _ = False"

definition balanced :: "closer_case list \<Rightarrow> bool" where
  "balanced cs \<longleftrightarrow> length (filter is_received cs) = length (filter is_decoded cs) + length (filter is_error cs) \<and>
     length (filter is_decoded cs) = length (filter is_written cs)"

text \<open>What the closer has been told by a list of messages, and the first message at which it has to close the files.\<close>

definition told :: "closer_case list \<Rightarrow> closer" where
  "told cs = \<lparr>fc_events = [e. EvtReceived e \<leftarrow> cs], fc_eventsDecoded = [e. EvtDecoded e \<leftarrow> cs], fc_eventsWritten = [e. EvtWritten e \<leftarrow> cs],
     fc_eventsWithError = [e. EvtWithError e \<leftarrow> cs], fc_dataEnded = (DataEnd \<in> set cs), fc_closeFiles = 0, fc_timedOut = False, fc_loop = True\<rparr>"

definition closes_at :: "closer_case list \<Rightarrow> nat \<Rightarrow> bool" where
  "closes_at cs k \<longleftrightarrow> DataEnd \<in> set (take (Suc k) cs) \<and> (cs ! k = TimerFired \<or> balanced (take (Suc k) cs))"

definition closing_message :: "closer_case list \<Rightarrow> nat option" where
  "closing_message cs = find (closes_at cs) [0..<length cs]"

lemma accounted_told: "accounted (told cs) \<longleftrightarrow> balanced cs"
proof -
  have "length [e. EvtReceived e \<leftarrow> cs] = length (filter is_received cs)" "length [e. EvtDecoded e \<leftarrow> cs] = length (filter is_decoded cs)"
    "length [e. EvtWritten e \<leftarrow> cs] = length (filter is_written cs)" "length [e. EvtWithError e \<leftarrow> cs] = length (filter is_error cs)"
    by (induction cs) (auto split: closer_case.splits)
  then show ?thesis by (simp add: accounted_def told_def balanced_def)
qed

lemma told_snoc: "c \<noteq> TimerFired \<Longrightarrow> told (cs @ [c]) = closer_select c (told cs)"
  by (cases c) (auto simp: told_def)

lemma told_timer: "told (cs @ [TimerFired]) = told cs"
  by (simp add: told_def)

lemma accounted_more [simp]:
  "accounted (s\<lparr>fc_closeFiles := n\<rparr>) = accounted s" "accounted (s\<lparr>fc_timedOut := b\<rparr>) = accounted s" "accounted (s\<lparr>fc_loop := l\<rparr>) = accounted s"
  by (simp_all add: accounted_def)

text \<open>One more message, for a closer that has not closed the files yet.\<close>

lemma fileCloser_snoc:
  "fileCloser (cs @ [c]) s =
     (let s' = fileCloser cs s
      in if \<not> fc_loop s' \<or> c = TimerFired \<and> \<not> fc_dataEnded s' then s' else closer_turn c s')"
  by (induction cs s rule: fileCloser.induct) (auto simp: Let_def closer_stops)

lemma closing_message_snoc:
  "closing_message (cs @ [c]) =
     (case closing_message cs of Some k \<Rightarrow> Some k | None \<Rightarrow> if closes_at (cs @ [c]) (length cs) then Some (length cs) else None)"
proof -
  have "closes_at (cs @ [c]) k = closes_at cs k" if "k < length cs" for k using that by (simp add: closes_at_def nth_append)
  then have same: "find (closes_at (cs @ [c])) [0..<length cs] = find (closes_at cs) [0..<length cs]" by (intro find_cong) auto
  have "find P (xs @ [x]) = (case find P xs of Some y \<Rightarrow> Some y | None \<Rightarrow> if P x then Some x else None)" for P :: "nat \<Rightarrow> bool" and xs x
    by (induction xs) auto
  then show ?thesis by (simp add: closing_message_def same)
qed

lemma closing_message_bound: "closing_message cs = Some k \<Longrightarrow> k < length cs \<and> closes_at cs k"
  by (auto simp: closing_message_def find_Some_iff)

lemma fileCloser_spec:
  "fileCloser cs closer_init =
     (case closing_message cs of
        None \<Rightarrow> told cs
      | Some k \<Rightarrow> (told (take (Suc k) cs))\<lparr>fc_closeFiles := 2, fc_timedOut := (cs ! k = TimerFired), fc_loop := False\<rparr>)"
proof (induction cs rule: rev_induct)
  case Nil
  show ?case by (simp add: closing_message_def told_def closer_init_def)
next
  case (snoc c cs)
  show ?case
  proof (cases "closing_message cs")
    case (Some k)
    then have "k < length cs" by (simp add: closing_message_bound)
    with Some snoc show ?thesis by (simp add: fileCloser_snoc closing_message_snoc Let_def nth_append)
  next
    case None
    then have s: "fileCloser cs closer_init = told cs" using snoc by simp
    have open_: "fc_loop (told cs)" "fc_dataEnded (told cs) \<longleftrightarrow> DataEnd \<in> set cs" "fc_closeFiles (told cs) = 0" "\<not> fc_timedOut (told cs)"
      by (simp_all add: told_def)
    have not_yet: "\<not> (fc_dataEnded (told cs) \<and> accounted (told cs))"
      using closer_inv_run [OF closer_inv_init, of cs] open_(1) unfolding s by (simp add: closer_inv_def)
    show ?thesis
    proof (cases "c = TimerFired")
      case True
      show ?thesis
        using not_yet open_ None s True
        by (auto simp: fileCloser_snoc closing_message_snoc Let_def closes_at_def told_timer closer_turn_def accounted_told numeral_2_eq_2)
    next
      case False
      then have tl: "told (cs @ [c]) = closer_select c (told cs)" by (rule told_snoc)
      have "fc_closeFiles (told (cs @ [c])) = 0" "\<not> fc_timedOut (told (cs @ [c]))" "fc_dataEnded (told (cs @ [c])) \<longleftrightarrow> DataEnd \<in> set (cs @ [c])"
        by (simp_all add: told_def)
      then show ?thesis
        using open_ None s False accounted_told [of "cs @ [c]"]
        by (auto simp: fileCloser_snoc closing_message_snoc Let_def closes_at_def closer_turn_def tl [symmetric])
    qed
  qed
qed

text \<open>
  C14. What the file closer does with the messages of a sub-run, in whatever order it takes them: up to the first message after which the end of
  the data is announced and the counts balance (every event received is decoded and written, or failed), or at which the timer fires after that
  end, it only keeps what it is told, and sends nothing; at that message it sends the close signal exactly twice, once for each trigger's
  writer, reports a loss only in the case of the timer, and looks at no later message. In particular it does close the files when all messages together
  balance and the end is announced, and without a loss when the timer never fires.
\<close>

theorem balanced_accounting_closes:
  "fileCloser cs closer_init =
     (case closing_message cs of
        None \<Rightarrow> told cs
      | Some k \<Rightarrow> (told (take (Suc k) cs))\<lparr>fc_closeFiles := 2, fc_timedOut := (cs ! k = TimerFired), fc_loop := False\<rparr>) \<and>
   (balanced cs \<and> DataEnd \<in> set cs \<longrightarrow>
      fc_closeFiles (fileCloser cs closer_init) = 2 \<and> \<not> fc_loop (fileCloser cs closer_init) \<and>
      (TimerFired \<notin> set cs \<longrightarrow> \<not> fc_timedOut (fileCloser cs closer_init)))"
proof -
  have "\<exists>k. closing_message cs = Some k" if bal: "balanced cs" "DataEnd \<in> set cs"
  proof -
    have "0 < length cs" using bal(2) by (cases cs) auto
    moreover have "closes_at cs (length cs - 1)" using bal \<open>0 < length cs\<close> by (simp add: closes_at_def)
    ultimately have "find (closes_at cs) [0..<length cs] \<noteq> None" unfolding find_None_iff by (auto intro!: exI [of _ "length cs - 1"])
    then show ?thesis by (auto simp: closing_message_def)
  qed
  then have "fc_closeFiles (fileCloser cs closer_init) = 2 \<and> \<not> fc_loop (fileCloser cs closer_init) \<and>
      (TimerFired \<notin> set cs \<longrightarrow> \<not> fc_timedOut (fileCloser cs closer_init))" if "balanced cs" "DataEnd \<in> set cs"
    using that by (auto simp: fileCloser_spec) (metis closing_message_bound nth_mem)
  then show ?thesis using fileCloser_spec [of cs] by blast
qed

theorem balanced_accounting_closes_witness:
  "fc_closeFiles (fileCloser [EvtDecoded 1, EvtReceived 1, EvtReceived 2, DataEnd, EvtWithError 2, EvtWritten 1, EvtReceived 3] closer_init) = 2 \<and>
   fc_events (fileCloser [EvtDecoded 1, EvtReceived 1, EvtReceived 2, DataEnd, EvtWithError 2, EvtWritten 1, EvtReceived 3] closer_init) = [1, 2] \<and>
   \<not> fc_timedOut (fileCloser [EvtDecoded 1, EvtReceived 1, EvtReceived 2, DataEnd, EvtWithError 2, EvtWritten 1] closer_init)"
  using balanced_accounting_closes [of "[EvtDecoded 1, EvtReceived 1, EvtReceived 2, DataEnd, EvtWithError 2, EvtWritten 1, EvtReceived 3]"]
    balanced_accounting_closes [of "[EvtDecoded 1, EvtReceived 1, EvtReceived 2, DataEnd, EvtWithError 2, EvtWritten 1]"]
  by (simp add: balanced_def closing_message_def closes_at_def told_def upt_rec)

text \<open>
  The channels keep no common order: when the end of the data is taken before a message of an
  event received earlier, the counts balance too soon and the files are closed although that event
  is still on its way.
\<close>

theorem premature_close:
  "\<not> fc_loop (fileCloser (DataEnd # cs) closer_init) \<and>
   fc_closeFiles (fileCloser (DataEnd # cs) closer_init) = 2 \<and>
   fc_events (fileCloser (DataEnd # cs) closer_init) = []"
proof -
  have "fileCloser (DataEnd # cs) closer_init = fileCloser cs (closer_turn DataEnd closer_init)"
    by (simp add: closer_init_def)
  also have "\<dots> = closer_turn DataEnd closer_init"
    by (rule closer_stops) (simp add: closer_turn_def closer_init_def accounted_def)
  finally show ?thesis by (simp add: closer_turn_def closer_init_def accounted_def)
qed

subsection \<open>What a worker tells the closer\<close>

definition closer_messages :: "decoder_action list \<Rightarrow> closer_case list" where
  "closer_messages as = concat (map (\<lambda>a. case a of ToCloser c \<Rightarrow> [c] | _ \<Rightarrow> []) as)"

definition unknown_trigger :: "DecoderConfiguration \<Rightarrow> string option \<Rightarrow> read_gdc \<Rightarrow> bool" where
  "unknown_trigger cfg err r \<longleftrightarrow> err = None \<and> dec_SplitTrigger cfg \<and>
     (\<exists>ev. r = GdcEvent ev \<and> \<not> de_Error ev \<and> de_TriggerType ev \<notin> {dec_TrgCode1 cfg, dec_TrgCode2 cfg})"

text \<open>
  A decoder worker reports every event to the file closer exactly once, as decoded or as failed,
  except an event with an unknown trigger type, of which the closer never hears.
\<close>

theorem decoder_reports_once:
  assumes "dec_WriteData cfg"
  shows "closer_messages (decodeEvent cfg i nb err r) =
    (if unknown_trigger cfg err r then []
     else if err = None \<and> (\<exists>ev. r = GdcEvent ev \<and> \<not> de_Error ev) then [EvtDecoded i] else [EvtWithError i])"
  using assms
  by (auto simp: decodeEvent_def closer_messages_def unknown_trigger_def with_closer_def Let_def
      split: option.splits read_gdc.splits)

definition example_decoder_config :: DecoderConfiguration where
  "example_decoder_config = \<lparr>dec_ExtTrigger = 15, dec_TrgCode1 = 1, dec_TrgCode2 = 9, dec_ReadPMTs = True,
     dec_ReadSiPMs = True, dec_ReadTrigger = True, dec_ReadFibers = True, dec_SplitTrigger = True,
     dec_NoDB = False, dec_Discard = True, dec_Host = [], dec_User = [], dec_Passwd = [], dec_DBName = [],
     dec_WriteData = True, dec_UseBlosc = True, dec_BloscAlgorithm = [], dec_CompressionLevel = 4,
     dec_BitShuffle = []\<rparr>"

theorem decoder_reports_once_witness:
  "closer_messages (decodeEvent example_decoder_config 7 7 None
     (GdcEvent \<lparr>de_EventID = 7, de_TriggerType = 4, de_Error = False\<rparr>)) = []"
  using decoder_reports_once [of example_decoder_config 7 7 None
      "GdcEvent \<lparr>de_EventID = 7, de_TriggerType = 4, de_Error = False\<rparr>"]
  by (simp add: example_decoder_config_def unknown_trigger_def)

text \<open>The writer skips events with the number zero and does not report them.\<close>

lemma decodedWriter_reports:
  "H5Close \<notin> set cs \<Longrightarrow>
   decodedWriter cs w = (w @ [(i, ev). H5Event i ev \<leftarrow> cs, de_EventID ev \<noteq> 0],
     [EvtWritten i. H5Event i ev \<leftarrow> cs, de_EventID ev \<noteq> 0])"
  by (induction cs w rule: decodedWriter.induct) auto

lemma create_writer_retries:
  "create_writer f a n = None \<longleftrightarrow> (\<forall>k \<le> n. \<not> f (a + k))"
proof (induction n arbitrary: a)
  case (Suc n)
  have "(\<forall>k \<le> Suc n. \<not> f (a + k)) \<longleftrightarrow> \<not> f a \<and> (\<forall>k \<le> n. \<not> f (Suc a + k))"
    by (metis add.right_neutral add_Suc_shift le0 le_Suc_eq not_less_eq_eq old.nat.exhaust)
  with Suc show ?case by auto
qed simp

end
