(* ===== verification/Decoder_Pool.thy ===== *)
theory Decoder_Pool
  imports File_Closer
begin

text \<open>
  Decoding in a run: the event builder that hands out jobs, the pool of workers (\<open>launchDecoderWorkers\<close>, \<open>decodeEvent\<close> of
  \<open>src/gdcRPC/decoder.go\<close>), the writers of the decoded files (\<open>decodedWriter\<close>) and one file closer per sub-run
  (\<open>src/gdcRPC/fileCloser.go\<close>), as goroutines that run in any interleaving.

  A step is one operation on a channel. The channels have the capacities of the configuration. The five channels to a file
  closer keep an order each and none in common: they are one list here, of which the closer takes the first message of a
  channel and in which a channel is full when the list holds as many of its messages. The number that the library gives an event, the errors of
  \<open>ReadEvent\<close> and the answer of \<open>ReadGDC\<close> are a function of the data. \<open>fs_mounted\<close>, \<open>fs_done\<close>, \<open>hw_written\<close> and \<open>hw_skipped\<close> are
  histories; the sends to the raw data writer are left out.
\<close>

section \<open>Definitions\<close>

record pool_params =
  pq_config :: DecoderConfiguration
  pq_decode :: bool
  pq_writerCh :: nat
  pq_decoderCh :: nat
  pq_workers :: nat
  pq_read :: "bytes \<Rightarrow> int \<times> string option \<times> read_gdc"

datatype writer_pc = WriterStarts | WriterWaits | WriterReports int | WriterGone

record h5_writer =
  hw_pc :: writer_pc
  hw_queue :: "(int \<times> decoded_event) list"
  hw_written :: "(int \<times> decoded_event) list"
  hw_skipped :: "(int \<times> decoded_event) list"

definition h5_writer_init :: h5_writer where
  "h5_writer_init = \<lparr>hw_pc = WriterStarts, hw_queue = [], hw_written = [], hw_skipped = []\<rparr>"

text \<open>The channels and goroutines of a sub-run.\<close>

record file_set =
  fs_closer :: closer
  fs_queue :: "closer_case list"
  fs_signalled :: nat
  fs_closeFiles :: nat
  fs_writers :: "TriggerType \<Rightarrow> h5_writer"
  fs_mounted :: "DecoderJob list"
  fs_done :: "decoder_action list"

definition file_set_init :: file_set where
  "file_set_init = \<lparr>fs_closer = closer_init, fs_queue = [], fs_signalled = 0, fs_closeFiles = 0,
     fs_writers = (\<lambda>t. h5_writer_init), fs_mounted = [], fs_done = []\<rparr>"

datatype worker = WorkerWaits | WorkerDecodes nat "decoder_action list" | WorkerGone

datatype builder_pc = BuilderReads | BuilderQueues DecoderJob | BuilderEnds | BuilderGone

record decoder_pool =
  dp_builder :: builder_pc
  dp_subRun :: nat
  dp_jobs :: "DecoderJob list"
  dp_jobsClosed :: bool
  dp_workers :: "nat \<Rightarrow> worker"
  dp_files :: "nat \<Rightarrow> file_set"

definition pool_start :: decoder_pool where
  "pool_start = \<lparr>dp_builder = BuilderReads, dp_subRun = 0, dp_jobs = [], dp_jobsClosed = False, dp_workers = (\<lambda>w. WorkerWaits),
     dp_files = (\<lambda>r. file_set_init)\<rparr>"

datatype closer_channel = ReceivedCh | DecodedCh | WrittenCh | ErrorCh | DataEndCh | TimerCh

fun channel_of :: "closer_case \<Rightarrow> closer_channel" where
  "channel_of (EvtReceived _) = ReceivedCh"
| "channel_of (EvtDecoded _) = DecodedCh"
| "channel_of (EvtWritten _) = WrittenCh"
| "channel_of (EvtWithError _) = ErrorCh"
| "channel_of DataEnd = DataEndCh"
| "channel_of TimerFired = TimerCh"

definition send_closer :: "nat \<Rightarrow> closer_case \<Rightarrow> file_set \<Rightarrow> file_set option" where
  "send_closer chSize c fs =
     (if length (filter (\<lambda>d. channel_of d = channel_of c) (fs_queue fs)) < chSize
      then Some (fs\<lparr>fs_queue := fs_queue fs @ [c]\<rparr>) else None)"

definition set_files :: "nat \<Rightarrow> decoder_pool \<Rightarrow> file_set \<Rightarrow> decoder_pool" where
  "set_files r s fs = s\<lparr>dp_files := (dp_files s)(r := fs)\<rparr>"

datatype pool_action =
    EventComplete int bytes
  | QueueJob
  | RotateFiles
  | EndRun
  | EndData
  | WorkerTakes nat
  | WorkerActs nat
  | WriterOpens nat TriggerType bool
  | WriterTakes nat TriggerType
  | WriterTells nat TriggerType
  | WriterCloses nat TriggerType
  | CloserTakes nat closer_case
  | CloserTimeout nat
  | CloserSignals nat

subsection \<open>The event builder's part\<close>

definition writes_files :: "pool_params \<Rightarrow> bool" where
  "writes_files p = dec_WriteData (pq_config p)"

fun builder_step :: "pool_params \<Rightarrow> pool_action \<Rightarrow> decoder_pool \<Rightarrow> decoder_pool option" where
  "builder_step p (EventComplete i gdcData) s =
     (let r = dp_subRun s; job = \<lparr>dj_DuckEventID = i, dj_Data = gdcData, dj_SubRun = r\<rparr>;
          fs = (dp_files s r)\<lparr>fs_mounted := fs_mounted (dp_files s r) @ [job]\<rparr>
      in if dp_builder s \<noteq> BuilderReads then None
         else map_option (\<lambda>fs. (set_files r s fs)\<lparr>dp_builder := (if pq_decode p then BuilderQueues job else BuilderReads)\<rparr>)
                (if writes_files p then send_closer (pq_writerCh p) (EvtReceived i) fs else Some fs))"
| "builder_step p QueueJob s =
     (case dp_builder s of
        BuilderQueues job \<Rightarrow>
          if length (dp_jobs s) < pq_decoderCh p then Some (s\<lparr>dp_jobs := dp_jobs s @ [job], dp_builder := BuilderReads\<rparr>) else None
      | _ \<Rightarrow> None)"
| "builder_step p RotateFiles s =
     (let r = dp_subRun s
      in if dp_builder s \<noteq> BuilderReads then None
         else map_option (\<lambda>fs. (set_files r s fs)\<lparr>dp_subRun := r + 1\<rparr>)
                (if writes_files p then send_closer (pq_writerCh p) DataEnd (dp_files s r) else Some (dp_files s r)))"
| "builder_step p EndRun s =
     (if dp_builder s = BuilderReads then Some (s\<lparr>dp_jobsClosed := True, dp_builder := BuilderEnds\<rparr>) else None)"
| "builder_step p EndData s =
     (let r = dp_subRun s
      in if dp_builder s \<noteq> BuilderEnds then None
         else map_option (\<lambda>fs. (set_files r s fs)\<lparr>dp_builder := BuilderGone\<rparr>) (send_closer (pq_writerCh p) DataEnd (dp_files s r)))"
| "builder_step p act s = None"

subsection \<open>The workers\<close>

definition job_actions :: "pool_params \<Rightarrow> DecoderJob \<Rightarrow> decoder_action list" where
  "job_actions p job = (case pq_read p (dj_Data job) of (nbInRun, readEventErr, readGDC) \<Rightarrow>
     decodeEvent (pq_config p) (dj_DuckEventID job) nbInRun readEventErr readGDC)"

text \<open>One effect of \<open>decodeEvent\<close>: only the sends can block.\<close>

fun worker_action :: "pool_params \<Rightarrow> decoder_action \<Rightarrow> file_set \<Rightarrow> file_set option" where
  "worker_action p (ToCloser c) fs = send_closer (pq_writerCh p) c fs"
| "worker_action p (ToWriter t i event) fs =
     (let w = fs_writers fs t
      in if length (hw_queue w) < pq_writerCh p
         then Some (fs\<lparr>fs_writers := (fs_writers fs)(t := w\<lparr>hw_queue := hw_queue w @ [(i, event)]\<rparr>)\<rparr>) else None)"
| "worker_action p a fs = Some fs"

fun worker_free :: "worker \<Rightarrow> bool" where
  "worker_free WorkerWaits = True"
| "worker_free (WorkerDecodes r as) = (as = [])"
| "worker_free WorkerGone = False"

fun launchDecoderWorkers :: "pool_params \<Rightarrow> pool_action \<Rightarrow> decoder_pool \<Rightarrow> decoder_pool option" where
  "launchDecoderWorkers p (WorkerTakes w) s =
     (if pq_decode p \<and> w < pq_workers p \<and> worker_free (dp_workers s w)
      then case dp_jobs s of
          job # jobs \<Rightarrow> Some (s\<lparr>dp_jobs := jobs, dp_workers := (dp_workers s)(w := WorkerDecodes (dj_SubRun job) (job_actions p job))\<rparr>)
        | [] \<Rightarrow> if dp_jobsClosed s then Some (s\<lparr>dp_workers := (dp_workers s)(w := WorkerGone)\<rparr>) else None
      else None)"
| "launchDecoderWorkers p (WorkerActs w) s =
     (if w < pq_workers p
      then case dp_workers s w of
          WorkerDecodes r (a # as) \<Rightarrow>
            map_option (\<lambda>fs. (set_files r s (fs\<lparr>fs_done := fs_done fs @ [a]\<rparr>))\<lparr>dp_workers := (dp_workers s)(w := WorkerDecodes r as)\<rparr>)
              (worker_action p a (dp_files s r))
        | _ \<Rightarrow> None
      else None)"
| "launchDecoderWorkers p act s = None"

subsection \<open>The writers of the decoded files\<close>

text \<open>Which writers a sub-run has: two when the triggers are split, one on the first channel otherwise.\<close>

definition has_writer :: "pool_params \<Rightarrow> TriggerType \<Rightarrow> bool" where
  "has_writer p t \<longleftrightarrow> writes_files p \<and> (t = Trg1 \<or> t = Trg2 \<and> dec_SplitTrigger (pq_config p))"

definition set_writer :: "nat \<Rightarrow> TriggerType \<Rightarrow> decoder_pool \<Rightarrow> h5_writer \<Rightarrow> decoder_pool" where
  "set_writer r t s w = set_files r s ((dp_files s r)\<lparr>fs_writers := (fs_writers (dp_files s r))(t := w)\<rparr>)"

fun writer_step :: "pool_params \<Rightarrow> pool_action \<Rightarrow> decoder_pool \<Rightarrow> decoder_pool option" where
  "writer_step p (WriterOpens r t ok) s =
     (let w = fs_writers (dp_files s r) t
      in if has_writer p t \<and> r \<le> dp_subRun s \<and> hw_pc w = WriterStarts
         then Some (set_writer r t s (w\<lparr>hw_pc := (if ok then WriterWaits else WriterGone)\<rparr>)) else None)"
| "writer_step p (WriterTakes r t) s =
     (let w = fs_writers (dp_files s r) t
      in case (hw_pc w, hw_queue w) of
           (WriterWaits, (i, event) # xs) \<Rightarrow>
             Some (set_writer r t s
               (if de_EventID event = 0 then w\<lparr>hw_queue := xs, hw_skipped := hw_skipped w @ [(i, event)]\<rparr>
                else w\<lparr>hw_queue := xs, hw_written := hw_written w @ [(i, event)], hw_pc := WriterReports i\<rparr>))
         | _ \<Rightarrow> None)"
| "writer_step p (WriterTells r t) s =
     (let w = fs_writers (dp_files s r) t
      in case hw_pc w of
           WriterReports i \<Rightarrow> map_option (\<lambda>fs. set_writer r t (set_files r s fs) (w\<lparr>hw_pc := WriterWaits\<rparr>))
             (send_closer (pq_writerCh p) (EvtWritten i) (dp_files s r))
         | _ \<Rightarrow> None)"
| "writer_step p (WriterCloses r t) s =
     (let w = fs_writers (dp_files s r) t; fs = dp_files s r
      in if hw_pc w = WriterWaits \<and> 0 < fs_closeFiles fs
         then Some (set_writer r t (set_files r s (fs\<lparr>fs_closeFiles := fs_closeFiles fs - 1\<rparr>)) (w\<lparr>hw_pc := WriterGone\<rparr>)) else None)"
| "writer_step p act s = None"

subsection \<open>The file closers\<close>

fun closer_step :: "pool_params \<Rightarrow> pool_action \<Rightarrow> decoder_pool \<Rightarrow> decoder_pool option" where
  "closer_step p (CloserTakes r c) s =
     (let fs = dp_files s r
      in if writes_files p \<and> r \<le> dp_subRun s \<and> fc_loop (fs_closer fs) \<and> c \<noteq> TimerFired \<and>
           find (\<lambda>d. channel_of d = channel_of c) (fs_queue fs) = Some c
         then Some (set_files r s (fs\<lparr>fs_queue := remove1 c (fs_queue fs), fs_closer := closer_turn c (fs_closer fs)\<rparr>)) else None)"
| "closer_step p (CloserTimeout r) s =
     (let fs = dp_files s r
      in if writes_files p \<and> r \<le> dp_subRun s \<and> fc_loop (fs_closer fs) \<and> fc_dataEnded (fs_closer fs)
         then Some (set_files r s (fs\<lparr>fs_closer := closer_turn TimerFired (fs_closer fs)\<rparr>)) else None)"
| "closer_step p (CloserSignals r) s =
     (let fs = dp_files s r
      in if fs_signalled fs < fc_closeFiles (fs_closer fs) \<and> fs_closeFiles fs < pq_writerCh p
         then Some (set_files r s (fs\<lparr>fs_signalled := fs_signalled fs + 1, fs_closeFiles := fs_closeFiles fs + 1\<rparr>)) else None)"
| "closer_step p act s = None"

fun pool_step :: "pool_params \<Rightarrow> pool_action \<Rightarrow> decoder_pool \<Rightarrow> decoder_pool option" where
  "pool_step p act s =
     (case act of
        EventComplete i d \<Rightarrow> builder_step p act s | QueueJob \<Rightarrow> builder_step p act s | RotateFiles \<Rightarrow> builder_step p act s
      | EndRun \<Rightarrow> builder_step p act s | EndData \<Rightarrow> builder_step p act s
      | WorkerTakes w \<Rightarrow> launchDecoderWorkers p act s | WorkerActs w \<Rightarrow> launchDecoderWorkers p act s
      | WriterOpens r t ok \<Rightarrow> writer_step p act s | WriterTakes r t \<Rightarrow> writer_step p act s
      | WriterTells r t \<Rightarrow> writer_step p act s | WriterCloses r t \<Rightarrow> writer_step p act s
      | _ \<Rightarrow> closer_step p act s)"

inductive pool_run :: "pool_params \<Rightarrow> decoder_pool \<Rightarrow> decoder_pool \<Rightarrow> bool" for p s0 where
  pool_here: "pool_run p s0 s0"
| pool_on: "pool_run p s0 s \<Longrightarrow> pool_step p act s = Some s' \<Longrightarrow> pool_run p s0 s'"

fun pool_exec :: "pool_params \<Rightarrow> pool_action list \<Rightarrow> decoder_pool \<Rightarrow> decoder_pool option" where
  "pool_exec p [] s = Some s"
| "pool_exec p (a # as) s = (case pool_step p a s of None \<Rightarrow> None | Some s' \<Rightarrow> pool_exec p as s')"

declare pool_step.simps [simp del]

section \<open>What the accounting of a sub-run rests on\<close>

definition is_message :: "closer_case \<Rightarrow> bool" where
  "is_message c \<longleftrightarrow> c \<noteq> DataEnd \<and> c \<noteq> TimerFired"

definition heard :: "closer \<Rightarrow> closer_case list" where
  "heard c = map EvtReceived (fc_events c) @ map EvtDecoded (fc_eventsDecoded c) @ map EvtWritten (fc_eventsWritten c) @
     map EvtWithError (fc_eventsWithError c)"

lemma heard_turn: "mset (heard (closer_turn c s)) = (if is_message c then {#c#} else {#}) + mset (heard s)"
  by (cases c) (auto simp: heard_def closer_turn_def is_message_def Let_def)

definition to_writer :: "TriggerType \<Rightarrow> decoder_action list \<Rightarrow> (int \<times> decoded_event) list" where
  "to_writer t as = concat (map (\<lambda>a. case a of ToWriter u i ev \<Rightarrow> if u = t then [(i, ev)] else [] | _ \<Rightarrow> []) as)"

lemma effects_append_all [simp]:
  "to_writer t (as @ bs) = to_writer t as @ to_writer t bs" "closer_messages (as @ bs) = closer_messages as @ closer_messages bs"
  by (simp_all add: to_writer_def closer_messages_def)

lemma effects_Cons [simp]:
  "to_writer t [] = []" "closer_messages [] = []"
  "to_writer t (ToWriter u i ev # as) = (if u = t then [(i, ev)] else []) @ to_writer t as"
  "to_writer t (ToCloser c # as) = to_writer t as" "to_writer t (CountTrigger u # as) = to_writer t as"
  "to_writer t (DecoderError # as) = to_writer t as" "to_writer t (LogError m # as) = to_writer t as"
  "to_writer t (LogNonStopping m # as) = to_writer t as" "closer_messages (ToWriter u i ev # as) = closer_messages as"
  "closer_messages (ToCloser c # as) = c # closer_messages as" "closer_messages (CountTrigger u # as) = closer_messages as"
  "closer_messages (DecoderError # as) = closer_messages as" "closer_messages (LogError m # as) = closer_messages as"
  "closer_messages (LogNonStopping m # as) = closer_messages as"
  by (simp_all add: to_writer_def closer_messages_def)

fun reporting :: "writer_pc \<Rightarrow> closer_case list" where
  "reporting (WriterReports i) = [EvtWritten i]"
| "reporting pc = []"

abbreviation triggers :: "TriggerType set" where
  "triggers \<equiv> {Trg0, Trg1, Trg2}"

definition messages_inv :: "file_set \<Rightarrow> bool" where
  "messages_inv fs \<longleftrightarrow>
     mset (map (\<lambda>j. EvtReceived (dj_DuckEventID j)) (fs_mounted fs)) + mset (closer_messages (fs_done fs)) +
       (\<Sum>t \<in> triggers. mset (map (\<lambda>x. EvtWritten (fst x)) (hw_written (fs_writers fs t)))) =
     filter_mset is_message (mset (fs_queue fs)) + mset (heard (fs_closer fs)) +
       (\<Sum>t \<in> triggers. mset (reporting (hw_pc (fs_writers fs t))))"

definition writers_inv :: "file_set \<Rightarrow> bool" where
  "writers_inv fs \<longleftrightarrow> (\<forall>t. mset (to_writer t (fs_done fs)) =
     mset (hw_queue (fs_writers fs t)) + mset (hw_written (fs_writers fs t)) + mset (hw_skipped (fs_writers fs t)))"

definition files_inv :: "file_set \<Rightarrow> bool" where
  "files_inv fs \<longleftrightarrow> messages_inv fs \<and> writers_inv fs \<and> closer_inv (fs_closer fs)"

lemma files_inv_init: "files_inv file_set_init"
  by (simp add: files_inv_def messages_inv_def writers_inv_def file_set_init_def h5_writer_init_def heard_def closer_init_def closer_inv_def)

lemma taken_messages:
  assumes "c \<in> set q"
  shows "filter_mset is_message (mset q) = (if is_message c then {#c#} else {#}) + filter_mset is_message (mset (remove1 c q))"
proof -
  have "mset q = add_mset c (mset (remove1 c q))" using assms by simp
  then have "filter_mset is_message (mset q) = filter_mset is_message (add_mset c (mset (remove1 c q)))" by simp
  then show ?thesis by (simp del: mset_remove1)
qed

lemma closer_files_inv:
  assumes "closer_step p act s = Some s'" "\<And>r. files_inv (dp_files s r)"
  shows "files_inv (dp_files s' r) \<and> dp_builder s' = dp_builder s \<and> dp_jobs s' = dp_jobs s \<and> dp_workers s' = dp_workers s \<and>
    fs_mounted (dp_files s' r) = fs_mounted (dp_files s r) \<and> fs_done (dp_files s' r) = fs_done (dp_files s r)"
proof (cases act)
  case (CloserTakes q c)
  let ?fs = "dp_files s q"
  have c: "fc_loop (fs_closer ?fs)" "find (\<lambda>d. channel_of d = channel_of c) (fs_queue ?fs) = Some c" "c \<noteq> TimerFired"
    and s': "s' = set_files q s (?fs\<lparr>fs_queue := remove1 c (fs_queue ?fs), fs_closer := closer_turn c (fs_closer ?fs)\<rparr>)"
    using assms(1) CloserTakes by (auto simp: Let_def split: if_splits)
  have "c \<in> set (fs_queue ?fs)" using c(2) by (auto simp: find_Some_iff)
  from taken_messages [OF this] show ?thesis
    using assms(2) [of q] assms(2) [of r] c(1,3) s' closer_inv_turn [of "fs_closer ?fs" c]
    by (auto simp: files_inv_def messages_inv_def writers_inv_def set_files_def heard_turn simp del: mset_remove1)
next
  case (CloserTimeout q)
  then have "fc_loop (fs_closer (dp_files s q))" "fc_dataEnded (fs_closer (dp_files s q))"
      and s': "s' = set_files q s ((dp_files s q)\<lparr>fs_closer := closer_turn TimerFired (fs_closer (dp_files s q))\<rparr>)"
    using assms(1) by (auto simp: Let_def split: if_splits)
  with closer_inv_turn [of "fs_closer (dp_files s q)" TimerFired] assms(2) [of q] assms(2) [of r] show ?thesis
    by (auto simp: files_inv_def messages_inv_def writers_inv_def set_files_def heard_turn is_message_def)
next
  case (CloserSignals q)
  then have "s' = set_files q s ((dp_files s q)\<lparr>fs_signalled := fs_signalled (dp_files s q) + 1, fs_closeFiles := fs_closeFiles (dp_files s q) + 1\<rparr>)"
    using assms(1) by (simp add: Let_def split: if_splits)
  with assms(2) [of q] assms(2) [of r] show ?thesis
    by (auto simp: files_inv_def messages_inv_def writers_inv_def set_files_def)
qed (use assms(1) in simp_all)

lemma writer_files_inv:
  assumes "writer_step p act s = Some s'" "\<And>r. files_inv (dp_files s r)"
  shows "files_inv (dp_files s' r) \<and> dp_builder s' = dp_builder s \<and> dp_jobs s' = dp_jobs s \<and> dp_workers s' = dp_workers s \<and>
    fs_mounted (dp_files s' r) = fs_mounted (dp_files s r) \<and> fs_done (dp_files s' r) = fs_done (dp_files s r)"
proof (cases act)
  case (WriterOpens q t ok)
  let ?w = "fs_writers (dp_files s q) t"
  have "hw_pc ?w = WriterStarts" "s' = set_writer q t s (?w\<lparr>hw_pc := (if ok then WriterWaits else WriterGone)\<rparr>)"
    using assms(1) WriterOpens by (auto simp: Let_def split: if_splits)
  with assms(2) [of q] assms(2) [of r] show ?thesis
    by (cases t) (auto simp: files_inv_def messages_inv_def writers_inv_def set_writer_def set_files_def)
next
  case (WriterTakes q t)
  let ?w = "fs_writers (dp_files s q) t"
  obtain i ev xs where w: "hw_pc ?w = WriterWaits" "hw_queue ?w = (i, ev) # xs"
    and s': "s' = set_writer q t s (if de_EventID ev = 0 then ?w\<lparr>hw_queue := xs, hw_skipped := hw_skipped ?w @ [(i, ev)]\<rparr>
      else ?w\<lparr>hw_queue := xs, hw_written := hw_written ?w @ [(i, ev)], hw_pc := WriterReports i\<rparr>)"
    using assms(1) WriterTakes by (auto simp: Let_def split: writer_pc.splits list.splits prod.splits)
  from assms(2) [of q] assms(2) [of r] w show ?thesis
    by (cases t; cases "de_EventID ev = 0") (auto simp: files_inv_def messages_inv_def writers_inv_def set_writer_def set_files_def s')
next
  case (WriterTells q t)
  let ?w = "fs_writers (dp_files s q) t"
  obtain i fs where w: "hw_pc ?w = WriterReports i" "send_closer (pq_writerCh p) (EvtWritten i) (dp_files s q) = Some fs"
    "s' = set_writer q t (set_files q s fs) (?w\<lparr>hw_pc := WriterWaits\<rparr>)"
    using assms(1) WriterTells by (auto simp: Let_def split: writer_pc.splits)
  from assms(2) [of q] assms(2) [of r] w show ?thesis
    by (cases t) (auto simp: files_inv_def messages_inv_def writers_inv_def set_writer_def set_files_def send_closer_def is_message_def split: if_splits)
next
  case (WriterCloses q t)
  let ?w = "fs_writers (dp_files s q) t"
  have "hw_pc ?w = WriterWaits"
    "s' = set_writer q t (set_files q s ((dp_files s q)\<lparr>fs_closeFiles := fs_closeFiles (dp_files s q) - 1\<rparr>)) (?w\<lparr>hw_pc := WriterGone\<rparr>)"
    using assms(1) WriterCloses by (auto simp: Let_def split: if_splits)
  with assms(2) [of q] assms(2) [of r] show ?thesis
    by (cases t) (auto simp: files_inv_def messages_inv_def writers_inv_def set_writer_def set_files_def)
qed (use assms(1) in simp_all)

subsection \<open>The jobs\<close>

definition undone :: "nat \<Rightarrow> worker \<Rightarrow> decoder_action list" where
  "undone r w = (case w of WorkerDecodes q as \<Rightarrow> if q = r then as else [] | _ \<Rightarrow> [])"

definition waiting :: "decoder_pool \<Rightarrow> nat \<Rightarrow> DecoderJob list" where
  "waiting s r = filter (\<lambda>j. dj_SubRun j = r) ((case dp_builder s of BuilderQueues job \<Rightarrow> [job] | _ \<Rightarrow> []) @ dp_jobs s)"

text \<open>Everything the events of a sub-run ask for is done, begun by a worker, or still to begin.\<close>

definition job_inv :: "pool_params \<Rightarrow> decoder_pool \<Rightarrow> nat \<Rightarrow> bool" where
  "job_inv p s r \<longleftrightarrow> mset (concat (map (job_actions p) (fs_mounted (dp_files s r)))) =
     mset (concat (map (job_actions p) (waiting s r))) + (\<Sum>w < pq_workers p. mset (undone r (dp_workers s w))) + mset (fs_done (dp_files s r))"

definition pool_inv :: "pool_params \<Rightarrow> decoder_pool \<Rightarrow> bool" where
  "pool_inv p s \<longleftrightarrow> (\<forall>r. files_inv (dp_files s r) \<and> job_inv p s r) \<and>
     (\<forall>w r as. dp_workers s w = WorkerDecodes r as \<longrightarrow> (\<exists>job pre. job_actions p job = pre @ as))"

lemma pool_inv_start: "pool_inv p pool_start"
  using files_inv_init by (simp add: pool_inv_def job_inv_def pool_start_def waiting_def undone_def file_set_init_def)

lemma job_messages: "ToCloser c \<in> set (job_actions p job) \<Longrightarrow> is_message c"
  by (auto simp: job_actions_def decodeEvent_def with_closer_def is_message_def Let_def
      split: prod.splits option.splits read_gdc.splits if_splits)

lemma sum_workers:
  fixes f :: "worker \<Rightarrow> 'a multiset" and n :: nat
  assumes "w < n"
  shows "(\<Sum>v < n. f ((ws(w := x)) v)) + f (ws w) = (\<Sum>v < n. f (ws v)) + f x"
proof -
  have "(\<Sum>v \<in> {..<n} - {w}. f ((ws(w := x)) v)) = (\<Sum>v \<in> {..<n} - {w}. f (ws v))" by (intro sum.cong) auto
  with sum.remove [of "{..<n}" w "\<lambda>v. f (ws v)"] sum.remove [of "{..<n}" w "\<lambda>v. f ((ws(w := x)) v)"] assms
  show ?thesis by (simp add: ac_simps)
qed

lemma worker_action_inv:
  assumes "worker_action p a fs = Some fs'" "files_inv fs" "\<And>c. a = ToCloser c \<Longrightarrow> is_message c"
  shows "files_inv (fs'\<lparr>fs_done := fs_done fs' @ [a]\<rparr>) \<and> fs_mounted fs' = fs_mounted fs \<and> fs_done fs' = fs_done fs"
proof (cases a)
  case (ToCloser c)
  then show ?thesis
    using assms by (auto simp: send_closer_def files_inv_def messages_inv_def writers_inv_def split: if_splits)
next
  case (ToWriter t i ev)
  then show ?thesis
    using assms by (cases t) (auto simp: Let_def files_inv_def messages_inv_def writers_inv_def split: if_splits)
qed (use assms in \<open>auto simp: files_inv_def messages_inv_def writers_inv_def\<close>)

lemma worker_inv:
  assumes "launchDecoderWorkers p act s = Some s'" "pool_inv p s"
  shows "pool_inv p s'"
proof (cases act)
  case (WorkerTakes w)
  then have w: "w < pq_workers p" "worker_free (dp_workers s w)" using assms(1) by (auto split: if_splits)
  have none: "undone r (dp_workers s w) = []" for r using w(2) by (cases "dp_workers s w") (auto simp: undone_def)
  show ?thesis
  proof (cases "dp_jobs s")
    case (Cons job jobs)
    then have s': "s' = s\<lparr>dp_jobs := jobs, dp_workers := (dp_workers s)(w := WorkerDecodes (dj_SubRun job) (job_actions p job))\<rparr>"
      using assms(1) WorkerTakes w by (simp split: if_splits)
    have "job_inv p s' r" if "job_inv p s r" for r
      using that sum_workers [OF w(1), of "\<lambda>x. mset (undone r x)" "dp_workers s" "WorkerDecodes (dj_SubRun job) (job_actions p job)"] Cons
      by (auto simp: job_inv_def s' waiting_def none ac_simps) (auto simp: undone_def)
    then show ?thesis using assms(2) by (auto simp: pool_inv_def s' split: if_splits)
  next
    case Nil
    then have s': "s' = s\<lparr>dp_workers := (dp_workers s)(w := WorkerGone)\<rparr>" using assms(1) WorkerTakes w by (auto split: if_splits)
    have "job_inv p s' r" if "job_inv p s r" for r
      using that sum_workers [OF w(1), of "\<lambda>x. mset (undone r x)" "dp_workers s" WorkerGone]
      by (auto simp: job_inv_def s' waiting_def none) (auto simp: undone_def)
    then show ?thesis using assms(2) by (auto simp: pool_inv_def s')
  qed
next
  case (WorkerActs w)
  then obtain q a as fs where w: "w < pq_workers p" "dp_workers s w = WorkerDecodes q (a # as)"
      "worker_action p a (dp_files s q) = Some fs"
    and s': "s' = (set_files q s (fs\<lparr>fs_done := fs_done fs @ [a]\<rparr>))\<lparr>dp_workers := (dp_workers s)(w := WorkerDecodes q as)\<rparr>"
    using assms(1) by (auto split: if_splits worker.splits list.splits)
  obtain job pre where job: "job_actions p job = pre @ a # as" using assms(2) w(2) unfolding pool_inv_def by blast
  then have "is_message c" if "a = ToCloser c" for c using job_messages [of c p job] that by simp
  note act_inv = worker_action_inv [OF w(3) _ this]
  have inv: "files_inv (dp_files s r)" "job_inv p s r" for r using assms(2) by (simp_all add: pool_inv_def)
  have fs: "files_inv (fs\<lparr>fs_done := fs_done fs @ [a]\<rparr>)" "fs_mounted fs = fs_mounted (dp_files s q)" "fs_done fs = fs_done (dp_files s q)"
    using act_inv [OF inv(1)] by blast+
  have "job_inv p s' r" for r
    using inv(2) [of r] fs(2,3) w(2)
      sum_workers [OF w(1), of "\<lambda>x. mset (undone r x)" "dp_workers s" "WorkerDecodes q as"]
    by (auto simp: job_inv_def s' waiting_def set_files_def undone_def ac_simps split: if_splits)
  moreover have "files_inv (dp_files s' r)" for r using fs(1) inv(1) [of r] by (simp add: s' set_files_def)
  moreover have "\<exists>job pre. job_actions p job = pre @ as" using job by (metis append.assoc append_Cons append_Nil)
  ultimately show ?thesis using assms(2) by (auto simp: pool_inv_def s' set_files_def)
qed (use assms(1) in simp_all)

lemma builder_inv_step:
  assumes "builder_step p act s = Some s'" "pool_inv p s" "writes_files p" "pq_decode p"
  shows "pool_inv p s'"
proof -
  have inv: "files_inv (dp_files s r)" "job_inv p s r" for r using assms(2) by (simp_all add: pool_inv_def)
  have ended: "files_inv fs" "fs_mounted fs = fs_mounted (dp_files s r)" "fs_done fs = fs_done (dp_files s r)"
    if "send_closer n DataEnd (dp_files s r) = Some fs" for n r fs
    using that inv(1) [of r]
    by (auto simp: send_closer_def files_inv_def messages_inv_def writers_inv_def is_message_def split: if_splits)
  show ?thesis
  proof (cases act)
    case (EventComplete i d)
    let ?r = "dp_subRun s" let ?job = "\<lparr>dj_DuckEventID = i, dj_Data = d, dj_SubRun = ?r\<rparr>"
    obtain fs where b: "dp_builder s = BuilderReads" "s' = (set_files ?r s fs)\<lparr>dp_builder := BuilderQueues ?job\<rparr>"
      and fs: "send_closer (pq_writerCh p) (EvtReceived i) ((dp_files s ?r)\<lparr>fs_mounted := fs_mounted (dp_files s ?r) @ [?job]\<rparr>) = Some fs"
      using assms(1,3,4) EventComplete by (auto simp: Let_def split: if_splits)
    have "files_inv fs" "fs_mounted fs = fs_mounted (dp_files s ?r) @ [?job]" "fs_done fs = fs_done (dp_files s ?r)"
      using fs inv(1) [of ?r]
      by (auto simp: send_closer_def files_inv_def messages_inv_def writers_inv_def is_message_def split: if_splits)
    then show ?thesis using assms(2) b by (auto simp: pool_inv_def job_inv_def waiting_def set_files_def)
  next
    case QueueJob
    then obtain job where "dp_builder s = BuilderQueues job" "s' = s\<lparr>dp_jobs := dp_jobs s @ [job], dp_builder := BuilderReads\<rparr>"
      using assms(1) by (auto split: builder_pc.splits if_splits)
    then show ?thesis using assms(2) by (auto simp: pool_inv_def job_inv_def waiting_def ac_simps)
  next
    case RotateFiles
    then obtain fs where "s' = (set_files (dp_subRun s) s fs)\<lparr>dp_subRun := dp_subRun s + 1\<rparr>"
        "send_closer (pq_writerCh p) DataEnd (dp_files s (dp_subRun s)) = Some fs"
      using assms(1,3) by (auto simp: Let_def split: if_splits)
    with ended [of "pq_writerCh p" "dp_subRun s" fs] show ?thesis
      using assms(2) by (auto simp: pool_inv_def job_inv_def waiting_def set_files_def)
  next
    case EndRun
    then have "dp_builder s = BuilderReads" "s' = s\<lparr>dp_jobsClosed := True, dp_builder := BuilderEnds\<rparr>"
      using assms(1) by (simp_all split: if_splits)
    then show ?thesis using assms(2) by (auto simp: pool_inv_def job_inv_def waiting_def)
  next
    case EndData
    then obtain fs where "dp_builder s = BuilderEnds" "s' = (set_files (dp_subRun s) s fs)\<lparr>dp_builder := BuilderGone\<rparr>"
        "send_closer (pq_writerCh p) DataEnd (dp_files s (dp_subRun s)) = Some fs"
      using assms(1) by (auto simp: Let_def split: if_splits)
    with ended [of "pq_writerCh p" "dp_subRun s" fs] show ?thesis
      using assms(2) by (auto simp: pool_inv_def job_inv_def waiting_def set_files_def)
  qed (use assms(1) in simp_all)
qed

lemma pool_step_cases:
  assumes "pool_step p act s = Some s'"
  obtains "builder_step p act s = Some s'" | "launchDecoderWorkers p act s = Some s'" | "writer_step p act s = Some s'"
    | "closer_step p act s = Some s'"
  using assms by (cases act) (simp_all add: pool_step.simps)

lemma pool_inv_run:
  assumes "pool_run p s0 s" "pool_inv p s0" "writes_files p" "pq_decode p"
  shows "pool_inv p s"
  using assms(1)
proof induction
  case (pool_on s act s')
  have inv: "files_inv (dp_files s r)" for r using pool_on.IH by (simp add: pool_inv_def)
  from pool_on.hyps(2) show ?case
  proof (cases rule: pool_step_cases)
    case 3
    with writer_files_inv [OF 3 inv] pool_on.IH show ?thesis by (auto simp: pool_inv_def job_inv_def waiting_def)
  next
    case 4
    with closer_files_inv [OF 4 inv] pool_on.IH show ?thesis by (auto simp: pool_inv_def job_inv_def waiting_def)
  qed (use pool_on.IH assms(3,4) builder_inv_step worker_inv in blast)+
qed (use assms(2) in simp)

section \<open>Closed files are complete\<close>

text \<open>The event that an entry of a decoded file comes from: what the library decodes without an error, for the trigger of the file.\<close>

definition decoded_for :: "pool_params \<Rightarrow> TriggerType \<Rightarrow> DecoderJob \<Rightarrow> (int \<times> decoded_event) list" where
  "decoded_for p t job =
     (case pq_read p (dj_Data job) of
        (_, None, GdcEvent ev) \<Rightarrow>
          if \<not> de_Error ev \<and>
             (if dec_SplitTrigger (pq_config p)
              then t = Trg1 \<and> de_TriggerType ev = dec_TrgCode1 (pq_config p) \<or>
                   t = Trg2 \<and> de_TriggerType ev \<noteq> dec_TrgCode1 (pq_config p) \<and> de_TriggerType ev = dec_TrgCode2 (pq_config p)
              else t = Trg1)
          then [(dj_DuckEventID job, ev)] else []
      | _ \<Rightarrow> [])"

lemma job_to_writer: "writes_files p \<Longrightarrow> to_writer t (job_actions p job) = decoded_for p t job"
  by (auto simp: job_actions_def decoded_for_def decodeEvent_def with_closer_def writes_files_def Let_def
      split: prod.splits option.splits read_gdc.splits)

lemma job_one_message: "length (closer_messages (job_actions p job)) \<le> 1"
  by (auto simp: job_actions_def decodeEvent_def with_closer_def Let_def split: prod.splits option.splits read_gdc.splits)

lemma job_kinds: "c \<in> set (closer_messages (job_actions p job)) \<Longrightarrow> is_decoded c \<or> is_error c"
  by (auto simp: job_actions_def decodeEvent_def with_closer_def Let_def split: prod.splits option.splits read_gdc.splits if_splits)

lemma job_decoded:
  assumes "writes_files p"
  shows "length (filter is_decoded (closer_messages (job_actions p job))) = (\<Sum>t \<in> triggers. length (to_writer t (job_actions p job)))"
  using assms
  by (auto simp: job_actions_def decodeEvent_def with_closer_def writes_files_def Let_def split: prod.splits option.splits read_gdc.splits)

text \<open>An event is handed to a writer before the closer hears of it.\<close>

lemma job_last: "to_writer t (job_actions p job) \<noteq> [] \<Longrightarrow> \<exists>c. last (job_actions p job) = ToCloser c"
  by (auto simp: job_actions_def decodeEvent_def with_closer_def Let_def split: prod.splits option.splits read_gdc.splits if_splits)

lemma job_suffix:
  assumes "job_actions p job = pre @ as" "closer_messages as = []"
  shows "to_writer t as = []"
proof (rule ccontr)
  assume some: "to_writer t as \<noteq> []"
  then have "as \<noteq> []" by auto
  with some job_last [of t p job] assms(1) obtain c where "last as = ToCloser c" by auto
  with \<open>as \<noteq> []\<close> have "as = butlast as @ [ToCloser c]" by (metis append_butlast_last_id)
  then have "closer_messages as = closer_messages (butlast as) @ [c]"
    by (metis effects_append_all(2) effects_Cons(2,10))
  with assms(2) show False by simp
qed

lemma mset_effects: "mset (concat (map g as)) = (\<Sum>a \<in># mset as. mset (g a))"
  by (induction as) simp_all

lemma job_inv_effects:
  assumes "job_inv p s r"
  shows "mset (concat (map g (concat (map (job_actions p) (fs_mounted (dp_files s r)))))) =
    mset (concat (map g (concat (map (job_actions p) (waiting s r))))) +
    (\<Sum>w < pq_workers p. mset (concat (map g (undone r (dp_workers s w))))) + mset (concat (map g (fs_done (dp_files s r))))"
proof -
  have "(\<Sum>a \<in># (\<Sum>w < (n :: nat). f w). mset (g a)) = (\<Sum>w < n. \<Sum>a \<in># f w. mset (g a))" for n and f :: "nat \<Rightarrow> decoder_action multiset"
    by (induction n) simp_all
  then show ?thesis using assms unfolding mset_effects job_inv_def by simp
qed

lemma effect_sums:
  assumes "job_inv p s r"
  shows "mset (closer_messages (concat (map (job_actions p) (fs_mounted (dp_files s r))))) =
      mset (closer_messages (concat (map (job_actions p) (waiting s r)))) +
      (\<Sum>w < pq_workers p. mset (closer_messages (undone r (dp_workers s w)))) + mset (closer_messages (fs_done (dp_files s r)))"
    "mset (to_writer t (concat (map (job_actions p) (fs_mounted (dp_files s r))))) =
      mset (to_writer t (concat (map (job_actions p) (waiting s r)))) +
      (\<Sum>w < pq_workers p. mset (to_writer t (undone r (dp_workers s w)))) + mset (to_writer t (fs_done (dp_files s r)))"
  unfolding closer_messages_def to_writer_def by (rule job_inv_effects [OF assms])+

lemma effects_concat:
  "closer_messages (concat xss) = concat (map closer_messages xss)" "to_writer t (concat xss) = concat (map (to_writer t) xss)"
  by (induction xss) simp_all

lemma no_messages_no_events:
  assumes "pool_inv p s" "closer_messages (concat (map (job_actions p) (waiting s r))) = []"
    and "\<And>w. w < pq_workers p \<Longrightarrow> closer_messages (undone r (dp_workers s w)) = []"
  shows "mset (to_writer t (concat (map (job_actions p) (fs_mounted (dp_files s r))))) = mset (to_writer t (fs_done (dp_files s r)))"
proof -
  have "to_writer t (job_actions p j) = []" if "j \<in> set (waiting s r)" for j
    using job_suffix [of p j "[]"] assms(2) that by (auto simp: effects_concat)
  then have "to_writer t (concat (map (job_actions p) (waiting s r))) = []" by (auto simp: effects_concat)
  moreover have "to_writer t (undone r (dp_workers s w)) = []" if w: "w < pq_workers p" for w
  proof (cases "dp_workers s w")
    case (WorkerDecodes q as)
    moreover from this obtain job pre where "job_actions p job = pre @ as" using assms(1) unfolding pool_inv_def by blast
    ultimately show ?thesis using job_suffix [of p job pre as] assms(3) [OF w] by (auto simp: undone_def)
  qed (simp_all add: undone_def)
  moreover have "job_inv p s r" using assms(1) by (simp add: pool_inv_def)
  ultimately show ?thesis using effect_sums(2) [of p s r t] by simp
qed

lemma size_sums: "size (\<Sum>w < (n :: nat). f w :: 'a multiset) = (\<Sum>w < n. size (f w))"
  by (induction n) simp_all

lemma kind_filters [simp]:
  "is_message c \<and> is_decoded c \<longleftrightarrow> is_decoded c" "is_message c \<and> is_error c \<longleftrightarrow> is_error c" "is_message c \<and> is_written c \<longleftrightarrow> is_written c"
  by (cases c; simp add: is_message_def)+

lemma filter_none [simp]: "filter (\<lambda>x. False) xs = []" "filter (\<lambda>x. True) xs = xs"
  by (induction xs) simp_all

lemma reporting_kinds [simp]:
  "filter is_decoded (reporting pc) = []" "filter is_error (reporting pc) = []" "filter is_written (reporting pc) = reporting pc"
  by (cases pc; simp)+

lemma message_counts:
  assumes "messages_inv fs"
  shows "length (filter is_decoded (closer_messages (fs_done fs))) = length (filter is_decoded (fs_queue fs)) + length (fc_eventsDecoded (fs_closer fs))"
    "length (filter is_error (closer_messages (fs_done fs))) = length (filter is_error (fs_queue fs)) + length (fc_eventsWithError (fs_closer fs))"
    "length (filter is_written (closer_messages (fs_done fs))) + (\<Sum>t \<in> triggers. length (hw_written (fs_writers fs t))) =
      length (filter is_written (fs_queue fs)) + length (fc_eventsWritten (fs_closer fs)) +
      (\<Sum>t \<in> triggers. length (reporting (hw_pc (fs_writers fs t))))"
proof -
  note eq = assms [unfolded messages_inv_def]
  note sets = arg_cong [OF eq, of "\<lambda>X. size (filter_mset is_decoded X)"] arg_cong [OF eq, of "\<lambda>X. size (filter_mset is_error X)"]
    arg_cong [OF eq, of "\<lambda>X. size (filter_mset is_written X)"]
  show "length (filter is_decoded (closer_messages (fs_done fs))) = length (filter is_decoded (fs_queue fs)) + length (fc_eventsDecoded (fs_closer fs))"
    "length (filter is_error (closer_messages (fs_done fs))) = length (filter is_error (fs_queue fs)) + length (fc_eventsWithError (fs_closer fs))"
    "length (filter is_written (closer_messages (fs_done fs))) + (\<Sum>t \<in> triggers. length (hw_written (fs_writers fs t))) =
      length (filter is_written (fs_queue fs)) + length (fc_eventsWritten (fs_closer fs)) +
      (\<Sum>t \<in> triggers. length (reporting (hw_pc (fs_writers fs t))))"
    using sets by (simp_all add: heard_def filter_map o_def conj_commute flip: mset_map mset_filter)
qed

lemma kinds_bound: "length (filter is_decoded cs) + length (filter is_error cs) \<le> length cs"
proof (induction cs)
  case (Cons c cs)
  then show ?case by (cases c) auto
qed simp

lemma reports_bound: "length (closer_messages (concat (map (job_actions p) js))) \<le> length js"
proof (induction js)
  case (Cons j js)
  then show ?case using job_one_message [of p j] by simp
qed simp

text \<open>When the closer has heard of as many events decoded or failed as there are, nothing is on the way to it.\<close>

lemma all_reported:
  assumes "pool_inv p s" and fs: "fs = dp_files s r"
    and n: "length (fs_mounted fs) = length (fc_eventsDecoded (fs_closer fs)) + length (fc_eventsWithError (fs_closer fs))"
  shows "closer_messages (concat (map (job_actions p) (waiting s r))) = []"
    and "\<And>w. w < pq_workers p \<Longrightarrow> closer_messages (undone r (dp_workers s w)) = []"
    and "length (filter is_decoded (closer_messages (fs_done fs))) = length (fc_eventsDecoded (fs_closer fs))"
    and "length (closer_messages (concat (map (job_actions p) (fs_mounted fs)))) = length (fs_mounted fs)"
    and "mset (closer_messages (concat (map (job_actions p) (fs_mounted fs)))) = mset (closer_messages (fs_done fs))"
proof -
  have inv: "messages_inv fs" "job_inv p s r" using assms(1) fs by (simp_all add: pool_inv_def files_inv_def)
  note parts = effect_sums(1) [OF inv(2), folded fs]
  have "length (closer_messages (concat (map (job_actions p) (fs_mounted fs)))) =
      length (closer_messages (concat (map (job_actions p) (waiting s r)))) +
      (\<Sum>w < pq_workers p. length (closer_messages (undone r (dp_workers s w)))) + length (closer_messages (fs_done fs))"
    using arg_cong [OF parts, of size] by (simp add: size_sums)
  with reports_bound [of p "fs_mounted fs"] n message_counts(1,2) [OF inv(1)] kinds_bound [of "closer_messages (fs_done fs)"]
  have zero: "length (closer_messages (concat (map (job_actions p) (waiting s r)))) = 0"
      "(\<Sum>w < pq_workers p. length (closer_messages (undone r (dp_workers s w)))) = 0"
      "length (filter is_decoded (fs_queue fs)) = 0"
      "length (closer_messages (concat (map (job_actions p) (fs_mounted fs)))) = length (fs_mounted fs)"
    by linarith+
  then show "closer_messages (concat (map (job_actions p) (waiting s r))) = []"
    "\<And>w. w < pq_workers p \<Longrightarrow> closer_messages (undone r (dp_workers s w)) = []"
    "length (filter is_decoded (closer_messages (fs_done fs))) = length (fc_eventsDecoded (fs_closer fs))"
    "length (closer_messages (concat (map (job_actions p) (fs_mounted fs)))) = length (fs_mounted fs)"
    using message_counts(1) [OF inv(1)] by simp_all
  with parts show "mset (closer_messages (concat (map (job_actions p) (fs_mounted fs)))) = mset (closer_messages (fs_done fs))"
    by simp
qed

text \<open>Every event reports once, so the reports of as many events as reports come from all of them.\<close>

lemma each_reports:
  assumes "length (closer_messages (concat (map (job_actions p) js))) = length js" "j \<in> set js"
  shows "closer_messages (job_actions p j) \<noteq> []"
  using assms
proof (induction js)
  case (Cons k js)
  with reports_bound [of p js] job_one_message [of p k] show ?case by (auto simp: le_Suc_eq)
qed simp

lemma decoded_total:
  assumes "writes_files p"
  shows "length (filter is_decoded (closer_messages (concat (map (job_actions p) js)))) =
    (\<Sum>t \<in> triggers. length (to_writer t (concat (map (job_actions p) js))))"
  using job_decoded [OF assms] by (induction js) simp_all

text \<open>
  C13. Closed decoded files are complete. Let workers, writers, the file closers and the event builder run in any interleaving, with channels of any
  size, and let the file closer of a sub-run have closed its files without a timeout, having heard of every event of the sub-run. Then every event
  has been reported as decoded or failed, nothing waits for the writers, and the file of each trigger holds exactly the events of the
  sub-run that the library decodes without an error for this trigger, each once.
\<close>

theorem closed_files_complete:
  assumes run: "pool_run p pool_start s" and p: "dec_WriteData (pq_config p)" "pq_decode p" and fs: "fs = dp_files s r"
    and closed: "\<not> fc_loop (fs_closer fs)" "\<not> fc_timedOut (fs_closer fs)" "length (fc_events (fs_closer fs)) = length (fs_mounted fs)"
  shows "(\<forall>job \<in> set (fs_mounted fs). closer_messages (job_actions p job) \<noteq> []) \<and> hw_queue (fs_writers fs t) = [] \<and>
    mset (hw_written (fs_writers fs t)) = mset (concat (map (decoded_for p t) (fs_mounted fs)))"
proof -
  have w: "writes_files p" using p(1) by (simp add: writes_files_def)
  have inv: "pool_inv p s" using pool_inv_run [OF run pool_inv_start w p(2)] .
  then have files: "messages_inv fs" "writers_inv fs" "closer_inv (fs_closer fs)" by (simp_all add: fs pool_inv_def files_inv_def)
  have acc: "length (fs_mounted fs) = length (fc_eventsDecoded (fs_closer fs)) + length (fc_eventsWithError (fs_closer fs))"
    "length (fc_eventsDecoded (fs_closer fs)) = length (fc_eventsWritten (fs_closer fs))"
    using files(3) closed by (auto simp: closer_inv_def accounted_def)
  note rep = all_reported [OF inv fs acc(1)]
  have sent: "mset (to_writer u (concat (map (job_actions p) (fs_mounted fs)))) = mset (to_writer u (fs_done fs))" for u
    using no_messages_no_events [OF inv rep(1,2)] by (simp add: fs)
  have none: "filter is_written (closer_messages (fs_done fs)) = []"
  proof -
    have "\<not> is_written c" if "c \<in> set (closer_messages (fs_done fs))" for c
    proof -
      have "c \<in># mset (closer_messages (concat (map (job_actions p) (fs_mounted fs))))" using that unfolding rep(5) by simp
      then show ?thesis using job_kinds [of c p] by (cases c) (auto simp: effects_concat)
    qed
    then show ?thesis by (simp add: filter_empty_conv)
  qed
  have each: "length (to_writer u (fs_done fs)) = length (hw_queue (fs_writers fs u)) + length (hw_written (fs_writers fs u)) +
      length (hw_skipped (fs_writers fs u))" for u
    using arg_cong [OF spec [OF files(2) [unfolded writers_inv_def], of u], of size] by simp
  have "(\<Sum>u \<in> triggers. length (to_writer u (fs_done fs))) = length (fc_eventsDecoded (fs_closer fs))"
    using decoded_total [OF w, of "fs_mounted fs"] arg_cong [OF sent, of size] arg_cong [OF rep(5), of "\<lambda>X. size (filter_mset is_decoded X)"] rep(3)
    by (simp flip: mset_filter)
  then have "length (to_writer Trg0 (fs_done fs)) + length (to_writer Trg1 (fs_done fs)) + length (to_writer Trg2 (fs_done fs)) \<le>
      length (hw_written (fs_writers fs Trg0)) + length (hw_written (fs_writers fs Trg1)) + length (hw_written (fs_writers fs Trg2))"
    using message_counts(3) [OF files(1)] none acc(2) by simp
  with each [of Trg0] each [of Trg1] each [of Trg2]
  have "length (hw_queue (fs_writers fs t)) = 0" "length (hw_skipped (fs_writers fs t)) = 0"
    by (cases t; simp only:; linarith)+
  then have rest: "hw_queue (fs_writers fs t) = []" "hw_skipped (fs_writers fs t) = []" by simp_all
  then have "mset (hw_written (fs_writers fs t)) = mset (to_writer t (concat (map (job_actions p) (fs_mounted fs))))"
    using files(2) sent by (simp add: writers_inv_def)
  moreover have "map (to_writer t \<circ> job_actions p) js = map (decoded_for p t) js" for js using job_to_writer [OF w] by simp
  ultimately show ?thesis
    using each_reports [OF rep(4)] rest(1) by (simp add: effects_concat)
qed

definition example_decoded :: decoded_event where
  "example_decoded = \<lparr>de_EventID = 7, de_TriggerType = 1, de_Error = False\<rparr>"

definition example_pool :: pool_params where
  "example_pool = \<lparr>pq_config = example_decoder_config, pq_decode = True, pq_writerCh = 1, pq_decoderCh = 1, pq_workers = 1,
     pq_read = (\<lambda>d. (7, None, GdcEvent example_decoded))\<rparr>"

lemma pool_run_trans: "pool_run p b c \<Longrightarrow> pool_run p a b \<Longrightarrow> pool_run p a c"
  by (induction rule: pool_run.induct) (auto intro: pool_on)

lemma pool_exec_run: "pool_exec p acts s = Some s' \<Longrightarrow> pool_run p s s'"
proof (induction acts arbitrary: s)
  case (Cons a acts)
  then obtain t where t: "pool_step p a s = Some t" "pool_exec p acts t = Some s'" by (auto split: option.splits)
  from pool_run_trans [OF Cons.IH [OF t(2)] pool_on [OF pool_here t(1)]] show ?case .
qed (simp add: pool_here)

lemmas pool_eval = pool_step.simps pool_start_def file_set_init_def h5_writer_init_def closer_init_def example_pool_def example_decoded_def
  example_decoder_config_def send_closer_def set_files_def set_writer_def job_actions_def decodeEvent_def writes_files_def has_writer_def
  closer_turn_def accounted_def Let_def

text \<open>One event, from the builder to the closed file.\<close>

theorem closed_files_complete_witness:
  "\<exists>s. pool_exec example_pool [EventComplete 7 [], QueueJob, WriterOpens 0 Trg1 True, WorkerTakes 0, WorkerActs 0, WorkerActs 0, WorkerActs 0,
       WriterTakes 0 Trg1, WriterTells 0 Trg1, CloserTakes 0 (EvtReceived 7), RotateFiles, CloserTakes 0 (EvtDecoded 7),
       CloserTakes 0 (EvtWritten 7), CloserTakes 0 DataEnd] pool_start = Some s \<and>
     mset (hw_written (fs_writers (dp_files s 0) Trg1)) = {#(7, example_decoded)#}"
proof -
  obtain s where s: "pool_exec example_pool [EventComplete 7 [], QueueJob, WriterOpens 0 Trg1 True, WorkerTakes 0, WorkerActs 0, WorkerActs 0,
       WorkerActs 0, WriterTakes 0 Trg1, WriterTells 0 Trg1, CloserTakes 0 (EvtReceived 7), RotateFiles, CloserTakes 0 (EvtDecoded 7),
       CloserTakes 0 (EvtWritten 7), CloserTakes 0 DataEnd] pool_start = Some s"
    and closed: "\<not> fc_loop (fs_closer (dp_files s 0))" "\<not> fc_timedOut (fs_closer (dp_files s 0))"
      "fc_events (fs_closer (dp_files s 0)) = [7]" "fs_mounted (dp_files s 0) = [\<lparr>dj_DuckEventID = 7, dj_Data = [], dj_SubRun = 0\<rparr>]"
    by (simp add: pool_eval)
  have "dec_WriteData (pq_config example_pool)" "pq_decode example_pool"
      "decoded_for example_pool Trg1 \<lparr>dj_DuckEventID = 7, dj_Data = [], dj_SubRun = 0\<rparr> = [(7, example_decoded)]"
    by (simp_all add: example_pool_def example_decoder_config_def decoded_for_def example_decoded_def)
  with closed_files_complete [OF pool_exec_run [OF s] _ _ refl, of 0 Trg1] closed s show ?thesis by auto
qed

section \<open>A writer that is gone\<close>

text \<open>Every worker is about to send an event to a writer that has ended, whose channel is full, and the queue of jobs is full.\<close>

definition pool_wedged :: "pool_params \<Rightarrow> decoder_pool \<Rightarrow> bool" where
  "pool_wedged p s \<longleftrightarrow> (\<exists>job. dp_builder s = BuilderQueues job) \<and> pq_decoderCh p \<le> length (dp_jobs s) \<and>
     (\<forall>w < pq_workers p. \<exists>r t i ev as. dp_workers s w = WorkerDecodes r (ToWriter t i ev # as) \<and>
        hw_pc (fs_writers (dp_files s r) t) = WriterGone \<and> pq_writerCh p \<le> length (hw_queue (fs_writers (dp_files s r) t)))"

lemma gone_stays:
  assumes "writer_step p act s = Some s' \<or> closer_step p act s = Some s'" "hw_pc (fs_writers (dp_files s r) t) = WriterGone"
  shows "fs_writers (dp_files s' r) t = fs_writers (dp_files s r) t"
  using assms
  by (cases act) (auto simp: Let_def set_writer_def set_files_def send_closer_def split: if_splits writer_pc.splits list.splits prod.splits)

lemma pool_wedged_step:
  assumes "pool_step p act s = Some s'" "pool_wedged p s"
  shows "pool_wedged p s' \<and> dp_builder s' = dp_builder s \<and> dp_jobs s' = dp_jobs s \<and> dp_workers s' = dp_workers s"
  using assms(1)
proof (cases rule: pool_step_cases)
  case 1
  then show ?thesis using assms(2) by (cases act) (auto simp: pool_wedged_def Let_def)
next
  case 2
  then show ?thesis
  proof (cases act)
    case (WorkerTakes w)
    then show ?thesis using 2 assms(2) by (auto simp: pool_wedged_def split: if_splits)
  next
    case (WorkerActs w)
    then show ?thesis using 2 assms(2) by (fastforce simp: pool_wedged_def Let_def split: if_splits)
  qed simp_all
next
  case 3
  then have same: "dp_builder s' = dp_builder s \<and> dp_jobs s' = dp_jobs s \<and> dp_workers s' = dp_workers s"
    by (cases act) (auto simp: Let_def set_writer_def set_files_def split: if_splits writer_pc.splits list.splits prod.splits)
  with gone_stays [OF disjI1, OF 3] assms(2) show ?thesis unfolding pool_wedged_def by metis
next
  case 4
  then have same: "dp_builder s' = dp_builder s \<and> dp_jobs s' = dp_jobs s \<and> dp_workers s' = dp_workers s"
    by (cases act) (auto simp: Let_def set_files_def split: if_splits)
  with gone_stays [OF disjI2, OF 4] assms(2) show ?thesis unfolding pool_wedged_def by metis
qed

text \<open>
  C38. A decoded file that could not be opened, or that was closed by the timer, can stop the whole GDC. Its writer is gone but its
  channel is not: when the channel is full, a worker with an event for it blocks in the send; when all workers do and the queue of jobs is
  full, the event builder blocks too, and nothing ever frees it: it takes no further sub-event and never sees the end of the run.
\<close>

theorem lost_writer_blocks_for_ever:
  assumes "pool_run p s s'" "pool_wedged p s"
  shows "dp_builder s' = dp_builder s \<and> dp_builder s' \<noteq> BuilderReads \<and> dp_jobs s' = dp_jobs s \<and> dp_workers s' = dp_workers s"
proof -
  have "pool_wedged p s' \<and> dp_builder s' = dp_builder s \<and> dp_jobs s' = dp_jobs s \<and> dp_workers s' = dp_workers s"
    using assms
  proof induction
    case (pool_on t act t')
    then show ?case using pool_wedged_step by metis
  qed simp
  then show ?thesis using assms(2) by (auto simp: pool_wedged_def)
qed

text \<open>One worker, channels of one, a file that cannot be opened: the fourth event is stuck.\<close>

theorem lost_writer_blocks_for_ever_witness:
  "\<exists>s. pool_run example_pool pool_start s \<and> (\<forall>s'. pool_run example_pool s s' \<longrightarrow> dp_builder s' \<noteq> BuilderReads)"
proof -
  obtain s where s: "pool_exec example_pool [WriterOpens 0 Trg1 False, EventComplete 1 [], QueueJob, WorkerTakes 0, WorkerActs 0, WorkerActs 0,
      WorkerActs 0, CloserTakes 0 (EvtReceived 1), EventComplete 2 [], QueueJob, WorkerTakes 0, WorkerActs 0, CloserTakes 0 (EvtReceived 2),
      EventComplete 3 [], QueueJob, CloserTakes 0 (EvtReceived 3), EventComplete 4 []] pool_start = Some s" and "pool_wedged example_pool s"
    by (simp add: pool_eval pool_wedged_def)
  with lost_writer_blocks_for_ever [of example_pool s] pool_exec_run [OF s] show ?thesis by metis
qed

end
