(* ===== verification/Api_Database.thy ===== *)
theory Api_Database
  imports Duck_Config
begin

text \<open>
  The database of DUCK and the queries of \<open>src/pkg/database\<close> (\<open>gdcs.sql.go\<close>, \<open>ldcs.sql.go\<close>,
  \<open>equipments.sql.go\<close>, \<open>config.sql.go\<close>, \<open>simulators.sql.go\<close>), with the schema of
  \<open>src/database/schema.sql\<close>.

  A table is the list of its rows and, where the key is \<open>auto_increment\<close>, the next key. A query is a
  function of the database; it may fail for a reason of its own (a foreign key, no row) or because the
  connection does, which is an input: \<open>faults\<close> gives the error of a query by its name. A row that the server refuses for the
  type of a column (an \<open>INT\<close> out of range, a text longer than its \<open>VARCHAR\<close>) is such a failing query too; a query that fails has
  changed nothing. The collation that
  \<open>ORDER BY name\<close> uses is a parameter, the rank of a name.

  The locale \<open>keyed_rows\<close> states what creating, reading, updating and deleting rows by their key promise; it is
  interpreted on the tables of GDCs, LDCs and equipments.
\<close>

section \<open>Definitions\<close>

subsection \<open>Rows (models.go) and tables\<close>

record db_Run =
  ru_ID :: int
  ru_Start :: "int sql_null"
  ru_Stop :: "int sql_null"

text \<open>A row of the tables \<open>events\<close>, \<open>data\<close> and \<open>errors\<close>.\<close>

record db_Stat =
  st_Run :: int
  st_GdcID :: "int sql_null"
  st_LdcID :: "int sql_null"
  st_Value :: "int sql_null"

record db_Simulatorparam =
  sp_Equipmentid :: int
  sp_Filepath :: string
  sp_Replayrate :: rat
  sp_Loopmode :: bool
  sp_Maxevents :: int
  sp_Packetsize :: int

record db_Topiparam =
  to_Enabled :: bool
  to_DaemonUrl :: string
  to_ApiToken :: string
  to_RabbitmqAddress :: string
  to_RabbitmqPort :: int
  to_RabbitmqUser :: string
  to_RabbitmqPassword :: string
  to_RabbitmqVhost :: string
  to_ExchangeName :: string
  to_ControlQueue :: string
  to_SelectedConfiguration :: string

record db_Rate =
  ra_Run :: int
  ra_LastUpdate :: int
  ra_Bytes :: int
  ra_Events :: int
  ra_Avgtriggerrate :: rat
  ra_Avgbyterate :: rat

record database =
  db_gdcs :: "db_Gdc list"
  db_next_gdc :: int
  db_ldcs :: "db_Ldc list"
  db_next_ldc :: int
  db_equipments :: "db_Equipment list"
  db_next_equipment :: int
  db_runs :: "db_Run list"
  db_next_run :: int
  db_events :: "db_Stat list"
  db_data :: "db_Stat list"
  db_errors :: "db_Stat list"
  db_duckParams :: "db_Duckparam list"
  db_decoderParams :: "db_Decoderparam list"
  db_testDeviceParams :: "db_Testdeviceparam list"
  db_simulatorParams :: "db_Simulatorparam list"
  db_topiParams :: "db_Topiparam option"
  db_rates :: "db_Rate list"

type_synonym faults = "string \<Rightarrow> string option"

definition query :: "faults \<Rightarrow> string \<Rightarrow> 'a result \<Rightarrow> 'a result" where
  "query f name r = (case f name of Some e \<Rightarrow> Inl e | None \<Rightarrow> r)"

definition no_faults :: faults where
  "no_faults = (\<lambda>_. None)"

definition ErrNoRows :: string where
  "ErrNoRows = ''sql: no rows in result set''"

definition ForeignKey :: string where
  "ForeignKey = ''foreign key constraint fails''"

text \<open>Reading, changing and deleting rows by key; the first row or the error of \<open>:one\<close> queries.\<close>

definition row_get :: "('r \<Rightarrow> int) \<Rightarrow> int \<Rightarrow> 'r list \<Rightarrow> 'r result" where
  "row_get key i rows = (case find (\<lambda>r. key r = i) rows of None \<Rightarrow> Inl ErrNoRows | Some r \<Rightarrow> Inr r)"

definition row_update :: "('r \<Rightarrow> int) \<Rightarrow> int \<Rightarrow> 'r \<Rightarrow> 'r list \<Rightarrow> 'r list" where
  "row_update key i new rows = map (\<lambda>r. if key r = i then new else r) rows"

definition row_delete :: "('r \<Rightarrow> int) \<Rightarrow> int \<Rightarrow> 'r list \<Rightarrow> 'r list" where
  "row_delete key i rows = filter (\<lambda>r. key r \<noteq> i) rows"

definition first_row :: "'r list \<Rightarrow> 'r result" where
  "first_row rows = (case rows of [] \<Rightarrow> Inl ErrNoRows | r # _ \<Rightarrow> Inr r)"

definition name_rank :: "(string \<Rightarrow> nat) \<Rightarrow> string sql_null \<Rightarrow> nat" where
  "name_rank collate n = (if nvalid n then Suc (collate (nval n)) else 0)"

subsection \<open>GDCs (gdcs.sql.go)\<close>

definition sql_CreateGDC :: "faults \<Rightarrow> db_Gdc \<Rightarrow> database \<Rightarrow> database result" where
  "sql_CreateGDC f arg db = query f ''CreateGDC''
     (Inr (db\<lparr>db_gdcs := db_gdcs db @ [arg\<lparr>gr_ID := db_next_gdc db\<rparr>], db_next_gdc := db_next_gdc db + 1\<rparr>))"

definition sql_DeleteGDC :: "faults \<Rightarrow> int \<Rightarrow> database \<Rightarrow> database result" where
  "sql_DeleteGDC f i db = query f ''DeleteGDC'' (Inr (db\<lparr>db_gdcs := row_delete gr_ID i (db_gdcs db)\<rparr>))"

definition sql_GetGDC :: "faults \<Rightarrow> int \<Rightarrow> database \<Rightarrow> db_Gdc result" where
  "sql_GetGDC f i db = query f ''GetGDC'' (row_get gr_ID i (db_gdcs db))"

definition sql_ListGDCs :: "faults \<Rightarrow> (string \<Rightarrow> nat) \<Rightarrow> database \<Rightarrow> db_Gdc list result" where
  "sql_ListGDCs f collate db =
     query f ''ListGDCs'' (Inr (sort_key (\<lambda>r. name_rank collate (gr_Name r)) (db_gdcs db)))"

definition sql_UpdateGDC :: "faults \<Rightarrow> db_Gdc \<Rightarrow> database \<Rightarrow> database result" where
  "sql_UpdateGDC f arg db =
     query f ''UpdateGDC'' (Inr (db\<lparr>db_gdcs := row_update gr_ID (gr_ID arg) arg (db_gdcs db)\<rparr>))"

subsection \<open>LDCs (ldcs.sql.go)\<close>

definition sql_CreateLDC :: "faults \<Rightarrow> db_Ldc \<Rightarrow> database \<Rightarrow> database result" where
  "sql_CreateLDC f arg db = query f ''CreateLDC''
     (Inr (db\<lparr>db_ldcs := db_ldcs db @ [arg\<lparr>lr_ID := db_next_ldc db\<rparr>], db_next_ldc := db_next_ldc db + 1\<rparr>))"

text \<open>The foreign key of \<open>equipments\<close>: an LDC with equipments cannot be deleted.\<close>

definition sql_DeleteLDC :: "faults \<Rightarrow> int \<Rightarrow> database \<Rightarrow> database result" where
  "sql_DeleteLDC f i db = query f ''DeleteLDC''
     (if i \<in> lr_ID ` set (db_ldcs db) \<and> list_ex (\<lambda>e. er_Ldcid e = SqlNull i True) (db_equipments db)
      then Inl ForeignKey else Inr (db\<lparr>db_ldcs := row_delete lr_ID i (db_ldcs db)\<rparr>))"

definition sql_GetLDC :: "faults \<Rightarrow> int \<Rightarrow> database \<Rightarrow> db_Ldc result" where
  "sql_GetLDC f i db = query f ''GetLDC'' (row_get lr_ID i (db_ldcs db))"

definition sql_ListLDCs :: "faults \<Rightarrow> (string \<Rightarrow> nat) \<Rightarrow> database \<Rightarrow> db_Ldc list result" where
  "sql_ListLDCs f collate db =
     query f ''ListLDCs'' (Inr (sort_key (\<lambda>r. name_rank collate (lr_Name r)) (db_ldcs db)))"

definition sql_UpdateLDC :: "faults \<Rightarrow> db_Ldc \<Rightarrow> database \<Rightarrow> database result" where
  "sql_UpdateLDC f arg db =
     query f ''UpdateLDC'' (Inr (db\<lparr>db_ldcs := row_update lr_ID (lr_ID arg) arg (db_ldcs db)\<rparr>))"

subsection \<open>Equipments (equipments.sql.go)\<close>

definition ldc_key_ok :: "int sql_null \<Rightarrow> database \<Rightarrow> bool" where
  "ldc_key_ok k db \<longleftrightarrow> nvalid k \<longrightarrow> nval k \<in> lr_ID ` set (db_ldcs db)"

definition sql_CreateEquipment :: "faults \<Rightarrow> db_Equipment \<Rightarrow> database \<Rightarrow> database result" where
  "sql_CreateEquipment f arg db = query f ''CreateEquipment''
     (if ldc_key_ok (er_Ldcid arg) db
      then Inr (db\<lparr>db_equipments := db_equipments db @ [arg\<lparr>er_ID := db_next_equipment db\<rparr>],
                   db_next_equipment := db_next_equipment db + 1\<rparr>)
      else Inl ForeignKey)"

text \<open>The foreign key of \<open>simulatorParams\<close>: an equipment with parameters of a simulator cannot be deleted.\<close>

definition sql_DeleteEquipment :: "faults \<Rightarrow> int \<Rightarrow> database \<Rightarrow> database result" where
  "sql_DeleteEquipment f i db = query f ''DeleteEquipment''
     (if i \<in> er_ID ` set (db_equipments db) \<and> i \<in> sp_Equipmentid ` set (db_simulatorParams db)
      then Inl ForeignKey else Inr (db\<lparr>db_equipments := row_delete er_ID i (db_equipments db)\<rparr>))"

definition sql_GetEquipment :: "faults \<Rightarrow> int \<Rightarrow> database \<Rightarrow> db_Equipment result" where
  "sql_GetEquipment f i db = query f ''GetEquipment'' (row_get er_ID i (db_equipments db))"

definition sql_ListEquipments :: "faults \<Rightarrow> database \<Rightarrow> db_Equipment list result" where
  "sql_ListEquipments f db = query f ''ListEquipments'' (Inr (sort_key er_ID (db_equipments db)))"

definition sql_UpdateEquipment :: "faults \<Rightarrow> db_Equipment \<Rightarrow> database \<Rightarrow> database result" where
  "sql_UpdateEquipment f arg db = query f ''UpdateEquipment''
     (if er_ID arg \<in> er_ID ` set (db_equipments db) \<and> \<not> ldc_key_ok (er_Ldcid arg) db then Inl ForeignKey
      else Inr (db\<lparr>db_equipments := row_update er_ID (er_ID arg) arg (db_equipments db)\<rparr>))"

subsection \<open>Simulators (simulators.sql.go)\<close>

definition sql_CreateSimulatorParams :: "faults \<Rightarrow> db_Simulatorparam \<Rightarrow> database \<Rightarrow> database result" where
  "sql_CreateSimulatorParams f arg db = query f ''CreateSimulatorParams''
     (if sp_Equipmentid arg \<in> sp_Equipmentid ` set (db_simulatorParams db) then Inl ''Duplicate entry''
      else if sp_Equipmentid arg \<notin> er_ID ` set (db_equipments db) then Inl ForeignKey
      else Inr (db\<lparr>db_simulatorParams := db_simulatorParams db @ [arg]\<rparr>))"

definition sql_DeleteSimulatorParams :: "faults \<Rightarrow> int \<Rightarrow> database \<Rightarrow> database result" where
  "sql_DeleteSimulatorParams f i db = query f ''DeleteSimulatorParams''
     (Inr (db\<lparr>db_simulatorParams := row_delete sp_Equipmentid i (db_simulatorParams db)\<rparr>))"

definition sql_GetSimulatorParams :: "faults \<Rightarrow> int \<Rightarrow> database \<Rightarrow> db_Simulatorparam result" where
  "sql_GetSimulatorParams f i db =
     query f ''GetSimulatorParams'' (row_get sp_Equipmentid i (db_simulatorParams db))"

definition sql_ListSimulatorParams :: "faults \<Rightarrow> database \<Rightarrow> db_Simulatorparam list result" where
  "sql_ListSimulatorParams f db =
     query f ''ListSimulatorParams'' (Inr (sort_key sp_Equipmentid (db_simulatorParams db)))"

definition sql_UpdateSimulatorParams :: "faults \<Rightarrow> db_Simulatorparam \<Rightarrow> database \<Rightarrow> database result" where
  "sql_UpdateSimulatorParams f arg db = query f ''UpdateSimulatorParams''
     (Inr (db\<lparr>db_simulatorParams := row_update sp_Equipmentid (sp_Equipmentid arg) arg (db_simulatorParams db)\<rparr>))"

subsection \<open>Parameters, disabled parts and TOPI (config.sql.go)\<close>

definition sql_GetDuckParams :: "faults \<Rightarrow> database \<Rightarrow> db_Duckparam result" where
  "sql_GetDuckParams f db = query f ''GetDuckParams'' (first_row (db_duckParams db))"

definition sql_GetDecoderParams :: "faults \<Rightarrow> database \<Rightarrow> db_Decoderparam result" where
  "sql_GetDecoderParams f db = query f ''GetDecoderParams'' (first_row (db_decoderParams db))"

definition sql_TruncateDecoderParams :: "faults \<Rightarrow> database \<Rightarrow> database result" where
  "sql_TruncateDecoderParams f db = query f ''TruncateDecoderParams'' (Inr (db\<lparr>db_decoderParams := []\<rparr>))"

definition sql_UpdateDecoderParams :: "faults \<Rightarrow> db_Decoderparam \<Rightarrow> database \<Rightarrow> database result" where
  "sql_UpdateDecoderParams f arg db =
     query f ''UpdateDecoderParams'' (Inr (db\<lparr>db_decoderParams := db_decoderParams db @ [arg]\<rparr>))"

definition sql_GetTestDeviceParams :: "faults \<Rightarrow> database \<Rightarrow> db_Testdeviceparam list result" where
  "sql_GetTestDeviceParams f db = query f ''GetTestDeviceParams'' (Inr (db_testDeviceParams db))"

definition is_false :: "bool sql_null \<Rightarrow> bool" where
  "is_false b \<longleftrightarrow> nvalid b \<and> \<not> nval b"

definition sql_GetDisabledGDCs :: "faults \<Rightarrow> database \<Rightarrow> db_Gdc list result" where
  "sql_GetDisabledGDCs f db = query f ''GetDisabledGDCs'' (Inr (filter (\<lambda>g. is_false (gr_Enabled g)) (db_gdcs db)))"

definition sql_GetDisabledLDCs :: "faults \<Rightarrow> database \<Rightarrow> db_Ldc list result" where
  "sql_GetDisabledLDCs f db = query f ''GetDisabledLDCs'' (Inr (filter (\<lambda>l. is_false (lr_Enabled l)) (db_ldcs db)))"

definition sql_GetDisabledEquipments :: "faults \<Rightarrow> database \<Rightarrow> db_Equipment list result" where
  "sql_GetDisabledEquipments f db =
     query f ''GetDisabledEquipments'' (Inr (filter (\<lambda>e. is_false (er_Enabled e)) (db_equipments db)))"

definition sql_GetGDCsWithoutWrite :: "faults \<Rightarrow> database \<Rightarrow> db_Gdc list result" where
  "sql_GetGDCsWithoutWrite f db =
     query f ''GetGDCsWithoutWrite'' (Inr (filter (\<lambda>g. is_false (gr_Writeoutput g)) (db_gdcs db)))"

definition sql_GetTopiParams :: "faults \<Rightarrow> database \<Rightarrow> db_Topiparam result" where
  "sql_GetTopiParams f db =
     query f ''GetTopiParams'' (case db_topiParams db of None \<Rightarrow> Inl ErrNoRows | Some t \<Rightarrow> Inr t)"

definition sql_UpsertTopiParams :: "faults \<Rightarrow> db_Topiparam \<Rightarrow> database \<Rightarrow> database result" where
  "sql_UpsertTopiParams f arg db = query f ''UpsertTopiParams'' (Inr (db\<lparr>db_topiParams := Some arg\<rparr>))"

subsection \<open>Runs, statistics and rates (config.sql.go)\<close>

text \<open>\<open>ORDER BY id DESC LIMIT 1\<close>: the row with the largest key.\<close>

definition latest_run :: "db_Run list \<Rightarrow> db_Run result" where
  "latest_run rows = first_row (rev (sort_key ru_ID rows))"

definition sql_GetLatestRunWithTimestamp :: "faults \<Rightarrow> database \<Rightarrow> db_Run result" where
  "sql_GetLatestRunWithTimestamp f db = query f ''GetLatestRunWithTimestamp'' (latest_run (db_runs db))"

definition sql_GetLatestRun :: "faults \<Rightarrow> database \<Rightarrow> int result" where
  "sql_GetLatestRun f db = query f ''GetLatestRun'' (map_sum id ru_ID (latest_run (db_runs db)))"

definition sql_InsertNewRun :: "faults \<Rightarrow> database \<Rightarrow> database result" where
  "sql_InsertNewRun f db = query f ''InsertNewRun''
     (Inr (db\<lparr>db_runs := db_runs db @
                [\<lparr>ru_ID = db_next_run db, ru_Start = SqlNull 0 False, ru_Stop = SqlNull 0 False\<rparr>],
              db_next_run := db_next_run db + 1\<rparr>))"

definition sql_UpdateRunStartTime :: "faults \<Rightarrow> int sql_null \<Rightarrow> int \<Rightarrow> database \<Rightarrow> database result" where
  "sql_UpdateRunStartTime f start i db = query f ''UpdateRunStartTime''
     (Inr (db\<lparr>db_runs := map (\<lambda>r. if ru_ID r = i then r\<lparr>ru_Start := start, ru_Stop := SqlNull 0 False\<rparr> else r)
                (db_runs db)\<rparr>))"

definition sql_UpdateRunStopTime :: "faults \<Rightarrow> int sql_null \<Rightarrow> int \<Rightarrow> database \<Rightarrow> database result" where
  "sql_UpdateRunStopTime f stop i db = query f ''UpdateRunStopTime''
     (Inr (db\<lparr>db_runs := map (\<lambda>r. if ru_ID r = i then r\<lparr>ru_Stop := stop\<rparr> else r) (db_runs db)\<rparr>))"

definition gdc_stat :: "int \<Rightarrow> int sql_null \<Rightarrow> int sql_null \<Rightarrow> db_Stat" where
  "gdc_stat run gdc v = \<lparr>st_Run = run, st_GdcID = gdc, st_LdcID = SqlNull 0 False, st_Value = v\<rparr>"

definition ldc_stat :: "int \<Rightarrow> int sql_null \<Rightarrow> int sql_null \<Rightarrow> db_Stat" where
  "ldc_stat run ldc v = \<lparr>st_Run = run, st_GdcID = SqlNull 0 False, st_LdcID = ldc, st_Value = v\<rparr>"

definition sql_InsertGDCEvents :: "faults \<Rightarrow> int \<Rightarrow> int sql_null \<Rightarrow> int sql_null \<Rightarrow> database \<Rightarrow> database result" where
  "sql_InsertGDCEvents f run gdc v db =
     query f ''InsertGDCEvents'' (Inr (db\<lparr>db_events := db_events db @ [gdc_stat run gdc v]\<rparr>))"

definition sql_InsertGDCBytes :: "faults \<Rightarrow> int \<Rightarrow> int sql_null \<Rightarrow> int sql_null \<Rightarrow> database \<Rightarrow> database result" where
  "sql_InsertGDCBytes f run gdc v db =
     query f ''InsertGDCBytes'' (Inr (db\<lparr>db_data := db_data db @ [gdc_stat run gdc v]\<rparr>))"

definition sql_InsertGDCErrorCount :: "faults \<Rightarrow> int \<Rightarrow> int sql_null \<Rightarrow> int sql_null \<Rightarrow> database \<Rightarrow> database result" where
  "sql_InsertGDCErrorCount f run gdc v db =
     query f ''InsertGDCErrorCount'' (Inr (db\<lparr>db_errors := db_errors db @ [gdc_stat run gdc v]\<rparr>))"

definition sql_InsertLDCEvents :: "faults \<Rightarrow> int \<Rightarrow> int sql_null \<Rightarrow> int sql_null \<Rightarrow> database \<Rightarrow> database result" where
  "sql_InsertLDCEvents f run ldc v db =
     query f ''InsertLDCEvents'' (Inr (db\<lparr>db_events := db_events db @ [ldc_stat run ldc v]\<rparr>))"

definition sql_InsertLDCBytes :: "faults \<Rightarrow> int \<Rightarrow> int sql_null \<Rightarrow> int sql_null \<Rightarrow> database \<Rightarrow> database result" where
  "sql_InsertLDCBytes f run ldc v db =
     query f ''InsertLDCBytes'' (Inr (db\<lparr>db_data := db_data db @ [ldc_stat run ldc v]\<rparr>))"

definition sql_InsertLDCErrorCount :: "faults \<Rightarrow> int \<Rightarrow> int sql_null \<Rightarrow> int sql_null \<Rightarrow> database \<Rightarrow> database result" where
  "sql_InsertLDCErrorCount f run ldc v db =
     query f ''InsertLDCErrorCount'' (Inr (db\<lparr>db_errors := db_errors db @ [ldc_stat run ldc v]\<rparr>))"

definition sql_GetRateByRun :: "faults \<Rightarrow> int \<Rightarrow> database \<Rightarrow> int result" where
  "sql_GetRateByRun f run db = query f ''GetRateByRun'' (map_sum id ra_Run (row_get ra_Run run (db_rates db)))"

definition sql_InsertRate :: "faults \<Rightarrow> db_Rate \<Rightarrow> database \<Rightarrow> database result" where
  "sql_InsertRate f arg db = query f ''InsertRate'' (Inr (db\<lparr>db_rates := db_rates db @ [arg]\<rparr>))"

definition sql_UpdateRate :: "faults \<Rightarrow> db_Rate \<Rightarrow> database \<Rightarrow> database result" where
  "sql_UpdateRate f arg db = query f ''UpdateRate'' (Inr (db\<lparr>db_rates := row_update ra_Run (ra_Run arg) arg (db_rates db)\<rparr>))"

text \<open>What the configuration reader sees of a database.\<close>

definition querier_of :: "faults \<Rightarrow> (string \<Rightarrow> nat) \<Rightarrow> database \<Rightarrow> querier" where
  "querier_of f collate db =
     \<lparr>q_ListGDCs = sql_ListGDCs f collate db, q_ListLDCs = sql_ListLDCs f collate db,
      q_ListEquipments = sql_ListEquipments f db, q_GetLatestRun = sql_GetLatestRun f db,
      q_GetDuckParams = sql_GetDuckParams f db, q_GetDecoderParams = sql_GetDecoderParams f db,
      q_GetTestDeviceParams = sql_GetTestDeviceParams f db\<rparr>"

lemmas sql_defs = sql_CreateGDC_def sql_DeleteGDC_def sql_GetGDC_def sql_ListGDCs_def sql_UpdateGDC_def
  sql_CreateLDC_def sql_DeleteLDC_def sql_GetLDC_def sql_ListLDCs_def sql_UpdateLDC_def
  sql_CreateEquipment_def sql_DeleteEquipment_def sql_GetEquipment_def sql_ListEquipments_def sql_UpdateEquipment_def
  sql_GetDecoderParams_def sql_TruncateDecoderParams_def sql_UpdateDecoderParams_def query_def

section \<open>Rows by key\<close>

lemma row_get_append:
  "row_get key i (rows @ [r]) = (if i \<in> key ` set rows then row_get key i rows else if key r = i then Inr r else Inl ErrNoRows)"
  by (induction rows) (auto simp: row_get_def)

lemma row_get_absent: "i \<notin> key ` set rows \<Longrightarrow> row_get key i rows = Inl ErrNoRows"
  by (induction rows) (auto simp: row_get_def)

lemma row_get_present: "i \<in> key ` set rows \<Longrightarrow> \<exists>r \<in> set rows. row_get key i rows = Inr r \<and> key r = i"
  by (induction rows) (auto simp: row_get_def)

lemma row_get_update_other:
  "key new = i \<Longrightarrow> j \<noteq> i \<Longrightarrow> row_get key j (row_update key i new rows) = row_get key j rows"
  by (induction rows) (auto simp: row_get_def row_update_def)

lemma row_get_update:
  "key new = i \<Longrightarrow> i \<in> key ` set rows \<Longrightarrow> row_get key i (row_update key i new rows) = Inr new"
  by (induction rows) (auto simp: row_get_def row_update_def)

lemma row_get_delete: "row_get key j (row_delete key i rows) = (if j = i then Inl ErrNoRows else row_get key j rows)"
  by (induction rows) (auto simp: row_get_def row_delete_def)

lemma keys_update [simp]: "key new = i \<Longrightarrow> map key (row_update key i new rows) = map key rows"
  by (induction rows) (auto simp: row_update_def)

lemma keys_update_set [simp]: "key new = i \<Longrightarrow> key ` set (row_update key i new rows) = key ` set rows"
  using keys_update [of key new i rows] by (metis set_map)

lemma set_update: "set (row_update key i new rows) \<subseteq> insert new (set rows)"
  by (auto simp: row_update_def)

lemma set_delete [simp]: "set (row_delete key i rows) = {r \<in> set rows. key r \<noteq> i}"
  by (simp add: row_delete_def)

lemma distinct_delete: "distinct (map key rows) \<Longrightarrow> distinct (map key (row_delete key i rows))"
  by (simp add: row_delete_def distinct_map_filter)

text \<open>
  The interface of a table whose rows are written from messages and read back as messages: \<open>encode i m\<close> is the
  row with the key \<open>i\<close> for the message \<open>m\<close>, and reading it back gives the message with that identifier.
\<close>

locale keyed_rows =
  fixes key :: "'row \<Rightarrow> int"
    and encode :: "int \<Rightarrow> 'msg \<Rightarrow> 'row"
    and decode :: "'row \<Rightarrow> 'msg"
    and with_id :: "int \<Rightarrow> 'msg \<Rightarrow> 'msg"
  assumes key_encode: "key (encode i m) = i"
    and decode_encode: "decode (encode i m) = with_id i m"
begin

definition read :: "int \<Rightarrow> 'row list \<Rightarrow> 'msg result" where
  "read i rows = map_sum id decode (row_get key i rows)"

lemma read_created:
  "i \<notin> key ` set rows \<Longrightarrow> read i (rows @ [encode i m]) = Inr (with_id i m) \<and>
     (\<forall>j. j \<noteq> i \<longrightarrow> read j (rows @ [encode i m]) = read j rows)"
  by (auto simp: read_def row_get_append key_encode decode_encode row_get_absent)

lemma read_updated:
  "i \<in> key ` set rows \<Longrightarrow> read i (row_update key i (encode i m) rows) = Inr (with_id i m) \<and>
     (\<forall>j. j \<noteq> i \<longrightarrow> read j (row_update key i (encode i m) rows) = read j rows)"
  by (auto simp: read_def row_get_update row_get_update_other key_encode decode_encode)

lemma read_deleted:
  "read i (row_delete key i rows) = Inl ErrNoRows \<and> (\<forall>j. j \<noteq> i \<longrightarrow> read j (row_delete key i rows) = read j rows)"
  by (auto simp: read_def row_get_delete)

lemma update_absent: "i \<notin> key ` set rows \<Longrightarrow> row_update key i (encode i m) rows = rows"
  by (induction rows) (auto simp: row_update_def)

end

end
