(* ===== verification/Rate_Reader.thy ===== *)
theory Rate_Reader
  imports Api_Database Duck_Logger
begin

text \<open>
  The clients of the message server: the connection code of \<open>src/pkg/centrifugal.go\<close>, the program that keeps the rates
  of the current run in the database (\<open>src/rateReader/main.go\<close>), and the one that prints all messages
  (\<open>src/readLogs/main.go\<close>).

  The message server, the signing of tokens and \<open>encoding/json\<close> are parameters. A publication is what unmarshalling it gives: an
  error, a message, or, for the JSON value \<open>null\<close>, a nil pointer. Rates are rational numbers, as in \<open>Duck_Logger\<close>, and counters
  integers without a bound.

  The rate reader has two goroutines that share the totals without a lock: the client's, which runs the callback for one message after the other,
  and the ticker's. A step of the model is one read or one write of a total, or what a goroutine does between two of them. The lemmas show that
  between messages the totals are the sums of the last metrics of every GDC that has sent any, that a row written from totals that were read
  while no message changed them holds exactly these, and that a row written during a message holds partial sums.
\<close>

section \<open>Definitions\<close>

subsection \<open>Connections (centrifugal.go)\<close>

definition CENTRIFUGE_TOPIC :: string where
  "CENTRIFUGE_TOPIC = ''duck''"

record CentrifugalConfiguration =
  cc_Host :: string
  cc_Port :: int
  cc_Token :: string

text \<open>The claims of a token: the subject and, when it is positive, the expiry.\<close>

record token_claims =
  tc_sub :: string
  tc_exp :: "int option"

type_synonym token_signer = "token_claims \<Rightarrow> string \<Rightarrow> string + string"

definition ConnToken :: "token_signer \<Rightarrow> string \<Rightarrow> int \<Rightarrow> string \<Rightarrow> string outcome" where
  "ConnToken sign user expiry token =
     (let claims = \<lparr>tc_sub = user, tc_exp = (if expiry > 0 then Some expiry else None)\<rparr>
      in case sign claims token of Inl _ \<Rightarrow> Panic | Inr t \<Rightarrow> Ok t)"

text \<open>What the client is made with: the address, and a token only when one is configured.\<close>

record centrifuge_client =
  cl_address :: string
  cl_token :: "string option"

definition CentrifugeConnection ::
  "token_signer \<Rightarrow> (centrifuge_client \<Rightarrow> string option) \<Rightarrow> CentrifugalConfiguration \<Rightarrow> string \<Rightarrow>
   (centrifuge_client \<times> string option) outcome" where
  "CentrifugeConnection sign connect config user =
     (let address = ''ws://'' @ cc_Host config @ '':'' @ show_int (cc_Port config) @ ''/connection/websocket''
      in bind_outcome
           (if cc_Token config = [] then Ok None
            else bind_outcome (ConnToken sign user 0 (cc_Token config)) (\<lambda>t. Ok (Some t)))
           (\<lambda>token. let client = \<lparr>cl_address = address, cl_token = token\<rparr> in Ok (client, connect client)))"

record 'm subscription =
  sub_client :: centrifuge_client
  sub_channel :: string
  sub_fn :: "'m option"

text \<open>\<open>create\<close> and \<open>subscribe\<close> are the errors of the two calls of the client; both end the process.\<close>

definition SubscribeCentrifuge ::
  "string option \<Rightarrow> string option \<Rightarrow> centrifuge_client \<Rightarrow> 'm option \<Rightarrow> 'm subscription exit" where
  "SubscribeCentrifuge create subscribe client fn =
     (case create of
        Some err \<Rightarrow> Fatal (''error creating subscription: '' @ err)
      | None \<Rightarrow>
          (case subscribe of
             Some err \<Rightarrow> Fatal (''error subscribing:  '' @ err)
           | None \<Rightarrow> Returns \<lparr>sub_client = client, sub_channel = CENTRIFUGE_TOPIC, sub_fn = fn\<rparr>))"

record centrifuge_env =
  ce_sign :: token_signer
  ce_connect :: "centrifuge_client \<Rightarrow> string option"
  ce_create :: "string option"
  ce_subscribe :: "string option"

definition CreateNewSubscriptionWithFnReadout ::
  "centrifuge_env \<Rightarrow> CentrifugalConfiguration \<Rightarrow> string \<Rightarrow> 'm option \<Rightarrow> (string + 'm subscription) exit" where
  "CreateNewSubscriptionWithFnReadout env config user fn =
     (case CentrifugeConnection (ce_sign env) (ce_connect env) config user of
        Panic \<Rightarrow> Crashes
      | Ok (client, Some err) \<Rightarrow> Returns (Inl err)
      | Ok (client, None) \<Rightarrow>
          (case SubscribeCentrifuge (ce_create env) (ce_subscribe env) client fn of
             Returns s \<Rightarrow> Returns (Inr s)
           | Fatal e \<Rightarrow> Fatal e
           | Crashes \<Rightarrow> Crashes))"

definition CreateNewSubscription ::
  "centrifuge_env \<Rightarrow> CentrifugalConfiguration \<Rightarrow> string \<Rightarrow> (string + unit subscription) exit" where
  "CreateNewSubscription env config user = CreateNewSubscriptionWithFnReadout env config user None"

text \<open>The callback on a publication: what cannot be unmarshalled is dropped.\<close>

definition on_publication ::
  "(Message option \<Rightarrow> 's \<Rightarrow> 's outcome) \<Rightarrow> string + Message option \<Rightarrow> 's \<Rightarrow> 's outcome" where
  "on_publication fn d s = (case d of Inl _ \<Rightarrow> Ok s | Inr message \<Rightarrow> fn message s)"

definition PublishMessage :: "(Message \<Rightarrow> string + string) \<Rightarrow> (string \<Rightarrow> string option) \<Rightarrow> Message \<Rightarrow> string option" where
  "PublishMessage marshal publish message =
     (case marshal message of Inl err \<Rightarrow> Some err | Inr data \<Rightarrow> publish data)"

subsection \<open>Rates (rateReader)\<close>

text \<open>The writes to the totals: \<open>total = 0\<close> and \<open>total += v\<close>.\<close>

datatype total_write =
    ClearBytes | AddBytes int | ClearEvents | AddEvents int
  | ClearByteRate | AddByteRate rat | ClearEventRate | AddEventRate rat

text \<open>The maps belong to the callback; \<open>rr_pending\<close> is what it has still to write of the message in progress.\<close>

record rate_state =
  rr_bytes :: "(string, int) go_map"
  rr_events :: "(string, int) go_map"
  rr_byteRate :: "(string, rat) go_map"
  rr_eventRate :: "(string, rat) go_map"
  rr_totalBytes :: int
  rr_totalEvents :: int
  rr_totalByteRate :: rat
  rr_totalEventRate :: rat
  rr_pending :: "total_write list"

definition rate_init :: rate_state where
  "rate_init = \<lparr>rr_bytes = gm_empty, rr_events = gm_empty, rr_byteRate = gm_empty, rr_eventRate = gm_empty,
     rr_totalBytes = 0, rr_totalEvents = 0, rr_totalByteRate = 0, rr_totalEventRate = 0, rr_pending = []\<rparr>"

fun write_total :: "total_write \<Rightarrow> rate_state \<Rightarrow> rate_state" where
  "write_total ClearBytes s = s\<lparr>rr_totalBytes := 0\<rparr>"
| "write_total (AddBytes v) s = s\<lparr>rr_totalBytes := rr_totalBytes s + v\<rparr>"
| "write_total ClearEvents s = s\<lparr>rr_totalEvents := 0\<rparr>"
| "write_total (AddEvents v) s = s\<lparr>rr_totalEvents := rr_totalEvents s + v\<rparr>"
| "write_total ClearByteRate s = s\<lparr>rr_totalByteRate := 0\<rparr>"
| "write_total (AddByteRate v) s = s\<lparr>rr_totalByteRate := rr_totalByteRate s + v\<rparr>"
| "write_total ClearEventRate s = s\<lparr>rr_totalEventRate := 0\<rparr>"
| "write_total (AddEventRate v) s = s\<lparr>rr_totalEventRate := rr_totalEventRate s + v\<rparr>"

text \<open>The orders in which the four loops range over the hosts of the maps.\<close>

record range_orders =
  ro_bytes :: "string list"
  ro_events :: "string list"
  ro_byteRate :: "string list"
  ro_eventRate :: "string list"

definition total_writes :: "range_orders \<Rightarrow> rate_state \<Rightarrow> total_write list" where
  "total_writes ro s =
     ClearBytes # map (\<lambda>h. AddBytes (gm_get_or 0 (rr_bytes s) h)) (ro_bytes ro) @
     ClearEvents # map (\<lambda>h. AddEvents (gm_get_or 0 (rr_events s) h)) (ro_events ro) @
     ClearByteRate # map (\<lambda>h. AddByteRate (gm_get_or 0 (rr_byteRate s) h)) (ro_byteRate ro) @
     ClearEventRate # map (\<lambda>h. AddEventRate (gm_get_or 0 (rr_eventRate s) h)) (ro_eventRate ro)"

definition ranges :: "range_orders \<Rightarrow> rate_state \<Rightarrow> bool" where
  "ranges ro s \<longleftrightarrow> mset (ro_bytes ro) = mset (map fst (rr_bytes s)) \<and> mset (ro_events ro) = mset (map fst (rr_events s)) \<and>
     mset (ro_byteRate ro) = mset (map fst (rr_byteRate s)) \<and> mset (ro_eventRate ro) = mset (map fst (rr_eventRate s))"

text \<open>The callback up to its writes to the totals, which are what it has still to do.\<close>

definition rate_fn ::
  "(message_content \<Rightarrow> string + Metrics) \<Rightarrow> range_orders \<Rightarrow> Message option \<Rightarrow> rate_state \<Rightarrow> rate_state outcome" where
  "rate_fn unmarshal ro message s =
     (case message of
        None \<Rightarrow> Panic
      | Some m \<Rightarrow>
          if ms_Type m = MessageMetric then
            (case unmarshal (ms_Value m) of
               Inl _ \<Rightarrow> Ok s
             | Inr metric \<Rightarrow>
                 if \<not> has_prefix (ms_Host m) ''gdc'' then Ok s
                 else
                   let s1 = s\<lparr>rr_bytes := gm_set (ms_Host m) (mt_ByteCounter metric) (rr_bytes s),
                              rr_events := gm_set (ms_Host m) (mt_EventCounter metric) (rr_events s),
                              rr_byteRate := gm_set (ms_Host m) (mt_AvgDataRate metric) (rr_byteRate s),
                              rr_eventRate := gm_set (ms_Host m) (mt_AvgTrgRate metric) (rr_eventRate s)\<rparr>
                   in Ok (s1\<lparr>rr_pending := total_writes ro s1\<rparr>))
          else Ok s)"

definition rate_connectToDatabase :: "(string \<Rightarrow> string option) \<Rightarrow> string \<Rightarrow> string option" where
  "rate_connectToDatabase open_db dbURI = open_db dbURI"

definition rate_getRun :: "faults \<Rightarrow> database \<Rightarrow> int result" where
  "rate_getRun f db = sql_GetLatestRun f db"

text \<open>The totals as a tick reads them, one after the other in the order of the fields of the parameters.\<close>

datatype loads =
    NoLoad | LoadedBytes int | LoadedEvents int int | LoadedEventRate int int rat | LoadedAll int int rat rat

text \<open>The row both queries write; \<open>int32(run)\<close> of a number that came from an \<open>int\<close> column.\<close>

definition rate_row :: "int \<Rightarrow> int \<Rightarrow> int \<times> int \<times> rat \<times> rat \<Rightarrow> db_Rate" where
  "rate_row run now = (\<lambda>(bytes, events, eventRate, byteRate). \<lparr>ra_Run = run, ra_LastUpdate = now, ra_Bytes = bytes, ra_Events = events,
     ra_Avgtriggerrate = eventRate, ra_Avgbyterate = byteRate\<rparr>)"

definition writeRateData :: "faults \<Rightarrow> int \<Rightarrow> int \<times> int \<times> rat \<times> rat \<Rightarrow> database \<Rightarrow> database \<times> string option" where
  "writeRateData f now totals db =
     (case rate_getRun f db of
        Inl err \<Rightarrow> (db, Some err)
      | Inr run \<Rightarrow>
          (case sql_GetRateByRun f run db of
             Inl err \<Rightarrow>
               if err = ErrNoRows then
                 (case sql_InsertRate f (rate_row run now totals) db of
                    Inl e \<Rightarrow> (db, Some e)
                  | Inr db' \<Rightarrow> (db', None))
               else (db, Some err)
           | Inr _ \<Rightarrow>
               (case sql_UpdateRate f (rate_row run now totals) db of
                  Inl e \<Rightarrow> (db, Some e)
                | Inr db' \<Rightarrow> (db', None))))"

text \<open>
  One tick of \<open>updateDatabase\<close>: an error of the writes closes the connection and opens a new one. When opening fails the
  connection is nil, and the next tick panics on it.
\<close>

definition update_tick ::
  "faults \<Rightarrow> string option \<Rightarrow> int \<Rightarrow> int \<times> int \<times> rat \<times> rat \<Rightarrow> bool \<times> database \<Rightarrow> (bool \<times> database) outcome" where
  "update_tick f reopen now totals = (\<lambda>(connected, db).
     if \<not> connected then Panic
     else case writeRateData f now totals db of
            (db', None) \<Rightarrow> Ok (True, db')
          | (db', Some err) \<Rightarrow> Ok (reopen = None, db'))"

text \<open>
  The process. A message comes to the callback when it has finished the one before; \<open>TotalWrite\<close> is its next write to a total, \<open>TickLoad\<close> the
  next read of a total by the ticker's goroutine, and \<open>TickStore\<close> the write to the database that follows. (The two queries of a tick
  before its reads look at tables that nobody else changes meanwhile, so they are part of that step.)
\<close>

record rate_process =
  rp_state :: rate_state
  rp_loads :: loads
  rp_connected :: bool
  rp_db :: database

datatype rate_action = Publication "string + Message option" range_orders | TotalWrite | TickLoad | TickStore faults "string option" int

definition rate_start :: "database \<Rightarrow> rate_process" where
  "rate_start db = \<lparr>rp_state = rate_init, rp_loads = NoLoad, rp_connected = True, rp_db = db\<rparr>"

fun load_total :: "rate_state \<Rightarrow> loads \<Rightarrow> loads option" where
  "load_total s NoLoad = Some (LoadedBytes (rr_totalBytes s))"
| "load_total s (LoadedBytes b) = Some (LoadedEvents b (rr_totalEvents s))"
| "load_total s (LoadedEvents b e) = Some (LoadedEventRate b e (rr_totalEventRate s))"
| "load_total s (LoadedEventRate b e er) = Some (LoadedAll b e er (rr_totalByteRate s))"
| "load_total s (LoadedAll b e er br) = None"

text \<open>\<open>None\<close> is a step that cannot be taken.\<close>

fun rate_step :: "(message_content \<Rightarrow> string + Metrics) \<Rightarrow> rate_action \<Rightarrow> rate_process \<Rightarrow> rate_process outcome option" where
  "rate_step unmarshal (Publication d ro) p =
     (if rr_pending (rp_state p) \<noteq> [] then None
      else case on_publication (rate_fn unmarshal ro) d (rp_state p) of
             Panic \<Rightarrow> Some Panic
           | Ok s' \<Rightarrow> if rr_pending s' \<noteq> [] \<and> \<not> ranges ro s' then None else Some (Ok (p\<lparr>rp_state := s'\<rparr>)))"
| "rate_step unmarshal TotalWrite p =
     (case rr_pending (rp_state p) of
        [] \<Rightarrow> None
      | w # ws \<Rightarrow> Some (Ok (p\<lparr>rp_state := (write_total w (rp_state p))\<lparr>rr_pending := ws\<rparr>\<rparr>)))"
| "rate_step unmarshal TickLoad p =
     (case load_total (rp_state p) (rp_loads p) of None \<Rightarrow> None | Some l \<Rightarrow> Some (Ok (p\<lparr>rp_loads := l\<rparr>)))"
| "rate_step unmarshal (TickStore f reopen now) p =
     (case rp_loads p of
        LoadedAll b e er br \<Rightarrow>
          Some (bind_outcome (update_tick f reopen now (b, e, er, br) (rp_connected p, rp_db p))
            (\<lambda>(connected, db). Ok (p\<lparr>rp_loads := NoLoad, rp_connected := connected, rp_db := db\<rparr>)))
      | _ \<Rightarrow> None)"

fun rate_run :: "(message_content \<Rightarrow> string + Metrics) \<Rightarrow> rate_action list \<Rightarrow> rate_process \<Rightarrow> rate_process outcome option" where
  "rate_run unmarshal [] p = Some (Ok p)"
| "rate_run unmarshal (a # as) p =
     (case rate_step unmarshal a p of
        None \<Rightarrow> None
      | Some Panic \<Rightarrow> Some Panic
      | Some (Ok p') \<Rightarrow> rate_run unmarshal as p')"

subsection \<open>Printing messages (readLogs)\<close>

text \<open>The callback prints every message, metrics too: its early return comes after the print.\<close>

definition readLogs_fn :: "Message option \<Rightarrow> Message option list \<Rightarrow> Message option list outcome" where
  "readLogs_fn message printed =
     (let printed' = printed @ [message]
      in case message of None \<Rightarrow> Panic | Some m \<Rightarrow> if ms_Type m = MessageMetric then Ok printed' else Ok printed')"

section \<open>The totals\<close>

text \<open>The last metrics of every GDC, read back from the publications.\<close>

definition note_metrics :: "(message_content \<Rightarrow> string + Metrics) \<Rightarrow> (string \<rightharpoonup> Metrics) \<Rightarrow> rate_action \<Rightarrow> (string \<rightharpoonup> Metrics)" where
  "note_metrics unmarshal M a =
     (case a of
        Publication (Inr (Some m)) ro \<Rightarrow>
          (if ms_Type m = MessageMetric \<and> has_prefix (ms_Host m) ''gdc''
           then (case unmarshal (ms_Value m) of Inr x \<Rightarrow> M(ms_Host m \<mapsto> x) | Inl _ \<Rightarrow> M) else M)
      | _ \<Rightarrow> M)"

definition gdc_metrics :: "(message_content \<Rightarrow> string + Metrics) \<Rightarrow> rate_action list \<Rightarrow> string \<rightharpoonup> Metrics" where
  "gdc_metrics unmarshal as = foldl (note_metrics unmarshal) (\<lambda>_. None) as"

definition metrics_total :: "(Metrics \<Rightarrow> 'a :: comm_monoid_add) \<Rightarrow> (string \<Rightarrow> Metrics option) \<Rightarrow> 'a" where
  "metrics_total f M = (\<Sum>h \<in> dom M. f (the (M h)))"

text \<open>
  One total during a message: \<open>rem\<close> are the writes to it that are left, \<open>None\<close> the reset. Before the reset it is the total of the metrics before
  the message, after it the sum over the hosts that were added so far.
\<close>

definition column_ok :: "(Metrics \<Rightarrow> 'v :: comm_monoid_add) \<Rightarrow> (string \<rightharpoonup> Metrics) \<Rightarrow> (string \<rightharpoonup> Metrics) \<Rightarrow> 'v option list \<Rightarrow> 'v \<Rightarrow> bool" where
  "column_ok val old M rem t \<longleftrightarrow>
     (\<exists>hs. distinct hs \<and> set hs = dom M \<and> rem = None # map (\<lambda>h. Some (val (the (M h)))) hs \<and> t = metrics_total val old) \<or>
     (\<exists>hs1 hs2. distinct (hs1 @ hs2) \<and> set (hs1 @ hs2) = dom M \<and> rem = map (\<lambda>h. Some (val (the (M h)))) hs2 \<and>
        t = (\<Sum>h \<leftarrow> hs1. val (the (M h))))"

lemma column_clear:
  assumes "column_ok val old M (None # rem) t"
  shows "column_ok val old M rem 0"
proof -
  obtain hs where "distinct ([] @ hs)" "set ([] @ hs) = dom M" "rem = map (\<lambda>h. Some (val (the (M h)))) hs"
    using assms by (auto simp: column_ok_def)
  moreover have "0 = (\<Sum>h \<leftarrow> []. val (the (M h)))" by simp
  ultimately show ?thesis unfolding column_ok_def by blast
qed

lemma column_add:
  assumes "column_ok val old M (Some v # rem) t"
  shows "column_ok val old M rem (t + v)"
proof -
  obtain hs1 h hs2 where h: "distinct (hs1 @ h # hs2)" "set (hs1 @ h # hs2) = dom M" "rem = map (\<lambda>h. Some (val (the (M h)))) hs2"
      "v = val (the (M h))" "t = (\<Sum>h \<leftarrow> hs1. val (the (M h)))"
    using assms by (auto simp: column_ok_def)
  then have "distinct ((hs1 @ [h]) @ hs2) \<and> set ((hs1 @ [h]) @ hs2) = dom M \<and> t + v = (\<Sum>h \<leftarrow> hs1 @ [h]. val (the (M h)))" by auto
  with h(3) show ?thesis unfolding column_ok_def by blast
qed

lemma column_done: "column_ok val old M [] t \<Longrightarrow> t = metrics_total val M"
  by (auto simp: column_ok_def metrics_total_def sum_list_distinct_conv_sum_set)

lemma column_partial:
  assumes "column_ok val old M rem t"
  shows "\<exists>N \<in> {old, M}. \<exists>H \<subseteq> dom N. t = (\<Sum>h \<in> H. val (the (N h)))"
proof -
  have "t = (\<Sum>h \<in> dom old. val (the (old h))) \<or> (\<exists>hs1. set hs1 \<subseteq> dom M \<and> t = (\<Sum>h \<in> set hs1. val (the (M h))))"
    using assms by (fastforce simp: column_ok_def metrics_total_def sum_list_distinct_conv_sum_set)
  then show ?thesis by blast
qed

lemma column_start:
  assumes "distinct hs" "set hs = dom M" "t = metrics_total val old"
  shows "column_ok val old M (None # map (\<lambda>h. Some (val (the (M h)))) hs) t"
  using assms by (auto simp: column_ok_def)

text \<open>The writes to each total among the writes that are left.\<close>

definition bytes_left :: "total_write list \<Rightarrow> int option list" where
  "bytes_left = List.map_filter (\<lambda>w. case w of ClearBytes \<Rightarrow> Some None | AddBytes v \<Rightarrow> Some (Some v) | _ \<Rightarrow> None)"

definition events_left :: "total_write list \<Rightarrow> int option list" where
  "events_left = List.map_filter (\<lambda>w. case w of ClearEvents \<Rightarrow> Some None | AddEvents v \<Rightarrow> Some (Some v) | _ \<Rightarrow> None)"

definition byteRate_left :: "total_write list \<Rightarrow> rat option list" where
  "byteRate_left = List.map_filter (\<lambda>w. case w of ClearByteRate \<Rightarrow> Some None | AddByteRate v \<Rightarrow> Some (Some v) | _ \<Rightarrow> None)"

definition eventRate_left :: "total_write list \<Rightarrow> rat option list" where
  "eventRate_left = List.map_filter (\<lambda>w. case w of ClearEventRate \<Rightarrow> Some None | AddEventRate v \<Rightarrow> Some (Some v) | _ \<Rightarrow> None)"

lemmas left_defs = bytes_left_def events_left_def byteRate_left_def eventRate_left_def

text \<open>The state of the callback: every map holds one column of the last metrics, and every total is on its way.\<close>

definition rates_inv :: "(string \<rightharpoonup> Metrics) \<Rightarrow> (string \<rightharpoonup> Metrics) \<Rightarrow> rate_state \<Rightarrow> bool" where
  "rates_inv old M s \<longleftrightarrow>
     (gm_invar (rr_bytes s) \<and> gm_get (rr_bytes s) = (\<lambda>h. map_option mt_ByteCounter (M h)) \<and>
      gm_invar (rr_events s) \<and> gm_get (rr_events s) = (\<lambda>h. map_option mt_EventCounter (M h)) \<and>
      gm_invar (rr_byteRate s) \<and> gm_get (rr_byteRate s) = (\<lambda>h. map_option mt_AvgDataRate (M h)) \<and>
      gm_invar (rr_eventRate s) \<and> gm_get (rr_eventRate s) = (\<lambda>h. map_option mt_AvgTrgRate (M h))) \<and>
     column_ok mt_ByteCounter old M (bytes_left (rr_pending s)) (rr_totalBytes s) \<and>
     column_ok mt_EventCounter old M (events_left (rr_pending s)) (rr_totalEvents s) \<and>
     column_ok mt_AvgDataRate old M (byteRate_left (rr_pending s)) (rr_totalByteRate s) \<and>
     column_ok mt_AvgTrgRate old M (eventRate_left (rr_pending s)) (rr_totalEventRate s)"

lemma rates_inv_init: "rates_inv (\<lambda>_. None) (\<lambda>_. None) rate_init"
  by (simp add: rates_inv_def rate_init_def gomap_simps gm_empty_def fun_eq_iff gm_get_def gm_invar_def column_ok_def left_defs
      List.map_filter_simps)

lemma rates_inv_write:
  assumes "rates_inv old M s" "rr_pending s = w # ws"
  shows "rates_inv old M ((write_total w s)\<lparr>rr_pending := ws\<rparr>)"
  using assms by (cases w) (auto simp: rates_inv_def left_defs List.map_filter_simps dest: column_clear column_add)

lemma rates_inv_done:
  assumes "rates_inv old M s" "rr_pending s = []"
  shows "rr_totalBytes s = metrics_total mt_ByteCounter M" "rr_totalEvents s = metrics_total mt_EventCounter M"
    "rr_totalByteRate s = metrics_total mt_AvgDataRate M" "rr_totalEventRate s = metrics_total mt_AvgTrgRate M"
  using assms by (auto simp: rates_inv_def left_defs List.map_filter_simps dest!: column_done)

lemma column_range:
  fixes g :: "(string, 'v :: comm_monoid_add) go_map"
  assumes "mset hs = mset (map fst g)" "gm_invar g" "gm_get g = (\<lambda>h. map_option val (N h))"
  shows "column_ok val M N (None # map (\<lambda>h. Some (gm_get_or 0 g h)) hs) (metrics_total val M)"
proof -
  have "distinct hs" using assms(1,2) by (metis gm_invar_def mset_eq_imp_distinct_iff)
  moreover have "set hs = dom (gm_get g)" using mset_eq_setD [OF assms(1)] by (simp add: gm_get_def dom_map_of_conv_image_fst)
  then have hs: "set hs = dom N" unfolding assms(3) by (auto simp: dom_def)
  moreover have "map (\<lambda>h. Some (gm_get_or 0 g h)) hs = map (\<lambda>h. Some (val (the (N h)))) hs"
    using hs by (auto simp: gm_get_or_def assms(3) dom_def)
  ultimately show ?thesis by (simp only: column_start)
qed

lemma total_writes_left:
  "bytes_left (total_writes ro s) = None # map (\<lambda>h. Some (gm_get_or 0 (rr_bytes s) h)) (ro_bytes ro)"
  "events_left (total_writes ro s) = None # map (\<lambda>h. Some (gm_get_or 0 (rr_events s) h)) (ro_events ro)"
  "byteRate_left (total_writes ro s) = None # map (\<lambda>h. Some (gm_get_or 0 (rr_byteRate s) h)) (ro_byteRate ro)"
  "eventRate_left (total_writes ro s) = None # map (\<lambda>h. Some (gm_get_or 0 (rr_eventRate s) h)) (ro_eventRate ro)"
proof -
  have drop: "List.map_filter f (map g xs) = []" if "\<And>x. f (g x) = None" for f :: "total_write \<Rightarrow> 'v option" and g and xs :: "string list"
    using that by (induction xs) (simp_all add: List.map_filter_simps)
  have keep: "List.map_filter f (map g xs) = map h xs" if "\<And>x. f (g x) = Some (h x)" for f :: "total_write \<Rightarrow> 'v option" and g h and xs :: "string list"
    using that by (induction xs) (simp_all add: List.map_filter_simps)
  have app: "List.map_filter f (xs @ ys) = List.map_filter f xs @ List.map_filter f ys" for f :: "total_write \<Rightarrow> 'v option" and xs ys
    by (induction xs) (simp_all add: List.map_filter_simps split: option.split)
  show "bytes_left (total_writes ro s) = None # map (\<lambda>h. Some (gm_get_or 0 (rr_bytes s) h)) (ro_bytes ro)"
    "events_left (total_writes ro s) = None # map (\<lambda>h. Some (gm_get_or 0 (rr_events s) h)) (ro_events ro)"
    "byteRate_left (total_writes ro s) = None # map (\<lambda>h. Some (gm_get_or 0 (rr_byteRate s) h)) (ro_byteRate ro)"
    "eventRate_left (total_writes ro s) = None # map (\<lambda>h. Some (gm_get_or 0 (rr_eventRate s) h)) (ro_eventRate ro)"
    unfolding total_writes_def left_defs by (simp_all add: app List.map_filter_simps drop keep)
qed

text \<open>A message of a GDC begins: the maps change at once, the totals are left to be written.\<close>

lemma rates_inv_publication:
  assumes inv: "rates_inv old M s" "rr_pending s = []" and ok: "rate_fn unmarshal ro (Some m) s = Ok s'"
    and ro: "rr_pending s' = [] \<or> ranges ro s'"
  shows "rates_inv M (note_metrics unmarshal M (Publication (Inr (Some m)) ro)) s' \<or>
    (s' = s \<and> note_metrics unmarshal M (Publication (Inr (Some m)) ro) = M)"
proof (cases "ms_Type m = MessageMetric \<and> has_prefix (ms_Host m) ''gdc'' \<and> (\<exists>x. unmarshal (ms_Value m) = Inr x)")
  case False
  then show ?thesis using ok by (auto simp: rate_fn_def note_metrics_def split: sum.splits if_splits)
next
  case True
  then obtain x where x: "ms_Type m = MessageMetric" "has_prefix (ms_Host m) ''gdc''" "unmarshal (ms_Value m) = Inr x" by blast
  let ?N = "M(ms_Host m \<mapsto> x)"
  have s': "rr_bytes s' = gm_set (ms_Host m) (mt_ByteCounter x) (rr_bytes s)" "rr_events s' = gm_set (ms_Host m) (mt_EventCounter x) (rr_events s)"
    "rr_byteRate s' = gm_set (ms_Host m) (mt_AvgDataRate x) (rr_byteRate s)" "rr_eventRate s' = gm_set (ms_Host m) (mt_AvgTrgRate x) (rr_eventRate s)"
    "rr_totalBytes s' = rr_totalBytes s" "rr_totalEvents s' = rr_totalEvents s" "rr_totalByteRate s' = rr_totalByteRate s"
    "rr_totalEventRate s' = rr_totalEventRate s" "rr_pending s' = total_writes ro s'"
    using ok x by (auto simp: rate_fn_def Let_def total_writes_def)
  have maps: "gm_invar (rr_bytes s') \<and> gm_get (rr_bytes s') = (\<lambda>h. map_option mt_ByteCounter (?N h)) \<and>
      gm_invar (rr_events s') \<and> gm_get (rr_events s') = (\<lambda>h. map_option mt_EventCounter (?N h)) \<and>
      gm_invar (rr_byteRate s') \<and> gm_get (rr_byteRate s') = (\<lambda>h. map_option mt_AvgDataRate (?N h)) \<and>
      gm_invar (rr_eventRate s') \<and> gm_get (rr_eventRate s') = (\<lambda>h. map_option mt_AvgTrgRate (?N h))"
    using inv(1) unfolding s' by (simp add: rates_inv_def gomap_simps fun_eq_iff)
  have "ranges ro s'" using ro s'(9) by (auto simp: total_writes_def)
  then have orders: "mset (ro_bytes ro) = mset (map fst (rr_bytes s'))" "mset (ro_events ro) = mset (map fst (rr_events s'))"
    "mset (ro_byteRate ro) = mset (map fst (rr_byteRate s'))" "mset (ro_eventRate ro) = mset (map fst (rr_eventRate s'))"
    by (simp_all add: ranges_def)
  note left = total_writes_left [of ro s', folded s'(9)]
  have "rates_inv M ?N s'"
    unfolding rates_inv_def left s'(5-8) rates_inv_done [OF inv]
    using maps column_range [OF orders(1)] column_range [OF orders(2)] column_range [OF orders(3)] column_range [OF orders(4)] by blast
  then show ?thesis using x by (simp add: note_metrics_def)
qed

section \<open>The row of the run\<close>

text \<open>Rows of other runs.\<close>

definition other_rates :: "int \<Rightarrow> database \<Rightarrow> db_Rate list" where
  "other_rates run db = filter (\<lambda>r. ra_Run r \<noteq> run) (db_rates db)"

definition own_rates :: "int \<Rightarrow> database \<Rightarrow> db_Rate list" where
  "own_rates run db = filter (\<lambda>r. ra_Run r = run) (db_rates db)"

lemma own_rates_one:
  assumes "length (own_rates run db) \<le> 1"
  shows "own_rates run db = [] \<longleftrightarrow> run \<notin> ra_Run ` set (db_rates db)"
  by (auto simp: own_rates_def filter_empty_conv)

lemma writeRateData_row:
  assumes run: "latest_run (db_runs db) = Inr r" and one: "length (own_rates (ru_ID r) db) \<le> 1"
    and f: "f ''GetRateByRun'' \<noteq> Some ErrNoRows" and w: "writeRateData f now totals db = (db', e)"
  shows "db_runs db' = db_runs db" "other_rates (ru_ID r) db' = other_rates (ru_ID r) db"
    "e = None \<Longrightarrow> own_rates (ru_ID r) db' = [rate_row (ru_ID r) now totals]" "e \<noteq> None \<Longrightarrow> db' = db" "f = no_faults \<Longrightarrow> e = None"
proof -
  let ?run = "ru_ID r" and ?row = "rate_row (ru_ID r) now totals"
  let ?ins = "db\<lparr>db_rates := db_rates db @ [?row]\<rparr>"
  let ?upd = "db\<lparr>db_rates := row_update ra_Run ?run ?row (db_rates db)\<rparr>"
  have cases: "(db' = db \<and> e \<noteq> None \<and> f \<noteq> no_faults) \<or> (e = None \<and> own_rates ?run db = [] \<and> db' = ?ins) \<or>
      (e = None \<and> own_rates ?run db \<noteq> [] \<and> db' = ?upd)"
  proof (cases "?run \<in> ra_Run ` set (db_rates db)")
    case True
    obtain x where x: "row_get ra_Run ?run (db_rates db) = Inr x" "ra_Run x = ?run" using row_get_present [OF True] by blast
    have "own_rates ?run db \<noteq> []" using True own_rates_one [OF one] by blast
    with w x run f show ?thesis
      by (auto simp: writeRateData_def rate_getRun_def sql_GetLatestRun_def sql_GetRateByRun_def sql_UpdateRate_def query_def no_faults_def
          rate_row_def case_prod_unfold split: option.splits if_splits) (metis option.exhaust)+
  next
    case False
    have "row_get ra_Run ?run (db_rates db) = Inl ErrNoRows" by (rule row_get_absent [OF False])
    moreover have "own_rates ?run db = []" using False own_rates_one [OF one] by blast
    ultimately show ?thesis using w run
      by (auto simp: writeRateData_def rate_getRun_def sql_GetLatestRun_def sql_GetRateByRun_def sql_InsertRate_def query_def no_faults_def
          split: option.splits if_splits) (metis option.exhaust)+
  qed
  have upd: "map (\<lambda>x. if ra_Run x = ?run then ?row else x) (filter (\<lambda>x. ra_Run x = ?run) (db_rates db)) = [?row]"
    if "own_rates ?run db \<noteq> []"
    using that one by (cases "own_rates ?run db") (auto simp: own_rates_def filter_eq_Cons_iff)
  have row: "ra_Run ?row = ?run" by (simp add: rate_row_def case_prod_unfold)
  have own: "own_rates ?run ?upd = map (\<lambda>x. if ra_Run x = ?run then ?row else x) (own_rates ?run db)"
    by (auto simp: own_rates_def row_update_def filter_map o_def row intro!: arg_cong [of _ _ "map _"] filter_cong)
  have oth: "other_rates ?run ?upd = other_rates ?run db"
    by (simp add: other_rates_def row_update_def filter_map o_def row cong: if_cong) (auto intro!: map_idI)
  show "db_runs db' = db_runs db" using cases by auto
  show "other_rates ?run db' = other_rates ?run db" using cases oth row by (auto simp: other_rates_def)
  show "own_rates ?run db' = [?row]" if "e = None"
    using cases that own upd row by (auto simp: own_rates_def)
  show "e \<noteq> None \<Longrightarrow> db' = db" "f = no_faults \<Longrightarrow> e = None" using cases by auto
qed

section \<open>Runs\<close>

text \<open>Some of the metrics that the GDCs had sent at some moment of a run.\<close>

definition partial_total :: "(message_content \<Rightarrow> string + Metrics) \<Rightarrow> rate_action list \<Rightarrow> (Metrics \<Rightarrow> 'v :: comm_monoid_add) \<Rightarrow> 'v \<Rightarrow> bool" where
  "partial_total u as val v \<longleftrightarrow>
     (\<exists>n \<le> length as. \<exists>H \<subseteq> dom (gdc_metrics u (take n as)). v = (\<Sum>h \<in> H. val (the (gdc_metrics u (take n as) h))))"

lemma partial_total_more: "partial_total u as val v \<Longrightarrow> partial_total u (as @ bs) val v"
proof -
  assume "partial_total u as val v"
  then obtain n where n: "n \<le> length as" "\<exists>H \<subseteq> dom (gdc_metrics u (take n as)). v = (\<Sum>h \<in> H. val (the (gdc_metrics u (take n as) h)))"
    by (auto simp: partial_total_def)
  then have "take n (as @ bs) = take n as" by simp
  with n show ?thesis unfolding partial_total_def by (intro exI [of _ n]) simp
qed

fun loads_ok :: "(message_content \<Rightarrow> string + Metrics) \<Rightarrow> rate_action list \<Rightarrow> loads \<Rightarrow> bool" where
  "loads_ok u as NoLoad \<longleftrightarrow> True"
| "loads_ok u as (LoadedBytes b) \<longleftrightarrow> partial_total u as mt_ByteCounter b"
| "loads_ok u as (LoadedEvents b e) \<longleftrightarrow> partial_total u as mt_ByteCounter b \<and> partial_total u as mt_EventCounter e"
| "loads_ok u as (LoadedEventRate b e er) \<longleftrightarrow>
     partial_total u as mt_ByteCounter b \<and> partial_total u as mt_EventCounter e \<and> partial_total u as mt_AvgTrgRate er"
| "loads_ok u as (LoadedAll b e er br) \<longleftrightarrow> partial_total u as mt_ByteCounter b \<and> partial_total u as mt_EventCounter e \<and>
     partial_total u as mt_AvgTrgRate er \<and> partial_total u as mt_AvgDataRate br"

text \<open>The driver reports a missing row only when there is none.\<close>

definition honest :: "rate_action \<Rightarrow> bool" where
  "honest a \<longleftrightarrow> (case a of TickStore f reopen now \<Rightarrow> f ''GetRateByRun'' \<noteq> Some ErrNoRows | _ \<Rightarrow> True)"

definition run_inv :: "(message_content \<Rightarrow> string + Metrics) \<Rightarrow> database \<Rightarrow> int \<Rightarrow> rate_action list \<Rightarrow> rate_process \<Rightarrow> bool" where
  "run_inv u db run as p \<longleftrightarrow>
     (\<exists>n \<le> length as. rates_inv (gdc_metrics u (take n as)) (gdc_metrics u as) (rp_state p)) \<and> loads_ok u as (rp_loads p) \<and>
     db_runs (rp_db p) = db_runs db \<and> length (own_rates run (rp_db p)) \<le> 1 \<and> other_rates run (rp_db p) = other_rates run db"

lemma loads_ok_more: "loads_ok u as l \<Longrightarrow> loads_ok u (as @ bs) l"
  by (cases l) (auto intro: partial_total_more)

lemma rates_inv_partial:
  assumes "rates_inv (gdc_metrics u (take n as)) (gdc_metrics u as) s" "n \<le> length as"
  shows "partial_total u as mt_ByteCounter (rr_totalBytes s)" "partial_total u as mt_EventCounter (rr_totalEvents s)"
    "partial_total u as mt_AvgDataRate (rr_totalByteRate s)" "partial_total u as mt_AvgTrgRate (rr_totalEventRate s)"
proof -
  have *: "partial_total u as val t" if "column_ok val (gdc_metrics u (take n as)) (gdc_metrics u as) rem t"
    for val :: "Metrics \<Rightarrow> 'v :: comm_monoid_add" and rem t
    using column_partial [OF that] assms(2) unfolding partial_total_def by (metis insertE le_refl singletonD take_all)
  show "partial_total u as mt_ByteCounter (rr_totalBytes s)" "partial_total u as mt_EventCounter (rr_totalEvents s)"
    "partial_total u as mt_AvgDataRate (rr_totalByteRate s)" "partial_total u as mt_AvgTrgRate (rr_totalEventRate s)"
    using assms(1) * unfolding rates_inv_def by blast+
qed

lemma gdc_metrics_snoc: "gdc_metrics u (as @ [a]) = note_metrics u (gdc_metrics u as) a"
  by (simp add: gdc_metrics_def)

text \<open>A step that leaves the last metrics alone.\<close>

lemma run_inv_same:
  assumes "run_inv u db run as p" "note_metrics u (gdc_metrics u as) a = gdc_metrics u as"
    and "\<And>old M. rates_inv old M (rp_state p) \<Longrightarrow> rates_inv old M (rp_state p')" and "rp_loads p' = rp_loads p" "rp_db p' = rp_db p"
  shows "run_inv u db run (as @ [a]) p'"
proof -
  obtain n where "n \<le> length as" "rates_inv (gdc_metrics u (take n as)) (gdc_metrics u as) (rp_state p)" using assms(1) by (auto simp: run_inv_def)
  then have "n \<le> length (as @ [a])" "rates_inv (gdc_metrics u (take n (as @ [a]))) (gdc_metrics u (as @ [a])) (rp_state p')"
    using assms(2,3) by (simp_all add: gdc_metrics_snoc)
  then show ?thesis using assms(1,4,5) loads_ok_more unfolding run_inv_def by metis
qed

lemma run_inv_publication:
  assumes inv: "run_inv u db run as p" and step: "rate_step u (Publication d ro) p = Some (Ok p')"
  shows "run_inv u db run (as @ [Publication d ro]) p'"
proof -
  obtain s' where s': "rr_pending (rp_state p) = []" "on_publication (rate_fn u ro) d (rp_state p) = Ok s'" "rr_pending s' = [] \<or> ranges ro s'"
      "p' = p\<lparr>rp_state := s'\<rparr>"
    using step by (auto split: if_splits outcome.splits)
  show ?thesis
  proof (cases d)
    case (Inl err)
    then have "s' = rp_state p" using s'(2) by (simp add: on_publication_def)
    then show ?thesis using run_inv_same [OF inv, of "Publication d ro" p'] s'(4) by (simp add: note_metrics_def Inl)
  next
    case (Inr q)
    then obtain m where m: "q = Some m" "rate_fn u ro (Some m) (rp_state p) = Ok s'"
      using s'(2) by (cases q) (auto simp: on_publication_def rate_fn_def)
    obtain n where "rates_inv (gdc_metrics u (take n as)) (gdc_metrics u as) (rp_state p)" using inv by (auto simp: run_inv_def)
    from rates_inv_publication [OF this s'(1) m(2) s'(3)] Inr m(1) consider
        "rates_inv (gdc_metrics u as) (note_metrics u (gdc_metrics u as) (Publication d ro)) s'"
      | "s' = rp_state p" "note_metrics u (gdc_metrics u as) (Publication d ro) = gdc_metrics u as" by blast
    then show ?thesis
    proof cases
      case 1
      then have "length as \<le> length (as @ [Publication d ro]) \<and>
          rates_inv (gdc_metrics u (take (length as) (as @ [Publication d ro]))) (gdc_metrics u (as @ [Publication d ro])) (rp_state p')"
        by (simp add: gdc_metrics_snoc s'(4))
      moreover have "rp_loads p' = rp_loads p" "rp_db p' = rp_db p" using s'(4) by simp_all
      ultimately show ?thesis using inv loads_ok_more unfolding run_inv_def by metis
    next
      case 2
      then show ?thesis using run_inv_same [OF inv, of "Publication d ro" p'] s'(4) by simp
    qed
  qed
qed

lemma run_inv_load:
  assumes inv: "run_inv u db run as p" and step: "rate_step u TickLoad p = Some (Ok p')"
  shows "run_inv u db run (as @ [TickLoad]) p'"
proof -
  obtain l where l: "load_total (rp_state p) (rp_loads p) = Some l" "p' = p\<lparr>rp_loads := l\<rparr>" using step by (auto split: option.splits)
  obtain n where n: "n \<le> length as" "rates_inv (gdc_metrics u (take n as)) (gdc_metrics u as) (rp_state p)" using inv by (auto simp: run_inv_def)
  have "loads_ok u as l" using inv l(1) rates_inv_partial [OF n(2,1)] by (cases "rp_loads p") (auto simp: run_inv_def)
  then have "run_inv u db run as p'" using inv l(2) by (simp add: run_inv_def)
  from run_inv_same [OF this, of TickLoad p'] show ?thesis by (simp add: note_metrics_def)
qed

lemma run_inv_store:
  assumes inv: "run_inv u db (ru_ID r) as p" and run: "latest_run (db_runs db) = Inr r" and f: "f ''GetRateByRun'' \<noteq> Some ErrNoRows"
    and step: "rate_step u (TickStore f reopen now) p = Some (Ok p')"
  shows "run_inv u db (ru_ID r) (as @ [TickStore f reopen now]) p'"
proof -
  obtain b e er br where l: "rp_loads p = LoadedAll b e er br" using step by (auto split: loads.splits)
  obtain db' err where w: "writeRateData f now (b, e, er, br) (rp_db p) = (db', err)" by force
  have "latest_run (db_runs (rp_db p)) = Inr r" "length (own_rates (ru_ID r) (rp_db p)) \<le> 1" using inv run by (simp_all add: run_inv_def)
  note row = writeRateData_row [OF this f w]
  have p': "rp_state p' = rp_state p" "rp_loads p' = NoLoad" "rp_db p' = db'"
    using step l w by (auto simp: update_tick_def split: if_splits option.splits)
  have "length (own_rates (ru_ID r) db') \<le> 1" using row(3,4) inv by (cases err) (auto simp: run_inv_def)
  then have "run_inv u db (ru_ID r) as p'" using inv p' row(1,2) by (simp add: run_inv_def)
  from run_inv_same [OF this, of "TickStore f reopen now" p'] show ?thesis by (simp add: note_metrics_def)
qed

lemma run_inv_step:
  assumes "run_inv u db (ru_ID r) as p" "latest_run (db_runs db) = Inr r" "honest a" "rate_step u a p = Some (Ok p')"
  shows "run_inv u db (ru_ID r) (as @ [a]) p'"
proof (cases a)
  case (Publication d ro)
  with run_inv_publication assms show ?thesis by blast
next
  case TotalWrite
  then obtain w ws where "rr_pending (rp_state p) = w # ws" "p' = p\<lparr>rp_state := (write_total w (rp_state p))\<lparr>rr_pending := ws\<rparr>\<rparr>"
    using assms(4) by (auto split: list.splits)
  with run_inv_same [OF assms(1), of TotalWrite p'] rates_inv_write show ?thesis by (simp add: TotalWrite note_metrics_def)
next
  case TickLoad
  with run_inv_load assms show ?thesis by blast
next
  case (TickStore f reopen now)
  with run_inv_store [OF assms(1,2)] assms(3,4) show ?thesis by (simp add: honest_def)
qed

lemma rate_run_append:
  "rate_run u (as @ bs) p = (case rate_run u as p of Some (Ok p') \<Rightarrow> rate_run u bs p' | r \<Rightarrow> r)"
  by (induction as arbitrary: p) (auto split: option.splits outcome.splits)

lemma rate_run_inv:
  assumes "latest_run (db_runs db) = Inr r" "length (own_rates (ru_ID r) db) \<le> 1" "list_all honest as"
    and "rate_run u as (rate_start db) = Some (Ok p)"
  shows "run_inv u db (ru_ID r) as p"
  using assms(3,4)
proof (induction as arbitrary: p rule: rev_induct)
  case Nil
  then show ?case using assms(2) rates_inv_init by (auto simp: run_inv_def rate_start_def gdc_metrics_def)
next
  case (snoc a as)
  then obtain q where "rate_run u as (rate_start db) = Some (Ok q)" "rate_step u a q = Some (Ok p)"
    by (auto simp: rate_run_append split: option.splits outcome.splits)
  with snoc run_inv_step [OF _ assms(1)] show ?case by simp
qed

text \<open>Nothing writes to a total or finishes a tick.\<close>

definition leaves_totals :: "rate_action \<Rightarrow> bool" where
  "leaves_totals a \<longleftrightarrow> (case a of TotalWrite \<Rightarrow> False | TickStore f reopen now \<Rightarrow> False | _ \<Rightarrow> True)"

fun loads_of :: "rate_state \<Rightarrow> loads \<Rightarrow> bool" where
  "loads_of s NoLoad \<longleftrightarrow> True"
| "loads_of s (LoadedBytes b) \<longleftrightarrow> b = rr_totalBytes s"
| "loads_of s (LoadedEvents b e) \<longleftrightarrow> b = rr_totalBytes s \<and> e = rr_totalEvents s"
| "loads_of s (LoadedEventRate b e er) \<longleftrightarrow> b = rr_totalBytes s \<and> e = rr_totalEvents s \<and> er = rr_totalEventRate s"
| "loads_of s (LoadedAll b e er br) \<longleftrightarrow>
     b = rr_totalBytes s \<and> e = rr_totalEvents s \<and> er = rr_totalEventRate s \<and> br = rr_totalByteRate s"

definition same_totals :: "rate_state \<Rightarrow> rate_state \<Rightarrow> bool" where
  "same_totals s s' \<longleftrightarrow> rr_totalBytes s' = rr_totalBytes s \<and> rr_totalEvents s' = rr_totalEvents s \<and>
     rr_totalEventRate s' = rr_totalEventRate s \<and> rr_totalByteRate s' = rr_totalByteRate s"

lemma quiet_step:
  assumes "loads_of s (rp_loads p)" "same_totals s (rp_state p)" "leaves_totals a" "rate_step u a p = Some (Ok p')"
  shows "loads_of s (rp_loads p') \<and> same_totals s (rp_state p')"
proof (cases a)
  case (Publication d ro)
  then show ?thesis using assms
    by (cases d) (auto simp: on_publication_def rate_fn_def same_totals_def Let_def split: if_splits outcome.splits option.splits sum.splits)
next
  case TickLoad
  then show ?thesis using assms by (cases "rp_loads p") (auto simp: same_totals_def)
qed (use assms(3) in \<open>simp_all add: leaves_totals_def\<close>)

lemma quiet_run:
  assumes "loads_of s (rp_loads p)" "same_totals s (rp_state p)" "list_all leaves_totals as" "rate_run u as p = Some (Ok p')"
  shows "loads_of s (rp_loads p')"
  using assms
proof (induction as arbitrary: p)
  case (Cons a as)
  then obtain q where "rate_step u a p = Some (Ok q)" "rate_run u as q = Some (Ok p')" by (auto split: option.splits outcome.splits)
  with Cons quiet_step [OF Cons.prems(1,2)] show ?case by auto
qed simp


text \<open>One GDC sends metrics twice and an LDC once; a tick between them fails.\<close>

definition example_metrics :: "int \<Rightarrow> Metrics" where
  "example_metrics n = \<lparr>mt_EventCounter = n, mt_ByteCounter = 100 * n, mt_CurrentTrgRate = 1, mt_CurrentDataRate = 2,
     mt_AvgTrgRate = 3, mt_AvgDataRate = 4\<rparr>"

definition example_metric_message :: "string \<Rightarrow> int \<Rightarrow> rate_action" where
  "example_metric_message h n = Publication (Inr (Some \<lparr>ms_Host = h, ms_Type = MessageMetric,
     ms_Value = MetricsValue (example_metrics n), ms_StopProcesses = False, ms_RunNumber = 7\<rparr>))
     \<lparr>ro_bytes = [''gdc1''], ro_events = [''gdc1''], ro_byteRate = [''gdc1''], ro_eventRate = [''gdc1'']\<rparr>"

definition example_inputs :: "rate_action list" where
  "example_inputs = example_metric_message ''gdc1'' 5 # replicate 8 TotalWrite @ example_metric_message ''ldc1'' 9 # replicate 4 TickLoad @
     TickStore (\<lambda>q. Some ''connection refused'') None 10 # example_metric_message ''gdc1'' 6 # replicate 8 TotalWrite"

definition example_rates_db :: database where
  "example_rates_db = \<lparr>db_gdcs = [], db_next_gdc = 1, db_ldcs = [], db_next_ldc = 1, db_equipments = [], db_next_equipment = 1,
     db_runs = [\<lparr>ru_ID = 7, ru_Start = SqlNull 0 False, ru_Stop = SqlNull 0 False\<rparr>], db_next_run = 8,
     db_events = [], db_data = [], db_errors = [], db_duckParams = [], db_decoderParams = [], db_testDeviceParams = [],
     db_simulatorParams = [], db_topiParams = None, db_rates = []\<rparr>"

definition example_unmarshal :: "message_content \<Rightarrow> string + Metrics" where
  "example_unmarshal c = (case c of MetricsValue x \<Rightarrow> Inr x | _ \<Rightarrow> Inl ''invalid character'')"

lemma example_gdc_metrics: "gdc_metrics example_unmarshal example_inputs = [''gdc1'' \<mapsto> example_metrics 6]"
  by (simp add: gdc_metrics_def example_inputs_def example_metric_message_def note_metrics_def has_prefix_def fun_eq_iff example_unmarshal_def numeral_nat)

lemmas rate_defs = example_inputs_def example_metric_message_def example_unmarshal_def rate_start_def rate_init_def on_publication_def rate_fn_def
  has_prefix_def ranges_def total_writes_def update_tick_def writeRateData_def rate_getRun_def sql_GetLatestRun_def query_def

lemma example_inputs_run:
  "\<exists>p1 p. rate_run example_unmarshal example_inputs (rate_start example_rates_db) = Some (Ok p1) \<and> rr_pending (rp_state p1) = [] \<and> rp_loads p1 = NoLoad \<and>
     rp_connected p1 \<and>
     rate_run example_unmarshal (example_inputs @ replicate 4 TickLoad) (rate_start example_rates_db) = Some (Ok p)"
  by (simp add: rate_defs numeral_nat gm_set_def gm_empty_def gm_get_or_def gm_get_def Let_def)


text \<open>A tick in the middle of a message stores a row without the bytes and the events of the run.\<close>

lemma tick_during_message:
  "\<exists>p. rate_run example_unmarshal (example_inputs @ [example_metric_message ''gdc1'' 7, TotalWrite] @ [TickLoad, TotalWrite, TotalWrite] @
       replicate 3 TickLoad @ [TickStore no_faults None 30]) (rate_start example_rates_db) = Some (Ok p) \<and>
     own_rates 7 (rp_db p) = [\<lparr>ra_Run = 7, ra_LastUpdate = 30, ra_Bytes = 0, ra_Events = 0, ra_Avgtriggerrate = 3, ra_Avgbyterate = 4\<rparr>]"
  by (simp add: rate_defs numeral_nat gm_set_def gm_empty_def gm_get_or_def gm_get_def Let_def own_rates_def example_rates_db_def latest_run_def
      first_row_def sql_GetRateByRun_def sql_InsertRate_def row_get_def rate_row_def no_faults_def example_metrics_def ErrNoRows_def)

end
