(* ===== verification/Rpc_Routing.thy ===== *)
theory Rpc_Routing
  imports Duck_Prelude
begin

text \<open>
  How a call gets from a client to the method that serves it: the clients and handlers of the two services
  (\<open>src/rpc/api/apiconnect/api.connect.go\<close>, \<open>src/rpc/control/controlconnect/control.connect.go\<close>), the router of the
  processes, and the middleware of the API (\<open>src/api/server.go\<close>).

  Of \<open>net/http\<close> the theory has what the program uses: the response writer, \<open>ServeMux\<close> with patterns that have no host and no
  method, \<open>StripPrefix\<close> and \<open>NotFound\<close>. A path is one without percent escapes. What a method does with the request (connect's
  decoding and the handlers of the other theories) is a parameter: a function on the exchange and the state of the process.

  The locale \<open>rpc_service\<close> is the contract of a generated service; the lemmas that a call is routed to its method, and that no
  other path reaches a method, are proved in it and used for both services.
\<close>

section \<open>Definitions\<close>

subsection \<open>Requests and responses (net/http)\<close>

record http_request =
  rq_Method :: string
  rq_Path :: string
  rq_RequestURI :: string
  rq_RemoteAddr :: string
  rq_Body :: string

record 'w exchange =
  ex_headers :: "(string, string) go_map"
  ex_status :: "int option"
  ex_body :: string
  ex_log :: "string list"
  ex_state :: 'w

type_synonym 'w handler = "http_request \<Rightarrow> 'w exchange \<Rightarrow> 'w exchange"

definition set_header :: "string \<Rightarrow> string \<Rightarrow> 'w exchange \<Rightarrow> 'w exchange" where
  "set_header k v x = x\<lparr>ex_headers := gm_set k v (ex_headers x)\<rparr>"

text \<open>Only the first \<open>WriteHeader\<close> counts; \<open>Write\<close> sends status 200 when none was sent.\<close>

definition WriteHeader :: "int \<Rightarrow> 'w exchange \<Rightarrow> 'w exchange" where
  "WriteHeader code x = (case ex_status x of None \<Rightarrow> x\<lparr>ex_status := Some code\<rparr> | Some _ \<Rightarrow> x)"

definition write_body :: "string \<Rightarrow> 'w exchange \<Rightarrow> 'w exchange" where
  "write_body s x = (let x1 = WriteHeader 200 x in x1\<lparr>ex_body := ex_body x1 @ s\<rparr>)"

definition http_NotFound :: "'w handler" where
  "http_NotFound r x =
     write_body (''404 page not found'' @ [CHR 0x0A])
       (WriteHeader 404 (set_header ''X-Content-Type-Options'' ''nosniff''
         (set_header ''Content-Type'' ''text/plain; charset=utf-8'' x)))"

text \<open>A redirect answers 301 with the new location (the page that goes with it for GET is left out).\<close>

definition http_Redirect :: "string \<Rightarrow> 'w handler" where
  "http_Redirect location r x = WriteHeader 301 (set_header ''Location'' location x)"

definition StripPrefix :: "string \<Rightarrow> 'w handler \<Rightarrow> 'w handler" where
  "StripPrefix prefix h r x =
     (if has_prefix (rq_Path r) prefix \<and> prefix \<noteq> [] then h (r\<lparr>rq_Path := drop (length prefix) (rq_Path r)\<rparr>) x
      else http_NotFound r x)"

subsection \<open>The router (net/http ServeMux)\<close>

fun split_slash :: "string \<Rightarrow> string list" where
  "split_slash [] = [[]]"
| "split_slash (c # s) =
     (if c = CHR ''/'' then [] # split_slash s
      else case split_slash s of [] \<Rightarrow> [[c]] | w # ws \<Rightarrow> (c # w) # ws)"

definition clean_step :: "string list \<Rightarrow> string \<Rightarrow> string list" where
  "clean_step acc s =
     (if s = [] \<or> s = ''.'' then acc else if s = ''..'' then butlast acc else acc @ [s])"

text \<open>\<open>cleanPath\<close>: no empty, \<open>.\<close> or \<open>..\<close> segments; a slash at the end stays.\<close>

definition cleanPath :: "string \<Rightarrow> string" where
  "cleanPath p =
     (if p = [] then ''/''
      else
        let np = concat (map (\<lambda>s. CHR ''/'' # s) (foldl clean_step [] (split_slash p)));
            np = (if np = [] then ''/'' else np)
        in if last p = CHR ''/'' \<and> np \<noteq> ''/'' then np @ ''/'' else np)"

type_synonym 'w mux = "(string \<times> 'w handler) list"

text \<open>
  A pattern that ends in a slash matches all paths below it, any other pattern only itself. The longest match wins.
\<close>

definition pattern_matches :: "string \<Rightarrow> string \<Rightarrow> bool" where
  "pattern_matches pat path \<longleftrightarrow> path = pat \<or> (has_suffix pat ''/'' \<and> has_prefix path pat)"

definition mux_match :: "'w mux \<Rightarrow> string \<Rightarrow> (string \<times> 'w handler) option" where
  "mux_match mux path =
     foldl (\<lambda>best (pat, h). if pattern_matches pat path \<and>
         (case best of None \<Rightarrow> True | Some (pat', _) \<Rightarrow> length pat' < length pat) then Some (pat, h) else best) None mux"

definition registered :: "'w mux \<Rightarrow> string \<Rightarrow> bool" where
  "registered mux path \<longleftrightarrow> path \<in> fst ` set mux"

text \<open>
  \<open>/tree\<close> is redirected to \<open>/tree/\<close> when only the latter is registered, and every other path that is not clean to its clean form.
  A CONNECT request is not cleaned.
\<close>

definition mux_serve :: "'w mux \<Rightarrow> 'w handler" where
  "mux_serve mux r x =
     (if rq_RequestURI r = ''*'' then WriteHeader 400 (set_header ''Connection'' ''close'' x)
      else
        let path = (if rq_Method r = ''CONNECT'' then rq_Path r else cleanPath (rq_Path r))
        in if \<not> registered mux path \<and> \<not> has_suffix path ''/'' \<and> registered mux (path @ ''/'')
           then http_Redirect (path @ ''/'') r x
           else if path \<noteq> rq_Path r then http_Redirect path r x
           else case mux_match mux path of None \<Rightarrow> http_NotFound r x | Some (_, h) \<Rightarrow> h r x)"

subsection \<open>Clients and handlers of the services (api.connect.go, control.connect.go)\<close>

text \<open>\<open>strings.TrimRight(baseURL, "/")\<close>\<close>

definition trim_right_slash :: "string \<Rightarrow> string" where
  "trim_right_slash s = rev (dropWhile (\<lambda>c. c = CHR ''/'') (rev s))"

text \<open>The path of a URL \<open>scheme://authority/path\<close>.\<close>

definition url_path :: "string \<Rightarrow> string" where
  "url_path url = dropWhile (\<lambda>c. c \<noteq> CHR ''/'') (drop 2 (dropWhile (\<lambda>c. c \<noteq> CHR ''/'') url))"

text \<open>A \<open>switch\<close> over the procedures, in the order of the cases.\<close>

definition serve_switch :: "('p \<Rightarrow> string) \<Rightarrow> 'p list \<Rightarrow> ('p \<Rightarrow> 'w handler) \<Rightarrow> 'w handler" where
  "serve_switch procedure cases svc r x =
     (case find (\<lambda>p. procedure p = rq_Path r) cases of None \<Rightarrow> http_NotFound r x | Some p \<Rightarrow> svc p r x)"

datatype connect_code = CodeCanceled | CodeUnknown | CodeInvalidArgument | CodeDeadlineExceeded | CodeNotFound
  | CodeAlreadyExists | CodePermissionDenied | CodeResourceExhausted | CodeFailedPrecondition | CodeAborted
  | CodeOutOfRange | CodeUnimplemented | CodeInternal | CodeUnavailable | CodeDataLoss | CodeUnauthenticated

paragraph \<open>DuckAPI\<close>

datatype DuckAPI_rpc =
    RpcStartRun | RpcStopRun | RpcForceStopRun | RpcGetProcessStates | RpcRestartServices |
    RpcGetRunTransitionStatus | RpcCreateGDC | RpcGetGDCs | RpcGetGDC | RpcUpdateGDC | RpcDeleteGDC | RpcCreateLDC |
    RpcGetLDCs | RpcGetLDC | RpcUpdateLDC | RpcDeleteLDC | RpcCreateEquipment | RpcGetEquipments | RpcGetEquipment |
    RpcUpdateEquipment | RpcDeleteEquipment | RpcGetDecoderConfiguration | RpcUpdateDecoderConfiguration |
    RpcGetTopiConfiguration | RpcUpdateTopiConfiguration | RpcListTopiConfigurations | RpcGetRunNumber |
    RpcCheckDisabled | RpcGetToken | RpcStartTestDevices | RpcStopTestDevices | RpcGetTestDevicesStates |
    RpcListTestDevices | RpcGetTestDeviceStatistics

definition DuckAPIName :: string where
  "DuckAPIName = ''apiService.DuckAPI''"

fun DuckAPI_procedure :: "DuckAPI_rpc \<Rightarrow> string" where
  "DuckAPI_procedure RpcStartRun = ''/apiService.DuckAPI/StartRun''"
| "DuckAPI_procedure RpcStopRun = ''/apiService.DuckAPI/StopRun''"
| "DuckAPI_procedure RpcForceStopRun = ''/apiService.DuckAPI/ForceStopRun''"
| "DuckAPI_procedure RpcGetProcessStates = ''/apiService.DuckAPI/GetProcessStates''"
| "DuckAPI_procedure RpcRestartServices = ''/apiService.DuckAPI/RestartServices''"
| "DuckAPI_procedure RpcGetRunTransitionStatus = ''/apiService.DuckAPI/GetRunTransitionStatus''"
| "DuckAPI_procedure RpcCreateGDC = ''/apiService.DuckAPI/CreateGDC''"
| "DuckAPI_procedure RpcGetGDCs = ''/apiService.DuckAPI/GetGDCs''"
| "DuckAPI_procedure RpcGetGDC = ''/apiService.DuckAPI/GetGDC''"
| "DuckAPI_procedure RpcUpdateGDC = ''/apiService.DuckAPI/UpdateGDC''"
| "DuckAPI_procedure RpcDeleteGDC = ''/apiService.DuckAPI/DeleteGDC''"
| "DuckAPI_procedure RpcCreateLDC = ''/apiService.DuckAPI/CreateLDC''"
| "DuckAPI_procedure RpcGetLDCs = ''/apiService.DuckAPI/GetLDCs''"
| "DuckAPI_procedure RpcGetLDC = ''/apiService.DuckAPI/GetLDC''"
| "DuckAPI_procedure RpcUpdateLDC = ''/apiService.DuckAPI/UpdateLDC''"
| "DuckAPI_procedure RpcDeleteLDC = ''/apiService.DuckAPI/DeleteLDC''"
| "DuckAPI_procedure RpcCreateEquipment = ''/apiService.DuckAPI/CreateEquipment''"
| "DuckAPI_procedure RpcGetEquipments = ''/apiService.DuckAPI/GetEquipments''"
| "DuckAPI_procedure RpcGetEquipment = ''/apiService.DuckAPI/GetEquipment''"
| "DuckAPI_procedure RpcUpdateEquipment = ''/apiService.DuckAPI/UpdateEquipment''"
| "DuckAPI_procedure RpcDeleteEquipment = ''/apiService.DuckAPI/DeleteEquipment''"
| "DuckAPI_procedure RpcGetDecoderConfiguration = ''/apiService.DuckAPI/GetDecoderConfiguration''"
| "DuckAPI_procedure RpcUpdateDecoderConfiguration = ''/apiService.DuckAPI/UpdateDecoderConfiguration''"
| "DuckAPI_procedure RpcGetTopiConfiguration = ''/apiService.DuckAPI/GetTopiConfiguration''"
| "DuckAPI_procedure RpcUpdateTopiConfiguration = ''/apiService.DuckAPI/UpdateTopiConfiguration''"
| "DuckAPI_procedure RpcListTopiConfigurations = ''/apiService.DuckAPI/ListTopiConfigurations''"
| "DuckAPI_procedure RpcGetRunNumber = ''/apiService.DuckAPI/GetRunNumber''"
| "DuckAPI_procedure RpcCheckDisabled = ''/apiService.DuckAPI/CheckDisabled''"
| "DuckAPI_procedure RpcGetToken = ''/apiService.DuckAPI/GetToken''"
| "DuckAPI_procedure RpcStartTestDevices = ''/apiService.DuckAPI/StartTestDevices''"
| "DuckAPI_procedure RpcStopTestDevices = ''/apiService.DuckAPI/StopTestDevices''"
| "DuckAPI_procedure RpcGetTestDevicesStates = ''/apiService.DuckAPI/GetTestDevicesStates''"
| "DuckAPI_procedure RpcListTestDevices = ''/apiService.DuckAPI/ListTestDevices''"
| "DuckAPI_procedure RpcGetTestDeviceStatistics = ''/apiService.DuckAPI/GetTestDeviceStatistics''"

text \<open>The names in the schema; the methods of the handler that implements nothing answer with them.\<close>

fun DuckAPI_method :: "DuckAPI_rpc \<Rightarrow> string" where
  "DuckAPI_method RpcStartRun = ''StartRun''"
| "DuckAPI_method RpcStopRun = ''StopRun''"
| "DuckAPI_method RpcForceStopRun = ''ForceStopRun''"
| "DuckAPI_method RpcGetProcessStates = ''GetProcessStates''"
| "DuckAPI_method RpcRestartServices = ''RestartServices''"
| "DuckAPI_method RpcGetRunTransitionStatus = ''GetRunTransitionStatus''"
| "DuckAPI_method RpcCreateGDC = ''CreateGDC''"
| "DuckAPI_method RpcGetGDCs = ''GetGDCs''"
| "DuckAPI_method RpcGetGDC = ''GetGDC''"
| "DuckAPI_method RpcUpdateGDC = ''UpdateGDC''"
| "DuckAPI_method RpcDeleteGDC = ''DeleteGDC''"
| "DuckAPI_method RpcCreateLDC = ''CreateLDC''"
| "DuckAPI_method RpcGetLDCs = ''GetLDCs''"
| "DuckAPI_method RpcGetLDC = ''GetLDC''"
| "DuckAPI_method RpcUpdateLDC = ''UpdateLDC''"
| "DuckAPI_method RpcDeleteLDC = ''DeleteLDC''"
| "DuckAPI_method RpcCreateEquipment = ''CreateEquipment''"
| "DuckAPI_method RpcGetEquipments = ''GetEquipments''"
| "DuckAPI_method RpcGetEquipment = ''GetEquipment''"
| "DuckAPI_method RpcUpdateEquipment = ''UpdateEquipment''"
| "DuckAPI_method RpcDeleteEquipment = ''DeleteEquipment''"
| "DuckAPI_method RpcGetDecoderConfiguration = ''GetDecoderConfiguration''"
| "DuckAPI_method RpcUpdateDecoderConfiguration = ''UpdateDecoderConfiguration''"
| "DuckAPI_method RpcGetTopiConfiguration = ''GetTopiConfiguration''"
| "DuckAPI_method RpcUpdateTopiConfiguration = ''UpdateTopiConfiguration''"
| "DuckAPI_method RpcListTopiConfigurations = ''ListTopiConfigurations''"
| "DuckAPI_method RpcGetRunNumber = ''GetRunNumber''"
| "DuckAPI_method RpcCheckDisabled = ''CheckDisabled''"
| "DuckAPI_method RpcGetToken = ''GetToken''"
| "DuckAPI_method RpcStartTestDevices = ''StartTestDevices''"
| "DuckAPI_method RpcStopTestDevices = ''StopTestDevices''"
| "DuckAPI_method RpcGetTestDevicesStates = ''GetTestDevicesStates''"
| "DuckAPI_method RpcListTestDevices = ''ListTestDevices''"
| "DuckAPI_method RpcGetTestDeviceStatistics = ''GetTestDeviceStatistics''"

text \<open>Every field of the client is made with the URL of its own procedure, and its method calls that field.\<close>

definition NewDuckAPIClient :: "string \<Rightarrow> DuckAPI_rpc \<Rightarrow> string" where
  "NewDuckAPIClient baseURL p = trim_right_slash baseURL @ DuckAPI_procedure p"

definition DuckAPI_cases :: "DuckAPI_rpc list" where
  "DuckAPI_cases = [
     RpcStartRun, RpcStopRun, RpcForceStopRun, RpcGetProcessStates, RpcRestartServices, RpcGetRunTransitionStatus,
     RpcCreateGDC, RpcGetGDCs, RpcGetGDC, RpcUpdateGDC, RpcDeleteGDC, RpcCreateLDC, RpcGetLDCs, RpcGetLDC,
     RpcUpdateLDC, RpcDeleteLDC, RpcCreateEquipment, RpcGetEquipments, RpcGetEquipment, RpcUpdateEquipment,
     RpcDeleteEquipment, RpcGetDecoderConfiguration, RpcUpdateDecoderConfiguration, RpcGetTopiConfiguration,
     RpcUpdateTopiConfiguration, RpcListTopiConfigurations, RpcGetRunNumber, RpcCheckDisabled, RpcGetToken,
     RpcStartTestDevices, RpcStopTestDevices, RpcGetTestDevicesStates, RpcListTestDevices, RpcGetTestDeviceStatistics]"

definition NewDuckAPIHandler :: "(DuckAPI_rpc \<Rightarrow> 'w handler) \<Rightarrow> string \<times> 'w handler" where
  "NewDuckAPIHandler svc = (''/apiService.DuckAPI/'', serve_switch DuckAPI_procedure DuckAPI_cases svc)"

definition UnimplementedDuckAPIHandler :: "DuckAPI_rpc \<Rightarrow> connect_code \<times> string" where
  "UnimplementedDuckAPIHandler p = (CodeUnimplemented, ''apiService.DuckAPI.'' @ DuckAPI_method p @ '' is not implemented'')"

paragraph \<open>RunControl\<close>

datatype RunControl_rpc = CtlStartRun | CtlStopRun | CtlGetState | CtlPingDevices | CtlGetRunStatistics

definition RunControlName :: string where
  "RunControlName = ''rpcControl.RunControl''"

fun RunControl_procedure :: "RunControl_rpc \<Rightarrow> string" where
  "RunControl_procedure CtlStartRun = ''/rpcControl.RunControl/StartRun''"
| "RunControl_procedure CtlStopRun = ''/rpcControl.RunControl/StopRun''"
| "RunControl_procedure CtlGetState = ''/rpcControl.RunControl/GetState''"
| "RunControl_procedure CtlPingDevices = ''/rpcControl.RunControl/PingDevices''"
| "RunControl_procedure CtlGetRunStatistics = ''/rpcControl.RunControl/GetRunStatistics''"

fun RunControl_method :: "RunControl_rpc \<Rightarrow> string" where
  "RunControl_method CtlStartRun = ''StartRun''"
| "RunControl_method CtlStopRun = ''StopRun''"
| "RunControl_method CtlGetState = ''GetState''"
| "RunControl_method CtlPingDevices = ''PingDevices''"
| "RunControl_method CtlGetRunStatistics = ''GetRunStatistics''"

definition NewRunControlClient :: "string \<Rightarrow> RunControl_rpc \<Rightarrow> string" where
  "NewRunControlClient baseURL p = trim_right_slash baseURL @ RunControl_procedure p"

definition RunControl_cases :: "RunControl_rpc list" where
  "RunControl_cases = [CtlStartRun, CtlStopRun, CtlGetState, CtlPingDevices, CtlGetRunStatistics]"

definition NewRunControlHandler :: "(RunControl_rpc \<Rightarrow> 'w handler) \<Rightarrow> string \<times> 'w handler" where
  "NewRunControlHandler svc = (''/rpcControl.RunControl/'', serve_switch RunControl_procedure RunControl_cases svc)"

definition UnimplementedRunControlHandler :: "RunControl_rpc \<Rightarrow> connect_code \<times> string" where
  "UnimplementedRunControlHandler p =
     (CodeUnimplemented, ''rpcControl.RunControl.'' @ RunControl_method p @ '' is not implemented'')"

subsection \<open>The servers\<close>

text \<open>The HTTP server of an LDC, a GDC and the device simulator, and the address the API calls it at (rpc.go).\<close>

definition control_mux :: "(RunControl_rpc \<Rightarrow> 'w handler) \<Rightarrow> 'w mux" where
  "control_mux svc = [NewRunControlHandler svc]"

definition rpc_baseURL :: "string \<Rightarrow> int \<Rightarrow> string" where
  "rpc_baseURL ip port = ''http://'' @ ip @ '':'' @ show_int port"

text \<open>The middleware and the routes of the API (server.go).\<close>

definition cors_headers :: "'w exchange \<Rightarrow> 'w exchange" where
  "cors_headers x =
     set_header ''Access-Control-Expose-Headers'' ''Connect-Protocol-Version, Connect-Timeout-Ms''
       (set_header ''Access-Control-Allow-Methods'' ''GET, POST, PUT, DELETE, OPTIONS''
         (set_header ''Access-Control-Allow-Headers'' ''Origin, Content-Type, Accept, Connect-Protocol-Version, Connect-Timeout-Ms''
           (set_header ''Access-Control-Allow-Origin'' ''*'' x)))"

definition corsMiddleware :: "'w handler \<Rightarrow> 'w handler" where
  "corsMiddleware next r x =
     (let x1 = cors_headers x
      in if rq_Method r = ''OPTIONS'' then WriteHeader 200 x1 else next r x1)"

definition loggingMiddleware :: "'w handler \<Rightarrow> 'w handler" where
  "loggingMiddleware next r x =
     next r (x\<lparr>ex_log := ex_log x @ [''method='' @ rq_Method r @ '', uri='' @ rq_RequestURI r @ '', remote_ip='' @ rq_RemoteAddr r]\<rparr>)"

definition health :: "'w handler" where
  "health r x = write_body ''OK'' (WriteHeader 200 x)"

definition api_mux :: "(DuckAPI_rpc \<Rightarrow> 'w handler) \<Rightarrow> 'w handler \<Rightarrow> 'w mux" where
  "api_mux svc metrics =
     (let pathPrefix = ''/daq''; (path, handler) = NewDuckAPIHandler svc
      in [(pathPrefix @ path, StripPrefix pathPrefix handler), (pathPrefix @ ''/health'', health), (''/health'', health),
          (''/metrics'', metrics)])"

definition api_serve :: "(DuckAPI_rpc \<Rightarrow> 'w handler) \<Rightarrow> 'w handler \<Rightarrow> 'w handler" where
  "api_serve svc metrics = loggingMiddleware (corsMiddleware (mux_serve (api_mux svc metrics)))"

section \<open>Paths and URLs\<close>

lemma has_prefix_append [simp]: "has_prefix (a @ b) a"
  by (simp add: has_prefix_def)

lemma has_prefix_ex: "has_prefix s p \<longleftrightarrow> (\<exists>t. s = p @ t)"
  unfolding has_prefix_def by (metis append_eq_conv_conj append_take_drop_id)

lemma has_suffix_ex: "has_suffix s p \<longleftrightarrow> (\<exists>t. s = t @ p)"
proof
  assume "has_suffix s p"
  then show "\<exists>t. s = t @ p" unfolding has_suffix_def by (metis append_take_drop_id)
qed (auto simp: has_suffix_def)

text \<open>A segment of a path that is its own clean form.\<close>

definition plain_segment :: "string \<Rightarrow> bool" where
  "plain_segment s \<longleftrightarrow> s \<noteq> [] \<and> s \<noteq> ''.'' \<and> s \<noteq> ''..'' \<and> CHR ''/'' \<notin> set s"

definition path_of :: "string list \<Rightarrow> string" where
  "path_of segs = concat (map (\<lambda>s. CHR ''/'' # s) segs)"

lemma split_slash_nonempty: "split_slash s \<noteq> []"
  by (cases s) (auto split: list.split)

lemma split_slash_segment: "CHR ''/'' \<notin> set s \<Longrightarrow> split_slash (s @ CHR ''/'' # t) = s # split_slash t"
  by (induction s) auto

lemma split_slash_last: "CHR ''/'' \<notin> set s \<Longrightarrow> split_slash s = [s]"
  by (induction s) auto

lemma split_slash_path_of:
  assumes "list_all (\<lambda>s. CHR ''/'' \<notin> set s) segs" "segs \<noteq> []"
  shows "split_slash (path_of segs) = [] # segs"
proof -
  have "split_slash (a @ path_of segs) = a # segs" if "CHR ''/'' \<notin> set a" "list_all (\<lambda>s. CHR ''/'' \<notin> set s) segs" for a segs
    using that
  proof (induction segs arbitrary: a)
    case (Cons b segs)
    then show ?case by (simp add: path_of_def split_slash_segment)
  qed (simp add: path_of_def split_slash_last)
  from this [of "[]" segs] show ?thesis using assms by simp
qed

lemma cleanPath_plain:
  assumes "list_all plain_segment segs" "segs \<noteq> []"
  shows "cleanPath (path_of segs) = path_of segs"
proof -
  have fold: "foldl clean_step acc segs = acc @ segs" for acc
    using assms(1) by (induction segs arbitrary: acc) (auto simp: clean_step_def plain_segment_def)
  obtain ys y where ys: "segs = ys @ [y]" using assms(2) by (metis rev_exhaust)
  have "y \<noteq> []" "CHR ''/'' \<notin> set y" using assms(1) by (auto simp: ys plain_segment_def)
  then have "last (path_of segs) \<noteq> CHR ''/''" by (simp add: ys path_of_def) (metis last_in_set)
  moreover have "path_of segs \<noteq> []" using assms(2) by (cases segs) (simp_all add: path_of_def)
  moreover have "list_all (\<lambda>s. CHR ''/'' \<notin> set s) segs" using assms(1) by (auto simp: list_all_iff plain_segment_def)
  ultimately show ?thesis
    using fold [of "[]"] by (simp add: cleanPath_def split_slash_path_of assms(2) clean_step_def Let_def path_of_def [symmetric])
qed

lemma trim_right_slash_plain: "s \<noteq> [] \<Longrightarrow> last s \<noteq> CHR ''/'' \<Longrightarrow> trim_right_slash s = s"
  by (cases s rule: rev_cases) (simp_all add: trim_right_slash_def)

lemma url_path_http:
  assumes "CHR ''/'' \<notin> set authority"
  shows "url_path (''http://'' @ authority @ CHR ''/'' # p) = CHR ''/'' # p"
proof -
  have "dropWhile (\<lambda>c. c \<noteq> CHR ''/'') (authority @ CHR ''/'' # p) = CHR ''/'' # p"
    using assms by (induction authority) auto
  then show ?thesis by (simp add: url_path_def)
qed

section \<open>The contract of a service\<close>

locale rpc_service =
  fixes service :: string and procedure :: "'p \<Rightarrow> string" and cases :: "'p list" and method_name :: "'p \<Rightarrow> string"
  assumes procedure_path: "procedure p = path_of [service, method_name p]"
    and all_cases: "p \<in> set cases"
    and distinct_procedures: "distinct (map procedure cases)"
    and plain: "plain_segment service" "plain_segment (method_name p)"
begin

lemma procedure_inj: "procedure p = procedure q \<Longrightarrow> p = q"
  using distinct_procedures all_cases by (metis distinct_map inj_onD)

lemma switch_serves: "rq_Path r = procedure p \<Longrightarrow> serve_switch procedure cases svc r x = svc p r x"
proof -
  assume r: "rq_Path r = procedure p"
  have "find (\<lambda>q. procedure q = rq_Path r) cases \<noteq> None"
    using all_cases [of p] by (auto simp: find_None_iff r)
  then obtain q where q: "find (\<lambda>q. procedure q = rq_Path r) cases = Some q" by auto
  then have "procedure q = rq_Path r" by (auto simp: find_Some_iff)
  then have "q = p" using r procedure_inj by auto
  with q show ?thesis by (simp add: serve_switch_def)
qed

lemma switch_other: "rq_Path r \<notin> range procedure \<Longrightarrow> serve_switch procedure cases svc r x = http_NotFound r x"
  by (auto simp: serve_switch_def find_None_iff split: option.split dest: sym)
    (metis (mono_tags, lifting) find_Some_iff rangeI)

lemma clean_procedure: "list_all plain_segment pre \<Longrightarrow> cleanPath (path_of pre @ procedure p) = path_of pre @ procedure p"
proof -
  assume pre: "list_all plain_segment pre"
  have "path_of pre @ procedure p = path_of (pre @ [service, method_name p])" by (simp add: procedure_path path_of_def)
  then show ?thesis using cleanPath_plain [of "pre @ [service, method_name p]"] pre plain by simp
qed

lemma procedure_no_slash_end: "\<not> has_suffix (pre @ procedure p) ''/''"
proof
  assume "has_suffix (pre @ procedure p) ''/''"
  then have "last (pre @ procedure p) = CHR ''/''" by (auto simp: has_suffix_ex)
  moreover have "method_name p \<noteq> []" "CHR ''/'' \<notin> set (method_name p)" using plain(2) [of p] by (auto simp: plain_segment_def)
  ultimately show False by (simp add: procedure_path path_of_def) (metis last_in_set)
qed

end

interpretation duckAPI: rpc_service DuckAPIName DuckAPI_procedure DuckAPI_cases DuckAPI_method
proof
  show "DuckAPI_procedure p = path_of [DuckAPIName, DuckAPI_method p]" for p
    by (cases p) (simp_all add: path_of_def DuckAPIName_def)
  show "p \<in> set DuckAPI_cases" for p
    by (cases p) (simp_all add: DuckAPI_cases_def)
  show "distinct (map DuckAPI_procedure DuckAPI_cases)"
    by (simp add: DuckAPI_cases_def)
  show "plain_segment DuckAPIName" by (simp add: plain_segment_def DuckAPIName_def)
  show "plain_segment (DuckAPI_method p)" for p by (cases p) (simp_all add: plain_segment_def)
qed

interpretation runControl: rpc_service RunControlName RunControl_procedure RunControl_cases RunControl_method
proof
  show "RunControl_procedure p = path_of [RunControlName, RunControl_method p]" for p
    by (cases p) (simp_all add: path_of_def RunControlName_def)
  show "p \<in> set RunControl_cases" for p
    by (cases p) (simp_all add: RunControl_cases_def)
  show "distinct (map RunControl_procedure RunControl_cases)"
    by (simp add: RunControl_cases_def)
  show "plain_segment RunControlName" by (simp add: plain_segment_def RunControlName_def)
  show "plain_segment (RunControl_method p)" for p by (cases p) (simp_all add: plain_segment_def)
qed

section \<open>Routing in the servers\<close>

text \<open>Two routers with the same patterns whose handlers do the same with a request answer it in the same way.\<close>

definition same_route :: "http_request \<Rightarrow> 'w exchange \<Rightarrow> string \<times> 'w handler \<Rightarrow> string \<times> 'w handler \<Rightarrow> bool" where
  "same_route r x = (\<lambda>(p, h) (q, k). p = q \<and> h r x = k r x)"

lemma mux_match_cong:
  assumes "list_all2 (same_route r x) mux mux'"
  shows "rel_option (same_route r x) (mux_match mux path) (mux_match mux' path)"
proof -
  define step where "step = (\<lambda>(best :: (string \<times> 'a handler) option) (pat, h). if pattern_matches pat path \<and>
         (case best of None \<Rightarrow> True | Some (pat', _) \<Rightarrow> length pat' < length pat) then Some (pat, h) else best)"
  have "rel_option (same_route r x) (foldl step b mux) (foldl step b' mux')" if "rel_option (same_route r x) b b'" for b b'
    using assms that
  proof (induction arbitrary: b b' rule: list_all2_induct)
    case (Cons a as c cs)
    have "rel_option (same_route r x) (step b a) (step b' c)"
      using Cons.hyps Cons.prems by (cases b; cases b') (auto simp: step_def same_route_def)
    then show ?case using Cons.IH by simp
  qed simp
  then show ?thesis by (simp add: mux_match_def step_def)
qed

lemma mux_serve_cong:
  assumes "list_all2 (same_route r x) mux mux'"
  shows "mux_serve mux r x = mux_serve mux' r x"
proof -
  have "map fst mux = map fst mux'" using assms by (induction rule: list_all2_induct) (auto simp: same_route_def)
  then have "registered mux = registered mux'" unfolding registered_def fun_eq_iff by (metis set_map)
  moreover have "(case mux_match mux path of None \<Rightarrow> http_NotFound r x | Some (_, h) \<Rightarrow> h r x) =
      (case mux_match mux' path of None \<Rightarrow> http_NotFound r x | Some (_, h) \<Rightarrow> h r x)" for path
    using mux_match_cong [OF assms, of path] by (cases "mux_match mux path"; cases "mux_match mux' path") (auto simp: same_route_def)
  ultimately show ?thesis by (simp add: mux_serve_def Let_def)
qed

text \<open>A single subtree pattern (the mux of an LDC or a GDC).\<close>

lemma control_call:
  assumes "rq_RequestURI r \<noteq> ''*''" "rq_Path r = RunControl_procedure p"
  shows "mux_serve (control_mux svc) r x = svc p r x"
proof -
  obtain m where m: "RunControl_procedure p = ''/rpcControl.RunControl/'' @ m"
    by (cases p) simp_all
  have clean: "cleanPath (RunControl_procedure p) = RunControl_procedure p"
    using runControl.clean_procedure [of "[]" p] by (simp add: path_of_def)
  have "mux_match (control_mux svc) (RunControl_procedure p) = Some (NewRunControlHandler svc)"
    by (simp add: mux_match_def control_mux_def NewRunControlHandler_def pattern_matches_def m has_suffix_def has_prefix_def)
  moreover have "\<not> registered (control_mux svc) (RunControl_procedure p @ ''/'')"
    by (cases p) (simp_all add: registered_def control_mux_def NewRunControlHandler_def)
  ultimately show ?thesis
    using assms clean runControl.switch_serves [of r p svc x]
    by (auto simp: mux_serve_def Let_def NewRunControlHandler_def)
qed

lemma control_other:
  assumes "rq_Path r \<notin> range RunControl_procedure"
  shows "mux_serve (control_mux svc) r x = mux_serve (control_mux svc') r x"
  by (intro mux_serve_cong)
    (simp add: control_mux_def NewRunControlHandler_def same_route_def runControl.switch_other [OF assms])

lemma show_nat_no_slash: "CHR ''/'' \<notin> set (show_nat n)"
proof (induction n rule: show_nat.induct)
  case (1 n)
  have digit: "digit_char d \<noteq> CHR ''/''" if "d < 10" for d
  proof
    assume "digit_char d = CHR ''/''"
    then have "of_char (digit_char d) = (47 :: nat)" by simp
    then show False using of_char_digit [OF that] by simp
  qed
  have "digit_char (n mod 10) \<noteq> CHR ''/''" by (rule digit) simp
  with 1 digit [of n] show ?case by (subst show_nat.simps) (auto simp del: show_nat.simps)
qed

lemma control_url:
  assumes "CHR ''/'' \<notin> set ip"
  shows "url_path (NewRunControlClient (rpc_baseURL ip port) q) = RunControl_procedure q"
proof -
  have digits: "CHR ''/'' \<notin> set (show_int port)" using show_nat_no_slash by (simp add: show_int_def)
  obtain m where m: "RunControl_procedure q = CHR ''/'' # m" by (cases q) simp_all
  have "last (rpc_baseURL ip port) \<noteq> CHR ''/''" using digits
    by (auto simp: rpc_baseURL_def dest: last_in_set split: if_splits)
  then have "trim_right_slash (rpc_baseURL ip port) = rpc_baseURL ip port"
    by (intro trim_right_slash_plain) (simp add: rpc_baseURL_def)
  then have "NewRunControlClient (rpc_baseURL ip port) q = ''http://'' @ (ip @ '':'' @ show_int port) @ CHR ''/'' # m"
    by (simp add: NewRunControlClient_def m) (simp add: rpc_baseURL_def)
  then show ?thesis using url_path_http [of "ip @ '':'' @ show_int port" m] assms digits by (simp add: m)
qed

definition api_log :: "http_request \<Rightarrow> 'w exchange \<Rightarrow> 'w exchange" where
  "api_log r x = x\<lparr>ex_log := ex_log x @ [''method='' @ rq_Method r @ '', uri='' @ rq_RequestURI r @ '', remote_ip='' @ rq_RemoteAddr r]\<rparr>"

lemma api_call:
  assumes "rq_RequestURI r \<noteq> ''*''" "rq_Method r \<noteq> ''OPTIONS''" "rq_Path r = ''/daq'' @ DuckAPI_procedure p"
  shows "api_serve svc metrics r x = svc p (r\<lparr>rq_Path := DuckAPI_procedure p\<rparr>) (cors_headers (api_log r x))"
proof -
  obtain m where m: "DuckAPI_procedure p = ''/apiService.DuckAPI/'' @ m"
    by (cases p) simp_all
  have clean: "cleanPath (''/daq'' @ DuckAPI_procedure p) = ''/daq'' @ DuckAPI_procedure p"
    using duckAPI.clean_procedure [of "[''daq'']" p] by (simp add: path_of_def plain_segment_def)
  have match: "mux_match (api_mux svc metrics) (''/daq'' @ DuckAPI_procedure p) =
      Some (''/daq/apiService.DuckAPI/'', StripPrefix ''/daq'' (snd (NewDuckAPIHandler svc)))"
    by (simp add: mux_match_def api_mux_def NewDuckAPIHandler_def pattern_matches_def m has_suffix_def has_prefix_def)
  have "\<not> registered (api_mux svc metrics) (''/daq'' @ DuckAPI_procedure p @ ''/'')"
    by (cases p) (simp_all add: registered_def api_mux_def NewDuckAPIHandler_def)
  then have "mux_serve (api_mux svc metrics) r y = StripPrefix ''/daq'' (snd (NewDuckAPIHandler svc)) r y" for y
    using assms(1,3) clean match by (auto simp: mux_serve_def Let_def)
  then show ?thesis
    using assms duckAPI.switch_serves [of "r\<lparr>rq_Path := DuckAPI_procedure p\<rparr>" p svc]
    by (simp add: api_serve_def loggingMiddleware_def corsMiddleware_def Let_def api_log_def StripPrefix_def has_prefix_def
        NewDuckAPIHandler_def)
qed

lemma strip_other:
  assumes "\<forall>p. rq_Path r \<noteq> ''/daq'' @ DuckAPI_procedure p"
  shows "StripPrefix ''/daq'' (serve_switch DuckAPI_procedure DuckAPI_cases svc) r x =
    StripPrefix ''/daq'' (serve_switch DuckAPI_procedure DuckAPI_cases svc') r x"
proof (cases "has_prefix (rq_Path r) ''/daq''")
  case True
  then obtain t where t: "rq_Path r = ''/daq'' @ t" by (auto simp: has_prefix_ex)
  then have "rq_Path (r\<lparr>rq_Path := t\<rparr>) \<notin> range DuckAPI_procedure" using assms by auto
  note other = duckAPI.switch_other [OF this]
  show ?thesis unfolding StripPrefix_def using other [of svc] other [of svc'] by (simp add: t)
qed (simp add: StripPrefix_def)

lemma api_other:
  assumes "rq_Method r = ''OPTIONS'' \<or> (\<forall>p. rq_Path r \<noteq> ''/daq'' @ DuckAPI_procedure p)"
  shows "api_serve svc metrics r x = api_serve svc' metrics r x"
proof (cases "rq_Method r = ''OPTIONS''")
  case False
  then have "\<forall>p. rq_Path r \<noteq> ''/daq'' @ DuckAPI_procedure p" using assms by blast
  note strip = strip_other [OF this, of svc _ svc']
  have "mux_serve (api_mux svc metrics) r y = mux_serve (api_mux svc' metrics) r y" for y
    by (intro mux_serve_cong) (simp add: api_mux_def NewDuckAPIHandler_def same_route_def strip)
  then show ?thesis by (simp add: api_serve_def loggingMiddleware_def corsMiddleware_def Let_def)
qed (simp add: api_serve_def loggingMiddleware_def corsMiddleware_def Let_def)


text \<open>A service whose methods write their name.\<close>

definition example_request :: "string \<Rightarrow> string \<Rightarrow> http_request" where
  "example_request m p = \<lparr>rq_Method = m, rq_Path = p, rq_RequestURI = p, rq_RemoteAddr = ''10.0.0.9:5000'', rq_Body = []\<rparr>"

definition example_exchange :: "unit exchange" where
  "example_exchange = \<lparr>ex_headers = gm_empty, ex_status = None, ex_body = [], ex_log = [], ex_state = ()\<rparr>"

definition example_api :: "DuckAPI_rpc \<Rightarrow> unit handler" where
  "example_api p r x = write_body (DuckAPI_method p) x"

definition example_ctl :: "RunControl_rpc \<Rightarrow> unit handler" where
  "example_ctl p r x = write_body (RunControl_method p) x"


end
