(* ===== verification/Sim_Replay.thy ===== *)
theory Sim_Replay
  imports Event_Dump Ldc_Equipment
begin

text \<open>
  The replay mode of the device simulator: the parser of raw data files
  (\<open>src/deviceSimulator/parser.go\<close>), the UDP sender (\<open>sender.go\<close>), its rate limiter and the replay
  loop (\<open>replay.go\<close>).

  The parser computes its offsets in \<open>uint32\<close>, and so does the model: sums wrap, and a slice whose
  bounds are out of range or out of order panics. Its walk over the sub-events advances by a size of
  the file and has fuel; \<open>None\<close> stands for a walk that has not ended.

  Inputs of the model: the results of the writes on the UDP connection (\<open>wr k\<close> for the \<open>k\<close>-th write),
  the clock of the rate limiter, what the \<open>select\<close> of the replay loop finds in each iteration, and
  the outcome of the seek back to the start of the file.
\<close>

section \<open>Definitions\<close>

subsection \<open>Slices\<close>

text \<open>\<open>s[a:b]\<close> with \<open>uint32\<close> or \<open>int\<close> bounds.\<close>

definition slice_u32 :: "bytes \<Rightarrow> u32 \<Rightarrow> u32 \<Rightarrow> bytes outcome" where
  "slice_u32 s a b = (if a \<le> b \<and> unat b \<le> length s then Ok (byte_slice (unat a) (unat b - unat a) s) else Panic)"

definition slice_int :: "bytes \<Rightarrow> int \<Rightarrow> int \<Rightarrow> bytes outcome" where
  "slice_int s a b =
     (if 0 \<le> a \<and> a \<le> b \<and> b \<le> int (length s) then Ok (byte_slice (nat a) (nat (b - a)) s) else Panic)"

subsection \<open>Parsing events (parser.go)\<close>

record sim_EventData =
  sev_EventID :: u32
  sev_Timestamp :: "64 word"
  sev_Equipments :: "(u32, bytes) go_map"

text \<open>What a step of the parser returns: a value, the end of the file, another error, or a panic.\<close>

datatype 'a parsed = Parsed 'a | ParseEOF | ParseError string | ParsePanic

text \<open>The verb \<open>%X\<close>.\<close>

fun show_HEX :: "nat \<Rightarrow> string" where
  "show_HEX n =
     (let c = (if n mod 16 < 10 then digit_char (n mod 16) else char_of (55 + n mod 16))
      in if n < 16 then [c] else show_HEX (n div 16) @ [c])"

text \<open>
  One equipment block: the payload is taken, and the walk goes on behind the block. The
  allocation of the payload does not fail.
\<close>

definition parse_equipment ::
  "bytes \<Rightarrow> u32 \<Rightarrow> u32 \<Rightarrow> (u32, bytes) go_map \<Rightarrow> (u32 \<times> (u32, bytes) go_map) parsed" where
  "parse_equipment eventData ldcDataEnd equipOffset equipments =
     (case slice_u32 eventData equipOffset (equipOffset + 28) of
        Panic \<Rightarrow> ParsePanic
      | Ok equipHeader \<Rightarrow>
          let equipSize = le32_at equipHeader 0;
              equipID = le32_at equipHeader 8;
              equipPayloadSize = equipSize - 28;
              equipPayloadStart = equipOffset + 28;
              equipPayloadEnd = equipPayloadStart + equipPayloadSize
          in if equipPayloadEnd > ldcDataEnd then ParseError ''equipment payload extends beyond LDC boundary''
             else
               case slice_u32 eventData equipPayloadStart equipPayloadEnd of
                 Panic \<Rightarrow> ParsePanic
               | Ok equipPayload \<Rightarrow> Parsed (equipOffset + equipSize, gm_set equipID equipPayload equipments))"

fun parse_equipments ::
  "nat \<Rightarrow> bytes \<Rightarrow> u32 \<Rightarrow> u32 \<Rightarrow> (u32, bytes) go_map \<Rightarrow> (u32, bytes) go_map parsed option" where
  "parse_equipments 0 eventData ldcDataEnd equipOffset equipments = None"
| "parse_equipments (Suc fuel) eventData ldcDataEnd equipOffset equipments =
     (if equipOffset < ldcDataEnd then
        if equipOffset + 28 > ldcDataEnd then Some (Parsed equipments)
        else
          case parse_equipment eventData ldcDataEnd equipOffset equipments of
            Parsed (next, equipments') \<Rightarrow> parse_equipments fuel eventData ldcDataEnd next equipments'
          | ParseEOF \<Rightarrow> Some ParseEOF
          | ParseError e \<Rightarrow> Some (ParseError e)
          | ParsePanic \<Rightarrow> Some ParsePanic
      else Some (Parsed equipments))"

fun parse_ldcs ::
  "nat \<Rightarrow> bytes \<Rightarrow> u32 \<Rightarrow> u32 \<Rightarrow> (u32, bytes) go_map \<Rightarrow> (u32, bytes) go_map parsed option" where
  "parse_ldcs 0 eventData eventDataSize offset equipments = None"
| "parse_ldcs (Suc fuel) eventData eventDataSize offset equipments =
     (if offset < eventDataSize then
        if offset + 80 > eventDataSize then Some (Parsed equipments)
        else
          case slice_u32 eventData offset (offset + 80) of
            Panic \<Rightarrow> Some ParsePanic
          | Ok hdr \<Rightarrow>
              let ldcEventSize = le32_at hdr 0;
                  ldcMagic = le32_at hdr 4
              in if ldcMagic \<noteq> 0xDA1E5AFE then
                   Some (ParseError (''invalid LDC magic number: 0x'' @ show_HEX (unat ldcMagic)))
                 else
                   let ldcDataSize = ldcEventSize - 80;
                       ldcDataStart = offset + 80;
                       ldcDataEnd = ldcDataStart + ldcDataSize
                   in if ldcDataEnd > eventDataSize then
                        Some (ParseError ''LDC data extends beyond event boundary'')
                      else
                        case parse_equipments fuel eventData ldcDataEnd ldcDataStart equipments of
                          Some (Parsed equipments') \<Rightarrow>
                            parse_ldcs fuel eventData eventDataSize (offset + ldcEventSize) equipments'
                        | r \<Rightarrow> r
      else Some (Parsed equipments))"

text \<open>\<open>io.ReadFull\<close>: the bytes and the rest, or how much was there instead.\<close>

definition read_full :: "nat \<Rightarrow> bytes \<Rightarrow> string + bytes \<times> bytes" where
  "read_full n s =
     (if n = 0 then Inr ([], s) else if s = [] then Inl ''EOF''
      else if length s < n then Inl ''unexpected EOF'' else Inr (take n s, drop n s))"

definition parseNextEvent :: "nat \<Rightarrow> bytes \<Rightarrow> (sim_EventData \<times> bytes) parsed option" where
  "parseNextEvent fuel s =
     (case read_full 80 s of
        Inl err \<Rightarrow> Some (if err = ''EOF'' then ParseEOF else ParseError err)
      | Inr (gdcHeader, rest) \<Rightarrow>
          let eventSize = le32_at gdcHeader 0;
              eventMagic = le32_at gdcHeader 4
          in if eventMagic \<noteq> 0xDA1E5AFE then
               Some (ParseError (''invalid magic number: 0x'' @ show_HEX (unat eventMagic) @
                 '' (expected 0xDA1E5AFE)''))
             else
               let timestampSec = le32_at gdcHeader 72;
                   timestampUsec = le32_at gdcHeader 76;
                   timestamp = ucast timestampSec * 1000000 + ucast timestampUsec;
                   eventDataSize = eventSize - 80
               in case read_full (unat eventDataSize) rest of
                    Inl err \<Rightarrow> Some (ParseError (''failed to read event data: '' @ err))
                  | Inr (eventData, rest') \<Rightarrow>
                      map_option
                        (\<lambda>r. case r of
                           Parsed equipments \<Rightarrow>
                             Parsed (\<lparr>sev_EventID = le32_at gdcHeader 24, sev_Timestamp = timestamp,
                                      sev_Equipments = equipments\<rparr>, rest')
                         | ParseEOF \<Rightarrow> ParseEOF | ParseError e \<Rightarrow> ParseError e | ParsePanic \<Rightarrow> ParsePanic)
                        (parse_ldcs fuel eventData eventDataSize 0 gm_empty))"

fun ParseAll :: "nat \<Rightarrow> bytes \<Rightarrow> sim_EventData list parsed option" where
  "ParseAll 0 s = None"
| "ParseAll (Suc fuel) s =
     (case parseNextEvent fuel s of
        None \<Rightarrow> None
      | Some ParseEOF \<Rightarrow> Some (Parsed [])
      | Some (ParseError e) \<Rightarrow> Some (ParseError e)
      | Some ParsePanic \<Rightarrow> Some ParsePanic
      | Some (Parsed (event, rest)) \<Rightarrow>
          map_option (\<lambda>r. case r of Parsed events \<Rightarrow> Parsed (event # events) | _ \<Rightarrow> r) (ParseAll fuel rest))"


declare show_HEX.simps [simp del]

subsection \<open>Sending (sender.go)\<close>

definition EndOfEventMarker :: u32 where
  "EndOfEventMarker = 0xfafafafa"

definition DefaultPacketSize :: int where
  "DefaultPacketSize = 500"

record SenderMetrics =
  PacketsSent :: nat
  EventsSent :: nat
  BytesSent :: nat
  Errors :: nat

text \<open>A sender with the datagrams that left it; \<open>us_writes\<close> counts the writes on its connection.\<close>

record UDPSender =
  us_fragmentSize :: int
  us_metrics :: SenderMetrics
  us_sent :: "bytes list"
  us_writes :: nat

type_synonym udp_writes = "nat \<Rightarrow> string option"

definition no_metrics :: SenderMetrics where
  "no_metrics = \<lparr>PacketsSent = 0, EventsSent = 0, BytesSent = 0, Errors = 0\<rparr>"

text \<open>\<open>dial\<close> is the error of resolving or dialling the address, if there is one.\<close>

definition NewUDPSender :: "string option \<Rightarrow> int \<Rightarrow> string + UDPSender" where
  "NewUDPSender dial fragmentSize =
     (case dial of
        Some err \<Rightarrow> Inl err
      | None \<Rightarrow> Inr \<lparr>us_fragmentSize = (if fragmentSize = 0 then 7992 else fragmentSize),
                     us_metrics = no_metrics, us_sent = [], us_writes = 0\<rparr>)"

definition unflip_step :: "bytes \<Rightarrow> nat \<Rightarrow> bytes \<Rightarrow> bytes" where
  "unflip_step data i result = put_le32_at (i * 4) (be32_at data (i * 4)) result"

definition unflipEndianness :: "bytes \<Rightarrow> bytes" where
  "unflipEndianness data =
     (let result = fold (unflip_step data) [0..<length data div 4] (replicate (length data) 0);
          remainder = length data mod 4
      in if remainder > 0
         then put_at (length data - remainder) (drop (length data - remainder) data) result else result)"

text \<open>A write that is counted: an error, or a packet and its bytes.\<close>

definition counted_write :: "udp_writes \<Rightarrow> bytes \<Rightarrow> UDPSender \<Rightarrow> UDPSender \<times> string option" where
  "counted_write wr packet s =
     (let s' = s\<lparr>us_writes := us_writes s + 1\<rparr>; m = us_metrics s
      in case wr (us_writes s) of
           Some err \<Rightarrow> (s'\<lparr>us_metrics := m\<lparr>Errors := Errors m + 1\<rparr>\<rparr>, Some err)
         | None \<Rightarrow> (s'\<lparr>us_metrics := m\<lparr>PacketsSent := PacketsSent m + 1, BytesSent := BytesSent m + length packet\<rparr>,
                       us_sent := us_sent s @ [packet]\<rparr>, None))"

definition SendRawPacket :: "udp_writes \<Rightarrow> bytes \<Rightarrow> UDPSender \<Rightarrow> UDPSender \<times> string option" where
  "SendRawPacket wr packet s = counted_write wr packet s"

definition SendEndMarker :: "udp_writes \<Rightarrow> UDPSender \<Rightarrow> UDPSender \<times> string option" where
  "SendEndMarker wr s = counted_write wr (put_le32 EndOfEventMarker) s"

text \<open>The search for the marker looks at every offset, not only at whole words.\<close>

fun find_marker :: "nat \<Rightarrow> bytes \<Rightarrow> nat option" where
  "find_marker i (a # b # c # d # s) =
     (if le32 a b c d = EndOfEventMarker then Some i else find_marker (i + 1) (b # c # d # s))"
| "find_marker i s = None"

text \<open>The loop over the packets: \<open>n\<close> packets are left, the next one has the index \<open>i\<close>.\<close>

fun send_packets ::
  "nat \<Rightarrow> udp_writes \<Rightarrow> bytes \<Rightarrow> int \<Rightarrow> int \<Rightarrow> u32 \<Rightarrow> UDPSender \<Rightarrow> (UDPSender \<times> string option) outcome" where
  "send_packets 0 wr packetData numPackets i expectedSeq s = Ok (s, None)"
| "send_packets (Suc n) wr packetData numPackets i expectedSeq s =
     (let start = i * us_fragmentSize s;
          stop = min (start + us_fragmentSize s) (int (length packetData))
      in case slice_int packetData start stop of
           Panic \<Rightarrow> Panic
         | Ok packet \<Rightarrow>
             if length packet < 4 then
               Ok (s, Some (''packet '' @ show_int (i + 1) @ '' too small: '' @ show_nat (length packet) @
                 '' bytes (need at least 4 for seq counter)''))
             else if be32_at packet 0 \<noteq> expectedSeq then
               Ok (s, Some (''packet '' @ show_int (i + 1) @ '': sequence mismatch - expected '' @
                 show_u32 expectedSeq @ '', got '' @ show_u32 (be32_at packet 0)))
             else
               case counted_write wr packet s of
                 (s', Some err) \<Rightarrow>
                   Ok (s', Some (''failed to send packet '' @ show_int (i + 1) @ ''/'' @ show_int numPackets @ '': '' @ err))
               | (s', None) \<Rightarrow> send_packets n wr packetData numPackets (i + 1) (expectedSeq + 1) s')"

definition SendEvent :: "udp_writes \<Rightarrow> bytes \<Rightarrow> UDPSender \<Rightarrow> (UDPSender \<times> string option) outcome" where
  "SendEvent wr data s =
     (let originalData = unflipEndianness data
      in case find_marker 0 originalData of
           None \<Rightarrow> Ok (s, Some ''end-of-event marker not found'')
         | Some endMarkerPos \<Rightarrow>
             let packetData = take endMarkerPos originalData;
                 numPackets = (int (length packetData) + us_fragmentSize s - 1) sdiv us_fragmentSize s
             in case send_packets (nat numPackets) wr packetData numPackets 0 0 s of
                  Panic \<Rightarrow> Panic
                | Ok (s', Some err) \<Rightarrow> Ok (s', Some err)
                | Ok (s', None) \<Rightarrow>
                    (case SendEndMarker wr s' of
                       (s'', Some err) \<Rightarrow> Ok (s'', Some (''failed to send end marker: '' @ err))
                     | (s'', None) \<Rightarrow>
                         Ok (s''\<lparr>us_metrics := (us_metrics s'')\<lparr>EventsSent := EventsSent (us_metrics s'') + 1\<rparr>\<rparr>,
                             None)))"

text \<open>Closing sends one more marker, whose error is ignored, and then closes the connection.\<close>

definition Close_sender :: "udp_writes \<Rightarrow> UDPSender \<Rightarrow> UDPSender" where
  "Close_sender wr s = fst (SendEndMarker wr s)"

definition ResetMetrics :: "UDPSender \<Rightarrow> UDPSender" where
  "ResetMetrics s = s\<lparr>us_metrics := no_metrics\<rparr>"

subsection \<open>The rate limiter (sender.go)\<close>

text \<open>Times and durations in nanoseconds; the rate is a rational number.\<close>

record RateLimiter =
  rl_lastEventTime :: int
  rl_rateHz :: rat
  rl_eventDelay :: int

definition NewRateLimiter :: "int \<Rightarrow> rat \<Rightarrow> RateLimiter" where
  "NewRateLimiter now rateHz =
     \<lparr>rl_lastEventTime = now, rl_rateHz = rateHz,
      rl_eventDelay = (if rateHz > 0 then \<lfloor>1000000000 / rateHz\<rfloor> else 0)\<rparr>"

text \<open>
  \<open>Wait\<close> called at \<open>now\<close>: how long it sleeps, and the limiter afterwards, when the clock shows \<open>woken\<close>.
\<close>

definition wait_sleep :: "int \<Rightarrow> RateLimiter \<Rightarrow> int" where
  "wait_sleep now r =
     (if rl_rateHz r \<le> 0 then 0
      else let elapsed = now - rl_lastEventTime r
           in if rl_eventDelay r > elapsed then rl_eventDelay r - elapsed else 0)"

definition Wait :: "int \<Rightarrow> RateLimiter \<Rightarrow> RateLimiter" where
  "Wait woken r = (if rl_rateHz r \<le> 0 then r else r\<lparr>rl_lastEventTime := woken\<rparr>)"


subsection \<open>The replay loop (replay.go)\<close>

record ReplayConfig =
  rpc_FilePath :: string
  rpc_EquipmentID :: u32
  rpc_Equipment :: Equipment
  rpc_RateHz :: rat
  rpc_LoopMode :: bool
  rpc_MaxEvents :: int
  rpc_PacketSize :: int

text \<open>The file, the part of it not yet read, and what the loop counts.\<close>

record Replayer =
  rp_config :: ReplayConfig
  rp_file :: bytes
  rp_rest :: bytes
  rp_sender :: UDPSender
  rp_limiter :: RateLimiter
  rp_eventsReplayed :: nat
  rp_currentEventID :: u32
  rp_eventsInFile :: nat
  rp_iterations :: nat
  rp_waits :: nat

text \<open>What the \<open>select\<close> at the start of an iteration finds; a pause waits for a resume or a stop.\<close>

datatype replay_signal = SignalNone | SignalStop | SignalPauseResume | SignalPauseStop

record replay_env =
  re_writes :: udp_writes
  re_signal :: "nat \<Rightarrow> replay_signal"
  re_clock :: "nat \<Rightarrow> int"
  re_seek :: "string option"

definition NewReplayer_config :: "ReplayConfig \<Rightarrow> string + ReplayConfig" where
  "NewReplayer_config config =
     (if rpc_FilePath config = [] then Inl ''file path is required''
      else Inr (if rpc_PacketSize config = 0 then config\<lparr>rpc_PacketSize := DefaultPacketSize\<rparr> else config))"

definition replayer_init :: "ReplayConfig \<Rightarrow> bytes \<Rightarrow> UDPSender \<Rightarrow> int \<Rightarrow> Replayer" where
  "replayer_init config file s now =
     \<lparr>rp_config = config, rp_file = file, rp_rest = file, rp_sender = s,
      rp_limiter = NewRateLimiter now (rpc_RateHz config), rp_eventsReplayed = 0, rp_currentEventID = 0,
      rp_eventsInFile = 0, rp_iterations = 0, rp_waits = 0\<rparr>"

datatype replay_next = ReplayContinue | ReplayEndOfFile | ReplayReturn | ReplayPanic

text \<open>The part of an iteration that sends the data of the configured equipment.\<close>

definition replay_send :: "replay_env \<Rightarrow> u32 \<Rightarrow> bytes \<Rightarrow> Replayer \<Rightarrow> replay_next \<times> Replayer" where
  "replay_send env eventID data r0 =
     (let r = r0\<lparr>rp_limiter := Wait (re_clock env (rp_waits r0)) (rp_limiter r0), rp_waits := rp_waits r0 + 1\<rparr>
      in case SendEvent (re_writes env) data (rp_sender r) of
           Panic \<Rightarrow> (ReplayPanic, r)
         | Ok (s, err) \<Rightarrow>
             let r' = (if err = None
                       then r\<lparr>rp_sender := s, rp_eventsReplayed := rp_eventsReplayed r + 1, rp_currentEventID := eventID\<rparr>
                       else r\<lparr>rp_sender := s\<rparr>)
             in (if rpc_MaxEvents (rp_config r') > 0 \<and> int (rp_eventsReplayed r') \<ge> rpc_MaxEvents (rp_config r')
                 then ReplayReturn else ReplayContinue, r'))"

definition replay_iteration :: "nat \<Rightarrow> replay_env \<Rightarrow> Replayer \<Rightarrow> (replay_next \<times> Replayer) option" where
  "replay_iteration fuel env r0 =
     (let r = r0\<lparr>rp_iterations := rp_iterations r0 + 1\<rparr>
      in if re_signal env (rp_iterations r0) \<in> {SignalStop, SignalPauseStop} then Some (ReplayReturn, r)
         else case parseNextEvent fuel (rp_rest r) of
                None \<Rightarrow> None
              | Some ParseEOF \<Rightarrow> Some (ReplayEndOfFile, r)
              | Some (ParseError _) \<Rightarrow> Some (ReplayReturn, r)
              | Some ParsePanic \<Rightarrow> Some (ReplayPanic, r)
              | Some (Parsed (event, rest)) \<Rightarrow>
                  let r' = r\<lparr>rp_rest := rest, rp_eventsInFile := rp_eventsInFile r + 1\<rparr>
                  in Some (case gm_get (sev_Equipments event) (rpc_EquipmentID (rp_config r')) of
                             None \<Rightarrow> (ReplayContinue, r')
                           | Some data \<Rightarrow> replay_send env (sev_EventID event) data r'))"

fun replayLoop :: "nat \<Rightarrow> replay_env \<Rightarrow> Replayer \<Rightarrow> Replayer outcome option" where
  "replayLoop 0 env r = None"
| "replayLoop (Suc fuel) env r =
     (case replay_iteration fuel env r of
        None \<Rightarrow> None
      | Some (ReplayContinue, r') \<Rightarrow> replayLoop fuel env r'
      | Some (ReplayReturn, r') \<Rightarrow> Some (Ok r')
      | Some (ReplayPanic, r') \<Rightarrow> Some Panic
      | Some (ReplayEndOfFile, r') \<Rightarrow>
          if rp_eventsInFile r' = 0 \<or> \<not> rpc_LoopMode (rp_config r') then Some (Ok r')
          else if re_seek env \<noteq> None then Some (Ok r')
          else replayLoop fuel env (r'\<lparr>rp_rest := rp_file r', rp_eventsInFile := 0\<rparr>))"

section \<open>Sending what was received\<close>

lemma unflip_loop:
  "4 * n \<le> length s \<Longrightarrow>
   fold (unflip_step s) [0..<n] (replicate (length s) 0) = flip_words (take (4 * n) s) @ replicate (length s - 4 * n) 0"
proof (induction n)
  case 0
  then show ?case by simp
next
  case (Suc n)
  then have le: "4 * n + 4 \<le> length s" by simp
  let ?w = "[s ! (4 * n), s ! (4 * n + 1), s ! (4 * n + 2), s ! (4 * n + 3)]"
  have "4 dvd length (take (4 * n) s)" using le by simp
  then have "flip_words (take (4 * n + 4) s) = flip_words (take (4 * n) s) @ rev ?w"
    by (simp add: take_four [OF le] flip_words_append)
  moreover have "unflip_step s n (flip_words (take (4 * n) s) @ replicate (length s - 4 * n) 0) =
      (flip_words (take (4 * n) s) @ rev ?w) @ replicate (length s - (4 * n + 4)) 0"
    using le by (simp add: unflip_step_def put_le32_at_def put_at_def be32_at_def mult.commute)
  moreover have "4 * Suc n = 4 * n + 4" by simp
  ultimately show ?case
    using Suc.IH le by (simp add: add.commute)
qed

text \<open>The loop is the reference \<open>flip_words\<close>: it undoes what \<open>addEquipmentHeader\<close> did to the payload.\<close>

lemma unflip_flip_words: "unflipEndianness s = flip_words s"
proof -
  define n where "n = length s div 4"
  have le: "4 * n \<le> length s" and at: "length s - length s mod 4 = 4 * n"
    by (simp_all add: n_def minus_mod_eq_mult_div)
  have "flip_words (take (4 * n) s @ drop (4 * n) s) = flip_words (take (4 * n) s) @ drop (4 * n) s"
    by (subst flip_words_append) (simp_all add: flip_words_short n_def minus_mult_div_eq_mod)
  then have split: "flip_words s = flip_words (take (4 * n) s) @ drop (4 * n) s" by simp
  have "put_at (4 * n) (drop (4 * n) s) (flip_words (take (4 * n) s) @ replicate (length s - 4 * n) 0) = flip_words s"
    unfolding split put_at_def using le by simp
  moreover have "flip_words (take (4 * n) s) @ replicate (length s - 4 * n) 0 = flip_words s" if "length s mod 4 = 0"
  proof -
    have "length s = 4 * n" using that at by linarith
    then show ?thesis unfolding split by simp
  qed
  ultimately show ?thesis
    unfolding unflipEndianness_def Let_def at n_def [symmetric] unflip_loop [OF le] by simp
qed

text \<open>
  The packets of an event as a device sends them: all of them as long as the fragment size, except the
  last, which may be shorter, each with its number in its first word.
\<close>

fun fragments_ok :: "nat \<Rightarrow> u32 \<Rightarrow> bytes list \<Rightarrow> bool" where
  "fragments_ok n q [] = True"
| "fragments_ok n q (p # ps) \<longleftrightarrow> 4 \<le> length p \<and> be32_at p 0 = q \<and>
     (if ps = [] then length p \<le> n else length p = n) \<and> fragments_ok n (q + 1) ps"

lemma fragments_count:
  "fragments_ok n q ps \<Longrightarrow> 0 < n \<Longrightarrow> (length (concat ps) + n - 1) div n = length ps"
proof (induction ps arbitrary: q)
  case Nil
  then show ?case by simp
next
  case (Cons p ps)
  show ?case
  proof (cases "ps = []")
    case True
    have "(length p + n - 1) div n = 1"
      using Cons.prems True by (intro div_nat_eqI) auto
    then show ?thesis by (simp add: True)
  next
    case False
    then have "length (concat (p # ps)) + n - 1 = n + (length (concat ps) + n - 1)"
      using Cons.prems by simp
    moreover have "(length (concat ps) + n - 1) div n = length ps"
      using Cons.IH [of "q + 1"] Cons.prems by simp
    ultimately show ?thesis using Cons.prems(2) by (simp only: div_add_self1 list.size)
  qed
qed

definition sent_packets :: "bytes list \<Rightarrow> UDPSender \<Rightarrow> UDPSender" where
  "sent_packets ps s = s\<lparr>us_sent := us_sent s @ ps, us_writes := us_writes s + length ps,
     us_metrics := (us_metrics s)\<lparr>PacketsSent := PacketsSent (us_metrics s) + length ps,
       BytesSent := BytesSent (us_metrics s) + length (concat ps)\<rparr>\<rparr>"

definition no_write_errors :: udp_writes where
  "no_write_errors k = None"

lemma sent_packets_Nil [simp]: "sent_packets [] s = s"
  by (simp add: sent_packets_def)

lemma counted_write_ok: "counted_write no_write_errors p s = (sent_packets [p] s, None)"
  by (simp add: counted_write_def no_write_errors_def sent_packets_def Let_def)

lemma sent_packets_append [simp]: "sent_packets qs (sent_packets ps s) = sent_packets (ps @ qs) s"
  by (simp add: sent_packets_def add.assoc)

lemma us_fragmentSize_sent [simp]: "us_fragmentSize (sent_packets ps s) = us_fragmentSize s"
  by (simp add: sent_packets_def)

lemma send_packets_fragments:
  assumes "fragments_ok n q ps" and "us_fragmentSize s = int n" and "length pre = k * n"
  shows "send_packets (length ps) no_write_errors (pre @ concat ps) m (int k) q s = Ok (sent_packets ps s, None)"
  using assms
proof (induction ps arbitrary: q s pre k)
  case Nil
  then show ?case by simp
next
  case (Cons p ps)
  let ?d = "pre @ concat (p # ps)"
  have "min (int (k * n) + int n) (int (length ?d)) = int (length pre + length p)"
    using Cons.prems by (cases "ps = []") auto
  moreover have "slice_int ?d (int (length pre)) (int (length pre + length p)) = Ok p"
    by (simp add: slice_int_def byte_slice_def)
  moreover have "send_packets (length ps) no_write_errors ((pre @ p) @ concat ps) m (int (k + 1)) (q + 1)
      (sent_packets [p] s) = Ok (sent_packets ps (sent_packets [p] s), None)"
  proof (cases "ps = []")
    case False
    then show ?thesis using Cons.prems by (intro Cons.IH) auto
  qed simp
  ultimately show ?case
    using Cons.prems by (simp add: Let_def counted_write_ok add.commute)
qed

text \<open>
  The marker must not show up inside the packets: the search would stop there. \<open>replayable\<close> collects
  what a recorded event needs in order to be sent again.
\<close>

definition replayable :: "nat \<Rightarrow> bytes list \<Rightarrow> bool" where
  "replayable n ps \<longleftrightarrow> 0 < n \<and> fragments_ok n 0 ps \<and>
     find_marker 0 (concat ps @ put_le32 EndOfEventMarker) = Some (length (concat ps))"

definition sent_event :: "bytes list \<Rightarrow> UDPSender \<Rightarrow> UDPSender" where
  "sent_event ps s = (let s' = sent_packets (ps @ [put_le32 EndOfEventMarker]) s
     in s'\<lparr>us_metrics := (us_metrics s')\<lparr>EventsSent := EventsSent (us_metrics s') + 1\<rparr>\<rparr>)"

lemma sdiv_nonneg: "0 \<le> a \<Longrightarrow> 0 < b \<Longrightarrow> a sdiv b = a div (b :: int)"
  by (cases "a = 0") (simp_all add: signed_divide_int_def)

lemma SendEvent_replayable:
  assumes "replayable n ps" and s: "us_fragmentSize s = int n"
  shows "SendEvent no_write_errors (flip_words (concat ps @ put_le32 EndOfEventMarker)) s = Ok (sent_event ps s, None)"
proof -
  have n: "0 < n" and f: "fragments_ok n 0 ps"
    and m: "find_marker 0 (concat ps @ put_le32 EndOfEventMarker) = Some (length (concat ps))"
    using assms(1) by (simp_all add: replayable_def)
  have "(int (length (concat ps)) + int n - 1) sdiv int n = int ((length (concat ps) + n - 1) div n)"
    using n by (simp add: sdiv_nonneg zdiv_int of_nat_diff del: length_concat)
  then have c: "(int (length (concat ps)) + int n - 1) sdiv int n = int (length ps)"
    using fragments_count [OF f n] by simp
  show ?thesis
    using send_packets_fragments [OF f s, of "[]" 0 "int (length ps)"] m c
    by (simp add: SendEvent_def Let_def unflip_flip_words SendEndMarker_def counted_write_ok sent_event_def s
        del: length_concat)
qed


section \<open>Parsing what was written\<close>

lemma u32_less: "a < 2 ^ 32 \<Longrightarrow> b < 2 ^ 32 \<Longrightarrow> (of_nat a :: u32) < of_nat b \<longleftrightarrow> a < b"
  by (simp only: word_less_nat_alt unat_of_nat_u32)

lemma u32_le: "a < 2 ^ 32 \<Longrightarrow> b < 2 ^ 32 \<Longrightarrow> (of_nat a :: u32) \<le> of_nat b \<longleftrightarrow> a \<le> b"
  by (simp only: word_le_nat_alt unat_of_nat_u32)

lemma slice_u32_of_nat:
  "a \<le> b \<Longrightarrow> b \<le> length s \<Longrightarrow> length s < 2 ^ 32 \<Longrightarrow>
   slice_u32 s (of_nat a) (of_nat b) = Ok (byte_slice a (b - a) s)"
  unfolding slice_u32_def by (simp only: u32_le unat_of_nat_u32 order_le_less_trans [of _ _ "2 ^ 32 :: nat"]) simp

lemma slice_u32_at:
  assumes "length pre + k + n \<le> length (pre @ s)" and "length (pre @ s) < 2 ^ 32"
  shows "slice_u32 (pre @ s) (of_nat (length pre) + of_nat k) (of_nat (length pre) + of_nat k + of_nat n) =
    Ok (take n (drop k s))"
  using slice_u32_of_nat [of "length pre + k" "length pre + k + n" "pre @ s"] assms
  by (simp add: slice_behind)

lemma u32_of_unat: "unat (w :: u32) = n \<Longrightarrow> w = of_nat n"
  using of_nat_unat [of w] by auto

lemma parse_equipment_tree:
  assumes e: "equipment_ok e" and fits: "length pre + length (equipment_bytes e) \<le> ldcEnd"
    and inside: "ldcEnd \<le> length (pre @ equipment_bytes e @ post)"
    and small: "length (pre @ equipment_bytes e @ post) < 2 ^ 32"
  shows "parse_equipment (pre @ equipment_bytes e @ post) (of_nat ldcEnd) (of_nat (length pre)) m =
    Parsed (of_nat (length pre + length (equipment_bytes e)), gm_set (EquipmentId (fst e)) (snd e) m)"
proof -
  let ?d = "pre @ equipment_bytes e @ post"
  let ?h = "words_le (equipment_words (fst e))"
  have w: "length ?h = 28" and len: "length (equipment_bytes e) = 28 + length (snd e)"
    using e length_equipment_bytes [OF e] by (simp_all add: equipment_ok_def equipment_words_def)
  have size: "EquipmentSize (fst e) = of_nat (28 + length (snd e))"
    using e len by (intro u32_of_unat) (simp add: equipment_ok_def)
  have hdr: "slice_u32 ?d (of_nat (length pre)) (of_nat (length pre) + 28) = Ok ?h"
    using slice_u32_at [of pre 0 28 "equipment_bytes e @ post"] small w by (simp add: len) (simp add: equipment_bytes_def)
  have pay: "slice_u32 ?d (of_nat (length pre) + 28) (of_nat (length pre) + 28 + of_nat (length (snd e))) = Ok (snd e)"
    using slice_u32_at [of pre 28 "length (snd e)" "equipment_bytes e @ post"] small w
    by (simp add: len) (simp add: equipment_bytes_def)
  have words: "le32_at ?h 0 = EquipmentSize (fst e)" "le32_at ?h 8 = EquipmentId (fst e)"
    using le32_at_word [of 0 0 "equipment_words (fst e)" "[]"] le32_at_word [of 2 8 "equipment_words (fst e)" "[]"]
    by (simp_all add: equipment_words_def del: words_le_Cons)
  have "\<not> (of_nat ldcEnd :: u32) < of_nat (length pre + 28 + length (snd e))"
    using fits inside small len by (subst u32_less) simp_all
  then show ?thesis
    using pay by (simp add: parse_equipment_def hdr words size len Let_def ac_simps)
qed

definition add_equipment :: "equipment_tree \<Rightarrow> (u32, bytes) go_map \<Rightarrow> (u32, bytes) go_map" where
  "add_equipment e = gm_set (EquipmentId (fst e)) (snd e)"

lemma parse_equipments_tree:
  assumes "list_all equipment_ok es" and "length es < fuel"
    and "length (pre @ concat (map equipment_bytes es) @ post) < 2 ^ 32"
  shows "parse_equipments fuel (pre @ concat (map equipment_bytes es) @ post)
      (of_nat (length pre + length (concat (map equipment_bytes es)))) (of_nat (length pre)) m =
    Some (Parsed (fold add_equipment es m))"
  using assms
proof (induction es arbitrary: pre fuel m)
  case Nil
  then show ?case by (cases fuel) simp_all
next
  case (Cons e es)
  then obtain k where k: "fuel = Suc k" by (cases fuel) auto
  have e: "equipment_ok e" using Cons.prems by simp
  let ?r = "concat (map equipment_bytes es) @ post"
  let ?last = "length pre + length (concat (map equipment_bytes (e # es)))"
  have small: "length (pre @ equipment_bytes e @ ?r) < 2 ^ 32" using Cons.prems(3) by simp
  have "parse_equipments k ((pre @ equipment_bytes e) @ ?r)
      (of_nat (length (pre @ equipment_bytes e) + length (concat (map equipment_bytes es))))
      (of_nat (length (pre @ equipment_bytes e))) (add_equipment e m) = Some (Parsed (fold add_equipment es (add_equipment e m)))"
    using Cons.prems k by (intro Cons.IH) simp_all
  moreover have "parse_equipment (pre @ equipment_bytes e @ ?r) (of_nat ?last) (of_nat (length pre)) m =
      Parsed (of_nat (length pre + length (equipment_bytes e)), add_equipment e m)"
    unfolding add_equipment_def using small by (intro parse_equipment_tree [OF e]) simp_all
  moreover have "(of_nat (length pre) :: u32) < of_nat ?last" "\<not> of_nat ?last < (of_nat (length pre + 28) :: u32)"
    using small length_equipment_bytes [OF e] by (subst u32_less; simp del: length_concat)+
  ultimately show ?case
    by (simp add: k add.assoc del: of_nat_add length_concat) (simp del: length_concat)
qed


definition ldc_magic_ok :: "ldc_tree \<Rightarrow> bool" where
  "ldc_magic_ok l \<longleftrightarrow> ldc_ok l \<and> EventMagic (fst l) = EVENT_MAGIC_NUMBER"

definition ldc_equipments :: "ldc_tree \<Rightarrow> (u32, bytes) go_map \<Rightarrow> (u32, bytes) go_map" where
  "ldc_equipments l = fold add_equipment (snd l)"

lemma header_first_words:
  assumes "event_header_wf h"
  shows "take 80 (words_le (event_words h) @ s) = words_le (event_words h)"
    and "le32_at (words_le (event_words h)) 0 = EventSize h"
    and "le32_at (words_le (event_words h)) 4 = EventMagic h"
    and "le32_at (words_le (event_words h)) 24 = EventId h ! 0"
    and "le32_at (words_le (event_words h)) 72 = EventTimestampSec h"
    and "le32_at (words_le (event_words h)) 76 = EventTimestampUsec h"
proof -
  have len: "length (words_le (event_words h)) = 80" using assms by (simp add: length_event_words)
  then show t: "take 80 (words_le (event_words h) @ s) = words_le (event_words h)" by simp
  note p = parse_event_words [OF assms, of "[]", symmetric]
  show "le32_at (words_le (event_words h)) 0 = EventSize h"
    "le32_at (words_le (event_words h)) 4 = EventMagic h"
    "le32_at (words_le (event_words h)) 24 = EventId h ! 0"
    "le32_at (words_le (event_words h)) 72 = EventTimestampSec h"
    "le32_at (words_le (event_words h)) 76 = EventTimestampUsec h"
    by (subst (2) p, simp add: parseLDCHeader_def)+
qed

lemma ldc_words:
  assumes "ldc_ok l" and "length (pre @ ldc_bytes l @ post) < 2 ^ 32"
  shows "slice_u32 (pre @ ldc_bytes l @ post) (of_nat (length pre)) (of_nat (length pre) + 80) =
    Ok (words_le (event_words (fst l)))"
proof -
  have "event_header_wf (fst l)" using assms(1) by (simp add: ldc_ok_def)
  note words = header_first_words [OF this]
  show ?thesis
    using slice_u32_at [of pre 0 80 "ldc_bytes l @ post"] length_ldc_bytes [OF assms(1)] assms(2) words(1)
    by (simp add: ldc_bytes_def del: take_append)
qed

lemma parse_ldcs_tree:
  assumes "list_all ldc_magic_ok ls" and "length ls < fuel" and "\<forall>l \<in> set ls. length (snd l) + length ls < fuel"
    and "length (pre @ concat (map ldc_bytes ls)) < 2 ^ 32"
  shows "parse_ldcs fuel (pre @ concat (map ldc_bytes ls)) (of_nat (length (pre @ concat (map ldc_bytes ls))))
      (of_nat (length pre)) m = Some (Parsed (fold ldc_equipments ls m))"
  using assms
proof (induction ls arbitrary: pre fuel m)
  case Nil
  then show ?case by (cases fuel) simp_all
next
  case (Cons l ls)
  then obtain k where k: "fuel = Suc k" by (cases fuel) auto
  have l: "ldc_ok l" and magic: "EventMagic (fst l) = EVENT_MAGIC_NUMBER" and lk: "length (snd l) < k"
    using Cons.prems k by (auto simp: ldc_magic_ok_def)
  have wf: "event_header_wf (fst l)" and es: "list_all equipment_ok (snd l)" using l by (simp_all add: ldc_ok_def)
  let ?r = "concat (map ldc_bytes ls)"
  let ?d = "pre @ ldc_bytes l @ ?r"
  let ?p = "pre @ words_le (event_words (fst l))"
  have small: "length ?d < 2 ^ 32" using Cons.prems(4) by simp
  have size: "EventSize (fst l) = of_nat (length (ldc_bytes l))"
    using l by (intro u32_of_unat) (simp add: ldc_ok_def)
  have d: "?d = ?p @ concat (map equipment_bytes (snd l)) @ ?r" by (simp add: ldc_bytes_def)
  have eqs: "parse_equipments k ?d (of_nat (length pre + length (ldc_bytes l))) (of_nat (length pre + 80)) m =
      Some (Parsed (ldc_equipments l m))"
    using parse_equipments_tree [OF es lk, of ?p ?r m] small length_ldc_bytes [OF l] wf
    unfolding d ldc_equipments_def by (simp add: length_event_words ac_simps del: length_concat)
  have "parse_ldcs k ((pre @ ldc_bytes l) @ ?r) (of_nat (length ((pre @ ldc_bytes l) @ ?r)))
      (of_nat (length (pre @ ldc_bytes l))) (ldc_equipments l m) = Some (Parsed (fold ldc_equipments ls (ldc_equipments l m)))"
    using Cons.prems k by (intro Cons.IH) auto
  then have rest: "parse_ldcs k ?d (of_nat (length ?d)) (of_nat (length pre) + EventSize (fst l)) (ldc_equipments l m) =
      Some (Parsed (fold ldc_equipments ls (ldc_equipments l m)))"
    by (simp add: size)
  have "(of_nat (length pre) :: u32) < of_nat (length ?d)"
    "\<not> of_nat (length ?d) < (of_nat (length pre + 80) :: u32)"
    "\<not> of_nat (length ?d) < (of_nat (length pre + length (ldc_bytes l)) :: u32)"
    using small length_ldc_bytes [OF l] by (subst u32_less; simp del: length_concat)+
  then show ?case
    using eqs rest ldc_words [OF l small] magic
    by (simp add: k size header_first_words [OF wf] EVENT_MAGIC_NUMBER_def Let_def del: length_concat length_append)
qed


definition event_magic_ok :: "event_tree \<Rightarrow> bool" where
  "event_magic_ok t \<longleftrightarrow> event_ok t \<and> EventMagic (fst t) = EVENT_MAGIC_NUMBER \<and> list_all ldc_magic_ok (snd t)"

definition tree_event :: "event_tree \<Rightarrow> sim_EventData" where
  "tree_event t =
     \<lparr>sev_EventID = EventId (fst t) ! 0,
      sev_Timestamp = ucast (EventTimestampSec (fst t)) * 1000000 + ucast (EventTimestampUsec (fst t)),
      sev_Equipments = fold ldc_equipments (snd t) gm_empty\<rparr>"

lemma parseNextEvent_tree:
  assumes t: "event_magic_ok t" and fuel: "length (concat (map ldc_bytes (snd t))) < fuel"
  shows "parseNextEvent fuel (event_bytes t @ s) = Some (Parsed (tree_event t, s))"
proof -
  define d where "d = concat (map ldc_bytes (snd t))"
  let ?h = "words_le (event_words (fst t))"
  have ok: "event_ok t" and magic: "EventMagic (fst t) = EVENT_MAGIC_NUMBER" and ls: "list_all ldc_magic_ok (snd t)"
    using t by (simp_all add: event_magic_ok_def)
  have wf: "event_header_wf (fst t)" using ok by (simp add: event_ok_def)
  have bytes: "event_bytes t @ s = ?h @ d @ s" by (simp add: event_bytes_def d_def)
  have size: "unat (EventSize (fst t)) = 80 + length d" and small: "length d < 2 ^ 32"
    using ok length_event_bytes [OF ok] by (simp_all add: event_ok_def d_def del: length_concat)
  from size have rem: "EventSize (fst t) - 80 = of_nat (length d)"
    using u32_of_unat [OF size] by simp
  have "list_all ldc_ok (snd t)" using ls by (rule list.pred_mono_strong) (simp add: ldc_magic_ok_def)
  from ldcs_length [OF this] fuel
  have "length (snd t) < fuel" "\<forall>l \<in> set (snd t). length (snd l) + length (snd t) < fuel" by auto
  from parse_ldcs_tree [OF ls this, of "[]" gm_empty]
  have walk: "parse_ldcs fuel d (of_nat (length d)) 0 gm_empty = Some (Parsed (fold ldc_equipments (snd t) gm_empty))"
    using small by (simp add: d_def del: length_concat)
  have "read_full 80 (event_bytes t @ s) = Inr (?h, d @ s)"
    unfolding bytes read_full_def using header_first_words(1) [OF wf, of "d @ s"] length_event_words [OF wf]
      length_words_le [of "event_words (fst t)"] list.size(3)
    by (auto simp del: take_append length_words_le)
  moreover have "read_full (length d) (d @ s) = Inr (d, s)" by (auto simp: read_full_def)
  ultimately show ?thesis
    using magic rem walk unat_of_nat_u32 [OF small]
    by (simp add: parseNextEvent_def header_first_words [OF wf] EVENT_MAGIC_NUMBER_def tree_event_def Let_def)
qed

lemma parseNextEvent_end: "parseNextEvent fuel [] = Some ParseEOF"
  by (simp add: parseNextEvent_def read_full_def)

text \<open>Reading a whole file gives its events.\<close>

lemma ParseAll_tree:
  assumes "list_all event_magic_ok ts" and "length (concat (map event_bytes ts)) < fuel"
  shows "ParseAll fuel (concat (map event_bytes ts)) = Some (Parsed (map tree_event ts))"
  using assms
proof (induction ts arbitrary: fuel)
  case Nil
  then show ?case by (cases fuel) (simp_all add: parseNextEvent_end)
next
  case (Cons t ts)
  then obtain k where k: "fuel = Suc k" by (cases fuel) auto
  have t: "event_magic_ok t" and len: "length (event_bytes t) = 80 + length (concat (map ldc_bytes (snd t)))"
    using Cons.prems length_event_bytes by (simp_all add: event_magic_ok_def)
  have "length (concat (map ldc_bytes (snd t))) < k" "length (concat (map event_bytes ts)) < k"
    using Cons.prems(2) len k by (simp_all del: length_concat)
  then show ?case
    using Cons.prems(1) Cons.IH [of k] by (simp add: k parseNextEvent_tree [OF t])
qed

section \<open>Replaying a file\<close>

text \<open>What the loop does with one event of the file: send the packets recorded for the equipment, if any.\<close>

definition replayed :: "bytes list option \<Rightarrow> UDPSender \<Rightarrow> UDPSender" where
  "replayed rec s = (case rec of None \<Rightarrow> s | Some ps \<Rightarrow> sent_event ps s)"

definition records :: "u32 \<Rightarrow> nat \<Rightarrow> event_tree \<Rightarrow> bytes list option \<Rightarrow> bool" where
  "records eq n t rec \<longleftrightarrow>
     (case rec of
        None \<Rightarrow> gm_get (sev_Equipments (tree_event t)) eq = None
      | Some ps \<Rightarrow> replayable n ps \<and>
          gm_get (sev_Equipments (tree_event t)) eq = Some (flip_words (concat ps @ put_le32 EndOfEventMarker)))"

definition quiet :: "replay_env \<Rightarrow> bool" where
  "quiet env \<longleftrightarrow> re_writes env = no_write_errors \<and> (\<forall>k. re_signal env k = SignalNone)"

lemma sent_event_fields [simp]:
  "us_fragmentSize (sent_event ps s) = us_fragmentSize s"
  "us_sent (sent_event ps s) = us_sent s @ ps @ [put_le32 EndOfEventMarker]"
  by (simp_all add: sent_event_def sent_packets_def Let_def)

lemma replay_iteration_event:
  assumes t: "event_magic_ok t" and fuel: "length (concat (map ldc_bytes (snd t))) < fuel"
    and env: "quiet env" and rest: "rp_rest r = event_bytes t @ s"
    and rec: "records (rpc_EquipmentID (rp_config r)) n t rec"
    and frag: "us_fragmentSize (rp_sender r) = int n" and max: "rpc_MaxEvents (rp_config r) \<le> 0"
  shows "\<exists>r'. replay_iteration fuel env r = Some (ReplayContinue, r') \<and> rp_rest r' = s \<and>
    rp_config r' = rp_config r \<and> rp_file r' = rp_file r \<and> rp_sender r' = replayed rec (rp_sender r) \<and>
    rp_eventsReplayed r' = rp_eventsReplayed r + (if rec = None then 0 else 1)"
proof -
  have p: "parseNextEvent fuel (event_bytes t @ s) = Some (Parsed (tree_event t, s))"
    by (rule parseNextEvent_tree [OF t fuel])
  show ?thesis
  proof (cases rec)
    case None
    then show ?thesis
      using env rec rest p by (simp add: replay_iteration_def quiet_def records_def Let_def replayed_def)
  next
    case (Some ps)
    then have ps: "replayable n ps" and get: "gm_get (sev_Equipments (tree_event t)) (rpc_EquipmentID (rp_config r)) =
        Some (flip_words (concat ps @ put_le32 EndOfEventMarker))"
      using rec by (simp_all add: records_def)
    show ?thesis
      using env rest p max get SendEvent_replayable [OF ps frag] Some
      by (simp add: replay_iteration_def quiet_def Let_def replayed_def replay_send_def)
  qed
qed

lemma replayLoop_tree:
  assumes "list_all event_magic_ok ts" and "length (concat (map event_bytes ts)) < fuel" and env: "quiet env"
    and "list_all2 (records (rpc_EquipmentID (rp_config r)) n) ts recs"
    and "rp_rest r = concat (map event_bytes ts)" and "us_fragmentSize (rp_sender r) = int n"
    and "rpc_MaxEvents (rp_config r) \<le> 0" and "\<not> rpc_LoopMode (rp_config r)"
  shows "\<exists>r'. replayLoop fuel env r = Some (Ok r') \<and> rp_sender r' = fold replayed recs (rp_sender r) \<and>
    rp_eventsReplayed r' = rp_eventsReplayed r + length (filter (\<lambda>rec. rec \<noteq> None) recs)"
  using assms
proof (induction ts arbitrary: fuel r recs)
  case Nil
  then show ?case
    by (cases fuel) (simp_all add: replay_iteration_def quiet_def parseNextEvent_end Let_def)
next
  case (Cons t ts)
  obtain k where k: "fuel = Suc k" using Cons.prems by (cases fuel) auto
  obtain rec recs' where recs: "recs = rec # recs'"
    and rec: "records (rpc_EquipmentID (rp_config r)) n t rec"
    and more: "list_all2 (records (rpc_EquipmentID (rp_config r)) n) ts recs'"
    using Cons.prems(4) by (auto simp: list_all2_Cons1)
  have t: "event_magic_ok t" and len: "length (event_bytes t) = 80 + length (concat (map ldc_bytes (snd t)))"
    using Cons.prems length_event_bytes by (simp_all add: event_magic_ok_def)
  have kt: "length (concat (map ldc_bytes (snd t))) < k" and ks: "length (concat (map event_bytes ts)) < k"
    using Cons.prems(2) len k by (simp_all del: length_concat)
  obtain r' where r': "replay_iteration k env r = Some (ReplayContinue, r')"
      "rp_rest r' = concat (map event_bytes ts)" "rp_config r' = rp_config r"
      "rp_sender r' = replayed rec (rp_sender r)"
      "rp_eventsReplayed r' = rp_eventsReplayed r + (if rec = None then 0 else 1)"
    using replay_iteration_event [OF t kt env, of r "concat (map event_bytes ts)"] rec Cons.prems by auto
  have "us_fragmentSize (rp_sender r') = int n"
    using r'(4) Cons.prems(6) by (simp add: replayed_def split: option.splits)
  then obtain r'' where "replayLoop k env r' = Some (Ok r'')" "rp_sender r'' = fold replayed recs' (rp_sender r')"
      "rp_eventsReplayed r'' = rp_eventsReplayed r' + length (filter (\<lambda>rec. rec \<noteq> None) recs')"
    using Cons.IH [of k r' recs'] Cons.prems ks more r' by auto
  then show ?case using r' by (auto simp: k recs)
qed


subsection \<open>What the LDC makes of the packets\<close>

lemma end_marker: "EndOfEventMarker = END_WORD"
  by (simp add: EndOfEventMarker_def END_WORD_def)

lemma fragments_seg_ok: "fragments_ok n (word_of_int k) ps \<Longrightarrow> seg_ok k ps"
proof (induction ps arbitrary: k)
  case Nil
  then show ?case by simp
next
  case (Cons p ps)
  have four: "seg_ok j qs" if "fragments_ok 4 q qs" for j q and qs :: "bytes list"
    using that by (induction qs arbitrary: q j) (auto split: if_splits)
  have "fragments_ok n (word_of_int (k + 1)) ps" using Cons.prems by (simp add: of_int_add)
  with Cons show ?case by (auto split: if_splits intro: four)
qed

lemma find_marker_bound:
  "is_end p \<Longrightarrow> \<exists>j \<le> i + length xs. find_marker i (xs @ p @ ys) = Some j"
proof (induction xs arbitrary: i)
  case Nil
  then obtain a b c d where "p = [a, b, c, d]"
    by (auto simp: is_end_def length_Suc_conv eval_nat_numeral)
  with Nil show ?case by (simp add: is_end_def le32_at_def end_marker)
next
  case (Cons x xs)
  have "4 \<le> length ((x # xs) @ p @ ys)" using Cons.prems by (simp add: is_end_def)
  then obtain b c d s where s: "xs @ p @ ys = b # c # d # s"
    by (cases "xs @ p @ ys" rule: flip_words.cases) (auto simp del: append_assoc)
  show ?case using Cons.IH [OF Cons.prems, of "i + 1"] s by auto
qed

lemma replayable_no_end:
  assumes "replayable n ps" and "p \<in> set ps"
  shows "\<not> is_end p"
proof
  assume p: "is_end p"
  from assms(2) obtain us vs where ps: "ps = us @ p # vs" by (auto dest: split_list)
  obtain j where "j \<le> length (concat us)" "find_marker 0 (concat ps @ put_le32 EndOfEventMarker) = Some j"
    using find_marker_bound [OF p, of 0 "concat us" "concat vs @ put_le32 EndOfEventMarker"] by (auto simp: ps)
  with assms(1) p show False by (simp add: replayable_def ps is_end_def)
qed

lemma replayable_seg_ok: "replayable n ps \<Longrightarrow> seg_ok 0 ps"
  using fragments_seg_ok [of n 0 ps] by (simp add: replayable_def)

definition recorded :: "bytes list option list \<Rightarrow> bytes list list" where
  "recorded recs = map the (filter (\<lambda>rec. rec \<noteq> None) recs)"

lemma fold_replayed_sent: "us_sent (fold replayed recs s) = us_sent s @ event_stream (recorded recs)"
  by (induction recs arbitrary: s)
    (auto simp: recorded_def event_stream_def replayed_def end_marker split: option.split)

lemma records_replayable:
  "list_all2 (records eq n) ts recs \<Longrightarrow> seg \<in> set (recorded recs) \<Longrightarrow> replayable n seg"
  by (auto simp: recorded_def records_def list_all2_conv_all_nth in_set_conv_nth split: option.splits)

text \<open>
  C15. Replaying a recorded file reproduces the readout. For a file of well-formed events, in each of which
  the block of the equipment (if there is one) holds the packets of one event as an LDC stored them, the
  replay ends, has sent exactly those packets with an end word after each event, and counts those
  events. An LDC that receives them builds the same blocks again, and asks for no stop.
\<close>

theorem replay_reproduces_readout:
  assumes "list_all event_magic_ok ts" and "length (concat (map event_bytes ts)) < fuel"
    and "NewUDPSender None (int n) = Inr s" and "n \<noteq> 0"
    and "rpc_MaxEvents cfg \<le> 0" and "\<not> rpc_LoopMode cfg" and "quiet env"
    and "list_all2 (records (rpc_EquipmentID cfg) n) ts recs"
  shows "\<exists>r. replayLoop fuel env (replayer_init cfg (concat (map event_bytes ts)) s now) = Some (Ok r) \<and>
    us_sent (rp_sender r) = event_stream (recorded recs) \<and> rp_eventsReplayed r = length (recorded recs) \<and>
    map ed_Data (b_out (build_packets e (us_sent (rp_sender r)))) =
      map (\<lambda>ps. addEquipmentHeader (concat ps @ put_le32 END_WORD) e) (recorded recs) \<and>
    b_stops (build_packets e (us_sent (rp_sender r))) = []"
proof -
  have s: "us_fragmentSize s = int n" "us_sent s = []" using assms(3,4) by (auto simp: NewUDPSender_def)
  let ?r = "replayer_init cfg (concat (map event_bytes ts)) s now"
  obtain r where r: "replayLoop fuel env ?r = Some (Ok r)" "rp_sender r = fold replayed recs s"
      "rp_eventsReplayed r = length (recorded recs)"
    using replayLoop_tree [OF assms(1,2,7), of ?r n recs] assms(5,6,8) s by (auto simp: replayer_init_def recorded_def)
  then have sent: "us_sent (rp_sender r) = event_stream (recorded recs)" by (simp add: fold_replayed_sent s)
  have ok: "\<forall>seg \<in> set (recorded recs). seg_ok 0 seg" "\<forall>seg \<in> set (recorded recs). \<forall>p \<in> set seg. \<not> is_end p"
    using records_replayable [OF assms(8)] replayable_seg_ok replayable_no_end by blast+
  have "clean builder_init" by (simp add: clean_def builder_init_def)
  from build_events [OF this ok(2), of e] ok(1)
  have "b_out (build_packets e (event_stream (recorded recs))) = emitted e 1 (recorded recs)"
    "b_stops (build_packets e (event_stream (recorded recs))) = []"
    by (auto simp: build_packets_def builder_init_def)
  with r sent emitted_all [OF ok(1), of e 1] show ?thesis by auto
qed

definition example_replay :: ReplayConfig where
  "example_replay = \<lparr>rpc_FilePath = ''run.rd'', rpc_EquipmentID = 5, rpc_Equipment = example_equipment, rpc_RateHz = 0,
     rpc_LoopMode = False, rpc_MaxEvents = 0, rpc_PacketSize = 500\<rparr>"

definition example_replay_tree :: event_tree where
  "example_replay_tree = (gdc_header 122 7 1 100 0,
     [(ldc_header 42 7 3 100 0, [built_equipment ([0, 0, 0, 0, 17, 18, 0, 0, 0, 1] @ put_le32 END_WORD) example_equipment])])"

lemma example_replay_tree_ok: "event_magic_ok example_replay_tree"
proof -
  let ?e = "built_equipment ([0, 0, 0, 0, 17, 18, 0, 0, 0, 1] @ put_le32 END_WORD) example_equipment"
  have e: "equipment_ok ?e" by (rule built_equipment_ok) simp
  have "length (equipment_bytes ?e) = 42" by (simp add: built_equipment_bytes)
  then have l: "ldc_ok (ldc_header 42 7 3 100 0, [?e])"
    using e by (simp add: ldc_ok_def ldc_bytes_def length_event_words) (simp add: ldc_header_def)
  then have "length (ldc_bytes (ldc_header 42 7 3 100 0, [?e])) = 122"
    using length_ldc_bytes [OF l] \<open>length (equipment_bytes ?e) = 42\<close> by simp
  with l show ?thesis
    by (simp add: event_magic_ok_def event_ok_def ldc_magic_ok_def example_replay_tree_def event_bytes_def length_event_words)
      (simp add: ldc_header_def gdc_header_def)
qed

theorem replay_reproduces_readout_witness:
  "\<exists>r s. NewUDPSender None 6 = Inr s \<and>
     replayLoop 1000 \<lparr>re_writes = no_write_errors, re_signal = (\<lambda>_. SignalNone), re_clock = int, re_seek = None\<rparr>
       (replayer_init example_replay (event_bytes example_replay_tree) s 0) = Some (Ok r) \<and>
     us_sent (rp_sender r) = [[0, 0, 0, 0, 17, 18], [0, 0, 0, 1], put_le32 END_WORD]"
proof -
  let ?env = "\<lparr>re_writes = no_write_errors, re_signal = (\<lambda>_. SignalNone), re_clock = int, re_seek = None\<rparr>"
  let ?ps = "[[0, 0, 0, 0, 17, 18], [0, 0, 0, 1 :: byte]]"
  obtain s where s: "NewUDPSender None (int 6) = Inr s" by (simp add: NewUDPSender_def)
  have "find_marker 0 (concat ?ps @ put_le32 EndOfEventMarker) = Some (length (concat ?ps))"
    by (simp add: put_le32_def EndOfEventMarker_def le32_def)
  moreover have "fragments_ok 6 0 ?ps" by (simp add: be32_at_def be32_def le32_def)
  ultimately have "replayable 6 ?ps" by (simp add: replayable_def)
  moreover have "gm_get (sev_Equipments (tree_event example_replay_tree)) 5 = Some (flip_words (concat ?ps @ put_le32 EndOfEventMarker))"
    by (simp add: tree_event_def example_replay_tree_def ldc_equipments_def add_equipment_def gm_get_def gm_set_def gm_empty_def
        built_equipment_def equipment_header_def example_equipment_def end_marker)
  ultimately have "records (rpc_EquipmentID example_replay) 6 example_replay_tree (Some ?ps)"
    by (simp add: records_def example_replay_def)
  then have recs: "list_all2 (records (rpc_EquipmentID example_replay) 6) [example_replay_tree] [Some ?ps]" by simp
  have "length (event_bytes example_replay_tree) < 1000"
    by (simp add: event_bytes_def example_replay_tree_def ldc_bytes_def length_event_words built_equipment_bytes)
  then obtain r where "replayLoop 1000 ?env (replayer_init example_replay (event_bytes example_replay_tree) s 0) = Some (Ok r)"
      "us_sent (rp_sender r) = event_stream (recorded [Some ?ps])"
    using replay_reproduces_readout [of "[example_replay_tree]" 1000 6 s example_replay ?env "[Some ?ps]" 0 example_equipment]
      example_replay_tree_ok s recs by (auto simp: example_replay_def quiet_def)
  then show ?thesis using s by (intro exI [of _ r] exI [of _ s]) (simp add: recorded_def event_stream_def)
qed

end
