(* ===== verification/Sim_Generator.thy ===== *)
theory Sim_Generator
  imports Sim_Replay Duck_Logger
begin

text \<open>
  The generate mode of the device simulator (\<open>src/deviceSimulator/generator.go\<close>, \<open>datasource.go\<close>), the
  configuration of both modes (\<open>config.go\<close>) and the run control of the simulator (\<open>main.go\<close>).

  The random numbers of the generator, the writes on its connection and the stop signals are inputs.
  The lemmas feed what the generator sends to the LDC's builder of \<open>Ldc_Equipment\<close>. The locks and
  channels between \<open>Stop\<close> and the generating goroutine are a step relation of their own
  (\<open>gen_step\<close>): it has a deadlock. The channels of the replayer's pause and resume are modelled too.
\<close>

section \<open>Definitions\<close>

subsection \<open>Sources (datasource.go)\<close>

datatype SourceState = SourceStateStopped | SourceStateRunning | SourceStatePaused

fun source_state_string :: "SourceState \<Rightarrow> string" where
  "source_state_string SourceStateStopped = ''stopped''"
| "source_state_string SourceStateRunning = ''running''"
| "source_state_string SourceStatePaused = ''paused''"

record SourceMetrics =
  so_EventsSent :: nat
  so_PacketsSent :: nat
  so_BytesSent :: nat
  so_Errors :: nat
  so_ErrorsInjected :: nat

subsection \<open>Configuration (config.go)\<close>

record SimulatorParams =
  sp_EquipmentID :: int
  sp_FilePath :: string
  sp_RateHz :: rat
  sp_LoopMode :: bool
  sp_MaxEvents :: int
  sp_PacketSize :: int

record GeneratorConfig =
  gc_EquipmentID :: int
  gc_Equipment :: Equipment
  gc_RateHz :: rat
  gc_PacketsPerEvent :: int
  gc_PacketSize :: int
  gc_ErrorInjectionRate :: rat
  gc_MaxEvents :: int

text \<open>The result of a query for one row: the row, no row, or an error.\<close>

datatype 'a row_result = Row 'a | NoRows | QueryError string

record sim_db =
  sd_equipment :: "int \<Rightarrow> Equipment row_result"
  sd_simulatorParams :: "int \<Rightarrow> SimulatorParams row_result"
  sd_testDeviceParams :: "int \<Rightarrow> TestDeviceConfiguration row_result"

definition LoadEquipmentByID :: "sim_db \<Rightarrow> int \<Rightarrow> Equipment result" where
  "LoadEquipmentByID db equipmentID =
     (let failed = (\<lambda>err. Inl (''failed to load equipment '' @ show_int equipmentID @ '': '' @ err))
      in case sd_equipment db equipmentID of
           QueryError err \<Rightarrow> failed err
         | NoRows \<Rightarrow> failed ''sql: no rows in result set''
         | Row equipment \<Rightarrow>
             if \<not> eq_Enabled equipment then Inl (''equipment '' @ show_int equipmentID @ '' is disabled'')
             else Inr equipment)"

definition LoadSimulatorParams :: "sim_db \<Rightarrow> int \<Rightarrow> SimulatorParams result" where
  "LoadSimulatorParams db equipmentID =
     (case sd_simulatorParams db equipmentID of
        NoRows \<Rightarrow> Inr \<lparr>sp_EquipmentID = equipmentID, sp_FilePath = [], sp_RateHz = 1 / 10, sp_LoopMode = False,
                      sp_MaxEvents = 0, sp_PacketSize = DefaultPacketSize\<rparr>
      | QueryError err \<Rightarrow> Inl (''failed to load simulator params: '' @ err)
      | Row params \<Rightarrow> Inr params)"

text \<open>\<open>missing p\<close>: the file \<open>p\<close> does not exist.\<close>

definition BuildReplayConfig ::
  "sim_db \<Rightarrow> (string \<Rightarrow> bool) \<Rightarrow> int \<Rightarrow> string \<Rightarrow> rat \<Rightarrow> bool \<Rightarrow> int \<Rightarrow> int \<Rightarrow> ReplayConfig result" where
  "BuildReplayConfig db missing equipmentID filePath rateHz loopMode maxEvents fragmentSize =
     bind_result (LoadEquipmentByID db equipmentID) (\<lambda>equipment.
     bind_result
       (if filePath = [] \<or> rateHz = 0
        then bind_result (LoadSimulatorParams db equipmentID) (\<lambda>params.
               Inr (if filePath = [] then sp_FilePath params else filePath,
                    if rateHz = 0 then sp_RateHz params else rateHz))
        else Inr (filePath, rateHz)) (\<lambda>(path, rate).
     if path = [] then Inl ''file path is required''
     else if missing path then Inl (''file does not exist: '' @ path)
     else Inr \<lparr>rpc_FilePath = path, rpc_EquipmentID = word_of_int equipmentID, rpc_Equipment = equipment,
               rpc_RateHz = rate, rpc_LoopMode = loopMode, rpc_MaxEvents = maxEvents,
               rpc_PacketSize = (if fragmentSize = 0 then 7992 else fragmentSize)\<rparr>))"

definition LoadTestDeviceParams :: "sim_db \<Rightarrow> int \<Rightarrow> TestDeviceConfiguration result" where
  "LoadTestDeviceParams db equipmentID =
     (case sd_testDeviceParams db equipmentID of
        NoRows \<Rightarrow> Inr \<lparr>td_EquipmentID = equipmentID, td_EventRateMs = 1000, td_PacketsPerEvent = 10,
                      td_PacketSize = 7992, td_ErrorInjectionRate = 0, td_MaxEvents = 0\<rparr>
      | QueryError err \<Rightarrow> Inl (''failed to load test device params: '' @ err)
      | Row params \<Rightarrow> Inr params)"

definition BuildGeneratorConfig ::
  "sim_db \<Rightarrow> int \<Rightarrow> rat \<Rightarrow> int \<Rightarrow> rat \<Rightarrow> int \<Rightarrow> int \<Rightarrow> GeneratorConfig result" where
  "BuildGeneratorConfig db equipmentID rateHz packetsPerEvent errorInjectionRate maxEvents packetSize =
     bind_result (LoadEquipmentByID db equipmentID) (\<lambda>equipment.
     bind_result (LoadTestDeviceParams db equipmentID) (\<lambda>params.
     Inr \<lparr>gc_EquipmentID = equipmentID, gc_Equipment = equipment,
          gc_RateHz = (if rateHz \<le> 0
             then if td_EventRateMs params > 0 then 1000 / of_int (td_EventRateMs params) else 1
             else rateHz),
          gc_PacketsPerEvent = (if packetsPerEvent \<le> 0 then td_PacketsPerEvent params else packetsPerEvent),
          gc_PacketSize = (if packetSize \<le> 0
             then if td_PacketSize params \<le> 0 then 7992 else td_PacketSize params
             else packetSize),
          gc_ErrorInjectionRate = (if errorInjectionRate < 0 then td_ErrorInjectionRate params else errorInjectionRate),
          gc_MaxEvents = (if maxEvents \<le> 0 then td_MaxEvents params else maxEvents)\<rparr>))"

text \<open>\<open>GetDatabaseConnection\<close>: the connection string, from environment variables with defaults.\<close>

definition env_or :: "(string \<Rightarrow> string) \<Rightarrow> string \<Rightarrow> string \<Rightarrow> string" where
  "env_or getenv name d = (if getenv name = [] then d else getenv name)"

definition database_dsn :: "(string \<Rightarrow> string) \<Rightarrow> string" where
  "database_dsn getenv =
     env_or getenv ''DB_USER'' ''root'' @ '':'' @ env_or getenv ''DB_PASS'' ''duck'' @ ''@tcp('' @
     env_or getenv ''DB_HOST'' ''localhost'' @ '':'' @ env_or getenv ''DB_PORT'' ''3306'' @ '')/'' @
     env_or getenv ''DB_NAME'' ''duck'' @ ''?parseTime=true''"

subsection \<open>The generator (generator.go)\<close>

record Generator =
  ga_config :: GeneratorConfig
  ga_sender :: UDPSender
  ga_limiter :: RateLimiter
  ga_state :: SourceState
  ga_eventsSent :: nat
  ga_currentEventID :: u32
  ga_errorsInjected :: nat

definition NewGenerator :: "GeneratorConfig \<Rightarrow> GeneratorConfig" where
  "NewGenerator config = config\<lparr>
     gc_PacketsPerEvent := (if gc_PacketsPerEvent config \<le> 0 then 10 else gc_PacketsPerEvent config),
     gc_PacketSize := (if gc_PacketSize config \<le> 0 then 7992 else gc_PacketSize config),
     gc_RateHz := (if gc_RateHz config \<le> 0 then 1 else gc_RateHz config)\<rparr>"

text \<open>The generator that \<open>Start\<close> puts to work at the time \<open>now\<close>; the loop begins with event 1.\<close>

definition generator_start :: "GeneratorConfig \<Rightarrow> string option \<Rightarrow> int \<Rightarrow> string + Generator" where
  "generator_start config dial now =
     (case NewUDPSender dial (gc_PacketSize config) of
        Inl err \<Rightarrow> Inl (''failed to create UDP sender: '' @ err)
      | Inr s \<Rightarrow> Inr \<lparr>ga_config = config, ga_sender = s, ga_limiter = NewRateLimiter now (gc_RateHz config),
                      ga_state = SourceStateRunning, ga_eventsSent = 0, ga_currentEventID = 1,
                      ga_errorsInjected = 0\<rparr>)"

text \<open>The value a packet is filled with, from a random number below 254.\<close>

definition fill_value :: "nat \<Rightarrow> nat" where
  "fill_value r = (if r + 1 = 0xfa then r + 2 else r + 1)"

definition generated_packet :: "nat \<Rightarrow> nat \<Rightarrow> nat \<Rightarrow> bool \<Rightarrow> u32 \<Rightarrow> bytes outcome" where
  "generated_packet packetSize value packetIdx corrupt eventID =
     (if packetSize < 8 then Panic
      else
        let packet = put_be32_at 0 (of_nat packetIdx) (replicate packetSize (of_nat value));
            packet' = (if corrupt then put_be32_at 0 0xdeadbeef packet else packet)
        in Ok (put_le32_at 4 eventID packet'))"

text \<open>What the generator draws for one event, and what it meets in every iteration.\<close>

record event_draw =
  dr_float :: rat
  dr_errorIdx :: nat
  dr_values :: "nat \<Rightarrow> nat"

record generator_env =
  ge_writes :: udp_writes
  ge_stop :: "nat \<Rightarrow> bool"
  ge_clock :: "nat \<Rightarrow> int"
  ge_draw :: "nat \<Rightarrow> event_draw"

fun generate_packets ::
  "nat \<Rightarrow> udp_writes \<Rightarrow> event_draw \<Rightarrow> bool \<Rightarrow> nat \<Rightarrow> nat \<Rightarrow> nat \<Rightarrow> u32 \<Rightarrow> UDPSender \<Rightarrow> (UDPSender \<times> string option) outcome"
where
  "generate_packets 0 wr d injectError packetSize nPackets packetIdx eventID s = Ok (s, None)"
| "generate_packets (Suc n) wr d injectError packetSize nPackets packetIdx eventID s =
     (case generated_packet packetSize (fill_value (dr_values d packetIdx)) packetIdx
             (injectError \<and> packetIdx = dr_errorIdx d) eventID of
        Panic \<Rightarrow> Panic
      | Ok packet \<Rightarrow>
          (case SendRawPacket wr packet s of
             (s', Some err) \<Rightarrow>
               Ok (s', Some (''failed to send packet '' @ show_nat (packetIdx + 1) @ ''/'' @ show_nat nPackets @ '': '' @ err))
           | (s', None) \<Rightarrow>
               generate_packets n wr d injectError packetSize nPackets (packetIdx + 1) eventID s'))"

definition sendEvent ::
  "udp_writes \<Rightarrow> event_draw \<Rightarrow> GeneratorConfig \<Rightarrow> u32 \<Rightarrow> bool \<Rightarrow> UDPSender \<Rightarrow> (UDPSender \<times> string option) outcome" where
  "sendEvent wr d config eventID injectError s =
     (let nPackets = nat (gc_PacketsPerEvent config)
      in if gc_PacketsPerEvent config \<le> 0 then Panic
         else case generate_packets nPackets wr d injectError (nat (gc_PacketSize config)) nPackets 0 eventID s of
           Panic \<Rightarrow> Panic
         | Ok (s', Some err) \<Rightarrow> Ok (s', Some err)
         | Ok (s', None) \<Rightarrow>
             (case SendEndMarker wr s' of
                (s'', Some err) \<Rightarrow> Ok (s'', Some (''failed to send end marker: '' @ err))
              | (s'', None) \<Rightarrow> Ok (s'', None)))"

definition inject_error :: "GeneratorConfig \<Rightarrow> event_draw \<Rightarrow> bool" where
  "inject_error config d \<longleftrightarrow> dr_float d < gc_ErrorInjectionRate config"

text \<open>The loop; its \<open>k\<close>-th iteration has a draw, a clock and a look at the stop channel of its own.\<close>

fun generateLoop :: "nat \<Rightarrow> generator_env \<Rightarrow> nat \<Rightarrow> Generator \<Rightarrow> Generator outcome option" where
  "generateLoop 0 env k g = None"
| "generateLoop (Suc fuel) env k g =
     (if ge_stop env k then Some (Ok g)
      else
        let d = ge_draw env k;
            injectError = inject_error (ga_config g) d;
            limiter = Wait (ge_clock env k) (ga_limiter g)
        in case sendEvent (ge_writes env) d (ga_config g) (ga_currentEventID g) injectError (ga_sender g) of
             Panic \<Rightarrow> Some Panic
           | Ok (s, Some err) \<Rightarrow> Some (Ok (g\<lparr>ga_limiter := limiter, ga_sender := s\<rparr>))
           | Ok (s, None) \<Rightarrow>
               let g' = g\<lparr>ga_limiter := limiter, ga_sender := s,
                          ga_errorsInjected := ga_errorsInjected g + (if injectError then 1 else 0),
                          ga_eventsSent := ga_eventsSent g + 1, ga_currentEventID := ga_currentEventID g + 1\<rparr>
               in if gc_MaxEvents (ga_config g) > 0 \<and> int (ga_eventsSent g') \<ge> gc_MaxEvents (ga_config g)
                  then Some (Ok (g'\<lparr>ga_state := SourceStateStopped\<rparr>))
                  else generateLoop fuel env (k + 1) g')"

definition generator_metrics :: "Generator \<Rightarrow> SourceMetrics" where
  "generator_metrics g =
     (let m = us_metrics (ga_sender g)
      in \<lparr>so_EventsSent = ga_eventsSent g, so_PacketsSent = PacketsSent m, so_BytesSent = BytesSent m,
          so_Errors = Errors m, so_ErrorsInjected = ga_errorsInjected g\<rparr>)"

text \<open>\<open>GetMetrics\<close> of the replayer.\<close>

definition replayer_metrics :: "Replayer \<Rightarrow> SourceMetrics" where
  "replayer_metrics r =
     (let m = us_metrics (rp_sender r)
      in \<lparr>so_EventsSent = rp_eventsReplayed r, so_PacketsSent = PacketsSent m, so_BytesSent = BytesSent m,
          so_Errors = Errors m, so_ErrorsInjected = 0\<rparr>)"


subsection \<open>Stopping the generator (generator.go)\<close>

text \<open>
  \<open>Stop\<close> and the generating goroutine share the mutex \<open>stateMu\<close> and the channels \<open>stopCh\<close> and \<open>doneCh\<close>.
  \<open>Stop\<close> holds the mutex from its first statement until it returns, also while it waits for \<open>doneCh\<close>; the
  goroutine takes it when it has reached the maximum. The points are those between two operations the
  other side can observe. \<open>bounded\<close> says that the configuration has a maximum.
\<close>

datatype gen_pc = GenSelect | GenSend | GenLock | GenLocked | GenDone
datatype stop_pc = StopCalled | StopWaiting | StopReturned "string option"
datatype lock_owner = OwnerStop | OwnerLoop

record gen_control =
  gn_lock :: "lock_owner option"
  gn_state :: SourceState
  gn_stopClosed :: bool
  gn_pc :: gen_pc
  gn_stop :: stop_pc

definition gen_control_init :: gen_control where
  "gen_control_init = \<lparr>gn_lock = None, gn_state = SourceStateRunning, gn_stopClosed = False, gn_pc = GenSelect,
     gn_stop = StopCalled\<rparr>"

inductive gen_step :: "bool \<Rightarrow> gen_control \<Rightarrow> gen_control \<Rightarrow> bool" for bounded where
  gen_select: "gn_pc s = GenSelect \<Longrightarrow>
    gen_step bounded s (s\<lparr>gn_pc := (if gn_stopClosed s then GenDone else GenSend)\<rparr>)"
| gen_send_error: "gn_pc s = GenSend \<Longrightarrow> gen_step bounded s (s\<lparr>gn_pc := GenDone\<rparr>)"
| gen_send_next: "gn_pc s = GenSend \<Longrightarrow> gen_step bounded s (s\<lparr>gn_pc := GenSelect\<rparr>)"
| gen_send_last: "gn_pc s = GenSend \<Longrightarrow> bounded \<Longrightarrow> gen_step bounded s (s\<lparr>gn_pc := GenLock\<rparr>)"
| gen_lock: "gn_pc s = GenLock \<Longrightarrow> gn_lock s = None \<Longrightarrow>
    gen_step bounded s (s\<lparr>gn_pc := GenLocked, gn_lock := Some OwnerLoop\<rparr>)"
| gen_locked: "gn_pc s = GenLocked \<Longrightarrow>
    gen_step bounded s (s\<lparr>gn_pc := GenDone, gn_lock := None, gn_state := SourceStateStopped\<rparr>)"
| stop_refused: "gn_stop s = StopCalled \<Longrightarrow> gn_lock s = None \<Longrightarrow> gn_state s = SourceStateStopped \<Longrightarrow>
    gen_step bounded s (s\<lparr>gn_stop := StopReturned (Some ''generator is not running'')\<rparr>)"
| stop_close: "gn_stop s = StopCalled \<Longrightarrow> gn_lock s = None \<Longrightarrow> gn_state s \<noteq> SourceStateStopped \<Longrightarrow>
    gen_step bounded s (s\<lparr>gn_stop := StopWaiting, gn_lock := Some OwnerStop, gn_stopClosed := True,
      gn_state := SourceStateStopped\<rparr>)"
| stop_done: "gn_stop s = StopWaiting \<Longrightarrow> gn_pc s = GenDone \<Longrightarrow>
    gen_step bounded s (s\<lparr>gn_stop := StopReturned None, gn_lock := None\<rparr>)"

inductive gen_reachable :: "bool \<Rightarrow> gen_control \<Rightarrow> bool" for bounded where
  gen_reachable_init: "gen_reachable bounded gen_control_init"
| gen_reachable_step: "gen_reachable bounded s \<Longrightarrow> gen_step bounded s s' \<Longrightarrow> gen_reachable bounded s'"

inductive_cases gen_stepE: "gen_step bounded s s'"

subsection \<open>Controlling the replayer (replay.go)\<close>

text \<open>
  The state and the channels of a replayer: which of them are closed. The operations hold \<open>stateMu\<close> throughout;
  closing a closed channel panics. \<open>replay_take_resume\<close> is the step of the replay loop that ends a pause and makes
  new channels, without the mutex.
\<close>

record replay_control =
  rk_state :: SourceState
  rk_stopClosed :: bool
  rk_pauseClosed :: bool
  rk_resumeClosed :: bool

definition replay_control_init :: replay_control where
  "replay_control_init = \<lparr>rk_state = SourceStateStopped, rk_stopClosed = False, rk_pauseClosed = False,
     rk_resumeClosed = False\<rparr>"

text \<open>\<open>opened\<close> is the error of opening the file or of the sender; it leaves the state as it was set.\<close>

definition replay_Start :: "string option \<Rightarrow> replay_control \<Rightarrow> replay_control \<times> string option" where
  "replay_Start opened s =
     (if rk_state s \<noteq> SourceStateStopped then (s, Some ''replay is already running'')
      else (s\<lparr>rk_state := SourceStateRunning\<rparr>, opened))"

definition replay_Stop :: "replay_control \<Rightarrow> (replay_control \<times> string option) outcome" where
  "replay_Stop s =
     (if rk_state s = SourceStateStopped then Ok (s, Some ''replay is not running'')
      else if rk_stopClosed s then Panic
      else Ok (s\<lparr>rk_stopClosed := True, rk_state := SourceStateStopped\<rparr>, None))"

definition replay_Pause :: "replay_control \<Rightarrow> (replay_control \<times> string option) outcome" where
  "replay_Pause s =
     (if rk_state s \<noteq> SourceStateRunning then Ok (s, Some ''replay is not running'')
      else if rk_pauseClosed s then Panic
      else Ok (s\<lparr>rk_state := SourceStatePaused, rk_pauseClosed := True\<rparr>, None))"

definition replay_Resume :: "replay_control \<Rightarrow> (replay_control \<times> string option) outcome" where
  "replay_Resume s =
     (if rk_state s \<noteq> SourceStatePaused then Ok (s, Some ''replay is not paused'')
      else if rk_resumeClosed s then Panic
      else Ok (s\<lparr>rk_state := SourceStateRunning, rk_resumeClosed := True\<rparr>, None))"

definition replay_take_resume :: "replay_control \<Rightarrow> replay_control" where
  "replay_take_resume s =
     (if rk_pauseClosed s \<and> rk_resumeClosed s then s\<lparr>rk_pauseClosed := False, rk_resumeClosed := False\<rparr> else s)"

subsection \<open>The run control of the simulator (main.go)\<close>

text \<open>
  The state of the process, the source it started last, as what \<open>GetState\<close> and \<open>GetMetrics\<close> of the
  source return, and the five gauges.
\<close>

record sim_server =
  ss_state :: StateType
  ss_source :: "(SourceState \<times> SourceMetrics) option"
  ss_gauges :: SourceMetrics

definition zero_metrics :: SourceMetrics where
  "zero_metrics = \<lparr>so_EventsSent = 0, so_PacketsSent = 0, so_BytesSent = 0, so_Errors = 0, so_ErrorsInjected = 0\<rparr>"

text \<open>
  \<open>start\<close> is the outcome of the steps of the mode: connecting, configuring, creating and starting the source,
  each with the prefix of its answer. A source of the mode \<open>generate\<close> or of any other, which is replay.
\<close>

datatype start_failure = DatabaseError string | ConfigError string | CreateError string | StartError string

definition failure_message :: "string \<Rightarrow> start_failure \<Rightarrow> string" where
  "failure_message mode f =
     (case f of
        DatabaseError e \<Rightarrow> ''Database error: '' @ e
      | ConfigError e \<Rightarrow> ''Config error: '' @ e
      | CreateError e \<Rightarrow> (if mode = ''generate'' then ''Generator error: '' else ''Replayer error: '') @ e
      | StartError e \<Rightarrow> ''Start error: '' @ e)"

definition sim_StartRun ::
  "string \<Rightarrow> start_failure + SourceState \<times> SourceMetrics \<Rightarrow> sim_server \<Rightarrow> sim_server \<times> string" where
  "sim_StartRun mode start s =
     (if ss_state s \<noteq> INITIALIZED then (s, ''Already running'')
      else case start of
             Inl f \<Rightarrow> (s\<lparr>ss_state := INITIALIZED\<rparr>, failure_message mode f)
           | Inr source \<Rightarrow> (s\<lparr>ss_state := RUNNING, ss_source := Some source, ss_gauges := zero_metrics\<rparr>,
                           ''Started '' @ mode))"

text \<open>\<open>stopped\<close> is the source after its \<open>Stop\<close>, whose error is only logged.\<close>

definition sim_StopRun :: "(SourceState \<times> SourceMetrics) \<Rightarrow> sim_server \<Rightarrow> sim_server \<times> string" where
  "sim_StopRun stopped s =
     (if ss_state s = INITIALIZED then (s, ''Not running'')
      else (s\<lparr>ss_state := INITIALIZED, ss_source := map_option (\<lambda>_. stopped) (ss_source s)\<rparr>, ''Stopped''))"

definition sim_GetState :: "sim_server \<Rightarrow> string" where
  "sim_GetState s = state_string (ss_state s)"

definition sim_GetRunStatistics :: "sim_server \<Rightarrow> nat \<times> nat \<times> nat" where
  "sim_GetRunStatistics s = (so_EventsSent (ss_gauges s), so_BytesSent (ss_gauges s), so_Errors (ss_gauges s))"

definition sim_PingDevices :: "sim_server \<Rightarrow> bool" where
  "sim_PingDevices s = True"

text \<open>One tick of \<open>updateMetrics\<close>: the gauges afterwards, and whether it goes on.\<close>

definition updateMetrics_tick :: "sim_server \<Rightarrow> sim_server \<times> bool" where
  "updateMetrics_tick s =
     (case ss_source s of
        None \<Rightarrow> (s, False)
      | Some (st, m) \<Rightarrow> if st = SourceStateStopped then (s, False) else (s\<lparr>ss_gauges := m\<rparr>, True))"

section \<open>What the generator sends\<close>

definition generated_event :: "GeneratorConfig \<Rightarrow> event_draw \<Rightarrow> u32 \<Rightarrow> bytes list" where
  "generated_event config d eventID =
     map (\<lambda>j. put_be32 (if inject_error config d \<and> j = dr_errorIdx d then 0xdeadbeef else of_nat j) @
            put_le32 eventID @ replicate (nat (gc_PacketSize config) - 8) (of_nat (fill_value (dr_values d j))))
       [0..<nat (gc_PacketsPerEvent config)]"


lemma generated_packet_bytes:
  assumes "8 \<le> n"
  shows "generated_packet n v j corrupt ev =
    Ok (put_be32 (if corrupt then 0xdeadbeef else of_nat j) @ put_le32 ev @ replicate (n - 8) (of_nat v))"
proof -
  obtain m where n: "n = 8 + m" using assms le_Suc_ex by blast
  have "replicate n (of_nat v) = replicate 4 (of_nat v) @ replicate 4 (of_nat v) @ replicate m (of_nat v :: byte)"
    by (simp add: n replicate_add [symmetric])
  then show ?thesis
    by (simp add: n generated_packet_def Let_def put_be32_at_def put_le32_at_def put_at_def)
qed

lemma generate_packets_ok:
  assumes "8 \<le> nat (gc_PacketSize c)"
  shows "generate_packets n no_write_errors d (inject_error c d) (nat (gc_PacketSize c)) m j ev s =
    Ok (sent_packets (map (\<lambda>j. put_be32 (if inject_error c d \<and> j = dr_errorIdx d then 0xdeadbeef else of_nat j) @
          put_le32 ev @ replicate (nat (gc_PacketSize c) - 8) (of_nat (fill_value (dr_values d j)))) [j..<j + n]) s, None)"
  by (induction n arbitrary: j s)
    (simp_all add: generated_packet_bytes [OF assms] SendRawPacket_def counted_write_ok upt_conv_Cons del: upt_Suc)

lemma sendEvent_ok:
  assumes "8 \<le> gc_PacketSize c" and "0 < gc_PacketsPerEvent c"
  shows "sendEvent no_write_errors d c ev (inject_error c d) s =
    Ok (sent_packets (generated_event c d ev @ [put_le32 EndOfEventMarker]) s, None)"
  using assms
  by (simp add: sendEvent_def Let_def generate_packets_ok SendEndMarker_def counted_write_ok generated_event_def nat_le_eq_zle)

definition generated_run :: "generator_env \<Rightarrow> GeneratorConfig \<Rightarrow> nat \<Rightarrow> nat \<Rightarrow> bytes list list" where
  "generated_run env c a b = map (\<lambda>i. generated_event c (ge_draw env i) (of_nat (i + 1))) [a..<b]"

lemma generateLoop_run:
  assumes size: "8 \<le> gc_PacketSize (ga_config g)" "0 < gc_PacketsPerEvent (ga_config g)"
    and env: "ge_writes env = no_write_errors" "\<forall>k. \<not> ge_stop env k"
    and max: "gc_MaxEvents (ga_config g) = int (k + Suc n)"
    and g: "ga_eventsSent g = k" "ga_currentEventID g = of_nat (k + 1)" and fuel: "n < fuel"
  shows "\<exists>g'. generateLoop fuel env k g = Some (Ok g') \<and> ga_state g' = SourceStateStopped \<and>
    us_sent (ga_sender g') = us_sent (ga_sender g) @ event_stream (generated_run env (ga_config g) k (k + Suc n)) \<and>
    ga_eventsSent g' = k + Suc n \<and>
    ga_errorsInjected g' = ga_errorsInjected g +
      length (filter (\<lambda>i. inject_error (ga_config g) (ge_draw env i)) [k..<k + Suc n])"
  using max g fuel size
proof (induction n arbitrary: k g fuel)
  case 0
  then obtain m where m: "fuel = Suc m" by (cases fuel) auto
  show ?case
    using 0 env
    by (simp add: m Let_def sendEvent_ok generated_run_def event_stream_def sent_packets_def end_marker)
next
  case (Suc n)
  then obtain m where m: "fuel = Suc m" by (cases fuel) auto
  let ?c = "ga_config g" and ?d = "ge_draw env k"
  let ?g = "g\<lparr>ga_limiter := Wait (ge_clock env k) (ga_limiter g),
      ga_sender := sent_packets (generated_event ?c ?d (of_nat (k + 1)) @ [put_le32 EndOfEventMarker]) (ga_sender g),
      ga_errorsInjected := ga_errorsInjected g + (if inject_error ?c ?d then 1 else 0),
      ga_eventsSent := ga_eventsSent g + 1, ga_currentEventID := ga_currentEventID g + 1\<rparr>"
  have step: "generateLoop fuel env k g = generateLoop m env (k + 1) ?g"
    using Suc.prems env by (simp add: m Let_def sendEvent_ok)
  obtain g' where "generateLoop m env (k + 1) ?g = Some (Ok g')" "ga_state g' = SourceStateStopped"
      "us_sent (ga_sender g') = us_sent (ga_sender ?g) @ event_stream (generated_run env ?c (k + 1) (k + 1 + Suc n))"
      "ga_eventsSent g' = k + 1 + Suc n"
      "ga_errorsInjected g' = ga_errorsInjected ?g +
        length (filter (\<lambda>i. inject_error ?c (ge_draw env i)) [k + 1..<k + 1 + Suc n])"
    using Suc.IH [of ?g "k + 1" m] Suc.prems m by auto
  moreover have "generated_run env ?c k (k + Suc (Suc n)) =
      generated_event ?c ?d (of_nat (k + 1)) # generated_run env ?c (k + 1) (k + 1 + Suc n)"
    by (simp add: generated_run_def upt_conv_Cons del: upt_Suc)
  moreover have "[k..<k + Suc (Suc n)] = k # [k + 1..<k + 1 + Suc n]" by (simp add: upt_conv_Cons del: upt_Suc)
  ultimately show ?case
    unfolding step
    by (auto simp: event_stream_def sent_packets_def end_marker simp del: upt_Suc)
qed

subsection \<open>What the LDC makes of it\<close>

lemma generated_event_packets:
  assumes "8 \<le> gc_PacketSize c" and p: "p \<in> set (generated_event c d ev)"
  shows "\<not> is_end p"
  using assms by (auto simp: generated_event_def is_end_def)

lemma generated_event_seg_ok:
  assumes size: "8 \<le> gc_PacketSize c" and n: "gc_PacketsPerEvent c \<le> 0xdeadbeef"
    and idx: "dr_errorIdx d < nat (gc_PacketsPerEvent c)"
  shows "seg_ok 0 (generated_event c d ev) \<longleftrightarrow> \<not> inject_error c d"
proof -
  let ?n = "nat (gc_PacketsPerEvent c)"
  let ?w = "\<lambda>j. if inject_error c d \<and> j = dr_errorIdx d then 0xdeadbeef else of_nat j :: u32"
  have "(0xdeadbeef :: u32) \<noteq> of_nat j" if "j < ?n" for j
  proof
    assume "(0xdeadbeef :: u32) = of_nat j"
    then have "unat (0xdeadbeef :: u32) = unat (of_nat j :: u32)" by simp
    also have "\<dots> = j" using that n by (intro unat_of_nat_u32) simp
    finally show False using that n by simp
  qed
  then have "(\<forall>j \<in> {0..<?n}. ?w j = of_nat j) \<longleftrightarrow> \<not> inject_error c d" using idx by auto
  moreover have "seg_ok (int 0) (generated_event c d ev) \<longleftrightarrow> (\<forall>j \<in> {0..<?n}. ?w j = of_nat j)"
    unfolding generated_event_def using size by (subst seg_ok_upt) (simp_all add: be32_at_put_be32)
  ultimately show ?thesis by simp
qed

lemma emitted_numbers:
  "map ed_EventID (emitted e k (map f [a..<b])) =
     map (\<lambda>i. k + int i - int a) (filter (\<lambda>i. seg_ok 0 (f i)) [a..<b])"
proof (induction "b - a" arbitrary: a k)
  case 0
  then show ?case by simp
next
  case (Suc n)
  then have "a < b" by simp
  with Suc(1) [of "Suc a" "k + 1"] Suc(2) show ?case
    by (simp add: upt_conv_Cons emitted_Cons)
qed


text \<open>
  C17. A generated run is read out as it was meant. With a maximum of \<open>n\<close> events, packets of at least 8 bytes
  and no write error, the generator ends after exactly \<open>n\<close> events and counts the errors it injected;
  an LDC that receives its packets emits exactly the events without an injected error, under the numbers the
  generator gave them, and asks for a stop exactly when an error was injected.
\<close>

theorem generated_run_is_read_out:
  assumes "generator_start c None now = Inr g" and "gc_MaxEvents c = int n" and "0 < n"
    and "8 \<le> gc_PacketSize c" and "0 < gc_PacketsPerEvent c" and "gc_PacketsPerEvent c \<le> 0xdeadbeef"
    and "ge_writes env = no_write_errors" and "\<forall>k. \<not> ge_stop env k"
    and "\<forall>k. dr_errorIdx (ge_draw env k) < nat (gc_PacketsPerEvent c)"
  shows "\<exists>g'. generateLoop n env 0 g = Some (Ok g') \<and> ga_state g' = SourceStateStopped \<and> ga_eventsSent g' = n \<and>
    ga_errorsInjected g' = length (filter (\<lambda>i. inject_error c (ge_draw env i)) [0..<n]) \<and>
    map ed_EventID (b_out (build_packets e (us_sent (ga_sender g')))) =
      map (\<lambda>i. int i + 1) (filter (\<lambda>i. \<not> inject_error c (ge_draw env i)) [0..<n]) \<and>
    (b_stops (build_packets e (us_sent (ga_sender g'))) = [] \<longleftrightarrow> ga_errorsInjected g' = 0)"
proof -
  obtain k where k: "n = Suc k" using assms(3) by (cases n) auto
  have g: "ga_config g = c" "us_sent (ga_sender g) = []" "ga_eventsSent g = 0" "ga_currentEventID g = 1"
      "ga_errorsInjected g = 0"
    using assms(1) by (auto simp: generator_start_def NewUDPSender_def)
  let ?segs = "generated_run env c 0 n"
  obtain g' where g': "generateLoop n env 0 g = Some (Ok g')" "ga_state g' = SourceStateStopped" "ga_eventsSent g' = n"
      "ga_errorsInjected g' = length (filter (\<lambda>i. inject_error c (ge_draw env i)) [0..<n])"
      and sent: "us_sent (ga_sender g') = event_stream ?segs"
    using generateLoop_run [of g env 0 k n] assms g by (auto simp: k simp del: upt_Suc)
  have ok: "seg_ok 0 (generated_event c (ge_draw env i) ev) \<longleftrightarrow> \<not> inject_error c (ge_draw env i)" for i ev
    using generated_event_seg_ok assms(4,6,9) by blast
  have "\<forall>seg \<in> set ?segs. \<forall>p \<in> set seg. \<not> is_end p"
    using generated_event_packets [OF assms(4)] by (auto simp: generated_run_def)
  moreover have "clean builder_init" by (simp add: clean_def builder_init_def)
  ultimately have b: "b_out (build_packets e (event_stream ?segs)) = emitted e 1 ?segs"
      "b_stops (build_packets e (event_stream ?segs)) = [] \<longleftrightarrow> (\<forall>seg \<in> set ?segs. seg_ok 0 seg)"
    using build_events [of builder_init ?segs e] by (auto simp: build_packets_def builder_init_def)
  have "(\<forall>seg \<in> set ?segs. seg_ok 0 seg) \<longleftrightarrow> ga_errorsInjected g' = 0"
    unfolding g'(4) by (auto simp: generated_run_def ok filter_empty_conv)
  moreover have "map ed_EventID (emitted e 1 ?segs) =
      map (\<lambda>i. int i + 1) (filter (\<lambda>i. \<not> inject_error c (ge_draw env i)) [0..<n])"
    unfolding generated_run_def emitted_numbers ok by (simp add: add.commute)
  ultimately show ?thesis using g' sent b by auto
qed

definition example_generator :: GeneratorConfig where
  "example_generator = \<lparr>gc_EquipmentID = 5, gc_Equipment = example_equipment, gc_RateHz = 1, gc_PacketsPerEvent = 2,
     gc_PacketSize = 12, gc_ErrorInjectionRate = 1 / 2, gc_MaxEvents = 3\<rparr>"

definition example_draws :: generator_env where
  "example_draws = \<lparr>ge_writes = no_write_errors, ge_stop = (\<lambda>_. False), ge_clock = int,
     ge_draw = (\<lambda>k. \<lparr>dr_float = (if k = 1 then 1 / 4 else 3 / 4), dr_errorIdx = 1, dr_values = (\<lambda>j. 249)\<rparr>)\<rparr>"

theorem generated_run_is_read_out_witness:
  "\<exists>g g'. generator_start example_generator None 0 = Inr g \<and> generateLoop 3 example_draws 0 g = Some (Ok g') \<and>
     map ed_EventID (b_out (build_packets example_equipment (us_sent (ga_sender g')))) = [1, 3]"
proof -
  obtain g where g: "generator_start example_generator None 0 = Inr g"
    by (simp add: generator_start_def NewUDPSender_def)
  have "filter (\<lambda>i. \<not> inject_error example_generator (ge_draw example_draws i)) [0..<3] = [0, 2]"
    by (simp add: numeral_eq_Suc inject_error_def example_generator_def example_draws_def)
  then show ?thesis
    using generated_run_is_read_out [OF g, of 3 example_draws example_equipment] g
    by (auto simp: example_generator_def example_draws_def)
qed

section \<open>The deadlock of Stop\<close>

definition gen_inv :: "bool \<Rightarrow> gen_control \<Rightarrow> bool" where
  "gen_inv bounded s \<longleftrightarrow>
     (gn_lock s = Some OwnerStop \<longleftrightarrow> gn_stop s = StopWaiting) \<and> (gn_lock s = Some OwnerLoop \<longleftrightarrow> gn_pc s = GenLocked) \<and>
     (gn_stop s = StopWaiting \<longrightarrow> gn_stopClosed s) \<and> (gn_pc s \<in> {GenLock, GenLocked} \<longrightarrow> bounded)"

lemma gen_inv_step: "gen_step bounded s s' \<Longrightarrow> gen_inv bounded s \<Longrightarrow> gen_inv bounded s'"
  by (erule gen_stepE) (auto simp: gen_inv_def)

lemma gen_reachable_inv: "gen_reachable bounded s \<Longrightarrow> gen_inv bounded s"
proof (induction rule: gen_reachable.induct)
  case gen_reachable_init
  show ?case by (simp add: gen_inv_def gen_control_init_def)
next
  case (gen_reachable_step s s')
  then show ?case using gen_inv_step by blast
qed

definition gen_stuck :: "bool \<Rightarrow> gen_control \<Rightarrow> bool" where
  "gen_stuck bounded s \<longleftrightarrow> (\<forall>s'. \<not> gen_step bounded s s')"

lemma waiting_step:
  assumes "gen_inv bounded s" and "gn_stop s = StopWaiting" and "gn_pc s \<noteq> GenLock"
  shows "\<not> gen_stuck bounded s"
proof -
  have "gn_pc s \<noteq> GenLocked" using assms by (auto simp: gen_inv_def)
  then show ?thesis
    using assms gen_select [of s] gen_send_next [of s] stop_done [of s] unfolding gen_stuck_def
    by (cases "gn_pc s") blast+
qed

lemma lock_stuck: "gn_stop s = StopWaiting \<Longrightarrow> gn_pc s = GenLock \<Longrightarrow> gn_lock s = Some OwnerStop \<Longrightarrow> gen_stuck bounded s"
  unfolding gen_stuck_def by (auto elim!: gen_stepE)

text \<open>The interleaving: the last event is being sent when \<open>Stop\<close> is called.\<close>

lemma deadlock_reachable:
  "\<exists>s. gen_reachable True s \<and> gn_stop s = StopWaiting \<and> gn_pc s = GenLock"
proof -
  let ?s1 = "gen_control_init\<lparr>gn_pc := GenSend\<rparr>"
  let ?s2 = "?s1\<lparr>gn_pc := GenLock\<rparr>"
  let ?s3 = "?s2\<lparr>gn_stop := StopWaiting, gn_lock := Some OwnerStop, gn_stopClosed := True, gn_state := SourceStateStopped\<rparr>"
  have "gen_reachable True ?s1"
    using gen_reachable_step [OF gen_reachable_init gen_select [of gen_control_init]]
    by (simp add: gen_control_init_def)
  then have "gen_reachable True ?s2"
    by (rule gen_reachable_step) (use gen_send_last [of ?s1 True] in simp)
  then have "gen_reachable True ?s3"
    by (rule gen_reachable_step) (use stop_close [of ?s2 True] in \<open>simp add: gen_control_init_def\<close>)
  then show ?thesis by (intro exI [of _ ?s3]) simp
qed

text \<open>
  C34. With a maximum of events, \<open>Stop\<close> of the generator can deadlock: it waits for the goroutine while it holds
  the mutex that the goroutine needs to end at the maximum, and nothing can happen any more. That is
  the only way: whenever a waiting \<open>Stop\<close> is stuck, the goroutine is at this point; without a maximum a
  waiting \<open>Stop\<close> is never stuck.
\<close>

theorem generator_stop_deadlock:
  "(\<exists>s. gen_reachable True s \<and> gn_stop s = StopWaiting \<and> gen_stuck True s) \<and>
   (\<forall>bounded s. gen_reachable bounded s \<longrightarrow> gn_stop s = StopWaiting \<longrightarrow>
      (gen_stuck bounded s \<longleftrightarrow> gn_pc s = GenLock) \<and> (\<not> bounded \<longrightarrow> \<not> gen_stuck bounded s))"
proof (intro conjI allI impI)
  show "\<exists>s. gen_reachable True s \<and> gn_stop s = StopWaiting \<and> gen_stuck True s"
    using deadlock_reachable gen_reachable_inv lock_stuck unfolding gen_inv_def by blast
next
  fix bounded s
  assume s: "gen_reachable bounded s" "gn_stop s = StopWaiting"
  then have inv: "gen_inv bounded s" by (blast intro: gen_reachable_inv)
  then show "gen_stuck bounded s \<longleftrightarrow> gn_pc s = GenLock"
    using s waiting_step lock_stuck unfolding gen_inv_def by blast
  show "\<not> gen_stuck bounded s" if "\<not> bounded"
    using that inv s waiting_step [OF inv s(2)] unfolding gen_inv_def by blast
qed

theorem generator_stop_deadlock_witness:
  "\<exists>s. gen_reachable True s \<and> gn_stop s = StopWaiting \<and> gn_pc s = GenLock"
  using generator_stop_deadlock by blast

section \<open>The run control of the simulator\<close>

text \<open>
  A failed start leaves no trace. A source that ended by itself is not looked at any more: what it sent since the
  last tick never reaches the gauges, and so not the statistics of the run.
\<close>

lemma sim_StartRun_failed: "fst (sim_StartRun mode (Inl f) s) = s"
  by (cases s) (auto simp: sim_StartRun_def)

lemma updateMetrics_stale:
  "ss_source s = Some (SourceStateStopped, m) \<Longrightarrow>
   sim_GetRunStatistics (fst (updateMetrics_tick s)) = sim_GetRunStatistics s \<and> \<not> snd (updateMetrics_tick s)"
  by (simp add: updateMetrics_tick_def)

section \<open>Pausing the replay\<close>

text \<open>
  A second pause is safe once the loop has taken the resume; before that, it closes a closed channel.
\<close>

lemma pause_resume_pause:
  assumes "rk_state s = SourceStateRunning" and "\<not> rk_pauseClosed s" and "\<not> rk_resumeClosed s"
    and "replay_Pause s = Ok (s1, e1)" and "replay_Resume s1 = Ok (s2, e2)"
  shows "replay_Pause s2 = Panic" and "\<exists>s3. replay_Pause (replay_take_resume s2) = Ok (s3, None)"
  using assms by (auto simp: replay_Pause_def replay_Resume_def replay_take_resume_def split: if_splits)

end
