(* ===== verification/Api_Control.thy ===== *)
theory Api_Control
  imports Api_Database Duck_Logger
begin

text \<open>
  Run control in the API server: \<open>src/api/runTransition.go\<close>, \<open>control.go\<close>, \<open>controlRoutines.go\<close>, \<open>runinfo.go\<close>,
  \<open>rpc.go\<close>, \<open>rpcClient.go\<close>, \<open>apiHandlerControl.go\<close>, \<open>metrics.go\<close> and \<open>restart.go\<close>.

  The operations change a \<open>world\<close>: the database, the calls sent to the servers, the log, the notifications to TOPI and
  the file with the run number. What the servers answer is an argument (\<open>servers\<close>), as are the faults of the
  database connection, the collation of the database and the time. The API starts a goroutine per server and collects
  their errors from a channel in any order; the model lists them in the order of the configuration, and the
  results (success, the set of the errors, the rows of the statistics) do not depend on it.
\<close>

section \<open>Definitions\<close>

subsection \<open>Transitions (runTransition.go)\<close>

datatype RunTransitionState = TransitionIdle | TransitionStarting | TransitionStopping | TransitionError

record RunTransition =
  rt_state :: RunTransitionState
  rt_errMsg :: string

definition tryBeginStart :: "RunTransition \<Rightarrow> RunTransition \<times> bool \<times> string" where
  "tryBeginStart rt =
     (case rt_state rt of
        TransitionStarting \<Rightarrow> (rt, False, ''start already in progress'')
      | TransitionStopping \<Rightarrow> (rt, False, ''stop in progress, cannot start'')
      | _ \<Rightarrow> (\<lparr>rt_state = TransitionStarting, rt_errMsg = []\<rparr>, True, []))"

definition tryBeginStop :: "RunTransition \<Rightarrow> RunTransition \<times> bool \<times> string" where
  "tryBeginStop rt =
     (case rt_state rt of
        TransitionStopping \<Rightarrow> (rt, False, ''stop already in progress'')
      | TransitionStarting \<Rightarrow> (rt, False, ''start in progress, cannot stop'')
      | _ \<Rightarrow> (\<lparr>rt_state = TransitionStopping, rt_errMsg = []\<rparr>, True, []))"

definition setDone :: "RunTransition \<Rightarrow> RunTransition" where
  "setDone rt = \<lparr>rt_state = TransitionIdle, rt_errMsg = []\<rparr>"

definition setError :: "string \<Rightarrow> RunTransition \<Rightarrow> RunTransition" where
  "setError msg rt = \<lparr>rt_state = TransitionError, rt_errMsg = msg\<rparr>"

text \<open>\<open>WaitForIdle\<close>, over the states it sees until the deadline.\<close>

fun WaitForIdle :: "RunTransitionState list \<Rightarrow> bool" where
  "WaitForIdle [] = False"
| "WaitForIdle (st # sts) = (st = TransitionIdle \<or> st = TransitionError \<or> WaitForIdle sts)"

fun stateString :: "RunTransitionState \<Rightarrow> string" where
  "stateString TransitionStarting = ''starting''"
| "stateString TransitionStopping = ''stopping''"
| "stateString TransitionError = ''error''"
| "stateString TransitionIdle = ''idle''"

definition handleRunTransitionPanic :: "string \<Rightarrow> RunTransition \<Rightarrow> RunTransition" where
  "handleRunTransitionPanic recovered rt = setError (''panic: '' @ recovered) rt"

subsection \<open>The servers and the world\<close>

text \<open>What a server answers to a call at an address and a port; \<open>Inl\<close> is a failure of the call.\<close>

record servers =
  sr_StartRun :: "string \<Rightarrow> int \<Rightarrow> string result"
  sr_StopRun :: "string \<Rightarrow> int \<Rightarrow> string result"
  sr_GetState :: "string \<Rightarrow> int \<Rightarrow> string result"
  sr_PingDevices :: "string \<Rightarrow> int \<Rightarrow> bool result"
  sr_GetRunStatistics :: "string \<Rightarrow> int \<Rightarrow> (int \<times> int \<times> int) result"
  sr_topi :: "string option"
  sr_writeFile :: "string option"

datatype rpc_call = CallPingDevices string int | CallStartRun string int | CallStopRun string int
  | CallGetState string int | CallGetRunStatistics string int

record world =
  w_db :: database
  w_calls :: "rpc_call list"
  w_log :: "(int \<times> string) list"
  w_summaries :: "RunStatistics list"
  w_topi :: "(string \<times> int \<times> string) list"
  w_runfile :: "string option"

definition log_err :: "string \<Rightarrow> world \<Rightarrow> world" where
  "log_err m w = w\<lparr>w_log := w_log w @ [(LevelError, m)]\<rparr>"

definition log_nonstopping :: "string \<Rightarrow> world \<Rightarrow> world" where
  "log_nonstopping m w = w\<lparr>w_log := w_log w @ [(LevelNonStoppingError, m)]\<rparr>"

definition call :: "rpc_call \<Rightarrow> world \<Rightarrow> world" where
  "call c w = w\<lparr>w_calls := w_calls w @ [c]\<rparr>"

definition error_of :: "'a result \<Rightarrow> string option" where
  "error_of r = (case r of Inl e \<Rightarrow> Some e | Inr _ \<Rightarrow> None)"

subsection \<open>Calls (rpc.go, rpcClient.go)\<close>

text \<open>The answer of the server is logged for debugging only: a refusal is no error.\<close>

definition startServerRPC :: "servers \<Rightarrow> string \<Rightarrow> int \<Rightarrow> string option" where
  "startServerRPC sv ip port =
     map_option (\<lambda>e. ''could not start server via ConnectRPC: '' @ e) (error_of (sr_StartRun sv ip port))"

definition stopServerRPC :: "servers \<Rightarrow> string \<Rightarrow> int \<Rightarrow> string option" where
  "stopServerRPC sv ip port =
     map_option (\<lambda>e. ''could not stop server via ConnectRPC: '' @ e) (error_of (sr_StopRun sv ip port))"

definition getStateRPC :: "servers \<Rightarrow> string \<Rightarrow> int \<Rightarrow> string option" where
  "getStateRPC sv ip port =
     map_option (\<lambda>e. ''could not get server state via ConnectRPC: '' @ e) (error_of (sr_GetState sv ip port))"

definition pingDevicesRPC :: "servers \<Rightarrow> string \<Rightarrow> int \<Rightarrow> bool result" where
  "pingDevicesRPC sv ip port =
     (case sr_PingDevices sv ip port of Inl e \<Rightarrow> Inl (''error calling ping via ConnectRPC: '' @ e) | Inr b \<Rightarrow> Inr b)"

text \<open>The field \<open>Errors\<close> of the result is not assigned.\<close>

definition fetchRunStatisticsRPC :: "servers \<Rightarrow> string \<Rightarrow> int \<Rightarrow> RunStatistics result" where
  "fetchRunStatisticsRPC sv ip port =
     (case sr_GetRunStatistics sv ip port of
        Inl e \<Rightarrow> Inl (''error getting run statistics via ConnectRPC: '' @ e)
      | Inr (events, bytes, errs) \<Rightarrow> Inr \<lparr>rs_Host = [], rs_Events = events, rs_Bytes = bytes, rs_Errors = 0\<rparr>)"

subsection \<open>The routines (controlRoutines.go)\<close>

definition api_pingDevices :: "servers \<Rightarrow> LDCConfiguration \<Rightarrow> int \<Rightarrow> string option" where
  "api_pingDevices sv ldc grpcPort =
     (if ldc_Enabled ldc
      then (case pingDevicesRPC sv (ldc_IP ldc) grpcPort of
              Inl e \<Rightarrow> Some (''error executing ping on '' @ ldc_Name ldc @ '': '' @ e)
            | Inr success \<Rightarrow> if \<not> success then Some (''ping unsuccessful from LDC '' @ ldc_Name ldc) else None)
      else None)"

definition startServer :: "servers \<Rightarrow> string \<Rightarrow> string \<Rightarrow> int \<Rightarrow> string option" where
  "startServer sv ip name port =
     map_option (\<lambda>e. ''could not start server '' @ name @ '': '' @ e) (startServerRPC sv ip port)"

definition stopServer :: "servers \<Rightarrow> string \<Rightarrow> string \<Rightarrow> int \<Rightarrow> string option" where
  "stopServer sv ip name port =
     map_option (\<lambda>e. ''could not stop server '' @ name @ '': '' @ e) (stopServerRPC sv ip port)"

definition getServerState :: "servers \<Rightarrow> string \<Rightarrow> string \<Rightarrow> int \<Rightarrow> string option" where
  "getServerState sv ip name port =
     map_option (\<lambda>e. ''could not get server state '' @ name @ '': '' @ e) (getStateRPC sv ip port)"

text \<open>
  The common shape of the routines that call every server: the call (none to a disabled LDC when pinging) and the
  error of each; every error is logged, and the result is whether there was none.
\<close>

fun call_all :: "(string \<Rightarrow> world \<Rightarrow> world) \<Rightarrow> (rpc_call option \<times> string option) list \<Rightarrow> world \<Rightarrow> world \<times> bool" where
  "call_all report [] w = (w, True)"
| "call_all report ((c, err) # cs) w =
     (let w1 = (case c of None \<Rightarrow> w | Some rc \<Rightarrow> call rc w);
          w2 = (case err of None \<Rightarrow> w1 | Some e \<Rightarrow> report e w1);
          (w3, success) = call_all report cs w2
      in (w3, success \<and> err = None))"

definition sendPingToAllLDCs :: "servers \<Rightarrow> LDCConfiguration list \<Rightarrow> world \<Rightarrow> world \<times> bool" where
  "sendPingToAllLDCs sv ldcs = call_all log_err (map (\<lambda>l.
     (if ldc_Enabled l then Some (CallPingDevices (ldc_IP l) (ldc_GRPCPort l)) else None,
      api_pingDevices sv l (ldc_GRPCPort l))) ldcs)"

definition startGDCs :: "servers \<Rightarrow> GDCConfiguration list \<Rightarrow> world \<Rightarrow> world \<times> bool" where
  "startGDCs sv gdcs = call_all log_err (map (\<lambda>g.
     (Some (CallStartRun (gdc_IP g) (gdc_GRPCPort g)), startServer sv (gdc_IP g) (gdc_Name g) (gdc_GRPCPort g))) gdcs)"

definition startLDCs :: "servers \<Rightarrow> LDCConfiguration list \<Rightarrow> world \<Rightarrow> world \<times> bool" where
  "startLDCs sv ldcs = call_all log_err (map (\<lambda>l.
     (Some (CallStartRun (ldc_IP l) (ldc_GRPCPort l)), startServer sv (ldc_IP l) (ldc_Name l) (ldc_GRPCPort l))) ldcs)"

definition stopGDCs :: "servers \<Rightarrow> GDCConfiguration list \<Rightarrow> world \<Rightarrow> world \<times> bool" where
  "stopGDCs sv gdcs = call_all log_err (map (\<lambda>g.
     (Some (CallStopRun (gdc_IP g) (gdc_GRPCPort g)), stopServer sv (gdc_IP g) (gdc_Name g) (gdc_GRPCPort g))) gdcs)"

definition stopLDCs :: "servers \<Rightarrow> LDCConfiguration list \<Rightarrow> world \<Rightarrow> world \<times> bool" where
  "stopLDCs sv ldcs = call_all log_err (map (\<lambda>l.
     (Some (CallStopRun (ldc_IP l) (ldc_GRPCPort l)), stopServer sv (ldc_IP l) (ldc_Name l) (ldc_GRPCPort l))) ldcs)"

definition getLDCStates :: "servers \<Rightarrow> LDCConfiguration list \<Rightarrow> world \<Rightarrow> world \<times> bool" where
  "getLDCStates sv ldcs = call_all log_nonstopping (map (\<lambda>l.
     (Some (CallGetState (ldc_IP l) (ldc_GRPCPort l)), getServerState sv (ldc_IP l) (ldc_Name l) (ldc_GRPCPort l))) ldcs)"

definition getGDCStates :: "servers \<Rightarrow> GDCConfiguration list \<Rightarrow> world \<Rightarrow> world \<times> bool" where
  "getGDCStates sv gdcs = call_all log_nonstopping (map (\<lambda>g.
     (Some (CallGetState (gdc_IP g) (gdc_GRPCPort g)), getServerState sv (gdc_IP g) (gdc_Name g) (gdc_GRPCPort g))) gdcs)"

subsection \<open>Runs and statistics (runinfo.go)\<close>

definition addRun :: "faults \<Rightarrow> database \<Rightarrow> database result" where
  "addRun f db =
     bind_result (sql_GetLatestRunWithTimestamp f db) (\<lambda>r.
       if nvalid (ru_Start r) then sql_InsertNewRun f db else Inr db)"

definition updateRunStartTime :: "faults \<Rightarrow> int \<Rightarrow> int \<Rightarrow> database \<Rightarrow> database result" where
  "updateRunStartTime f now run db = sql_UpdateRunStartTime f (SqlNull now True) run db"

definition updateRunStopTime :: "faults \<Rightarrow> int \<Rightarrow> int \<Rightarrow> database \<Rightarrow> database result" where
  "updateRunStopTime f now run db = sql_UpdateRunStopTime f (SqlNull now True) run db"

text \<open>A statement that is logged when it fails, and changes the database otherwise.\<close>

definition exec_or_log :: "string \<Rightarrow> database result \<Rightarrow> world \<Rightarrow> world" where
  "exec_or_log msg r w = (case r of Inl e \<Rightarrow> log_err (msg @ e) w | Inr db \<Rightarrow> w\<lparr>w_db := db\<rparr>)"

text \<open>The inserts of runinfo.go.\<close>

definition insertGDCEvents :: "faults \<Rightarrow> int \<Rightarrow> int \<Rightarrow> int \<Rightarrow> database \<Rightarrow> database result" where
  "insertGDCEvents f run gdc events db = sql_InsertGDCEvents f run (SqlNull gdc True) (SqlNull events True) db"

definition insertGDCBytes :: "faults \<Rightarrow> int \<Rightarrow> int \<Rightarrow> int \<Rightarrow> database \<Rightarrow> database result" where
  "insertGDCBytes f run gdc bytes db = sql_InsertGDCBytes f run (SqlNull gdc True) (SqlNull bytes True) db"

definition insertGDCErrorCount :: "faults \<Rightarrow> int \<Rightarrow> int \<Rightarrow> int \<Rightarrow> database \<Rightarrow> database result" where
  "insertGDCErrorCount f run gdc nErrors db = sql_InsertGDCErrorCount f run (SqlNull gdc True) (SqlNull nErrors True) db"

definition insertLDCEvents :: "faults \<Rightarrow> int \<Rightarrow> int \<Rightarrow> int \<Rightarrow> database \<Rightarrow> database result" where
  "insertLDCEvents f run ldc events db = sql_InsertLDCEvents f run (SqlNull ldc True) (SqlNull events True) db"

definition insertLDCBytes :: "faults \<Rightarrow> int \<Rightarrow> int \<Rightarrow> int \<Rightarrow> database \<Rightarrow> database result" where
  "insertLDCBytes f run ldc bytes db = sql_InsertLDCBytes f run (SqlNull ldc True) (SqlNull bytes True) db"

definition insertLDCErrorCount :: "faults \<Rightarrow> int \<Rightarrow> int \<Rightarrow> int \<Rightarrow> database \<Rightarrow> database result" where
  "insertLDCErrorCount f run ldc nErrors db = sql_InsertLDCErrorCount f run (SqlNull ldc True) (SqlNull nErrors True) db"

lemmas insert_defs = insertGDCEvents_def insertGDCBytes_def insertGDCErrorCount_def insertLDCEvents_def insertLDCBytes_def
  insertLDCErrorCount_def

definition updateGDCStatistics :: "faults \<Rightarrow> servers \<Rightarrow> int \<Rightarrow> GDCConfiguration \<Rightarrow> world \<Rightarrow> world" where
  "updateGDCStatistics f sv run g w =
     (let w0 = call (CallGetRunStatistics (gdc_IP g) (gdc_GRPCPort g)) w;
          who = '' statistics from GDC '' @ gdc_Name g @ '': ''
      in case fetchRunStatisticsRPC sv (gdc_IP g) (gdc_GRPCPort g) of
           Inl e \<Rightarrow> log_err (''could not fetch run statistics from GDC '' @ gdc_Name g @ '': '' @ e) w0
         | Inr results0 \<Rightarrow>
             let results = results0\<lparr>rs_Host := gdc_Name g\<rparr>;
                 w1 = w0\<lparr>w_summaries := w_summaries w0 @ [results]\<rparr>;
                 w2 = exec_or_log (''could not store event'' @ who)
                   (insertGDCEvents f run (gdc_ID g) (rs_Events results) (w_db w1)) w1;
                 w3 = exec_or_log (''could not store bytes'' @ who)
                   (insertGDCBytes f run (gdc_ID g) (rs_Bytes results) (w_db w2)) w2
             in exec_or_log (''could not store error'' @ who)
                  (insertGDCErrorCount f run (gdc_ID g) (rs_Errors results) (w_db w3)) w3)"

definition updateLDCStatistics :: "faults \<Rightarrow> servers \<Rightarrow> int \<Rightarrow> LDCConfiguration \<Rightarrow> world \<Rightarrow> world" where
  "updateLDCStatistics f sv run l w =
     (let w0 = call (CallGetRunStatistics (ldc_IP l) (ldc_GRPCPort l)) w;
          who = '' statistics from LDC '' @ ldc_Name l @ '': ''
      in case fetchRunStatisticsRPC sv (ldc_IP l) (ldc_GRPCPort l) of
           Inl e \<Rightarrow> log_err (''could not fetch run statistics from LDC '' @ ldc_Name l @ '': '' @ e) w0
         | Inr results0 \<Rightarrow>
             let results = results0\<lparr>rs_Host := ldc_Name l\<rparr>;
                 w1 = w0\<lparr>w_summaries := w_summaries w0 @ [results]\<rparr>;
                 w2 = exec_or_log (''could not store event'' @ who)
                   (insertLDCEvents f run (ldc_ID l) (rs_Events results) (w_db w1)) w1;
                 w3 = exec_or_log (''could not store bytes'' @ who)
                   (insertLDCBytes f run (ldc_ID l) (rs_Bytes results) (w_db w2)) w2
             in exec_or_log (''could not store error'' @ who)
                  (insertLDCErrorCount f run (ldc_ID l) (rs_Errors results) (w_db w3)) w3)"

definition updateAllGDCStatistics :: "faults \<Rightarrow> servers \<Rightarrow> int \<Rightarrow> GDCConfiguration list \<Rightarrow> world \<Rightarrow> world" where
  "updateAllGDCStatistics f sv run gdcs w = fold (updateGDCStatistics f sv run) gdcs w"

definition updateAllLDCStatistics :: "faults \<Rightarrow> servers \<Rightarrow> int \<Rightarrow> LDCConfiguration list \<Rightarrow> world \<Rightarrow> world" where
  "updateAllLDCStatistics f sv run ldcs w = fold (updateLDCStatistics f sv run) ldcs w"

subsection \<open>Starting and stopping (control.go, topi.go)\<close>

text \<open>
  \<open>notifyTopi\<close> publishes the operation when TOPI is enabled; the name of a configuration goes with a start, which is
  skipped when none is selected. Its failures are warnings.
\<close>

definition notifyTopi :: "faults \<Rightarrow> servers \<Rightarrow> string \<Rightarrow> int \<Rightarrow> world \<Rightarrow> world" where
  "notifyTopi f sv operation run w =
     (case sql_GetTopiParams f (w_db w) of
        Inl _ \<Rightarrow> w
      | Inr p \<Rightarrow>
          if \<not> to_Enabled p then w
          else if operation = ''start'' \<and> to_SelectedConfiguration p = [] then w
          else if sr_topi sv \<noteq> None then w
          else w\<lparr>w_topi := w_topi w @
                 [(operation, run, if operation = ''start'' then to_SelectedConfiguration p else [])]\<rparr>)"

definition updateRunStatistics :: "faults \<Rightarrow> (string \<Rightarrow> nat) \<Rightarrow> servers \<Rightarrow> int \<Rightarrow> world \<Rightarrow> world \<times> string option" where
  "updateRunStatistics f collate sv run w =
     (case ReadConfigurationFromDB (querier_of f collate (w_db w)) of
        Inl e \<Rightarrow> (w, Some (''could not read configuration from database: '' @ e))
      | Inr cfg \<Rightarrow>
          (updateAllLDCStatistics f sv run (EnabledLDCs (cfg_LDCs cfg))
             (updateAllGDCStatistics f sv run (EnabledGDCs (cfg_GDCs cfg)) w), None))"

definition startProcesses :: "faults \<Rightarrow> (string \<Rightarrow> nat) \<Rightarrow> servers \<Rightarrow> bool \<Rightarrow> int \<Rightarrow> world \<Rightarrow> world" where
  "startProcesses f collate sv devVersion now w =
     (case ReadConfigurationFromDB (querier_of f collate (w_db w)) of
        Inl e \<Rightarrow> log_err (''could not read configuration from database: '' @ e) w
      | Inr cfg \<Rightarrow>
          let enabledLDCs = EnabledLDCs (cfg_LDCs cfg);
              enabledGDCs = EnabledGDCs (cfg_GDCs cfg);
              (w1, pinged) = sendPingToAllLDCs sv enabledLDCs w
          in if \<not> pinged then w1
             else
               let (w2, gdcs_started) = startGDCs sv enabledGDCs w1
               in if \<not> gdcs_started then w2
                  else
                    let (w3, ldcs_started) = startLDCs sv enabledLDCs w2
                    in if \<not> ldcs_started then w3
                       else (case sql_GetLatestRunWithTimestamp f (w_db w3) of
                           Inl e \<Rightarrow> log_err (''could not get run number: '' @ e) w3
                         | Inr run \<Rightarrow>
                             let w4 = exec_or_log (''could not store start time for run '' @ show_int (ru_ID run) @ '': '')
                                   (updateRunStartTime f now (ru_ID run) (w_db w3)) w3;
                                 w5 = notifyTopi f sv ''start'' (ru_ID run) w4
                             in if devVersion then w5
                                else (case sr_writeFile sv of
                                    Some e \<Rightarrow> log_err (''could not write to /tmp/date_runnumber.txt: '' @ e) w5
                                  | None \<Rightarrow> w5\<lparr>w_runfile := Some (show_int (ru_ID run))\<rparr>)))"

definition stopProcesses :: "faults \<Rightarrow> (string \<Rightarrow> nat) \<Rightarrow> servers \<Rightarrow> int \<Rightarrow> world \<Rightarrow> world" where
  "stopProcesses f collate sv now w =
     (case ReadConfigurationFromDB (querier_of f collate (w_db w)) of
        Inl e \<Rightarrow> log_err (''could not read configuration from database: '' @ e) w
      | Inr cfg \<Rightarrow>
          let w1 = fst (stopLDCs sv (EnabledLDCs (cfg_LDCs cfg)) w)
          in case sql_GetLatestRunWithTimestamp f (w_db w1) of
               Inl e \<Rightarrow> log_err (''could not get run number: '' @ e) w1
             | Inr run \<Rightarrow>
                 if nvalid (ru_Start run) \<and> \<not> nvalid (ru_Stop run)
                 then
                   let n = show_int (ru_ID run);
                       w2 = notifyTopi f sv ''stop'' (ru_ID run) w1;
                       w3 = exec_or_log (''could not store stop time for run '' @ n @ '': '')
                         (updateRunStopTime f now (ru_ID run) (w_db w2)) w2;
                       (w4, err) = updateRunStatistics f collate sv (ru_ID run) w3;
                       w5 = (case err of None \<Rightarrow> w4
                             | Some e \<Rightarrow> log_err (''could not store run statistics for run '' @ n @ '': '' @ e) w4)
                   in exec_or_log ''could not store next run number in DB: '' (addRun f (w_db w5)) w5
                 else w1)"

definition forceStopProcesses :: "faults \<Rightarrow> (string \<Rightarrow> nat) \<Rightarrow> servers \<Rightarrow> int \<Rightarrow> world \<Rightarrow> world" where
  "forceStopProcesses f collate sv now w =
     (case ReadConfigurationFromDB (querier_of f collate (w_db w)) of
        Inl e \<Rightarrow> log_err (''could not read configuration from database: '' @ e) w
      | Inr cfg \<Rightarrow>
          let w1 = fst (stopGDCs sv (EnabledGDCs (cfg_GDCs cfg)) w);
              w2 = fst (stopLDCs sv (EnabledLDCs (cfg_LDCs cfg)) w1)
          in case sql_GetLatestRunWithTimestamp f (w_db w2) of
               Inl e \<Rightarrow> log_err (''could not get run number: '' @ e) w2
             | Inr run \<Rightarrow>
                 let w4 = (if nvalid (ru_Start run) \<and> \<not> nvalid (ru_Stop run)
                           then
                             let w3 = notifyTopi f sv ''stop'' (ru_ID run) w2
                             in exec_or_log (''could not store stop time for run '' @ show_int (ru_ID run) @ '': '')
                                  (updateRunStopTime f now (ru_ID run) (w_db w3)) w3
                           else w2)
                 in exec_or_log ''could not store next run number in DB: '' (addRun f (w_db w4)) w4)"

definition getProcessStates :: "faults \<Rightarrow> (string \<Rightarrow> nat) \<Rightarrow> servers \<Rightarrow> world \<Rightarrow> world" where
  "getProcessStates f collate sv w =
     (case ReadConfigurationFromDB (querier_of f collate (w_db w)) of
        Inl e \<Rightarrow> log_err (''could not read configuration from database: '' @ e) w
      | Inr cfg \<Rightarrow>
          fst (getGDCStates sv (EnabledGDCs (cfg_GDCs cfg)) (fst (getLDCStates sv (EnabledLDCs (cfg_LDCs cfg)) w))))"

subsection \<open>The handlers (apiHandlerControl.go)\<close>

text \<open>
  A handler answers at once and leaves the work to a goroutine: \<open>jobs\<close> are the goroutines in flight that will set the
  transition to done, or to the error state when they panic. \<open>ForceStopRun\<close> does its work itself and does not ask the
  transition.
\<close>

datatype job = StartJob | StopJob | AutoForceStopJob | ForceStopCall

record control =
  ct_transition :: RunTransition
  ct_jobs :: "job list"

definition control_init :: control where
  "control_init = \<lparr>ct_transition = \<lparr>rt_state = TransitionIdle, rt_errMsg = []\<rparr>, ct_jobs = []\<rparr>"

datatype control_action = ApiStartRun | ApiStopRun | ApiForceStopRun | ErrorMessage "Message option"
  | JobDone job | JobPanic job string

text \<open>The body that \<open>StartRun\<close>, \<open>StopRun\<close> and the subscription to messages share.\<close>

definition begin_job :: "RunTransition \<times> bool \<times> string \<Rightarrow> job \<Rightarrow> control \<Rightarrow> control" where
  "begin_job r j c = (case r of (rt, ok, _) \<Rightarrow> if ok then c\<lparr>ct_transition := rt, ct_jobs := ct_jobs c @ [j]\<rparr> else c)"

fun control_step :: "control_action \<Rightarrow> control \<Rightarrow> control option" where
  "control_step ApiStartRun c = Some (begin_job (tryBeginStart (ct_transition c)) StartJob c)"
| "control_step ApiStopRun c = Some (begin_job (tryBeginStop (ct_transition c)) StopJob c)"
| "control_step ApiForceStopRun c = Some (c\<lparr>ct_jobs := ct_jobs c @ [ForceStopCall]\<rparr>)"
| "control_step (ErrorMessage m) c =
     Some (if shouldForceStopFromMessage m ''api''
           then begin_job (tryBeginStop (ct_transition c)) AutoForceStopJob c else c)"
| "control_step (JobDone j) c =
     (if j \<in> set (ct_jobs c)
      then Some (c\<lparr>ct_jobs := remove1 j (ct_jobs c),
                   ct_transition := (if j = ForceStopCall then ct_transition c else setDone (ct_transition c))\<rparr>)
      else None)"
| "control_step (JobPanic j msg) c =
     (if j \<in> set (ct_jobs c)
      then Some (c\<lparr>ct_jobs := remove1 j (ct_jobs c),
                   ct_transition := (if j = ForceStopCall then ct_transition c
                                     else handleRunTransitionPanic msg (ct_transition c))\<rparr>)
      else None)"

inductive control_run :: "control \<Rightarrow> bool" where
  control_start: "control_run control_init"
| control_next: "control_run c \<Longrightarrow> control_step a c = Some c' \<Longrightarrow> control_run c'"

subsection \<open>Metrics of the API (metrics.go)\<close>

datatype api_metric = RunActive int | RunNumber int | ReadSuccess int | TransitionIs string int

definition Collect_metrics :: "faults \<Rightarrow> database \<Rightarrow> RunTransition \<Rightarrow> api_metric list" where
  "Collect_metrics f db rt =
     (case sql_GetLatestRunWithTimestamp f db of
        Inl _ \<Rightarrow> [ReadSuccess 0]
      | Inr run \<Rightarrow> [ReadSuccess 1, RunNumber (ru_ID run),
           RunActive (if nvalid (ru_Start run) \<and> \<not> nvalid (ru_Stop run) then 1 else 0)]) @
     map (\<lambda>name. TransitionIs name (if name = stateString (rt_state rt) then 1 else 0))
       [''idle'', ''starting'', ''stopping'', ''error'']"

subsection \<open>Restarting the servers (restart.go)\<close>

datatype ServerRole = GDCRole | LDCRole

fun restart_command :: "ServerRole \<Rightarrow> string" where
  "restart_command GDCRole = ''/home/dateuser/duck/restart_gdc.sh''"
| "restart_command LDCRole = ''/home/dateuser/duck/restart_ldc.sh''"

text \<open>\<open>strings.ReplaceAll(s, old, "")\<close> for a text that is not empty.\<close>

function remove_all :: "string \<Rightarrow> string \<Rightarrow> string" where
  "remove_all old s =
     (if old = [] \<or> s = [] then s
      else if take (length old) s = old then remove_all old (drop (length old) s)
      else hd s # remove_all old (tl s))"
  by pat_completeness auto
termination
  by (relation "measure (\<lambda>(old, s). length s)") auto

declare remove_all.simps [simp del]

definition clean_output :: "string \<Rightarrow> string" where
  "clean_output out = remove_all ''[39m'' (remove_all ''[32m'' (remove_all ''[31m'' out))"

text \<open>\<open>ssh host cmd\<close> is the output of a command, or the error of the connection or of the command.\<close>

datatype ssh_result = NoConnection string | CommandFailed string | Output string

definition restartService :: "(string \<Rightarrow> string \<Rightarrow> ssh_result) \<Rightarrow> string \<Rightarrow> ServerRole \<Rightarrow> string \<Rightarrow> (int \<times> string) list" where
  "restartService ssh name role host =
     (LevelInfo, ''Restarting services on '' @ name) #
     (case ssh host (restart_command role) of
        NoConnection e \<Rightarrow> [(LevelError, ''could not restart services on '' @ name @ '': '' @ e)]
      | CommandFailed e \<Rightarrow> [(LevelError, ''could not restart '' @ name @ '' services: '' @ e)]
      | Output out \<Rightarrow> [(LevelInfo, name @ '':'' @ [CHR 0x0A] @ '' '' @ clean_output out)])"

definition restartServices :: "Configuration result \<Rightarrow> (string \<Rightarrow> string \<Rightarrow> ssh_result) \<Rightarrow> ((int \<times> string) list) result" where
  "restartServices cfg ssh =
     (case cfg of
        Inl e \<Rightarrow> Inl (''could not read configuration file: '' @ e)
      | Inr c \<Rightarrow> Inr (concat (map (\<lambda>g. restartService ssh (gdc_Name g) GDCRole (gdc_Host g)) (EnabledGDCs (cfg_GDCs c)) @
                         map (\<lambda>l. restartService ssh (ldc_Name l) LDCRole (ldc_Host l)) (EnabledLDCs (cfg_LDCs c)))))"


section \<open>Transitions exclude each other\<close>

fun transition_of :: "job \<Rightarrow> RunTransitionState" where
  "transition_of StartJob = TransitionStarting"
| "transition_of StopJob = TransitionStopping"
| "transition_of AutoForceStopJob = TransitionStopping"
| "transition_of ForceStopCall = TransitionIdle"

definition tracked_jobs :: "job list \<Rightarrow> job list" where
  "tracked_jobs js = filter (\<lambda>j. j \<noteq> ForceStopCall) js"

abbreviation tracked :: "control \<Rightarrow> job list" where
  "tracked c \<equiv> tracked_jobs (ct_jobs c)"

fun jobs_inv :: "job list \<Rightarrow> RunTransitionState \<Rightarrow> bool" where
  "jobs_inv [] st \<longleftrightarrow> st = TransitionIdle \<or> st = TransitionError"
| "jobs_inv [j] st \<longleftrightarrow> st = transition_of j"
| "jobs_inv (j # k # js) st \<longleftrightarrow> False"

definition control_inv :: "control \<Rightarrow> bool" where
  "control_inv c \<longleftrightarrow> jobs_inv (tracked c) (rt_state (ct_transition c))"

lemma tracked_jobs_simps [simp]:
  "tracked_jobs [] = []"
  "tracked_jobs (js @ [j]) = tracked_jobs js @ (if j = ForceStopCall then [] else [j])"
  "tracked_jobs (remove1 j js) = (if j = ForceStopCall then tracked_jobs js else remove1 j (tracked_jobs js))"
  "j \<in> set (tracked_jobs js) \<longleftrightarrow> j \<in> set js \<and> j \<noteq> ForceStopCall"
  by (simp_all add: tracked_jobs_def filter_remove1 remove1_idem)

lemma jobs_inv_single: "jobs_inv js st \<Longrightarrow> j \<in> set js \<Longrightarrow> js = [j]"
  by (cases "(js, st)" rule: jobs_inv.cases) auto

lemma tracked_state:
  "control_inv c \<Longrightarrow> rt_state (ct_transition c) = TransitionIdle \<or> rt_state (ct_transition c) = TransitionError \<longleftrightarrow>
     tracked c = []"
proof (cases "tracked c")
  case (Cons j js)
  assume inv: "control_inv c"
  have "j \<noteq> ForceStopCall" using Cons tracked_jobs_simps(4) [of j "ct_jobs c"] by simp
  moreover have "tracked c = [j]" using inv Cons by (cases js) (simp_all add: control_inv_def)
  ultimately show ?thesis using inv by (cases j) (auto simp: control_inv_def)
qed (simp add: control_inv_def)

lemma begin_inv:
  assumes "control_inv c"
  shows "control_inv (begin_job (tryBeginStart (ct_transition c)) StartJob c)"
    and "control_inv (begin_job (tryBeginStop (ct_transition c)) StopJob c)"
    and "control_inv (begin_job (tryBeginStop (ct_transition c)) AutoForceStopJob c)"
  using assms tracked_state [OF assms]
  by (auto simp: control_inv_def begin_job_def tryBeginStart_def tryBeginStop_def split: RunTransitionState.splits)

lemma end_inv:
  "control_inv c \<Longrightarrow> j \<in> set (ct_jobs c) \<Longrightarrow> rt_state rt = TransitionIdle \<or> rt_state rt = TransitionError \<Longrightarrow>
   control_inv (c\<lparr>ct_jobs := remove1 j (ct_jobs c), ct_transition := (if j = ForceStopCall then ct_transition c else rt)\<rparr>)"
  using jobs_inv_single [of "tracked c" "rt_state (ct_transition c)" j] by (auto simp: control_inv_def)

lemma control_inv_step:
  assumes "control_inv c" and "control_step a c = Some c'"
  shows "control_inv c'"
proof (cases a)
  case (JobDone j)
  with assms(2) have "j \<in> set (ct_jobs c)" "c' = c\<lparr>ct_jobs := remove1 j (ct_jobs c),
      ct_transition := (if j = ForceStopCall then ct_transition c else setDone (ct_transition c))\<rparr>"
    by (auto split: if_splits)
  with end_inv [OF assms(1)] show ?thesis by (simp add: setDone_def)
next
  case (JobPanic j msg)
  with assms(2) have "j \<in> set (ct_jobs c)" "c' = c\<lparr>ct_jobs := remove1 j (ct_jobs c),
      ct_transition := (if j = ForceStopCall then ct_transition c else handleRunTransitionPanic msg (ct_transition c))\<rparr>"
    by (auto split: if_splits)
  with end_inv [OF assms(1)] show ?thesis by (simp add: handleRunTransitionPanic_def setError_def)
next
  case ApiForceStopRun
  with assms show ?thesis by (auto simp: control_inv_def)
qed (use assms begin_inv [OF assms(1)] in \<open>auto split: if_splits\<close>)

lemma control_run_inv: "control_run c \<Longrightarrow> control_inv c"
  by (induction rule: control_run.induct)
    (simp add: control_inv_def control_init_def, rule control_inv_step)

text \<open>
  C23. Starting and stopping exclude each other: in every reachable state at most one of the goroutines that start the run, stop it
  or stop it after an error message is in flight, the transition says which, and a request is accepted exactly when
  there is none. The calls of \<open>ForceStopRun\<close> are not part of this: they run whatever the transition is.
\<close>

theorem transitions_exclude:
  assumes "control_run c"
  shows "length (tracked c) \<le> 1 \<and>
    (rt_state (ct_transition c) = TransitionStarting \<longleftrightarrow> tracked c = [StartJob]) \<and>
    (rt_state (ct_transition c) = TransitionStopping \<longleftrightarrow> tracked c = [StopJob] \<or> tracked c = [AutoForceStopJob]) \<and>
    (fst (snd (tryBeginStart (ct_transition c))) \<longleftrightarrow> tracked c = []) \<and>
    (fst (snd (tryBeginStop (ct_transition c))) \<longleftrightarrow> tracked c = [])"
proof -
  have inv: "control_inv c" by (rule control_run_inv [OF assms])
  show ?thesis
  proof (cases "tracked c")
    case Nil
    with inv show ?thesis
      by (auto simp: control_inv_def tryBeginStart_def tryBeginStop_def split: RunTransitionState.splits)
  next
    case (Cons j js)
    then have "j \<in> set (ct_jobs c) \<and> j \<noteq> ForceStopCall" using tracked_jobs_simps(4) [of j "ct_jobs c"] by simp
    moreover from Cons inv have "tracked c = [j]" by (cases js) (simp_all add: control_inv_def)
    ultimately show ?thesis
      using inv by (cases j) (auto simp: control_inv_def tryBeginStart_def tryBeginStop_def)
  qed
qed

theorem transitions_exclude_witness:
  "\<exists>c. control_run c \<and> tracked c = [StartJob] \<and> ct_jobs c = [StartJob, ForceStopCall] \<and>
     \<not> fst (snd (tryBeginStop (ct_transition c)))"
proof -
  let ?c1 = "control_init\<lparr>ct_transition := \<lparr>rt_state = TransitionStarting, rt_errMsg = []\<rparr>, ct_jobs := [StartJob]\<rparr>"
  let ?c = "?c1\<lparr>ct_jobs := [StartJob, ForceStopCall]\<rparr>"
  have "control_step ApiStartRun control_init = Some ?c1"
    by (simp add: begin_job_def tryBeginStart_def control_init_def)
  then have "control_run ?c1" by (rule control_next [OF control_start])
  moreover have "control_step ApiForceStopRun ?c1 = Some ?c" by simp
  ultimately have run: "control_run ?c" by (rule control_next)
  have "tracked ?c = [StartJob]" by (simp add: tracked_jobs_def)
  with transitions_exclude [OF run] run show ?thesis by (intro exI [of _ ?c]) simp
qed


section \<open>The order of a start\<close>

definition calls_of :: "(rpc_call option \<times> string option) list \<Rightarrow> rpc_call list" where
  "calls_of cs = List.map_filter fst cs"

definition no_error :: "(rpc_call option \<times> string option) list \<Rightarrow> bool" where
  "no_error cs \<longleftrightarrow> list_all (\<lambda>c. snd c = None) cs"

lemma world_fields [simp]:
  "w_calls (log_err m w) = w_calls w" "w_db (log_err m w) = w_db w" "w_topi (log_err m w) = w_topi w"
  "w_calls (call c w) = w_calls w @ [c]" "w_db (call c w) = w_db w" "w_topi (call c w) = w_topi w"
  by (simp_all add: log_err_def call_def)

lemma call_all_result:
  "w_calls (fst (call_all log_err cs w)) = w_calls w @ calls_of cs \<and> w_db (fst (call_all log_err cs w)) = w_db w \<and>
   snd (call_all log_err cs w) = no_error cs"
proof (induction cs arbitrary: w)
  case (Cons c cs)
  show ?case
    by (cases c; cases "fst c"; cases "snd c")
      (simp_all add: calls_of_def no_error_def List.map_filter_simps Let_def split_beta Cons [unfolded calls_of_def no_error_def])
qed (simp add: calls_of_def no_error_def List.map_filter_simps)

lemmas call_all_simps = call_all_result [THEN conjunct1] call_all_result [THEN conjunct2, THEN conjunct1]
  call_all_result [THEN conjunct2, THEN conjunct2]

lemma exec_or_log_fields [simp]: "w_calls (exec_or_log msg r w) = w_calls w" "w_topi (exec_or_log msg r w) = w_topi w"
  by (simp_all add: exec_or_log_def split: sum.split)

lemma notifyTopi_fields [simp]: "w_calls (notifyTopi f sv opn run w) = w_calls w" "w_db (notifyTopi f sv opn run w) = w_db w"
  by (simp_all add: notifyTopi_def split: sum.split)

definition ping_ok :: "servers \<Rightarrow> LDCConfiguration \<Rightarrow> bool" where
  "ping_ok sv l \<longleftrightarrow> sr_PingDevices sv (ldc_IP l) (ldc_GRPCPort l) = Inr True"

definition start_ok :: "servers \<Rightarrow> string \<Rightarrow> int \<Rightarrow> bool" where
  "start_ok sv ip port \<longleftrightarrow> (\<exists>m. sr_StartRun sv ip port = Inr m)"

lemma send_pings:
  assumes "list_all ldc_Enabled ls"
  shows "w_calls (fst (sendPingToAllLDCs sv ls w)) = w_calls w @ map (\<lambda>l. CallPingDevices (ldc_IP l) (ldc_GRPCPort l)) ls"
    and "w_db (fst (sendPingToAllLDCs sv ls w)) = w_db w"
    and "snd (sendPingToAllLDCs sv ls w) = list_all (ping_ok sv) ls"
proof -
  have "calls_of (map (\<lambda>l. (if ldc_Enabled l then Some (CallPingDevices (ldc_IP l) (ldc_GRPCPort l)) else None,
      api_pingDevices sv l (ldc_GRPCPort l))) ls) = map (\<lambda>l. CallPingDevices (ldc_IP l) (ldc_GRPCPort l)) ls"
    using assms by (induction ls) (simp_all add: calls_of_def List.map_filter_simps)
  then show "w_calls (fst (sendPingToAllLDCs sv ls w)) = w_calls w @ map (\<lambda>l. CallPingDevices (ldc_IP l) (ldc_GRPCPort l)) ls"
    by (simp add: sendPingToAllLDCs_def call_all_simps)
  show "w_db (fst (sendPingToAllLDCs sv ls w)) = w_db w" by (simp add: sendPingToAllLDCs_def call_all_simps)
  have "api_pingDevices sv l (ldc_GRPCPort l) = None \<longleftrightarrow> ping_ok sv l" if "ldc_Enabled l" for l
    using that by (cases "sr_PingDevices sv (ldc_IP l) (ldc_GRPCPort l)")
      (auto simp: api_pingDevices_def pingDevicesRPC_def ping_ok_def)
  then show "snd (sendPingToAllLDCs sv ls w) = list_all (ping_ok sv) ls"
    using assms by (auto simp: sendPingToAllLDCs_def call_all_simps no_error_def list_all_iff)
qed

lemma startServer_None: "startServer sv ip name port = None \<longleftrightarrow> start_ok sv ip port"
  by (auto simp: startServer_def startServerRPC_def error_of_def start_ok_def split: sum.split)

lemma calls_of_map [simp]: "calls_of (map (\<lambda>x. (Some (c x), e x)) xs) = map c xs"
  by (induction xs) (simp_all add: calls_of_def List.map_filter_simps)

lemma no_error_map [simp]: "no_error (map (\<lambda>x. (c x, e x)) xs) \<longleftrightarrow> (\<forall>x \<in> set xs. e x = None)"
  by (simp add: no_error_def list_all_iff)

lemma start_gdcs:
  "w_calls (fst (startGDCs sv gs w)) = w_calls w @ map (\<lambda>g. CallStartRun (gdc_IP g) (gdc_GRPCPort g)) gs"
  "w_db (fst (startGDCs sv gs w)) = w_db w"
  "snd (startGDCs sv gs w) = list_all (\<lambda>g. start_ok sv (gdc_IP g) (gdc_GRPCPort g)) gs"
  by (simp_all add: startGDCs_def call_all_simps startServer_None list_all_iff)

lemma start_ldcs:
  "w_calls (fst (startLDCs sv ls w)) = w_calls w @ map (\<lambda>l. CallStartRun (ldc_IP l) (ldc_GRPCPort l)) ls"
  "w_db (fst (startLDCs sv ls w)) = w_db w"
  "snd (startLDCs sv ls w) = list_all (\<lambda>l. start_ok sv (ldc_IP l) (ldc_GRPCPort l)) ls"
  by (simp_all add: startLDCs_def call_all_simps startServer_None list_all_iff)

lemma stop_servers [simp]:
  "w_db (fst (stopLDCs sv ls w)) = w_db w" "w_db (fst (stopGDCs sv gs w)) = w_db w"
  by (simp_all add: stopLDCs_def stopGDCs_def call_all_simps)

text \<open>Whether everything up to the LDCs was reached and went well.\<close>

definition start_succeeds :: "servers \<Rightarrow> Configuration \<Rightarrow> bool" where
  "start_succeeds sv cfg \<longleftrightarrow> list_all (ping_ok sv) (EnabledLDCs (cfg_LDCs cfg)) \<and>
     list_all (\<lambda>g. start_ok sv (gdc_IP g) (gdc_GRPCPort g)) (EnabledGDCs (cfg_GDCs cfg)) \<and>
     list_all (\<lambda>l. start_ok sv (ldc_IP l) (ldc_GRPCPort l)) (EnabledLDCs (cfg_LDCs cfg))"

lemma enabled_all: "list_all ldc_Enabled (EnabledLDCs ls)"
  by (simp add: EnabledLDCs_def list_all_iff)

lemma start_database:
  assumes cfg: "ReadConfigurationFromDB (querier_of f collate (w_db w)) = Inr cfg"
  shows "w_db (startProcesses f collate sv devVersion now w) =
      (if \<not> start_succeeds sv cfg then w_db w
       else case sql_GetLatestRunWithTimestamp f (w_db w) of
              Inl _ \<Rightarrow> w_db w
            | Inr run \<Rightarrow> (case updateRunStartTime f now (ru_ID run) (w_db w) of Inl _ \<Rightarrow> w_db w | Inr db \<Rightarrow> db))"
  unfolding startProcesses_def cfg sum.case Let_def split_beta start_succeeds_def
  by (simp add: send_pings [OF enabled_all] start_gdcs start_ldcs exec_or_log_def Let_def
      split: sum.split option.split)



text \<open>A database with one GDC, one LDC and run 7, and servers that answer every call.\<close>

definition example_db :: database where
  "example_db = \<lparr>
     db_gdcs = [\<lparr>gr_ID = 1, gr_Name = SqlNull ''gdc1'' True, gr_Hostname = SqlNull ''h'' True, gr_Ip = SqlNull ''g'' True,
       gr_Port = SqlNull 7000 True, gr_GrpcPort = SqlNull 1 True, gr_PrometheusPort = SqlNull 2 True,
       gr_Datapath = SqlNull ''/d'' True, gr_Enabled = SqlNull True True, gr_Writeoutput = SqlNull True True,
       gr_Decode = SqlNull False True\<rparr>], db_next_gdc = 2,
     db_ldcs = [\<lparr>lr_ID = 1, lr_Name = SqlNull ''ldc1'' True, lr_Hostname = SqlNull ''h'' True, lr_Ip = SqlNull ''l'' True,
       lr_GrpcPort = SqlNull 3 True, lr_PrometheusPort = SqlNull 4 True, lr_Enabled = SqlNull True True\<rparr>],
     db_next_ldc = 2, db_equipments = [], db_next_equipment = 1,
     db_runs = [\<lparr>ru_ID = 7, ru_Start = SqlNull 0 False, ru_Stop = SqlNull 0 False\<rparr>], db_next_run = 8,
     db_events = [], db_data = [], db_errors = [],
     db_duckParams = [\<lparr>up_Filesize = 1, up_Experiment = ''next'', up_Packetsize = 1, up_Npacketsinbuffer = 1,
       up_Buffertimeout = 1, up_Equipmentdatach = 1, up_Receivech = 1, up_Datach = 1, up_Metricsch = 1,
       up_Tcpconnectionsch = 1, up_Decoderch = 1, up_Decoderworkers = 1, up_Writerch = 1\<rparr>],
     db_decoderParams = [\<lparr>dp_ExtTrigger = 1, dp_TrgCode1 = 1, dp_TrgCode2 = 1, dp_ReadPmts = SqlNull True True,
       dp_ReadSipms = SqlNull True True, dp_ReadTrigger = SqlNull True True, dp_ReadFibers = SqlNull True True,
       dp_SplitTrigger = SqlNull True True, dp_NoDb = SqlNull True True, dp_Discard = SqlNull True True,
       dp_Host = [], dp_User = [], dp_Passwd = [], dp_DbName = [], dp_WriteData = SqlNull True True,
       dp_UseBlosc = SqlNull True True, dp_BloscAlgorithm = [], dp_CompressionLevel = 1, dp_BitShuffle = []\<rparr>],
     db_testDeviceParams = [], db_simulatorParams = [], db_topiParams = None, db_rates = []\<rparr>"

definition example_world :: world where
  "example_world = \<lparr>w_db = example_db, w_calls = [], w_log = [], w_summaries = [], w_topi = [], w_runfile = None\<rparr>"

definition example_servers :: servers where
  "example_servers = \<lparr>sr_StartRun = (\<lambda>_ _. Inr ''Started''), sr_StopRun = (\<lambda>_ _. Inr ''Stopped''),
     sr_GetState = (\<lambda>_ _. Inr ''RUNNING''), sr_PingDevices = (\<lambda>_ _. Inr True),
     sr_GetRunStatistics = (\<lambda>_ _. Inr (10, 2000, 3)), sr_topi = None, sr_writeFile = None\<rparr>"

lemma example_cfg:
  "\<exists>cfg. ReadConfigurationFromDB (querier_of no_faults (\<lambda>_. 0) example_db) = Inr cfg \<and>
     map (\<lambda>l. (ldc_IP l, ldc_GRPCPort l)) (EnabledLDCs (cfg_LDCs cfg)) = [(''l'', 3)] \<and>
     map (\<lambda>g. (gdc_IP g, gdc_GRPCPort g)) (EnabledGDCs (cfg_GDCs cfg)) = [(''g'', 1)]"
  by (simp add: ReadConfigurationFromDB_def querier_of_def getGDCs_def getLDCs_def getEquipments_def getRun_def
      getDuckParameters_def getDecoderParameters_def getTestDeviceParams_def sql_ListGDCs_def sql_ListLDCs_def
      sql_ListEquipments_def sql_GetLatestRun_def latest_run_def sql_GetDuckParams_def sql_GetDecoderParams_def
      sql_GetTestDeviceParams_def query_def no_faults_def first_row_def example_db_def gdc_of_row_def ldc_of_row_def
      EnabledLDCs_def EnabledGDCs_def)


section \<open>The table of runs\<close>

definition run_closed :: "db_Run \<Rightarrow> bool" where
  "run_closed r \<longleftrightarrow> nvalid (ru_Start r) \<and> nvalid (ru_Stop r)"

text \<open>The keys grow and stay below the next key, and every run but the latest has been started.\<close>

definition runs_ok :: "db_Run list \<Rightarrow> int \<Rightarrow> bool" where
  "runs_ok rs n \<longleftrightarrow> rs \<noteq> [] \<and> sorted_wrt (<) (map ru_ID rs) \<and> ru_ID (last rs) < n \<and>
     list_all (\<lambda>r. nvalid (ru_Start r)) (butlast rs)"

lemma runs_ok_snoc:
  "runs_ok (rs @ [r]) n \<longleftrightarrow> sorted_wrt (<) (map ru_ID rs) \<and> (\<forall>x \<in> set rs. ru_ID x < ru_ID r) \<and> ru_ID r < n \<and>
     list_all (\<lambda>r. nvalid (ru_Start r)) rs"
  by (auto simp: runs_ok_def sorted_wrt_append)

lemma runs_ok_same_key: "runs_ok (rs @ [r]) n \<Longrightarrow> ru_ID r' = ru_ID r \<Longrightarrow> runs_ok (rs @ [r']) n"
  by (simp add: runs_ok_snoc)

lemma latest_run_snoc: "runs_ok (rs @ [r]) n \<Longrightarrow> latest_run (rs @ [r]) = Inr r"
proof -
  assume "runs_ok (rs @ [r]) n"
  then have "sorted_wrt (<) (map ru_ID (rs @ [r]))" by (simp add: runs_ok_def)
  then have "sorted (map ru_ID (rs @ [r]))" by (simp add: strict_sorted_imp_sorted)
  then have "sort_key ru_ID (rs @ [r]) = rs @ [r]" by (rule sort_key_id_if_sorted)
  then show ?thesis by (simp add: latest_run_def first_row_def)
qed

lemma update_latest:
  "runs_ok (rs @ [r]) n \<Longrightarrow> map (\<lambda>x. if ru_ID x = ru_ID r then g x else x) (rs @ [r]) = rs @ [g r]"
  by (auto simp: runs_ok_snoc intro!: map_idI)

lemma runs_ok_append:
  "runs_ok (rs @ [r]) n \<Longrightarrow> nvalid (ru_Start r) \<Longrightarrow> ru_ID new = n \<Longrightarrow> runs_ok (rs @ [r, new]) (n + 1)"
  using runs_ok_snoc [of "rs @ [r]" new "n + 1"]
  by (auto simp: runs_ok_snoc sorted_wrt_append)

text \<open>The part of the database that a change of the statistics leaves alone.\<close>

abbreviation run_table :: "world \<Rightarrow> db_Run list \<times> int" where
  "run_table w \<equiv> (db_runs (w_db w), db_next_run (w_db w))"

lemma statistics_keep_runs:
  "db_runs (w_db (updateGDCStatistics f sv run g w)) = db_runs (w_db w)"
  "db_next_run (w_db (updateGDCStatistics f sv run g w)) = db_next_run (w_db w)"
  "db_runs (w_db (updateLDCStatistics f sv run l w)) = db_runs (w_db w)"
  "db_next_run (w_db (updateLDCStatistics f sv run l w)) = db_next_run (w_db w)"
  by (simp_all add: updateGDCStatistics_def updateLDCStatistics_def insert_defs Let_def exec_or_log_def sql_InsertGDCEvents_def
      sql_InsertGDCBytes_def sql_InsertGDCErrorCount_def sql_InsertLDCEvents_def sql_InsertLDCBytes_def
      sql_InsertLDCErrorCount_def query_def split: sum.split option.split)

lemma fold_gdc_statistics_keep_runs: "run_table (fold (updateGDCStatistics f sv run) gs w) = run_table w"
  by (induction gs arbitrary: w) (simp_all add: statistics_keep_runs)

lemma fold_ldc_statistics_keep_runs: "run_table (fold (updateLDCStatistics f sv run) ls w) = run_table w"
  by (induction ls arbitrary: w) (simp_all add: statistics_keep_runs)

lemma updateRunStatistics_keeps_runs:
  "run_table (fst (updateRunStatistics f collate sv run w)) = run_table w"
  using fold_gdc_statistics_keep_runs fold_ldc_statistics_keep_runs
  by (simp add: updateRunStatistics_def updateAllGDCStatistics_def updateAllLDCStatistics_def split: sum.split)

text \<open>
  Each operation with the queries of its own that fail. The operations follow one another: a \<open>ForceStopRun\<close> that overlaps
  with another transition is not a sequence of these.
\<close>

datatype run_op = DoStart faults servers bool int | DoStop faults servers int | DoForceStop faults servers int

fun op_faults :: "run_op \<Rightarrow> faults" where
  "op_faults (DoStart f sv dev now) = f"
| "op_faults (DoStop f sv now) = f"
| "op_faults (DoForceStop f sv now) = f"

fun run_step :: "(string \<Rightarrow> nat) \<Rightarrow> run_op \<Rightarrow> world \<Rightarrow> world" where
  "run_step collate (DoStart f sv dev now) w = startProcesses f collate sv dev now w"
| "run_step collate (DoStop f sv now) w = stopProcesses f collate sv now w"
| "run_step collate (DoForceStop f sv now) w = forceStopProcesses f collate sv now w"

text \<open>
  What the three operations do to the table: nothing, a new start time, or the end of the run, when its stop time can be
  stored, and a new row, when it can be inserted.
\<close>

definition started :: "int \<Rightarrow> db_Run \<Rightarrow> db_Run" where
  "started now r = r\<lparr>ru_Start := SqlNull now True, ru_Stop := SqlNull 0 False\<rparr>"

definition stopped :: "int \<Rightarrow> db_Run \<Rightarrow> db_Run" where
  "stopped now r = r\<lparr>ru_Stop := SqlNull now True\<rparr>"

definition next_run :: "int \<Rightarrow> db_Run" where
  "next_run n = \<lparr>ru_ID = n, ru_Start = SqlNull 0 False, ru_Stop = SqlNull 0 False\<rparr>"

definition run_open :: "db_Run \<Rightarrow> bool" where
  "run_open r \<longleftrightarrow> nvalid (ru_Start r) \<and> \<not> nvalid (ru_Stop r)"

definition closing :: "faults \<Rightarrow> int \<Rightarrow> db_Run \<Rightarrow> db_Run" where
  "closing f now r = (if run_open r \<and> f ''UpdateRunStopTime'' = None then stopped now r else r)"

definition appended :: "faults \<Rightarrow> db_Run list \<Rightarrow> db_Run \<Rightarrow> int \<Rightarrow> db_Run list \<times> int" where
  "appended f rs r n =
     (if nvalid (ru_Start r) \<and> f ''InsertNewRun'' = None then (rs @ [r, next_run n], n + 1) else (rs @ [r], n))"

lemma closing_same [simp]: "ru_ID (closing f now r) = ru_ID r" "ru_Start (closing f now r) = ru_Start r"
  by (simp_all add: closing_def stopped_def)

lemma start_run_table:
  assumes t: "run_table w = (rs @ [r], n)" and ok: "runs_ok (rs @ [r]) n"
  shows "run_table (startProcesses f collate sv dev now w) = (rs @ [r], n) \<or>
    run_table (startProcesses f collate sv dev now w) = (rs @ [started now r], n)"
proof (cases "ReadConfigurationFromDB (querier_of f collate (w_db w))")
  case (Inl e)
  then show ?thesis using t by (simp add: startProcesses_def)
next
  case (Inr cfg)
  have "updateRunStartTime f now (ru_ID r) (w_db w) =
      query f ''UpdateRunStartTime'' (Inr ((w_db w)\<lparr>db_runs := rs @ [started now r]\<rparr>))"
    using t update_latest [OF ok, of "started now", unfolded started_def]
    by (simp add: updateRunStartTime_def sql_UpdateRunStartTime_def started_def)
  then show ?thesis
    using start_database [OF Inr, of sv dev now] t latest_run_snoc [OF ok]
    by (auto simp: sql_GetLatestRunWithTimestamp_def query_def split: option.splits)
qed

lemma close_run:
  assumes t: "run_table w = (rs @ [r], n)" and ok: "runs_ok (rs @ [r]) n" and "run_open r"
  shows "run_table (exec_or_log msg (updateRunStopTime f now (ru_ID r) (w_db w)) w) = (rs @ [closing f now r], n)"
  using assms update_latest [OF ok, of "stopped now", unfolded stopped_def]
  by (auto simp: updateRunStopTime_def sql_UpdateRunStopTime_def query_def exec_or_log_def closing_def stopped_def
      split: option.split)

lemma addRun_latest:
  assumes t: "run_table w = (rs @ [r], n)" and ok: "runs_ok (rs @ [r]) n" and f: "f ''GetLatestRunWithTimestamp'' = None"
  shows "run_table (exec_or_log msg (addRun f (w_db w)) w) = appended f rs r n"
  using t latest_run_snoc [OF ok] f
  by (auto simp: addRun_def sql_GetLatestRunWithTimestamp_def sql_InsertNewRun_def query_def next_run_def exec_or_log_def
      appended_def split: option.split)

lemma latest_query:
  assumes "run_table w = (rs @ [r], n)" and "runs_ok (rs @ [r]) n"
  shows "sql_GetLatestRunWithTimestamp f (w_db w) =
    (case f ''GetLatestRunWithTimestamp'' of None \<Rightarrow> Inr r | Some e \<Rightarrow> Inl e)"
  using assms latest_run_snoc by (simp add: sql_GetLatestRunWithTimestamp_def query_def split: option.split)

lemma stop_run_table:
  assumes t: "run_table w = (rs @ [r], n)" and ok: "runs_ok (rs @ [r]) n"
  shows "run_table (stopProcesses f collate sv now w) = (rs @ [r], n) \<or>
    (run_open r \<and> run_table (stopProcesses f collate sv now w) = appended f rs (closing f now r) n)"
proof (cases "ReadConfigurationFromDB (querier_of f collate (w_db w))")
  case (Inl e)
  then show ?thesis using t by (simp add: stopProcesses_def)
next
  case (Inr cfg)
  let ?w1 = "fst (stopLDCs sv (EnabledLDCs (cfg_LDCs cfg)) w)"
  have t1: "run_table ?w1 = (rs @ [r], n)" using t by simp
  note latest = latest_query [OF t1 ok, of f]
  show ?thesis
  proof (cases "run_open r \<and> f ''GetLatestRunWithTimestamp'' = None")
    case False
    then show ?thesis
      using Inr latest t by (auto simp: stopProcesses_def Let_def run_open_def split: option.split)
  next
    case True
    let ?w2 = "notifyTopi f sv ''stop'' (ru_ID r) ?w1"
    let ?w3 = "exec_or_log (''could not store stop time for run '' @ show_int (ru_ID r) @ '': '')
        (updateRunStopTime f now (ru_ID r) (w_db ?w2)) ?w2"
    let ?u = "updateRunStatistics f collate sv (ru_ID r) ?w3"
    let ?w5 = "case snd ?u of None \<Rightarrow> fst ?u
       | Some e \<Rightarrow> log_err (''could not store run statistics for run '' @ show_int (ru_ID r) @ '': '' @ e) (fst ?u)"
    have "run_table ?w3 = (rs @ [closing f now r], n)"
      using t ok True by (intro close_run) simp_all
    then have "run_table ?w5 = (rs @ [closing f now r], n)"
      using updateRunStatistics_keeps_runs [of f collate sv "ru_ID r" ?w3] by (simp split: option.split)
    then have "run_table (exec_or_log ''could not store next run number in DB: '' (addRun f (w_db ?w5)) ?w5) =
        appended f rs (closing f now r) n"
      using runs_ok_same_key [OF ok] True by (intro addRun_latest) simp_all
    moreover have "stopProcesses f collate sv now w =
        exec_or_log ''could not store next run number in DB: '' (addRun f (w_db ?w5)) ?w5"
      unfolding stopProcesses_def Inr sum.case Let_def latest split_beta using True by (simp add: run_open_def)
    ultimately show ?thesis using True by simp
  qed
qed

lemma force_stop_run_table:
  assumes t: "run_table w = (rs @ [r], n)" and ok: "runs_ok (rs @ [r]) n"
  shows "run_table (forceStopProcesses f collate sv now w) = (rs @ [r], n) \<or>
    run_table (forceStopProcesses f collate sv now w) = appended f rs (closing f now r) n"
proof (cases "ReadConfigurationFromDB (querier_of f collate (w_db w))")
  case (Inl e)
  then show ?thesis using t by (simp add: forceStopProcesses_def)
next
  case (Inr cfg)
  let ?w2 = "fst (stopLDCs sv (EnabledLDCs (cfg_LDCs cfg)) (fst (stopGDCs sv (EnabledGDCs (cfg_GDCs cfg)) w)))"
  have t2: "run_table ?w2 = (rs @ [r], n)" using t by simp
  note latest = latest_query [OF t2 ok, of f]
  show ?thesis
  proof (cases "f ''GetLatestRunWithTimestamp''")
    case (Some e)
    then show ?thesis using Inr latest t by (simp add: forceStopProcesses_def Let_def)
  next
    case None
    let ?w4 = "if run_open r then
        let w3 = notifyTopi f sv ''stop'' (ru_ID r) ?w2
        in exec_or_log (''could not store stop time for run '' @ show_int (ru_ID r) @ '': '')
             (updateRunStopTime f now (ru_ID r) (w_db w3)) w3
      else ?w2"
    have "run_table ?w4 = (rs @ [closing f now r], n)"
    proof (cases "run_open r")
      case True
      then show ?thesis
        unfolding Let_def using close_run [of "notifyTopi f sv ''stop'' (ru_ID r) ?w2" rs r n] t ok by simp
    next
      case False
      then show ?thesis using t by (simp add: closing_def)
    qed
    then have "run_table (exec_or_log ''could not store next run number in DB: '' (addRun f (w_db ?w4)) ?w4) =
        appended f rs (closing f now r) n"
      using runs_ok_same_key [OF ok] None by (intro addRun_latest) simp_all
    moreover have "forceStopProcesses f collate sv now w =
        exec_or_log ''could not store next run number in DB: '' (addRun f (w_db ?w4)) ?w4"
      unfolding forceStopProcesses_def Inr sum.case Let_def latest None option.case run_open_def [symmetric] ..
    ultimately show ?thesis by simp
  qed
qed

text \<open>One operation on a table whose latest run is \<open>r\<close>.\<close>

lemma run_step_table:
  assumes "run_table w = (rs @ [r], n)" and "runs_ok (rs @ [r]) n"
  shows "run_table (run_step collate op w) = (rs @ [r], n) \<or>
    (\<exists>now. run_table (run_step collate op w) = (rs @ [started now r], n)) \<or>
    (\<exists>now. run_table (run_step collate op w) = appended (op_faults op) rs (closing (op_faults op) now r) n)"
  using start_run_table [OF assms] stop_run_table [OF assms] force_stop_run_table [OF assms]
  by (cases op) (simp, blast)+

text \<open>The three properties of the history that one operation keeps.\<close>

lemma run_step_keeps:
  assumes t: "run_table w = (rs @ [r], n)" and ok: "runs_ok (rs @ [r]) n"
  obtains new m where "run_table (run_step collate op w) = (rs @ new, m)" "new \<noteq> []" "runs_ok (rs @ new) m"
    "op_faults op ''UpdateRunStopTime'' = None \<and> list_all run_closed rs \<longrightarrow> list_all run_closed (butlast (rs @ new))"
    "op_faults op ''InsertNewRun'' = None \<and> \<not> nvalid (ru_Stop r) \<longrightarrow> \<not> nvalid (ru_Stop (last new))"
proof -
  let ?f = "op_faults op"
  consider "run_table (run_step collate op w) = (rs @ [r], n)"
    | now where "run_table (run_step collate op w) = (rs @ [started now r], n)"
    | now where "run_table (run_step collate op w) = appended ?f rs (closing ?f now r) n"
    using run_step_table [OF t ok, of collate op] by blast
  then show ?thesis
  proof cases
    case 1
    then show ?thesis using ok by (intro that [of "[r]" n]) simp_all
  next
    case (2 now)
    then show ?thesis
      using runs_ok_same_key [OF ok] by (intro that [of "[started now r]" n]) (simp_all add: started_def)
  next
    case (3 now)
    have ok': "runs_ok (rs @ [closing ?f now r]) n" using runs_ok_same_key [OF ok] by simp
    show ?thesis
    proof (cases "nvalid (ru_Start r) \<and> ?f ''InsertNewRun'' = None")
      case True
      then have "run_closed (closing ?f now r)" if "?f ''UpdateRunStopTime'' = None"
        using that by (simp add: run_closed_def closing_def run_open_def stopped_def)
      with True 3 ok' runs_ok_append [OF ok'] show ?thesis
        by (intro that [of "[closing ?f now r, next_run n]" "n + 1"])
          (simp_all add: appended_def next_run_def butlast_append)
    next
      case False
      with 3 ok' show ?thesis
        by (intro that [of "[closing ?f now r]" n]) (auto simp: appended_def closing_def run_open_def)
    qed
  qed
qed

text \<open>
  C19. The table of runs is a history. Under any sequence of starts, stops and forced stops that follow one another, with any
  answers of the servers and whatever queries fail, the keys keep growing, every run but the latest has a start time, and
  the rows before the latest never change again. When no update of a stop time failed, every run but the latest has a stop time
  too; when no insert of a new run failed (nor the reading of the latest one), the latest run has no stop time. Neither is true
  without the condition: the code goes on after a failed update, and the run before is then left open for ever.
\<close>

theorem run_history:
  assumes "runs_ok (db_runs (w_db w)) (db_next_run (w_db w))"
    and "w' = fold (run_step collate) ops w"
  shows "runs_ok (db_runs (w_db w')) (db_next_run (w_db w')) \<and>
    (\<exists>new. new \<noteq> [] \<and> db_runs (w_db w') = butlast (db_runs (w_db w)) @ new) \<and>
    (list_all run_closed (butlast (db_runs (w_db w))) \<and> list_all (\<lambda>op. op_faults op ''UpdateRunStopTime'' = None) ops \<longrightarrow>
       list_all run_closed (butlast (db_runs (w_db w')))) \<and>
    (\<not> nvalid (ru_Stop (last (db_runs (w_db w)))) \<and>
     list_all (\<lambda>op. op_faults op ''InsertNewRun'' = None \<and> op_faults op ''GetLatestRunWithTimestamp'' = None) ops \<longrightarrow>
       \<not> nvalid (ru_Stop (last (db_runs (w_db w')))))"
  using assms
proof (induction ops arbitrary: w)
  case Nil
  then show ?case by (auto simp: runs_ok_def intro!: exI [of _ "[last (db_runs (w_db w))]"])
next
  case (Cons op ops)
  then have "db_runs (w_db w) \<noteq> []" by (simp add: runs_ok_def)
  then obtain rs r where rs: "db_runs (w_db w) = rs @ [r]" by (metis append_butlast_last_id)
  then have t: "run_table w = (rs @ [r], db_next_run (w_db w))" "runs_ok (rs @ [r]) (db_next_run (w_db w))"
    using Cons.prems(1) by simp_all
  obtain new m where new: "run_table (run_step collate op w) = (rs @ new, m)" "new \<noteq> []" "runs_ok (rs @ new) m"
    "op_faults op ''UpdateRunStopTime'' = None \<and> list_all run_closed rs \<longrightarrow> list_all run_closed (butlast (rs @ new))"
    "op_faults op ''InsertNewRun'' = None \<and> \<not> nvalid (ru_Stop r) \<longrightarrow> \<not> nvalid (ru_Stop (last new))"
    by (rule run_step_keeps [OF t, of collate op])
  have "w' = fold (run_step collate) ops (run_step collate op w)" using Cons.prems(2) by simp
  from Cons.IH [OF _ this] new rs show ?case by (auto simp: butlast_append)
qed

text \<open>
  A run is started and stopped, and the next one started; when the update of the stop time fails, run 7 is left open for ever.
\<close>

definition example_fault :: faults where
  "example_fault = no_faults(''UpdateRunStopTime'' \<mapsto> ''lost connection'')"

definition example_runs :: "faults \<Rightarrow> run_op list" where
  "example_runs f = [DoStart no_faults example_servers True 5, DoStop f example_servers 9,
     DoForceStop no_faults example_servers 12, DoStart no_faults example_servers True 20]"

theorem run_history_witness:
  "(let w = fold (run_step (\<lambda>_. 0)) (example_runs no_faults) example_world
    in runs_ok (db_runs (w_db w)) (db_next_run (w_db w)) \<and> list_all run_closed (butlast (db_runs (w_db w))) \<and>
      \<not> nvalid (ru_Stop (last (db_runs (w_db w))))) \<and>
   map run_open (db_runs (w_db (fold (run_step (\<lambda>_. 0)) (example_runs example_fault) example_world))) = [True, True]"
proof
  have "runs_ok (db_runs (w_db example_world)) (db_next_run (w_db example_world)) \<and>
      list_all run_closed (butlast (db_runs (w_db example_world))) \<and> \<not> nvalid (ru_Stop (last (db_runs (w_db example_world))))"
    by (simp add: example_world_def example_db_def runs_ok_def)
  then show "let w = fold (run_step (\<lambda>_. 0)) (example_runs no_faults) example_world
    in runs_ok (db_runs (w_db w)) (db_next_run (w_db w)) \<and> list_all run_closed (butlast (db_runs (w_db w))) \<and>
      \<not> nvalid (ru_Stop (last (db_runs (w_db w))))"
    using run_history [OF _ refl, of example_world "\<lambda>_. 0" "example_runs no_faults"]
    unfolding Let_def by (simp add: example_runs_def no_faults_def)
  show "map run_open (db_runs (w_db (fold (run_step (\<lambda>_. 0)) (example_runs example_fault) example_world))) = [True, True]"
    by code_simp
qed

section \<open>The statistics of a run\<close>

text \<open>The rows that the statistics of the servers add to the tables \<open>events\<close>, \<open>data\<close> and \<open>errors\<close>.\<close>

definition gdc_rows :: "(int \<times> int \<times> int \<Rightarrow> int) \<Rightarrow> servers \<Rightarrow> int \<Rightarrow> GDCConfiguration list \<Rightarrow> db_Stat list" where
  "gdc_rows pick sv run gs = List.map_filter (\<lambda>g.
     case sr_GetRunStatistics sv (gdc_IP g) (gdc_GRPCPort g) of
       Inl _ \<Rightarrow> None | Inr v \<Rightarrow> Some (gdc_stat run (SqlNull (gdc_ID g) True) (SqlNull (pick v) True))) gs"

definition ldc_rows :: "(int \<times> int \<times> int \<Rightarrow> int) \<Rightarrow> servers \<Rightarrow> int \<Rightarrow> LDCConfiguration list \<Rightarrow> db_Stat list" where
  "ldc_rows pick sv run ls = List.map_filter (\<lambda>l.
     case sr_GetRunStatistics sv (ldc_IP l) (ldc_GRPCPort l) of
       Inl _ \<Rightarrow> None | Inr v \<Rightarrow> Some (ldc_stat run (SqlNull (ldc_ID l) True) (SqlNull (pick v) True))) ls"

abbreviation stat_tables :: "world \<Rightarrow> db_Stat list \<times> db_Stat list \<times> db_Stat list" where
  "stat_tables w \<equiv> (db_events (w_db w), db_data (w_db w), db_errors (w_db w))"

lemma gdc_statistics:
  "stat_tables (fold (updateGDCStatistics no_faults sv run) gs w) =
     (db_events (w_db w) @ gdc_rows fst sv run gs, db_data (w_db w) @ gdc_rows (\<lambda>v. fst (snd v)) sv run gs,
      db_errors (w_db w) @ gdc_rows (\<lambda>v. 0) sv run gs)"
proof (induction gs arbitrary: w)
  case (Cons g gs)
  show ?case
    unfolding fold_Cons comp_apply Cons.IH
    by (cases "sr_GetRunStatistics sv (gdc_IP g) (gdc_GRPCPort g)")
      (auto simp: gdc_rows_def List.map_filter_simps updateGDCStatistics_def fetchRunStatisticsRPC_def Let_def
        exec_or_log_def insert_defs sql_InsertGDCEvents_def sql_InsertGDCBytes_def sql_InsertGDCErrorCount_def query_def
        no_faults_def split: prod.split)
qed (simp add: gdc_rows_def List.map_filter_simps)

lemma ldc_statistics:
  "stat_tables (fold (updateLDCStatistics no_faults sv run) ls w) =
     (db_events (w_db w) @ ldc_rows fst sv run ls, db_data (w_db w) @ ldc_rows (\<lambda>v. fst (snd v)) sv run ls,
      db_errors (w_db w) @ ldc_rows (\<lambda>v. 0) sv run ls)"
proof (induction ls arbitrary: w)
  case (Cons l ls)
  show ?case
    unfolding fold_Cons comp_apply Cons.IH
    by (cases "sr_GetRunStatistics sv (ldc_IP l) (ldc_GRPCPort l)")
      (auto simp: ldc_rows_def List.map_filter_simps updateLDCStatistics_def fetchRunStatisticsRPC_def Let_def
        exec_or_log_def insert_defs sql_InsertLDCEvents_def sql_InsertLDCBytes_def sql_InsertLDCErrorCount_def query_def
        no_faults_def split: prod.split)
qed (simp add: ldc_rows_def List.map_filter_simps)

text \<open>
  C30. The statistics of a run are stored once per server: a row of events and a row of bytes for every enabled GDC and LDC that
  answers, with the numbers it answers; but the number of errors that is stored is always zero, whatever the server
  counted.
\<close>

theorem run_statistics_stored:
  assumes "ReadConfigurationFromDB (querier_of no_faults collate (w_db w)) = Inr cfg"
    and "gs = EnabledGDCs (cfg_GDCs cfg)" and "ls = EnabledLDCs (cfg_LDCs cfg)"
  shows "stat_tables (fst (updateRunStatistics no_faults collate sv run w)) =
     (db_events (w_db w) @ gdc_rows fst sv run gs @ ldc_rows fst sv run ls,
      db_data (w_db w) @ gdc_rows (\<lambda>v. fst (snd v)) sv run gs @ ldc_rows (\<lambda>v. fst (snd v)) sv run ls,
      db_errors (w_db w) @ gdc_rows (\<lambda>v. 0) sv run gs @ ldc_rows (\<lambda>v. 0) sv run ls)"
  using ldc_statistics [of sv run ls "fold (updateGDCStatistics no_faults sv run) gs w"] gdc_statistics [of sv run gs w]
  by (simp add: updateRunStatistics_def updateAllGDCStatistics_def updateAllLDCStatistics_def assms)

theorem run_statistics_stored_witness:
  "map st_Value (db_errors (w_db (fst (updateRunStatistics no_faults (\<lambda>_. 0)
     (example_servers\<lparr>sr_GetRunStatistics := \<lambda>_ _. Inr (10, 2000, 3)\<rparr>) 7 example_world)))) =
   [SqlNull 0 True, SqlNull 0 True]"
proof -
  obtain cfg where cfg: "ReadConfigurationFromDB (querier_of no_faults (\<lambda>_. 0) (w_db example_world)) = Inr cfg"
    and ls: "map (\<lambda>l. (ldc_IP l, ldc_GRPCPort l)) (EnabledLDCs (cfg_LDCs cfg)) = [(''l'', 3)]"
    and gs: "map (\<lambda>g. (gdc_IP g, gdc_GRPCPort g)) (EnabledGDCs (cfg_GDCs cfg)) = [(''g'', 1)]"
    using example_cfg by (auto simp: example_world_def)
  from ls obtain l where l: "EnabledLDCs (cfg_LDCs cfg) = [l]" by auto
  from gs obtain g where g: "EnabledGDCs (cfg_GDCs cfg) = [g]" by auto
  show ?thesis
    using run_statistics_stored [OF cfg refl refl, of "example_servers\<lparr>sr_GetRunStatistics := \<lambda>_ _. Inr (10, 2000, 3)\<rparr>" 7]
    by (simp add: l g gdc_rows_def ldc_rows_def List.map_filter_simps gdc_stat_def ldc_stat_def example_world_def example_db_def)
qed


end
