(* ===== verification/Process_Start.thy ===== *)
theory Process_Start
  imports Rate_Reader Rpc_Routing Run_Server Sim_Generator Api_Control
begin

text \<open>
  How the processes come up: the configuration file (\<open>src/pkg/configuration.go\<close>), the metrics registries
  (\<open>prometheus.go\<close> of the LDC, the GDC and the device simulator, \<open>src/pkg/prometheus.go\<close>), the decoder's configuration
  (\<open>src/gdcRPC/decoder.go\<close>) and the main functions of the LDC, the GDC, the device simulator, \<open>rateReader\<close> and \<open>readLogs\<close>.

  The file system, the YAML library, the network and the collectors of the Prometheus library are fields of \<open>process_env\<close>.
  A main function that serves ends in \<open>Returns\<close> with what the process then runs with; \<open>log.Fatalf\<close> is \<open>Fatal\<close> and a panic
  \<open>Crashes\<close>. Gauges are rational numbers; a registry is the list of the names registered in it.
\<close>

section \<open>Definitions\<close>

subsection \<open>The configuration file (configuration.go)\<close>

record ConfigurationFile =
  cf_Database :: DatabaseConfiguration
  cf_Centrifugal :: CentrifugalConfiguration
  cf_LogLevel :: int
  cf_GoStats :: bool

record process_env =
  pe_readFile :: "string \<Rightarrow> string result"
  pe_yaml :: "string \<Rightarrow> ConfigurationFile result"
  pe_opens :: "string \<Rightarrow> nat \<Rightarrow> string option"
  pe_pings :: "string \<Rightarrow> nat \<Rightarrow> string option"
  pe_queries :: querier
  pe_closeErr :: "string option"
  pe_hostname :: "string result"
  pe_centrifuge :: centrifuge_env
  pe_listen :: "int \<Rightarrow> string option"
  pe_goCollector :: "string list"
  pe_processCollector :: "string list"

definition ReadConfigurationFile :: "process_env \<Rightarrow> string \<Rightarrow> ConfigurationFile result" where
  "ReadConfigurationFile env filename = bind_result (pe_readFile env filename) (pe_yaml env)"

text \<open>\<open>ReadConfiguration\<close> of \<open>Duck_Config\<close> with the address from the file.\<close>

definition read_configuration :: "process_env \<Rightarrow> string \<Rightarrow> Configuration result" where
  "read_configuration env filename =
     ReadConfiguration (map_sum id cf_Database (ReadConfigurationFile env filename)) (pe_opens env) (pe_pings env)
       (pe_queries env) (pe_closeErr env)"

text \<open>One attempt to connect: the error of opening as it is, that of the ping with a prefix.\<close>

definition ParseDatabaseConfiguration :: "process_env \<Rightarrow> DatabaseConfiguration \<Rightarrow> string option" where
  "ParseDatabaseConfiguration env dbConf =
     (let uri = BuildDatabaseURI dbConf
      in case pe_opens env uri 1 of
           Some err \<Rightarrow> Some err
         | None \<Rightarrow> map_option (\<lambda>err. ''failed to ping database: '' @ err) (pe_pings env uri 1))"

definition ReadConfigurationWithoutRetry :: "process_env \<Rightarrow> string \<Rightarrow> Configuration result" where
  "ReadConfigurationWithoutRetry env filename =
     bind_result (ReadConfigurationFile env filename) (\<lambda>confFile.
       case ParseDatabaseConfiguration env (cf_Database confFile) of
         Some err \<Rightarrow> Inl err
       | None \<Rightarrow>
           bind_result (ReadConfigurationFromDB (pe_queries env)) (\<lambda>configuration.
             case pe_closeErr env of Some err \<Rightarrow> Inl err | None \<Rightarrow> Inr configuration))"

subsection \<open>Metrics (prometheus.go)\<close>

record gauge =
  gg_name :: string
  gg_value :: rat

record gauge_vec =
  gv_name :: string
  gv_values :: "(string, rat) go_map"

record histogram =
  hi_name :: string
  hi_buckets :: "rat list"
  hi_observed :: "rat list"

record histogram_vec =
  hv_name :: string
  hv_buckets :: "rat list"
  hv_observed :: "(string, rat list) go_map"

definition NewGauge :: "string \<Rightarrow> gauge" where
  "NewGauge name = \<lparr>gg_name = name, gg_value = 0\<rparr>"

definition NewGaugeVec :: "string \<Rightarrow> gauge_vec" where
  "NewGaugeVec name = \<lparr>gv_name = name, gv_values = gm_empty\<rparr>"

definition NewHistogram :: "string \<Rightarrow> rat list \<Rightarrow> histogram" where
  "NewHistogram name buckets = \<lparr>hi_name = name, hi_buckets = buckets, hi_observed = []\<rparr>"

definition NewHistogramVec :: "string \<Rightarrow> rat list \<Rightarrow> histogram_vec" where
  "NewHistogramVec name buckets = \<lparr>hv_name = name, hv_buckets = buckets, hv_observed = gm_empty\<rparr>"

lemmas new_metric_defs = NewGauge_def NewGaugeVec_def NewHistogram_def NewHistogramVec_def

definition gauge_Set :: "rat \<Rightarrow> gauge \<Rightarrow> gauge" where
  "gauge_Set v g = g\<lparr>gg_value := v\<rparr>"

text \<open>\<open>int64(value)\<close> truncates towards zero; \<open>werr\<close> is the error of writing the gauge out.\<close>

definition GetPrometheusGaugeValue :: "string option \<Rightarrow> gauge \<Rightarrow> int \<times> string option" where
  "GetPrometheusGaugeValue werr g = (if gg_value g < 0 then - \<lfloor>- gg_value g\<rfloor> else \<lfloor>gg_value g\<rfloor>, werr)"

text \<open>The getters of both registries: 0 on an error.\<close>

definition counter_value :: "string option \<Rightarrow> gauge \<Rightarrow> int" where
  "counter_value werr g = (case GetPrometheusGaugeValue werr g of (value, err) \<Rightarrow> if err \<noteq> None then 0 else value)"

type_synonym registry = "string list"

text \<open>\<open>MustRegister\<close> of a collector with the given names panics when one is taken.\<close>

definition MustRegister :: "string list \<Rightarrow> registry \<Rightarrow> registry outcome" where
  "MustRegister names r = (if distinct names \<and> set names \<inter> set r = {} then Ok (r @ names) else Panic)"

fun MustRegister_all :: "string list list \<Rightarrow> registry \<Rightarrow> registry outcome" where
  "MustRegister_all [] r = Ok r"
| "MustRegister_all (names # rest) r = bind_outcome (MustRegister names r) (MustRegister_all rest)"

paragraph \<open>LDC\<close>

record ldc_MetricsRegistry =
  lmr_eventCounter :: gauge
  lmr_sizeCounter :: gauge
  lmr_packetErrorCounter :: gauge
  lmr_incompleteEventsCounter :: gauge
  lmr_equipmentDataChannelCounter :: gauge
  lmr_receiveChannelCounters :: gauge_vec
  lmr_networkBufferErrorCounter :: gauge
  lmr_timeToGdcHistogram :: histogram_vec

definition ldc_NewMetricsRegistry :: ldc_MetricsRegistry where
  "ldc_NewMetricsRegistry = \<lparr>
     lmr_eventCounter = NewGauge ''ldc_event_count'',
     lmr_sizeCounter = NewGauge ''ldc_data_bytes'',
     lmr_packetErrorCounter = NewGauge ''ldc_packet_error_count'',
     lmr_incompleteEventsCounter = NewGauge ''ldc_incomplete_evts_count'',
     lmr_equipmentDataChannelCounter = NewGauge ''ldc_equipment_data_channel_count'',
     lmr_receiveChannelCounters = NewGaugeVec ''ldc_receive_channel_count'',
     lmr_networkBufferErrorCounter = NewGauge ''ldc_network_buffer_error_count'',
     lmr_timeToGdcHistogram = NewHistogramVec ''ldc_to_gdc_time_histogram'' [0, 100, 200, 300, 400, 500, 600, 700, 800, 900, 1000, 1100, 1200, 1300, 1400, 1500, 1600, 1700, 1800, 1900, 2000]\<rparr>"

definition ldc_collectors :: "ldc_MetricsRegistry \<Rightarrow> string list list" where
  "ldc_collectors m = [
     [gg_name (lmr_eventCounter m)],
     [gg_name (lmr_sizeCounter m)],
     [gg_name (lmr_packetErrorCounter m)],
     [gg_name (lmr_incompleteEventsCounter m)],
     [gg_name (lmr_equipmentDataChannelCounter m)],
     [gv_name (lmr_receiveChannelCounters m)],
     [gg_name (lmr_networkBufferErrorCounter m)],
     [hv_name (lmr_timeToGdcHistogram m)]]"

definition ldc_Register :: "ldc_MetricsRegistry \<Rightarrow> registry \<Rightarrow> registry outcome" where
  "ldc_Register m r = MustRegister_all (ldc_collectors m) r"

definition ldc_Reset :: "ldc_MetricsRegistry \<Rightarrow> ldc_MetricsRegistry" where
  "ldc_Reset m = m\<lparr>
     lmr_eventCounter := gauge_Set 0 (lmr_eventCounter m),
     lmr_sizeCounter := gauge_Set 0 (lmr_sizeCounter m),
     lmr_packetErrorCounter := gauge_Set 0 (lmr_packetErrorCounter m),
     lmr_incompleteEventsCounter := gauge_Set 0 (lmr_incompleteEventsCounter m),
     lmr_networkBufferErrorCounter := gauge_Set 0 (lmr_networkBufferErrorCounter m)\<rparr>"

definition ldc_startPrometheus :: "process_env \<Rightarrow> ldc_MetricsRegistry \<Rightarrow> bool \<Rightarrow> registry outcome" where
  "ldc_startPrometheus env metrics goStats =
     bind_outcome (if goStats then MustRegister_all [pe_goCollector env, pe_processCollector env] [] else Ok [])
       (ldc_Register metrics)"

paragraph \<open>GDC\<close>

record gdc_MetricsRegistry =
  gmr_eventCounter :: gauge
  gmr_sizeCounter :: gauge
  gmr_evtErrorCounter :: gauge
  gmr_incompleteEventsCounter :: gauge
  gmr_dataChannelCounter :: gauge
  gmr_writeTimeHistogram :: histogram
  gmr_h5WriteTimeHistogram :: histogram
  gmr_decodeTimeHistogram :: histogram
  gmr_h5FilesOpenedCounter :: gauge_vec
  gmr_filesOpenedCounter :: gauge
  gmr_evtsWaitingForHdf5WriterCounter :: gauge_vec
  gmr_subRunCounter :: gauge
  gmr_evtsWaitingBinaryWriterCounter :: gauge
  gmr_evtsWaitingDecodeCounter :: gauge
  gmr_evtsPerTriggerTypeCounter :: gauge_vec
  gmr_evtDecoderErrorCounter :: gauge

definition gdc_NewMetricsRegistry :: gdc_MetricsRegistry where
  "gdc_NewMetricsRegistry = \<lparr>
     gmr_eventCounter = NewGauge ''gdc_event_count'',
     gmr_sizeCounter = NewGauge ''gdc_data_bytes'',
     gmr_evtErrorCounter = NewGauge ''gdc_evt_error_count'',
     gmr_incompleteEventsCounter = NewGauge ''gdc_incomplete_evts_count'',
     gmr_dataChannelCounter = NewGauge ''gdc_data_channel_count'',
     gmr_writeTimeHistogram = NewHistogram ''gdc_write_time_histogram'' [0, 1, 2, 3, 4, 5, 6, 7, 8, 9, 10, 11, 12, 13, 14, 15, 16, 17, 18, 19, 20, 21, 22, 23, 24, 25],
     gmr_h5WriteTimeHistogram = NewHistogram ''gdc_hdf5_write_time_histogram'' [0, 50, 75, 100, 125, 150, 175, 200, 250, 300, 350, 400, 450, 500, 1000, 2000],
     gmr_decodeTimeHistogram = NewHistogram ''gdc_decoder_time_histogram'' [0, 500, 600, 700, 800, 900, 1000, 1500, 2000, 3000],
     gmr_h5FilesOpenedCounter = NewGaugeVec ''gdc_opened_hdf5_files_count'',
     gmr_filesOpenedCounter = NewGauge ''gdc_opened_files_count'',
     gmr_evtsWaitingForHdf5WriterCounter = NewGaugeVec ''gdc_events_waiting_hdf5_write_count'',
     gmr_subRunCounter = NewGauge ''gdc_subrun_count'',
     gmr_evtsWaitingBinaryWriterCounter = NewGauge ''gdc_events_waiting_binary_write_count'',
     gmr_evtsWaitingDecodeCounter = NewGauge ''gdc_events_waiting_decode_count'',
     gmr_evtsPerTriggerTypeCounter = NewGaugeVec ''gdc_events_per_trigger_type_count'',
     gmr_evtDecoderErrorCounter = NewGauge ''gdc_decoder_error_count''\<rparr>"

definition gdc_collectors :: "gdc_MetricsRegistry \<Rightarrow> string list list" where
  "gdc_collectors m = [
     [gg_name (gmr_eventCounter m)],
     [gg_name (gmr_sizeCounter m)],
     [gg_name (gmr_evtErrorCounter m)],
     [gg_name (gmr_incompleteEventsCounter m)],
     [gg_name (gmr_dataChannelCounter m)],
     [hi_name (gmr_writeTimeHistogram m)],
     [hi_name (gmr_h5WriteTimeHistogram m)],
     [hi_name (gmr_decodeTimeHistogram m)],
     [gv_name (gmr_h5FilesOpenedCounter m)],
     [gg_name (gmr_filesOpenedCounter m)],
     [gv_name (gmr_evtsWaitingForHdf5WriterCounter m)],
     [gg_name (gmr_subRunCounter m)],
     [gg_name (gmr_evtsWaitingDecodeCounter m)],
     [gg_name (gmr_evtsWaitingBinaryWriterCounter m)],
     [gv_name (gmr_evtsPerTriggerTypeCounter m)],
     [gg_name (gmr_evtDecoderErrorCounter m)]]"

definition gdc_Register :: "gdc_MetricsRegistry \<Rightarrow> registry \<Rightarrow> registry outcome" where
  "gdc_Register m r = MustRegister_all (gdc_collectors m) r"

definition gdc_Reset :: "gdc_MetricsRegistry \<Rightarrow> gdc_MetricsRegistry" where
  "gdc_Reset m = m\<lparr>
     gmr_eventCounter := gauge_Set 0 (gmr_eventCounter m),
     gmr_sizeCounter := gauge_Set 0 (gmr_sizeCounter m),
     gmr_evtErrorCounter := gauge_Set 0 (gmr_evtErrorCounter m),
     gmr_incompleteEventsCounter := gauge_Set 0 (gmr_incompleteEventsCounter m),
     gmr_filesOpenedCounter := gauge_Set 0 (gmr_filesOpenedCounter m),
     gmr_subRunCounter := gauge_Set 0 (gmr_subRunCounter m),
     gmr_evtsWaitingDecodeCounter := gauge_Set 0 (gmr_evtsWaitingDecodeCounter m),
     gmr_evtDecoderErrorCounter := gauge_Set 0 (gmr_evtDecoderErrorCounter m)\<rparr>"

definition gdc_startPrometheus :: "process_env \<Rightarrow> gdc_MetricsRegistry \<Rightarrow> bool \<Rightarrow> registry outcome" where
  "gdc_startPrometheus env metrics goStats =
     bind_outcome (if goStats then MustRegister_all [pe_goCollector env, pe_processCollector env] [] else Ok [])
       (gdc_Register metrics)"

text \<open>\<open>GetRunStatistics\<close> of the two servers: events, bytes and errors.\<close>

definition ldc_GetRunStatistics :: "string option \<Rightarrow> ldc_MetricsRegistry \<Rightarrow> int \<times> int \<times> int" where
  "ldc_GetRunStatistics werr m =
     (counter_value werr (lmr_eventCounter m), counter_value werr (lmr_sizeCounter m), counter_value werr (lmr_packetErrorCounter m))"

definition gdc_GetRunStatistics :: "string option \<Rightarrow> gdc_MetricsRegistry \<Rightarrow> int \<times> int \<times> int" where
  "gdc_GetRunStatistics werr m =
     (counter_value werr (gmr_eventCounter m), counter_value werr (gmr_sizeCounter m), counter_value werr (gmr_evtErrorCounter m))"

paragraph \<open>Device simulator: the default registry, which has the collectors of the library already\<close>

definition sim_startPrometheus :: "process_env \<Rightarrow> registry outcome" where
  "sim_startPrometheus env =
     MustRegister_all [[''simulator_event_count''], [''simulator_packet_count''], [''simulator_data_bytes''],
       [''simulator_error_count''], [''simulator_replay_rate''], [''simulator_error_injection_count'']]
       (pe_goCollector env @ pe_processCollector env)"

subsection \<open>The decoder's configuration (decoder.go)\<close>

text \<open>
  The configuration of the decoder package, for the fields that are set. Its two enumerations are parsed by the package
  (\<open>algorithm\<close>, \<open>shuffle\<close>); their errors are ignored, and the zero value stays.
\<close>

record ('a, 's) decoder_configuration =
  dc_MaxEvents :: int
  dc_Verbosity :: int
  dc_ExtTrigger :: int
  dc_TrgCode1 :: int
  dc_TrgCode2 :: int
  dc_ReadPMTs :: bool
  dc_ReadSiPMs :: bool
  dc_ReadTrigger :: bool
  dc_ReadFibers :: bool
  dc_SplitTrg :: bool
  dc_NoDB :: bool
  dc_Discard :: bool
  dc_Skip :: int
  dc_Host :: string
  dc_User :: string
  dc_Passwd :: string
  dc_DBName :: string
  dc_NumWorkers :: int
  dc_WriteData :: bool
  dc_Parallel :: bool
  dc_UseBlosc :: bool
  dc_CompressionLevel :: int
  dc_BloscAlgorithm :: 'a
  dc_BloscShuffle :: 's

definition parseDecoderConfiguration ::
  "(string \<Rightarrow> 'a) \<Rightarrow> (string \<Rightarrow> 's) \<Rightarrow> DecoderConfiguration option \<Rightarrow> ('a, 's) decoder_configuration result" where
  "parseDecoderConfiguration algorithm shuffle ctx =
     (case ctx of
        None \<Rightarrow> Inl ''error getting decoder configuration from context''
      | Some c \<Rightarrow> Inr \<lparr>
          dc_MaxEvents = 1000000000, dc_Verbosity = 1,
          dc_ExtTrigger = dec_ExtTrigger c, dc_TrgCode1 = dec_TrgCode1 c, dc_TrgCode2 = dec_TrgCode2 c,
          dc_ReadPMTs = dec_ReadPMTs c, dc_ReadSiPMs = dec_ReadSiPMs c, dc_ReadTrigger = dec_ReadTrigger c,
          dc_ReadFibers = dec_ReadFibers c, dc_SplitTrg = dec_SplitTrigger c, dc_NoDB = dec_NoDB c, dc_Discard = dec_Discard c,
          dc_Skip = 0, dc_Host = dec_Host c, dc_User = dec_User c, dc_Passwd = dec_Passwd c, dc_DBName = dec_DBName c,
          dc_NumWorkers = 1, dc_WriteData = dec_WriteData c, dc_Parallel = False, dc_UseBlosc = dec_UseBlosc c,
          dc_CompressionLevel = dec_CompressionLevel c,
          dc_BloscAlgorithm = algorithm ([CHR 0x22] @ dec_BloscAlgorithm c @ [CHR 0x22]),
          dc_BloscShuffle = shuffle ([CHR 0x22] @ dec_BitShuffle c @ [CHR 0x22])\<rparr>)"

text \<open>
  What \<open>setupDecoder\<close> leaves in the package: the configuration, the run whose tables were loaded, and the errors it logged.
  An error ends it early and the run goes on.
\<close>

record ('a, 's) decoder_state =
  ds_configuration :: "('a, 's) decoder_configuration option"
  ds_run :: "int option"

definition setupDecoder ::
  "(string \<Rightarrow> 'a) \<Rightarrow> (string \<Rightarrow> 's) \<Rightarrow> (string \<Rightarrow> string \<Rightarrow> string \<Rightarrow> string \<Rightarrow> string option) \<Rightarrow> DecoderConfiguration option \<Rightarrow> int \<Rightarrow>
   ('a, 's) decoder_state \<Rightarrow> ('a, 's) decoder_state \<times> string list" where
  "setupDecoder algorithm shuffle connect ctx runNumber d =
     (case parseDecoderConfiguration algorithm shuffle ctx of
        Inl err \<Rightarrow> (d, [err, ''error parsing decoder configuration: '' @ err])
      | Inr c \<Rightarrow>
          let d1 = d\<lparr>ds_configuration := Some c\<rparr>
          in case connect (dc_User c) (dc_Passwd c) (dc_Host c) (dc_DBName c) of
               Some err \<Rightarrow> (d1, [''error connection to database: '' @ err])
             | None \<Rightarrow> (d1\<lparr>ds_run := Some runNumber\<rparr>, []))"

subsection \<open>Main functions of the servers (main.go of ldcRPC and gdcRPC)\<close>

text \<open>What a server process runs with: its logger, its ports, its registries and the state of its run control.\<close>

record 'm process =
  pr_logger :: DuckLogger
  pr_port :: int
  pr_prometheusPort :: int
  pr_metrics :: 'm
  pr_registry :: registry
  pr_server :: server

text \<open>The subscription to the message server; a port of zero turns it off.\<close>

definition open_subscription :: "process_env \<Rightarrow> CentrifugalConfiguration \<Rightarrow> string \<Rightarrow> (string + bool) exit" where
  "open_subscription env config name =
     (if cc_Port config = 0 then Returns (Inr False)
      else case CreateNewSubscription (pe_centrifuge env) config name of
             Returns (Inl err) \<Rightarrow> Returns (Inl err)
           | Returns (Inr _) \<Rightarrow> Returns (Inr True)
           | Fatal e \<Rightarrow> Fatal e
           | Crashes \<Rightarrow> Crashes)"

definition gdc_main :: "process_env \<Rightarrow> string \<Rightarrow> string \<Rightarrow> gdc_MetricsRegistry process exit" where
  "gdc_main env configFilename serverName =
     (case read_configuration env configFilename of
        Inl err \<Rightarrow> Fatal (''error reading configuration: '' @ err)
      | Inr configuration \<Rightarrow>
     (case GetGDCConfiguration (pe_hostname env) (cfg_GDCs configuration) serverName of
        Inl err \<Rightarrow> Fatal (''error reading GDC configuration: '' @ err)
      | Inr gdc \<Rightarrow>
     (case ReadConfigurationFile env configFilename of
        Inl err \<Rightarrow> Fatal (''error reading configuration file: '' @ err)
      | Inr configFile \<Rightarrow>
     (case open_subscription env (cf_Centrifugal configFile) (gdc_Name gdc) of
        Fatal e \<Rightarrow> Fatal e
      | Crashes \<Rightarrow> Crashes
      | Returns (Inl err) \<Rightarrow> Fatal (''error starting centrifuge: '' @ err)
      | Returns (Inr sub) \<Rightarrow>
          let logger = NewDuckLogger (gdc_Name gdc) sub (cf_LogLevel configFile);
              metrics = gdc_NewMetricsRegistry
          in case pe_listen env (gdc_GRPCPort gdc) of
               Some err \<Rightarrow> Fatal (''Error listening on ConnectRPC port: '' @ err)
             | None \<Rightarrow>
                 (case gdc_startPrometheus env metrics (cf_GoStats configFile) of
                    Panic \<Rightarrow> Crashes
                  | Ok r \<Rightarrow> Returns \<lparr>pr_logger = logger, pr_port = gdc_GRPCPort gdc, pr_prometheusPort = gdc_PrometheusPort gdc,
                      pr_metrics = metrics, pr_registry = r, pr_server = server_init\<rparr>)))))"

text \<open>
  The LDC ends through \<open>Fatalf\<close> of its logger, which does not format: the message of the listener keeps its verb and loses
  the error.
\<close>

definition ldc_main :: "process_env \<Rightarrow> string \<Rightarrow> string \<Rightarrow> ldc_MetricsRegistry process exit" where
  "ldc_main env configFilename ldcName =
     (case read_configuration env configFilename of
        Inl err \<Rightarrow> Fatal (''error reading configuration '' @ err)
      | Inr configuration \<Rightarrow>
     (case GetLDCConfiguration (pe_hostname env) (cfg_LDCs configuration) ldcName of
        Inl err \<Rightarrow> Fatal (''error reading LDC configuration '' @ err)
      | Inr ldc \<Rightarrow>
     (case ReadConfigurationFile env configFilename of
        Inl err \<Rightarrow> Fatal (''error reading configuration '' @ err)
      | Inr configFile \<Rightarrow>
     (case open_subscription env (cf_Centrifugal configFile) (ldc_Name ldc) of
        Fatal e \<Rightarrow> Fatal e
      | Crashes \<Rightarrow> Crashes
      | Returns (Inl err) \<Rightarrow> Fatal (''error starting centrifuge: '' @ err)
      | Returns (Inr sub) \<Rightarrow>
          let logger = NewDuckLogger (ldc_Name ldc) sub (cf_LogLevel configFile);
              metrics = ldc_NewMetricsRegistry
          in case pe_listen env (ldc_GRPCPort ldc) of
               Some err \<Rightarrow> Fatal ''Error listening on ConnectRPC port: %v''
             | None \<Rightarrow>
                 (case ldc_startPrometheus env metrics (cf_GoStats configFile) of
                    Panic \<Rightarrow> Crashes
                  | Ok r \<Rightarrow> Returns \<lparr>pr_logger = logger, pr_port = ldc_GRPCPort ldc, pr_prometheusPort = ldc_PrometheusPort ldc,
                      pr_metrics = metrics, pr_registry = r, pr_server = server_init\<rparr>)))))"

subsection \<open>The run control of a process (main.go)\<close>

text \<open>
  The handlers with the metrics they touch: an accepted start resets the counters. The GDC answers a ping without doing anything;
  that of the LDC is in \<open>Run_Server\<close>.
\<close>

datatype control_reply = Reply string | PingReply bool | RunStatisticsReply int int int

definition gdc_StartRun :: "gdc_MetricsRegistry process \<Rightarrow> gdc_MetricsRegistry process \<times> control_reply" where
  "gdc_StartRun p =
     (case StartRun (pr_server p) of (s, message) \<Rightarrow>
        (p\<lparr>pr_server := s,
            pr_metrics := (if sv_state (pr_server p) \<noteq> INITIALIZED then pr_metrics p else gdc_Reset (pr_metrics p))\<rparr>, Reply message))"

definition ldc_StartRun :: "ldc_MetricsRegistry process \<Rightarrow> ldc_MetricsRegistry process \<times> control_reply" where
  "ldc_StartRun p =
     (case StartRun (pr_server p) of (s, message) \<Rightarrow>
        (p\<lparr>pr_server := s,
            pr_metrics := (if sv_state (pr_server p) \<noteq> INITIALIZED then pr_metrics p else ldc_Reset (pr_metrics p))\<rparr>, Reply message))"

definition gdc_StopRun :: "gdc_MetricsRegistry process \<Rightarrow> gdc_MetricsRegistry process \<times> control_reply" where
  "gdc_StopRun p = (case StopRun (pr_server p) of (s, message) \<Rightarrow> (p\<lparr>pr_server := s\<rparr>, Reply message))"

definition gdc_GetState :: "gdc_MetricsRegistry process \<Rightarrow> gdc_MetricsRegistry process \<times> control_reply" where
  "gdc_GetState p = (case GetState (pr_server p) of (s, message) \<Rightarrow> (p\<lparr>pr_server := s\<rparr>, Reply message))"

definition gdc_PingDevices :: "gdc_MetricsRegistry process \<Rightarrow> gdc_MetricsRegistry process \<times> control_reply" where
  "gdc_PingDevices p = (p, PingReply True)"

text \<open>The service of the GDC: the methods behind \<open>NewRunControlHandler\<close>.\<close>

fun gdc_service_call :: "RunControl_rpc \<Rightarrow> gdc_MetricsRegistry process \<Rightarrow> gdc_MetricsRegistry process \<times> control_reply" where
  "gdc_service_call CtlStartRun p = gdc_StartRun p"
| "gdc_service_call CtlStopRun p = gdc_StopRun p"
| "gdc_service_call CtlGetState p = gdc_GetState p"
| "gdc_service_call CtlPingDevices p = gdc_PingDevices p"
| "gdc_service_call CtlGetRunStatistics p =
     (p, case gdc_GetRunStatistics None (pr_metrics p) of (events, nbytes, errors) \<Rightarrow> RunStatisticsReply events nbytes errors)"

subsection \<open>Main functions of the clients of the message server (rateReader, readLogs)\<close>

definition updateDatabase_start :: "process_env \<Rightarrow> DatabaseConfiguration \<Rightarrow> bool" where
  "updateDatabase_start env dbConf \<longleftrightarrow> rate_connectToDatabase (\<lambda>uri. pe_opens env uri 1) (BuildDatabaseURI dbConf) = None"

text \<open>
  \<open>rateReader\<close> goes on to its ticks when the connection opens, and ends (\<open>Returns None\<close>) when it does not. Here an error is a
  panic.
\<close>

definition rateReader_main :: "process_env \<Rightarrow> string \<Rightarrow> (rate_state \<times> bool) option exit" where
  "rateReader_main env configFilename =
     (case ReadConfigurationFile env configFilename of
        Inl err \<Rightarrow> Crashes
      | Inr configuration \<Rightarrow>
          (case CreateNewSubscriptionWithFnReadout (pe_centrifuge env) (cf_Centrifugal configuration) ''rateReader'' (Some ()) of
             Fatal e \<Rightarrow> Fatal e
           | Crashes \<Rightarrow> Crashes
           | Returns (Inl err) \<Rightarrow> Crashes
           | Returns (Inr _) \<Rightarrow>
               Returns (if updateDatabase_start env (cf_Database configuration) then Some (rate_init, True) else None)))"

definition readLogs_main :: "process_env \<Rightarrow> string \<Rightarrow> unit exit" where
  "readLogs_main env configFilename =
     (case ReadConfigurationFile env configFilename of
        Inl err \<Rightarrow> Crashes
      | Inr configuration \<Rightarrow>
          (case CreateNewSubscriptionWithFnReadout (pe_centrifuge env) (cf_Centrifugal configuration) ''readLogs'' (Some ()) of
             Fatal e \<Rightarrow> Fatal e
           | Crashes \<Rightarrow> Crashes
           | Returns (Inl err) \<Rightarrow> Crashes
           | Returns (Inr _) \<Rightarrow> Returns ()))"

subsection \<open>Main function of the device simulator (main.go)\<close>

record sim_flags =
  fl_mode :: string
  fl_config :: string
  fl_id :: int
  fl_file :: string
  fl_server :: bool
  fl_grpcPort :: int
  fl_prometheusPort :: int

text \<open>The process serves its run control, or works from the command line.\<close>

datatype sim_process = SimServes DuckLogger int int registry | SimCommandLine DuckLogger int registry

definition sim_logger :: "process_env \<Rightarrow> string \<Rightarrow> string \<Rightarrow> DuckLogger exit" where
  "sim_logger env configFilename deviceName =
     (let logger = NewDuckLogger deviceName False LevelInfo
      in if configFilename = [] then Returns logger
         else case ReadConfigurationFile env configFilename of
                Inl err \<Rightarrow> Fatal (''Error reading configuration: '' @ err)
              | Inr configFile \<Rightarrow>
                  (case CreateNewSubscription (pe_centrifuge env) (cf_Centrifugal configFile) deviceName of
                     Fatal e \<Rightarrow> Fatal e
                   | Crashes \<Rightarrow> Crashes
                   | Returns (Inl err) \<Rightarrow> Returns logger
                   | Returns (Inr _) \<Rightarrow> Returns (NewDuckLogger deviceName True (cf_LogLevel configFile))))"

definition sim_grpcPort :: "sim_flags \<Rightarrow> int" where
  "sim_grpcPort fl = (if fl_grpcPort fl = 0 then 50070 + fl_id fl - 1 else fl_grpcPort fl)"

definition sim_main :: "process_env \<Rightarrow> sim_flags \<Rightarrow> sim_process exit" where
  "sim_main env fl =
     (if fl_id fl = 0 then Fatal ''Error: -id (equipment ID) is required''
      else if fl_mode fl \<noteq> ''replay'' \<and> fl_mode fl \<noteq> ''generate''
      then Fatal (''Error: -mode must be 'replay' or 'generate', got '' @ [CHR 0x27] @ fl_mode fl @ [CHR 0x27])
      else
        let deviceName = ''simulator-'' @ show_int (fl_id fl)
        in case sim_logger env (fl_config fl) deviceName of
             Fatal e \<Rightarrow> Fatal e
           | Crashes \<Rightarrow> Crashes
           | Returns logger \<Rightarrow>
               let prometheusPort = (if fl_prometheusPort fl = 0 then 12130 + fl_id fl - 1 else fl_prometheusPort fl)
               in case sim_startPrometheus env of
                    Panic \<Rightarrow> Crashes
                  | Ok r \<Rightarrow>
                      if \<not> fl_server fl then Returns (SimCommandLine logger prometheusPort r)
                      else
                        let grpcPort = sim_grpcPort fl
                        in case pe_listen env grpcPort of
                             Some err \<Rightarrow> Fatal ''Error listening on ConnectRPC port: %v''
                           | None \<Rightarrow> Returns (SimServes logger grpcPort prometheusPort r))"

text \<open>
  The command line mode. \<open>start\<close> is the outcome of connecting, configuring, creating and starting the source, as in
  \<open>sim_StartRun\<close>; replay needs a file, which is looked at once the database is connected.
\<close>

definition cli_failure :: "string \<Rightarrow> start_failure \<Rightarrow> string" where
  "cli_failure mode f =
     (let what = (if mode = ''generate'' then ''generator'' else ''replayer'')
      in case f of
           DatabaseError e \<Rightarrow> ''Failed to connect to database: '' @ e
         | ConfigError e \<Rightarrow> ''Failed to build '' @ (if mode = ''generate'' then ''generator'' else ''replay'') @ '' config: '' @ e
         | CreateError e \<Rightarrow> ''Failed to create '' @ what @ '': '' @ e
         | StartError e \<Rightarrow> ''Failed to start '' @ (if mode = ''generate'' then ''generator'' else ''replay'') @ '': '' @ e)"

definition runCLI_start :: "string \<Rightarrow> string \<Rightarrow> start_failure + 'src \<Rightarrow> 'src exit" where
  "runCLI_start mode filePath start =
     (case start of
        Inl (DatabaseError e) \<Rightarrow> Fatal (cli_failure mode (DatabaseError e))
      | _ \<Rightarrow>
          if mode \<noteq> ''generate'' \<and> filePath = [] then Fatal ''Error: -file is required in replay mode''
          else case start of Inl f \<Rightarrow> Fatal (cli_failure mode f) | Inr source \<Rightarrow> Returns source)"

text \<open>
  The loop that prints the status: a tick with the status and the state of the source, or a signal. The result is what is
  printed and whether the loop has ended.
\<close>

datatype cli_input = CliTick string SourceState | CliSignal

fun runCLI_loop :: "string \<Rightarrow> cli_input list \<Rightarrow> string list \<times> bool" where
  "runCLI_loop mode [] = ([], False)"
| "runCLI_loop mode (CliSignal # is) = ([[CHR 0x0A] @ ''Stopping '' @ mode @ ''...''], True)"
| "runCLI_loop mode (CliTick status st # is) =
     (if st = SourceStateStopped then ([status, mode @ '' completed''], True)
      else case runCLI_loop mode is of (out, ended) \<Rightarrow> (status # out, ended))"

section \<open>Starting\<close>

lemma MustRegister_all_ok:
  "distinct (r @ concat ns) \<Longrightarrow> MustRegister_all ns r = Ok (r @ concat ns)"
proof (induction ns arbitrary: r)
  case (Cons n ns)
  have "MustRegister_all ns (r @ n) = Ok ((r @ n) @ concat ns)" using Cons.prems by (intro Cons.IH) simp
  moreover have "MustRegister n r = Ok (r @ n)" using Cons.prems by (auto simp: MustRegister_def)
  ultimately show ?case by simp
qed simp

text \<open>The names of the library's collectors start with \<open>go_\<close> and \<open>process_\<close>.\<close>

definition library_collectors :: "process_env \<Rightarrow> bool" where
  "library_collectors env \<longleftrightarrow>
     distinct (pe_goCollector env @ pe_processCollector env) \<and>
     list_all (\<lambda>n. has_prefix n ''go_'' \<or> has_prefix n ''process_'') (pe_goCollector env @ pe_processCollector env)"

lemma library_name_fresh:
  assumes "library_collectors env" "n \<in> set (pe_goCollector env @ pe_processCollector env)"
  shows "has_prefix n ''go_'' \<or> has_prefix n ''process_''"
  using assms by (auto simp: library_collectors_def list_all_iff)

lemma register_after_library:
  assumes lib: "library_collectors env" and own: "distinct (concat ns)"
    "list_all (\<lambda>n. \<not> has_prefix n ''go_'' \<and> \<not> has_prefix n ''process_'') (concat ns)"
  shows "\<exists>r. bind_outcome (if b then MustRegister_all [pe_goCollector env, pe_processCollector env] [] else Ok [])
      (MustRegister_all ns) = Ok r \<and> distinct r \<and> set (concat ns) \<subseteq> set r"
proof -
  let ?lib = "if b then pe_goCollector env @ pe_processCollector env else []"
  have d: "distinct (pe_goCollector env @ pe_processCollector env)" using lib by (simp add: library_collectors_def)
  have "set ?lib \<inter> set (concat ns) = {}"
    using library_name_fresh [OF lib] own(2) by (fastforce simp: list_all_iff)
  with d own(1) have dd: "distinct (?lib @ concat ns)" by auto
  have "(if b then MustRegister_all [pe_goCollector env, pe_processCollector env] [] else Ok []) = Ok ?lib"
    using d MustRegister_all_ok [of "[]" "[pe_goCollector env, pe_processCollector env]"] by simp
  moreover have "MustRegister_all ns ?lib = Ok (?lib @ concat ns)" by (rule MustRegister_all_ok [OF dd])
  ultimately show ?thesis using dd by auto
qed

lemma ldc_startPrometheus_ok:
  assumes "library_collectors env"
  shows "\<exists>r. ldc_startPrometheus env ldc_NewMetricsRegistry b = Ok r \<and> distinct r \<and>
    set (concat (ldc_collectors ldc_NewMetricsRegistry)) \<subseteq> set r"
proof -
  have reg: "ldc_Register ldc_NewMetricsRegistry = MustRegister_all (ldc_collectors ldc_NewMetricsRegistry)"
    by (simp add: ldc_Register_def fun_eq_iff)
  show ?thesis unfolding ldc_startPrometheus_def reg
    by (rule register_after_library [OF assms])
      (simp_all add: ldc_collectors_def ldc_NewMetricsRegistry_def new_metric_defs has_prefix_def)
qed

lemma gdc_startPrometheus_ok:
  assumes "library_collectors env"
  shows "\<exists>r. gdc_startPrometheus env gdc_NewMetricsRegistry b = Ok r \<and> distinct r \<and>
    set (concat (gdc_collectors gdc_NewMetricsRegistry)) \<subseteq> set r"
proof -
  have reg: "gdc_Register gdc_NewMetricsRegistry = MustRegister_all (gdc_collectors gdc_NewMetricsRegistry)"
    by (simp add: gdc_Register_def fun_eq_iff)
  show ?thesis unfolding gdc_startPrometheus_def reg
    by (rule register_after_library [OF assms])
      (simp_all add: gdc_collectors_def gdc_NewMetricsRegistry_def new_metric_defs has_prefix_def)
qed

lemma sim_startPrometheus_ok:
  assumes "library_collectors env"
  shows "\<exists>r. sim_startPrometheus env = Ok r"
  using register_after_library [OF assms, of "[[''simulator_event_count''], [''simulator_packet_count''], [''simulator_data_bytes''],
       [''simulator_error_count''], [''simulator_replay_rate''], [''simulator_error_injection_count'']]" True]
    MustRegister_all_ok [of "[]" "[pe_goCollector env, pe_processCollector env]"] assms
  by (auto simp: has_prefix_def library_collectors_def sim_startPrometheus_def simp del: MustRegister_all.simps)

text \<open>The subscription never crashes when tokens can be signed.\<close>

definition signs :: "process_env \<Rightarrow> bool" where
  "signs env \<longleftrightarrow> (\<forall>claims token. \<exists>t. ce_sign (pe_centrifuge env) claims token = Inr t)"

lemma subscription_cases:
  assumes "signs env"
  shows "CreateNewSubscription (pe_centrifuge env) config name \<noteq> Crashes" "open_subscription env config name \<noteq> Crashes"
proof -
  define claims where "claims = \<lparr>tc_sub = name, tc_exp = None\<rparr>"
  obtain t where "ce_sign (pe_centrifuge env) claims (cc_Token config) = Inr t"
    using assms unfolding signs_def by blast
  then have "ConnToken (ce_sign (pe_centrifuge env)) name 0 (cc_Token config) = Ok t"
    by (simp add: ConnToken_def claims_def)
  then have "CentrifugeConnection (ce_sign (pe_centrifuge env)) (ce_connect (pe_centrifuge env)) config name \<noteq> Panic"
    by (simp add: CentrifugeConnection_def Let_def)
  then show "CreateNewSubscription (pe_centrifuge env) config name \<noteq> Crashes"
    by (auto simp: CreateNewSubscription_def CreateNewSubscriptionWithFnReadout_def SubscribeCentrifuge_def
        split: outcome.split option.split exit.split)
  then show "open_subscription env config name \<noteq> Crashes"
    by (auto simp: open_subscription_def split: exit.split sum.split)
qed

text \<open>What the start of a server needs.\<close>

definition subscribed :: "process_env \<Rightarrow> ConfigurationFile \<Rightarrow> string \<Rightarrow> bool" where
  "subscribed env configFile name \<longleftrightarrow> (\<exists>b. open_subscription env (cf_Centrifugal configFile) name = Returns (Inr b))"

definition gdc_can_start :: "process_env \<Rightarrow> string \<Rightarrow> string \<Rightarrow> GDCConfiguration \<Rightarrow> bool" where
  "gdc_can_start env file name g \<longleftrightarrow>
     (\<exists>cfg cf. read_configuration env file = Inr cfg \<and> GetGDCConfiguration (pe_hostname env) (cfg_GDCs cfg) name = Inr g \<and>
        ReadConfigurationFile env file = Inr cf \<and> subscribed env cf (gdc_Name g) \<and> pe_listen env (gdc_GRPCPort g) = None)"

definition ldc_can_start :: "process_env \<Rightarrow> string \<Rightarrow> string \<Rightarrow> LDCConfiguration \<Rightarrow> bool" where
  "ldc_can_start env file name l \<longleftrightarrow>
     (\<exists>cfg cf. read_configuration env file = Inr cfg \<and> GetLDCConfiguration (pe_hostname env) (cfg_LDCs cfg) name = Inr l \<and>
        ReadConfigurationFile env file = Inr cf \<and> subscribed env cf (ldc_Name l) \<and> pe_listen env (ldc_GRPCPort l) = None)"

lemma gdc_main_outcome:
  assumes "library_collectors env" "signs env"
  shows "(\<exists>e. gdc_main env file name = Fatal e \<and> (\<forall>g. \<not> gdc_can_start env file name g)) \<or>
    (\<exists>g p. gdc_main env file name = Returns p \<and> gdc_can_start env file name g \<and> pr_port p = gdc_GRPCPort g \<and>
       pr_prometheusPort p = gdc_PrometheusPort g \<and> dl_Host (pr_logger p) = gdc_Name g \<and>
       pr_metrics p = gdc_NewMetricsRegistry \<and> pr_server p = server_init)"
proof (cases "\<exists>g. gdc_can_start env file name g")
  case True
  then obtain g cfg cf b where s: "gdc_can_start env file name g" "read_configuration env file = Inr cfg"
      "GetGDCConfiguration (pe_hostname env) (cfg_GDCs cfg) name = Inr g" "ReadConfigurationFile env file = Inr cf"
      "open_subscription env (cf_Centrifugal cf) (gdc_Name g) = Returns (Inr b)" "pe_listen env (gdc_GRPCPort g) = None"
    by (auto simp: gdc_can_start_def subscribed_def)
  obtain r where "gdc_startPrometheus env gdc_NewMetricsRegistry (cf_GoStats cf) = Ok r"
    using gdc_startPrometheus_ok [OF assms(1)] by blast
  with s show ?thesis by (auto simp: gdc_main_def NewDuckLogger_def NewDuckLoggerWithRun_def)
next
  case False
  then have no: "\<exists>e. pe_listen env (gdc_GRPCPort g) = Some e"
    if "read_configuration env file = Inr cfg" "GetGDCConfiguration (pe_hostname env) (cfg_GDCs cfg) name = Inr g"
      "ReadConfigurationFile env file = Inr cf" "open_subscription env (cf_Centrifugal cf) (gdc_Name g) = Returns (Inr b)"
    for cfg g cf b
    using that by (auto simp: gdc_can_start_def subscribed_def)
  have "\<exists>e. gdc_main env file name = Fatal e"
    using subscription_cases(2) [OF assms(2)]
    by (auto simp: gdc_main_def Let_def split: sum.split exit.split option.split dest: no)
  with False show ?thesis by blast
qed

lemma ldc_main_outcome:
  assumes "library_collectors env" "signs env"
  shows "(\<exists>e. ldc_main env file name = Fatal e \<and> (\<forall>l. \<not> ldc_can_start env file name l)) \<or>
    (\<exists>l p. ldc_main env file name = Returns p \<and> ldc_can_start env file name l \<and> pr_port p = ldc_GRPCPort l \<and>
       pr_prometheusPort p = ldc_PrometheusPort l \<and> dl_Host (pr_logger p) = ldc_Name l \<and>
       pr_metrics p = ldc_NewMetricsRegistry \<and> pr_server p = server_init)"
proof (cases "\<exists>l. ldc_can_start env file name l")
  case True
  then obtain l cfg cf b where s: "ldc_can_start env file name l" "read_configuration env file = Inr cfg"
      "GetLDCConfiguration (pe_hostname env) (cfg_LDCs cfg) name = Inr l" "ReadConfigurationFile env file = Inr cf"
      "open_subscription env (cf_Centrifugal cf) (ldc_Name l) = Returns (Inr b)" "pe_listen env (ldc_GRPCPort l) = None"
    by (auto simp: ldc_can_start_def subscribed_def)
  obtain r where "ldc_startPrometheus env ldc_NewMetricsRegistry (cf_GoStats cf) = Ok r"
    using ldc_startPrometheus_ok [OF assms(1)] by blast
  with s show ?thesis by (auto simp: ldc_main_def NewDuckLogger_def NewDuckLoggerWithRun_def)
next
  case False
  then have no: "\<exists>e. pe_listen env (ldc_GRPCPort l) = Some e"
    if "read_configuration env file = Inr cfg" "GetLDCConfiguration (pe_hostname env) (cfg_LDCs cfg) name = Inr l"
      "ReadConfigurationFile env file = Inr cf" "open_subscription env (cf_Centrifugal cf) (ldc_Name l) = Returns (Inr b)"
    for cfg l cf b
    using that by (auto simp: ldc_can_start_def subscribed_def)
  have "\<exists>e. ldc_main env file name = Fatal e"
    using subscription_cases(2) [OF assms(2)]
    by (auto simp: ldc_main_def Let_def split: sum.split exit.split option.split dest: no)
  with False show ?thesis by blast
qed

lemma fresh_statistics:
  "gdc_GetRunStatistics werr gdc_NewMetricsRegistry = (0, 0, 0)" "ldc_GetRunStatistics werr ldc_NewMetricsRegistry = (0, 0, 0)"
  "gdc_GetRunStatistics werr (gdc_Reset m) = (0, 0, 0)" "ldc_GetRunStatistics werr (ldc_Reset l) = (0, 0, 0)"
  by (simp_all add: gdc_GetRunStatistics_def ldc_GetRunStatistics_def counter_value_def GetPrometheusGaugeValue_def
      gdc_NewMetricsRegistry_def ldc_NewMetricsRegistry_def gdc_Reset_def ldc_Reset_def gauge_Set_def NewGauge_def)

text \<open>
  C22. Starting a server. The main function of a GDC and of an LDC never panics: it ends with a message exactly when something it
  needs is missing (the configuration in file and database, its own entry there, the message server, a free port). Otherwise the
  process serves on the port its entry names, which is where the API calls it; it is idle, and the first call to start a run is
  accepted and leaves its statistics at zero.
\<close>

theorem servers_start_or_say_why:
  assumes "library_collectors env" "signs env"
  shows "(case gdc_main env file name of
       Crashes \<Rightarrow> False
     | Fatal e \<Rightarrow> (\<forall>g. \<not> gdc_can_start env file name g)
     | Returns p \<Rightarrow> (\<exists>g. gdc_can_start env file name g \<and> pr_port p = gdc_GRPCPort g \<and> dl_Host (pr_logger p) = gdc_Name g \<and>
         sv_state (pr_server p) = INITIALIZED \<and> snd (gdc_StartRun p) = Reply ''Started'' \<and>
         snd (gdc_service_call CtlGetRunStatistics (fst (gdc_StartRun p))) = RunStatisticsReply 0 0 0)) \<and>
    (case ldc_main env file name of
       Crashes \<Rightarrow> False
     | Fatal e \<Rightarrow> (\<forall>l. \<not> ldc_can_start env file name l)
     | Returns p \<Rightarrow> (\<exists>l. ldc_can_start env file name l \<and> pr_port p = ldc_GRPCPort l \<and> dl_Host (pr_logger p) = ldc_Name l \<and>
         sv_state (pr_server p) = INITIALIZED \<and> snd (ldc_StartRun p) = Reply ''Started'' \<and>
         ldc_GetRunStatistics None (pr_metrics (fst (ldc_StartRun p))) = (0, 0, 0)))"
  using gdc_main_outcome [OF assms, of "file" "name"] ldc_main_outcome [OF assms, of "file" "name"]
  by (auto simp: fresh_statistics server_init_def gdc_StartRun_def ldc_StartRun_def StartRun_def)

text \<open>A machine with one GDC, which can be read, and no message server.\<close>

definition example_env :: process_env where
  "example_env = \<lparr>pe_readFile = (\<lambda>f. if f = ''conf.yml'' then Inr ''...'' else Inl ''no such file''),
     pe_yaml = (\<lambda>s. Inr \<lparr>cf_Database = \<lparr>db_Username = ''duck'', db_Password = ''p'', db_Hostname = ''db'', db_Port = ''3306'',
         db_Database = ''duck''\<rparr>, cf_Centrifugal = \<lparr>cc_Host = [], cc_Port = 0, cc_Token = []\<rparr>, cf_LogLevel = 0, cf_GoStats = True\<rparr>),
     pe_opens = (\<lambda>_ _. None), pe_pings = (\<lambda>_ n. if n < 3 then Some ''refused'' else None),
     pe_queries = querier_of no_faults (\<lambda>_. 0) example_db, pe_closeErr = None, pe_hostname = Inr ''h'',
     pe_centrifuge = \<lparr>ce_sign = (\<lambda>c t. Inr t), ce_connect = (\<lambda>_. None), ce_create = None, ce_subscribe = None\<rparr>,
     pe_listen = (\<lambda>_. None), pe_goCollector = [''go_goroutines''], pe_processCollector = [''process_open_fds'']\<rparr>"

theorem servers_start_or_say_why_witness:
  "(\<exists>p. gdc_main example_env ''conf.yml'' ''gdc1'' = Returns p \<and> pr_port p = 1 \<and> sv_state (pr_server p) = INITIALIZED) \<and>
   (\<forall>l. \<not> ldc_can_start example_env ''conf.yml'' ''gdc1'' l)"
proof -
  have env: "library_collectors example_env" "signs example_env"
    by (simp_all add: library_collectors_def signs_def example_env_def has_prefix_def)
  have g: "(case gdc_main example_env ''conf.yml'' ''gdc1'' of Returns p \<Rightarrow> pr_port p = 1 | _ \<Rightarrow> False)" by code_simp
  have l: "(case ldc_main example_env ''conf.yml'' ''gdc1'' of Fatal e \<Rightarrow> True | _ \<Rightarrow> False)" by code_simp
  show ?thesis
    using servers_start_or_say_why [OF env, of "''conf.yml''" "''gdc1''"] g l by (auto split: exit.splits)
qed

end
