(* ===== verification/Api_Handlers.thy ===== *)
theory Api_Handlers
  imports Api_Database Rpc_Routing "HOL-Library.List_Lexorder" "HOL-Library.Char_ord"
begin

text \<open>
  The handlers of the API server that manage the configuration: \<open>src/api/apiHandlerGDC.go\<close>,
  \<open>apiHandlerLDC.go\<close>, \<open>apiHandlerEquipment.go\<close>, \<open>apiHandlerDecoder.go\<close>, \<open>apiHandlerRunInfo.go\<close> and
  \<open>apiHandlerTestDevice.go\<close>.

  A handler takes the faults of the database connection and the database and returns its answer, or a
  ConnectRPC error with its code, and the database it leaves. The messages \<open>pb.GDC\<close>, \<open>pb.LDC\<close>,
  \<open>pb.Equipment\<close> and \<open>pb.DecoderConfiguration\<close> are records; the requests that create or update carry the same
  fields. The calls to the device simulators (\<open>connectToDeviceRPCServer\<close>) are an argument, the error that a host
  and a port answer with.
\<close>

section \<open>Definitions\<close>

datatype api_error = ApiError connect_code string

type_synonym 'a api = "api_error + 'a"

record api_reply =
  re_Success :: bool
  re_Message :: string

definition database_error :: "string \<Rightarrow> api_error" where
  "database_error e = ApiError CodeInternal (''database error: '' @ e)"

text \<open>\<open>sql.NullString{String: s, Valid: s != ""}\<close>, and the other columns, which are always valid.\<close>

definition null_string :: "string \<Rightarrow> string sql_null" where
  "null_string s = SqlNull s (s \<noteq> [])"

definition valid_value :: "'a \<Rightarrow> 'a sql_null" where
  "valid_value v = SqlNull v True"

text \<open>The end of a handler that changes the database by one query.\<close>

definition exec_reply :: "string \<Rightarrow> database result \<Rightarrow> database \<Rightarrow> api_reply api \<times> database" where
  "exec_reply msg r db =
     (case r of Inl e \<Rightarrow> (Inl (database_error e), db) | Inr db' \<Rightarrow> (Inr \<lparr>re_Success = True, re_Message = msg\<rparr>, db'))"

text \<open>The end of a handler that reads one row: no row is not found, any other error is internal.\<close>

definition one_reply :: "string \<Rightarrow> ('r \<Rightarrow> 'm) \<Rightarrow> 'r result \<Rightarrow> 'm api" where
  "one_reply missing decode r =
     (case r of Inl e \<Rightarrow> Inl (if e = ErrNoRows then ApiError CodeNotFound missing else database_error e)
      | Inr row \<Rightarrow> Inr (decode row))"

subsection \<open>GDCs (apiHandlerGDC.go)\<close>

record pb_GDC =
  pg_Id :: int
  pg_Name :: string
  pg_Hostname :: string
  pg_Ip :: string
  pg_Port :: int
  pg_Datapath :: string
  pg_Enabled :: bool
  pg_WriteOutput :: bool
  pg_Decode :: bool
  pg_GrpcPort :: int
  pg_PrometheusPort :: int

definition encode_gdc :: "int \<Rightarrow> pb_GDC \<Rightarrow> db_Gdc" where
  "encode_gdc i m = \<lparr>gr_ID = i, gr_Name = null_string (pg_Name m), gr_Hostname = null_string (pg_Hostname m),
     gr_Ip = null_string (pg_Ip m), gr_Port = valid_value (pg_Port m), gr_GrpcPort = valid_value (pg_GrpcPort m),
     gr_PrometheusPort = valid_value (pg_PrometheusPort m), gr_Datapath = null_string (pg_Datapath m),
     gr_Enabled = valid_value (pg_Enabled m), gr_Writeoutput = valid_value (pg_WriteOutput m),
     gr_Decode = valid_value (pg_Decode m)\<rparr>"

definition decode_gdc :: "db_Gdc \<Rightarrow> pb_GDC" where
  "decode_gdc g = \<lparr>pg_Id = gr_ID g, pg_Name = nval (gr_Name g), pg_Hostname = nval (gr_Hostname g),
     pg_Ip = nval (gr_Ip g), pg_Port = nval (gr_Port g), pg_Datapath = nval (gr_Datapath g),
     pg_Enabled = nval (gr_Enabled g), pg_WriteOutput = nval (gr_Writeoutput g), pg_Decode = nval (gr_Decode g),
     pg_GrpcPort = nval (gr_GrpcPort g), pg_PrometheusPort = nval (gr_PrometheusPort g)\<rparr>"

definition CreateGDC :: "faults \<Rightarrow> pb_GDC \<Rightarrow> database \<Rightarrow> api_reply api \<times> database" where
  "CreateGDC f req db = exec_reply ''GDC created successfully'' (sql_CreateGDC f (encode_gdc 0 req) db) db"

definition GetGDCs :: "faults \<Rightarrow> (string \<Rightarrow> nat) \<Rightarrow> database \<Rightarrow> pb_GDC list api" where
  "GetGDCs f collate db =
     (case sql_ListGDCs f collate db of Inl e \<Rightarrow> Inl (database_error e) | Inr rows \<Rightarrow> Inr (map decode_gdc rows))"

definition GetGDC :: "faults \<Rightarrow> int \<Rightarrow> database \<Rightarrow> pb_GDC api" where
  "GetGDC f i db = one_reply ''GDC not found'' decode_gdc (sql_GetGDC f i db)"

definition UpdateGDC :: "faults \<Rightarrow> pb_GDC \<Rightarrow> database \<Rightarrow> api_reply api \<times> database" where
  "UpdateGDC f req db = exec_reply ''GDC updated successfully'' (sql_UpdateGDC f (encode_gdc (pg_Id req) req) db) db"

definition DeleteGDC :: "faults \<Rightarrow> int \<Rightarrow> database \<Rightarrow> api_reply api \<times> database" where
  "DeleteGDC f i db = exec_reply ''GDC deleted successfully'' (sql_DeleteGDC f i db) db"

subsection \<open>Equipments (apiHandlerEquipment.go)\<close>

record pb_Equipment =
  pe_Id :: int
  pe_Type :: int
  pe_DeviceIp :: string
  pe_HostIp :: string
  pe_HostPort :: int
  pe_LdcId :: int
  pe_Enabled :: bool

definition encode_equipment :: "int \<Rightarrow> pb_Equipment \<Rightarrow> db_Equipment" where
  "encode_equipment i m = \<lparr>er_ID = i, er_Type = valid_value (pe_Type m), er_DeviceIp = null_string (pe_DeviceIp m),
     er_HostIp = null_string (pe_HostIp m), er_HostPort = valid_value (pe_HostPort m),
     er_Enabled = valid_value (pe_Enabled m), er_Ldcid = valid_value (pe_LdcId m)\<rparr>"

definition decode_equipment :: "db_Equipment \<Rightarrow> pb_Equipment" where
  "decode_equipment e = \<lparr>pe_Id = er_ID e, pe_Type = nval (er_Type e), pe_DeviceIp = nval (er_DeviceIp e),
     pe_HostIp = nval (er_HostIp e), pe_HostPort = nval (er_HostPort e), pe_LdcId = nval (er_Ldcid e),
     pe_Enabled = nval (er_Enabled e)\<rparr>"

definition CreateEquipment :: "faults \<Rightarrow> pb_Equipment \<Rightarrow> database \<Rightarrow> api_reply api \<times> database" where
  "CreateEquipment f req db =
     exec_reply ''Equipment created successfully'' (sql_CreateEquipment f (encode_equipment 0 req) db) db"

definition GetEquipments :: "faults \<Rightarrow> database \<Rightarrow> pb_Equipment list api" where
  "GetEquipments f db =
     (case sql_ListEquipments f db of Inl e \<Rightarrow> Inl (database_error e) | Inr rows \<Rightarrow> Inr (map decode_equipment rows))"

definition GetEquipment :: "faults \<Rightarrow> int \<Rightarrow> database \<Rightarrow> pb_Equipment api" where
  "GetEquipment f i db = one_reply ''Equipment not found'' decode_equipment (sql_GetEquipment f i db)"

definition UpdateEquipment :: "faults \<Rightarrow> pb_Equipment \<Rightarrow> database \<Rightarrow> api_reply api \<times> database" where
  "UpdateEquipment f req db =
     exec_reply ''Equipment updated successfully'' (sql_UpdateEquipment f (encode_equipment (pe_Id req) req) db) db"

definition DeleteEquipment :: "faults \<Rightarrow> int \<Rightarrow> database \<Rightarrow> api_reply api \<times> database" where
  "DeleteEquipment f i db = exec_reply ''Equipment deleted successfully'' (sql_DeleteEquipment f i db) db"

subsection \<open>LDCs (apiHandlerLDC.go)\<close>

record pb_LDC =
  pl_Id :: int
  pl_Name :: string
  pl_Hostname :: string
  pl_Ip :: string
  pl_Enabled :: bool
  pl_GrpcPort :: int
  pl_PrometheusPort :: int
  pl_Equipments :: "pb_Equipment list"

definition encode_ldc :: "int \<Rightarrow> pb_LDC \<Rightarrow> db_Ldc" where
  "encode_ldc i m = \<lparr>lr_ID = i, lr_Name = null_string (pl_Name m), lr_Hostname = null_string (pl_Hostname m),
     lr_Ip = null_string (pl_Ip m), lr_GrpcPort = valid_value (pl_GrpcPort m),
     lr_PrometheusPort = valid_value (pl_PrometheusPort m), lr_Enabled = valid_value (pl_Enabled m)\<rparr>"

definition decode_ldc :: "db_Ldc \<Rightarrow> pb_LDC" where
  "decode_ldc l = \<lparr>pl_Id = lr_ID l, pl_Name = nval (lr_Name l), pl_Hostname = nval (lr_Hostname l),
     pl_Ip = nval (lr_Ip l), pl_Enabled = nval (lr_Enabled l), pl_GrpcPort = nval (lr_GrpcPort l),
     pl_PrometheusPort = nval (lr_PrometheusPort l), pl_Equipments = []\<rparr>"

definition CreateLDC :: "faults \<Rightarrow> pb_LDC \<Rightarrow> database \<Rightarrow> api_reply api \<times> database" where
  "CreateLDC f req db = exec_reply ''LDC created successfully'' (sql_CreateLDC f (encode_ldc 0 req) db) db"

text \<open>
  \<open>GetLDCs\<close> fills a map from the keys of the LDCs, appends every equipment to its LDC, and sorts the values of the
  map, which it takes in the unspecified order of a Go map, by name.
\<close>

fun ldc_map :: "db_Ldc list \<Rightarrow> (int, pb_LDC) go_map \<Rightarrow> (int, pb_LDC) go_map" where
  "ldc_map [] m = m"
| "ldc_map (l # ls) m = ldc_map ls (gm_set (lr_ID l) (decode_ldc l) m)"

fun add_equipments :: "db_Equipment list \<Rightarrow> (int, pb_LDC) go_map \<Rightarrow> (int, pb_LDC) go_map" where
  "add_equipments [] m = m"
| "add_equipments (e # es) m =
     (case gm_get m (nval (er_Ldcid e)) of
        None \<Rightarrow> add_equipments es m
      | Some l \<Rightarrow> add_equipments es
          (gm_set (nval (er_Ldcid e)) (l\<lparr>pl_Equipments := pl_Equipments l @ [decode_equipment e]\<rparr>) m))"

definition GetLDCs :: "faults \<Rightarrow> (string \<Rightarrow> nat) \<Rightarrow> (int, pb_LDC) iteration \<Rightarrow> database \<Rightarrow> pb_LDC list api" where
  "GetLDCs f collate ord db =
     (case sql_ListLDCs f collate db of Inl e \<Rightarrow> Inl (database_error e)
      | Inr ldcs \<Rightarrow>
          (case sql_ListEquipments f db of Inl e \<Rightarrow> Inl (database_error e)
           | Inr equipments \<Rightarrow>
               Inr (sort_key pl_Name (map snd (ord (add_equipments equipments (ldc_map ldcs gm_empty)))))))"

definition GetLDC :: "faults \<Rightarrow> int \<Rightarrow> database \<Rightarrow> pb_LDC api" where
  "GetLDC f i db = one_reply ''LDC not found'' decode_ldc (sql_GetLDC f i db)"

definition UpdateLDC :: "faults \<Rightarrow> pb_LDC \<Rightarrow> database \<Rightarrow> api_reply api \<times> database" where
  "UpdateLDC f req db = exec_reply ''LDC updated successfully'' (sql_UpdateLDC f (encode_ldc (pl_Id req) req) db) db"

definition DeleteLDC :: "faults \<Rightarrow> int \<Rightarrow> database \<Rightarrow> api_reply api \<times> database" where
  "DeleteLDC f i db = exec_reply ''LDC deleted successfully'' (sql_DeleteLDC f i db) db"

subsection \<open>Decoder configuration (apiHandlerDecoder.go)\<close>

text \<open>The message \<open>pb.DecoderConfiguration\<close> has the fields of the configuration struct.\<close>

definition encode_decoder :: "DecoderConfiguration \<Rightarrow> db_Decoderparam" where
  "encode_decoder c = \<lparr>dp_ExtTrigger = dec_ExtTrigger c, dp_TrgCode1 = dec_TrgCode1 c, dp_TrgCode2 = dec_TrgCode2 c,
     dp_ReadPmts = valid_value (dec_ReadPMTs c), dp_ReadSipms = valid_value (dec_ReadSiPMs c),
     dp_ReadTrigger = valid_value (dec_ReadTrigger c), dp_ReadFibers = valid_value (dec_ReadFibers c),
     dp_SplitTrigger = valid_value (dec_SplitTrigger c), dp_NoDb = valid_value (dec_NoDB c),
     dp_Discard = valid_value (dec_Discard c), dp_Host = dec_Host c, dp_User = dec_User c,
     dp_Passwd = dec_Passwd c, dp_DbName = dec_DBName c, dp_WriteData = valid_value (dec_WriteData c),
     dp_UseBlosc = valid_value (dec_UseBlosc c), dp_BloscAlgorithm = dec_BloscAlgorithm c,
     dp_CompressionLevel = dec_CompressionLevel c, dp_BitShuffle = dec_BitShuffle c\<rparr>"

definition decode_decoder :: "db_Decoderparam \<Rightarrow> DecoderConfiguration" where
  "decode_decoder d = \<lparr>dec_ExtTrigger = dp_ExtTrigger d, dec_TrgCode1 = dp_TrgCode1 d, dec_TrgCode2 = dp_TrgCode2 d,
     dec_ReadPMTs = nval (dp_ReadPmts d), dec_ReadSiPMs = nval (dp_ReadSipms d),
     dec_ReadTrigger = nval (dp_ReadTrigger d), dec_ReadFibers = nval (dp_ReadFibers d),
     dec_SplitTrigger = nval (dp_SplitTrigger d), dec_NoDB = nval (dp_NoDb d), dec_Discard = nval (dp_Discard d),
     dec_Host = dp_Host d, dec_User = dp_User d, dec_Passwd = dp_Passwd d, dec_DBName = dp_DbName d,
     dec_WriteData = nval (dp_WriteData d), dec_UseBlosc = nval (dp_UseBlosc d),
     dec_BloscAlgorithm = dp_BloscAlgorithm d, dec_CompressionLevel = dp_CompressionLevel d,
     dec_BitShuffle = dp_BitShuffle d\<rparr>"

definition GetDecoderConfiguration :: "faults \<Rightarrow> database \<Rightarrow> DecoderConfiguration api" where
  "GetDecoderConfiguration f db =
     one_reply ''decoder configuration not found'' decode_decoder (sql_GetDecoderParams f db)"

text \<open>The table is truncated, then the row is inserted: two queries.\<close>

definition UpdateDecoderConfiguration :: "faults \<Rightarrow> DecoderConfiguration \<Rightarrow> database \<Rightarrow> api_reply api \<times> database" where
  "UpdateDecoderConfiguration f c db =
     (case sql_TruncateDecoderParams f db of
        Inl e \<Rightarrow> (Inl (ApiError CodeInternal (''database error truncating: '' @ e)), db)
      | Inr db1 \<Rightarrow>
          (case sql_UpdateDecoderParams f (encode_decoder c) db1 of
             Inl e \<Rightarrow> (Inl (ApiError CodeInternal (''database error updating: '' @ e)), db1)
           | Inr db2 \<Rightarrow> (Inr \<lparr>re_Success = True, re_Message = ''Decoder configuration updated successfully''\<rparr>, db2)))"

subsection \<open>Run information (apiHandlerRunInfo.go)\<close>

definition GetRunNumber :: "faults \<Rightarrow> database \<Rightarrow> int api" where
  "GetRunNumber f db =
     (case sql_GetLatestRun f db of Inl e \<Rightarrow> Inl (database_error e) | Inr r \<Rightarrow> Inr r)"

record DisabledWarning =
  dw_Gdcs :: "string list"
  dw_Ldcs :: "string list"
  dw_Equipments :: "string list"
  dw_Writing :: "string list"

fun bind_query :: "'a result \<Rightarrow> ('a \<Rightarrow> 'b api) \<Rightarrow> 'b api" where
  "bind_query (Inl e) k = Inl (database_error e)"
| "bind_query (Inr a) k = k a"

definition CheckDisabled :: "faults \<Rightarrow> database \<Rightarrow> DisabledWarning api" where
  "CheckDisabled f db =
     bind_query (sql_GetDisabledGDCs f db) (\<lambda>disabledGDCs.
     bind_query (sql_GetDisabledLDCs f db) (\<lambda>disabledLDCs.
     bind_query (sql_GetDisabledEquipments f db) (\<lambda>disabledEquipments.
     bind_query (sql_GetGDCsWithoutWrite f db) (\<lambda>gdcsWithoutWrite.
       let warnings = (\<lambda>decoderWriting.
             \<lparr>dw_Gdcs = map (\<lambda>g. nval (gr_Name g)) disabledGDCs,
              dw_Ldcs = map (\<lambda>l. nval (lr_Name l)) disabledLDCs,
              dw_Equipments = map (\<lambda>e. ''Equipment '' @ show_int (er_ID e)) disabledEquipments,
              dw_Writing = map (\<lambda>g. nval (gr_Name g))
                (filter (\<lambda>g. \<not> (nval (gr_Decode g) \<and> decoderWriting)) gdcsWithoutWrite)\<rparr>)
       in case sql_GetDecoderParams f db of
            Inl e \<Rightarrow> if e \<noteq> ErrNoRows then Inl (database_error e) else Inr (warnings False)
          | Inr d \<Rightarrow> Inr (warnings (nval (dp_WriteData d)))))))"

subsection \<open>Test devices (apiHandlerTestDevice.go)\<close>

definition device_hostname :: "int \<Rightarrow> nat \<Rightarrow> string" where
  "device_hostname ldcNumber eqIdx = ''sim-'' @ show_int ldcNumber @ ''-'' @ show_nat eqIdx"

definition device_port :: "int \<Rightarrow> int" where
  "device_port equipmentID = 50070 + equipmentID - 1"

definition device_name :: "int \<Rightarrow> string" where
  "device_name equipmentID = ''device-'' @ show_int equipmentID"

text \<open>
  The inner loop of the three handlers that contact the devices: the equipments of one LDC, numbered from one in the
  order of their keys, disabled ones counted but not contacted. A call is the equipment, the host and the port.
\<close>

fun device_calls :: "int \<Rightarrow> nat \<Rightarrow> db_Equipment list \<Rightarrow> (int \<times> string \<times> int) list" where
  "device_calls ldc eqIdx [] = []"
| "device_calls ldc eqIdx (e # es) =
     (if nval (er_Ldcid e) \<noteq> ldc then device_calls ldc eqIdx es
      else if \<not> nval (er_Enabled e) then device_calls ldc (eqIdx + 1) es
      else (er_ID e, device_hostname ldc eqIdx, device_port (er_ID e)) # device_calls ldc (eqIdx + 1) es)"

definition all_device_calls :: "db_Ldc list \<Rightarrow> db_Equipment list \<Rightarrow> (int \<times> string \<times> int) list" where
  "all_device_calls ldcs equipments =
     concat (map (\<lambda>l. if nval (lr_Enabled l) then device_calls (lr_ID l) 1 equipments else []) ldcs)"

text \<open>\<open>fmt.Sprint\<close> of a slice of strings.\<close>

fun sprint_words :: "string list \<Rightarrow> string" where
  "sprint_words [] = []"
| "sprint_words [w] = w"
| "sprint_words (w # ws) = w @ '' '' @ sprint_words ws"

definition sprint_list :: "string list \<Rightarrow> string" where
  "sprint_list ws = ''['' @ sprint_words ws @ '']''"

fun device_errors :: "string \<Rightarrow> (string \<Rightarrow> int \<Rightarrow> string option) \<Rightarrow> (int \<times> string \<times> int) list \<Rightarrow> string list" where
  "device_errors verb rpc [] = []"
| "device_errors verb rpc ((i, host, port) # cs) =
     (case rpc host port of None \<Rightarrow> device_errors verb rpc cs
      | Some e \<Rightarrow> (''Error '' @ verb @ '' '' @ device_name i @ '': '' @ e) # device_errors verb rpc cs)"

definition StartTestDevices ::
  "faults \<Rightarrow> (string \<Rightarrow> nat) \<Rightarrow> (string \<Rightarrow> int \<Rightarrow> string option) \<Rightarrow> database \<Rightarrow> api_reply api" where
  "StartTestDevices f collate rpc db =
     bind_query (sql_ListLDCs f collate db) (\<lambda>ldcs.
     bind_query (sql_ListEquipments f db) (\<lambda>equipments.
       let errs = device_errors ''starting'' rpc (all_device_calls ldcs equipments)
       in if errs \<noteq> []
          then Inr \<lparr>re_Success = False, re_Message = ''Some devices failed to start: '' @ sprint_list errs\<rparr>
          else Inr \<lparr>re_Success = True, re_Message = ''All test devices started successfully''\<rparr>))"

definition StopTestDevices ::
  "faults \<Rightarrow> (string \<Rightarrow> nat) \<Rightarrow> (string \<Rightarrow> int \<Rightarrow> string option) \<Rightarrow> database \<Rightarrow> api_reply api" where
  "StopTestDevices f collate rpc db =
     bind_query (sql_ListLDCs f collate db) (\<lambda>ldcs.
     bind_query (sql_ListEquipments f db) (\<lambda>equipments.
       let errs = device_errors ''stopping'' rpc (all_device_calls ldcs equipments)
       in if errs \<noteq> []
          then Inr \<lparr>re_Success = False, re_Message = ''Some devices failed to stop: '' @ sprint_list errs\<rparr>
          else Inr \<lparr>re_Success = True, re_Message = ''All test devices stopped successfully''\<rparr>))"

fun device_states :: "(string \<Rightarrow> int \<Rightarrow> string result) \<Rightarrow> (int \<times> string \<times> int) list \<Rightarrow>
    (string, string) go_map \<Rightarrow> (string, string) go_map" where
  "device_states rpc [] m = m"
| "device_states rpc ((i, host, port) # cs) m =
     device_states rpc cs
       (gm_set (device_name i) (case rpc host port of Inl e \<Rightarrow> ''ERROR: '' @ e | Inr st \<Rightarrow> st) m)"

definition GetTestDevicesStates ::
  "faults \<Rightarrow> (string \<Rightarrow> nat) \<Rightarrow> (string \<Rightarrow> int \<Rightarrow> string result) \<Rightarrow> database \<Rightarrow> (string, string) go_map api" where
  "GetTestDevicesStates f collate rpc db =
     bind_query (sql_ListLDCs f collate db) (\<lambda>ldcs.
     bind_query (sql_ListEquipments f db) (\<lambda>equipments.
       Inr (device_states rpc (all_device_calls ldcs equipments) gm_empty)))"

record TestDevice =
  tv_EquipmentId :: int
  tv_DeviceName :: string
  tv_HostIp :: string
  tv_HostPort :: int
  tv_GrpcPort :: int
  tv_PrometheusPort :: int
  tv_RateHz :: rat
  tv_PacketsPerEvent :: int
  tv_PacketSize :: int
  tv_ErrorInjectionRate :: rat
  tv_MaxEvents :: int
  tv_Enabled :: bool

definition test_device :: "faults \<Rightarrow> database \<Rightarrow> Equipment \<Rightarrow> TestDevice" where
  "test_device f db e =
     (let d = \<lparr>tv_EquipmentId = eq_ID e, tv_DeviceName = device_name (eq_ID e), tv_HostIp = eq_DeviceIP e,
            tv_HostPort = eq_HostPort e, tv_GrpcPort = device_port (eq_ID e), tv_PrometheusPort = 12130 + eq_ID e - 1,
            tv_RateHz = 1 / 10, tv_PacketsPerEvent = 85, tv_PacketSize = 500, tv_ErrorInjectionRate = 0,
            tv_MaxEvents = 0, tv_Enabled = eq_Enabled e\<rparr>
      in case sql_GetSimulatorParams f (eq_ID e) db of
           Inl _ \<Rightarrow> d
         | Inr p \<Rightarrow> d\<lparr>tv_RateHz := sp_Replayrate p, tv_PacketSize := sp_Packetsize p, tv_MaxEvents := sp_Maxevents p\<rparr>)"

text \<open>The configurations of the LDCs are built as in the configuration reader, LDC by LDC.\<close>

definition ListTestDevices :: "faults \<Rightarrow> (string \<Rightarrow> nat) \<Rightarrow> database \<Rightarrow> TestDevice list api" where
  "ListTestDevices f collate db =
     bind_query (sql_ListLDCs f collate db) (\<lambda>ldcs.
     bind_query (sql_ListEquipments f db) (\<lambda>equipments.
       Inr (map (test_device f db) (concat (map (\<lambda>l.
         map equipment_of_row (filter (\<lambda>e. nval (er_Ldcid e) = lr_ID l) equipments)) ldcs)))))"

text \<open>\<open>GetTestDeviceStatistics\<close> searches the device and counts its position among the equipments of its LDC.\<close>

fun equipment_index :: "int \<Rightarrow> int \<Rightarrow> nat \<Rightarrow> db_Equipment list \<Rightarrow> nat" where
  "equipment_index ldc device eqIdx [] = eqIdx"
| "equipment_index ldc device eqIdx (e # es) =
     (if nval (er_Ldcid e) = ldc
      then if er_ID e = device then eqIdx else equipment_index ldc device (eqIdx + 1) es
      else equipment_index ldc device eqIdx es)"

definition find_device_hostname :: "db_Ldc list \<Rightarrow> db_Equipment list \<Rightarrow> int \<Rightarrow> string option" where
  "find_device_hostname ldcs equipments device =
     map_option (\<lambda>l. device_hostname (lr_ID l) (equipment_index (lr_ID l) device 1 equipments))
       (find (\<lambda>l. list_ex (\<lambda>e. nval (er_Ldcid e) = lr_ID l \<and> er_ID e = device) equipments) ldcs)"

definition GetTestDeviceStatistics ::
  "faults \<Rightarrow> (string \<Rightarrow> nat) \<Rightarrow> (string \<Rightarrow> int \<Rightarrow> 'stats result) \<Rightarrow> int \<Rightarrow> database \<Rightarrow> 'stats api" where
  "GetTestDeviceStatistics f collate rpc device db =
     bind_query (sql_ListLDCs f collate db) (\<lambda>ldcs.
     bind_query (sql_ListEquipments f db) (\<lambda>equipments.
       case find_device_hostname ldcs equipments device of
         None \<Rightarrow> Inl (ApiError CodeNotFound ''device not found'')
       | Some host \<Rightarrow>
           (case rpc host (device_port device) of
              Inl e \<Rightarrow> Inl (ApiError CodeInternal (''error getting statistics: '' @ e))
            | Inr stats \<Rightarrow> Inr stats)))"

section \<open>Round trips\<close>

text \<open>A table as the finite map from keys to messages that reading it gives.\<close>

context keyed_rows
begin

definition table :: "'row list \<Rightarrow> int \<rightharpoonup> 'msg" where
  "table rows i = (case read i rows of Inl _ \<Rightarrow> None | Inr m \<Rightarrow> Some m)"

lemma table_created: "i \<notin> key ` set rows \<Longrightarrow> table (rows @ [encode i m]) = (table rows)(i \<mapsto> with_id i m)"
  using read_created by (auto simp: table_def fun_eq_iff)

lemma dom_table [simp]: "dom (table rows) = key ` set rows"
proof (intro set_eqI iffI)
  fix i assume "i \<in> dom (table rows)"
  then show "i \<in> key ` set rows" using row_get_absent [of i key rows] by (force simp: table_def read_def)
next
  fix i assume "i \<in> key ` set rows"
  then show "i \<in> dom (table rows)" using row_get_present [of i key rows] by (auto simp: table_def read_def)
qed

lemma table_updated:
  "table (row_update key i (encode i m) rows) =
     (if i \<in> key ` set rows then (table rows)(i \<mapsto> with_id i m) else table rows)"
  using read_updated update_absent by (auto simp: table_def fun_eq_iff)

lemma table_deleted: "table (row_delete key i rows) = (table rows)(i := None)"
  using read_deleted by (auto simp: table_def fun_eq_iff)

lemma ran_table: "distinct (map key rows) \<Longrightarrow> ran (table rows) = decode ` set rows"
proof -
  assume d: "distinct (map key rows)"
  have get: "row_get key (key r) rows = Inr r" if "r \<in> set rows" for r
    using that d by (induction rows) (auto simp: row_get_def image_iff)
  have "table rows (key r) = Some (decode r)" if "r \<in> set rows" for r
    using get [OF that] by (simp add: table_def read_def)
  moreover have "\<exists>r \<in> set rows. m = decode r" if m: "table rows i = Some m" for i m
  proof -
    have "i \<in> key ` set rows" using m dom_table [of rows] by blast
    then obtain r where "r \<in> set rows" "row_get key i rows = Inr r" using row_get_present by metis
    with m show ?thesis by (auto simp: table_def read_def)
  qed
  ultimately show ?thesis unfolding ran_def by blast
qed

end

interpretation gdc_rows: keyed_rows gr_ID encode_gdc decode_gdc "\<lambda>i m. m\<lparr>pg_Id := i\<rparr>"
  by unfold_locales (simp_all add: encode_gdc_def decode_gdc_def null_string_def valid_value_def)

interpretation equipment_rows: keyed_rows er_ID encode_equipment decode_equipment "\<lambda>i m. m\<lparr>pe_Id := i\<rparr>"
  by unfold_locales (simp_all add: encode_equipment_def decode_equipment_def null_string_def valid_value_def)

interpretation ldc_rows: keyed_rows lr_ID encode_ldc decode_ldc "\<lambda>i m. m\<lparr>pl_Id := i, pl_Equipments := []\<rparr>"
  by unfold_locales (simp_all add: encode_ldc_def decode_ldc_def null_string_def valid_value_def)

text \<open>The keys are distinct and below the next key; the foreign keys point to rows.\<close>

definition keys_ok :: "('r \<Rightarrow> int) \<Rightarrow> 'r list \<Rightarrow> int \<Rightarrow> bool" where
  "keys_ok key rows next_key \<longleftrightarrow> distinct (map key rows) \<and> (\<forall>r \<in> set rows. key r < next_key)"

definition database_ok :: "database \<Rightarrow> bool" where
  "database_ok db \<longleftrightarrow> keys_ok gr_ID (db_gdcs db) (db_next_gdc db) \<and> keys_ok lr_ID (db_ldcs db) (db_next_ldc db) \<and>
     keys_ok er_ID (db_equipments db) (db_next_equipment db) \<and>
     (\<forall>e \<in> set (db_equipments db). ldc_key_ok (er_Ldcid e) db) \<and>
     (\<forall>p \<in> set (db_simulatorParams db). sp_Equipmentid p \<in> er_ID ` set (db_equipments db))"

lemma keys_ok_create: "keys_ok key rows n \<Longrightarrow> key r = n \<Longrightarrow> keys_ok key (rows @ [r]) (n + 1)"
  by (auto simp: keys_ok_def)

lemma keys_ok_update: "keys_ok key rows n \<Longrightarrow> key new = i \<Longrightarrow> keys_ok key (row_update key i new rows) n"
proof -
  assume "keys_ok key rows n" "key new = i"
  then have "distinct (map key (row_update key i new rows))" "\<forall>k \<in> key ` set (row_update key i new rows). k < n"
    by (simp_all add: keys_ok_def)
  then show ?thesis by (simp add: keys_ok_def)
qed

lemma keys_ok_delete: "keys_ok key rows n \<Longrightarrow> keys_ok key (row_delete key i rows) n"
  by (simp add: keys_ok_def distinct_delete)

lemma keys_ok_fresh: "keys_ok key rows n \<Longrightarrow> n \<notin> key ` set rows"
  by (force simp: keys_ok_def)

subsection \<open>The invariant of the database\<close>

datatype api_op =
    OpCreateGDC pb_GDC | OpUpdateGDC pb_GDC | OpDeleteGDC int
  | OpCreateLDC pb_LDC | OpUpdateLDC pb_LDC | OpDeleteLDC int
  | OpCreateEquipment pb_Equipment | OpUpdateEquipment pb_Equipment | OpDeleteEquipment int
  | OpUpdateDecoder DecoderConfiguration

fun api_call :: "faults \<Rightarrow> api_op \<Rightarrow> database \<Rightarrow> api_reply api \<times> database" where
  "api_call f (OpCreateGDC m) db = CreateGDC f m db"
| "api_call f (OpUpdateGDC m) db = UpdateGDC f m db"
| "api_call f (OpDeleteGDC i) db = DeleteGDC f i db"
| "api_call f (OpCreateLDC m) db = CreateLDC f m db"
| "api_call f (OpUpdateLDC m) db = UpdateLDC f m db"
| "api_call f (OpDeleteLDC i) db = DeleteLDC f i db"
| "api_call f (OpCreateEquipment m) db = CreateEquipment f m db"
| "api_call f (OpUpdateEquipment m) db = UpdateEquipment f m db"
| "api_call f (OpDeleteEquipment i) db = DeleteEquipment f i db"
| "api_call f (OpUpdateDecoder c) db = UpdateDecoderConfiguration f c db"

text \<open>The answers to a sequence of calls, and the state they leave.\<close>

fun answers :: "('c \<Rightarrow> 's \<Rightarrow> 'r \<times> 's) \<Rightarrow> 'c list \<Rightarrow> 's \<Rightarrow> 'r list \<times> 's" where
  "answers call [] s = ([], s)"
| "answers call (c # cs) s =
     (let (r, s1) = call c s; (rs, s2) = answers call cs s1 in (r # rs, s2))"

lemma key_encode_simps [simp]:
  "gr_ID (encode_gdc i m) = i" "lr_ID (encode_ldc i l) = i" "er_ID (encode_equipment i e) = i"
  "(encode_gdc i m)\<lparr>gr_ID := j\<rparr> = encode_gdc j m" "(encode_ldc i l)\<lparr>lr_ID := j\<rparr> = encode_ldc j l"
  "(encode_equipment i e)\<lparr>er_ID := j\<rparr> = encode_equipment j e"
  "er_Ldcid (encode_equipment i e) = SqlNull (pe_LdcId e) True"
  by (simp_all add: encode_gdc_def encode_ldc_def encode_equipment_def valid_value_def)

lemma exec_reply_cases:
  "exec_reply msg (query f n r) db =
     (case f n of Some e \<Rightarrow> (Inl (database_error e), db) | None \<Rightarrow> exec_reply msg r db)"
  by (simp add: exec_reply_def query_def split: option.split)

lemma database_ok_gdcs:
  "database_ok db \<Longrightarrow> keys_ok gr_ID rows n \<Longrightarrow> database_ok (db\<lparr>db_gdcs := rows, db_next_gdc := n\<rparr>)"
  "database_ok db \<Longrightarrow> keys_ok gr_ID rows (db_next_gdc db) \<Longrightarrow> database_ok (db\<lparr>db_gdcs := rows\<rparr>)"
  by (simp_all add: database_ok_def ldc_key_ok_def)

lemma database_ok_ldcs:
  "database_ok db \<Longrightarrow> keys_ok lr_ID rows n \<Longrightarrow>
     (\<And>e. e \<in> set (db_equipments db) \<Longrightarrow> nvalid (er_Ldcid e) \<Longrightarrow> nval (er_Ldcid e) \<in> lr_ID ` set rows) \<Longrightarrow>
     database_ok (db\<lparr>db_ldcs := rows, db_next_ldc := n\<rparr>)"
  "database_ok db \<Longrightarrow> keys_ok lr_ID rows (db_next_ldc db) \<Longrightarrow>
     (\<And>e. e \<in> set (db_equipments db) \<Longrightarrow> nvalid (er_Ldcid e) \<Longrightarrow> nval (er_Ldcid e) \<in> lr_ID ` set rows) \<Longrightarrow>
     database_ok (db\<lparr>db_ldcs := rows\<rparr>)"
  by (auto simp: database_ok_def ldc_key_ok_def)

lemma step_gdcs:
  "database_ok db \<Longrightarrow> database_ok (snd (CreateGDC f m db))"
  "database_ok db \<Longrightarrow> database_ok (snd (UpdateGDC f m db))"
  "database_ok db \<Longrightarrow> database_ok (snd (DeleteGDC f i db))"
  by (auto simp: CreateGDC_def UpdateGDC_def DeleteGDC_def sql_defs exec_reply_def split: option.splits
      intro!: database_ok_gdcs keys_ok_create keys_ok_update keys_ok_delete)
    (simp_all add: database_ok_def)

lemma step_CreateLDC: "database_ok db \<Longrightarrow> database_ok (snd (CreateLDC f m db))"
  by (auto simp: CreateLDC_def sql_defs exec_reply_def split: option.splits intro!: database_ok_ldcs keys_ok_create)
    (auto simp: database_ok_def ldc_key_ok_def)

lemma step_UpdateLDC: "database_ok db \<Longrightarrow> database_ok (snd (UpdateLDC f m db))"
  by (auto simp: UpdateLDC_def sql_defs exec_reply_def split: option.splits intro!: database_ok_ldcs keys_ok_update)
    (auto simp: database_ok_def ldc_key_ok_def)

lemma step_DeleteLDC:
  assumes "database_ok db"
  shows "database_ok (snd (DeleteLDC f i db))"
proof (cases "f ''DeleteLDC'' = None \<and>
    \<not> (i \<in> lr_ID ` set (db_ldcs db) \<and> list_ex (\<lambda>e. er_Ldcid e = SqlNull i True) (db_equipments db))")
  case True
  have "nval (er_Ldcid e) \<in> lr_ID ` set (row_delete lr_ID i (db_ldcs db))"
    if e: "e \<in> set (db_equipments db)" "nvalid (er_Ldcid e)" for e
  proof -
    have k: "nval (er_Ldcid e) \<in> lr_ID ` set (db_ldcs db)"
      using assms e by (auto simp: database_ok_def ldc_key_ok_def)
    moreover have "nval (er_Ldcid e) \<noteq> i"
    proof
      assume "nval (er_Ldcid e) = i"
      with e(2) have "er_Ldcid e = SqlNull i True" by (cases "er_Ldcid e") simp
      with e(1) k True \<open>nval (er_Ldcid e) = i\<close> show False by (auto simp: list_ex_iff)
    qed
    ultimately show ?thesis by auto
  qed
  moreover have "keys_ok lr_ID (row_delete lr_ID i (db_ldcs db)) (db_next_ldc db)"
    using assms by (simp add: database_ok_def keys_ok_delete)
  ultimately have "database_ok (db\<lparr>db_ldcs := row_delete lr_ID i (db_ldcs db)\<rparr>)"
    using assms by (intro database_ok_ldcs) auto
  with True show ?thesis by (auto simp: DeleteLDC_def sql_defs exec_reply_def)
next
  case False
  then have "snd (DeleteLDC f i db) = db"
    by (cases "f ''DeleteLDC''") (auto simp: DeleteLDC_def sql_defs exec_reply_def)
  with assms show ?thesis by simp
qed

lemma step_CreateEquipment: "database_ok db \<Longrightarrow> database_ok (snd (CreateEquipment f m db))"
  by (auto simp: CreateEquipment_def sql_defs exec_reply_def database_ok_def ldc_key_ok_def keys_ok_create
      split: option.splits)

lemma step_UpdateEquipment:
  assumes "database_ok db"
  shows "database_ok (snd (UpdateEquipment f m db))"
proof (cases "f ''UpdateEquipment''")
  case None
  let ?new = "encode_equipment (pe_Id m) m"
  let ?rows = "row_update er_ID (pe_Id m) ?new (db_equipments db)"
  have ids: "er_ID ` set ?rows = er_ID ` set (db_equipments db)" by simp
  show ?thesis
  proof (cases "pe_Id m \<in> er_ID ` set (db_equipments db)")
    case True
    show ?thesis
    proof (cases "ldc_key_ok (SqlNull (pe_LdcId m) True) db")
      case ok: True
      have "\<forall>e \<in> set ?rows. ldc_key_ok (er_Ldcid e) db"
        using assms ok set_update [of er_ID "pe_Id m" ?new "db_equipments db"] by (auto simp: database_ok_def)
      then have "database_ok (db\<lparr>db_equipments := ?rows\<rparr>)"
        using assms ids by (auto simp: database_ok_def ldc_key_ok_def keys_ok_update)
      with None ok show ?thesis by (simp add: UpdateEquipment_def sql_defs exec_reply_def)
    next
      case False
      with None True assms show ?thesis by (simp add: UpdateEquipment_def sql_defs exec_reply_def)
    qed
  next
    case False
    then have "?rows = db_equipments db" by (rule equipment_rows.update_absent)
    with None assms False show ?thesis by (simp add: UpdateEquipment_def sql_defs exec_reply_def)
  qed
qed (use assms in \<open>simp add: UpdateEquipment_def sql_defs exec_reply_def\<close>)

lemma image_other_keys: "k \<in> key ` {r \<in> A. key r \<noteq> i} \<longleftrightarrow> k \<in> key ` A \<and> k \<noteq> i"
  by auto

lemma step_DeleteEquipment: "database_ok db \<Longrightarrow> database_ok (snd (DeleteEquipment f i db))"
  by (auto simp: DeleteEquipment_def sql_defs exec_reply_def database_ok_def ldc_key_ok_def keys_ok_delete
      image_other_keys split: option.splits)

lemma step_UpdateDecoder: "database_ok db \<Longrightarrow> database_ok (snd (UpdateDecoderConfiguration f c db))"
  by (auto simp: UpdateDecoderConfiguration_def sql_defs database_ok_def ldc_key_ok_def split: option.splits)

lemma api_call_ok: "database_ok db \<Longrightarrow> database_ok (snd (api_call f op db))"
  by (cases op) (simp_all add: step_gdcs step_CreateLDC step_UpdateLDC step_DeleteLDC step_CreateEquipment
      step_UpdateEquipment step_DeleteEquipment step_UpdateDecoder)

subsection \<open>The store of configurations\<close>

text \<open>
  What the handlers promise, as operations on maps from identifiers to messages. The identifiers are given out in
  order; \<open>cs_simulated\<close> are the equipments with parameters of a simulator.
\<close>

record config_store =
  cs_gdcs :: "int \<rightharpoonup> pb_GDC"
  cs_next_gdc :: int
  cs_ldcs :: "int \<rightharpoonup> pb_LDC"
  cs_next_ldc :: int
  cs_equipments :: "int \<rightharpoonup> pb_Equipment"
  cs_next_equipment :: int
  cs_simulated :: "int set"
  cs_decoder :: "DecoderConfiguration option"

text \<open>A change by one query: it fails, or is refused, and then changes nothing, or is done and confirmed.\<close>

definition change :: "faults \<Rightarrow> string \<Rightarrow> string \<Rightarrow> bool \<Rightarrow> config_store \<Rightarrow> config_store \<Rightarrow> api_reply api \<times> config_store" where
  "change f name msg allowed new old =
     (case f name of
        Some e \<Rightarrow> (Inl (database_error e), old)
      | None \<Rightarrow> if allowed then (Inr \<lparr>re_Success = True, re_Message = msg\<rparr>, new)
                else (Inl (database_error ForeignKey), old))"

fun store_call :: "faults \<Rightarrow> api_op \<Rightarrow> config_store \<Rightarrow> api_reply api \<times> config_store" where
  "store_call f (OpCreateGDC m) s = change f ''CreateGDC'' ''GDC created successfully'' True
     (s\<lparr>cs_gdcs := (cs_gdcs s)(cs_next_gdc s \<mapsto> m\<lparr>pg_Id := cs_next_gdc s\<rparr>), cs_next_gdc := cs_next_gdc s + 1\<rparr>) s"
| "store_call f (OpUpdateGDC m) s = change f ''UpdateGDC'' ''GDC updated successfully'' True
     (if pg_Id m \<in> dom (cs_gdcs s) then s\<lparr>cs_gdcs := (cs_gdcs s)(pg_Id m \<mapsto> m)\<rparr> else s) s"
| "store_call f (OpDeleteGDC i) s = change f ''DeleteGDC'' ''GDC deleted successfully'' True
     (s\<lparr>cs_gdcs := (cs_gdcs s)(i := None)\<rparr>) s"
| "store_call f (OpCreateLDC m) s = change f ''CreateLDC'' ''LDC created successfully'' True
     (s\<lparr>cs_ldcs := (cs_ldcs s)(cs_next_ldc s \<mapsto> m\<lparr>pl_Id := cs_next_ldc s, pl_Equipments := []\<rparr>),
        cs_next_ldc := cs_next_ldc s + 1\<rparr>) s"
| "store_call f (OpUpdateLDC m) s = change f ''UpdateLDC'' ''LDC updated successfully'' True
     (if pl_Id m \<in> dom (cs_ldcs s) then s\<lparr>cs_ldcs := (cs_ldcs s)(pl_Id m \<mapsto> m\<lparr>pl_Equipments := []\<rparr>)\<rparr> else s) s"
| "store_call f (OpDeleteLDC i) s = change f ''DeleteLDC'' ''LDC deleted successfully''
     (\<not> (i \<in> dom (cs_ldcs s) \<and> i \<in> pe_LdcId ` ran (cs_equipments s)))
     (s\<lparr>cs_ldcs := (cs_ldcs s)(i := None)\<rparr>) s"
| "store_call f (OpCreateEquipment m) s = change f ''CreateEquipment'' ''Equipment created successfully''
     (pe_LdcId m \<in> dom (cs_ldcs s))
     (s\<lparr>cs_equipments := (cs_equipments s)(cs_next_equipment s \<mapsto> m\<lparr>pe_Id := cs_next_equipment s\<rparr>),
        cs_next_equipment := cs_next_equipment s + 1\<rparr>) s"
| "store_call f (OpUpdateEquipment m) s = change f ''UpdateEquipment'' ''Equipment updated successfully''
     (pe_Id m \<in> dom (cs_equipments s) \<longrightarrow> pe_LdcId m \<in> dom (cs_ldcs s))
     (if pe_Id m \<in> dom (cs_equipments s) then s\<lparr>cs_equipments := (cs_equipments s)(pe_Id m \<mapsto> m)\<rparr> else s) s"
| "store_call f (OpDeleteEquipment i) s = change f ''DeleteEquipment'' ''Equipment deleted successfully''
     (\<not> (i \<in> dom (cs_equipments s) \<and> i \<in> cs_simulated s))
     (s\<lparr>cs_equipments := (cs_equipments s)(i := None)\<rparr>) s"
| "store_call f (OpUpdateDecoder c) s =
     (case (f ''TruncateDecoderParams'', f ''UpdateDecoderParams'') of
        (Some e, _) \<Rightarrow> (Inl (ApiError CodeInternal (''database error truncating: '' @ e)), s)
      | (None, Some e) \<Rightarrow> (Inl (ApiError CodeInternal (''database error updating: '' @ e)), s\<lparr>cs_decoder := None\<rparr>)
      | (None, None) \<Rightarrow> (Inr \<lparr>re_Success = True, re_Message = ''Decoder configuration updated successfully''\<rparr>,
           s\<lparr>cs_decoder := Some c\<rparr>))"

text \<open>The store that the reading handlers show of a database.\<close>

definition answered :: "'a api \<Rightarrow> 'a option" where
  "answered r = (case r of Inl _ \<Rightarrow> None | Inr a \<Rightarrow> Some a)"

definition store_of :: "database \<Rightarrow> config_store" where
  "store_of db = \<lparr>cs_gdcs = (\<lambda>i. answered (GetGDC no_faults i db)), cs_next_gdc = db_next_gdc db,
     cs_ldcs = (\<lambda>i. answered (GetLDC no_faults i db)), cs_next_ldc = db_next_ldc db,
     cs_equipments = (\<lambda>i. answered (GetEquipment no_faults i db)), cs_next_equipment = db_next_equipment db,
     cs_simulated = sp_Equipmentid ` set (db_simulatorParams db),
     cs_decoder = answered (GetDecoderConfiguration no_faults db)\<rparr>"

text \<open>The database is consistent and every equipment has an LDC.\<close>

definition store_ok :: "database \<Rightarrow> bool" where
  "store_ok db \<longleftrightarrow> database_ok db \<and> list_all (\<lambda>e. nvalid (er_Ldcid e)) (db_equipments db)"

lemma answered_one_reply: "answered (one_reply msg dec r) = (case map_sum id dec r of Inl _ \<Rightarrow> None | Inr m \<Rightarrow> Some m)"
  by (cases r) (simp_all add: answered_def one_reply_def)

lemma store_of_tables:
  "store_of db = \<lparr>cs_gdcs = gdc_rows.table (db_gdcs db), cs_next_gdc = db_next_gdc db,
     cs_ldcs = ldc_rows.table (db_ldcs db), cs_next_ldc = db_next_ldc db,
     cs_equipments = equipment_rows.table (db_equipments db), cs_next_equipment = db_next_equipment db,
     cs_simulated = sp_Equipmentid ` set (db_simulatorParams db),
     cs_decoder = (case db_decoderParams db of [] \<Rightarrow> None | d # _ \<Rightarrow> Some (decode_decoder d))\<rparr>"
  by (simp add: store_of_def fun_eq_iff GetGDC_def GetLDC_def GetEquipment_def GetDecoderConfiguration_def answered_one_reply
      gdc_rows.table_def gdc_rows.read_def ldc_rows.table_def ldc_rows.read_def equipment_rows.table_def
      equipment_rows.read_def sql_defs no_faults_def first_row_def split: list.split)

lemma with_id_own [simp]: "m\<lparr>pg_Id := pg_Id m\<rparr> = m" "e\<lparr>pe_Id := pe_Id e\<rparr> = e" "l\<lparr>pl_Id := pl_Id l\<rparr> = l"
  by simp_all

lemma decoder_decode_encode: "decode_decoder (encode_decoder c) = c"
  by (simp add: decode_decoder_def encode_decoder_def valid_value_def)

lemma equipment_of_ldc:
  assumes "store_ok db"
  shows "list_ex (\<lambda>e. er_Ldcid e = SqlNull i True) (db_equipments db) \<longleftrightarrow>
    i \<in> pe_LdcId ` ran (equipment_rows.table (db_equipments db))"
proof -
  have "er_Ldcid e = SqlNull i True \<longleftrightarrow> pe_LdcId (decode_equipment e) = i" if "e \<in> set (db_equipments db)" for e
    using that assms by (cases "er_Ldcid e") (auto simp: store_ok_def list_all_iff decode_equipment_def)
  with assms show ?thesis
    by (auto simp: list_ex_iff equipment_rows.ran_table store_ok_def database_ok_def keys_ok_def)
qed

lemma store_ok_step: "store_ok db \<Longrightarrow> store_ok (snd (api_call f op db))"
  using api_call_ok [of db f op]
  by (cases op) (auto simp: store_ok_def CreateGDC_def UpdateGDC_def DeleteGDC_def CreateLDC_def UpdateLDC_def DeleteLDC_def
      CreateEquipment_def UpdateEquipment_def DeleteEquipment_def UpdateDecoderConfiguration_def sql_defs exec_reply_def
      list_all_iff row_update_def split: option.splits)

lemma fresh_keys:
  assumes "store_ok db"
  shows "db_next_gdc db \<notin> gr_ID ` set (db_gdcs db)" "db_next_ldc db \<notin> lr_ID ` set (db_ldcs db)"
    "db_next_equipment db \<notin> er_ID ` set (db_equipments db)"
  using assms by (simp_all add: store_ok_def database_ok_def keys_ok_fresh)

lemma store_gdcs:
  assumes "store_ok db"
  shows "store_call f (OpCreateGDC m) (store_of db) = map_prod id store_of (CreateGDC f m db)"
    "store_call f (OpUpdateGDC m) (store_of db) = map_prod id store_of (UpdateGDC f m db)"
    "store_call f (OpDeleteGDC i) (store_of db) = map_prod id store_of (DeleteGDC f i db)"
  using fresh_keys [OF assms]
  by (simp_all add: CreateGDC_def UpdateGDC_def DeleteGDC_def sql_defs exec_reply_def change_def store_of_tables
      gdc_rows.table_created gdc_rows.table_updated gdc_rows.table_deleted split: option.split)

lemma store_ldcs:
  assumes "store_ok db"
  shows "store_call f (OpCreateLDC l) (store_of db) = map_prod id store_of (CreateLDC f l db)"
    "store_call f (OpUpdateLDC l) (store_of db) = map_prod id store_of (UpdateLDC f l db)"
    "store_call f (OpDeleteLDC i) (store_of db) = map_prod id store_of (DeleteLDC f i db)"
  using fresh_keys [OF assms] equipment_of_ldc [OF assms]
  by (simp_all add: CreateLDC_def UpdateLDC_def DeleteLDC_def sql_defs exec_reply_def change_def store_of_tables
      ldc_rows.table_created ldc_rows.table_updated ldc_rows.table_deleted split: option.split)

lemma store_equipments:
  assumes "store_ok db"
  shows "store_call f (OpCreateEquipment e) (store_of db) = map_prod id store_of (CreateEquipment f e db)"
    "store_call f (OpUpdateEquipment e) (store_of db) = map_prod id store_of (UpdateEquipment f e db)"
    "store_call f (OpDeleteEquipment i) (store_of db) = map_prod id store_of (DeleteEquipment f i db)"
  using fresh_keys [OF assms]
  by (simp_all add: CreateEquipment_def UpdateEquipment_def DeleteEquipment_def sql_defs exec_reply_def change_def
      store_of_tables equipment_rows.table_created equipment_rows.table_updated equipment_rows.table_deleted ldc_key_ok_def
      split: option.split)

lemma store_decoder: "store_call f (OpUpdateDecoder c) (store_of db) = map_prod id store_of (UpdateDecoderConfiguration f c db)"
  by (simp add: UpdateDecoderConfiguration_def sql_defs store_of_tables decoder_decode_encode split: option.split)

lemma api_call_refines: "store_ok db \<Longrightarrow> store_call f op (store_of db) = map_prod id store_of (api_call f op db)"
  by (cases op) (simp_all only: api_call.simps store_gdcs store_ldcs store_equipments store_decoder)


definition example_ldc_row :: "int \<Rightarrow> string \<Rightarrow> db_Ldc" where
  "example_ldc_row i n = encode_ldc i \<lparr>pl_Id = i, pl_Name = n, pl_Hostname = ''h'', pl_Ip = ''10.0.0.1'',
     pl_Enabled = True, pl_GrpcPort = 50051, pl_PrometheusPort = 2112, pl_Equipments = []\<rparr>"

definition example_equipment_msg :: "int \<Rightarrow> int \<Rightarrow> pb_Equipment" where
  "example_equipment_msg i l = \<lparr>pe_Id = i, pe_Type = 1, pe_DeviceIp = ''10.1.0.1'', pe_HostIp = ''10.0.0.1'',
     pe_HostPort = 6006, pe_LdcId = l, pe_Enabled = True\<rparr>"

definition example_gdc_msg :: pb_GDC where
  "example_gdc_msg = \<lparr>pg_Id = 0, pg_Name = ''gdc1'', pg_Hostname = [], pg_Ip = ''10.0.0.9'', pg_Port = 7000,
     pg_Datapath = ''/data'', pg_Enabled = True, pg_WriteOutput = True, pg_Decode = False, pg_GrpcPort = 50051,
     pg_PrometheusPort = 2112\<rparr>"

text \<open>Two LDCs, the first with equipments 2 and 5, the second with equipment 3.\<close>

definition example_database :: database where
  "example_database = \<lparr>db_gdcs = [], db_next_gdc = 1,
     db_ldcs = [example_ldc_row 1 ''ldc1'', example_ldc_row 2 ''ldc2''], db_next_ldc = 3,
     db_equipments = map (\<lambda>(i, l). encode_equipment i (example_equipment_msg i l)) [(2, 1), (3, 2), (5, 1)],
     db_next_equipment = 6, db_runs = [], db_next_run = 1, db_events = [], db_data = [], db_errors = [],
     db_duckParams = [], db_decoderParams = [], db_testDeviceParams = [], db_simulatorParams = [],
     db_topiParams = None, db_rates = []\<rparr>"

lemma example_database_ok: "database_ok example_database"
  by (simp add: database_ok_def keys_ok_def example_database_def example_ldc_row_def example_equipment_msg_def ldc_key_ok_def)

definition example_calls :: "(faults \<times> api_op) list" where
  "example_calls = [(no_faults, OpDeleteLDC 1), (no_faults, OpCreateEquipment (example_equipment_msg 0 7)),
     (no_faults, OpDeleteEquipment 3), (no_faults, OpDeleteLDC 2),
     (no_faults(''CreateGDC'' \<mapsto> ''lost connection''), OpCreateGDC example_gdc_msg), (no_faults, OpCreateGDC example_gdc_msg)]"


lemma one_reply_map:
  "one_reply msg dec r = (case map_sum id dec r of
     Inl e \<Rightarrow> Inl (if e = ErrNoRows then ApiError CodeNotFound msg else database_error e) | Inr a \<Rightarrow> Inr a)"
  by (cases r) (simp_all add: one_reply_def)

lemma GetGDC_read:
  "GetGDC no_faults i db = (case gdc_rows.read i (db_gdcs db) of
     Inl e \<Rightarrow> Inl (if e = ErrNoRows then ApiError CodeNotFound ''GDC not found'' else database_error e) | Inr a \<Rightarrow> Inr a)"
  by (simp add: GetGDC_def one_reply_map gdc_rows.read_def sql_defs no_faults_def)

lemma gdc_tables:
  "db_gdcs (snd (CreateGDC no_faults m db)) = db_gdcs db @ [encode_gdc (db_next_gdc db) m]"
  "db_gdcs (snd (UpdateGDC no_faults m db)) = row_update gr_ID (pg_Id m) (encode_gdc (pg_Id m) m) (db_gdcs db)"
  "db_gdcs (snd (DeleteGDC no_faults i db)) = row_delete gr_ID i (db_gdcs db)"
  by (simp_all add: CreateGDC_def UpdateGDC_def DeleteGDC_def sql_defs exec_reply_def no_faults_def)

text \<open>
  C27. What is written is read back: after a GDC is created it is found under the next key with the fields of the
  request (an empty text is stored as NULL and read as empty), after an update under its key, and after it is deleted
  it is not found; the other GDCs are not touched. An equipment is created only for an existing LDC, and is then
  read back in the same way.
\<close>

theorem configuration_round_trips:
  assumes "database_ok db"
  shows "GetGDC no_faults (db_next_gdc db) (snd (CreateGDC no_faults m db)) = Inr (m\<lparr>pg_Id := db_next_gdc db\<rparr>) \<and>
    (\<forall>i. i \<noteq> db_next_gdc db \<longrightarrow> GetGDC no_faults i (snd (CreateGDC no_faults m db)) = GetGDC no_faults i db) \<and>
    (pg_Id m \<in> gr_ID ` set (db_gdcs db) \<longrightarrow> GetGDC no_faults (pg_Id m) (snd (UpdateGDC no_faults m db)) = Inr m) \<and>
    (\<forall>i. i \<noteq> pg_Id m \<longrightarrow> GetGDC no_faults i (snd (UpdateGDC no_faults m db)) = GetGDC no_faults i db) \<and>
    GetGDC no_faults j (snd (DeleteGDC no_faults j db)) = Inl (ApiError CodeNotFound ''GDC not found'') \<and>
    (\<forall>i. i \<noteq> j \<longrightarrow> GetGDC no_faults i (snd (DeleteGDC no_faults j db)) = GetGDC no_faults i db) \<and>
    (if pe_LdcId e \<in> lr_ID ` set (db_ldcs db)
     then GetEquipment no_faults (db_next_equipment db) (snd (CreateEquipment no_faults e db)) =
            Inr (e\<lparr>pe_Id := db_next_equipment db\<rparr>)
     else CreateEquipment no_faults e db = (Inl (database_error ForeignKey), db))"
proof (intro conjI allI impI)
  have fresh: "db_next_gdc db \<notin> gr_ID ` set (db_gdcs db)" "db_next_equipment db \<notin> er_ID ` set (db_equipments db)"
    using assms by (simp_all add: database_ok_def keys_ok_fresh)
  note created = gdc_rows.read_created [OF fresh(1)]
  show "GetGDC no_faults (db_next_gdc db) (snd (CreateGDC no_faults m db)) = Inr (m\<lparr>pg_Id := db_next_gdc db\<rparr>)"
    unfolding GetGDC_read gdc_tables using created by simp
  show "GetGDC no_faults i (snd (CreateGDC no_faults m db)) = GetGDC no_faults i db" if "i \<noteq> db_next_gdc db" for i
    unfolding GetGDC_read gdc_tables using created that by simp
  show "GetGDC no_faults (pg_Id m) (snd (UpdateGDC no_faults m db)) = Inr m" if "pg_Id m \<in> gr_ID ` set (db_gdcs db)"
    unfolding GetGDC_read gdc_tables using gdc_rows.read_updated [OF that] by simp
  show "GetGDC no_faults i (snd (UpdateGDC no_faults m db)) = GetGDC no_faults i db" if "i \<noteq> pg_Id m" for i
    unfolding GetGDC_read gdc_tables
    using gdc_rows.read_updated gdc_rows.update_absent that by (cases "pg_Id m \<in> gr_ID ` set (db_gdcs db)") simp_all
  show "GetGDC no_faults j (snd (DeleteGDC no_faults j db)) = Inl (ApiError CodeNotFound ''GDC not found'')"
    unfolding GetGDC_read gdc_tables using gdc_rows.read_deleted by simp
  show "GetGDC no_faults i (snd (DeleteGDC no_faults j db)) = GetGDC no_faults i db" if "i \<noteq> j" for i
    unfolding GetGDC_read gdc_tables using gdc_rows.read_deleted that by simp
  show "if pe_LdcId e \<in> lr_ID ` set (db_ldcs db)
     then GetEquipment no_faults (db_next_equipment db) (snd (CreateEquipment no_faults e db)) =
            Inr (e\<lparr>pe_Id := db_next_equipment db\<rparr>)
     else CreateEquipment no_faults e db = (Inl (database_error ForeignKey), db)"
    using equipment_rows.read_created [OF fresh(2)]
    by (simp add: GetEquipment_def CreateEquipment_def one_reply_map equipment_rows.read_def sql_defs no_faults_def
        exec_reply_def ldc_key_ok_def)
qed

theorem configuration_round_trips_witness:
  "GetGDC no_faults 1 (snd (CreateGDC no_faults example_gdc_msg example_database)) = Inr (example_gdc_msg\<lparr>pg_Id := 1\<rparr>)"
  using configuration_round_trips [OF example_database_ok, of example_gdc_msg] by (simp add: example_database_def)

text \<open>
  The decoder configuration that is written is the one that is read, and replaces every other one; but the update is two
  queries: when the insertion fails after the table was truncated, the handler reports the error and the configuration
  is gone.
\<close>

theorem decoder_configuration_update:
  "GetDecoderConfiguration no_faults (snd (UpdateDecoderConfiguration no_faults c db)) = Inr c \<and>
   fst (UpdateDecoderConfiguration (no_faults(''UpdateDecoderParams'' \<mapsto> e)) c db) =
     Inl (ApiError CodeInternal (''database error updating: '' @ e)) \<and>
   GetDecoderConfiguration no_faults (snd (UpdateDecoderConfiguration (no_faults(''UpdateDecoderParams'' \<mapsto> e)) c db)) =
     Inl (ApiError CodeNotFound ''decoder configuration not found'')"
  by (simp add: GetDecoderConfiguration_def UpdateDecoderConfiguration_def sql_defs no_faults_def one_reply_def
      first_row_def decode_decoder_def encode_decoder_def valid_value_def)

section \<open>The list of LDCs\<close>

lemma gm_get_set: "gm_get (gm_set k v m) = (gm_get m)(k := Some v)"
  by (simp add: gm_get_def gm_set_def update_conv' fun_eq_iff)

lemma gm_get_ldc_map:
  "distinct (map lr_ID ls) \<Longrightarrow>
   gm_get (ldc_map ls m) k = (case find (\<lambda>l. lr_ID l = k) ls of None \<Rightarrow> gm_get m k | Some l \<Rightarrow> Some (decode_ldc l))"
proof (induction ls arbitrary: m)
  case (Cons l ls)
  have "find (\<lambda>x. lr_ID x = lr_ID l) ls = None" using Cons.prems by (auto simp: find_None_iff image_iff)
  with Cons show ?case by (auto simp: gm_get_set split: option.split)
qed simp

lemma gm_invar_ldc_map: "gm_invar m \<Longrightarrow> gm_invar (ldc_map ls m)"
  by (induction ls arbitrary: m) (simp_all add: gm.invar_set)

definition with_equipments :: "db_Equipment list \<Rightarrow> int \<Rightarrow> pb_LDC \<Rightarrow> pb_LDC" where
  "with_equipments es k l =
     l\<lparr>pl_Equipments := pl_Equipments l @ map decode_equipment (filter (\<lambda>e. nval (er_Ldcid e) = k) es)\<rparr>"

lemma gm_get_add_equipments: "gm_get (add_equipments es m) k = map_option (with_equipments es k) (gm_get m k)"
proof (induction es m arbitrary: k rule: add_equipments.induct)
  case (2 e es m)
  show ?case
    using 2 by (cases "gm_get m (nval (er_Ldcid e))")
      (auto simp: gm_get_set with_equipments_def map_option_case split: option.splits)
next
  case (1 m)
  show ?case by (cases "gm_get m k") (simp_all add: with_equipments_def)
qed

lemma gm_invar_add_equipments: "gm_invar m \<Longrightarrow> gm_invar (add_equipments es m)"
  by (induction es m rule: add_equipments.induct) (auto simp: gm.invar_set split: option.splits)

lemma find_key: "distinct (map key rows) \<Longrightarrow> find (\<lambda>r. key r = k) rows = Some r \<longleftrightarrow> r \<in> set rows \<and> key r = k"
  by (induction rows) (auto simp: image_iff)

lemma map_snd_keyed: "(\<And>k v. (k, v) \<in> set xs \<Longrightarrow> key v = k) \<Longrightarrow> map key (map snd xs) = map fst xs"
  by (induction xs) auto

text \<open>
  C40. The list of LDCs is complete and sorted by name, whatever the order in which the map is iterated: every LDC of the
  database appears once, with exactly its equipments, in the order of their keys.
\<close>

theorem GetLDCs_complete:
  assumes "database_ok db" and "iteration_order ord"
  shows "\<exists>ls. GetLDCs no_faults collate ord db = Inr ls \<and> sorted (map pl_Name ls) \<and> distinct (map pl_Id ls) \<and>
    pl_Id ` set ls = lr_ID ` set (db_ldcs db) \<and>
    (\<forall>l \<in> set ls. \<exists>r \<in> set (db_ldcs db). l = (decode_ldc r)\<lparr>pl_Equipments :=
       map decode_equipment (filter (\<lambda>e. nval (er_Ldcid e) = lr_ID r) (sort_key er_ID (db_equipments db)))\<rparr>)"
proof -
  let ?rows = "sort_key (\<lambda>r. name_rank collate (lr_Name r)) (db_ldcs db)"
  let ?es = "sort_key er_ID (db_equipments db)"
  let ?m = "add_equipments ?es (ldc_map ?rows gm_empty)"
  let ?ls = "sort_key pl_Name (map snd (ord ?m))"
  have d: "distinct (map lr_ID ?rows)"
    using assms(1) by (simp add: database_ok_def keys_ok_def distinct_map)
  have inv: "gm_invar ?m" by (intro gm_invar_add_equipments gm_invar_ldc_map gm.invar_empty)
  have entry: "(k, l) \<in> set (ord ?m) \<longleftrightarrow> (\<exists>r \<in> set (db_ldcs db). lr_ID r = k \<and> l = with_equipments ?es k (decode_ldc r))"
    for k l
  proof -
    have "(k, l) \<in> set (ord ?m) \<longleftrightarrow> map_of (ord ?m) k = Some l"
      using iteration_distinct [OF assms(2) inv] by (simp add: map_of_eq_Some_iff)
    also have "\<dots> \<longleftrightarrow> gm_get ?m k = Some l" by (simp add: iteration_get [OF assms(2) inv])
    also have "\<dots> \<longleftrightarrow> (\<exists>r. find (\<lambda>r. lr_ID r = k) ?rows = Some r \<and> l = with_equipments ?es k (decode_ldc r))"
      by (auto simp: gm_get_add_equipments gm_get_ldc_map [OF d] gm.get_empty split: option.split)
    also have "\<dots> \<longleftrightarrow> (\<exists>r \<in> set (db_ldcs db). lr_ID r = k \<and> l = with_equipments ?es k (decode_ldc r))"
      by (auto simp: find_key [OF d])
    finally show ?thesis .
  qed
  have id: "pl_Id l = k" if "(k, l) \<in> set (ord ?m)" for k l
    using that by (auto simp: entry with_equipments_def decode_ldc_def)
  have "distinct (map pl_Id (map snd (ord ?m)))"
    using iteration_distinct [OF assms(2) inv] id by (simp add: map_snd_keyed del: map_map)
  moreover have "mset (map pl_Id ?ls) = mset (map pl_Id (map snd (ord ?m)))" by (simp add: mset_map del: map_map)
  ultimately have "distinct (map pl_Id ?ls)" using mset_eq_imp_distinct_iff by blast
  moreover have elems: "l \<in> set ?ls \<longleftrightarrow> (\<exists>r \<in> set (db_ldcs db). l = with_equipments ?es (lr_ID r) (decode_ldc r))" for l
    using entry by (force simp: image_iff)
  moreover have "pl_Id ` set ?ls = lr_ID ` set (db_ldcs db)"
  proof (intro set_eqI)
    fix k
    show "k \<in> pl_Id ` set ?ls \<longleftrightarrow> k \<in> lr_ID ` set (db_ldcs db)"
      unfolding image_iff Bex_def elems by (auto simp: with_equipments_def decode_ldc_def)
  qed
  moreover have "GetLDCs no_faults collate ord db = Inr ?ls"
    by (simp add: GetLDCs_def sql_defs no_faults_def)
  moreover have "sorted (map pl_Name ?ls)" by simp
  ultimately show ?thesis
    by (intro exI [of _ ?ls]) (auto simp: with_equipments_def decode_ldc_def simp del: set_sort)
qed

theorem GetLDCs_complete_witness:
  "\<exists>ls. GetLDCs no_faults length rev example_database = Inr ls \<and> pl_Id ` set ls = {1, 2} \<and> sorted (map pl_Name ls)"
  using GetLDCs_complete [OF example_database_ok iteration_order_rev, of length]
  by (auto simp: example_database_def example_ldc_row_def)

section \<open>The devices\<close>

lemma equipment_index_device_calls:
  "distinct (map er_ID es) \<Longrightarrow> (i, host, port) \<in> set (device_calls ldc k es) \<Longrightarrow>
   host = device_hostname ldc (equipment_index ldc i k es) \<and> port = device_port i \<and>
   (\<exists>e \<in> set es. er_ID e = i \<and> nval (er_Ldcid e) = ldc \<and> nval (er_Enabled e))"
proof (induction es arbitrary: k)
  case (Cons e es)
  have IH: "\<And>k. (i, host, port) \<in> set (device_calls ldc k es) \<Longrightarrow>
      host = device_hostname ldc (equipment_index ldc i k es) \<and> port = device_port i \<and>
      (\<exists>e \<in> set es. er_ID e = i \<and> nval (er_Ldcid e) = ldc \<and> nval (er_Enabled e))"
    using Cons.IH Cons.prems(1) by simp
  have "er_ID e \<noteq> i" if "\<exists>e \<in> set es. er_ID e = i \<and> nval (er_Ldcid e) = ldc \<and> nval (er_Enabled e)"
    using that Cons.prems(1) by auto
  with Cons.prems IH show ?case by (auto split: if_splits)
qed simp

text \<open>
  The statistics of a device are asked from the host and port that started it: every call of \<open>StartTestDevices\<close>
  goes to an enabled equipment of an enabled LDC, to the host and the port that \<open>GetTestDeviceStatistics\<close> derives for that
  equipment in its own way.
\<close>

theorem statistics_from_started_device:
  assumes "database_ok db"
    and "rows = sort_key (\<lambda>r. name_rank collate (lr_Name r)) (db_ldcs db)" and "es = sort_key er_ID (db_equipments db)"
    and "(i, host, port) \<in> set (all_device_calls rows es)"
  shows "GetTestDeviceStatistics no_faults collate rpc i db =
    (case rpc host port of Inl e \<Rightarrow> Inl (ApiError CodeInternal (''error getting statistics: '' @ e)) | Inr st \<Rightarrow> Inr st)"
proof -
  have d: "distinct (map er_ID es)" "distinct (map lr_ID rows)"
    using assms(1-3) by (simp_all add: database_ok_def keys_ok_def distinct_map)
  from assms(4) obtain l where l: "l \<in> set rows" "(i, host, port) \<in> set (device_calls (lr_ID l) 1 es)"
    by (auto simp: all_device_calls_def split: if_splits)
  note call = equipment_index_device_calls [OF d(1) l(2)]
  then obtain e where e: "e \<in> set es" "er_ID e = i" "nval (er_Ldcid e) = lr_ID l" by auto
  have "list_ex (\<lambda>e. nval (er_Ldcid e) = lr_ID r \<and> er_ID e = i) es \<longleftrightarrow> lr_ID r = lr_ID l" for r :: db_Ldc
  proof
    assume "list_ex (\<lambda>e. nval (er_Ldcid e) = lr_ID r \<and> er_ID e = i) es"
    then obtain e' where e': "e' \<in> set es" "nval (er_Ldcid e') = lr_ID r" "er_ID e' = i" by (auto simp: list_ex_iff)
    with e d(1) have "e' = e" by (auto simp: distinct_map inj_on_def)
    with e e' show "lr_ID r = lr_ID l" by simp
  qed (use e in \<open>auto simp: list_ex_iff\<close>)
  then have "(\<lambda>r :: db_Ldc. list_ex (\<lambda>e. nval (er_Ldcid e) = lr_ID r \<and> er_ID e = i) es) = (\<lambda>r. lr_ID r = lr_ID l)"
    by (simp add: fun_eq_iff)
  then have "find_device_hostname rows es i =
      map_option (\<lambda>r. device_hostname (lr_ID r) (equipment_index (lr_ID r) i 1 es)) (find (\<lambda>r. lr_ID r = lr_ID l) rows)"
    by (simp add: find_device_hostname_def)
  also have "find (\<lambda>r. lr_ID r = lr_ID l) rows = Some l" using find_key [OF d(2)] l(1) by simp
  finally have "find_device_hostname rows es i = Some host" using call by simp
  then show ?thesis
    using assms(2,3) call by (simp add: GetTestDeviceStatistics_def sql_defs no_faults_def)
qed

theorem statistics_from_started_device_witness:
  "GetTestDeviceStatistics no_faults (\<lambda>_. 0) (\<lambda>host port. if (host, port) = (''sim-1-2'', 50074) then Inr (7 :: nat) else Inl []) 5
     example_database = Inr 7"
proof -
  have "(5, ''sim-1-2'', 50074) \<in> set (all_device_calls
      (sort_key (\<lambda>r. name_rank (\<lambda>_. 0) (lr_Name r)) (db_ldcs example_database))
      (sort_key er_ID (db_equipments example_database)))"
    by code_simp
  from statistics_from_started_device [OF example_database_ok refl refl this,
      of "\<lambda>host port. if (host, port) = (''sim-1-2'', 50074) then Inr (7 :: nat) else Inl []"]
  show ?thesis by simp
qed

end
