(* ===== verification/Api_Topi.thy ===== *)
theory Api_Topi
  imports Api_Handlers
begin

text \<open>
  The handlers of the TOPI configuration, \<open>src/api/apiHandlerTopi.go\<close>, and of the token of the message
  server, \<open>apiHandlerAuth.go\<close>.

  The specification of a session with two databases that differ in the secrets only is a noninterference
  property of the three calls; the token goes only where \<open>ListTopiConfigurations\<close> sends it.

  \<open>parse\<close> stands for \<open>url.Parse\<close>: the parts of a URL the handlers look at, or nothing for a URL that does not
  parse; the properties hold whatever it is. The answer of the TOPI daemon to the one HTTP request is an
  argument.
\<close>

section \<open>Definitions\<close>

record parsed_url =
  url_Scheme :: string
  url_Host :: string
  url_has_User :: bool
  url_RawQuery :: string
  url_Fragment :: string

type_synonym url_parser = "string \<Rightarrow> parsed_url option"

text \<open>The message that leaves the server: instead of the token and the password, whether there is one.\<close>

record pb_Topi =
  pt_Enabled :: bool
  pt_DaemonUrl :: string
  pt_RabbitmqAddress :: string
  pt_RabbitmqPort :: int
  pt_RabbitmqUser :: string
  pt_RabbitmqVhost :: string
  pt_ExchangeName :: string
  pt_ControlQueue :: string
  pt_SelectedConfiguration :: string
  pt_HasApiToken :: bool
  pt_HasRabbitmqPassword :: bool

definition defaultTopiParams :: db_Topiparam where
  "defaultTopiParams = \<lparr>to_Enabled = False, to_DaemonUrl = [], to_ApiToken = [], to_RabbitmqAddress = [],
     to_RabbitmqPort = 5672, to_RabbitmqUser = [], to_RabbitmqPassword = [], to_RabbitmqVhost = ''/'',
     to_ExchangeName = ''production'', to_ControlQueue = ''topi_daemon_control'', to_SelectedConfiguration = []\<rparr>"

definition readTopiParams :: "faults \<Rightarrow> database \<Rightarrow> db_Topiparam result" where
  "readTopiParams f db =
     (case sql_GetTopiParams f db of
        Inl e \<Rightarrow> if e = ErrNoRows then Inr defaultTopiParams else Inl e
      | Inr p \<Rightarrow> Inr p)"

definition publicTopiConfiguration :: "db_Topiparam \<Rightarrow> pb_Topi" where
  "publicTopiConfiguration p = \<lparr>pt_Enabled = to_Enabled p, pt_DaemonUrl = to_DaemonUrl p,
     pt_RabbitmqAddress = to_RabbitmqAddress p, pt_RabbitmqPort = to_RabbitmqPort p,
     pt_RabbitmqUser = to_RabbitmqUser p, pt_RabbitmqVhost = to_RabbitmqVhost p,
     pt_ExchangeName = to_ExchangeName p, pt_ControlQueue = to_ControlQueue p,
     pt_SelectedConfiguration = to_SelectedConfiguration p, pt_HasApiToken = (to_ApiToken p \<noteq> []),
     pt_HasRabbitmqPassword = (to_RabbitmqPassword p \<noteq> [])\<rparr>"

definition topi_read_error :: api_error where
  "topi_read_error = ApiError CodeInternal ''could not read TOPI configuration''"

definition GetTopiConfiguration :: "faults \<Rightarrow> database \<Rightarrow> pb_Topi api" where
  "GetTopiConfiguration f db =
     (case readTopiParams f db of Inl _ \<Rightarrow> Inl topi_read_error | Inr p \<Rightarrow> Inr (publicTopiConfiguration p))"

definition url_ok :: "url_parser \<Rightarrow> string \<Rightarrow> bool" where
  "url_ok parse s =
     (case parse s of
        None \<Rightarrow> False
      | Some u \<Rightarrow> url_Scheme u \<in> {''http'', ''https''} \<and> url_Host u \<noteq> [] \<and> \<not> url_has_User u \<and>
          url_RawQuery u = [] \<and> url_Fragment u = [])"

text \<open>The error of a configuration, if it has one; the message may be missing from the request.\<close>

definition validateTopiConfiguration :: "url_parser \<Rightarrow> pb_Topi option \<Rightarrow> string \<Rightarrow> string \<Rightarrow> string option" where
  "validateTopiConfiguration parse configuration token password =
     (case configuration of
        None \<Rightarrow> Some ''configuration is required''
      | Some c \<Rightarrow>
          if pt_RabbitmqPort c < 1 \<or> pt_RabbitmqPort c > 65535 then
            Some ''RabbitMQ port must be between 1 and 65535''
          else if list_ex (\<lambda>ch. ch = CHR ''/'' \<or> ch = CHR 0x5C) (pt_SelectedConfiguration c) then
            Some ''TOPI configuration must be a file name''
          else if \<not> pt_Enabled c then None
          else if \<not> url_ok parse (pt_DaemonUrl c) then
            Some ''TOPI daemon URL must be an HTTP(S) URL without credentials, query, or fragment''
          else if token = [] then Some ''TOPI API token is required when enabled''
          else if pt_RabbitmqAddress c = [] \<or> pt_RabbitmqUser c = [] \<or> password = [] \<or> pt_RabbitmqVhost c = [] \<or>
                  pt_ExchangeName c = [] \<or> pt_ControlQueue c = [] then
            Some ''all RabbitMQ fields and credentials are required when TOPI is enabled''
          else if pt_SelectedConfiguration c = [] then
            Some ''a TOPI configuration must be selected when enabled''
          else None)"

text \<open>\<open>strings.TrimRight(s, "/")\<close>.\<close>

definition trim_slashes :: "string \<Rightarrow> string" where
  "trim_slashes s = rev (dropWhile (\<lambda>ch. ch = CHR ''/'') (rev s))"

definition topi_row :: "pb_Topi \<Rightarrow> string \<Rightarrow> string \<Rightarrow> db_Topiparam" where
  "topi_row c token password = \<lparr>to_Enabled = pt_Enabled c, to_DaemonUrl = trim_slashes (pt_DaemonUrl c),
     to_ApiToken = token, to_RabbitmqAddress = pt_RabbitmqAddress c, to_RabbitmqPort = pt_RabbitmqPort c,
     to_RabbitmqUser = pt_RabbitmqUser c, to_RabbitmqPassword = password, to_RabbitmqVhost = pt_RabbitmqVhost c,
     to_ExchangeName = pt_ExchangeName c, to_ControlQueue = pt_ControlQueue c,
     to_SelectedConfiguration = pt_SelectedConfiguration c\<rparr>"

record pb_UpdateTopi =
  ut_Configuration :: "pb_Topi option"
  ut_ApiToken :: string
  ut_RabbitmqPassword :: string

definition UpdateTopiConfiguration ::
  "url_parser \<Rightarrow> faults \<Rightarrow> pb_UpdateTopi \<Rightarrow> database \<Rightarrow> api_reply api \<times> database" where
  "UpdateTopiConfiguration parse f req db =
     (case readTopiParams f db of
        Inl _ \<Rightarrow> (Inl topi_read_error, db)
      | Inr old \<Rightarrow>
          let token = (if ut_ApiToken req = [] then to_ApiToken old else ut_ApiToken req);
              password = (if ut_RabbitmqPassword req = [] then to_RabbitmqPassword old else ut_RabbitmqPassword req)
          in case (validateTopiConfiguration parse (ut_Configuration req) token password, ut_Configuration req) of
               (None, Some c) \<Rightarrow>
                 (case sql_UpsertTopiParams f (topi_row c token password) db of
                    Inl _ \<Rightarrow> (Inl (ApiError CodeInternal ''could not store TOPI configuration''), db)
                  | Inr db' \<Rightarrow> (Inr \<lparr>re_Success = True, re_Message = ''TOPI configuration updated''\<rparr>, db'))
             | (Some e, _) \<Rightarrow> (Inl (ApiError CodeInvalidArgument e), db)
             | (None, None) \<Rightarrow> (Inl (ApiError CodeInvalidArgument []), db))"

text \<open>What the daemon answers: no answer, a status, and the body if it is the expected JSON object.\<close>

record topi_list =
  tl_configurations :: "(string \<times> string) list"
  tl_defaultName :: string

datatype topi_answer = TopiUnreachable | TopiAnswer int "topi_list option"

record topi_request =
  tr_url :: string
  tr_authorization :: string

record pb_TopiAvailable =
  pa_Name :: string
  pa_ParseError :: string
  pa_IsDefault :: bool

text \<open>
  The request that is sent, if one is, and the answer of the handler. \<open>sendable\<close> says whether
  \<open>http.NewRequestWithContext\<close> accepts the URL.
\<close>

definition ListTopiConfigurations ::
  "url_parser \<Rightarrow> (string \<Rightarrow> bool) \<Rightarrow> (topi_request \<Rightarrow> topi_answer) \<Rightarrow> faults \<Rightarrow> string \<Rightarrow> string \<Rightarrow> database \<Rightarrow>
   topi_request option \<times> pb_TopiAvailable list api" where
  "ListTopiConfigurations parse sendable daemon f daemonUrl apiToken db =
     (case readTopiParams f db of
        Inl _ \<Rightarrow> (None, Inl topi_read_error)
      | Inr p \<Rightarrow>
          let url = (if daemonUrl \<noteq> [] then trim_slashes daemonUrl else to_DaemonUrl p);
              token = (if apiToken \<noteq> [] then apiToken else to_ApiToken p);
              target = trim_slashes url @ ''/topi.daemon.v1.ConfigService/ListConfigurations'';
              invalid = ApiError CodeInvalidArgument ''invalid TOPI daemon URL''
          in if \<not> url_ok parse url then (None, Inl invalid)
             else if token = [] then
               (None, Inl (ApiError CodeFailedPrecondition ''TOPI daemon URL and token are not configured''))
             else if \<not> sendable target then (None, Inl invalid)
             else
               let req = \<lparr>tr_url = target, tr_authorization = ''Bearer '' @ token\<rparr>
               in (Some req,
                   case daemon req of
                     TopiUnreachable \<Rightarrow> Inl (ApiError CodeUnavailable ''TOPI daemon is unavailable'')
                   | TopiAnswer status body \<Rightarrow>
                       if status sdiv 100 \<noteq> 2 then
                         Inl (ApiError CodeUnavailable (''TOPI daemon returned HTTP '' @ show_int status))
                       else
                         case body of
                           None \<Rightarrow> Inl (ApiError CodeUnavailable ''invalid response from TOPI daemon'')
                         | Some r \<Rightarrow>
                             Inr (map (\<lambda>(n, e). \<lparr>pa_Name = n, pa_ParseError = e, pa_IsDefault = (n = tl_defaultName r)\<rparr>)
                               (tl_configurations r))))"

definition GetToken :: "string \<Rightarrow> string" where
  "GetToken centrifugalToken = centrifugalToken"

section \<open>Specification\<close>

text \<open>What the handler asks of a configuration before it stores it with a token and a password.\<close>

definition topi_acceptable :: "url_parser \<Rightarrow> pb_Topi \<Rightarrow> string \<Rightarrow> string \<Rightarrow> bool" where
  "topi_acceptable parse c token password \<longleftrightarrow>
     1 \<le> pt_RabbitmqPort c \<and> pt_RabbitmqPort c \<le> 65535 \<and>
     CHR ''/'' \<notin> set (pt_SelectedConfiguration c) \<and> CHR 0x5C \<notin> set (pt_SelectedConfiguration c) \<and>
     (pt_Enabled c \<longrightarrow> url_ok parse (pt_DaemonUrl c) \<and> token \<noteq> [] \<and> password \<noteq> [] \<and>
        pt_RabbitmqAddress c \<noteq> [] \<and> pt_RabbitmqUser c \<noteq> [] \<and> pt_RabbitmqVhost c \<noteq> [] \<and>
        pt_ExchangeName c \<noteq> [] \<and> pt_ControlQueue c \<noteq> [] \<and> pt_SelectedConfiguration c \<noteq> [])"

lemma validate_acceptable:
  "validateTopiConfiguration parse (Some c) token password = None \<longleftrightarrow> topi_acceptable parse c token password"
  by (auto simp: validateTopiConfiguration_def topi_acceptable_def list_ex_iff)

text \<open>The row of the database as a handler reads it, and the secrets an update stores.\<close>

definition topi_row_of :: "database \<Rightarrow> db_Topiparam" where
  "topi_row_of db = (case db_topiParams db of None \<Rightarrow> defaultTopiParams | Some p \<Rightarrow> p)"

definition kept_secret :: "string \<Rightarrow> string \<Rightarrow> string" where
  "kept_secret new stored = (if new = [] then stored else new)"

text \<open>
  Two databases that differ at most in the values of the two secrets: every other column and table is the same,
  and a secret is set in both or in neither.
\<close>

definition rows_alike :: "db_Topiparam \<Rightarrow> db_Topiparam \<Rightarrow> bool" where
  "rows_alike p q \<longleftrightarrow> q\<lparr>to_ApiToken := to_ApiToken p, to_RabbitmqPassword := to_RabbitmqPassword p\<rparr> = p \<and>
     (to_ApiToken p = [] \<longleftrightarrow> to_ApiToken q = []) \<and> (to_RabbitmqPassword p = [] \<longleftrightarrow> to_RabbitmqPassword q = [])"

definition alike :: "database \<Rightarrow> database \<Rightarrow> bool" where
  "alike a b \<longleftrightarrow> b\<lparr>db_topiParams := db_topiParams a\<rparr> = a \<and>
     rel_option rows_alike (db_topiParams a) (db_topiParams b)"

text \<open>A session: the calls of clients, each with the queries that fail, and the answers they get.\<close>

datatype topi_call = CallGet | CallUpdate pb_UpdateTopi | CallList string string

datatype topi_reply =
    ReplyGet "pb_Topi api" | ReplyUpdate "api_reply api" | ReplyList "pb_TopiAvailable list api"

fun topi_serve :: "url_parser \<Rightarrow> (string \<Rightarrow> bool) \<Rightarrow> (topi_request \<Rightarrow> topi_answer) \<Rightarrow> faults \<times> topi_call \<Rightarrow> database \<Rightarrow>
   topi_reply \<times> database" where
  "topi_serve parse sendable daemon (f, CallGet) db = (ReplyGet (GetTopiConfiguration f db), db)"
| "topi_serve parse sendable daemon (f, CallUpdate req) db =
     (let (r, db') = UpdateTopiConfiguration parse f req db in (ReplyUpdate r, db'))"
| "topi_serve parse sendable daemon (f, CallList url token) db =
     (ReplyList (snd (ListTopiConfigurations parse sendable daemon f url token db)), db)"

fun topi_session :: "url_parser \<Rightarrow> (string \<Rightarrow> bool) \<Rightarrow> (topi_request \<Rightarrow> topi_answer) \<Rightarrow> (faults \<times> topi_call) list \<Rightarrow>
   database \<Rightarrow> topi_reply list" where
  "topi_session parse sendable daemon [] db = []"
| "topi_session parse sendable daemon (c # cs) db =
     (let (r, db') = topi_serve parse sendable daemon c db in r # topi_session parse sendable daemon cs db')"

text \<open>A call that does not make the server send the stored token: it brings a token of its own.\<close>

fun own_token :: "topi_call \<Rightarrow> bool" where
  "own_token (CallList url token) \<longleftrightarrow> token \<noteq> []"
| "own_token c \<longleftrightarrow> True"

section \<open>Properties\<close>

lemma readTopiParams_no_faults [simp]: "readTopiParams no_faults db = Inr (topi_row_of db)"
  by (simp add: readTopiParams_def sql_GetTopiParams_def query_def no_faults_def topi_row_of_def split: option.split)

lemma rows_alike_refl [simp]: "rows_alike p p"
  by (simp add: rows_alike_def)

lemma public_alike: "rows_alike p q \<Longrightarrow> publicTopiConfiguration p = publicTopiConfiguration q"
  by (cases p; cases q) (auto simp: rows_alike_def publicTopiConfiguration_def)

lemma read_alike: "alike a b \<Longrightarrow> rel_sum (=) rows_alike (readTopiParams f a) (readTopiParams f b)"
  by (cases "db_topiParams a"; cases "db_topiParams b")
    (auto simp: alike_def readTopiParams_def sql_GetTopiParams_def query_def split: option.split)

lemma stored_alike:
  assumes "alike a b" and "rows_alike p q"
  shows "alike (a\<lparr>db_topiParams := Some p\<rparr>) (b\<lparr>db_topiParams := Some q\<rparr>)"
  using assms by (cases a; cases b) (auto simp: alike_def)

lemma validate_kept:
  assumes "rows_alike p q"
  shows "validateTopiConfiguration parse c (kept_secret t (to_ApiToken p)) (kept_secret s (to_RabbitmqPassword p)) =
    validateTopiConfiguration parse c (kept_secret t (to_ApiToken q)) (kept_secret s (to_RabbitmqPassword q))"
  using assms by (auto simp: rows_alike_def validateTopiConfiguration_def kept_secret_def split: option.split)

lemma row_kept:
  assumes "rows_alike p q"
  shows "rows_alike (topi_row c (kept_secret t (to_ApiToken p)) (kept_secret s (to_RabbitmqPassword p)))
    (topi_row c (kept_secret t (to_ApiToken q)) (kept_secret s (to_RabbitmqPassword q)))"
  using assms by (auto simp: rows_alike_def topi_row_def kept_secret_def)

lemma UpdateTopi_read:
  "UpdateTopiConfiguration parse f req db =
     (case readTopiParams f db of
        Inl _ \<Rightarrow> (Inl topi_read_error, db)
      | Inr old \<Rightarrow>
          let token = kept_secret (ut_ApiToken req) (to_ApiToken old);
              password = kept_secret (ut_RabbitmqPassword req) (to_RabbitmqPassword old)
          in case (validateTopiConfiguration parse (ut_Configuration req) token password, ut_Configuration req) of
               (None, Some c) \<Rightarrow>
                 (case sql_UpsertTopiParams f (topi_row c token password) db of
                    Inl _ \<Rightarrow> (Inl (ApiError CodeInternal ''could not store TOPI configuration''), db)
                  | Inr db' \<Rightarrow> (Inr \<lparr>re_Success = True, re_Message = ''TOPI configuration updated''\<rparr>, db'))
             | (Some e, _) \<Rightarrow> (Inl (ApiError CodeInvalidArgument e), db)
             | (None, None) \<Rightarrow> (Inl (ApiError CodeInvalidArgument []), db))"
  unfolding UpdateTopiConfiguration_def kept_secret_def ..

lemma update_alike:
  assumes "alike a b"
  shows "fst (UpdateTopiConfiguration parse f req a) = fst (UpdateTopiConfiguration parse f req b) \<and>
    alike (snd (UpdateTopiConfiguration parse f req a)) (snd (UpdateTopiConfiguration parse f req b))"
  using read_alike [OF assms, of f]
proof cases
  case (2 p q)
  show ?thesis
  proof (cases "ut_Configuration req")
    case None
    with 2 assms show ?thesis by (simp add: UpdateTopi_read validateTopiConfiguration_def)
  next
    case (Some c)
    show ?thesis unfolding UpdateTopi_read 2(1,2) sum.case Let_def validate_kept [OF 2(3)] Some
      using assms stored_alike [OF assms row_kept [OF 2(3)]]
      by (auto simp: sql_UpsertTopiParams_def query_def split: option.split)
  qed
qed (use assms in \<open>simp add: UpdateTopi_read\<close>)

lemma list_alike:
  assumes "alike a b" and "token \<noteq> []"
  shows "ListTopiConfigurations parse sendable daemon f url token a =
    ListTopiConfigurations parse sendable daemon f url token b"
  using read_alike [OF assms(1), of f]
proof cases
  case (2 p q)
  then have "to_DaemonUrl p = to_DaemonUrl q" by (cases p; cases q) (auto simp: rows_alike_def)
  with 2 assms(2) show ?thesis by (simp add: ListTopiConfigurations_def)
qed (simp add: ListTopiConfigurations_def)

lemma serve_alike:
  assumes "alike a b" and "own_token c"
  shows "fst (topi_serve parse sendable daemon (f, c) a) = fst (topi_serve parse sendable daemon (f, c) b) \<and>
    alike (snd (topi_serve parse sendable daemon (f, c) a)) (snd (topi_serve parse sendable daemon (f, c) b))"
proof (cases c)
  case CallGet
  have "GetTopiConfiguration f a = GetTopiConfiguration f b"
    using read_alike [OF assms(1), of f] by cases (simp_all add: GetTopiConfiguration_def public_alike)
  with CallGet assms(1) show ?thesis by simp
next
  case (CallUpdate req)
  with update_alike [OF assms(1), of parse f req] show ?thesis by (simp add: split_beta)
next
  case (CallList url token)
  with assms list_alike [OF assms(1)] show ?thesis by simp
qed

text \<open>Clients that bring their own token get answers that do not depend on the stored secrets.\<close>

lemma session_alike:
  assumes "alike a b" and "list_all (\<lambda>(f, c). own_token c) calls"
  shows "topi_session parse sendable daemon calls a = topi_session parse sendable daemon calls b"
  using assms
proof (induction calls arbitrary: a b)
  case (Cons fc calls)
  obtain f c where fc: "fc = (f, c)" by (cases fc)
  with Cons.prems serve_alike [of a b c parse sendable daemon f] Cons.IH show ?case by (simp add: split_beta)
qed simp

text \<open>
  C28. The TOPI credentials. Without failing queries an update is accepted exactly when the configuration is
  acceptable (a port in range, a plain file name and, when it is enabled, a daemon URL of the required form,
  both secrets, the fields of the message server and a selected file). It then changes nothing but this row,
  where it keeps a secret that the request leaves empty, and a client reads the configuration it sent without
  the trailing slashes of the URL. An update that is refused or whose queries fail changes nothing. In every
  session of \<open>GetTopiConfiguration\<close>, \<open>UpdateTopiConfiguration\<close> and \<open>ListTopiConfigurations\<close> calls, whatever queries
  fail, the answers depend on each stored secret only through whether it is set, provided that every
  \<open>ListTopiConfigurations\<close> brings its own token. The proviso is needed: without a token in the call, the server sends
  the stored one to the daemon URL of the call, which is any URL of the required form.
\<close>

theorem topi_secrets_kept:
  assumes token: "token = kept_secret (ut_ApiToken req) (to_ApiToken (topi_row_of db))"
    and password: "password = kept_secret (ut_RabbitmqPassword req) (to_RabbitmqPassword (topi_row_of db))"
    and target: "target = trim_slashes (trim_slashes url) @ ''/topi.daemon.v1.ConfigService/ListConfigurations''"
  shows "(case ut_Configuration req of
      Some c \<Rightarrow>
        if topi_acceptable parse c token password then
          \<exists>db'. UpdateTopiConfiguration parse no_faults req db =
              (Inr \<lparr>re_Success = True, re_Message = ''TOPI configuration updated''\<rparr>, db') \<and>
            db' = db\<lparr>db_topiParams := Some (topi_row c token password)\<rparr> \<and>
            GetTopiConfiguration no_faults db' = Inr (c\<lparr>pt_DaemonUrl := trim_slashes (pt_DaemonUrl c),
              pt_HasApiToken := (token \<noteq> []), pt_HasRabbitmqPassword := (password \<noteq> [])\<rparr>)
        else \<exists>e. UpdateTopiConfiguration parse no_faults req db = (Inl (ApiError CodeInvalidArgument e), db)
    | None \<Rightarrow> UpdateTopiConfiguration parse no_faults req db =
        (Inl (ApiError CodeInvalidArgument ''configuration is required''), db)) \<and>
    (case UpdateTopiConfiguration parse f req db of (Inl _, db') \<Rightarrow> db' = db | (Inr _, db') \<Rightarrow>
       db'\<lparr>db_topiParams := db_topiParams db\<rparr> = db) \<and>
    (alike db other \<and> list_all (\<lambda>(f, c). own_token c) calls \<longrightarrow>
       topi_session parse sendable daemon calls db = topi_session parse sendable daemon calls other) \<and>
    (url \<noteq> [] \<and> url_ok parse (trim_slashes url) \<and> sendable target \<and> to_ApiToken (topi_row_of db) \<noteq> [] \<longrightarrow>
       fst (ListTopiConfigurations parse sendable daemon no_faults url [] db) =
         Some \<lparr>tr_url = target, tr_authorization = ''Bearer '' @ to_ApiToken (topi_row_of db)\<rparr>)"
proof (intro conjI)
  have up: "sql_UpsertTopiParams no_faults q db = Inr (db\<lparr>db_topiParams := Some q\<rparr>)" for q
    by (simp add: sql_UpsertTopiParams_def query_def no_faults_def)
  have get: "GetTopiConfiguration no_faults (db\<lparr>db_topiParams := Some q\<rparr>) = Inr (publicTopiConfiguration q)" for q
    by (simp add: GetTopiConfiguration_def topi_row_of_def)
  show "case ut_Configuration req of
      Some c \<Rightarrow>
        if topi_acceptable parse c token password then
          \<exists>db'. UpdateTopiConfiguration parse no_faults req db =
              (Inr \<lparr>re_Success = True, re_Message = ''TOPI configuration updated''\<rparr>, db') \<and>
            db' = db\<lparr>db_topiParams := Some (topi_row c token password)\<rparr> \<and>
            GetTopiConfiguration no_faults db' = Inr (c\<lparr>pt_DaemonUrl := trim_slashes (pt_DaemonUrl c),
              pt_HasApiToken := (token \<noteq> []), pt_HasRabbitmqPassword := (password \<noteq> [])\<rparr>)
        else \<exists>e. UpdateTopiConfiguration parse no_faults req db = (Inl (ApiError CodeInvalidArgument e), db)
    | None \<Rightarrow> UpdateTopiConfiguration parse no_faults req db =
        (Inl (ApiError CodeInvalidArgument ''configuration is required''), db)"
  proof (cases "ut_Configuration req")
    case None
    then show ?thesis by (simp add: UpdateTopi_read validateTopiConfiguration_def)
  next
    case (Some c)
    then show ?thesis
      by (auto simp: UpdateTopi_read token [symmetric] password [symmetric] validate_acceptable [symmetric] Let_def up get
          publicTopiConfiguration_def topi_row_def)
  qed
  show "case UpdateTopiConfiguration parse f req db of (Inl _, db') \<Rightarrow> db' = db | (Inr _, db') \<Rightarrow>
      db'\<lparr>db_topiParams := db_topiParams db\<rparr> = db"
    by (simp add: UpdateTopi_read sql_UpsertTopiParams_def query_def Let_def split: sum.split option.split)
qed (use session_alike target in \<open>auto simp: ListTopiConfigurations_def Let_def\<close>)

definition example_topi :: pb_Topi where
  "example_topi = \<lparr>pt_Enabled = True, pt_DaemonUrl = ''http://topi/'', pt_RabbitmqAddress = ''mq'', pt_RabbitmqPort = 5672,
     pt_RabbitmqUser = ''duck'', pt_RabbitmqVhost = ''/'', pt_ExchangeName = ''production'', pt_ControlQueue = ''q'',
     pt_SelectedConfiguration = ''run.toml'', pt_HasApiToken = False, pt_HasRabbitmqPassword = False\<rparr>"

definition example_topi_url :: url_parser where
  "example_topi_url s = Some \<lparr>url_Scheme = ''http'', url_Host = ''topi'', url_has_User = False, url_RawQuery = [],
     url_Fragment = []\<rparr>"

text \<open>
  An update that brings a new password and keeps the token of the database; a session that does not tell this token
  from another; and a call that makes the server send it to the URL of the client.
\<close>

definition example_topi_db :: "string \<Rightarrow> database" where
  "example_topi_db t = example_database\<lparr>db_topiParams := Some (defaultTopiParams\<lparr>to_ApiToken := t\<rparr>)\<rparr>"

definition example_topi_req :: pb_UpdateTopi where
  "example_topi_req = \<lparr>ut_Configuration = Some example_topi, ut_ApiToken = [], ut_RabbitmqPassword = ''new''\<rparr>"

theorem topi_secrets_kept_witness:
  "map_option to_ApiToken (db_topiParams (snd (UpdateTopiConfiguration example_topi_url no_faults example_topi_req
       (example_topi_db ''secret'')))) = Some ''secret'' \<and>
   topi_session example_topi_url (\<lambda>_. True) (\<lambda>_. TopiUnreachable)
     [(no_faults, CallUpdate example_topi_req), (no_faults, CallGet), (no_faults, CallList ''http://topi'' ''own'')]
       (example_topi_db ''secret'') =
     topi_session example_topi_url (\<lambda>_. True) (\<lambda>_. TopiUnreachable)
     [(no_faults, CallUpdate example_topi_req), (no_faults, CallGet), (no_faults, CallList ''http://topi'' ''own'')]
       (example_topi_db ''other'') \<and>
   fst (ListTopiConfigurations example_topi_url (\<lambda>_. True) (\<lambda>_. TopiUnreachable) no_faults ''http://evil/'' []
       (example_topi_db ''secret'')) =
     Some \<lparr>tr_url = ''http://evil/topi.daemon.v1.ConfigService/ListConfigurations'', tr_authorization = ''Bearer secret''\<rparr>"
proof -
  let ?calls = "[(no_faults, CallUpdate example_topi_req), (no_faults, CallGet), (no_faults, CallList ''http://topi'' ''own'')]"
  have row: "topi_row_of (example_topi_db t) = defaultTopiParams\<lparr>to_ApiToken := t\<rparr>" for t
    by (simp add: topi_row_of_def example_topi_db_def)
  have alike: "alike (example_topi_db ''secret'') (example_topi_db ''other'')"
    by (simp add: alike_def example_topi_db_def rows_alike_def)
  have acc: "topi_acceptable example_topi_url example_topi ''secret'' ''new''"
    by (simp add: topi_acceptable_def url_ok_def example_topi_def example_topi_url_def)
  have trim: "trim_slashes ''http://evil/'' = ''http://evil''" "trim_slashes ''http://evil'' = ''http://evil''"
    by code_simp+
  have "url_ok example_topi_url s" for s by (simp add: url_ok_def example_topi_url_def)
  note facts = topi_secrets_kept [OF refl refl refl, where db = "example_topi_db ''secret''" and req = example_topi_req
      and other = "example_topi_db ''other''" and calls = ?calls and url = "''http://evil/''" and parse = example_topi_url
      and sendable = "\<lambda>_. True" and daemon = "\<lambda>_. TopiUnreachable"]
  note update = facts [THEN conjunct1] and session = facts [THEN conjunct2, THEN conjunct2, THEN conjunct1]
    and list = facts [THEN conjunct2, THEN conjunct2, THEN conjunct2]
  have req: "ut_Configuration example_topi_req = Some example_topi" "ut_ApiToken example_topi_req = []"
    "ut_RabbitmqPassword example_topi_req = ''new''"
    by (simp_all add: example_topi_req_def)
  show ?thesis
    using update session list alike acc \<open>\<And>s. url_ok example_topi_url s\<close>
    by (auto simp: req row trim kept_secret_def topi_row_def)
qed

end
