(* ===== verification/Api_Server.thy ===== *)
theory Api_Server
  imports Process_Start Api_Topi
begin

text \<open>
  The API process around its handlers: the main function and the message callback (\<open>src/api/server.go\<close>), the server object
  (\<open>src/api/apiHandler.go\<close>), error reporting (\<open>src/api/sentry.go\<close>) and the publication to TOPI (\<open>src/api/topi.go\<close>).

  The Sentry library makes an event of an error (\<open>mk\<close>), hands it to \<open>BeforeSend\<close> and sends what that returns; the AMQP library
  is a record of the outcomes of its calls. Maps are iterated in an order that is a parameter.
\<close>

section \<open>Definitions\<close>

subsection \<open>Error reporting (sentry.go)\<close>

datatype 'v any_value = AnyString string | AnyOther 'v

record sentry_request =
  sq_URL :: string
  sq_Method :: string
  sq_Data :: string
  sq_QueryString :: string
  sq_Cookies :: string
  sq_Headers :: "(string, string) go_map"

record 'v sentry_event =
  se_Message :: string
  se_Tags :: "(string, string) go_map"
  se_Request :: "sentry_request option"
  se_Extra :: "(string, 'v any_value) go_map"

definition secret_header :: "string \<Rightarrow> bool" where
  "secret_header name \<longleftrightarrow> to_lower name \<in> {''authorization'', ''cookie'', ''set-cookie'', ''x-api-key''}"

definition secret_extra :: "string \<Rightarrow> bool" where
  "secret_extra key =
     (let lower = to_lower key
      in has_infix lower ''password'' \<or> has_infix lower ''passwd'' \<or> has_infix lower ''token'' \<or>
         has_infix lower ''secret'' \<or> has_infix lower ''dsn'')"

text \<open>\<open>for k := range m { if p(k) { m[k] = v } }\<close>\<close>

definition overwrite :: "('k \<Rightarrow> bool) \<Rightarrow> 'v \<Rightarrow> ('k, 'v) iteration \<Rightarrow> ('k, 'v) go_map \<Rightarrow> ('k, 'v) go_map" where
  "overwrite p v ord m = foldl (\<lambda>m' (k, _). if p k then gm_set k v m' else m') m (ord m)"

definition scrubSentryEvent ::
  "(string, string) iteration \<Rightarrow> (string, 'v any_value) iteration \<Rightarrow> 'v sentry_event option \<Rightarrow> 'v sentry_event option" where
  "scrubSentryEvent ordH ordE event =
     (case event of
        None \<Rightarrow> None
      | Some e \<Rightarrow>
          Some (e\<lparr>se_Request := map_option (\<lambda>r. r\<lparr>sq_Data := [], sq_QueryString := [], sq_Cookies := [],
                    sq_Headers := overwrite secret_header ''[Filtered]'' ordH (sq_Headers r)\<rparr>) (se_Request e),
                  se_Extra := overwrite secret_extra (AnyString ''[Filtered]'') ordE (se_Extra e)\<rparr>))"

definition is_space :: "char \<Rightarrow> bool" where
  "is_space c \<longleftrightarrow> c \<in> {CHR '' '', CHR 0x09, CHR 0x0A, CHR 0x0B, CHR 0x0C, CHR 0x0D}"

definition TrimSpace :: "string \<Rightarrow> string" where
  "TrimSpace s = rev (dropWhile is_space (rev (dropWhile is_space s)))"

text \<open>The client of the library with the events its transport got.\<close>

record 'v sentry_client =
  sc_dsn :: string
  sc_environment :: string
  sc_release :: string
  sc_beforeSend :: "'v sentry_event option \<Rightarrow> 'v sentry_event option"
  sc_sent :: "'v sentry_event list"

text \<open>Without a DSN, or when the library refuses it, nothing is reported; the API starts all the same.\<close>

definition initializeSentry ::
  "(string \<Rightarrow> string) \<Rightarrow> (string \<Rightarrow> string option) \<Rightarrow> (string, string) iteration \<Rightarrow> (string, 'v any_value) iteration \<Rightarrow> string \<Rightarrow>
   'v sentry_client option" where
  "initializeSentry getenv init ordH ordE release =
     (let dsn = TrimSpace (getenv ''SENTRY_DSN'')
      in if dsn = [] then None
         else case init dsn of
                Some err \<Rightarrow> None
              | None \<Rightarrow> Some \<lparr>sc_dsn = dsn, sc_environment = getenv ''SENTRY_ENVIRONMENT'', sc_release = release,
                  sc_beforeSend = scrubSentryEvent ordH ordE, sc_sent = []\<rparr>)"

text \<open>
  The library: an event goes through \<open>BeforeSend\<close>; nothing is sent when that returns nil or there is no client. What is handed to the
  transport counts as sent: its buffer of 100 events and its timeout, with which the library may drop some of them, are not modelled, nor
  the reports that the library's own HTTP middleware makes.
\<close>

definition capture :: "'v sentry_event \<Rightarrow> 'v sentry_client option \<Rightarrow> 'v sentry_client option" where
  "capture e client =
     map_option (\<lambda>c. case sc_beforeSend c (Some e) of None \<Rightarrow> c | Some e' \<Rightarrow> c\<lparr>sc_sent := sc_sent c @ [e']\<rparr>) client"

type_synonym ('ctx, 'v) event_maker = "'ctx \<Rightarrow> string \<Rightarrow> (string, string) go_map \<Rightarrow> 'v sentry_event"

definition captureSentryException ::
  "('ctx, 'v) event_maker \<Rightarrow> 'ctx \<Rightarrow> string option \<Rightarrow> (string, string) go_map \<Rightarrow> 'v sentry_client option \<Rightarrow> 'v sentry_client option" where
  "captureSentryException mk ctx err tags client =
     (case err of None \<Rightarrow> client | Some e \<Rightarrow> capture (mk ctx e tags) client)"

definition captureFatalSentryError ::
  "('ctx, 'v) event_maker \<Rightarrow> 'ctx \<Rightarrow> string \<Rightarrow> string \<Rightarrow> 'v sentry_client option \<Rightarrow> 'v sentry_client option" where
  "captureFatalSentryError mk background err stage client =
     captureSentryException mk background (Some err) [(''stage'', stage), (''fatal'', ''true'')] client"

definition shouldReportConnectError :: "connect_code \<Rightarrow> bool" where
  "shouldReportConnectError code \<longleftrightarrow> code \<in> {CodeUnknown, CodeInternal, CodeDataLoss}"

fun code_string :: "connect_code \<Rightarrow> string" where
  "code_string CodeCanceled = ''canceled''"
| "code_string CodeUnknown = ''unknown''"
| "code_string CodeInvalidArgument = ''invalid_argument''"
| "code_string CodeDeadlineExceeded = ''deadline_exceeded''"
| "code_string CodeNotFound = ''not_found''"
| "code_string CodeAlreadyExists = ''already_exists''"
| "code_string CodePermissionDenied = ''permission_denied''"
| "code_string CodeResourceExhausted = ''resource_exhausted''"
| "code_string CodeFailedPrecondition = ''failed_precondition''"
| "code_string CodeAborted = ''aborted''"
| "code_string CodeOutOfRange = ''out_of_range''"
| "code_string CodeUnimplemented = ''unimplemented''"
| "code_string CodeInternal = ''internal''"
| "code_string CodeUnavailable = ''unavailable''"
| "code_string CodeDataLoss = ''data_loss''"
| "code_string CodeUnauthenticated = ''unauthenticated''"

text \<open>\<open>next\<close> gives the response and the error of a call; the interceptor passes both on.\<close>

definition sentryConnectInterceptor ::
  "('ctx, 'v) event_maker \<Rightarrow> ('ctx \<Rightarrow> 'req \<Rightarrow> 'resp option \<times> (connect_code \<times> string) option) \<Rightarrow> 'ctx \<Rightarrow> string \<Rightarrow> 'req \<Rightarrow>
   'v sentry_client option \<Rightarrow> ('resp option \<times> (connect_code \<times> string) option) \<times> 'v sentry_client option" where
  "sentryConnectInterceptor mk next ctx procedure req client =
     (case next ctx req of
        (response, None) \<Rightarrow> ((response, None), client)
      | (response, Some (code, msg)) \<Rightarrow>
          ((response, Some (code, msg)),
           if shouldReportConnectError code
           then captureSentryException mk ctx (Some msg) [(''procedure'', procedure), (''connect_code'', code_string code)] client
           else client))"

text \<open>What a deferred call sees: no panic, or its value.\<close>

definition recoverBackgroundPanic ::
  "('ctx, 'v) event_maker \<Rightarrow> 'ctx \<Rightarrow> (string, string) go_map \<Rightarrow> string option \<Rightarrow> 'v sentry_client option \<Rightarrow> 'v sentry_client option" where
  "recoverBackgroundPanic mk hub tags recovered client =
     (case recovered of None \<Rightarrow> client | Some v \<Rightarrow> capture (mk hub v tags) client)"

text \<open>
  The reports of a process one after another. A panic in the background is reported with the tags of its goroutine: its operation and, for the
  restart of a service, the name of the server.
\<close>

datatype report = FatalReport string string | RpcReport string connect_code string | PanicReport "(string, string) go_map" string

fun report_step :: "('ctx, 'v) event_maker \<Rightarrow> 'ctx \<Rightarrow> report \<Rightarrow> 'v sentry_client option \<Rightarrow> 'v sentry_client option" where
  "report_step mk ctx (FatalReport err stage) client = captureFatalSentryError mk ctx err stage client"
| "report_step mk ctx (RpcReport procedure code msg) client =
     snd (sentryConnectInterceptor mk (\<lambda>_ (_ :: unit). (None :: unit option, Some (code, msg))) ctx procedure () client)"
| "report_step mk ctx (PanicReport tags v) client = recoverBackgroundPanic mk ctx tags (Some v) client"

subsection \<open>The server object (apiHandler.go)\<close>

record DuckAPIServer =
  as_configFilename :: string
  as_centrifugalToken :: string
  as_devVersion :: bool
  as_control :: control
  as_rpcClient :: "servers option"
  as_topiPublisher :: bool

definition NewDuckAPIServer :: "servers \<Rightarrow> string \<Rightarrow> string \<Rightarrow> bool \<Rightarrow> DuckAPIServer" where
  "NewDuckAPIServer sv configFilename token devVersion = \<lparr>as_configFilename = configFilename, as_centrifugalToken = token,
     as_devVersion = devVersion, as_control = control_init, as_rpcClient = Some sv, as_topiPublisher = True\<rparr>"

definition NewDuckAPIServerWithQuerier :: "string \<Rightarrow> string \<Rightarrow> bool \<Rightarrow> DuckAPIServer" where
  "NewDuckAPIServerWithQuerier configFilename token devVersion = \<lparr>as_configFilename = configFilename, as_centrifugalToken = token,
     as_devVersion = devVersion, as_control = control_init, as_rpcClient = None, as_topiPublisher = False\<rparr>"

definition NewDuckAPIServerWithMocks :: "servers \<Rightarrow> string \<Rightarrow> string \<Rightarrow> bool \<Rightarrow> DuckAPIServer" where
  "NewDuckAPIServerWithMocks rpc configFilename token devVersion = \<lparr>as_configFilename = configFilename, as_centrifugalToken = token,
     as_devVersion = devVersion, as_control = control_init, as_rpcClient = Some rpc, as_topiPublisher = False\<rparr>"

subsection \<open>The process (server.go)\<close>

text \<open>
  The callback on messages: it reads the type before any check for nil. A stopping error of another process begins the
  automatic force stop when the transition allows it.
\<close>

definition api_fn :: "Message option \<Rightarrow> control \<Rightarrow> control outcome" where
  "api_fn message c =
     (case message of
        None \<Rightarrow> Panic
      | Some m \<Rightarrow>
          if ms_Type m = MessageMetric then Ok c
          else if shouldForceStopFromMessage message ''api''
               then Ok (begin_job (tryBeginStop (ct_transition c)) AutoForceStopJob c)
               else Ok c)"

record api_flags =
  af_config :: string
  af_debug :: bool
  af_port :: int

definition api_port :: "api_flags \<Rightarrow> int" where
  "api_port fl =
     (let port = 1323; port = (if af_debug fl then 1324 else port)
      in if af_port fl \<noteq> 0 then af_port fl else port)"

record api_process =
  ap_server :: DuckAPIServer
  ap_logger :: DuckLogger
  ap_port :: int

text \<open>
  The main function: the stages it reports to Sentry and how it ends. \<open>Returns\<close> is a server that listens. The first three errors are
  panics, the last one ends the process.
\<close>

definition api_main :: "process_env \<Rightarrow> servers \<Rightarrow> api_flags \<Rightarrow> (string \<times> string) list \<times> api_process exit" where
  "api_main env sv fl =
     (case ReadConfigurationFile env (af_config fl) of
        Inl err \<Rightarrow> ([(''read-configuration'', err)], Crashes)
      | Inr configuration \<Rightarrow>
          let uri = BuildDatabaseURI (cf_Database configuration)
          in case rt_result (ParseDatabaseConfigurationWithRetry (pe_opens env uri) (pe_pings env uri) 10 1) of
               Inl err \<Rightarrow> ([(''connect-database'', err)], Crashes)
             | Inr _ \<Rightarrow>
                 (case ConnToken (ce_sign (pe_centrifuge env)) ''js'' 0 (cc_Token (cf_Centrifugal configuration)) of
                    Panic \<Rightarrow> ([], Crashes)
                  | Ok token \<Rightarrow>
                      (case open_subscription env (cf_Centrifugal configuration) ''api'' of
                         Fatal e \<Rightarrow> ([], Fatal e)
                       | Crashes \<Rightarrow> ([], Crashes)
                       | Returns (Inl err) \<Rightarrow> ([(''connect-centrifuge'', err)], Crashes)
                       | Returns (Inr sub) \<Rightarrow>
                           (case pe_listen env (api_port fl) of
                              Some err \<Rightarrow> ([(''serve-http'', err)], Fatal err)
                            | None \<Rightarrow> ([], Returns \<lparr>ap_server = NewDuckAPIServer sv (af_config fl) token (af_debug fl),
                                ap_logger = NewDuckLogger ''api'' sub (cf_LogLevel configuration), ap_port = api_port fl\<rparr>)))))"

subsection \<open>Publishing to TOPI (topi.go)\<close>

text \<open>
  The outcomes of the calls of the AMQP library. \<open>am_wait\<close> is the confirmation, or the error of the context when the deadline passes
  first.
\<close>

record amqp =
  am_dial :: "string option"
  am_channel :: "string option"
  am_exchange :: "string option"
  am_queue :: "string option"
  am_bind :: "string option"
  am_confirm :: "string option"
  am_publish :: "string option"
  am_wait :: "string + bool"

datatype amqp_call = Dial string string string string | OpenChannel | ExchangeDeclare string | QueueDeclare string
  | QueueBind string string string | ConfirmMode | PublishBody string string string | CloseChannel | CloseConnection

definition JoinHostPort :: "string \<Rightarrow> string \<Rightarrow> string" where
  "JoinHostPort host port =
     (if CHR '':'' \<in> set host \<or> CHR 0x25 \<in> set host then ''['' @ host @ '']:'' @ port else host @ '':'' @ port)"

text \<open>The calls on the channel up to the first that fails, and the error.\<close>

fun channel_calls :: "(amqp_call \<times> string option) list \<Rightarrow> amqp_call list \<times> string option" where
  "channel_calls [] = ([], None)"
| "channel_calls ((c, Some err) # rest) = ([c], Some err)"
| "channel_calls ((c, None) # rest) = (case channel_calls rest of (cs, r) \<Rightarrow> (c # cs, r))"

definition amqp_Publish :: "amqp \<Rightarrow> db_Topiparam \<Rightarrow> string \<Rightarrow> amqp_call list \<times> string option" where
  "amqp_Publish am p body =
     (let dial = Dial (to_RabbitmqUser p) (to_RabbitmqPassword p)
            (JoinHostPort (to_RabbitmqAddress p) (show_int (to_RabbitmqPort p))) (to_RabbitmqVhost p)
      in case am_dial am of
           Some err \<Rightarrow> ([dial], Some (''connect to RabbitMQ: '' @ err))
         | None \<Rightarrow>
             (case am_channel am of
                Some err \<Rightarrow> ([dial, OpenChannel, CloseConnection], Some (''open RabbitMQ channel: '' @ err))
              | None \<Rightarrow>
                  let (cs, r) = channel_calls
                    [(ExchangeDeclare (to_ExchangeName p), map_option (\<lambda>e. ''declare exchange: '' @ e) (am_exchange am)),
                     (QueueDeclare (to_ControlQueue p), map_option (\<lambda>e. ''declare queue: '' @ e) (am_queue am)),
                     (QueueBind (to_ControlQueue p) (to_ControlQueue p) (to_ExchangeName p),
                      map_option (\<lambda>e. ''bind queue: '' @ e) (am_bind am)),
                     (ConfirmMode, map_option (\<lambda>e. ''enable publisher confirms: '' @ e) (am_confirm am)),
                     (PublishBody (to_ExchangeName p) (to_ControlQueue p) body, am_publish am)];
                      r' = (case r of
                              Some err \<Rightarrow> Some err
                            | None \<Rightarrow>
                                (case am_wait am of
                                   Inl err \<Rightarrow> Some err
                                 | Inr ack \<Rightarrow> if \<not> ack then Some ''RabbitMQ rejected publication'' else None))
                  in ([dial, OpenChannel] @ cs @ [CloseChannel, CloseConnection], r')))"

section \<open>Reports\<close>

lemma overwrite_get:
  assumes "iteration_order ord" "gm_invar m"
  shows "gm_get (overwrite p v ord m) k = (if p k \<and> gm_get m k \<noteq> None then Some v else gm_get m k)"
    and "gm_invar (overwrite p v ord m)"
proof -
  have fold: "gm_get (foldl (\<lambda>m' (k, _). if p k then gm_set k v m' else m') a xs) k =
      (if p k \<and> k \<in> fst ` set xs then Some v else gm_get a k) \<and>
      gm_invar (foldl (\<lambda>m' (k, _). if p k then gm_set k v m' else m') a xs)" if "gm_invar a" for a xs
    using that
  proof (induction xs arbitrary: a)
    case (Cons x xs)
    have "gm_invar (if p (fst x) then gm_set (fst x) v a else a)" using Cons.prems by (simp add: gomap_simps)
    from Cons.IH [OF this] Cons.prems show ?case by (auto simp: gomap_simps case_prod_beta)
  qed simp
  have "k \<in> fst ` set (ord m) \<longleftrightarrow> gm_get m k \<noteq> None"
    unfolding iteration_set [OF assms(1)] gm_get_def by (simp add: map_of_eq_None_iff)
  with fold [OF assms(2), of "ord m"] show "gm_get (overwrite p v ord m) k = (if p k \<and> gm_get m k \<noteq> None then Some v else gm_get m k)"
    by (auto simp: overwrite_def)
  show "gm_invar (overwrite p v ord m)" using fold [OF assms(2), of "ord m"] by (simp add: overwrite_def)
qed

text \<open>The maps of an event are maps.\<close>

definition event_ok :: "'v sentry_event \<Rightarrow> bool" where
  "event_ok e \<longleftrightarrow> gm_invar (se_Extra e) \<and> (case se_Request e of None \<Rightarrow> True | Some r \<Rightarrow> gm_invar (sq_Headers r))"

text \<open>Names that tell of a secret, however they are written.\<close>

definition sensitive_header :: "string \<Rightarrow> bool" where
  "sensitive_header k \<longleftrightarrow> (\<exists>h \<in> {''Authorization'', ''Cookie'', ''Set-Cookie'', ''X-Api-Key''}. to_lower k = to_lower h)"

definition sensitive_extra :: "string \<Rightarrow> bool" where
  "sensitive_extra k \<longleftrightarrow> (\<exists>w \<in> {''password'', ''passwd'', ''token'', ''secret'', ''dsn''}. \<exists>a b. to_lower k = a @ w @ b)"

lemma secret_header_iff: "secret_header k \<longleftrightarrow> sensitive_header k"
proof -
  have "to_lower ''Authorization'' = ''authorization''" "to_lower ''Cookie'' = ''cookie''"
    "to_lower ''Set-Cookie'' = ''set-cookie''" "to_lower ''X-Api-Key'' = ''x-api-key''" by code_simp+
  then show ?thesis by (simp add: secret_header_def sensitive_header_def)
qed

lemma has_infix_ex: "has_infix s w \<longleftrightarrow> (\<exists>a b. s = a @ w @ b)"
proof (induction s)
  case (Cons c s)
  then show ?case by (auto simp: has_prefix_ex Cons_eq_append_conv)
qed simp

lemma secret_extra_iff: "secret_extra k \<longleftrightarrow> sensitive_extra k"
  by (simp add: secret_extra_def sensitive_extra_def has_infix_ex Let_def)

definition no_secrets :: "'v sentry_event \<Rightarrow> bool" where
  "no_secrets e \<longleftrightarrow>
     (case se_Request e of
        None \<Rightarrow> True
      | Some r \<Rightarrow> sq_Data r = [] \<and> sq_QueryString r = [] \<and> sq_Cookies r = [] \<and>
          (\<forall>k v. gm_get (sq_Headers r) k = Some v \<and> sensitive_header k \<longrightarrow> v = ''[Filtered]'')) \<and>
     (\<forall>k v. gm_get (se_Extra e) k = Some v \<and> sensitive_extra k \<longrightarrow> v = AnyString ''[Filtered]'')"

text \<open>What scrubbing leaves as it was: everything but the values that are filtered.\<close>

definition kept :: "'v sentry_event \<Rightarrow> 'v sentry_event \<Rightarrow> bool" where
  "kept e e' \<longleftrightarrow> se_Message e' = se_Message e \<and> se_Tags e' = se_Tags e \<and>
     (\<forall>k. \<not> sensitive_extra k \<longrightarrow> gm_get (se_Extra e') k = gm_get (se_Extra e) k) \<and>
     (\<forall>k. gm_get (se_Extra e') k = None \<longleftrightarrow> gm_get (se_Extra e) k = None) \<and>
     rel_option (\<lambda>r r'. sq_URL r' = sq_URL r \<and> sq_Method r' = sq_Method r \<and>
       (\<forall>k. \<not> sensitive_header k \<longrightarrow> gm_get (sq_Headers r') k = gm_get (sq_Headers r) k) \<and>
       (\<forall>k. gm_get (sq_Headers r') k = None \<longleftrightarrow> gm_get (sq_Headers r) k = None)) (se_Request e) (se_Request e')"

lemma scrub_correct:
  assumes "iteration_order ordH" "iteration_order ordE" "event_ok e"
  shows "\<exists>e'. scrubSentryEvent ordH ordE (Some e) = Some e' \<and> no_secrets e' \<and> kept e e'"
  using assms overwrite_get [OF assms(1)] overwrite_get [OF assms(2)]
  by (cases "se_Request e") (auto simp: scrubSentryEvent_def secret_header_iff secret_extra_iff no_secrets_def kept_def event_ok_def split: if_splits)

lemma interceptor_passes_on: "fst (sentryConnectInterceptor mk next ctx procedure req client) = next ctx req"
  by (auto simp: sentryConnectInterceptor_def split: prod.split option.split)

text \<open>The event of a report, and whether it is one: calls that fail with an expected code are not.\<close>

fun report_event :: "('ctx, 'v) event_maker \<Rightarrow> 'ctx \<Rightarrow> report \<Rightarrow> 'v sentry_event" where
  "report_event mk ctx (FatalReport err stage) = mk ctx err [(''stage'', stage), (''fatal'', ''true'')]"
| "report_event mk ctx (RpcReport procedure code msg) = mk ctx msg [(''procedure'', procedure), (''connect_code'', code_string code)]"
| "report_event mk ctx (PanicReport tags v) = mk ctx v tags"

fun reported :: "report \<Rightarrow> bool" where
  "reported (RpcReport procedure code msg) \<longleftrightarrow> shouldReportConnectError code"
| "reported (FatalReport err stage) \<longleftrightarrow> True"
| "reported (PanicReport tags v) \<longleftrightarrow> True"

lemma report_step_capture:
  "report_step mk ctx r client = (if reported r then capture (report_event mk ctx r) client else client)"
  by (cases r) (simp_all add: captureFatalSentryError_def captureSentryException_def sentryConnectInterceptor_def
      recoverBackgroundPanic_def)

lemma reports_correct:
  assumes ord: "iteration_order ordH" "iteration_order ordE" and mk: "\<forall>ctx e tags. event_ok (mk ctx e tags)"
    and c: "sc_beforeSend c = scrubSentryEvent ordH ordE" "list_all no_secrets (sc_sent c)" "list_all2 kept es (sc_sent c)"
  shows "\<exists>c'. foldl (\<lambda>k r. report_step mk ctx r k) (Some c) rs = Some c' \<and> list_all no_secrets (sc_sent c') \<and>
    list_all2 kept (es @ map (report_event mk ctx) (filter reported rs)) (sc_sent c')"
  using c
proof (induction rs arbitrary: c es)
  case (Cons r rs)
  show ?case
  proof (cases "reported r")
    case True
    let ?e = "report_event mk ctx r"
    have "event_ok ?e" using mk by (cases r) simp_all
    then obtain e' where e': "scrubSentryEvent ordH ordE (Some ?e) = Some e'" "no_secrets e'" "kept ?e e'"
      using scrub_correct [OF ord] by blast
    then have step: "report_step mk ctx r (Some c) = Some (c\<lparr>sc_sent := sc_sent c @ [e']\<rparr>)"
      using True Cons.prems(1) by (simp add: report_step_capture capture_def)
    show ?thesis
      using Cons.IH [of "c\<lparr>sc_sent := sc_sent c @ [e']\<rparr>" "es @ [?e]"] Cons.prems e' True step
      by (simp add: list_all2_appendI)
  qed (use Cons in \<open>simp add: report_step_capture\<close>)
qed auto

text \<open>
  C29. Error reports. Whatever the API reports to Sentry (a fatal error at start-up, a call that failed with an internal, unknown or
  data-loss error, a panic in the background), what leaves the process holds no request body, no query string, no cookies, no
  authorization header and no extra value whose name speaks of a password, a token, a secret or a DSN; everything else of the event,
  its message and tags, leaves unchanged, one event per report in their order.
\<close>

theorem reports_hold_no_secrets:
  assumes "iteration_order ordH" "iteration_order ordE" and "\<forall>ctx e tags. event_ok (mk ctx e tags)"
    and "initializeSentry getenv init ordH ordE release = Some c"
  shows "\<exists>c'. foldl (\<lambda>k r. report_step mk ctx r k) (initializeSentry getenv init ordH ordE release) reports = Some c' \<and>
    list_all no_secrets (sc_sent c') \<and>
    list_all2 kept (map (report_event mk ctx) (filter reported reports)) (sc_sent c')"
proof -
  have "sc_beforeSend c = scrubSentryEvent ordH ordE" "sc_sent c = []"
    using assms(4) by (auto simp: initializeSentry_def Let_def split: if_splits option.splits)
  then show ?thesis using reports_correct [OF assms(1-3), of c "[]" ctx reports] assms(4) by simp
qed

definition example_maker :: "(unit, unit) event_maker" where
  "example_maker ctx e tags = \<lparr>se_Message = e, se_Tags = tags,
     se_Request = Some \<lparr>sq_URL = ''/daq/x'', sq_Method = ''POST'', sq_Data = ''body'', sq_QueryString = ''token=1'', sq_Cookies = ''c'',
       sq_Headers = [(''Accept'', ''*''), (''X-Api-Key'', ''key'')]\<rparr>,
     se_Extra = [(''apiToken'', AnyString ''t''), (''attempt'', AnyOther ())]\<rparr>"

theorem reports_hold_no_secrets_witness:
  "\<exists>c'. foldl (\<lambda>k r. report_step example_maker () r k) (initializeSentry (\<lambda>_. '' https://k@sentry/1 '') (\<lambda>_. None) rev rev ''v1'')
      [RpcReport ''GetGDC'' CodeInternal ''boom'', RpcReport ''GetGDC'' CodeNotFound ''none''] = Some c' \<and>
    list_all no_secrets (sc_sent c') \<and> length (sc_sent c') = 1"
proof -
  have mk: "\<forall>ctx e tags. event_ok (example_maker ctx e tags)"
    by (simp add: event_ok_def example_maker_def gm_invar_def)
  have init: "\<exists>c. initializeSentry (\<lambda>_. '' https://k@sentry/1 '') (\<lambda>_. None) rev rev ''v1'' = Some (c :: unit sentry_client)"
    by (simp add: initializeSentry_def TrimSpace_def is_space_def)
  then obtain c :: "unit sentry_client" where
    c: "initializeSentry (\<lambda>_. '' https://k@sentry/1 '') (\<lambda>_. None) rev rev ''v1'' = Some c" by blast
  show ?thesis
    using reports_hold_no_secrets [OF iteration_order_rev iteration_order_rev mk c, of "()"
        "[RpcReport ''GetGDC'' CodeInternal ''boom'', RpcReport ''GetGDC'' CodeNotFound ''none'']"]
    by (auto simp: shouldReportConnectError_def dest: list_all2_lengthD)
qed

section \<open>The process\<close>

text \<open>The callback is the step of the control model that stands for it, for every message that is not nil.\<close>

lemma api_fn_step: "control_step (ErrorMessage (Some m)) c = Some c' \<Longrightarrow> api_fn (Some m) c = Ok c'"
  by (auto simp: api_fn_def shouldForceStopFromMessage_def split: if_splits)

text \<open>The token the web interface asks for is the one signed at start-up for the user \<open>js\<close>, without an expiry.\<close>

lemma api_main_token:
  assumes "api_main env sv fl = (stages, Returns p)"
  shows "\<exists>cf t. ReadConfigurationFile env (af_config fl) = Inr cf \<and>
    ce_sign (pe_centrifuge env) \<lparr>tc_sub = ''js'', tc_exp = None\<rparr> (cc_Token (cf_Centrifugal cf)) = Inr t \<and>
    GetToken (as_centrifugalToken (ap_server p)) = t \<and> ap_port p = api_port fl \<and> stages = [] \<and>
    control_run (as_control (ap_server p))"
  using assms
  by (auto simp: api_main_def Let_def GetToken_def NewDuckAPIServer_def ConnToken_def control_start
      split: sum.splits outcome.splits exit.splits option.splits)

text \<open>A publication counts as done exactly when every call succeeded and the broker confirmed it, and every connection is closed.\<close>

lemma channel_calls_none: "snd (channel_calls cs) = None \<longleftrightarrow> list_all (\<lambda>c. snd c = None) cs"
  by (induction cs rule: channel_calls.induct) (auto split: prod.splits)

lemma amqp_Publish_confirmed:
  "snd (amqp_Publish am p body) = None \<longleftrightarrow>
     am_dial am = None \<and> am_channel am = None \<and> am_exchange am = None \<and> am_queue am = None \<and> am_bind am = None \<and>
     am_confirm am = None \<and> am_publish am = None \<and> am_wait am = Inr True"
proof -
  have 1: "snd (case x of (cs, r) \<Rightarrow> (f cs, case r of Some err \<Rightarrow> Some err | None \<Rightarrow> g)) = None \<longleftrightarrow> snd x = None \<and> g = None"
    for x :: "amqp_call list \<times> string option" and f :: "amqp_call list \<Rightarrow> amqp_call list" and g
    by (auto split: prod.splits option.splits)
  show ?thesis
    unfolding amqp_Publish_def Let_def
    by (auto simp: 1 channel_calls_none split: option.splits sum.splits if_splits)
qed

lemma amqp_Publish_closes:
  "am_dial am = None \<Longrightarrow> last (fst (amqp_Publish am p body)) = CloseConnection"
  by (auto simp: amqp_Publish_def Let_def split: option.splits prod.splits)

end
