(* ===== verification/Setup_Generator.thy ===== *)
theory Setup_Generator
  imports Process_Start Api_Handlers
begin

text \<open>
  The generators of the container set-ups (\<open>src/docker/e2e/setups/standard/gen-compose.go\<close>,
  \<open>src/docker/e2e/setups/next100/gen-compose-next100.go\<close>): the services of the compose file and the statements of the SQL seed.

  A compose file is the list of its networks and services, a seed the list of its statements, each with the values of its columns;
  how both are laid out as text is not modelled. \<open>run_seed\<close> runs a seed on the tables of \<open>Api_Database\<close>, with the columns, their \<open>INT\<close> and \<open>VARCHAR\<close>
  types and the primary and foreign keys of the script that makes them; a column the seed does not name is NULL.

  The locale \<open>daq_setup\<close> has what the seeds have in common: LDCs with the identifiers of their equipments. Its lemmas, which devices the
  API calls and which equipments an LDC reads, hold for both generators; \<open>daq_network\<close> adds the addresses on the data networks.
\<close>

section \<open>Definitions\<close>

subsection \<open>Parameters\<close>

text \<open>\<open>fmt.Sscanf(v, "%d", &x)\<close>: \<open>x\<close> stays 0 when there is no number or it does not fit.\<close>

definition is_digit :: "char \<Rightarrow> bool" where
  "is_digit c \<longleftrightarrow> (48 :: nat) \<le> of_char c \<and> of_char c \<le> (57 :: nat)"

definition Sscanf_d :: "string \<Rightarrow> int" where
  "Sscanf_d v =
     (let t = dropWhile (\<lambda>c. c = CHR '' '' \<or> c = CHR 0x09) v;
          neg = (t \<noteq> [] \<and> hd t = CHR ''-'');
          u = (if t \<noteq> [] \<and> (hd t = CHR ''-'' \<or> hd t = CHR ''+'') then tl t else t);
          ds = takeWhile is_digit u;
          n = (if neg then - int (read_nat 0 ds) else int (read_nat 0 ds))
      in if ds = [] \<or> n < - (2 ^ 63) \<or> 2 ^ 63 \<le> n then 0 else n)"

definition getenvInt :: "(string \<Rightarrow> string) \<Rightarrow> string \<Rightarrow> int \<Rightarrow> int" where
  "getenvInt getenv key def = (if getenv key \<noteq> [] then Sscanf_d (getenv key) else def)"

definition getenvStr :: "(string \<Rightarrow> string) \<Rightarrow> string \<Rightarrow> string \<Rightarrow> string" where
  "getenvStr getenv key def = (if getenv key \<noteq> [] then getenv key else def)"

record setup_cfg =
  su_L :: int
  su_D :: int
  su_G :: int
  su_DataPrefix :: string
  su_LdcIP :: int
  su_DevIPStart :: int
  su_EqPortBase :: int
  su_GdcTCPPortBase :: int
  su_LdcGRPCPortBase :: int
  su_GdcGRPCPortBase :: int
  su_LdcPromBase :: int
  su_GdcPromBase :: int

definition setup_of_env :: "(string \<Rightarrow> string) \<Rightarrow> setup_cfg" where
  "setup_of_env getenv = \<lparr>
     su_L = getenvInt getenv ''L'' 1,
     su_D = getenvInt getenv ''D'' 1,
     su_G = getenvInt getenv ''G'' 1,
     su_DataPrefix = getenvStr getenv ''DATA_SUBNET_PREFIX'' ''172.30'',
     su_LdcIP = getenvInt getenv ''LDC_DATA_IP_SUFFIX'' 10,
     su_DevIPStart = getenvInt getenv ''DEV_DATA_IP_START'' 20,
     su_EqPortBase = getenvInt getenv ''EQUIPMENT_PORT_BASE'' 6000,
     su_GdcTCPPortBase = getenvInt getenv ''GDC_TCP_PORT_BASE'' 6100,
     su_LdcGRPCPortBase = getenvInt getenv ''LDC_GRPC_PORT_BASE'' 50050,
     su_GdcGRPCPortBase = getenvInt getenv ''GDC_GRPC_PORT_BASE'' 50060,
     su_LdcPromBase = getenvInt getenv ''LDC_PROM_PORT_BASE'' 12110,
     su_GdcPromBase = getenvInt getenv ''GDC_PROM_PORT_BASE'' 12120\<rparr>"

record next100Config =
  nx_DataFile :: string
  nx_FragmentSize :: int
  nx_DataPrefix :: string
  nx_CtrlPrefix :: string
  nx_LdcDataIPSuffix :: int
  nx_DevDataIPStart :: int
  nx_EqPortBase :: int
  nx_GdcTCPPortBase :: int
  nx_LdcGRPCPortBase :: int
  nx_GdcGRPCPortBase :: int
  nx_SimGRPCPortBase :: int
  nx_LdcPromBase :: int
  nx_GdcPromBase :: int
  nx_SimPromBase :: int

definition next100_of_env :: "(string \<Rightarrow> string) \<Rightarrow> next100Config" where
  "next100_of_env getenv = \<lparr>
     nx_DataFile = getenvStr getenv ''NEXT100_DATA_FILE'' ''/app/next100/run_14816.ldc2next.next-100.042.rd'',
     nx_FragmentSize = getenvInt getenv ''NEXT100_FRAGMENT_SIZE'' 7992,
     nx_DataPrefix = getenvStr getenv ''DATA_SUBNET_PREFIX'' ''172.30'',
     nx_CtrlPrefix = getenvStr getenv ''CTRL_SUBNET_PREFIX'' ''172.31'',
     nx_LdcDataIPSuffix = getenvInt getenv ''LDC_DATA_IP_SUFFIX'' 10,
     nx_DevDataIPStart = getenvInt getenv ''DEV_DATA_IP_START'' 20,
     nx_EqPortBase = getenvInt getenv ''EQUIPMENT_PORT_BASE'' 6000,
     nx_GdcTCPPortBase = getenvInt getenv ''GDC_TCP_PORT_BASE'' 6100,
     nx_LdcGRPCPortBase = getenvInt getenv ''LDC_GRPC_PORT_BASE'' 50050,
     nx_GdcGRPCPortBase = getenvInt getenv ''GDC_GRPC_PORT_BASE'' 50060,
     nx_SimGRPCPortBase = getenvInt getenv ''SIM_GRPC_PORT_BASE'' 50070,
     nx_LdcPromBase = getenvInt getenv ''LDC_PROM_PORT_BASE'' 12110,
     nx_GdcPromBase = getenvInt getenv ''GDC_PROM_PORT_BASE'' 12120,
     nx_SimPromBase = getenvInt getenv ''SIM_PROM_PORT_BASE'' 12130\<rparr>"

subsection \<open>Compose files\<close>

text \<open>A service: its name, which is also its host name, its program with the flags, and its networks with the fixed addresses.\<close>

record service =
  cs_name :: string
  cs_program :: string
  cs_flags :: "(string \<times> string) list"
  cs_volumes :: "string list"
  cs_environment :: "(string \<times> string) list"
  cs_networks :: "(string \<times> string option) list"

record compose =
  co_networks :: "(string \<times> string option) list"
  co_services :: "service list"

definition config_flag :: "string \<times> string" where
  "config_flag = (''-config'', ''/app/docker/e2e/configuration.yml'')"

definition ip3 :: "string \<Rightarrow> int \<Rightarrow> int \<Rightarrow> string" where
  "ip3 prefix a b = prefix @ ''.'' @ show_int a @ ''.'' @ show_int b"

definition data_net :: "int \<Rightarrow> string" where
  "data_net i = ''data_ldc_'' @ show_int i"

definition sim_environment :: "(string \<times> string) list" where
  "sim_environment = [(''DB_HOST'', ''mysql''), (''DB_USER'', ''duck''), (''DB_PASS'', ''dummy_password''), (''DB_PORT'', ''3306''),
     (''DB_NAME'', ''duck'')]"

definition mysql_override :: "string \<Rightarrow> service" where
  "mysql_override setup = \<lparr>cs_name = ''mysql'', cs_program = [], cs_flags = [],
     cs_volumes = [''mysql_data:/var/lib/mysql'', ''./setups/'' @ setup @ ''/mysql/init:/docker-entrypoint-initdb.d''],
     cs_environment = [], cs_networks = []\<rparr>"

definition gdc_service :: "string \<Rightarrow> (string \<times> string option) list \<Rightarrow> service" where
  "gdc_service name networks = \<lparr>cs_name = name, cs_program = ''/app/bin/gdcRPC'', cs_flags = [config_flag, (''-name'', name)],
     cs_volumes = [''../data/'' @ name @ '':/data''], cs_environment = [], cs_networks = networks\<rparr>"

definition ldc_service :: "string \<Rightarrow> (string \<times> string option) list \<Rightarrow> service" where
  "ldc_service name networks = \<lparr>cs_name = name, cs_program = ''/app/bin/ldcRPC'', cs_flags = [config_flag],
     cs_volumes = [], cs_environment = [], cs_networks = networks\<rparr>"

definition sim_service :: "int \<Rightarrow> nat \<Rightarrow> int \<Rightarrow> (string \<times> string) list \<Rightarrow> string \<Rightarrow> service" where
  "sim_service ldc k eqID flags ip = \<lparr>cs_name = ''sim-'' @ show_int ldc @ ''-'' @ show_nat k, cs_program = ''/app/bin/deviceSimulator'',
     cs_flags = [config_flag, (''-id'', show_int eqID)] @ flags, cs_volumes = [], cs_environment = sim_environment,
     cs_networks = [(''daq_ctrl'', None), (data_net ldc, Some ip)]\<rparr>"

paragraph \<open>The standard set-up: \<open>L\<close> LDCs with \<open>D\<close> devices each and \<open>G\<close> GDCs\<close>

definition std_eqID :: "setup_cfg \<Rightarrow> int \<Rightarrow> int \<Rightarrow> int" where
  "std_eqID c i j = (i - 1) * su_D c + j"

definition genCompose :: "setup_cfg \<Rightarrow> compose" where
  "genCompose c = \<lparr>
     co_networks = (''daq_ctrl'', None) # map (\<lambda>i. (data_net i, Some (su_DataPrefix c @ ''.'' @ show_int i @ ''.0/24''))) [1..su_L c],
     co_services = mysql_override ''standard'' #
       map (\<lambda>k. gdc_service (''gdc-'' @ show_int k) [(''daq_ctrl'', None)]) [1..su_G c] @
       concat (map (\<lambda>i.
         ldc_service (''ldc-'' @ show_int i) [(''daq_ctrl'', None), (data_net i, Some (ip3 (su_DataPrefix c) i (su_LdcIP c)))] #
         map (\<lambda>j. sim_service i (nat j) (std_eqID c i j) [(''-mode'', ''generate'')] (ip3 (su_DataPrefix c) i (su_DevIPStart c + j)))
           [1..su_D c]) [1..su_L c])\<rparr>"

paragraph \<open>The set-up of NEXT-100\<close>

definition ldcEquipments :: "int \<Rightarrow> int list" where
  "ldcEquipments ldcID =
     (if ldcID = 1 then [16, 17, 18, 19] else if ldcID = 2 then [101, 102, 103] else if ldcID = 3 then [25, 26, 27, 28]
      else if ldcID = 4 then [208, 209, 210, 211] else if ldcID = 5 then [216, 217, 218, 219]
      else if ldcID = 6 then [220, 221, 222, 223] else if ldcID = 7 then [224, 225, 226, 227] else [])"

definition genComposeNext100 :: "next100Config \<Rightarrow> compose" where
  "genComposeNext100 c = \<lparr>
     co_networks = [(''daq_ctrl'', None), (''daq_ctrl_next100'', Some (nx_CtrlPrefix c @ ''.0.0/16''))] @
       map (\<lambda>i. (data_net i, Some (nx_DataPrefix c @ ''.'' @ show_int i @ ''.0/24''))) [1..7],
     co_services =
       [mysql_override ''next100'',
        \<lparr>cs_name = ''api'', cs_program = [], cs_flags = [], cs_volumes = [], cs_environment = [],
         cs_networks = [(''daq_ctrl'', None), (''daq_ctrl_next100'', None)]\<rparr>] @
       map (\<lambda>k. gdc_service (''gdc'' @ show_int k @ ''next'')
         [(''daq_ctrl'', None), (''daq_ctrl_next100'', Some (ip3 (nx_CtrlPrefix c) 11 k))]) [1..7] @
       concat (map (\<lambda>ldcID.
         ldc_service (''ldc'' @ show_int ldcID @ ''next'')
           [(''daq_ctrl'', None), (''daq_ctrl_next100'', Some (ip3 (nx_CtrlPrefix c) 10 ldcID)),
            (data_net ldcID, Some (ip3 (nx_DataPrefix c) ldcID (nx_LdcDataIPSuffix c)))] #
         map (\<lambda>(idx, eqID). sim_service ldcID (idx + 1) eqID [] (ip3 (nx_DataPrefix c) ldcID (nx_DevDataIPStart c + int idx + 1)))
           (enumerate 0 (ldcEquipments ldcID))) [1..7])\<rparr>"

subsection \<open>Seeds\<close>

datatype table = TabSimulatorParams | TabTestDeviceParams | TabEquipments | TabLdcs | TabGdcs | TabRuns | TabDuckParams | TabDecoderParams

datatype sql_stmt = DeleteFrom table | InsertRun int | InsertDuckParams db_Duckparam | InsertDecoderParams db_Decoderparam
  | InsertGdc db_Gdc | InsertLdc db_Ldc | InsertEquipment db_Equipment | InsertSimulatorParams db_Simulatorparam

definition DuplicateKey :: string where
  "DuplicateKey = ''duplicate entry''"

fun delete_from :: "table \<Rightarrow> database \<Rightarrow> database result" where
  "delete_from TabSimulatorParams db = Inr (db\<lparr>db_simulatorParams := []\<rparr>)"
| "delete_from TabTestDeviceParams db = Inr (db\<lparr>db_testDeviceParams := []\<rparr>)"
| "delete_from TabEquipments db =
     (if \<exists>e \<in> set (db_equipments db). er_ID e \<in> sp_Equipmentid ` set (db_simulatorParams db) \<or>
           er_ID e \<in> tp_EquipmentID ` set (db_testDeviceParams db)
      then Inl ForeignKey else Inr (db\<lparr>db_equipments := []\<rparr>))"
| "delete_from TabLdcs db =
     (if \<exists>e \<in> set (db_equipments db). nvalid (er_Ldcid e) \<and> nval (er_Ldcid e) \<in> lr_ID ` set (db_ldcs db)
      then Inl ForeignKey else Inr (db\<lparr>db_ldcs := []\<rparr>))"
| "delete_from TabGdcs db = Inr (db\<lparr>db_gdcs := []\<rparr>)"
| "delete_from TabRuns db = Inr (db\<lparr>db_runs := []\<rparr>)"
| "delete_from TabDuckParams db = Inr (db\<lparr>db_duckParams := []\<rparr>)"
| "delete_from TabDecoderParams db = Inr (db\<lparr>db_decoderParams := []\<rparr>)"

text \<open>An insert with an explicit key moves the auto-increment counter past it.\<close>

fun exec_stmt :: "sql_stmt \<Rightarrow> database \<Rightarrow> database result" where
  "exec_stmt (DeleteFrom t) db = delete_from t db"
| "exec_stmt (InsertRun i) db =
     (if i \<in> ru_ID ` set (db_runs db) then Inl DuplicateKey
      else Inr (db\<lparr>db_runs := db_runs db @ [\<lparr>ru_ID = i, ru_Start = SqlNull 0 False, ru_Stop = SqlNull 0 False\<rparr>],
                   db_next_run := max (db_next_run db) (i + 1)\<rparr>))"
| "exec_stmt (InsertDuckParams r) db = Inr (db\<lparr>db_duckParams := db_duckParams db @ [r]\<rparr>)"
| "exec_stmt (InsertDecoderParams r) db = Inr (db\<lparr>db_decoderParams := db_decoderParams db @ [r]\<rparr>)"
| "exec_stmt (InsertGdc g) db =
     (if gr_ID g \<in> gr_ID ` set (db_gdcs db) then Inl DuplicateKey
      else Inr (db\<lparr>db_gdcs := db_gdcs db @ [g], db_next_gdc := max (db_next_gdc db) (gr_ID g + 1)\<rparr>))"
| "exec_stmt (InsertLdc l) db =
     (if lr_ID l \<in> lr_ID ` set (db_ldcs db) then Inl DuplicateKey
      else Inr (db\<lparr>db_ldcs := db_ldcs db @ [l], db_next_ldc := max (db_next_ldc db) (lr_ID l + 1)\<rparr>))"
| "exec_stmt (InsertEquipment e) db =
     (if er_ID e \<in> er_ID ` set (db_equipments db) then Inl DuplicateKey
      else if nvalid (er_Ldcid e) \<and> nval (er_Ldcid e) \<notin> lr_ID ` set (db_ldcs db) then Inl ForeignKey
      else Inr (db\<lparr>db_equipments := db_equipments db @ [e], db_next_equipment := max (db_next_equipment db) (er_ID e + 1)\<rparr>))"
| "exec_stmt (InsertSimulatorParams p) db =
     (if sp_Equipmentid p \<in> sp_Equipmentid ` set (db_simulatorParams db) then Inl DuplicateKey
      else if sp_Equipmentid p \<notin> er_ID ` set (db_equipments db) then Inl ForeignKey
      else Inr (db\<lparr>db_simulatorParams := db_simulatorParams db @ [p]\<rparr>))"

text \<open>
  The types of the columns: \<open>INT\<close> and \<open>VARCHAR(n)\<close>. The server runs in its default strict mode, in which a value that does not fit is an
  error. The generators write texts between quotes as they are; a text with a quote or a backslash counts as one that does not fit.
\<close>

definition int_column :: "int \<Rightarrow> bool" where
  "int_column v \<longleftrightarrow> - (2 ^ 31) \<le> v \<and> v < 2 ^ 31"

definition plain :: "string \<Rightarrow> bool" where
  "plain s \<longleftrightarrow> CHR 0x27 \<notin> set s \<and> CHR 0x5C \<notin> set s"

definition varchar :: "nat \<Rightarrow> string \<Rightarrow> bool" where
  "varchar n s \<longleftrightarrow> length s \<le> n \<and> plain s"

fun row_fits :: "sql_stmt \<Rightarrow> bool" where
  "row_fits (DeleteFrom t) \<longleftrightarrow> True"
| "row_fits (InsertRun i) \<longleftrightarrow> int_column i"
| "row_fits (InsertDuckParams r) \<longleftrightarrow> list_all int_column [up_Filesize r, up_Packetsize r, up_Npacketsinbuffer r, up_Buffertimeout r,
     up_Equipmentdatach r, up_Receivech r, up_Datach r, up_Metricsch r, up_Tcpconnectionsch r, up_Decoderch r, up_Decoderworkers r,
     up_Writerch r] \<and> varchar 100 (up_Experiment r)"
| "row_fits (InsertDecoderParams r) \<longleftrightarrow>
     list_all int_column [dp_ExtTrigger r, dp_TrgCode1 r, dp_TrgCode2 r, dp_CompressionLevel r] \<and>
     list_all (varchar 100) [dp_Host r, dp_User r, dp_Passwd r, dp_DbName r, dp_BloscAlgorithm r, dp_BitShuffle r]"
| "row_fits (InsertGdc g) \<longleftrightarrow>
     list_all int_column [gr_ID g, nval (gr_Port g), nval (gr_GrpcPort g), nval (gr_PrometheusPort g)] \<and>
     list_all (varchar 100) [nval (gr_Name g), nval (gr_Hostname g), nval (gr_Ip g)] \<and> varchar 500 (nval (gr_Datapath g))"
| "row_fits (InsertLdc l) \<longleftrightarrow> list_all int_column [lr_ID l, nval (lr_GrpcPort l), nval (lr_PrometheusPort l)] \<and>
     list_all (varchar 100) [nval (lr_Name l), nval (lr_Hostname l), nval (lr_Ip l)]"
| "row_fits (InsertEquipment e) \<longleftrightarrow>
     list_all int_column [er_ID e, nval (er_Type e), nval (er_HostPort e), nval (er_Ldcid e)] \<and>
     list_all (varchar 100) [nval (er_DeviceIp e), nval (er_HostIp e)]"
| "row_fits (InsertSimulatorParams p) \<longleftrightarrow> list_all int_column [sp_Equipmentid p, sp_Maxevents p, sp_Packetsize p] \<and>
     varchar 512 (sp_Filepath p)"

text \<open>
  The columns of the tables that the shared script \<open>01-schema.sql\<close> makes, those that a statement of the seeds names, and those that the
  queries for the configuration select (the constants of \<open>src/pkg/database\<close>). Their case does not matter; all are in lower case. A
  statement that names a column which is not there is an error.
\<close>

type_synonym columns = "table \<Rightarrow> string list"

fun e2e_schema :: columns where
  "e2e_schema TabRuns = [''id'', ''start'', ''stop'']"
| "e2e_schema TabLdcs = [''id'', ''name'', ''hostname'', ''ip'', ''grpc_port'', ''prometheus_port'', ''enabled'']"
| "e2e_schema TabGdcs = [''id'', ''name'', ''hostname'', ''ip'', ''port'', ''grpc_port'', ''prometheus_port'', ''datapath'', ''enabled'',
     ''writeoutput'', ''decode'']"
| "e2e_schema TabEquipments = [''id'', ''type'', ''device_ip'', ''host_ip'', ''host_port'', ''enabled'', ''ldcid'']"
| "e2e_schema TabDuckParams = [''filesize'', ''experiment'', ''packetsize'', ''npacketsinbuffer'', ''buffertimeout'', ''equipmentdatach'',
     ''receivech'', ''datach'', ''metricsch'', ''tcpconnectionsch'', ''decoderch'', ''decoderworkers'', ''writerch'']"
| "e2e_schema TabDecoderParams = [''ext_trigger'', ''trg_code_1'', ''trg_code_2'', ''read_pmts'', ''read_sipms'', ''read_trigger'',
     ''split_trigger'', ''no_db'', ''discard'', ''host'', ''user'', ''passwd'', ''db_name'', ''write_data'', ''use_blosc'', ''blosc_algorithm'',
     ''compression_level'', ''bit_shuffle'']"
| "e2e_schema TabTestDeviceParams = [''equipment_id'', ''event_rate_ms'', ''packets_per_event'', ''packet_size'', ''error_injection_rate'',
     ''max_events'']"
| "e2e_schema TabSimulatorParams = [''equipmentid'', ''filepath'', ''ratehz'', ''loopmode'', ''maxevents'', ''packetsize'']"

fun seed_columns :: "sql_stmt \<Rightarrow> table \<times> string list" where
  "seed_columns (DeleteFrom t) = (t, [])"
| "seed_columns (InsertRun i) = (TabRuns, [''id'', ''start'', ''stop''])"
| "seed_columns (InsertDuckParams r) = (TabDuckParams, [''filesize'', ''experiment'', ''packetsize'', ''npacketsinbuffer'', ''buffertimeout'',
     ''equipmentdatach'', ''receivech'', ''datach'', ''metricsch'', ''tcpconnectionsch'', ''decoderch'', ''decoderworkers'', ''writerch''])"
| "seed_columns (InsertDecoderParams r) = (TabDecoderParams, [''ext_trigger'', ''trg_code_1'', ''trg_code_2'', ''read_pmts'', ''read_sipms'',
     ''read_trigger'', ''split_trigger'', ''no_db'', ''discard'', ''host'', ''user'', ''passwd'', ''db_name'', ''write_data'', ''use_blosc'',
     ''blosc_algorithm'', ''compression_level'', ''bit_shuffle''])"
| "seed_columns (InsertGdc r) = (TabGdcs, [''id'', ''name'', ''hostname'', ''ip'', ''port'', ''grpc_port'', ''prometheus_port'', ''datapath'',
     ''enabled'', ''writeoutput'', ''decode''])"
| "seed_columns (InsertLdc r) = (TabLdcs, [''id'', ''name'', ''hostname'', ''ip'', ''grpc_port'', ''prometheus_port'', ''enabled''])"
| "seed_columns (InsertEquipment r) = (TabEquipments, [''id'', ''type'', ''device_ip'', ''host_ip'', ''host_port'', ''enabled'', ''ldcid''])"
| "seed_columns (InsertSimulatorParams r) = (TabSimulatorParams, [''equipmentid'', ''filepath'', ''ratehz'', ''loopmode'', ''maxevents'',
     ''packetsize''])"

definition listGDCs_columns :: "table \<times> string list" where
  "listGDCs_columns = (TabGdcs, [''id'', ''name'', ''hostname'', ''ip'', ''port'', ''grpc_port'', ''prometheus_port'', ''datapath'', ''enabled'',
     ''writeoutput'', ''decode''])"

definition listLDCs_columns :: "table \<times> string list" where
  "listLDCs_columns = (TabLdcs, [''id'', ''name'', ''hostname'', ''ip'', ''grpc_port'', ''prometheus_port'', ''enabled''])"

definition listEquipments_columns :: "table \<times> string list" where
  "listEquipments_columns = (TabEquipments, [''id'', ''type'', ''device_ip'', ''host_ip'', ''host_port'', ''enabled'', ''ldcid''])"

definition getLatestRun_columns :: "table \<times> string list" where
  "getLatestRun_columns = (TabRuns, [''id''])"

definition getDuckParams_columns :: "table \<times> string list" where
  "getDuckParams_columns = (TabDuckParams, [''filesize'', ''experiment'', ''packetsize'', ''npacketsinbuffer'', ''buffertimeout'',
     ''equipmentdatach'', ''receivech'', ''datach'', ''metricsch'', ''tcpconnectionsch'', ''decoderch'', ''decoderworkers'', ''writerch''])"

definition getDecoderParams_columns :: "table \<times> string list" where
  "getDecoderParams_columns = (TabDecoderParams, [''ext_trigger'', ''trg_code_1'', ''trg_code_2'', ''read_pmts'', ''read_sipms'',
     ''read_trigger'', ''read_fibers'', ''split_trigger'', ''no_db'', ''discard'', ''host'', ''user'', ''passwd'', ''db_name'',
     ''write_data'', ''use_blosc'', ''blosc_algorithm'', ''compression_level'', ''bit_shuffle''])"

definition getTestDeviceParams_columns :: "table \<times> string list" where
  "getTestDeviceParams_columns = (TabTestDeviceParams, [''equipment_id'', ''event_rate_ms'', ''packets_per_event'', ''packet_size'',
     ''error_injection_rate'', ''max_events''])"

definition query_columns :: "(string \<times> table \<times> string list) list" where
  "query_columns = [(''ListGDCs'', listGDCs_columns), (''ListLDCs'', listLDCs_columns), (''ListEquipments'', listEquipments_columns),
     (''GetLatestRun'', getLatestRun_columns), (''GetDuckParams'', getDuckParams_columns), (''GetDecoderParams'', getDecoderParams_columns),
     (''GetTestDeviceParams'', getTestDeviceParams_columns)]"

definition unknown_column :: "columns \<Rightarrow> table \<times> string list \<Rightarrow> string option" where
  "unknown_column cols = (\<lambda>(t, cs). map_option (\<lambda>c. ''unknown column '' @ c) (find (\<lambda>c. c \<notin> set (cols t)) cs))"

definition schema_faults :: "columns \<Rightarrow> faults" where
  "schema_faults cols name = (case map_of query_columns name of None \<Rightarrow> None | Some q \<Rightarrow> unknown_column cols q)"

fun run_seed :: "columns \<Rightarrow> sql_stmt list \<Rightarrow> database \<Rightarrow> database result" where
  "run_seed cols [] db = Inr db"
| "run_seed cols (s # ss) db =
     (case unknown_column cols (seed_columns s) of
        Some err \<Rightarrow> Inl err
      | None \<Rightarrow> if row_fits s then bind_result (exec_stmt s db) (run_seed cols ss) else Inl ''value out of range or too long'')"

definition null_bool :: "bool sql_null" where
  "null_bool = SqlNull False False"

paragraph \<open>The standard seed\<close>

definition std_duckParams :: db_Duckparam where
  "std_duckParams = \<lparr>up_Filesize = 100000000, up_Experiment = ''DEV'', up_Packetsize = 500, up_Npacketsinbuffer = 4096,
     up_Buffertimeout = 30, up_Equipmentdatach = 1024, up_Receivech = 1024, up_Datach = 8192, up_Metricsch = 1024,
     up_Tcpconnectionsch = 64, up_Decoderch = 1024, up_Decoderworkers = 2, up_Writerch = 1024\<rparr>"

definition std_decoderParams :: db_Decoderparam where
  "std_decoderParams = \<lparr>dp_ExtTrigger = 0, dp_TrgCode1 = 0, dp_TrgCode2 = 0, dp_ReadPmts = SqlNull False True,
     dp_ReadSipms = SqlNull False True, dp_ReadTrigger = SqlNull False True, dp_ReadFibers = null_bool,
     dp_SplitTrigger = SqlNull False True, dp_NoDb = SqlNull True True, dp_Discard = SqlNull False True,
     dp_Host = ''localhost'', dp_User = ''duck'', dp_Passwd = ''dummy_password'', dp_DbName = ''duck'',
     dp_WriteData = SqlNull False True, dp_UseBlosc = SqlNull False True, dp_BloscAlgorithm = ''lz4'', dp_CompressionLevel = 1,
     dp_BitShuffle = ''none''\<rparr>"

definition std_gdc_row :: "setup_cfg \<Rightarrow> int \<Rightarrow> db_Gdc" where
  "std_gdc_row c k =
     (let name = ''gdc-'' @ show_int k
      in \<lparr>gr_ID = k, gr_Name = SqlNull name True, gr_Hostname = SqlNull name True, gr_Ip = SqlNull name True,
          gr_Port = SqlNull (su_GdcTCPPortBase c + k - 1) True, gr_GrpcPort = SqlNull (su_GdcGRPCPortBase c + k - 1) True,
          gr_PrometheusPort = SqlNull (su_GdcPromBase c + k - 1) True, gr_Datapath = SqlNull ''/data'' True,
          gr_Enabled = SqlNull True True, gr_Writeoutput = SqlNull True True, gr_Decode = SqlNull False True\<rparr>)"

definition std_ldc_row :: "setup_cfg \<Rightarrow> int \<Rightarrow> db_Ldc" where
  "std_ldc_row c i =
     (let name = ''ldc-'' @ show_int i
      in \<lparr>lr_ID = i, lr_Name = SqlNull name True, lr_Hostname = SqlNull name True, lr_Ip = SqlNull name True,
          lr_GrpcPort = SqlNull (su_LdcGRPCPortBase c + i - 1) True, lr_PrometheusPort = SqlNull (su_LdcPromBase c + i - 1) True,
          lr_Enabled = SqlNull True True\<rparr>)"

definition equipment_row :: "int \<Rightarrow> string \<Rightarrow> string \<Rightarrow> int \<Rightarrow> int \<Rightarrow> db_Equipment" where
  "equipment_row eqID devIP hostIP port ldc = \<lparr>er_ID = eqID, er_Type = SqlNull 22 True, er_DeviceIp = SqlNull devIP True,
     er_HostIp = SqlNull hostIP True, er_HostPort = SqlNull port True, er_Enabled = SqlNull True True, er_Ldcid = SqlNull ldc True\<rparr>"

definition std_eq_row :: "setup_cfg \<Rightarrow> int \<Rightarrow> int \<Rightarrow> db_Equipment" where
  "std_eq_row c i j = equipment_row (std_eqID c i j) (ip3 (su_DataPrefix c) i (su_DevIPStart c + j))
     (ip3 (su_DataPrefix c) i (su_LdcIP c)) (su_EqPortBase c + j - 1) i"

definition sim_row :: "int \<Rightarrow> string \<Rightarrow> int \<Rightarrow> db_Simulatorparam" where
  "sim_row eqID filePath packetSize = \<lparr>sp_Equipmentid = eqID, sp_Filepath = filePath, sp_Replayrate = 1 / 10, sp_Loopmode = True,
     sp_Maxevents = 0, sp_Packetsize = packetSize\<rparr>"

definition genSeedSQL :: "setup_cfg \<Rightarrow> sql_stmt list" where
  "genSeedSQL c =
     map DeleteFrom [TabTestDeviceParams, TabEquipments, TabLdcs, TabGdcs, TabRuns, TabDuckParams, TabDecoderParams] @
     [InsertRun 1, InsertDuckParams std_duckParams, InsertDecoderParams std_decoderParams] @
     map (\<lambda>k. InsertGdc (std_gdc_row c k)) [1..su_G c] @
     concat (map (\<lambda>i. InsertLdc (std_ldc_row c i) #
       concat (map (\<lambda>j. [InsertEquipment (std_eq_row c i j), InsertSimulatorParams (sim_row (std_eqID c i j) ''/app/data/test-data.rd'' 500)])
         [1..su_D c])) [1..su_L c])"

paragraph \<open>The seed of NEXT-100\<close>

definition next100_duckParams :: db_Duckparam where
  "next100_duckParams = \<lparr>up_Filesize = 500000000, up_Experiment = ''next-100'', up_Packetsize = 9500, up_Npacketsinbuffer = 50000,
     up_Buffertimeout = 30, up_Equipmentdatach = 10000, up_Receivech = 10000, up_Datach = 1000, up_Metricsch = 1000,
     up_Tcpconnectionsch = 1000, up_Decoderch = 1000, up_Decoderworkers = 15, up_Writerch = 1000\<rparr>"

definition next100_decoderParams :: db_Decoderparam where
  "next100_decoderParams = \<lparr>dp_ExtTrigger = 15, dp_TrgCode1 = 1, dp_TrgCode2 = 9, dp_ReadPmts = SqlNull True True,
     dp_ReadSipms = SqlNull True True, dp_ReadTrigger = SqlNull True True, dp_ReadFibers = null_bool,
     dp_SplitTrigger = SqlNull True True, dp_NoDb = SqlNull False True, dp_Discard = SqlNull False True,
     dp_Host = ''mysql'', dp_User = ''duck'', dp_Passwd = ''dummy_password'', dp_DbName = ''NEXT100DB'',
     dp_WriteData = SqlNull False True, dp_UseBlosc = SqlNull True True, dp_BloscAlgorithm = ''lz4'', dp_CompressionLevel = 4,
     dp_BitShuffle = ''bit-shuffle''\<rparr>"

definition next100_gdc_row :: "next100Config \<Rightarrow> int \<Rightarrow> db_Gdc" where
  "next100_gdc_row c k =
     (let name = ''gdc'' @ show_int k @ ''next''
      in \<lparr>gr_ID = k, gr_Name = SqlNull name True, gr_Hostname = SqlNull name True, gr_Ip = SqlNull (ip3 (nx_CtrlPrefix c) 11 k) True,
          gr_Port = SqlNull (nx_GdcTCPPortBase c + k - 1) True, gr_GrpcPort = SqlNull (nx_GdcGRPCPortBase c + k - 1) True,
          gr_PrometheusPort = SqlNull (nx_GdcPromBase c + k - 1) True, gr_Datapath = SqlNull ''/data'' True,
          gr_Enabled = SqlNull True True, gr_Writeoutput = SqlNull True True, gr_Decode = SqlNull True True\<rparr>)"

definition next100_ldc_row :: "next100Config \<Rightarrow> int \<Rightarrow> db_Ldc" where
  "next100_ldc_row c i =
     (let name = ''ldc'' @ show_int i @ ''next''
      in \<lparr>lr_ID = i, lr_Name = SqlNull name True, lr_Hostname = SqlNull name True, lr_Ip = SqlNull (ip3 (nx_CtrlPrefix c) 10 i) True,
          lr_GrpcPort = SqlNull (nx_LdcGRPCPortBase c + i - 1) True, lr_PrometheusPort = SqlNull (nx_LdcPromBase c + i - 1) True,
          lr_Enabled = SqlNull True True\<rparr>)"

definition next100_eq_row :: "next100Config \<Rightarrow> int \<Rightarrow> nat \<Rightarrow> int \<Rightarrow> db_Equipment" where
  "next100_eq_row c ldcID idx eqID = equipment_row eqID (ip3 (nx_DataPrefix c) ldcID (nx_DevDataIPStart c + int idx + 1))
     (ip3 (nx_DataPrefix c) ldcID (nx_LdcDataIPSuffix c)) (nx_EqPortBase c + int idx) ldcID"

definition genSeedSQLNext100 :: "next100Config \<Rightarrow> sql_stmt list" where
  "genSeedSQLNext100 c =
     map DeleteFrom [TabSimulatorParams, TabTestDeviceParams, TabEquipments, TabLdcs, TabGdcs, TabRuns, TabDuckParams, TabDecoderParams] @
     [InsertRun 14815, InsertDuckParams next100_duckParams, InsertDecoderParams next100_decoderParams] @
     map (\<lambda>k. InsertGdc (next100_gdc_row c k)) [1..7] @
     concat (map (\<lambda>ldcID. InsertLdc (next100_ldc_row c ldcID) #
       map (\<lambda>(idx, eqID). InsertEquipment (next100_eq_row c ldcID idx eqID)) (enumerate 0 (ldcEquipments ldcID))) [1..7]) @
     concat (map (\<lambda>ldcID. map (\<lambda>eqID. InsertSimulatorParams (sim_row eqID (nx_DataFile c) (nx_FragmentSize c))) (ldcEquipments ldcID))
       [1..7])"

subsection \<open>Files\<close>

text \<open>
  The scripts that every set-up shares are copied beside the seed; a file that cannot be read or created is left out with a warning.
\<close>

type_synonym files = "string \<Rightarrow> string option"

definition path_Join :: "string \<Rightarrow> string \<Rightarrow> string" where
  "path_Join dir f = dir @ ''/'' @ f"

definition copyFile :: "(string \<Rightarrow> bool) \<Rightarrow> string \<Rightarrow> string \<Rightarrow> files \<Rightarrow> files" where
  "copyFile creates src dst fs =
     (case fs src of None \<Rightarrow> fs | Some data \<Rightarrow> if creates dst then fs(dst \<mapsto> data) else fs)"

definition setupInitDir :: string where
  "setupInitDir = ''docker/e2e/setups/standard/mysql/init''"

definition commonInitDir :: string where
  "commonInitDir = ''docker/e2e/mysql/init''"

definition copyCommonInitFiles :: "(string \<Rightarrow> bool) \<Rightarrow> files \<Rightarrow> files" where
  "copyCommonInitFiles creates fs =
     fold (\<lambda>f. copyFile creates (path_Join commonInitDir f) (path_Join setupInitDir f)) [''01-schema.sql'', ''02-users.sql''] fs"

definition next100SetupInitDir :: string where
  "next100SetupInitDir = ''docker/e2e/setups/next100/mysql/init''"

definition next100DecoderDir :: string where
  "next100DecoderDir = ''docker/e2e/mysql/decoder''"

definition copyCommonInitFilesNext100 :: "(string \<Rightarrow> bool) \<Rightarrow> files \<Rightarrow> files" where
  "copyCommonInitFilesNext100 creates fs =
     (let fs1 = fold (\<lambda>f fs. fs(path_Join next100SetupInitDir f := None))
            [''04-00-create-next100db.sql'', ''04-ChannelMapping.sql'', ''04-HuffmanCodesPmt.sql'', ''04-HuffmanCodesSipm.sql''] fs;
          fs2 = fold (\<lambda>f. copyFile creates (path_Join commonInitDir f) (path_Join next100SetupInitDir f))
            [''01-schema.sql'', ''02-users.sql''] fs1
      in fold (\<lambda>(src, dst). copyFile creates (path_Join next100DecoderDir src) (path_Join next100SetupInitDir dst))
           [(''00-create-next100db.sql'', ''04-create-next100db.sql''), (''ChannelMapping.sql'', ''05-ChannelMapping.sql''),
            (''HuffmanCodesPmt.sql'', ''06-HuffmanCodesPmt.sql''), (''HuffmanCodesSipm.sql'', ''07-HuffmanCodesSipm.sql'')] fs2)"

section \<open>Decimal numbers\<close>

lemma show_nat_digits: "c \<in> set (show_nat n) \<Longrightarrow> is_digit c"
proof (induction n rule: show_nat.induct)
  case (1 n)
  have digit: "is_digit (digit_char d)" if "d < 10" for d
    using of_char_digit [OF that] that by (simp add: is_digit_def)
  have "is_digit (digit_char (n mod 10))" by (rule digit) simp
  with 1 digit [of n] show ?case by (subst (asm) (2) show_nat.simps) (auto split: if_splits simp del: show_nat.simps)
qed

lemma show_nat_nonempty: "show_nat n \<noteq> []"
  by (subst show_nat.simps) simp

lemma minus_no_digit: "\<not> is_digit (CHR ''-'')"
  by (simp add: is_digit_def)

lemma hd_show_nat: "hd (show_nat n) \<noteq> CHR ''-''"
  using show_nat_digits [of "hd (show_nat n)" n] show_nat_nonempty [of n] minus_no_digit by auto

lemma show_int_inject [simp]: "show_int a = show_int b \<longleftrightarrow> a = b"
  using hd_show_nat [of "nat a"] hd_show_nat [of "nat b"]
  by (auto simp: show_int_def split: if_splits) (metis list.sel(1))+

lemma length_show_nat: "n < 10 ^ d \<Longrightarrow> 0 < d \<Longrightarrow> length (show_nat n) \<le> d"
proof (induction d arbitrary: n)
  case (Suc d)
  show ?case
  proof (cases "n < 10")
    case False
    with Suc.prems have "d \<noteq> 0" "n div 10 < 10 ^ d" by (auto simp: div_less_iff_less_mult mult.commute intro: ccontr)
    with Suc.IH [of "n div 10"] False show ?thesis by (subst show_nat.simps) simp
  qed (subst show_nat.simps, simp)
qed simp

lemma length_show_int: "0 \<le> i \<Longrightarrow> i < 10 ^ d \<Longrightarrow> 0 < d \<Longrightarrow> length (show_int i) \<le> d"
  using length_show_nat [of "nat i" d] by (simp add: show_int_def nat_less_iff)

lemma show_int_chars: "c \<in> set (show_int i) \<Longrightarrow> is_digit c \<or> c = CHR ''-''"
  using show_nat_digits by (auto simp: show_int_def split: if_splits)

lemma plain_simps [simp]:
  "plain []" "plain (xs @ ys) \<longleftrightarrow> plain xs \<and> plain ys" "plain (c # xs) \<longleftrightarrow> c \<noteq> CHR 0x27 \<and> c \<noteq> CHR 0x5C \<and> plain xs"
  "plain (show_int i)"
  using show_int_chars [of "CHR 0x27" i] show_int_chars [of "CHR 0x5C" i] by (auto simp: plain_def is_digit_def)

lemma dot_split: "xs @ CHR ''.'' # show_int a = ys @ CHR ''.'' # show_int b \<longleftrightarrow> xs = ys \<and> a = b"
proof
  have last: "takeWhile (\<lambda>c. c \<noteq> CHR ''.'') (rev (xs @ CHR ''.'' # show_int a)) = rev (show_int a)" for xs a
    using show_int_chars [of "CHR ''.''" a] by (subst rev_append, simp, subst takeWhile_append2) (auto simp: is_digit_def)
  assume eq: "xs @ CHR ''.'' # show_int a = ys @ CHR ''.'' # show_int b"
  then have "a = b" using last [of xs a] last [of ys b] by simp
  with eq show "xs = ys \<and> a = b" by simp
qed simp

lemma ip3_inject [simp]: "ip3 p a b = ip3 q a' b' \<longleftrightarrow> p = q \<and> a = a' \<and> b = b'"
  using dot_split [of "p @ CHR ''.'' # show_int a" b "q @ CHR ''.'' # show_int a'" b'] dot_split [of p a q a'] by (auto simp: ip3_def)

text \<open>A flag with a number; one that is not there is 0.\<close>

definition flag_int :: "string \<Rightarrow> int" where
  "flag_int s = (if s = [] then 0 else if hd s = CHR ''-'' then - int (read_nat 0 (tl s)) else int (read_nat 0 s))"

lemma flag_int_show [simp]: "flag_int (show_int i) = i"
  using hd_show_nat [of "nat i"] show_nat_nonempty [of "nat i"] by (simp add: flag_int_def show_int_def)

section \<open>Running a seed\<close>

lemmas query_columns_defs = query_columns_def listGDCs_columns_def listLDCs_columns_def listEquipments_columns_def
  getLatestRun_columns_def getDuckParams_columns_def getDecoderParams_columns_def getTestDeviceParams_columns_def

definition schema_db :: database where
  "schema_db = \<lparr>db_gdcs = [], db_next_gdc = 1, db_ldcs = [], db_next_ldc = 1, db_equipments = [], db_next_equipment = 1,
     db_runs = [], db_next_run = 1, db_events = [], db_data = [], db_errors = [], db_duckParams = [], db_decoderParams = [],
     db_testDeviceParams = [], db_simulatorParams = [], db_topiParams = None, db_rates = []\<rparr>"

text \<open>Without the checks of the columns: the seeds name only columns that are there, with values that fit.\<close>

fun exec_seed :: "sql_stmt list \<Rightarrow> database \<Rightarrow> database result" where
  "exec_seed [] db = Inr db"
| "exec_seed (s # ss) db = bind_result (exec_stmt s db) (exec_seed ss)"

lemma seed_columns_known:
  assumes "\<And>t. set (e2e_schema t) \<subseteq> set (cols t)"
  shows "unknown_column cols (seed_columns s) = None"
proof -
  have "set (snd (seed_columns s)) \<subseteq> set (e2e_schema (fst (seed_columns s)))" by (cases s) simp_all
  with assms show ?thesis by (fastforce simp: unknown_column_def find_None_iff case_prod_unfold)
qed

lemma run_seed_exec:
  assumes "\<And>t. set (e2e_schema t) \<subseteq> set (cols t)"
  shows "list_all row_fits ss \<Longrightarrow> run_seed cols ss db = exec_seed ss db"
proof (induction ss arbitrary: db)
  case (Cons s ss)
  then show ?case by (cases "exec_stmt s db") (simp_all add: seed_columns_known [OF assms])
qed simp

lemma run_seed_fits: "run_seed cols ss db = Inr db' \<Longrightarrow> list_all row_fits ss"
proof (induction ss arbitrary: db)
  case (Cons s ss)
  then show ?case by (cases "exec_stmt s db") (auto split: option.splits if_splits)
qed simp

lemma exec_seed_append: "exec_seed (xs @ ys) db = bind_result (exec_seed xs db) (exec_seed ys)"
proof (induction xs arbitrary: db)
  case (Cons x xs)
  then show ?case by (cases "exec_stmt x db") simp_all
qed simp

text \<open>Rows added to the tables of LDCs, equipments and simulators, the rest of the configuration as before.\<close>

definition grown :: "database \<Rightarrow> db_Ldc list \<Rightarrow> db_Equipment list \<Rightarrow> db_Simulatorparam list \<Rightarrow> database \<Rightarrow> bool" where
  "grown db ls es ps db' \<longleftrightarrow> db_ldcs db' = db_ldcs db @ ls \<and> db_equipments db' = db_equipments db @ es \<and>
     db_simulatorParams db' = db_simulatorParams db @ ps \<and> db_gdcs db' = db_gdcs db \<and> db_runs db' = db_runs db \<and>
     db_duckParams db' = db_duckParams db \<and> db_decoderParams db' = db_decoderParams db \<and>
     db_testDeviceParams db' = db_testDeviceParams db"

lemma grown_trans: "grown a ls es ps b \<Longrightarrow> grown b ls' es' ps' c \<Longrightarrow> grown a (ls @ ls') (es @ es') (ps @ ps') c"
  by (simp add: grown_def)

lemma exec_gdcs:
  "distinct (map gr_ID (db_gdcs db @ gs)) \<Longrightarrow>
   \<exists>db'. exec_seed (map InsertGdc gs) db = Inr db' \<and> db_gdcs db' = db_gdcs db @ gs \<and>
     db_ldcs db' = db_ldcs db \<and> db_equipments db' = db_equipments db \<and> db_simulatorParams db' = db_simulatorParams db \<and>
     db_runs db' = db_runs db \<and> db_duckParams db' = db_duckParams db \<and> db_decoderParams db' = db_decoderParams db \<and>
     db_testDeviceParams db' = db_testDeviceParams db"
proof (induction gs arbitrary: db)
  case (Cons g gs)
  let ?db = "db\<lparr>db_gdcs := db_gdcs db @ [g], db_next_gdc := max (db_next_gdc db) (gr_ID g + 1)\<rparr>"
  have "exec_stmt (InsertGdc g) db = Inr ?db" using Cons.prems by auto
  with Cons.IH [of ?db] Cons.prems show ?case by simp
qed simp

lemma exec_simulators:
  "distinct (map sp_Equipmentid (db_simulatorParams db @ ps)) \<Longrightarrow> sp_Equipmentid ` set ps \<subseteq> er_ID ` set (db_equipments db) \<Longrightarrow>
   \<exists>db'. exec_seed (map InsertSimulatorParams ps) db = Inr db' \<and> grown db [] [] ps db'"
proof (induction ps arbitrary: db)
  case (Cons p ps)
  let ?db = "db\<lparr>db_simulatorParams := db_simulatorParams db @ [p]\<rparr>"
  have "exec_stmt (InsertSimulatorParams p) db = Inr ?db" using Cons.prems by auto
  with Cons.IH [of ?db] Cons.prems show ?case by (auto simp: grown_def)
qed (simp add: grown_def)

text \<open>The equipments of one LDC, each with the parameters of its simulator or without.\<close>

type_synonym device_rows = "db_Equipment \<times> db_Simulatorparam list"

definition device_stmts :: "device_rows list \<Rightarrow> sql_stmt list" where
  "device_stmts ds = concat (map (\<lambda>(e, ps). InsertEquipment e # map InsertSimulatorParams ps) ds)"

definition fresh_devices :: "database \<Rightarrow> device_rows list \<Rightarrow> bool" where
  "fresh_devices db ds \<longleftrightarrow> distinct (map er_ID (db_equipments db @ map fst ds)) \<and>
     distinct (map sp_Equipmentid (db_simulatorParams db @ concat (map snd ds))) \<and>
     (\<forall>(e, ps) \<in> set ds. sp_Equipmentid ` set ps \<subseteq> {er_ID e})"

lemma exec_devices:
  assumes "fresh_devices db ds" "\<forall>(e, ps) \<in> set ds. nval (er_Ldcid e) \<in> lr_ID ` set (db_ldcs db)"
  shows "\<exists>db'. exec_seed (device_stmts ds) db = Inr db' \<and> grown db [] (map fst ds) (concat (map snd ds)) db'"
  using assms
proof (induction ds arbitrary: db)
  case (Cons d ds)
  obtain e ps where d: "d = (e, ps)" by force
  let ?db = "db\<lparr>db_equipments := db_equipments db @ [e], db_next_equipment := max (db_next_equipment db) (er_ID e + 1)\<rparr>"
  have 1: "exec_stmt (InsertEquipment e) db = Inr ?db" using Cons.prems by (auto simp: fresh_devices_def d)
  have "\<exists>db'. exec_seed (map InsertSimulatorParams ps) ?db = Inr db' \<and> grown ?db [] [] ps db'"
    using Cons.prems by (intro exec_simulators) (auto simp: fresh_devices_def d)
  then obtain db1 where 2: "exec_seed (map InsertSimulatorParams ps) ?db = Inr db1" "grown ?db [] [] ps db1" by blast
  have g: "grown db [] [e] ps db1" using 2(2) by (simp add: grown_def)
  have "fresh_devices db1 ds" "\<forall>(e, ps) \<in> set ds. nval (er_Ldcid e) \<in> lr_ID ` set (db_ldcs db1)"
    using Cons.prems g by (auto simp: fresh_devices_def grown_def d)
  from Cons.IH [OF this] obtain db2 where 3: "exec_seed (device_stmts ds) db1 = Inr db2"
      "grown db1 [] (map fst ds) (concat (map snd ds)) db2" by blast
  have "exec_seed (device_stmts (d # ds)) db = Inr db2"
    using 1 2(1) 3(1) by (simp add: device_stmts_def d exec_seed_append)
  moreover have "grown db [] (map fst (d # ds)) (concat (map snd (d # ds))) db2" using grown_trans [OF g 3(2)] by (simp add: d)
  ultimately show ?case by blast
qed (simp add: device_stmts_def grown_def)

definition block_stmts :: "(db_Ldc \<times> device_rows list) list \<Rightarrow> sql_stmt list" where
  "block_stmts bs = concat (map (\<lambda>(l, ds). InsertLdc l # device_stmts ds) bs)"

lemma exec_blocks:
  assumes "distinct (map lr_ID (db_ldcs db @ map fst bs))" "fresh_devices db (concat (map snd bs))"
    "\<forall>(l, ds) \<in> set bs. \<forall>(e, ps) \<in> set ds. nval (er_Ldcid e) = lr_ID l"
  shows "\<exists>db'. exec_seed (block_stmts bs) db = Inr db' \<and>
    grown db (map fst bs) (map fst (concat (map snd bs))) (concat (map snd (concat (map snd bs)))) db'"
  using assms
proof (induction bs arbitrary: db)
  case (Cons b bs)
  obtain l ds where b: "b = (l, ds)" by force
  let ?db = "db\<lparr>db_ldcs := db_ldcs db @ [l], db_next_ldc := max (db_next_ldc db) (lr_ID l + 1)\<rparr>"
  have 1: "exec_stmt (InsertLdc l) db = Inr ?db" using Cons.prems by (auto simp: b)
  have "fresh_devices ?db ds" using Cons.prems(2) by (simp add: fresh_devices_def b Int_Un_distrib ball_Un)
  moreover have "\<forall>(e, ps) \<in> set ds. nval (er_Ldcid e) \<in> lr_ID ` set (db_ldcs ?db)" using Cons.prems(3) by (auto simp: b)
  ultimately obtain db1 where 2: "exec_seed (device_stmts ds) ?db = Inr db1" "grown ?db [] (map fst ds) (concat (map snd ds)) db1"
    using exec_devices by blast
  have g: "grown db [l] (map fst ds) (concat (map snd ds)) db1" using 2(2) by (simp add: grown_def)
  have "distinct (map lr_ID (db_ldcs db1 @ map fst bs))" "fresh_devices db1 (concat (map snd bs))"
    "\<forall>(l, ds) \<in> set bs. \<forall>(e, ps) \<in> set ds. nval (er_Ldcid e) = lr_ID l"
    using Cons.prems g by (auto simp: fresh_devices_def grown_def b)
  from Cons.IH [OF this] obtain db2 where 3: "exec_seed (block_stmts bs) db1 = Inr db2"
      "grown db1 (map fst bs) (map fst (concat (map snd bs))) (concat (map snd (concat (map snd bs)))) db2" by blast
  have "exec_seed (block_stmts (b # bs)) db = Inr db2"
    using 1 2(1) 3(1) by (simp add: block_stmts_def b exec_seed_append)
  moreover have "grown db (map fst (b # bs)) (map fst (concat (map snd (b # bs)))) (concat (map snd (concat (map snd (b # bs))))) db2"
    using grown_trans [OF g 3(2)] by (simp add: b)
  ultimately show ?case by blast
qed (simp add: block_stmts_def grown_def)

text \<open>A whole seed: after the parameters come the GDCs, the LDCs with their devices, and further simulators.\<close>

definition bare :: "database \<Rightarrow> bool" where
  "bare db \<longleftrightarrow> db_gdcs db = [] \<and> db_ldcs db = [] \<and> db_equipments db = [] \<and> db_simulatorParams db = [] \<and>
     db_testDeviceParams db = [] \<and> db_runs db \<noteq> [] \<and> db_duckParams db \<noteq> [] \<and> db_decoderParams db \<noteq> []"

definition well_keyed :: "db_Gdc list \<Rightarrow> (db_Ldc \<times> device_rows list) list \<Rightarrow> db_Simulatorparam list \<Rightarrow> bool" where
  "well_keyed gs bs ps \<longleftrightarrow> distinct (map gr_ID gs) \<and> distinct (map lr_ID (map fst bs)) \<and>
     distinct (map er_ID (map fst (concat (map snd bs)))) \<and>
     distinct (map sp_Equipmentid (concat (map snd (concat (map snd bs)))) @ map sp_Equipmentid ps) \<and>
     (\<forall>(l, ds) \<in> set bs. \<forall>(e, qs) \<in> set ds. nval (er_Ldcid e) = lr_ID l \<and> sp_Equipmentid ` set qs \<subseteq> {er_ID e}) \<and>
     sp_Equipmentid ` set ps \<subseteq> er_ID ` set (map fst (concat (map snd bs)))"

definition seeded :: "db_Gdc list \<Rightarrow> (db_Ldc \<times> device_rows list) list \<Rightarrow> database \<Rightarrow> bool" where
  "seeded gs bs db \<longleftrightarrow> db_gdcs db = gs \<and> db_ldcs db = map fst bs \<and> db_equipments db = map fst (concat (map snd bs)) \<and>
     db_runs db \<noteq> [] \<and> db_duckParams db \<noteq> [] \<and> db_decoderParams db \<noteq> [] \<and> db_testDeviceParams db = []"

lemma exec_setup:
  assumes "\<exists>db. exec_seed pre db0 = Inr db \<and> bare db" and keys: "well_keyed gs bs ps"
  shows "\<exists>db. exec_seed (pre @ map InsertGdc gs @ block_stmts bs @ map InsertSimulatorParams ps) db0 = Inr db \<and> seeded gs bs db"
proof -
  obtain d0 where d0: "exec_seed pre db0 = Inr d0" "bare d0" using assms(1) by blast
  have "distinct (map gr_ID (db_gdcs d0 @ gs))" using keys d0(2) by (simp add: well_keyed_def bare_def)
  from exec_gdcs [OF this] obtain d1 where d1: "exec_seed (map InsertGdc gs) d0 = Inr d1" "db_gdcs d1 = gs" "db_ldcs d1 = []"
      "db_equipments d1 = []" "db_simulatorParams d1 = []" "db_testDeviceParams d1 = []" "db_runs d1 \<noteq> []" "db_duckParams d1 \<noteq> []"
      "db_decoderParams d1 \<noteq> []"
    using d0(2) by (auto simp: bare_def)
  have "fresh_devices d1 (concat (map snd bs))" using keys d1(4,5) by (fastforce simp: fresh_devices_def well_keyed_def)
  moreover have "distinct (map lr_ID (db_ldcs d1 @ map fst bs))" using keys d1(3) by (simp add: well_keyed_def)
  moreover have "\<forall>(l, ds) \<in> set bs. \<forall>(e, qs) \<in> set ds. nval (er_Ldcid e) = lr_ID l" using keys by (fastforce simp: well_keyed_def)
  ultimately obtain d2 where d2: "exec_seed (block_stmts bs) d1 = Inr d2"
      "grown d1 (map fst bs) (map fst (concat (map snd bs))) (concat (map snd (concat (map snd bs)))) d2"
    using exec_blocks by blast
  have "\<exists>d3. exec_seed (map InsertSimulatorParams ps) d2 = Inr d3 \<and> grown d2 [] [] ps d3"
    by (rule exec_simulators) (use keys d2(2) d1 in \<open>auto simp: grown_def well_keyed_def\<close>)
  then obtain d3 where d3: "exec_seed (map InsertSimulatorParams ps) d2 = Inr d3" "grown d2 [] [] ps d3" by blast
  have "exec_seed (pre @ map InsertGdc gs @ block_stmts bs @ map InsertSimulatorParams ps) db0 = Inr d3"
    by (simp only: exec_seed_append d0(1) d1(1) d2(1) d3(1) bind_result.simps)
  moreover have "seeded gs bs d3" using d1 d2(2) d3(2) by (simp add: seeded_def grown_def)
  ultimately show ?thesis by blast
qed

text \<open>Reading the configuration back.\<close>

lemma seeded_configuration:
  assumes "db_runs db \<noteq> []" "db_duckParams db \<noteq> []" "db_decoderParams db \<noteq> []" "db_testDeviceParams db = []"
  shows "\<exists>cfg. ReadConfigurationFromDB (querier_of no_faults collate db) = Inr cfg \<and>
    cfg_GDCs cfg = map gdc_of_row (sort_key (\<lambda>r. name_rank collate (gr_Name r)) (db_gdcs db)) \<and>
    cfg_LDCs cfg = map (\<lambda>l. (ldc_of_row l)\<lparr>ldc_Equipments :=
        map equipment_of_row (filter (\<lambda>e. nval (er_Ldcid e) = lr_ID l) (sort_key er_ID (db_equipments db)))\<rparr>)
      (sort_key (\<lambda>r. name_rank collate (lr_Name r)) (db_ldcs db))"
proof -
  have "sort_key ru_ID (db_runs db) \<noteq> []" using assms(1) by (metis length_sort length_0_conv)
  then obtain r where r: "latest_run (db_runs db) = Inr r"
    by (cases "rev (sort_key ru_ID (db_runs db))") (auto simp: latest_run_def first_row_def)
  obtain d ds where d: "db_duckParams db = d # ds" using assms(2) by (cases "db_duckParams db") auto
  obtain p ps where p: "db_decoderParams db = p # ps" using assms(3) by (cases "db_decoderParams db") auto
  show ?thesis
    by (simp add: ReadConfigurationFromDB_def querier_of_def getGDCs_def getLDCs_def getEquipments_def getRun_def
        getDuckParameters_def getDecoderParameters_def getTestDeviceParams_def sql_ListGDCs_def sql_ListLDCs_def
        sql_ListEquipments_def sql_GetLatestRun_def sql_GetDuckParams_def sql_GetDecoderParams_def
        sql_GetTestDeviceParams_def query_def no_faults_def first_row_def r d p assms(4) assignEquipmentToLDC_map
        ldc_of_row_def equipment_of_row_def filter_map o_def)
qed

section \<open>What a set-up is for\<close>

definition flag :: "service \<Rightarrow> string \<Rightarrow> string" where
  "flag s f = (case map_of (cs_flags s) f of Some v \<Rightarrow> v | None \<Rightarrow> [])"

definition sim_flags_of :: "service \<Rightarrow> sim_flags" where
  "sim_flags_of s = \<lparr>fl_mode = (if flag s ''-mode'' = [] then ''replay'' else flag s ''-mode''), fl_config = flag s ''-config'',
     fl_id = flag_int (flag s ''-id''), fl_file = flag s ''-file'', fl_server = True, fl_grpcPort = flag_int (flag s ''-grpc-port''),
     fl_prometheusPort = flag_int (flag s ''-prometheus-port'')\<rparr>"

text \<open>A service is reached by its name and by its addresses.\<close>

definition reached_as :: "string \<Rightarrow> service \<Rightarrow> bool" where
  "reached_as addr s \<longleftrightarrow> addr = cs_name s \<or> Some addr \<in> snd ` set (cs_networks s)"

definition running :: "string \<Rightarrow> compose \<Rightarrow> service set" where
  "running program y = {s \<in> set (co_services y). cs_program s = program}"

text \<open>
  The processes of the compose file find themselves in the database, are reached at the addresses it has, and every equipment of an
  LDC is a simulator on its network.
\<close>

definition gdcs_found :: "compose \<Rightarrow> Configuration \<Rightarrow> bool" where
  "gdcs_found y cfg \<longleftrightarrow> (\<forall>s \<in> running ''/app/bin/gdcRPC'' y. \<exists>g \<in> set (EnabledGDCs (cfg_GDCs cfg)).
     GetGDCConfiguration (Inr (cs_name s)) (cfg_GDCs cfg) (flag s ''-name'') = Inr g \<and> reached_as (gdc_IP g) s)"

definition equipment_found :: "compose \<Rightarrow> service \<Rightarrow> Equipment \<Rightarrow> bool" where
  "equipment_found y s e \<longleftrightarrow> reached_as (eq_HostIP e) s \<and>
     (\<exists>d \<in> running ''/app/bin/deviceSimulator'' y. fl_id (sim_flags_of d) = eq_ID e \<and> reached_as (eq_DeviceIP e) d)"

definition ldcs_found :: "compose \<Rightarrow> Configuration \<Rightarrow> bool" where
  "ldcs_found y cfg \<longleftrightarrow> (\<forall>s \<in> running ''/app/bin/ldcRPC'' y. \<exists>l \<in> set (EnabledLDCs (cfg_LDCs cfg)).
     GetLDCConfiguration (Inr (cs_name s)) (cfg_LDCs cfg) (flag s ''-name'') = Inr l \<and> reached_as (ldc_IP l) s \<and>
     distinct (map eq_HostPort (ldc_Equipments l)) \<and> (\<forall>e \<in> set (ldc_Equipments l). equipment_found y s e))"

text \<open>The devices the API calls are the simulators, at the ports they serve on.\<close>

definition devices_called :: "compose \<Rightarrow> db_Ldc list \<Rightarrow> db_Equipment list \<Rightarrow> bool" where
  "devices_called y ldcs equipments \<longleftrightarrow>
     snd ` set (all_device_calls ldcs equipments) =
     (\<lambda>d. (cs_name d, sim_grpcPort (sim_flags_of d))) ` running ''/app/bin/deviceSimulator'' y"

definition processes_found :: "faults \<Rightarrow> compose \<Rightarrow> (string \<Rightarrow> nat) \<Rightarrow> database \<Rightarrow> bool" where
  "processes_found f y collate db \<longleftrightarrow>
     (\<exists>cfg ldcs equipments. ReadConfigurationFromDB (querier_of f collate db) = Inr cfg \<and>
        sql_ListLDCs f collate db = Inr ldcs \<and> sql_ListEquipments f db = Inr equipments \<and>
        gdcs_found y cfg \<and> ldcs_found y cfg \<and> devices_called y ldcs equipments)"

text \<open>
  The fixed addresses of a network: no two containers have the same, each is a host address of the network's subnet (not the first one, which
  is the gateway, nor the broadcast address) and of no other subnet.
\<close>

definition addresses :: "string \<Rightarrow> service \<Rightarrow> string list" where
  "addresses net s = List.map_filter (\<lambda>(n, a). if n = net then a else None) (cs_networks s)"

definition fixed_addresses :: "compose \<Rightarrow> string \<Rightarrow> string list" where
  "fixed_addresses y net = concat (map (addresses net) (co_services y))"

definition host_in :: "string \<Rightarrow> string \<Rightarrow> bool" where
  "host_in subnet a \<longleftrightarrow>
     (\<exists>p h. subnet = p @ ''.0/24'' \<and> a = p @ ''.'' @ show_int h \<and> 2 \<le> h \<and> h \<le> 254) \<or>
     (\<exists>p g h. subnet = p @ ''.0.0/16'' \<and> a = ip3 p g h \<and> 0 \<le> g \<and> g \<le> 255 \<and> 0 \<le> h \<and> h \<le> 255 \<and> (0 < g \<or> 2 \<le> h) \<and> (g < 255 \<or> h < 255))"

definition addresses_ok :: "compose \<Rightarrow> bool" where
  "addresses_ok y \<longleftrightarrow> (\<forall>(net, subnet) \<in> set (co_networks y). distinct (fixed_addresses y net) \<and>
     (\<forall>a \<in> set (fixed_addresses y net). (\<exists>b. subnet = Some b \<and> host_in b a) \<and>
        (\<forall>(net', subnet') \<in> set (co_networks y). net' \<noteq> net \<longrightarrow> (\<forall>b. subnet' = Some b \<longrightarrow> \<not> host_in b a))))"

text \<open>The ports are port numbers, and those a container listens on over TCP are different.\<close>

definition is_port :: "int \<Rightarrow> bool" where
  "is_port p \<longleftrightarrow> 1 \<le> p \<and> p \<le> 65535"

definition ports_ok :: "compose \<Rightarrow> database \<Rightarrow> bool" where
  "ports_ok y db \<longleftrightarrow>
     (\<forall>g \<in> set (db_gdcs db). let ps = [nval (gr_Port g), nval (gr_GrpcPort g), nval (gr_PrometheusPort g)]
        in distinct ps \<and> list_all is_port ps) \<and>
     (\<forall>l \<in> set (db_ldcs db). let ps = [nval (lr_GrpcPort l), nval (lr_PrometheusPort l)] in distinct ps \<and> list_all is_port ps) \<and>
     (\<forall>e \<in> set (db_equipments db). is_port (nval (er_HostPort e))) \<and>
     (\<forall>d \<in> running ''/app/bin/deviceSimulator'' y. is_port (sim_grpcPort (sim_flags_of d)))"

definition setup_works :: "faults \<Rightarrow> compose \<Rightarrow> (string \<Rightarrow> nat) \<Rightarrow> database \<Rightarrow> bool" where
  "setup_works f y collate db \<longleftrightarrow> processes_found f y collate db \<and> addresses_ok y \<and> ports_ok y db"

text \<open>
  The parameters for which a set-up can work: prefixes of two octets, host addresses that do not collide, ports in range and different.
\<close>

definition octets :: "string \<Rightarrow> bool" where
  "octets p \<longleftrightarrow> (\<exists>a \<in> {0..255 :: int}. \<exists>b \<in> {0..255}. p = show_int a @ ''.'' @ show_int b)"

definition port_range :: "int \<Rightarrow> int \<Rightarrow> bool" where
  "port_range base n \<longleftrightarrow> 1 \<le> base \<and> base + n - 1 \<le> 65535"

definition hosts_apart :: "int \<Rightarrow> int \<Rightarrow> int \<Rightarrow> bool" where
  "hosts_apart own start n \<longleftrightarrow> 2 \<le> own \<and> own \<le> 254 \<and> 1 \<le> start \<and> start + n \<le> 254 \<and> own \<notin> {start + 1..start + n}"

definition standard_ok :: "setup_cfg \<Rightarrow> bool" where
  "standard_ok c \<longleftrightarrow> octets (su_DataPrefix c) \<and> su_L c \<le> 255 \<and> 0 \<le> su_D c \<and> su_L c * su_D c \<le> 15466 \<and>
     hosts_apart (su_LdcIP c) (su_DevIPStart c) (su_D c) \<and> port_range (su_EqPortBase c) (su_D c) \<and>
     port_range (su_GdcTCPPortBase c) (su_G c) \<and> port_range (su_GdcGRPCPortBase c) (su_G c) \<and> port_range (su_GdcPromBase c) (su_G c) \<and>
     port_range (su_LdcGRPCPortBase c) (su_L c) \<and> port_range (su_LdcPromBase c) (su_L c) \<and>
     distinct [su_GdcTCPPortBase c, su_GdcGRPCPortBase c, su_GdcPromBase c] \<and> su_LdcGRPCPortBase c \<noteq> su_LdcPromBase c"

definition next100_ok :: "next100Config \<Rightarrow> bool" where
  "next100_ok c \<longleftrightarrow> octets (nx_DataPrefix c) \<and> octets (nx_CtrlPrefix c) \<and> nx_DataPrefix c \<noteq> nx_CtrlPrefix c \<and>
     varchar 512 (nx_DataFile c) \<and> int_column (nx_FragmentSize c) \<and>
     hosts_apart (nx_LdcDataIPSuffix c) (nx_DevDataIPStart c) 4 \<and> port_range (nx_EqPortBase c) 4 \<and>
     port_range (nx_GdcTCPPortBase c) 7 \<and> port_range (nx_GdcGRPCPortBase c) 7 \<and> port_range (nx_GdcPromBase c) 7 \<and>
     port_range (nx_LdcGRPCPortBase c) 7 \<and> port_range (nx_LdcPromBase c) 7 \<and>
     distinct [nx_GdcTCPPortBase c, nx_GdcGRPCPortBase c, nx_GdcPromBase c] \<and> nx_LdcGRPCPortBase c \<noteq> nx_LdcPromBase c"

section \<open>LDCs with their devices\<close>

lemma device_calls_filter: "device_calls ldc n es = device_calls ldc n (filter (\<lambda>e. nval (er_Ldcid e) = ldc) es)"
  by (induction es arbitrary: n) simp_all

lemma device_calls_all:
  "\<forall>e \<in> set es. nval (er_Ldcid e) = ldc \<and> nval (er_Enabled e) \<Longrightarrow>
   device_calls ldc n es = map (\<lambda>(k, e). (er_ID e, device_hostname ldc k, device_port (er_ID e))) (enumerate n es)"
  by (induction es arbitrary: n) simp_all

locale daq_setup =
  fixes ids :: "int list" and devices :: "int \<Rightarrow> int list" and ldc_row :: "int \<Rightarrow> db_Ldc"
    and eq_row :: "int \<Rightarrow> nat \<Rightarrow> int \<Rightarrow> db_Equipment" and ldc_svc :: "int \<Rightarrow> service" and sim_svc :: "int \<Rightarrow> nat \<Rightarrow> int \<Rightarrow> service"
  assumes distinct_ids: "distinct ids" and distinct_devices: "distinct (concat (map devices ids))"
    and sorted_devices: "sorted (devices i)"
    and ldc_row: "lr_ID (ldc_row i) = i" "nval (lr_Enabled (ldc_row i))" "nval (lr_Hostname (ldc_row i)) = cs_name (ldc_svc i)"
      "reached_as (nval (lr_Ip (ldc_row i))) (ldc_svc i)"
    and eq_row: "er_ID (eq_row i k e) = e" "nval (er_Ldcid (eq_row i k e)) = i" "nval (er_Enabled (eq_row i k e))"
      "reached_as (nval (er_HostIp (eq_row i k e))) (ldc_svc i)" "reached_as (nval (er_DeviceIp (eq_row i k e))) (sim_svc i k e)"
      "nval (er_HostPort (eq_row i k e)) = nval (er_HostPort (eq_row i k' e')) \<longleftrightarrow> k = k'"
    and ldc_svc: "cs_program (ldc_svc i) = ''/app/bin/ldcRPC''" "flag (ldc_svc i) ''-name'' = []"
      "cs_name (ldc_svc i) = cs_name (ldc_svc i') \<longleftrightarrow> i = i'" "cs_name (ldc_svc i) \<noteq> []" "cs_name (ldc_svc i) \<noteq> ''127.0.0.1''"
    and sim_svc: "cs_program (sim_svc i k e) = ''/app/bin/deviceSimulator''" "cs_name (sim_svc i k e) = device_hostname i (Suc k)"
      "flag (sim_svc i k e) ''-id'' = show_int e" "flag (sim_svc i k e) ''-grpc-port'' = []"
begin

definition eqs :: "int \<Rightarrow> db_Equipment list" where
  "eqs i = map (\<lambda>(k, e). eq_row i k e) (enumerate 0 (devices i))"

definition all_eqs :: "db_Equipment list" where
  "all_eqs = concat (map eqs ids)"

definition svcs :: "int \<Rightarrow> service list" where
  "svcs i = ldc_svc i # map (\<lambda>(k, e). sim_svc i k e) (enumerate 0 (devices i))"

lemma eqs_ids: "map er_ID (eqs i) = devices i"
  by (simp add: eqs_def o_def case_prod_beta eq_row(1))

lemma eqs_ldc: "x \<in> set (eqs i) \<Longrightarrow> nval (er_Ldcid x) = i \<and> nval (er_Enabled x)"
  by (auto simp: eqs_def eq_row)

lemma own_rows:
  assumes "i \<in> set ids"
  shows "filter (\<lambda>e. nval (er_Ldcid e) = i) (sort_key er_ID all_eqs) = eqs i"
proof -
  have "filter (\<lambda>e. nval (er_Ldcid e) = i) (concat (map eqs js)) = (if i \<in> set js then eqs i else [])" if "distinct js" for js
    using that
  proof (induction js)
    case (Cons j js)
    have "filter (\<lambda>e. nval (er_Ldcid e) = i) (eqs j) = (if i = j then eqs j else [])"
      using eqs_ldc [of _ j] by (auto simp: filter_empty_conv intro!: filter_True)
    with Cons show ?case by auto
  qed simp
  then have "filter (\<lambda>e. nval (er_Ldcid e) = i) all_eqs = eqs i"
    using distinct_ids assms by (simp add: all_eqs_def)
  then show ?thesis
    using sorted_devices by (simp add: filter_sort sort_key_id_if_sorted eqs_ids)
qed

lemma ldc_calls:
  assumes "i \<in> set ids"
  shows "snd ` set (device_calls i 1 (sort_key er_ID all_eqs)) =
    (\<lambda>d. (cs_name d, sim_grpcPort (sim_flags_of d))) ` set (map (\<lambda>(k, e). sim_svc i k e) (enumerate 0 (devices i)))"
proof -
  have "device_calls i 1 (sort_key er_ID all_eqs) =
      map (\<lambda>(k, e). (er_ID e, device_hostname i k, device_port (er_ID e))) (enumerate 1 (eqs i))"
    unfolding device_calls_filter [of i 1 "sort_key er_ID all_eqs"] own_rows [OF assms]
    using eqs_ldc by (intro device_calls_all) blast
  also have "map snd \<dots> = map (\<lambda>(k, e). (device_hostname i (Suc k), device_port e)) (enumerate 0 (devices i))"
    unfolding eqs_def by (rule nth_equalityI) (auto simp: nth_enumerate_eq eq_row)
  finally have "map snd (device_calls i 1 (sort_key er_ID all_eqs)) = \<dots>" by simp
  then have "snd ` set (device_calls i 1 (sort_key er_ID all_eqs)) =
      set (map (\<lambda>(k, e). (device_hostname i (Suc k), device_port e)) (enumerate 0 (devices i)))"
    by (metis set_map)
  also have "\<dots> = (\<lambda>d. (cs_name d, sim_grpcPort (sim_flags_of d))) ` set (map (\<lambda>(k, e). sim_svc i k e) (enumerate 0 (devices i)))"
    by (force simp: sim_svc sim_flags_of_def sim_grpcPort_def device_port_def flag_int_def [of "[]"] image_iff)
  finally show ?thesis .
qed

lemma devices_called_all:
  assumes "set ldcs = ldc_row ` set ids" and y: "running ''/app/bin/deviceSimulator'' y =
      (\<Union>i \<in> set ids. set (map (\<lambda>(k, e). sim_svc i k e) (enumerate 0 (devices i))))"
  shows "devices_called y ldcs (sort_key er_ID all_eqs)"
proof -
  have "set (all_device_calls ldcs (sort_key er_ID all_eqs)) = (\<Union>i \<in> set ids. set (device_calls i 1 (sort_key er_ID all_eqs)))"
    unfolding all_device_calls_def set_concat set_map assms(1) image_image by (rule SUP_cong) (simp_all add: ldc_row)
  then have "snd ` set (all_device_calls ldcs (sort_key er_ID all_eqs)) =
      (\<Union>i \<in> set ids. snd ` set (device_calls i 1 (sort_key er_ID all_eqs)))" by (simp only: image_UN)
  also have "\<dots> = (\<lambda>d. (cs_name d, sim_grpcPort (sim_flags_of d))) ` running ''/app/bin/deviceSimulator'' y"
    unfolding y image_UN using ldc_calls by (intro SUP_cong) auto
  finally show ?thesis by (simp add: devices_called_def)
qed

text \<open>The configuration of an LDC as the reader of the database makes it.\<close>

definition ldc_cfg :: "int \<Rightarrow> LDCConfiguration" where
  "ldc_cfg i = (ldc_of_row (ldc_row i))\<lparr>ldc_Equipments := map equipment_of_row (eqs i)\<rparr>"

lemma ldcs_found_all:
  assumes cfg: "cfg_LDCs cfg = map (\<lambda>l. (ldc_of_row l)\<lparr>ldc_Equipments :=
        map equipment_of_row (filter (\<lambda>e. nval (er_Ldcid e) = lr_ID l) (sort_key er_ID all_eqs))\<rparr>) ldcs"
    and ldcs: "set ldcs = ldc_row ` set ids"
    and y: "running ''/app/bin/deviceSimulator'' y =
        (\<Union>i \<in> set ids. set (map (\<lambda>(k, e). sim_svc i k e) (enumerate 0 (devices i))))"
      "running ''/app/bin/ldcRPC'' y = ldc_svc ` set ids"
  shows "ldcs_found y cfg"
  unfolding ldcs_found_def y(2)
proof (rule ballI)
  fix s assume "s \<in> ldc_svc ` set ids"
  then obtain i where i: "i \<in> set ids" "s = ldc_svc i" by blast
  have ls: "set (cfg_LDCs cfg) = ldc_cfg ` set ids"
    using own_rows by (auto simp: cfg ldcs ldc_cfg_def ldc_row(1) image_image intro!: image_cong)
  have unique: "host_matches (cs_name (ldc_svc i)) (ldc_Host (ldc_cfg j)) \<longleftrightarrow> j = i" for j
    using ldc_svc(3-5) by (auto simp: host_matches_def ldc_cfg_def ldc_of_row_def ldc_row)
  have "find (\<lambda>l. host_matches (cs_name (ldc_svc i)) (ldc_Host l)) (cfg_LDCs cfg) = Some (ldc_cfg i)"
    using ls i unique by (intro find_unique) auto
  then have get: "GetLDCConfiguration (Inr (cs_name s)) (cfg_LDCs cfg) (flag s ''-name'') = Inr (ldc_cfg i)"
    by (simp add: GetLDCConfiguration_def i(2) ldc_svc)
  have ports: "distinct (map eq_HostPort (ldc_Equipments (ldc_cfg i)))"
    by (auto simp: ldc_cfg_def eqs_def equipment_of_row_def distinct_conv_nth nth_enumerate_eq eq_row)
  have "equipment_found y s e" if "e \<in> set (ldc_Equipments (ldc_cfg i))" for e
  proof -
    from that obtain k d where kd: "(k, d) \<in> set (enumerate 0 (devices i))" "e = equipment_of_row (eq_row i k d)"
      by (auto simp: ldc_cfg_def eqs_def)
    then have "sim_svc i k d \<in> running ''/app/bin/deviceSimulator'' y" using i(1) y(1) by force
    moreover have "fl_id (sim_flags_of (sim_svc i k d)) = eq_ID e" by (simp add: kd(2) sim_flags_of_def sim_svc equipment_of_row_def eq_row)
    moreover have "reached_as (eq_DeviceIP e) (sim_svc i k d)" "reached_as (eq_HostIP e) s"
      by (simp_all add: kd(2) equipment_of_row_def eq_row i(2))
    ultimately show ?thesis by (auto simp: equipment_found_def)
  qed
  moreover have "ldc_cfg i \<in> set (EnabledLDCs (cfg_LDCs cfg))"
    using ls i by (auto simp: EnabledLDCs_def ldc_cfg_def ldc_of_row_def ldc_row)
  moreover have "reached_as (ldc_IP (ldc_cfg i)) s" by (simp add: ldc_cfg_def ldc_of_row_def ldc_row i(2))
  ultimately show "\<exists>l \<in> set (EnabledLDCs (cfg_LDCs cfg)).
      GetLDCConfiguration (Inr (cs_name s)) (cfg_LDCs cfg) (flag s ''-name'') = Inr l \<and> reached_as (ldc_IP l) s \<and>
      distinct (map eq_HostPort (ldc_Equipments l)) \<and> (\<forall>e \<in> set (ldc_Equipments l). equipment_found y s e)"
    using get ports by blast
qed

end

section \<open>The whole set-up\<close>

lemma gdcs_found_all:
  assumes cfg: "cfg_GDCs cfg = map gdc_of_row gs" "set gs = gdc_row ` set ks" and y: "running ''/app/bin/gdcRPC'' y = svc ` set ks"
    and row: "\<And>k. nval (gr_Name (gdc_row k)) = cs_name (svc k)" "\<And>k. nval (gr_Hostname (gdc_row k)) = cs_name (svc k)"
      "\<And>k. nval (gr_Enabled (gdc_row k))" "\<And>k. reached_as (nval (gr_Ip (gdc_row k))) (svc k)"
    and svc: "\<And>k. flag (svc k) ''-name'' = cs_name (svc k)" "\<And>k k'. cs_name (svc k) = cs_name (svc k') \<longleftrightarrow> k = k'"
  shows "gdcs_found y cfg"
  unfolding gdcs_found_def y
proof (rule ballI)
  fix s assume "s \<in> svc ` set ks"
  then obtain k where k: "k \<in> set ks" "s = svc k" by blast
  have gs: "set (cfg_GDCs cfg) = (\<lambda>k. gdc_of_row (gdc_row k)) ` set ks" by (auto simp: cfg)
  have "find (\<lambda>g. gdc_Name g = cs_name s \<and> host_matches (cs_name s) (gdc_Host g)) (cfg_GDCs cfg) = Some (gdc_of_row (gdc_row k))"
    by (rule find_unique) (auto simp: gs k gdc_of_row_def row svc host_matches_def)
  then have "GetGDCConfiguration (Inr (cs_name s)) (cfg_GDCs cfg) (flag s ''-name'') = Inr (gdc_of_row (gdc_row k))"
    by (simp add: GetGDCConfiguration_def k(2) svc)
  moreover have "gdc_of_row (gdc_row k) \<in> set (EnabledGDCs (cfg_GDCs cfg))"
    using k(1) by (auto simp: EnabledGDCs_def gs gdc_of_row_def row)
  moreover have "reached_as (gdc_IP (gdc_of_row (gdc_row k))) s" by (simp add: gdc_of_row_def row k(2))
  ultimately show "\<exists>g \<in> set (EnabledGDCs (cfg_GDCs cfg)).
      GetGDCConfiguration (Inr (cs_name s)) (cfg_GDCs cfg) (flag s ''-name'') = Inr g \<and> reached_as (gdc_IP g) s" by blast
qed

context daq_setup
begin

lemma running_services:
  assumes "co_services y = pre @ concat (map svcs ids)"
    "\<forall>s \<in> set pre. cs_program s \<noteq> ''/app/bin/ldcRPC'' \<and> cs_program s \<noteq> ''/app/bin/deviceSimulator''"
  shows "running ''/app/bin/ldcRPC'' y = ldc_svc ` set ids"
    "running ''/app/bin/deviceSimulator'' y = (\<Union>i \<in> set ids. set (map (\<lambda>(k, e). sim_svc i k e) (enumerate 0 (devices i))))"
    "running ''/app/bin/gdcRPC'' y = {s \<in> set pre. cs_program s = ''/app/bin/gdcRPC''}"
  using assms(2) by (auto simp: running_def assms(1) svcs_def ldc_svc sim_svc)

lemma works:
  assumes y: "co_services y = pre @ concat (map svcs ids)"
      "\<forall>s \<in> set pre. cs_program s \<noteq> ''/app/bin/ldcRPC'' \<and> cs_program s \<noteq> ''/app/bin/deviceSimulator''"
    and db: "db_ldcs db = map ldc_row ids" "db_equipments db = all_eqs" "db_runs db \<noteq> []" "db_duckParams db \<noteq> []"
      "db_decoderParams db \<noteq> []" "db_testDeviceParams db = []"
    and gdcs: "\<And>cfg gs. cfg_GDCs cfg = map gdc_of_row gs \<Longrightarrow> set gs = set (db_gdcs db) \<Longrightarrow> gdcs_found y cfg"
  shows "processes_found no_faults y collate db"
proof -
  from seeded_configuration [OF db(3-6), of collate] obtain cfg where
    cfg: "ReadConfigurationFromDB (querier_of no_faults collate db) = Inr cfg"
      "cfg_GDCs cfg = map gdc_of_row (sort_key (\<lambda>r. name_rank collate (gr_Name r)) (db_gdcs db))"
      "cfg_LDCs cfg = map (\<lambda>l. (ldc_of_row l)\<lparr>ldc_Equipments :=
          map equipment_of_row (filter (\<lambda>e. nval (er_Ldcid e) = lr_ID l) (sort_key er_ID all_eqs))\<rparr>)
        (sort_key (\<lambda>r. name_rank collate (lr_Name r)) (db_ldcs db))" by (auto simp: db(2))
  have ls: "set (sort_key (\<lambda>r. name_rank collate (lr_Name r)) (db_ldcs db)) = ldc_row ` set ids" by (simp add: db(1))
  note run = running_services [OF y]
  have "gdcs_found y cfg" using gdcs [OF cfg(2)] by simp
  moreover have "ldcs_found y cfg" by (rule ldcs_found_all [OF cfg(3) ls run(2,1)])
  moreover have "devices_called y (sort_key (\<lambda>r. name_rank collate (lr_Name r)) (db_ldcs db)) (sort_key er_ID all_eqs)"
    by (rule devices_called_all [OF ls run(2)])
  ultimately show ?thesis
    unfolding processes_found_def using cfg(1) by (auto simp: sql_ListLDCs_def sql_ListEquipments_def query_def no_faults_def db(2))
qed

end

section \<open>Addresses\<close>

lemma subnet_suffixes [simp]: "p @ ''.0.0/16'' \<noteq> q @ ''.0/24''" "q @ ''.0/24'' \<noteq> p @ ''.0.0/16''"
  by (auto dest: arg_cong [of _ _ last])

lemma host_in_24 [simp]:
  "host_in (p @ CHR ''.'' # show_int i @ ''.0/24'') (ip3 q j h) \<longleftrightarrow> q = p \<and> j = i \<and> 2 \<le> h \<and> h \<le> 254"
proof -
  have "host_in ((p @ CHR ''.'' # show_int i) @ ''.0/24'') (ip3 q j h) \<longleftrightarrow>
      (\<exists>h'. ip3 q j h = (p @ CHR ''.'' # show_int i) @ ''.'' @ show_int h' \<and> 2 \<le> h' \<and> h' \<le> 254)"
    unfolding host_in_def using subnet_suffixes by (auto simp del: append_assoc)
  also have "\<dots> \<longleftrightarrow> q = p \<and> j = i \<and> 2 \<le> h \<and> h \<le> 254"
    using dot_split [of "q @ CHR ''.'' # show_int j" h "p @ CHR ''.'' # show_int i"] dot_split [of q j p i] by (auto simp: ip3_def)
  finally show ?thesis by simp
qed

lemma host_in_16 [simp]:
  "host_in (p @ ''.0.0/16'') (ip3 q g h) \<longleftrightarrow>
     q = p \<and> 0 \<le> g \<and> g \<le> 255 \<and> 0 \<le> h \<and> h \<le> 255 \<and> (0 < g \<or> 2 \<le> h) \<and> (g < 255 \<or> h < 255)"
  unfolding host_in_def by (auto simp: subnet_suffixes)

lemma concat_map_single:
  "distinct xs \<Longrightarrow> concat (map (\<lambda>x. if x = i then f x else []) xs) = (if i \<in> set xs then f i else [])"
  by (induction xs) auto

text \<open>An LDC and its devices have host addresses on the data network of the LDC and none on the control network.\<close>

locale daq_network = daq_setup +
  fixes prefix :: string and own :: int and start :: int
  assumes ldc_address: "addresses (data_net j) (ldc_svc i) = (if i = j then [ip3 prefix i own] else [])"
    and sim_address: "addresses (data_net j) (sim_svc i k e) = (if i = j then [ip3 prefix i (start + int k + 1)] else [])"
    and ctrl_address: "addresses ''daq_ctrl'' (ldc_svc i) = []" "addresses ''daq_ctrl'' (sim_svc i k e) = []"
begin

definition net_hosts :: "int \<Rightarrow> int list" where
  "net_hosts j = own # map (\<lambda>k. start + int k + 1) [0..<length (devices j)]"

lemma svcs_addresses:
  "concat (map (addresses (data_net j)) (svcs i)) = (if i = j then map (ip3 prefix j) (net_hosts j) else [])"
proof -
  have "concat (map (addresses (data_net j)) (map (\<lambda>(k, e). sim_svc i k e) (enumerate n es))) =
      (if i = j then map (\<lambda>k. ip3 prefix j (start + int k + 1)) [n..<n + length es] else [])" for n es
    by (induction es arbitrary: n) (simp_all add: sim_address upt_conv_Cons del: upt_Suc)
  from this [of 0 "devices i"] show ?thesis by (simp add: svcs_def ldc_address net_hosts_def o_def)
qed

lemma network_addresses:
  assumes "co_services y = pre @ concat (map svcs ids)" "\<forall>s \<in> set pre. addresses (data_net j) s = []" "j \<in> set ids"
  shows "fixed_addresses y (data_net j) = map (ip3 prefix j) (net_hosts j)"
proof -
  have "concat (map (addresses (data_net j)) (concat (map svcs is))) =
      concat (map (\<lambda>i. if i = j then map (ip3 prefix i) (net_hosts i) else []) is)" for "is"
    by (induction "is") (auto simp: svcs_addresses)
  then show ?thesis
    using assms(2,3) concat_map_single [OF distinct_ids, of j "\<lambda>i. map (ip3 prefix i) (net_hosts i)"]
    by (simp add: fixed_addresses_def assms(1))
qed

lemma ctrl_addresses:
  assumes "co_services y = pre @ concat (map svcs ids)" "\<forall>s \<in> set pre. addresses ''daq_ctrl'' s = []"
  shows "fixed_addresses y ''daq_ctrl'' = []"
  using assms(2) by (auto simp: fixed_addresses_def assms(1) svcs_def ctrl_address)

lemma hosts_fit:
  assumes "hosts_apart own start n" "int (length (devices j)) \<le> n"
  shows "distinct (net_hosts j)" "\<forall>h \<in> set (net_hosts j). 2 \<le> h \<and> h \<le> 254"
proof -
  let ?hs = "map (\<lambda>k. start + int k + 1) [0..<length (devices j)]"
  have set: "set ?hs \<subseteq> {start + 1..start + n}" using assms(2) by auto
  have "distinct ?hs" by (simp add: distinct_map inj_on_def)
  moreover have "own \<notin> set ?hs" using set assms(1) by (auto simp: hosts_apart_def)
  ultimately show "distinct (net_hosts j)" by (simp add: net_hosts_def)
  show "\<forall>h \<in> set (net_hosts j). 2 \<le> h \<and> h \<le> 254"
    using set assms(1) by (fastforce simp: net_hosts_def hosts_apart_def)
qed

lemma hosts_collide: "own \<in> {start + 1..start + int (length (devices j))} \<Longrightarrow> \<not> distinct (net_hosts j)"
proof -
  assume own: "own \<in> {start + 1..start + int (length (devices j))}"
  then have "own = start + int (nat (own - start - 1)) + 1" "nat (own - start - 1) < length (devices j)" by auto
  then have "own \<in> (\<lambda>k. start + int k + 1) ` {0..<length (devices j)}" by (intro image_eqI [of _ _ "nat (own - start - 1)"]) auto
  then show ?thesis by (simp add: net_hosts_def)
qed

end

section \<open>The two generators\<close>

definition std_devices :: "setup_cfg \<Rightarrow> int \<Rightarrow> int list" where
  "std_devices c i = map (std_eqID c i) [1..su_D c]"

definition std_ldc_svc :: "setup_cfg \<Rightarrow> int \<Rightarrow> service" where
  "std_ldc_svc c i = ldc_service (''ldc-'' @ show_int i) [(''daq_ctrl'', None), (data_net i, Some (ip3 (su_DataPrefix c) i (su_LdcIP c)))]"

definition std_sim_svc :: "setup_cfg \<Rightarrow> int \<Rightarrow> nat \<Rightarrow> int \<Rightarrow> service" where
  "std_sim_svc c i k e = sim_service i (Suc k) e [(''-mode'', ''generate'')] (ip3 (su_DataPrefix c) i (su_DevIPStart c + int (Suc k)))"

definition std_row :: "setup_cfg \<Rightarrow> int \<Rightarrow> nat \<Rightarrow> int \<Rightarrow> db_Equipment" where
  "std_row c i k e = equipment_row e (ip3 (su_DataPrefix c) i (su_DevIPStart c + int (Suc k)))
     (ip3 (su_DataPrefix c) i (su_LdcIP c)) (su_EqPortBase c + int k) i"

lemma std_eqID_inject:
  assumes "1 \<le> j" "j \<le> su_D c" "1 \<le> j'" "j' \<le> su_D c" "std_eqID c i j = std_eqID c i' j'"
  shows "i = i' \<and> j = j'"
proof -
  have "(i - i') * su_D c = j' - j" using assms(5) by (simp add: std_eqID_def algebra_simps)
  moreover have "\<bar>j' - j\<bar> < su_D c" using assms by auto
  ultimately have "i - i' = 0"
    by (metis abs_ge_zero abs_mult abs_of_nonneg assms(1,2) dual_order.trans int_one_le_iff_zero_less linorder_not_le mult_le_cancel_right1 order_less_imp_le zero_less_abs_iff)
  then show ?thesis using \<open>(i - i') * su_D c = j' - j\<close> by simp
qed

lemma distinct_concat_map:
  assumes "distinct xs" "\<And>x. distinct (f x)" "\<And>x y. x \<noteq> y \<Longrightarrow> set (f x) \<inter> set (f y) = {}"
  shows "distinct (concat (map f xs))"
  using assms(1)
proof (induction xs)
  case (Cons x xs)
  then have "set (f x) \<inter> set (concat (map f xs)) = {}" using assms(3) [of x] by fastforce
  with Cons assms(2) show ?case by simp
qed simp

lemma std_distinct_devices: "distinct (concat (map (std_devices c) [1..n]))"
proof -
  have inner: "distinct (std_devices c i)" for i
    by (auto simp: std_devices_def distinct_map inj_on_def dest: std_eqID_inject)
  have "set (std_devices c i) \<inter> set (std_devices c i') = {}" if "i \<noteq> i'" for i i'
    using that by (auto simp: std_devices_def dest: std_eqID_inject)
  then show ?thesis using inner by (intro distinct_concat_map) auto
qed

lemma service_programs [simp]:
  "cs_program (mysql_override setup) = []" "cs_program (gdc_service name nets) = ''/app/bin/gdcRPC''"
  by (simp_all add: mysql_override_def gdc_service_def)

lemmas service_defs = ldc_service_def sim_service_def gdc_service_def config_flag_def flag_def reached_as_def

interpretation standard: daq_setup "[1..su_L c]" "std_devices c" "std_ldc_row c" "std_row c" "std_ldc_svc c" "std_sim_svc c" for c
proof
  show "distinct (concat (map (std_devices c) [1..su_L c]))" by (rule std_distinct_devices)
  show "sorted (std_devices c i)" for i
    by (auto simp: std_devices_def std_eqID_def sorted_wrt_map intro!: sorted_wrt_mono_rel [OF _ sorted_wrt_upto])
qed (simp_all add: std_ldc_row_def std_ldc_svc_def std_sim_svc_def std_row_def equipment_row_def service_defs device_hostname_def Let_def)

definition next100_ldc_svc :: "next100Config \<Rightarrow> int \<Rightarrow> service" where
  "next100_ldc_svc c i = ldc_service (''ldc'' @ show_int i @ ''next'')
     [(''daq_ctrl'', None), (''daq_ctrl_next100'', Some (ip3 (nx_CtrlPrefix c) 10 i)),
      (data_net i, Some (ip3 (nx_DataPrefix c) i (nx_LdcDataIPSuffix c)))]"

definition next100_sim_svc :: "next100Config \<Rightarrow> int \<Rightarrow> nat \<Rightarrow> int \<Rightarrow> service" where
  "next100_sim_svc c i k e = sim_service i (k + 1) e [] (ip3 (nx_DataPrefix c) i (nx_DevDataIPStart c + int k + 1))"

lemma next100_distinct: "distinct (concat (map ldcEquipments [1..7]))"
  by (simp add: ldcEquipments_def upto.simps)

interpretation next100: daq_setup "[1..7]" ldcEquipments "next100_ldc_row c" "next100_eq_row c" "next100_ldc_svc c" "next100_sim_svc c" for c
proof
  show "distinct (concat (map ldcEquipments [1..7]))" by (rule next100_distinct)
  show "sorted (ldcEquipments i)" for i by (simp add: ldcEquipments_def)
qed (simp_all add: next100_ldc_row_def next100_eq_row_def next100_ldc_svc_def next100_sim_svc_def equipment_row_def service_defs
    device_hostname_def Let_def)

text \<open>The rows and services of one LDC, in the form of the contract.\<close>

lemma upto_devices:
  "map (\<lambda>(k, e). f k e) (enumerate 0 (map g [1..n])) = map (\<lambda>j. f (nat j - 1) (g j)) [1..n]"
proof -
  have "nat (1 + int i) - Suc 0 = i" for i by simp
  then show ?thesis by (intro nth_equalityI) (auto simp: nth_enumerate_eq nth_upto)
qed

lemma std_eqs: "daq_setup.eqs (std_devices c) (std_row c) = (\<lambda>i. map (std_eq_row c i) [1..su_D c])"
  unfolding fun_eq_iff standard.eqs_def std_devices_def upto_devices
  by (intro allI map_cong) (auto simp: std_row_def std_eq_row_def add_diff_eq)

lemma std_svcs: "daq_setup.svcs (std_devices c) (std_ldc_svc c) (std_sim_svc c) = (\<lambda>i.
    ldc_service (''ldc-'' @ show_int i) [(''daq_ctrl'', None), (data_net i, Some (ip3 (su_DataPrefix c) i (su_LdcIP c)))] #
    map (\<lambda>j. sim_service i (nat j) (std_eqID c i j) [(''-mode'', ''generate'')] (ip3 (su_DataPrefix c) i (su_DevIPStart c + j)))
      [1..su_D c])"
proof
  fix i
  have "map (\<lambda>j. std_sim_svc c i (nat j - 1) (std_eqID c i j)) [1..su_D c] =
      map (\<lambda>j. sim_service i (nat j) (std_eqID c i j) [(''-mode'', ''generate'')] (ip3 (su_DataPrefix c) i (su_DevIPStart c + j))) [1..su_D c]"
    by (rule map_cong) (auto simp: std_sim_svc_def Suc_nat_eq_nat_zadd1 nat_diff_distrib)
  then show "daq_setup.svcs (std_devices c) (std_ldc_svc c) (std_sim_svc c) i =
    ldc_service (''ldc-'' @ show_int i) [(''daq_ctrl'', None), (data_net i, Some (ip3 (su_DataPrefix c) i (su_LdcIP c)))] #
    map (\<lambda>j. sim_service i (nat j) (std_eqID c i j) [(''-mode'', ''generate'')] (ip3 (su_DataPrefix c) i (su_DevIPStart c + j)))
      [1..su_D c]"
    unfolding standard.svcs_def std_devices_def upto_devices by (simp add: std_ldc_svc_def)
qed

definition std_blocks :: "setup_cfg \<Rightarrow> (db_Ldc \<times> device_rows list) list" where
  "std_blocks c = map (\<lambda>i. (std_ldc_row c i,
     map (\<lambda>j. (std_eq_row c i j, [sim_row (std_eqID c i j) ''/app/data/test-data.rd'' 500])) [1..su_D c])) [1..su_L c]"

lemma genSeedSQL_blocks:
  "genSeedSQL c =
     (map DeleteFrom [TabTestDeviceParams, TabEquipments, TabLdcs, TabGdcs, TabRuns, TabDuckParams, TabDecoderParams] @
      [InsertRun 1, InsertDuckParams std_duckParams, InsertDecoderParams std_decoderParams]) @
     map InsertGdc (map (std_gdc_row c) [1..su_G c]) @ block_stmts (std_blocks c)"
  by (simp add: genSeedSQL_def block_stmts_def std_blocks_def device_stmts_def o_def)

lemma std_blocks_rows:
  "map fst (std_blocks c) = map (std_ldc_row c) [1..su_L c]"
  "map fst (concat (map snd (std_blocks c))) = daq_setup.all_eqs [1..su_L c] (std_devices c) (std_row c)"
  "map sp_Equipmentid (concat (map snd (concat (map snd (std_blocks c))))) = concat (map (std_devices c) [1..su_L c])"
  "map er_ID (map fst (concat (map snd (std_blocks c)))) = concat (map (std_devices c) [1..su_L c])"
proof -
  have singles: "concat (concat (map (\<lambda>x. map (\<lambda>y. [g x y]) ys) xs)) = concat (map (\<lambda>x. map (g x) ys) xs)" for g :: "'x \<Rightarrow> 'y \<Rightarrow> 'z" and xs ys
    by (induction xs) simp_all
  show "map fst (concat (map snd (std_blocks c))) = daq_setup.all_eqs [1..su_L c] (std_devices c) (std_row c)"
    by (simp add: std_blocks_def standard.all_eqs_def std_eqs map_concat o_def)
  have dev: "std_devices c = (\<lambda>i. map (std_eqID c i) [1..su_D c])" by (simp add: std_devices_def fun_eq_iff)
  show "map fst (std_blocks c) = map (std_ldc_row c) [1..su_L c]"
    "map sp_Equipmentid (concat (map snd (concat (map snd (std_blocks c))))) = concat (map (std_devices c) [1..su_L c])"
    "map er_ID (map fst (concat (map snd (std_blocks c)))) = concat (map (std_devices c) [1..su_L c])"
    by (simp_all add: std_blocks_def map_concat o_def dev sim_row_def std_eq_row_def equipment_row_def singles)
qed

text \<open>Parameters in range give rows that fit and addresses and ports that do not collide.\<close>

lemma octets_text: "octets p \<Longrightarrow> length p \<le> 7 \<and> plain p"
proof -
  assume "octets p"
  then obtain a b where "0 \<le> a" "a \<le> 255" "0 \<le> b" "b \<le> 255" "p = show_int a @ ''.'' @ show_int b" by (auto simp: octets_def)
  then show ?thesis using length_show_int [of a 3] length_show_int [of b 3] by simp
qed

lemma varchar_ip3: "octets p \<Longrightarrow> 0 \<le> a \<Longrightarrow> a \<le> 255 \<Longrightarrow> 0 \<le> b \<Longrightarrow> b \<le> 255 \<Longrightarrow> varchar 100 (ip3 p a b)"
  using octets_text [of p] length_show_int [of a 3] length_show_int [of b 3] by (simp add: varchar_def ip3_def)

lemma varchar_number:
  "0 \<le> i \<Longrightarrow> i \<le> 65535 \<Longrightarrow> length a + length b \<le> 95 \<Longrightarrow> plain a \<Longrightarrow> plain b \<Longrightarrow> varchar 100 (a @ show_int i @ b)"
  using length_show_int [of i 5] by (simp add: varchar_def)

lemma port_rangeD: "port_range base n \<Longrightarrow> 1 \<le> k \<Longrightarrow> k \<le> n \<Longrightarrow> is_port (base + k - 1) \<and> int_column (base + k - 1) \<and> k \<le> 65535"
  by (simp add: port_range_def is_port_def int_column_def)

lemma std_eqID_bounds:
  assumes "1 \<le> i" "i \<le> su_L c" "1 \<le> j" "j \<le> su_D c"
  shows "1 \<le> std_eqID c i j \<and> std_eqID c i j \<le> su_L c * su_D c"
proof -
  have "0 \<le> (i - 1) * su_D c" using assms by simp
  moreover have "(i - 1) * su_D c + j \<le> i * su_D c" using assms by (simp add: algebra_simps)
  moreover have "i * su_D c \<le> su_L c * su_D c" using assms by (intro mult_right_mono) auto
  ultimately show ?thesis using assms(3) by (simp add: std_eqID_def)
qed

lemma standard_fits:
  assumes ok: "standard_ok c"
  shows "list_all row_fits (genSeedSQL c)"
proof -
  have gdc: "row_fits (InsertGdc (std_gdc_row c k))" if k: "1 \<le> k" "k \<le> su_G c" for k
    using ok port_rangeD [of "su_GdcPromBase c", OF _ k] port_rangeD [OF _ k] varchar_number [of k "''gdc-''" "[]"] k
    by (auto simp: standard_ok_def std_gdc_row_def Let_def int_column_def varchar_def [of _ "''/data''"])
  have ldc: "row_fits (InsertLdc (std_ldc_row c i))" if i: "1 \<le> i" "i \<le> su_L c" for i
    using ok port_rangeD [OF _ i] varchar_number [of i "''ldc-''" "[]"] i
    by (auto simp: standard_ok_def std_ldc_row_def Let_def int_column_def)
  have eq: "row_fits (InsertEquipment (std_eq_row c i j)) \<and>
      row_fits (InsertSimulatorParams (sim_row (std_eqID c i j) ''/app/data/test-data.rd'' 500))"
    if i: "1 \<le> i" "i \<le> su_L c" and j: "1 \<le> j" "j \<le> su_D c" for i j
  proof -
    have "octets (su_DataPrefix c)" "i \<le> 255" "2 \<le> su_LdcIP c" "su_LdcIP c \<le> 254" "1 \<le> su_DevIPStart c" "su_DevIPStart c + j \<le> 254"
      using ok i j by (auto simp: standard_ok_def hosts_apart_def)
    then have "varchar 100 (ip3 (su_DataPrefix c) i (su_DevIPStart c + j))" "varchar 100 (ip3 (su_DataPrefix c) i (su_LdcIP c))"
      using i j by (auto intro!: varchar_ip3)
    moreover have "int_column (std_eqID c i j)" "int_column i"
      using std_eqID_bounds [OF i j] ok i by (auto simp: standard_ok_def int_column_def)
    moreover have "int_column (su_EqPortBase c + j - 1)" using ok port_rangeD [OF _ j] by (auto simp: standard_ok_def)
    ultimately show ?thesis
      by (simp add: std_eq_row_def equipment_row_def sim_row_def varchar_def [of _ "''/app/data/test-data.rd''"] plain_def)
        (simp add: int_column_def)
  qed
  have params: "list_all row_fits [InsertRun 1, InsertDuckParams std_duckParams, InsertDecoderParams std_decoderParams]"
    by (simp add: std_duckParams_def std_decoderParams_def int_column_def varchar_def plain_def)
  show ?thesis
    using params gdc ldc eq by (auto simp: genSeedSQL_def list_all_iff)
qed

interpretation standard_net: daq_network "[1..su_L c]" "std_devices c" "std_ldc_row c" "std_row c" "std_ldc_svc c" "std_sim_svc c"
    "su_DataPrefix c" "su_LdcIP c" "su_DevIPStart c" for c
  by unfold_locales (simp_all add: std_ldc_svc_def std_sim_svc_def service_defs addresses_def data_net_def List.map_filter_simps
      add.assoc)

lemma std_services: "co_services (genCompose c) =
    (mysql_override ''standard'' # map (\<lambda>k. gdc_service (''gdc-'' @ show_int k) [(''daq_ctrl'', None)]) [1..su_G c]) @
    concat (map (daq_setup.svcs (std_devices c) (std_ldc_svc c) (std_sim_svc c)) [1..su_L c])"
  by (simp add: genCompose_def std_svcs)

lemma std_pre_addresses:
  "\<forall>s \<in> set (mysql_override ''standard'' # map (\<lambda>k. gdc_service (''gdc-'' @ show_int k) [(''daq_ctrl'', None)]) [1..su_G c]).
     addresses net s = []"
  by (auto simp: addresses_def mysql_override_def gdc_service_def List.map_filter_simps)

lemma std_net_addresses: "j \<in> set [1..su_L c] \<Longrightarrow>
    fixed_addresses (genCompose c) (data_net j) =
      map (ip3 (su_DataPrefix c) j) (daq_network.net_hosts (std_devices c) (su_LdcIP c) (su_DevIPStart c) j)"
  by (rule standard_net.network_addresses [OF std_services std_pre_addresses])

lemma std_ctrl_addresses: "fixed_addresses (genCompose c) ''daq_ctrl'' = []"
  by (rule standard_net.ctrl_addresses [OF std_services std_pre_addresses])

lemma length_std_devices: "length (std_devices c j) = nat (su_D c)"
  by (simp add: std_devices_def)

lemma data_net_simps [simp]: "data_net i = data_net j \<longleftrightarrow> i = j" "data_net i \<noteq> ''daq_ctrl''" "''daq_ctrl'' \<noteq> data_net i"
  "data_net i \<noteq> ''daq_ctrl_next100''" "''daq_ctrl_next100'' \<noteq> data_net i"
  by (simp_all add: data_net_def)

lemma standard_addresses:
  assumes "standard_ok c"
  shows "addresses_ok (genCompose c)"
proof -
  let ?hs = "daq_network.net_hosts (std_devices c) (su_LdcIP c) (su_DevIPStart c)"
  have apart: "hosts_apart (su_LdcIP c) (su_DevIPStart c) (int (nat (su_D c)))"
    using assms by (auto simp: standard_ok_def hosts_apart_def)
  have hosts: "distinct (?hs j)" "\<forall>h \<in> set (?hs j). 2 \<le> h \<and> h \<le> 254" for j
    using standard_net.hosts_fit [OF apart, of j] by (simp_all add: length_std_devices)
  then have "distinct (map (ip3 (su_DataPrefix c) j) (?hs j))" for j by (simp add: distinct_map inj_on_def)
  with hosts show ?thesis
    unfolding addresses_ok_def by (auto simp: genCompose_def [THEN arg_cong, of co_networks] std_net_addresses std_ctrl_addresses)
qed

lemma standard_ports:
  assumes ok: "standard_ok c" and db: "seeded (map (std_gdc_row c) [1..su_G c]) (std_blocks c) db"
    and sims: "running ''/app/bin/deviceSimulator'' (genCompose c) =
      (\<Union>i \<in> set [1..su_L c]. set (map (\<lambda>(k, e). std_sim_svc c i k e) (enumerate 0 (std_devices c i))))"
  shows "ports_ok (genCompose c) db"
proof -
  have "is_port (sim_grpcPort (sim_flags_of (std_sim_svc c i k e)))"
    if "i \<in> set [1..su_L c]" "(k, e) \<in> set (enumerate 0 (std_devices c i))" for i k e
  proof -
    have "e \<in> set (std_devices c i)" using that(2) by (auto simp: in_set_enumerate_eq)
    then have "1 \<le> e \<and> e \<le> 15466"
      using that(1) ok std_eqID_bounds [of i c] by (fastforce simp: std_devices_def standard_ok_def)
    then show ?thesis by (simp add: is_port_def sim_grpcPort_def sim_flags_of_def standard.sim_svc flag_int_def [of "[]"])
  qed
  moreover have "\<forall>g \<in> set (db_gdcs db). let ps = [nval (gr_Port g), nval (gr_GrpcPort g), nval (gr_PrometheusPort g)]
      in distinct ps \<and> list_all is_port ps"
    using db ok port_rangeD by (fastforce simp: seeded_def std_gdc_row_def standard_ok_def Let_def)
  moreover have "\<forall>l \<in> set (db_ldcs db). let ps = [nval (lr_GrpcPort l), nval (lr_PrometheusPort l)] in distinct ps \<and> list_all is_port ps"
    using db ok port_rangeD by (fastforce simp: seeded_def std_blocks_def std_ldc_row_def standard_ok_def Let_def)
  moreover have "\<forall>e \<in> set (db_equipments db). is_port (nval (er_HostPort e))"
    using db ok port_rangeD [of "su_EqPortBase c" "su_D c"]
    by (auto simp: seeded_def std_blocks_def std_eq_row_def equipment_row_def standard_ok_def)
  ultimately show ?thesis unfolding ports_ok_def sims by auto
qed

lemma standard_setup:
  assumes ok: "standard_ok c"
  shows "\<exists>db. exec_seed (genSeedSQL c) schema_db = Inr db \<and> setup_works no_faults (genCompose c) collate db"
proof -
  have "\<exists>db. exec_seed (genSeedSQL c) schema_db = Inr db \<and>
      seeded (map (std_gdc_row c) [1..su_G c]) (std_blocks c) db"
    unfolding genSeedSQL_blocks
  proof (rule exec_setup [where ps = "[]", simplified])
    show "\<exists>db. exec_seed (map DeleteFrom [TabTestDeviceParams, TabEquipments, TabLdcs, TabGdcs, TabRuns, TabDuckParams, TabDecoderParams] @
        [InsertRun 1, InsertDuckParams std_duckParams, InsertDecoderParams std_decoderParams]) schema_db = Inr db \<and> bare db"
      by (simp add: schema_db_def bare_def)
    show "well_keyed (map (std_gdc_row c) [1..su_G c]) (std_blocks c) []"
      unfolding well_keyed_def std_blocks_rows(1,3,4) append_Nil2 map_append list.map
      using std_distinct_devices
      by (auto simp: std_blocks_def std_gdc_row_def std_ldc_row_def std_eq_row_def equipment_row_def sim_row_def Let_def o_def)
  qed
  then obtain db where run: "exec_seed (genSeedSQL c) schema_db = Inr db" and db: "seeded (map (std_gdc_row c) [1..su_G c]) (std_blocks c) db"
    by blast
  let ?g = "\<lambda>k. gdc_service (''gdc-'' @ show_int k) [(''daq_ctrl'', None)]"
  have y: "co_services (genCompose c) = (mysql_override ''standard'' # map ?g [1..su_G c]) @
      concat (map (daq_setup.svcs (std_devices c) (std_ldc_svc c) (std_sim_svc c)) [1..su_L c])"
    by (simp add: genCompose_def std_svcs)
  have pre: "\<forall>s \<in> set (mysql_override ''standard'' # map ?g [1..su_G c]).
      cs_program s \<noteq> ''/app/bin/ldcRPC'' \<and> cs_program s \<noteq> ''/app/bin/deviceSimulator''"
    by auto
  have "running ''/app/bin/gdcRPC'' (genCompose c) = ?g ` set [1..su_G c]"
    unfolding standard.running_services(3) [OF y pre] by auto
  then have gdcs: "gdcs_found (genCompose c) cfg" if "cfg_GDCs cfg = map gdc_of_row gs" "set gs = set (db_gdcs db)" for cfg gs
    using that db
    by (intro gdcs_found_all [of cfg gs "std_gdc_row c" "[1..su_G c]" _ ?g]) (auto simp: seeded_def std_gdc_row_def Let_def service_defs)
  have found: "processes_found no_faults (genCompose c) collate db"
    by (rule standard.works [OF y pre]) (use db gdcs in \<open>auto simp: seeded_def std_blocks_rows\<close>)
  moreover have "addresses_ok (genCompose c)" "ports_ok (genCompose c) db"
    using standard_addresses [OF ok] standard_ports [OF ok db standard.running_services(2) [OF y pre]] by simp_all
  ultimately show ?thesis using run unfolding setup_works_def by blast
qed

definition next100_blocks :: "next100Config \<Rightarrow> (db_Ldc \<times> device_rows list) list" where
  "next100_blocks c = map (\<lambda>i. (next100_ldc_row c i, map (\<lambda>(k, e). (next100_eq_row c i k e, [])) (enumerate 0 (ldcEquipments i)))) [1..7]"

definition next100_sims :: "next100Config \<Rightarrow> db_Simulatorparam list" where
  "next100_sims c = concat (map (\<lambda>i. map (\<lambda>e. sim_row e (nx_DataFile c) (nx_FragmentSize c)) (ldcEquipments i)) [1..7])"

lemma genSeedSQLNext100_blocks:
  "genSeedSQLNext100 c =
     (map DeleteFrom [TabSimulatorParams, TabTestDeviceParams, TabEquipments, TabLdcs, TabGdcs, TabRuns, TabDuckParams, TabDecoderParams] @
      [InsertRun 14815, InsertDuckParams next100_duckParams, InsertDecoderParams next100_decoderParams]) @
     map InsertGdc (map (next100_gdc_row c) [1..7]) @ block_stmts (next100_blocks c) @ map InsertSimulatorParams (next100_sims c)"
proof -
  have "concat (map (\<lambda>(e, ps). InsertEquipment e # map InsertSimulatorParams ps) (map (\<lambda>(k, e). (f k e, [])) xs)) =
      map (\<lambda>(k, e). InsertEquipment (f k e)) xs" for f :: "nat \<Rightarrow> int \<Rightarrow> db_Equipment" and xs
    by (induction xs) auto
  then show ?thesis
    by (simp add: genSeedSQLNext100_def block_stmts_def next100_blocks_def next100_sims_def device_stmts_def o_def map_concat)
qed

lemma next100_rows:
  "map fst (next100_blocks c) = map (next100_ldc_row c) [1..7]"
  "map fst (concat (map snd (next100_blocks c))) = daq_setup.all_eqs [1..7] ldcEquipments (next100_eq_row c)"
  "concat (map snd (concat (map snd (next100_blocks c)))) = []"
  "map er_ID (map fst (concat (map snd (next100_blocks c)))) = concat (map ldcEquipments [1..7])"
  "map sp_Equipmentid (next100_sims c) = concat (map ldcEquipments [1..7])"
proof -
  have eqs: "daq_setup.eqs ldcEquipments (next100_eq_row c) = (\<lambda>i. map (\<lambda>(k, e). next100_eq_row c i k e) (enumerate 0 (ldcEquipments i)))"
    by (simp add: next100.eqs_def fun_eq_iff)
  show "map fst (next100_blocks c) = map (next100_ldc_row c) [1..7]" by (simp add: next100_blocks_def)
  show all: "map fst (concat (map snd (next100_blocks c))) = daq_setup.all_eqs [1..7] ldcEquipments (next100_eq_row c)"
    by (simp add: next100_blocks_def next100.all_eqs_def eqs map_concat o_def case_prod_unfold)
  show "concat (map snd (concat (map snd (next100_blocks c)))) = []" by (auto simp: next100_blocks_def)
  show "map er_ID (map fst (concat (map snd (next100_blocks c)))) = concat (map ldcEquipments [1..7])"
    unfolding all next100.all_eqs_def by (simp add: map_concat o_def next100.eqs_ids)
  show "map sp_Equipmentid (next100_sims c) = concat (map ldcEquipments [1..7])"
    by (simp add: next100_sims_def map_concat o_def sim_row_def)
qed

lemma next100_equipments: "e \<in> set (ldcEquipments i) \<Longrightarrow> 16 \<le> e \<and> e \<le> 227" "length (ldcEquipments i) \<le> 4"
  by (auto simp: ldcEquipments_def split: if_splits)

lemma next100_enumerate: "(k, e) \<in> set (enumerate 0 (ldcEquipments i)) \<Longrightarrow> e \<in> set (ldcEquipments i) \<and> k < 4"
  using next100_equipments(2) [of i] by (auto simp: in_set_enumerate_eq)

lemma next100_fits:
  assumes ok: "next100_ok c"
  shows "list_all row_fits (genSeedSQLNext100 c)"
proof -
  have gdc: "row_fits (InsertGdc (next100_gdc_row c k))" if k: "1 \<le> k" "k \<le> 7" for k
  proof -
    have "varchar 100 (ip3 (nx_CtrlPrefix c) 11 k)" using ok k by (intro varchar_ip3) (simp_all add: next100_ok_def)
    then show ?thesis
      using ok port_rangeD [OF _ k] varchar_number [of k "''gdc''" "''next''"] k
      by (auto simp: next100_ok_def next100_gdc_row_def Let_def int_column_def varchar_def [of _ "''/data''"])
  qed
  have ldc: "row_fits (InsertLdc (next100_ldc_row c i))" if i: "1 \<le> i" "i \<le> 7" for i
  proof -
    have "varchar 100 (ip3 (nx_CtrlPrefix c) 10 i)" using ok i by (intro varchar_ip3) (simp_all add: next100_ok_def)
    then show ?thesis
      using ok port_rangeD [OF _ i] varchar_number [of i "''ldc''" "''next''"] i
      by (auto simp: next100_ok_def next100_ldc_row_def Let_def int_column_def)
  qed
  have eq: "row_fits (InsertEquipment (next100_eq_row c i k e))"
    if i: "1 \<le> i" "i \<le> 7" and ke: "(k, e) \<in> set (enumerate 0 (ldcEquipments i))" for i k e
  proof -
    have ke': "16 \<le> e" "e \<le> 227" "int k < 4" using next100_enumerate [OF ke] next100_equipments(1) [of e i] by auto
    have "varchar 100 (ip3 (nx_DataPrefix c) i (nx_DevDataIPStart c + int k + 1))" "varchar 100 (ip3 (nx_DataPrefix c) i (nx_LdcDataIPSuffix c))"
      using ok i ke' by (auto simp: next100_ok_def hosts_apart_def intro!: varchar_ip3)
    moreover have "int_column (nx_EqPortBase c + int k)" using ok ke' by (auto simp: next100_ok_def port_range_def int_column_def)
    ultimately show ?thesis using i ke' by (simp add: next100_eq_row_def equipment_row_def int_column_def)
  qed
  have sim: "row_fits (InsertSimulatorParams (sim_row e (nx_DataFile c) (nx_FragmentSize c)))" if "e \<in> set (ldcEquipments i)" for i e
    using ok next100_equipments(1) [OF that] by (simp add: next100_ok_def sim_row_def int_column_def)
  have params: "list_all row_fits [InsertRun 14815, InsertDuckParams next100_duckParams, InsertDecoderParams next100_decoderParams]"
    by (simp add: next100_duckParams_def next100_decoderParams_def int_column_def varchar_def)
  show ?thesis
    using params gdc ldc eq sim by (auto simp: genSeedSQLNext100_def list_all_iff)
qed

interpretation next100_net: daq_network "[1..7]" ldcEquipments "next100_ldc_row c" "next100_eq_row c" "next100_ldc_svc c" "next100_sim_svc c"
    "nx_DataPrefix c" "nx_LdcDataIPSuffix c" "nx_DevDataIPStart c" for c
  by unfold_locales (simp_all add: next100_ldc_svc_def next100_sim_svc_def service_defs addresses_def data_net_def List.map_filter_simps)

abbreviation next100_gdc_svc :: "next100Config \<Rightarrow> int \<Rightarrow> service" where
  "next100_gdc_svc c k \<equiv> gdc_service (''gdc'' @ show_int k @ ''next'')
     [(''daq_ctrl'', None), (''daq_ctrl_next100'', Some (ip3 (nx_CtrlPrefix c) 11 k))]"

abbreviation next100_api :: service where
  "next100_api \<equiv> \<lparr>cs_name = ''api'', cs_program = [], cs_flags = [], cs_volumes = [], cs_environment = [],
     cs_networks = [(''daq_ctrl'', None), (''daq_ctrl_next100'', None)]\<rparr>"

lemma next100_services: "co_services (genComposeNext100 c) = (mysql_override ''next100'' # next100_api # map (next100_gdc_svc c) [1..7]) @
    concat (map (daq_setup.svcs ldcEquipments (next100_ldc_svc c) (next100_sim_svc c)) [1..7])"
proof -
  have "daq_setup.svcs ldcEquipments (next100_ldc_svc c) (next100_sim_svc c) =
      (\<lambda>i. next100_ldc_svc c i # map (\<lambda>(k, e). next100_sim_svc c i k e) (enumerate 0 (ldcEquipments i)))"
    by (simp add: next100.svcs_def fun_eq_iff)
  then show ?thesis by (simp add: genComposeNext100_def next100_ldc_svc_def next100_sim_svc_def)
qed

lemma next100_net_addresses: "j \<in> set [1..7] \<Longrightarrow>
    fixed_addresses (genComposeNext100 c) (data_net j) =
      map (ip3 (nx_DataPrefix c) j) (daq_network.net_hosts ldcEquipments (nx_LdcDataIPSuffix c) (nx_DevDataIPStart c) j)"
  by (rule next100_net.network_addresses [OF next100_services])
    (auto simp: addresses_def mysql_override_def gdc_service_def List.map_filter_simps)

lemma next100_ctrl_addresses:
  "fixed_addresses (genComposeNext100 c) ''daq_ctrl'' = []"
  "fixed_addresses (genComposeNext100 c) ''daq_ctrl_next100'' =
     map (ip3 (nx_CtrlPrefix c) 11) [1..7] @ map (ip3 (nx_CtrlPrefix c) 10) [1..7]"
proof -
  show "fixed_addresses (genComposeNext100 c) ''daq_ctrl'' = []"
    by (rule next100_net.ctrl_addresses [OF next100_services])
      (auto simp: addresses_def mysql_override_def gdc_service_def List.map_filter_simps)
  have sims: "concat (map (addresses ''daq_ctrl_next100'') (map (\<lambda>(k, e). next100_sim_svc c i k e) xs)) = []" for i xs
    by (auto simp: next100_sim_svc_def service_defs addresses_def data_net_def List.map_filter_simps)
  have "concat (map (addresses ''daq_ctrl_next100'') (daq_setup.svcs ldcEquipments (next100_ldc_svc c) (next100_sim_svc c) i)) =
      [ip3 (nx_CtrlPrefix c) 10 i]" for i
    unfolding next100.svcs_def list.map concat.simps sims
    by (simp add: next100_ldc_svc_def service_defs addresses_def data_net_def List.map_filter_simps)
  then have "concat (map (addresses ''daq_ctrl_next100'')
      (concat (map (daq_setup.svcs ldcEquipments (next100_ldc_svc c) (next100_sim_svc c)) is))) = map (ip3 (nx_CtrlPrefix c) 10) is" for "is"
    by (induction "is") simp_all
  moreover have "concat (map (addresses ''daq_ctrl_next100'') (map (next100_gdc_svc c) ks)) = map (ip3 (nx_CtrlPrefix c) 11) ks" for ks
    by (induction ks) (simp_all add: addresses_def gdc_service_def List.map_filter_simps)
  ultimately show "fixed_addresses (genComposeNext100 c) ''daq_ctrl_next100'' =
      map (ip3 (nx_CtrlPrefix c) 11) [1..7] @ map (ip3 (nx_CtrlPrefix c) 10) [1..7]"
    unfolding fixed_addresses_def next100_services
    by (simp only: map_append concat_append list.map concat.simps) (simp add: addresses_def mysql_override_def List.map_filter_simps)
qed

lemma next100_addresses:
  assumes "next100_ok c"
  shows "addresses_ok (genComposeNext100 c)"
proof -
  let ?hs = "daq_network.net_hosts ldcEquipments (nx_LdcDataIPSuffix c) (nx_DevDataIPStart c)"
  have apart: "hosts_apart (nx_LdcDataIPSuffix c) (nx_DevDataIPStart c) 4" and prefixes: "nx_DataPrefix c \<noteq> nx_CtrlPrefix c"
    using assms by (simp_all add: next100_ok_def)
  have hosts: "distinct (?hs j)" "\<forall>h \<in> set (?hs j). 2 \<le> h \<and> h \<le> 254" for j
    using next100_net.hosts_fit [OF apart, of j] next100_equipments(2) [of j] by simp_all
  then have d: "distinct (map (ip3 (nx_DataPrefix c) j) (?hs j))" for j by (simp add: distinct_map inj_on_def)
  have c: "distinct (map (ip3 (nx_CtrlPrefix c) 11) [1..7] @ map (ip3 (nx_CtrlPrefix c) 10) [1..7])"
    by (auto simp: distinct_map inj_on_def)
  have nets: "co_networks (genComposeNext100 c) = [(''daq_ctrl'', None), (''daq_ctrl_next100'', Some (nx_CtrlPrefix c @ ''.0.0/16''))] @
      map (\<lambda>i. (data_net i, Some (nx_DataPrefix c @ ''.'' @ show_int i @ ''.0/24''))) [1..7]"
    by (simp add: genComposeNext100_def)
  show ?thesis
    unfolding addresses_ok_def nets using hosts d c prefixes
    by (auto simp: next100_net_addresses next100_ctrl_addresses)
qed

lemma next100_ports:
  assumes ok: "next100_ok c" and db: "seeded (map (next100_gdc_row c) [1..7]) (next100_blocks c) db"
    and sims: "running ''/app/bin/deviceSimulator'' (genComposeNext100 c) =
      (\<Union>i \<in> set [1..7]. set (map (\<lambda>(k, e). next100_sim_svc c i k e) (enumerate 0 (ldcEquipments i))))"
  shows "ports_ok (genComposeNext100 c) db"
proof -
  have "is_port (sim_grpcPort (sim_flags_of (next100_sim_svc c i k e)))" if "(k, e) \<in> set (enumerate 0 (ldcEquipments i))" for i k e
    using next100_enumerate [OF that] next100_equipments(1) [of e i]
    by (simp add: is_port_def sim_grpcPort_def sim_flags_of_def next100.sim_svc flag_int_def [of "[]"])
  moreover have "\<forall>g \<in> set (db_gdcs db). let ps = [nval (gr_Port g), nval (gr_GrpcPort g), nval (gr_PrometheusPort g)]
      in distinct ps \<and> list_all is_port ps"
    using db ok port_rangeD [of _ 7] by (auto simp: seeded_def next100_gdc_row_def next100_ok_def Let_def)
  moreover have "\<forall>l \<in> set (db_ldcs db). let ps = [nval (lr_GrpcPort l), nval (lr_PrometheusPort l)] in distinct ps \<and> list_all is_port ps"
    using db ok port_rangeD [of _ 7] by (auto simp: seeded_def next100_blocks_def next100_ldc_row_def next100_ok_def Let_def)
  moreover have "is_port (nx_EqPortBase c + int k)" if "(k, e) \<in> set (enumerate 0 (ldcEquipments i))" for i k e
    using ok next100_enumerate [OF that] by (simp add: next100_ok_def port_range_def is_port_def)
  then have "\<forall>e \<in> set (db_equipments db). is_port (nval (er_HostPort e))"
    using db by (fastforce simp: seeded_def next100_blocks_def next100_eq_row_def equipment_row_def)
  ultimately show ?thesis unfolding ports_ok_def sims by auto
qed

lemma next100_setup:
  assumes ok: "next100_ok c"
  shows "\<exists>db. exec_seed (genSeedSQLNext100 c) schema_db = Inr db \<and> setup_works no_faults (genComposeNext100 c) collate db"
proof -
  have "\<exists>db. exec_seed (genSeedSQLNext100 c) schema_db = Inr db \<and> seeded (map (next100_gdc_row c) [1..7]) (next100_blocks c) db"
    unfolding genSeedSQLNext100_blocks
  proof (rule exec_setup)
    show "\<exists>db. exec_seed (map DeleteFrom [TabSimulatorParams, TabTestDeviceParams, TabEquipments, TabLdcs, TabGdcs, TabRuns, TabDuckParams,
        TabDecoderParams] @ [InsertRun 14815, InsertDuckParams next100_duckParams, InsertDecoderParams next100_decoderParams]) schema_db =
        Inr db \<and> bare db"
      by (simp add: schema_db_def bare_def)
    have "sp_Equipmentid ` set (next100_sims c) \<subseteq> er_ID ` set (map fst (concat (map snd (next100_blocks c))))"
      using next100_rows(4,5) [of c] by (metis order_refl set_map)
    then show "well_keyed (map (next100_gdc_row c) [1..7]) (next100_blocks c) (next100_sims c)"
      unfolding well_keyed_def next100_rows(1,3,4,5) using next100_distinct
      by (auto simp: next100_blocks_def next100_gdc_row_def next100_ldc_row_def next100_eq_row_def equipment_row_def Let_def o_def)
  qed
  then obtain db where run: "exec_seed (genSeedSQLNext100 c) schema_db = Inr db"
    and db: "seeded (map (next100_gdc_row c) [1..7]) (next100_blocks c) db" by blast
  note y = next100_services [of c]
  have pre: "\<forall>s \<in> set (mysql_override ''next100'' # next100_api # map (next100_gdc_svc c) [1..7]).
      cs_program s \<noteq> ''/app/bin/ldcRPC'' \<and> cs_program s \<noteq> ''/app/bin/deviceSimulator''"
    by auto
  have "running ''/app/bin/gdcRPC'' (genComposeNext100 c) = next100_gdc_svc c ` set [1..7]"
    unfolding next100.running_services(3) [OF y pre] by auto
  then have gdcs: "gdcs_found (genComposeNext100 c) cfg" if "cfg_GDCs cfg = map gdc_of_row gs" "set gs = set (db_gdcs db)" for cfg gs
    using that db
    by (intro gdcs_found_all [of cfg gs "next100_gdc_row c" "[1..7]" _ "next100_gdc_svc c"]) (auto simp: seeded_def next100_gdc_row_def Let_def service_defs)
  have found: "processes_found no_faults (genComposeNext100 c) collate db"
    by (rule next100.works [OF y pre]) (use db gdcs in \<open>auto simp: seeded_def next100_rows\<close>)
  moreover have "addresses_ok (genComposeNext100 c)" "ports_ok (genComposeNext100 c) db"
    using next100_addresses [OF ok] next100_ports [OF ok db next100.running_services(2) [OF y pre]] by simp_all
  ultimately show ?thesis using run unfolding setup_works_def by blast
qed

text \<open>The column that the shared script lacks.\<close>

definition with_read_fibers :: columns where
  "with_read_fibers = e2e_schema(TabDecoderParams := e2e_schema TabDecoderParams @ [''read_fibers''])"

lemma with_read_fibers_faults: "schema_faults with_read_fibers = no_faults"
proof
  fix name
  have "unknown_column with_read_fibers q = None" if "(n, q) \<in> set query_columns" for n q
    using that unfolding query_columns_defs by (auto simp: with_read_fibers_def unknown_column_def)
  then show "schema_faults with_read_fibers name = no_faults name"
    by (cases "map_of query_columns name") (auto simp: schema_faults_def no_faults_def dest: map_of_SomeD)
qed

lemma with_read_fibers_columns: "set (e2e_schema t) \<subseteq> set (with_read_fibers t)"
  by (simp add: with_read_fibers_def)

lemma e2e_schema_unreadable: "ReadConfigurationFromDB (querier_of (schema_faults e2e_schema) collate db) \<noteq> Inr cfg"
proof -
  have "schema_faults e2e_schema ''GetDecoderParams'' = Some ''unknown column read_fibers''"
    by (simp add: schema_faults_def query_columns_defs unknown_column_def)
  then have "q_GetDecoderParams (querier_of (schema_faults e2e_schema) collate db) = Inl ''unknown column read_fibers''"
    by (simp add: querier_of_def sql_GetDecoderParams_def query_def)
  then show ?thesis
    by (auto simp: ReadConfigurationFromDB_def getDecoderParameters_def bind_result_Inr)
qed

text \<open>Parameters for which a set-up cannot work: an address twice on a network, a port that is no value of its column.\<close>

lemma standard_collision:
  assumes "1 \<le> su_L c" "su_LdcIP c \<in> {su_DevIPStart c + 1..su_DevIPStart c + su_D c}"
  shows "\<not> addresses_ok (genCompose c)"
proof -
  let ?hs = "daq_network.net_hosts (std_devices c) (su_LdcIP c) (su_DevIPStart c)"
  have "\<not> distinct (?hs 1)" using standard_net.hosts_collide [of c 1] assms(2) by (auto simp: length_std_devices)
  then have "\<not> distinct (fixed_addresses (genCompose c) (data_net 1))"
    using assms(1) by (auto simp: std_net_addresses distinct_map)
  moreover have "(data_net 1, Some (su_DataPrefix c @ ''.'' @ show_int 1 @ ''.0/24'')) \<in> set (co_networks (genCompose c))"
    using assms(1) by (auto simp: genCompose_def)
  ultimately show ?thesis unfolding addresses_ok_def by fastforce
qed

lemma standard_refused:
  assumes "1 \<le> su_L c" "1 \<le> su_D c" "2 ^ 31 \<le> su_EqPortBase c"
  shows "run_seed cols (genSeedSQL c) db \<noteq> Inr db'"
proof
  assume "run_seed cols (genSeedSQL c) db = Inr db'"
  then have "list_all row_fits (genSeedSQL c)" by (rule run_seed_fits)
  moreover have "InsertEquipment (std_eq_row c 1 1) \<in> set (genSeedSQL c)" using assms by (fastforce simp: genSeedSQL_def)
  ultimately have "row_fits (InsertEquipment (std_eq_row c 1 1))" unfolding list_all_iff by blast
  with assms(3) show False by (simp add: std_eq_row_def equipment_row_def int_column_def)
qed

text \<open>
  C26. Set-ups. For parameters in range (\<open>standard_ok\<close>, \<open>next100_ok\<close>: prefixes of two octets, host addresses that do not collide, ports in range and
  different, texts that fit their columns) both generators write a compose file and a seed that fit. The seed runs on the tables
  of the shared script without an unknown column, a value that does not fit its type or a key violation. No process can then read its
  configuration, because the script has no column \<open>read_fibers\<close>, which the query for the decoder's parameters selects; but that is all there is in
  the way. With this column the configuration can be read; every GDC and LDC container finds itself in it and is reached at the address
  it has there; every equipment of an LDC is a simulator container of that identifier on the LDC's data network, no two on one port; the
  devices that the API's calls to start, stop and ask all test devices go to are exactly the simulator containers, at the ports they
  serve on; no two containers have the same address on a network and each address is a host of its own subnet only. The generators do not check their
  parameters: an LDC suffix among those of the devices gives two containers one address, and a port base beyond \<open>INT\<close> a seed that is refused.
\<close>

theorem generated_setups_work:
  "(standard_ok c \<longrightarrow>
     (\<exists>db. run_seed e2e_schema (genSeedSQL c) schema_db = Inr db \<and>
       (\<forall>cfg. ReadConfigurationFromDB (querier_of (schema_faults e2e_schema) collate db) \<noteq> Inr cfg)) \<and>
     (\<exists>db. run_seed with_read_fibers (genSeedSQL c) schema_db = Inr db \<and>
       setup_works (schema_faults with_read_fibers) (genCompose c) collate db)) \<and>
   (next100_ok n \<longrightarrow>
     (\<exists>db. run_seed e2e_schema (genSeedSQLNext100 n) schema_db = Inr db \<and>
       (\<forall>cfg. ReadConfigurationFromDB (querier_of (schema_faults e2e_schema) collate db) \<noteq> Inr cfg)) \<and>
     (\<exists>db. run_seed with_read_fibers (genSeedSQLNext100 n) schema_db = Inr db \<and>
       setup_works (schema_faults with_read_fibers) (genComposeNext100 n) collate db)) \<and>
   (1 \<le> su_L c \<and> su_LdcIP c \<in> {su_DevIPStart c + 1..su_DevIPStart c + su_D c} \<longrightarrow> \<not> addresses_ok (genCompose c)) \<and>
   (1 \<le> su_L c \<and> 1 \<le> su_D c \<and> 2 ^ 31 \<le> su_EqPortBase c \<longrightarrow>
     (\<forall>db. run_seed with_read_fibers (genSeedSQL c) schema_db \<noteq> Inr db))"
proof (intro conjI impI allI)
  note exec = run_seed_exec [OF subset_refl] run_seed_exec [OF with_read_fibers_columns]
  show "\<exists>db. run_seed e2e_schema (genSeedSQL c) schema_db = Inr db \<and>
      (\<forall>cfg. ReadConfigurationFromDB (querier_of (schema_faults e2e_schema) collate db) \<noteq> Inr cfg)" if "standard_ok c"
    unfolding exec(1) [OF standard_fits [OF that]] using standard_setup [OF that] e2e_schema_unreadable by blast
  show "\<exists>db. run_seed with_read_fibers (genSeedSQL c) schema_db = Inr db \<and>
      setup_works (schema_faults with_read_fibers) (genCompose c) collate db" if "standard_ok c"
    unfolding exec(2) [OF standard_fits [OF that]] with_read_fibers_faults by (rule standard_setup [OF that])
  show "\<exists>db. run_seed e2e_schema (genSeedSQLNext100 n) schema_db = Inr db \<and>
      (\<forall>cfg. ReadConfigurationFromDB (querier_of (schema_faults e2e_schema) collate db) \<noteq> Inr cfg)" if "next100_ok n"
    unfolding exec(1) [OF next100_fits [OF that]] using next100_setup [OF that] e2e_schema_unreadable by blast
  show "\<exists>db. run_seed with_read_fibers (genSeedSQLNext100 n) schema_db = Inr db \<and>
      setup_works (schema_faults with_read_fibers) (genComposeNext100 n) collate db" if "next100_ok n"
    unfolding exec(2) [OF next100_fits [OF that]] with_read_fibers_faults by (rule next100_setup [OF that])
qed (use standard_collision standard_refused in blast)+

text \<open>The parameters that an empty environment gives are in range.\<close>

lemma default_prefixes: "octets ''172.30''" "octets ''172.31''"
proof -
  have "show_int 172 = ''172''" "show_int 30 = ''30''" "show_int 31 = ''31''" by code_simp+
  then show "octets ''172.30''" "octets ''172.31''"
    unfolding octets_def by (intro bexI [of _ 172] bexI [of _ 30] bexI [of _ 31]; simp)+
qed

theorem generated_setups_work_witness:
  "(\<exists>db. run_seed with_read_fibers (genSeedSQL (setup_of_env (\<lambda>_. []))) schema_db = Inr db \<and>
     setup_works (schema_faults with_read_fibers) (genCompose (setup_of_env (\<lambda>_. []))) (\<lambda>_. 0) db) \<and>
   (\<exists>db. run_seed with_read_fibers (genSeedSQLNext100 (next100_of_env (\<lambda>_. []))) schema_db = Inr db \<and>
     setup_works (schema_faults with_read_fibers) (genComposeNext100 (next100_of_env (\<lambda>_. []))) (\<lambda>_. 0) db)"
proof -
  have "standard_ok (setup_of_env (\<lambda>_. []))"
    using default_prefixes
    by (simp add: standard_ok_def setup_of_env_def getenvInt_def getenvStr_def hosts_apart_def port_range_def)
  moreover have "next100_ok (next100_of_env (\<lambda>_. []))"
    using default_prefixes
    by (simp add: next100_ok_def next100_of_env_def getenvInt_def getenvStr_def hosts_apart_def port_range_def varchar_def int_column_def)
  ultimately show ?thesis using generated_setups_work by blast
qed

end
