(* ===== verification/Test_Doubles.thy ===== *)
theory Test_Doubles
  imports Gdc_Accept Binary_Reader File_Closer
begin

text \<open>
  The fixtures and test doubles of the unit tests, \<open>src/ldcRPC/testhelpers\<close> and \<open>src/gdcRPC/testhelpers\<close>: generated packets, sub-events and
  configurations, and the mocks of connections, pingers, files and contexts that stand for the network and the run's context.

  A mock is a record and its methods are functions on it; a mutex around a method makes it one step. What an interface's
  caller gets back is the result; a method that never returns is \<open>MockBlocks\<close>. Deadlines are recorded and looked at by nobody.
\<close>

section \<open>Definitions\<close>

subsection \<open>Packets and configurations (ldcRPC/testhelpers/fixtures.go)\<close>

definition GenerateTestPacket :: "int \<Rightarrow> bytes \<Rightarrow> bytes" where
  "GenerateTestPacket sequenceCounter payload =
     put_at 4 payload (put_be32_at 0 (word_of_int sequenceCounter) (replicate (4 + length payload) 0))"

definition GenerateEndMarker :: bytes where
  "GenerateEndMarker = put_le32_at 0 0xfafafafa (replicate 4 0)"

text \<open>The payload of packet \<open>i\<close>; the conversion to a byte takes the remainder.\<close>

definition ramp :: "nat \<Rightarrow> nat \<Rightarrow> bytes" where
  "ramp i n = map (\<lambda>j. of_nat ((i + j) mod 256)) [0..<n]"

definition GenerateCompleteEvent :: "nat \<Rightarrow> nat \<Rightarrow> bytes list" where
  "GenerateCompleteEvent numPackets packetSize =
     map (\<lambda>i. GenerateTestPacket (int i) (ramp i packetSize)) [0..<numPackets] @ [GenerateEndMarker]"

definition GenerateLargeEvent :: "nat \<Rightarrow> nat \<Rightarrow> bytes list" where
  "GenerateLargeEvent numPackets packetSize =
     map (\<lambda>i. GenerateTestPacket (int i) (ramp i packetSize)) [0..<numPackets] @ [GenerateEndMarker]"

definition CreateUDPPacketWithSequence :: "u32 \<Rightarrow> bytes \<Rightarrow> bytes" where
  "CreateUDPPacketWithSequence sequenceCounter payload =
     put_at 4 payload (put_be32_at 0 sequenceCounter (replicate (4 + length payload) 0))"

definition CreateMultipleUDPPackets :: "nat \<Rightarrow> nat \<Rightarrow> bytes list" where
  "CreateMultipleUDPPackets numPackets payloadSize =
     map (\<lambda>i. CreateUDPPacketWithSequence (of_nat i) (ramp i payloadSize)) [0..<numPackets]"

definition CreateEquipmentEventData :: "u32 \<Rightarrow> u32 \<Rightarrow> nat \<Rightarrow> bytes" where
  "CreateEquipmentEventData eventID equipmentID payloadSize =
     map (\<lambda>i. of_nat ((unat eventID + unat equipmentID + i) mod 256)) [0..<payloadSize]"

definition CreateCompleteSubEventData :: "int \<Rightarrow> nat \<Rightarrow> nat \<Rightarrow> (int, bytes) go_map" where
  "CreateCompleteSubEventData eventID numEquipments dataSize =
     foldl (\<lambda>m eqID. gm_set (int eqID) (CreateEquipmentEventData (word_of_int eventID) (of_nat eqID) dataSize) m) gm_empty
       [1..<numEquipments + 1]"

record RingBufferDataFixture =
  rf_Data :: bytes
  rf_Position :: nat

definition CreateTestRingBufferData :: "nat \<Rightarrow> nat \<Rightarrow> RingBufferDataFixture list" where
  "CreateTestRingBufferData numEntries packetSize =
     map (\<lambda>i. \<lparr>rf_Data = ramp i packetSize, rf_Position = i * packetSize\<rparr>) [0..<numEntries]"

definition NewTestEquipmentWithIP :: "int \<Rightarrow> int \<Rightarrow> string \<Rightarrow> string \<Rightarrow> int \<Rightarrow> Equipment" where
  "NewTestEquipmentWithIP i equipmentType deviceIP hostIP hostPort =
     \<lparr>eq_ID = i, eq_Type = equipmentType, eq_DeviceIP = deviceIP, eq_HostIP = hostIP, eq_HostPort = hostPort, eq_LDC_ID = 1,
      eq_Enabled = True\<rparr>"

definition NewTestEquipment :: "int \<Rightarrow> int \<Rightarrow> Equipment" where
  "NewTestEquipment i equipmentType =
     \<lparr>eq_ID = i, eq_Type = equipmentType, eq_DeviceIP = ''192.168.1.1'', eq_HostIP = ''127.0.0.1'', eq_HostPort = 6006 + i,
      eq_LDC_ID = 1, eq_Enabled = True\<rparr>"

definition NewTestEquipmentDisabled :: "int \<Rightarrow> int \<Rightarrow> Equipment" where
  "NewTestEquipmentDisabled i equipmentType =
     \<lparr>eq_ID = i, eq_Type = equipmentType, eq_DeviceIP = ''192.168.1.1'', eq_HostIP = ''127.0.0.1'', eq_HostPort = 6006 + i,
      eq_LDC_ID = 1, eq_Enabled = False\<rparr>"

definition NewTestLDCConfigurationWithEquipments :: "int \<Rightarrow> string \<Rightarrow> Equipment list \<Rightarrow> LDCConfiguration" where
  "NewTestLDCConfigurationWithEquipments i name equipments =
     \<lparr>ldc_ID = i, ldc_Name = name, ldc_Host = ''testhost'', ldc_IP = ''127.0.0.1'', ldc_GRPCPort = 50052,
      ldc_PrometheusPort = 12113, ldc_Enabled = True, ldc_Equipments = equipments\<rparr>"

definition NewTestLDCConfiguration :: "int \<Rightarrow> string \<Rightarrow> nat \<Rightarrow> LDCConfiguration" where
  "NewTestLDCConfiguration i name numEquipments =
     \<lparr>ldc_ID = i, ldc_Name = name, ldc_Host = ''testhost'', ldc_IP = ''127.0.0.1'', ldc_GRPCPort = 50052,
      ldc_PrometheusPort = 12113, ldc_Enabled = True, ldc_Equipments = map (\<lambda>k. NewTestEquipment (int k + 1) 22) [0..<numEquipments]\<rparr>"

definition NewTestGDCConfigurationWithPort :: "int \<Rightarrow> string \<Rightarrow> int \<Rightarrow> bool \<Rightarrow> GDCConfiguration" where
  "NewTestGDCConfigurationWithPort i name port enabled =
     \<lparr>gdc_ID = i, gdc_IP = ''127.0.0.1'', gdc_Port = port, gdc_GRPCPort = 50051, gdc_PrometheusPort = 12112, gdc_Name = name,
      gdc_Host = ''testhost'', gdc_Path = ''/tmp/test'', gdc_Enabled = enabled, gdc_WriteOutput = True, gdc_Decode = False\<rparr>"

definition NewTestGDCConfiguration :: "int \<Rightarrow> string \<Rightarrow> GDCConfiguration" where
  "NewTestGDCConfiguration i name =
     \<lparr>gdc_ID = i, gdc_IP = ''127.0.0.1'', gdc_Port = 6005, gdc_GRPCPort = 50051, gdc_PrometheusPort = 12112, gdc_Name = name,
      gdc_Host = ''testhost'', gdc_Path = ''/tmp/test'', gdc_Enabled = True, gdc_WriteOutput = True, gdc_Decode = False\<rparr>"

text \<open>The names count with a character from \<open>'1'\<close> on, for up to nine configurations.\<close>

definition NewTestGDCConfigurationList :: "nat \<Rightarrow> bool \<Rightarrow> GDCConfiguration list" where
  "NewTestGDCConfigurationList n enabled =
     map (\<lambda>i. \<lparr>gdc_ID = int i + 1, gdc_IP = ''127.0.0.1'', gdc_Port = 6005 + int i, gdc_GRPCPort = 50051 + int i,
       gdc_PrometheusPort = 12112 + int i, gdc_Name = ''testgdc'' @ [char_of (48 + i + 1)], gdc_Host = ''testhost'', gdc_Path = ''/tmp/test'',
       gdc_Enabled = enabled, gdc_WriteOutput = True, gdc_Decode = False\<rparr>) [0..<n]"

subsection \<open>The connection an LDC writes to (ldcRPC/testhelpers/mocks.go)\<close>

record ldc_MockTCPConn =
  lm_written :: "bytes list"
  lm_closed :: bool
  lm_WriteError :: "string option"

definition ldc_NewMockTCPConn :: ldc_MockTCPConn where
  "ldc_NewMockTCPConn = \<lparr>lm_written = [], lm_closed = False, lm_WriteError = None\<rparr>"

definition ldc_mock_Write :: "bytes \<Rightarrow> ldc_MockTCPConn \<Rightarrow> ldc_MockTCPConn \<times> (string + nat)" where
  "ldc_mock_Write b m =
     (case lm_WriteError m of
        Some err \<Rightarrow> (m, Inl err)
      | None \<Rightarrow> (m\<lparr>lm_written := lm_written m @ [b]\<rparr>, Inr (length b)))"

definition ldc_mock_SetWriteError :: "string option \<Rightarrow> ldc_MockTCPConn \<Rightarrow> ldc_MockTCPConn" where
  "ldc_mock_SetWriteError err m = m\<lparr>lm_WriteError := err\<rparr>"

definition ldc_mock_Close :: "ldc_MockTCPConn \<Rightarrow> ldc_MockTCPConn" where
  "ldc_mock_Close m = m\<lparr>lm_closed := True\<rparr>"

subsection \<open>The socket of an equipment (MockUDPConn)\<close>

text \<open>A nil map of errors can be read; writing to it panics.\<close>

record MockUDPConn =
  mu_readData :: "bytes list"
  mu_readAddrs :: "string list"
  mu_readIndex :: nat
  mu_readError :: "string option"
  mu_readErrorsAt :: "(nat \<rightharpoonup> string) option"
  mu_closed :: bool
  mu_deadline :: int
  mu_readDeadline :: int
  mu_writeDeadline :: int
  mu_blocking :: bool

datatype mock_read = MockBlocks | MockError string | MockPacket bytes string

definition NewMockUDPConn :: "bytes list \<Rightarrow> string \<Rightarrow> MockUDPConn" where
  "NewMockUDPConn packets sourceIP =
     \<lparr>mu_readData = packets, mu_readAddrs = map (\<lambda>_. sourceIP) packets, mu_readIndex = 0, mu_readError = None,
      mu_readErrorsAt = Some Map.empty, mu_closed = False, mu_deadline = 0, mu_readDeadline = 0, mu_writeDeadline = 0, mu_blocking = True\<rparr>"

definition NewMockUDPConnWithErrors :: "bytes list \<Rightarrow> string \<Rightarrow> (nat \<rightharpoonup> string) option \<Rightarrow> MockUDPConn" where
  "NewMockUDPConnWithErrors packets sourceIP errorsAt = (NewMockUDPConn packets sourceIP)\<lparr>mu_readErrorsAt := errorsAt\<rparr>"

definition NewMockUDPConnNonBlocking :: "bytes list \<Rightarrow> string \<Rightarrow> MockUDPConn" where
  "NewMockUDPConnNonBlocking packets sourceIP = (NewMockUDPConn packets sourceIP)\<lparr>mu_blocking := False\<rparr>"

definition NewMockUDPConnWithMixedAddrs :: "bytes list \<Rightarrow> string list \<Rightarrow> MockUDPConn" where
  "NewMockUDPConnWithMixedAddrs packets sourceIPs =
     \<lparr>mu_readData = packets,
      mu_readAddrs = map (\<lambda>i. if i < length sourceIPs then sourceIPs ! i else ''127.0.0.1'') [0..<length packets], mu_readIndex = 0,
      mu_readError = None, mu_readErrorsAt = Some Map.empty, mu_closed = False, mu_deadline = 0, mu_readDeadline = 0, mu_writeDeadline = 0,
      mu_blocking = True\<rparr>"

definition mock_ReadFromUDP :: "nat \<Rightarrow> MockUDPConn \<Rightarrow> MockUDPConn \<times> mock_read" where
  "mock_ReadFromUDP bufSize m =
     (case mu_readError m of
        Some err \<Rightarrow> (m, MockError err)
      | None \<Rightarrow>
          (case Option.bind (mu_readErrorsAt m) (\<lambda>errs. errs (mu_readIndex m)) of
             Some err \<Rightarrow> (m\<lparr>mu_readIndex := mu_readIndex m + 1\<rparr>, MockError err)
           | None \<Rightarrow>
               if mu_readIndex m \<ge> length (mu_readData m)
               then (m, if mu_blocking m then MockBlocks else MockError ''i/o timeout'')
               else (m\<lparr>mu_readIndex := mu_readIndex m + 1\<rparr>,
                     MockPacket (take bufSize (mu_readData m ! mu_readIndex m)) (mu_readAddrs m ! mu_readIndex m))))"

definition mock_SetReadError :: "string option \<Rightarrow> MockUDPConn \<Rightarrow> MockUDPConn" where
  "mock_SetReadError err m = m\<lparr>mu_readError := err\<rparr>"

definition mock_SetReadErrorAt :: "nat \<Rightarrow> string \<Rightarrow> MockUDPConn \<Rightarrow> MockUDPConn outcome" where
  "mock_SetReadErrorAt index err m =
     (case mu_readErrorsAt m of None \<Rightarrow> Panic | Some errs \<Rightarrow> Ok (m\<lparr>mu_readErrorsAt := Some (errs(index \<mapsto> err))\<rparr>))"

definition mock_ClearReadErrors :: "MockUDPConn \<Rightarrow> MockUDPConn" where
  "mock_ClearReadErrors m = m\<lparr>mu_readError := None, mu_readErrorsAt := Some Map.empty\<rparr>"

definition mock_ResetReadIndex :: "MockUDPConn \<Rightarrow> MockUDPConn" where
  "mock_ResetReadIndex m = m\<lparr>mu_readIndex := 0\<rparr>"

definition mock_udp_Close :: "MockUDPConn \<Rightarrow> MockUDPConn" where
  "mock_udp_Close m = m\<lparr>mu_closed := True\<rparr>"

definition mock_SetDeadline :: "int \<Rightarrow> MockUDPConn \<Rightarrow> MockUDPConn" where
  "mock_SetDeadline t m = m\<lparr>mu_deadline := t, mu_readDeadline := t, mu_writeDeadline := t\<rparr>"

definition mock_SetReadDeadline :: "int \<Rightarrow> MockUDPConn \<Rightarrow> MockUDPConn" where
  "mock_SetReadDeadline t m = m\<lparr>mu_readDeadline := t\<rparr>"

definition mock_SetWriteDeadline :: "int \<Rightarrow> MockUDPConn \<Rightarrow> MockUDPConn" where
  "mock_SetWriteDeadline t m = m\<lparr>mu_writeDeadline := t\<rparr>"

text \<open>A read of the readout from the mock: the datagram and whether it is from the device.\<close>

definition mock_udp_read :: "nat \<Rightarrow> string \<Rightarrow> MockUDPConn \<Rightarrow> MockUDPConn \<times> udp_read option" where
  "mock_udp_read bufSize deviceIP m =
     (case mock_ReadFromUDP bufSize m of
        (m', MockBlocks) \<Rightarrow> (m', None)
      | (m', MockError err) \<Rightarrow> (m', Some (UdpError err))
      | (m', MockPacket data addr) \<Rightarrow> (m', Some (UdpPacket data (addr = deviceIP))))"

subsection \<open>Pingers\<close>

record MockPinger =
  mp_PingResults :: "string \<rightharpoonup> bool"
  mp_PingErrors :: "string \<rightharpoonup> string"
  mp_RunErrors :: "string \<rightharpoonup> string"
  mp_PacketsRecv :: "string \<rightharpoonup> int"
  mp_DefaultRecv :: int

definition NewMockPinger :: MockPinger where
  "NewMockPinger = \<lparr>mp_PingResults = Map.empty, mp_PingErrors = Map.empty, mp_RunErrors = Map.empty, mp_PacketsRecv = Map.empty,
     mp_DefaultRecv = 2\<rparr>"

definition SetPingSuccess :: "string \<Rightarrow> bool \<Rightarrow> MockPinger \<Rightarrow> MockPinger" where
  "SetPingSuccess ip success m =
     m\<lparr>mp_PingResults := (mp_PingResults m)(ip \<mapsto> success), mp_PacketsRecv := (mp_PacketsRecv m)(ip \<mapsto> (if success then 2 else 0))\<rparr>"

definition SetPingError :: "string \<Rightarrow> string \<Rightarrow> MockPinger \<Rightarrow> MockPinger" where
  "SetPingError ip err m = m\<lparr>mp_PingErrors := (mp_PingErrors m)(ip \<mapsto> err)\<rparr>"

definition SetRunError :: "string \<Rightarrow> string \<Rightarrow> MockPinger \<Rightarrow> MockPinger" where
  "SetRunError ip err m = m\<lparr>mp_RunErrors := (mp_RunErrors m)(ip \<mapsto> err)\<rparr>"

definition SetPacketsRecv :: "string \<Rightarrow> int \<Rightarrow> MockPinger \<Rightarrow> MockPinger" where
  "SetPacketsRecv ip n m = m\<lparr>mp_PacketsRecv := (mp_PacketsRecv m)(ip \<mapsto> n)\<rparr>"

definition GetPacketsRecv :: "string \<Rightarrow> MockPinger \<Rightarrow> int" where
  "GetPacketsRecv ip m = (case mp_PacketsRecv m ip of Some n \<Rightarrow> n | None \<Rightarrow> mp_DefaultRecv m)"

record MockPingerAdapter =
  ma_ip :: string
  ma_count :: int
  ma_timeout :: int

record MockPingerFactory =
  mf_mock :: MockPinger
  mf_adapters :: "MockPingerAdapter list"

definition NewMockPingerFactory :: "MockPinger \<Rightarrow> MockPingerFactory" where
  "NewMockPingerFactory m = \<lparr>mf_mock = m, mf_adapters = []\<rparr>"

definition GetLastCreatedAdapter :: "MockPingerFactory \<Rightarrow> MockPingerAdapter option" where
  "GetLastCreatedAdapter f = (if mf_adapters f = [] then None else Some (mf_adapters f ! (length (mf_adapters f) - 1)))"

definition mock_NewPinger :: "string \<Rightarrow> MockPingerFactory \<Rightarrow> MockPingerFactory \<times> (string + MockPingerAdapter)" where
  "mock_NewPinger ip f =
     (case mp_PingErrors (mf_mock f) ip of
        Some err \<Rightarrow> (f, Inl err)
      | None \<Rightarrow>
          let adapter = \<lparr>ma_ip = ip, ma_count = 0, ma_timeout = 0\<rparr>
          in (f\<lparr>mf_adapters := mf_adapters f @ [adapter]\<rparr>, Inr adapter))"

text \<open>What \<open>pingDevices\<close> gets from the mock for an address: the adapter, its run, the packets received.\<close>

definition mock_ping :: "MockPinger \<Rightarrow> string \<Rightarrow> ping_result" where
  "mock_ping m ip =
     (case snd (mock_NewPinger ip (NewMockPingerFactory m)) of
        Inl err \<Rightarrow> NewPingerFailed err
      | Inr adapter \<Rightarrow>
          (case mp_RunErrors m (ma_ip adapter) of
             Some err \<Rightarrow> RunFailed err
           | None \<Rightarrow> PacketsRecv (GetPacketsRecv (ma_ip adapter) m)))"

subsection \<open>The connection a GDC reads from (gdcRPC/testhelpers/mocks.go)\<close>

record gdc_MockTCPConn =
  mt_ReadData :: "bytes list"
  mt_ReadIndex :: nat
  mt_CloseCalled :: bool
  mt_ReadError :: "string option"

definition gdc_NewMockTCPConn :: "bytes list \<Rightarrow> gdc_MockTCPConn" where
  "gdc_NewMockTCPConn data = \<lparr>mt_ReadData = data, mt_ReadIndex = 0, mt_CloseCalled = False, mt_ReadError = None\<rparr>"

text \<open>
  The rest of a chunk that is longer than the buffer is stored in the next place of the slice: the \<open>append\<close> before it joins the
  two halves of the slice that it was cut into. After the last chunk there is no such place and the second half is out of range.
\<close>

definition gdc_mock_Read :: "nat \<Rightarrow> gdc_MockTCPConn \<Rightarrow> (gdc_MockTCPConn \<times> (string + bytes)) outcome" where
  "gdc_mock_Read bufSize m =
     (case mt_ReadError m of
        Some err \<Rightarrow> Ok (m, Inl err)
      | None \<Rightarrow>
          if mt_ReadIndex m \<ge> length (mt_ReadData m) then Ok (m, Inl ''EOF'')
          else
            let data = mt_ReadData m ! mt_ReadIndex m;
                copied = min bufSize (length data);
                index = mt_ReadIndex m + 1
            in if copied < length data
               then if index + 1 > length (mt_ReadData m) then Panic
                    else Ok (m\<lparr>mt_ReadIndex := index,
                               mt_ReadData := (take (index + 1) (mt_ReadData m) @ drop (index + 1) (mt_ReadData m))[index := drop copied data]\<rparr>,
                             Inr (take copied data))
               else Ok (m\<lparr>mt_ReadIndex := index\<rparr>, Inr data))"

definition gdc_mock_SetReadError :: "string option \<Rightarrow> gdc_MockTCPConn \<Rightarrow> gdc_MockTCPConn" where
  "gdc_mock_SetReadError err m = m\<lparr>mt_ReadError := err\<rparr>"

definition gdc_mock_Close :: "gdc_MockTCPConn \<Rightarrow> gdc_MockTCPConn" where
  "gdc_mock_Close m = m\<lparr>mt_CloseCalled := True\<rparr>"

text \<open>The chunks that \<open>handleConnection\<close> reads from a mock up to the end of the file; an error it reads is logged, and it reads again.\<close>

fun mock_chunks :: "nat \<Rightarrow> gdc_MockTCPConn \<Rightarrow> bytes list option outcome" where
  "mock_chunks 0 m = Ok None"
| "mock_chunks (Suc fuel) m =
     (case gdc_mock_Read 9600 m of
        Panic \<Rightarrow> Panic
      | Ok (m', Inl err) \<Rightarrow> if err = ''EOF'' then Ok (Some []) else mock_chunks fuel m'
      | Ok (m', Inr chunk) \<Rightarrow> bind_outcome (mock_chunks fuel m') (\<lambda>r. Ok (map_option ((#) chunk) r)))"

subsection \<open>Files\<close>

record MockFileCloser =
  mc_Filename :: string
  mc_CloseCalled :: bool
  mc_WriteCalls :: nat
  mc_WriteData :: "bytes list"
  mc_WriteErrors :: "string option list"
  mc_CloseError :: "string option"

definition NewMockFileCloser :: "string \<Rightarrow> MockFileCloser" where
  "NewMockFileCloser filename = \<lparr>mc_Filename = filename, mc_CloseCalled = False, mc_WriteCalls = 0, mc_WriteData = [], mc_WriteErrors = [],
     mc_CloseError = None\<rparr>"

definition MockWrite :: "bytes \<Rightarrow> MockFileCloser \<Rightarrow> MockFileCloser \<times> string option" where
  "MockWrite data m =
     (let m1 = m\<lparr>mc_WriteCalls := mc_WriteCalls m + 1, mc_WriteData := mc_WriteData m @ [data]\<rparr>
      in case mc_WriteErrors m1 of
           err # errs \<Rightarrow> (m1\<lparr>mc_WriteErrors := errs\<rparr>, err)
         | [] \<Rightarrow> (m1, None))"

definition MockClose :: "MockFileCloser \<Rightarrow> MockFileCloser \<times> string option" where
  "MockClose m = (m\<lparr>mc_CloseCalled := True\<rparr>, mc_CloseError m)"

definition SetNextWriteError :: "string option \<Rightarrow> MockFileCloser \<Rightarrow> MockFileCloser" where
  "SetNextWriteError err m = m\<lparr>mc_WriteErrors := mc_WriteErrors m @ [err]\<rparr>"

definition SetCloseError :: "string option \<Rightarrow> MockFileCloser \<Rightarrow> MockFileCloser" where
  "SetCloseError err m = m\<lparr>mc_CloseError := err\<rparr>"

definition GetTotalBytesWritten :: "MockFileCloser \<Rightarrow> nat" where
  "GetTotalBytesWritten m = foldl (\<lambda>total data. total + length data) 0 (mc_WriteData m)"

subsection \<open>Sub-events (gdcRPC/testhelpers/fixtures.go)\<close>

definition CreateLDCEventData :: "int \<Rightarrow> int \<Rightarrow> nat \<Rightarrow> bytes" where
  "CreateLDCEventData eventID ldcID dataSize =
     (let totalSize = 80 + dataSize;
          header = put_le32_at 64 (word_of_int ldcID) (put_le32_at 24 (word_of_int eventID) (put_le32_at 20 123
            (put_le32_at 16 (event_type_code PHYSICS_EVENT) (put_le32_at 12 EVENT_CURRENT_VERSION (put_le32_at 8 80
              (put_le32_at 4 EVENT_MAGIC_NUMBER (put_le32_at 0 (of_nat totalSize) (replicate totalSize 0))))))))
      in put_at 80 (map (\<lambda>i. of_nat (i mod 256)) [80..<totalSize]) header)"

subsection \<open>Contexts\<close>

text \<open>The values that a context holds, by their Go type; the latest value of a key counts.\<close>

datatype ctx_value =
    CtxInt int | CtxBool bool | CtxString string | CtxGDCConfiguration GDCConfiguration | CtxLDCConfiguration LDCConfiguration
  | CtxDecoderConfiguration DecoderConfiguration | CtxStringChan nat | CtxCancelFunc

type_synonym ctx = "string \<rightharpoonup> ctx_value"

definition WithValue :: "string \<Rightarrow> ctx_value \<Rightarrow> ctx \<Rightarrow> ctx" where
  "WithValue key v c = c(key \<mapsto> v)"

definition ldc_NewMockContextBuilder :: ctx where
  "ldc_NewMockContextBuilder = Map.empty"

definition WithLDCConfiguration :: "LDCConfiguration \<Rightarrow> ctx \<Rightarrow> ctx" where
  "WithLDCConfiguration c = WithValue ''ldcConfiguration'' (CtxLDCConfiguration c)"

definition WithListenerCounter :: "nat \<Rightarrow> ctx \<Rightarrow> ctx" where
  "WithListenerCounter ch = WithValue ''listenerCounter'' (CtxStringChan ch)"

definition WithListenerClosedCounter :: "nat \<Rightarrow> ctx \<Rightarrow> ctx" where
  "WithListenerClosedCounter ch = WithValue ''listenerClosedCounter'' (CtxStringChan ch)"

definition WithNEnabledEquipments :: "int \<Rightarrow> ctx \<Rightarrow> ctx" where
  "WithNEnabledEquipments n = WithValue ''nEnabledEquipments'' (CtxInt n)"

definition WithPacketBufferSize :: "int \<Rightarrow> ctx \<Rightarrow> ctx" where
  "WithPacketBufferSize n = WithValue ''packetBufferSize'' (CtxInt n)"

definition WithNPacketsInBuffer :: "int \<Rightarrow> ctx \<Rightarrow> ctx" where
  "WithNPacketsInBuffer n = WithValue ''nPacketsInBuffer'' (CtxInt n)"

definition gdc_NewMockContextBuilder :: ctx where
  "gdc_NewMockContextBuilder = WithValue ''cancelCtx'' CtxCancelFunc Map.empty"

definition WithRunNumber :: "int \<Rightarrow> ctx \<Rightarrow> ctx" where
  "WithRunNumber n = WithValue ''runNumber'' (CtxInt n)"

definition WithGDCConfiguration :: "GDCConfiguration \<Rightarrow> ctx \<Rightarrow> ctx" where
  "WithGDCConfiguration c = WithValue ''gdcConfiguration'' (CtxGDCConfiguration c)"

definition WithExperiment :: "string \<Rightarrow> ctx \<Rightarrow> ctx" where
  "WithExperiment experiment = WithValue ''experiment'' (CtxString experiment)"

definition WithMaxFilesize :: "int \<Rightarrow> ctx \<Rightarrow> ctx" where
  "WithMaxFilesize n = WithValue ''maxFilesize'' (CtxInt n)"

definition WithDecoderConfig :: "DecoderConfiguration \<Rightarrow> ctx \<Rightarrow> ctx" where
  "WithDecoderConfig c = WithValue ''decoderConfig'' (CtxDecoderConfiguration c)"

definition WithNGDCs :: "int \<Rightarrow> ctx \<Rightarrow> ctx" where
  "WithNGDCs n = WithValue ''nGDCs'' (CtxInt n)"

definition WithWriteOutput :: "bool \<Rightarrow> ctx \<Rightarrow> ctx" where
  "WithWriteOutput b = WithValue ''writeOutput'' (CtxBool b)"

definition WithDecode :: "bool \<Rightarrow> ctx \<Rightarrow> ctx" where
  "WithDecode b = WithValue ''decode'' (CtxBool b)"

definition WithDecoderWorkers :: "int \<Rightarrow> ctx \<Rightarrow> ctx" where
  "WithDecoderWorkers n = WithValue ''decoderWorkers'' (CtxInt n)"

definition WithWriterChBufferSize :: "int \<Rightarrow> ctx \<Rightarrow> ctx" where
  "WithWriterChBufferSize n = WithValue ''writerChBufferSize'' (CtxInt n)"

definition WithDecoderChBufferSize :: "int \<Rightarrow> ctx \<Rightarrow> ctx" where
  "WithDecoderChBufferSize n = WithValue ''decoderChBufferSize'' (CtxInt n)"

definition WithMetricsChBufferSize :: "int \<Rightarrow> ctx \<Rightarrow> ctx" where
  "WithMetricsChBufferSize n = WithValue ''metricsChBufferSize'' (CtxInt n)"

definition WithChannelSizes :: "int \<Rightarrow> int \<Rightarrow> int \<Rightarrow> int \<Rightarrow> ctx \<Rightarrow> ctx" where
  "WithChannelSizes metrics tcpConn writer decoder c =
     WithValue ''decoderChBufferSize'' (CtxInt decoder) (WithValue ''writerChBufferSize'' (CtxInt writer)
       (WithValue ''tcpConnChBufferSize'' (CtxInt tcpConn) (WithValue ''metricsChBufferSize'' (CtxInt metrics) c)))"

text \<open>A struct literal leaves the fields it does not name at their zero values.\<close>

definition zero_decoder_config :: DecoderConfiguration where
  "zero_decoder_config = \<lparr>dec_ExtTrigger = 0, dec_TrgCode1 = 0, dec_TrgCode2 = 0, dec_ReadPMTs = False, dec_ReadSiPMs = False,
     dec_ReadTrigger = False, dec_ReadFibers = False, dec_SplitTrigger = False, dec_NoDB = False, dec_Discard = False, dec_Host = [],
     dec_User = [], dec_Passwd = [], dec_DBName = [], dec_WriteData = False, dec_UseBlosc = False, dec_BloscAlgorithm = [],
     dec_CompressionLevel = 0, dec_BitShuffle = []\<rparr>"

definition CreateTestContext :: "GDCConfiguration \<Rightarrow> int \<Rightarrow> ctx" where
  "CreateTestContext gdcConfig runNumber =
     WithDecoderConfig (zero_decoder_config\<lparr>dec_TrgCode2 := 1\<rparr>) (WithChannelSizes 100 100 100 100 (WithDecoderWorkers 1 (WithDecode False
       (WithWriteOutput True (WithNGDCs 1 (WithMaxFilesize 1000000000 (WithExperiment ''next100''
         (WithGDCConfiguration gdcConfig (WithRunNumber runNumber gdc_NewMockContextBuilder)))))))))"

subsection \<open>Decoder configurations and events (decoder fixtures)\<close>

definition CreateTestDecoderConfig :: DecoderConfiguration where
  "CreateTestDecoderConfig = \<lparr>dec_ExtTrigger = 1, dec_TrgCode1 = 1, dec_TrgCode2 = 2, dec_ReadPMTs = True, dec_ReadSiPMs = True,
     dec_ReadTrigger = True, dec_ReadFibers = True, dec_SplitTrigger = False, dec_NoDB = False, dec_Discard = False, dec_Host = ''localhost'',
     dec_User = ''test_user'', dec_Passwd = ''test_password'', dec_DBName = ''test_db'', dec_WriteData = True, dec_UseBlosc = True,
     dec_BloscAlgorithm = ''blosclz'', dec_CompressionLevel = 5, dec_BitShuffle = ''bitshuffle''\<rparr>"

definition CreateTestDecoderConfigNoWrite :: DecoderConfiguration where
  "CreateTestDecoderConfigNoWrite = CreateTestDecoderConfig\<lparr>dec_WriteData := False\<rparr>"

definition CreateTestDecoderConfigSplitTrigger :: DecoderConfiguration where
  "CreateTestDecoderConfigSplitTrigger = CreateTestDecoderConfig\<lparr>dec_SplitTrigger := True, dec_TrgCode1 := 1, dec_TrgCode2 := 2\<rparr>"

definition CreateTestDecoderConfigWithBlosc :: "string \<Rightarrow> string \<Rightarrow> int \<Rightarrow> DecoderConfiguration" where
  "CreateTestDecoderConfigWithBlosc algorithm shuffle level =
     CreateTestDecoderConfig\<lparr>dec_BloscAlgorithm := algorithm, dec_BitShuffle := shuffle, dec_CompressionLevel := level, dec_UseBlosc := True\<rparr>"

definition CreateMinimalDecoderConfig :: DecoderConfiguration where
  "CreateMinimalDecoderConfig = zero_decoder_config\<lparr>dec_NoDB := True\<rparr>"

definition CreateTestDecoderConfigWithDB :: "string \<Rightarrow> string \<Rightarrow> string \<Rightarrow> string \<Rightarrow> DecoderConfiguration" where
  "CreateTestDecoderConfigWithDB host user passwd dbname =
     CreateTestDecoderConfig\<lparr>dec_Host := host, dec_User := user, dec_Passwd := passwd, dec_DBName := dbname, dec_NoDB := False\<rparr>"

definition CreateTestDecoderConfigNoDB :: DecoderConfiguration where
  "CreateTestDecoderConfigNoDB =
     CreateTestDecoderConfig\<lparr>dec_NoDB := True, dec_Host := [], dec_User := [], dec_Passwd := [], dec_DBName := []\<rparr>"

definition int_bytes :: "int \<Rightarrow> bytes" where
  "int_bytes n = map (\<lambda>k. word_of_int (n div 256 ^ k)) [0, 1, 2, 3]"

definition CreateValidGDCEventHeader :: "int \<Rightarrow> bytes" where
  "CreateValidGDCEventHeader eventID = [0x47, 0x44, 0x43, 0x00] @ int_bytes eventID @ [0, 0, 0, 0]"

definition CreateValidGDCEvent :: "int \<Rightarrow> nat \<Rightarrow> bytes" where
  "CreateValidGDCEvent eventID payloadSize =
     put_at 8 (int_bytes (int payloadSize)) (CreateValidGDCEventHeader eventID) @ map (\<lambda>i. of_nat (i mod 256)) [0..<payloadSize]"

definition CreateInvalidGDCEvent :: bytes where
  "CreateInvalidGDCEvent = [0xFF, 0xFF, 0xFF, 0xFF, 0x00, 0x00, 0x00, 0x01, 0x00, 0x00, 0x00, 0x00]"

definition CreateMalformedGDCEvent :: bytes where
  "CreateMalformedGDCEvent = [0x47, 0x44, 0x43]"

section \<open>The fixtures are what the processes receive\<close>

lemma word_kept:
  assumes "i + 4 \<le> j \<or> j + length bs \<le> i" "j + length bs \<le> length s" "i + 4 \<le> length s"
  shows "le32_at (put_at j bs s) i = le32_at s i"
proof -
  have "put_at j bs s ! k = s ! k" if "k < j \<or> j + length bs \<le> k" "k < length s" for k
    using that assms(2) by (auto simp: put_at_def nth_append min_def)
  with assms show ?thesis by (auto simp: le32_at_def)
qed

lemma word_put: "j + 4 \<le> length s \<Longrightarrow> le32_at (put_at j (put_le32 w) s) j = w"
  by (simp add: put_at_def le32_at_def nth_append put_le32_def)

lemma length_CreateLDCEventData [simp]: "length (CreateLDCEventData e l n) = 80 + n"
  by (simp add: CreateLDCEventData_def Let_def put_le32_at_def)

lemma CreateLDCEventData_words:
  "le32_at (CreateLDCEventData e l n) 0 = of_nat (80 + n)" "le32_at (CreateLDCEventData e l n) 4 = EVENT_MAGIC_NUMBER"
  "le32_at (CreateLDCEventData e l n) 24 = word_of_int e" "le32_at (CreateLDCEventData e l n) 64 = word_of_int l"
  by (simp_all add: CreateLDCEventData_def Let_def word_kept word_put put_le32_at_def)

lemma CreateLDCEventData_event:
  assumes "80 + n < 2 ^ 32" "0 \<le> e" "e < 2 ^ 32" "0 \<le> l" "l < 2 ^ 32"
  shows "valid_event (CreateLDCEventData e l n)"
    "ldc_data_of (CreateLDCEventData e l n) = \<lparr>ld_EventID = e, ld_ldcID = l, ld_Data = CreateLDCEventData e l n\<rparr>"
  using assms CreateLDCEventData_words [of e l n]
  by (simp_all add: valid_event_def ldc_data_of_def uint_word_of_int_eq take_bit_int_eq_self)

lemma mock_chunks_from:
  assumes "\<forall>c \<in> set (drop (mt_ReadIndex m) (mt_ReadData m)). length c \<le> 9600" "mt_ReadError m = None"
    and "length (mt_ReadData m) - mt_ReadIndex m < fuel"
  shows "mock_chunks fuel m = Ok (Some (drop (mt_ReadIndex m) (mt_ReadData m)))"
  using assms
proof (induction fuel arbitrary: m)
  case (Suc fuel)
  show ?case
  proof (cases "mt_ReadIndex m < length (mt_ReadData m)")
    case True
    then have hd: "drop (mt_ReadIndex m) (mt_ReadData m) = mt_ReadData m ! mt_ReadIndex m # drop (Suc (mt_ReadIndex m)) (mt_ReadData m)"
      by (rule Cons_nth_drop_Suc [symmetric])
    then have "length (mt_ReadData m ! mt_ReadIndex m) \<le> 9600" using Suc.prems(1) by simp
    then have "gdc_mock_Read 9600 m = Ok (m\<lparr>mt_ReadIndex := Suc (mt_ReadIndex m)\<rparr>, Inr (mt_ReadData m ! mt_ReadIndex m))"
      using True Suc.prems(2) by (simp add: gdc_mock_Read_def Let_def)
    moreover have "mock_chunks fuel (m\<lparr>mt_ReadIndex := Suc (mt_ReadIndex m)\<rparr>) = Ok (Some (drop (Suc (mt_ReadIndex m)) (mt_ReadData m)))"
      using Suc.IH [of "m\<lparr>mt_ReadIndex := Suc (mt_ReadIndex m)\<rparr>"] Suc.prems True hd by simp
    ultimately show ?thesis by (simp add: hd)
  next
    case False
    then show ?thesis using Suc.prems(2) by (simp add: gdc_mock_Read_def)
  qed
qed simp

text \<open>
  C18. The sub-events and the connection of the GDC's unit tests. A mock connection with chunks of at most the size of the read buffer hands
  \<open>handleConnection\<close> exactly these chunks and then the end of the file; when they hold, cut in any way, sub-events of \<open>CreateLDCEventData\<close> with
  numbers that go up by the number of GDCs, the handler sends on exactly these, with their numbers and LDC, and asks for no stop.
  A chunk longer than the buffer, though, is not cut in two: its rest takes the place of the next chunk, which is never read, and
  there is a panic when it is the last.
\<close>

theorem mock_connection_reads:
  fixes m :: nat
  assumes "\<forall>c \<in> set chunks. length c \<le> 9600" and cap: "\<forall>k. k \<le> cap k" and "0 \<le> nGDCs" "0 \<le> ldcID" "ldcID < 2 ^ 32"
    and ids: "\<forall>k < m. 0 \<le> first + int k * nGDCs \<and> first + int k * nGDCs < 2 ^ 32 \<and> 80 + sz k < 2 ^ 32"
    and "concat chunks = concat (map (\<lambda>k. CreateLDCEventData (first + int k * nGDCs) ldcID (sz k)) [0..<m])"
    and long: "9600 < length a" "length a \<le> 2 * 9600"
  shows "mock_chunks (length chunks + 1) (gdc_NewMockTCPConn chunks) = Ok (Some chunks) \<and>
    (\<exists>c. handle_chunks cap (Some nGDCs) chunks conn_init = Ok c \<and> lc_stops c = [] \<and>
      lc_out c = map (\<lambda>k. \<lparr>ld_EventID = first + int k * nGDCs, ld_ldcID = ldcID,
        ld_Data = CreateLDCEventData (first + int k * nGDCs) ldcID (sz k)\<rparr>) [0..<m]) \<and>
    mock_chunks (length chunks + 3) (gdc_NewMockTCPConn (a # b # chunks)) = Ok (Some (take 9600 a # drop 9600 a # chunks)) \<and>
    mock_chunks 1 (gdc_NewMockTCPConn [a]) = Panic"
proof -
  let ?es = "map (\<lambda>k. CreateLDCEventData (first + int k * nGDCs) ldcID (sz k)) [0..<m]"
  have ev: "valid_event (CreateLDCEventData (first + int k * nGDCs) ldcID (sz k))"
      "ldc_data_of (CreateLDCEventData (first + int k * nGDCs) ldcID (sz k)) =
        \<lparr>ld_EventID = first + int k * nGDCs, ld_ldcID = ldcID, ld_Data = CreateLDCEventData (first + int k * nGDCs) ldcID (sz k)\<rparr>"
    if "k < m" for k
    using CreateLDCEventData_event [of "sz k" "first + int k * nGDCs" ldcID] ids that assms(4,5) by auto
  then have valid: "\<forall>e \<in> set ?es. valid_event e" by auto
  have ne: "example_event 1 \<noteq> []" using example_event_valid [of 1] by (auto simp: valid_event_def)
  have "concat chunks = concat ?es @ []" using assms(7) by simp
  from handle_chunks_whole [OF cap valid this example_event_valid [of 1] append_Nil [symmetric] ne assms(3)]
  obtain c where c: "handle_chunks cap (Some nGDCs) chunks conn_init = Ok c" "lc_out c = map ldc_data_of ?es"
      "lc_stops c = [] \<longleftrightarrow> ?es = [] \<or> in_sequence nGDCs (uint (le32_at (hd ?es) 24)) ?es"
    by blast
  have "in_sequence nGDCs (uint (le32_at (hd ?es) 24)) ?es" if "?es \<noteq> []"
  proof -
    have "0 < m" using that by simp
    then have "hd ?es = CreateLDCEventData first ldcID (sz 0)" by (simp add: upt_conv_Cons)
    moreover have "uint (word_of_int first :: u32) = first" using ids \<open>0 < m\<close> by (auto simp: uint_word_of_int_eq take_bit_int_eq_self)
    ultimately show ?thesis by (simp add: in_sequence_def CreateLDCEventData_words)
  qed
  then have "lc_stops c = []" using c(3) by blast
  moreover have "lc_out c = map (\<lambda>k. \<lparr>ld_EventID = first + int k * nGDCs, ld_ldcID = ldcID,
        ld_Data = CreateLDCEventData (first + int k * nGDCs) ldcID (sz k)\<rparr>) [0..<m]"
    using c(2) ev(2) by simp
  moreover have "mock_chunks (length chunks + 1) (gdc_NewMockTCPConn chunks) = Ok (Some chunks)"
    using mock_chunks_from [of "gdc_NewMockTCPConn chunks" "length chunks + 1"] assms(1) by (simp add: gdc_NewMockTCPConn_def)
  moreover have "mock_chunks (length chunks + 3) (gdc_NewMockTCPConn (a # b # chunks)) = Ok (Some (take 9600 a # drop 9600 a # chunks))"
    using long assms(1) mock_chunks_from [of "\<lparr>mt_ReadData = a # drop 9600 a # chunks, mt_ReadIndex = 1, mt_CloseCalled = False,
        mt_ReadError = None\<rparr>" "length chunks + 2"]
    by (simp add: gdc_NewMockTCPConn_def gdc_mock_Read_def numeral_3_eq_3 Let_def)
  moreover have "mock_chunks 1 (gdc_NewMockTCPConn [a]) = Panic"
    using long by (simp add: gdc_NewMockTCPConn_def gdc_mock_Read_def Let_def)
  ultimately show ?thesis using c(1) by blast
qed

text \<open>One sub-event in one chunk, and a chunk that is one byte too long.\<close>

theorem mock_connection_reads_witness:
  "mock_chunks (length [CreateLDCEventData 1 3 2] + 1) (gdc_NewMockTCPConn [CreateLDCEventData 1 3 2]) = Ok (Some [CreateLDCEventData 1 3 2]) \<and>
   (\<exists>c. handle_chunks (\<lambda>k. k) (Some 2) [CreateLDCEventData 1 3 2] conn_init = Ok c \<and>
     lc_out c = [\<lparr>ld_EventID = 1, ld_ldcID = 3, ld_Data = CreateLDCEventData 1 3 2\<rparr>]) \<and>
   mock_chunks 1 (gdc_NewMockTCPConn [replicate 9601 0]) = Panic"
  using mock_connection_reads [of "[CreateLDCEventData 1 3 2]" "\<lambda>k. k" 2 3 1 1 "\<lambda>k. 2" "replicate 9601 0" "[]"]
  by (auto simp del: mock_chunks.simps handle_chunks.simps)

subsection \<open>The equipment's socket\<close>

text \<open>The packets of the device that so many reads of the socket give.\<close>

fun mock_udp_packets :: "nat \<Rightarrow> nat \<Rightarrow> string \<Rightarrow> MockUDPConn \<Rightarrow> bytes list" where
  "mock_udp_packets 0 bufSize ip m = []"
| "mock_udp_packets (Suc n) bufSize ip m =
     (case mock_udp_read bufSize ip m of
        (m', None) \<Rightarrow> []
      | (m', Some (UdpError err)) \<Rightarrow> mock_udp_packets n bufSize ip m'
      | (m', Some (UdpPacket data fromDevice)) \<Rightarrow> (if fromDevice then [data] else []) @ mock_udp_packets n bufSize ip m')"

lemma mock_udp_from:
  assumes "mu_readError m = None" "mu_readErrorsAt m = Some Map.empty" "\<forall>p \<in> set (mu_readData m). length p \<le> bufSize"
    and "mu_readAddrs m = map (\<lambda>_. ip) (mu_readData m)" "length (mu_readData m) - mu_readIndex m \<le> n"
  shows "mock_udp_packets n bufSize ip m = drop (mu_readIndex m) (mu_readData m)"
  using assms
proof (induction n arbitrary: m)
  case (Suc n)
  show ?case
  proof (cases "mu_readIndex m < length (mu_readData m)")
    case True
    then have hd: "drop (mu_readIndex m) (mu_readData m) = mu_readData m ! mu_readIndex m # drop (Suc (mu_readIndex m)) (mu_readData m)"
      by (rule Cons_nth_drop_Suc [symmetric])
    have "length (mu_readData m ! mu_readIndex m) \<le> bufSize" using Suc.prems(3) True by simp
    then have "mock_udp_read bufSize ip m = (m\<lparr>mu_readIndex := Suc (mu_readIndex m)\<rparr>, Some (UdpPacket (mu_readData m ! mu_readIndex m) True))"
      using Suc.prems(1,2,4) True by (simp add: mock_udp_read_def mock_ReadFromUDP_def)
    then show ?thesis using Suc.IH [of "m\<lparr>mu_readIndex := Suc (mu_readIndex m)\<rparr>"] Suc.prems hd by simp
  next
    case False
    then have none: "mock_udp_read bufSize ip m = (m, if mu_blocking m then None else Some (UdpError ''i/o timeout''))"
      using Suc.prems(1,2) by (simp add: mock_udp_read_def mock_ReadFromUDP_def)
    then show ?thesis using Suc.IH [OF Suc.prems(1-4)] False by simp
  qed
qed simp

definition fixture_segment :: "nat \<Rightarrow> nat \<Rightarrow> bytes list" where
  "fixture_segment packetSize n = map (\<lambda>i. put_be32 (of_nat i) @ ramp i packetSize) [0..<n]"

lemma GenerateTestPacket_bytes: "GenerateTestPacket (int i) payload = put_be32 (of_nat i) @ payload"
  by (simp add: GenerateTestPacket_def put_at_def put_be32_at_def)

lemma complete_event: "GenerateCompleteEvent n packetSize = fixture_segment packetSize n @ [put_le32 END_WORD]"
  by (simp add: GenerateCompleteEvent_def fixture_segment_def GenerateTestPacket_bytes GenerateEndMarker_def put_le32_at_def put_at_def END_WORD_def)

lemma fixture_segment_ok:
  assumes "0 < packetSize"
  shows "seg_ok 0 (fixture_segment packetSize n)" "\<forall>p \<in> set (fixture_segment packetSize n). \<not> is_end p"
proof -
  let ?f = "\<lambda>i. put_be32 (of_nat i) @ ramp i packetSize"
  have len: "length (?f i) = 4 + packetSize" for i by (simp add: ramp_def)
  then have "4 < length (?f i)" for i using assms by simp
  from seg_ok_upt [of ?f 0 n, OF this] show "seg_ok 0 (fixture_segment packetSize n)" by (simp add: fixture_segment_def be32_at_put_be32)
  show "\<forall>p \<in> set (fixture_segment packetSize n). \<not> is_end p" using len assms by (auto simp: fixture_segment_def is_end_def)
qed

text \<open>
  The packets and the socket of the LDC's unit tests. A mock socket that is filled with complete events, from the device's address and with packets
  that fit the buffer, hands out exactly these packets, once each and in order, and blocks or times out afterwards; an LDC that
  receives them emits one block for each event, numbered from one, with the payloads it was made of, and asks for no stop. The other
  generators give the same packets.
\<close>

theorem mock_socket_read_out:
  assumes "0 < packetSize" "4 + packetSize \<le> bufSize" and packets: "packets = concat (map (\<lambda>n. GenerateCompleteEvent n packetSize) ns)"
    and "length packets \<le> reads" and m: "m = NewMockUDPConn packets ip \<or> m = NewMockUDPConnNonBlocking packets ip"
  shows "mock_udp_packets reads bufSize ip m = packets \<and> b_stops (build_packets e packets) = [] \<and>
    map ed_EventID (b_out (build_packets e packets)) = map (\<lambda>i. 1 + int i) [0..<length ns] \<and>
    map ed_Data (b_out (build_packets e packets)) =
      map (\<lambda>n. addEquipmentHeader (concat (map (\<lambda>i. put_be32 (of_nat i) @ ramp i packetSize) [0..<n]) @ put_le32 END_WORD) e) ns \<and>
    GenerateLargeEvent n packetSize = GenerateCompleteEvent n packetSize \<and>
    CreateMultipleUDPPackets n packetSize @ [GenerateEndMarker] = GenerateCompleteEvent n packetSize"
proof -
  let ?segs = "map (fixture_segment packetSize) ns"
  have stream: "packets = event_stream ?segs" by (simp add: packets event_stream_def complete_event o_def)
  have ok: "\<forall>seg \<in> set ?segs. seg_ok 0 seg" and ne: "\<forall>seg \<in> set ?segs. \<forall>p \<in> set seg. \<not> is_end p"
    using fixture_segment_ok [OF assms(1)] by auto
  have "\<forall>p \<in> set packets. length p \<le> bufSize"
    using assms(1,2) by (auto simp: packets complete_event fixture_segment_def ramp_def)
  then have "mock_udp_packets reads bufSize ip m = packets"
    using mock_udp_from [of m bufSize ip reads] m assms(4) by (auto simp: NewMockUDPConn_def NewMockUDPConnNonBlocking_def)
  moreover have "GenerateLargeEvent n packetSize = GenerateCompleteEvent n packetSize"
    by (simp add: GenerateLargeEvent_def GenerateCompleteEvent_def)
  moreover have "CreateMultipleUDPPackets n packetSize @ [GenerateEndMarker] = GenerateCompleteEvent n packetSize"
    by (simp add: CreateMultipleUDPPackets_def GenerateCompleteEvent_def CreateUDPPacketWithSequence_def GenerateTestPacket_def)
  ultimately show ?thesis
    unfolding stream using build_packets_stream [OF ne, of e] ok emitted_all [OF ok, of e 1]
    by (simp add: fixture_segment_def o_def)
qed

theorem mock_socket_read_out_witness:
  "mock_udp_packets 5 8 ''192.168.1.1'' (NewMockUDPConnNonBlocking (GenerateCompleteEvent 2 4) ''192.168.1.1'') = GenerateCompleteEvent 2 4"
  using mock_socket_read_out [of 4 8 "GenerateCompleteEvent 2 4" "[2]" 5 "NewMockUDPConnNonBlocking (GenerateCompleteEvent 2 4) ''192.168.1.1''"
      "''192.168.1.1''" example_equipment 0]
  by (simp add: GenerateCompleteEvent_def numeral_2_eq_2)

subsection \<open>Pings and contexts\<close>

text \<open>The default of the mock is that every device answers.\<close>

lemma mock_pings:
  "pingDevices (mock_ping NewMockPinger) es"
  "pingDevices (mock_ping (SetPingSuccess ip success NewMockPinger)) es \<longleftrightarrow> success \<or> (\<forall>eq \<in> set es. eq_Enabled eq \<longrightarrow> eq_DeviceIP eq \<noteq> ip)"
  "pingDevices (mock_ping (SetPingError ip err NewMockPinger)) es \<longleftrightarrow> (\<forall>eq \<in> set es. eq_Enabled eq \<longrightarrow> eq_DeviceIP eq \<noteq> ip)"
  "pingDevices (mock_ping (SetRunError ip err NewMockPinger)) es \<longleftrightarrow> (\<forall>eq \<in> set es. eq_Enabled eq \<longrightarrow> eq_DeviceIP eq \<noteq> ip)"
  by (auto simp: pingDevices_iff mock_ping_def mock_NewPinger_def NewMockPingerFactory_def NewMockPinger_def SetPingSuccess_def SetPingError_def
      SetRunError_def GetPacketsRecv_def Let_def split: option.splits sum.splits)

lemma mock_file_bytes: "GetTotalBytesWritten m = length (concat (mc_WriteData m))"
proof -
  have "foldl (\<lambda>total data. total + length data) k xs = k + length (concat xs)" for k and xs :: "bytes list"
    by (induction xs arbitrary: k) simp_all
  then show ?thesis by (simp add: GetTotalBytesWritten_def)
qed

text \<open>What the event builder takes from a context.\<close>

definition gdc_context_of :: "ctx \<Rightarrow> gdc_context" where
  "gdc_context_of c =
     \<lparr>gx_runNumber = (case c ''runNumber'' of Some (CtxInt n) \<Rightarrow> Some n | _ \<Rightarrow> None),
      gx_writeOutput = (case c ''writeOutput'' of Some (CtxBool b) \<Rightarrow> b | _ \<Rightarrow> False),
      gx_decode = (case c ''decode'' of Some (CtxBool b) \<Rightarrow> b | _ \<Rightarrow> False),
      gx_decoderConfig = (case c ''decoderConfig'' of Some (CtxDecoderConfiguration d) \<Rightarrow> Some d | _ \<Rightarrow> None),
      gx_maxFilesize = (case c ''maxFilesize'' of Some (CtxInt n) \<Rightarrow> Some n | _ \<Rightarrow> None)\<rparr>"

lemmas context_builder_defs = CreateTestContext_def WithDecoderConfig_def WithChannelSizes_def WithDecoderWorkers_def WithDecode_def WithWriteOutput_def
  WithNGDCs_def WithMaxFilesize_def WithExperiment_def WithGDCConfiguration_def WithRunNumber_def gdc_NewMockContextBuilder_def WithValue_def

text \<open>The context of the unit tests: a run of one GDC that writes raw files of at most a gigabyte and does not decode.\<close>

lemma gdc_context_of_test:
  "gdc_context_of (CreateTestContext gdcConfig runNumber) =
     \<lparr>gx_runNumber = Some runNumber, gx_writeOutput = True, gx_decode = False,
      gx_decoderConfig = Some (zero_decoder_config\<lparr>dec_TrgCode2 := 1\<rparr>), gx_maxFilesize = Some 1000000000\<rparr>"
  by (simp add: gdc_context_of_def context_builder_defs)

end
