(* ===== verification/Test_Harness.thy ===== *)
theory Test_Harness
  imports Api_Server Check_Flow
begin

text \<open>
  The helpers of the integration tests around the processes, \<open>src/integration_tests/testhelpers\<close>: waiting for a process, reading back what
  the API has stored, preparing the tables and the configuration files, and the dummy GDC that records the numbers of the events it is sent.

  The loops that poll until a deadline are functions of what the clock says and the process answers, turn by turn; \<open>None\<close> is a loop that has
  not ended. A check of a test that fails is \<open>None\<close> too. Starting processes and containers is not modelled.
\<close>

section \<open>Definitions\<close>

subsection \<open>Calls and loops (ldc.go, gdc.go, api.go, centrifuge.go)\<close>

fun poll :: "int \<Rightarrow> ('a \<Rightarrow> 'r option) \<Rightarrow> 'r \<Rightarrow> (int \<times> 'a) list \<Rightarrow> 'r option" where
  "poll deadline done timeout [] = None"
| "poll deadline done timeout ((now, answer) # turns) =
     (if now < deadline then case done answer of Some r \<Rightarrow> Some r | None \<Rightarrow> poll deadline done timeout turns else Some timeout)"

text \<open>A call through the client that the helper holds: without a client there is no call.\<close>

definition rpc_helper :: "string \<Rightarrow> 'a result option \<Rightarrow> 'a result" where
  "rpc_helper method answer =
     (case answer of
        None \<Rightarrow> Inl ''ConnectRPC client not connected''
      | Some (Inl err) \<Rightarrow> Inl (method @ '' failed: '' @ err)
      | Some (Inr message) \<Rightarrow> Inr message)"

definition helper_GetState :: "string result option \<Rightarrow> string result" where
  "helper_GetState = rpc_helper ''GetState''"

definition WaitForState :: "string \<Rightarrow> string \<Rightarrow> int \<Rightarrow> (int \<times> string result option) list \<Rightarrow> string option option" where
  "WaitForState process expectedState deadline =
     poll deadline (\<lambda>answer. if helper_GetState answer = Inr expectedState then Some None else None)
       (Some (process @ '' did not reach state '' @ expectedState @ '' within timeout''))"

text \<open>The LDC's helper also waits until the state is \<open>RUNNING\<close>, the GDC's does not.\<close>

definition ldc_helper_StartRun :: "string result option \<Rightarrow> int \<Rightarrow> (int \<times> string result option) list \<Rightarrow> string option option" where
  "ldc_helper_StartRun answer deadline turns =
     (case rpc_helper ''StartRun'' answer of
        Inl err \<Rightarrow> Some (Some err)
      | Inr _ \<Rightarrow> WaitForState ''LDC'' ''RUNNING'' deadline turns)"

definition gdc_helper_StartRun :: "string result option \<Rightarrow> string option" where
  "gdc_helper_StartRun answer = (case rpc_helper ''StartRun'' answer of Inl err \<Rightarrow> Some err | Inr _ \<Rightarrow> None)"

definition helper_StopRun :: "string result option \<Rightarrow> string option" where
  "helper_StopRun answer = (case rpc_helper ''StopRun'' answer of Inl err \<Rightarrow> Some err | Inr _ \<Rightarrow> None)"

text \<open>The answer of \<open>GetRunStatistics\<close> is the events, the bytes and the errors.\<close>

definition helper_GetStatistics :: "(int \<times> int \<times> int) result option \<Rightarrow> (int \<times> int \<times> int) result" where
  "helper_GetStatistics = rpc_helper ''GetRunStatistics''"

definition helper_PingDevices :: "bool result option \<Rightarrow> bool result" where
  "helper_PingDevices = rpc_helper ''PingDevices''"

definition api_helper_GetRunNumber :: "int result option \<Rightarrow> int result" where
  "api_helper_GetRunNumber = rpc_helper ''GetRunNumber''"

text \<open>The calls of the API's helper: the answer's fields \<open>success\<close> and \<open>message\<close> are only logged.\<close>

definition api_helper_call :: "string \<Rightarrow> (bool \<times> string) result option \<Rightarrow> string option" where
  "api_helper_call method answer = (case rpc_helper method answer of Inl err \<Rightarrow> Some err | Inr _ \<Rightarrow> None)"

definition isConnectionRefused :: "string \<Rightarrow> bool" where
  "isConnectionRefused err \<longleftrightarrow> err = ''connection refused'' \<or> has_infix err ''connect: connection refused''"

definition waitForServerReady :: "string \<Rightarrow> string \<Rightarrow> int \<Rightarrow> (int \<times> string option) list \<Rightarrow> string option option" where
  "waitForServerReady server target deadline =
     poll deadline (\<lambda>err. case err of
         None \<Rightarrow> Some None
       | Some e \<Rightarrow> if isConnectionRefused e then None else Some (Some (''unexpected error: '' @ e)))
       (Some (server @ '' at '' @ target @ '' not ready within timeout''))"

definition WaitForProcessedEvents :: "int \<Rightarrow> int \<Rightarrow> (int \<times> (int \<times> int \<times> int) result option) list \<Rightarrow> string option option" where
  "WaitForProcessedEvents minEvents deadline =
     poll deadline (\<lambda>answer. case helper_GetStatistics answer of Inl _ \<Rightarrow> None | Inr (events, _) \<Rightarrow> if minEvents \<le> events then Some None else None)
       (Some (''LDC did not process '' @ show_int minEvents @ '' events within timeout''))"

definition waitForTransitionIdle :: "int \<Rightarrow> (int \<times> string result) list \<Rightarrow> string option option" where
  "waitForTransitionIdle deadline =
     poll deadline (\<lambda>status. case status of
         Inl err \<Rightarrow> Some (Some (''GetRunTransitionStatus failed: '' @ err))
       | Inr state \<Rightarrow> if state = ''idle'' \<or> state = ''error'' then Some None else None)
       (Some ''transition did not complete within timeout'')"

definition api_helper_StopRun :: "(bool \<times> string) result option \<Rightarrow> int \<Rightarrow> (int \<times> string result) list \<Rightarrow> string option option" where
  "api_helper_StopRun answer deadline turns =
     (case api_helper_call ''StopRun'' answer of Some err \<Rightarrow> Some (Some err) | None \<Rightarrow> waitForTransitionIdle deadline turns)"

definition last_message :: "(Message \<Rightarrow> bool) \<Rightarrow> Message list \<Rightarrow> Message option" where
  "last_message P messages = find P (rev messages)"

definition WaitForErrorMessage :: "int \<Rightarrow> (int \<times> Message list) list \<Rightarrow> Message result option" where
  "WaitForErrorMessage deadline =
     poll deadline (\<lambda>messages. map_option Inr (last_message (\<lambda>m. ms_Type m = MessageError) messages))
       (Inl ''no error message received within timeout'')"

definition WaitForStopProcessesMessage :: "int \<Rightarrow> (int \<times> Message list) list \<Rightarrow> Message result option" where
  "WaitForStopProcessesMessage deadline =
     poll deadline (\<lambda>messages. map_option Inr (last_message (\<lambda>m. ms_Type m = MessageError \<and> ms_StopProcesses m) messages))
       (Inl ''no stop_processes error message received within timeout'')"

subsection \<open>The dummy GDC (TrackingGDCListener)\<close>

record TrackingGDCListener =
  tg_eventIDs :: "int list"
  tg_connections :: "nat list"
  tg_closed :: bool

definition tracking_init :: TrackingGDCListener where
  "tracking_init = \<lparr>tg_eventIDs = [], tg_connections = [], tg_closed = False\<rparr>"

definition track_accept :: "nat \<Rightarrow> TrackingGDCListener \<Rightarrow> TrackingGDCListener" where
  "track_accept c t = (if tg_closed t then t else t\<lparr>tg_connections := tg_connections t @ [c]\<rparr>)"

text \<open>
  One read of a connection: at most one number, that of the first sub-event in it. The connections share one buffer, so this holds only when no
  two of them read at the same time.
\<close>

definition track_read :: "bytes \<Rightarrow> TrackingGDCListener \<Rightarrow> TrackingGDCListener" where
  "track_read chunk t = (if 28 \<le> length chunk then t\<lparr>tg_eventIDs := tg_eventIDs t @ [uint (le32_at chunk 24)]\<rparr> else t)"

definition track_end :: "nat \<Rightarrow> TrackingGDCListener \<Rightarrow> TrackingGDCListener" where
  "track_end c t = t\<lparr>tg_connections := remove1 c (tg_connections t)\<rparr>"

definition track_Close :: "TrackingGDCListener \<Rightarrow> TrackingGDCListener" where
  "track_Close t = t\<lparr>tg_closed := True, tg_connections := []\<rparr>"

subsection \<open>Equipments of a test (ldc.go)\<close>

record EquipmentConfig =
  ec_LDCID :: int
  ec_EquipmentIDs :: "int list"

definition of_ldc :: "int \<Rightarrow> db_Equipment \<Rightarrow> bool" where
  "of_ldc l e \<longleftrightarrow> nvalid (er_Ldcid e) \<and> nval (er_Ldcid e) = l"

definition set_enabled :: "bool \<Rightarrow> (db_Equipment \<Rightarrow> bool) \<Rightarrow> db_Equipment list \<Rightarrow> db_Equipment list" where
  "set_enabled b P = map (\<lambda>e. if P e then e\<lparr>er_Enabled := SqlNull b True\<rparr> else e)"

definition test_equipment :: "int \<Rightarrow> int \<Rightarrow> db_Equipment" where
  "test_equipment l i = \<lparr>er_ID = i, er_Type = SqlNull 22 True, er_DeviceIp = SqlNull ''127.0.0.1'' True, er_HostIp = SqlNull ''127.0.0.1'' True,
     er_HostPort = SqlNull (16006 + i) True, er_Enabled = SqlNull True True, er_Ldcid = SqlNull l True\<rparr>"

fun ensure_equipments :: "int \<Rightarrow> int list \<Rightarrow> db_Equipment list \<Rightarrow> db_Equipment list option" where
  "ensure_equipments l [] es = Some es"
| "ensure_equipments l (i # is) es =
     (if \<exists>e \<in> set es. of_ldc l e \<and> er_ID e = i then ensure_equipments l is es
      else if \<exists>e \<in> set es. er_ID e = i then None
      else ensure_equipments l is (es @ [test_equipment l i]))"

definition configure_ldc :: "EquipmentConfig \<Rightarrow> db_Equipment list \<Rightarrow> db_Equipment list option" where
  "configure_ldc c es =
     (case ensure_equipments (ec_LDCID c) (ec_EquipmentIDs c) es of
        None \<Rightarrow> None
      | Some es1 \<Rightarrow>
          if ec_EquipmentIDs c = [] then Some es1
          else Some (foldl (\<lambda>es i. set_enabled True (\<lambda>e. of_ldc (ec_LDCID c) e \<and> er_ID e = i) es)
                 (set_enabled False (of_ldc (ec_LDCID c)) es1) (ec_EquipmentIDs c)))"

fun configure_equipments :: "EquipmentConfig list \<Rightarrow> db_Equipment list \<Rightarrow> db_Equipment list option" where
  "configure_equipments [] es = Some es"
| "configure_equipments (c # cs) es = Option.bind (configure_ldc c es) (configure_equipments cs)"

subsection \<open>What was stored of a run (database.go)\<close>

record RunRecord =
  rr_ID :: int
  rr_Start :: "int option"
  rr_Stop :: "int option"

record ComponentStats =
  cs_ID :: int
  cs_Events :: int
  cs_Bytes :: int
  cs_Errors :: int

record TestRunStatistics =
  ts_Run :: RunRecord
  ts_LDCStats :: "int \<rightharpoonup> ComponentStats"
  ts_GDCStats :: "int \<rightharpoonup> ComponentStats"

definition null_option :: "'a sql_null \<Rightarrow> 'a option" where
  "null_option v = (if nvalid v then Some (nval v) else None)"

definition GetRunRecord :: "database \<Rightarrow> int \<Rightarrow> RunRecord option" where
  "GetRunRecord db runID =
     map_option (\<lambda>r. \<lparr>rr_ID = ru_ID r, rr_Start = null_option (ru_Start r), rr_Stop = null_option (ru_Stop r)\<rparr>)
       (find (\<lambda>r. ru_ID r = runID) (db_runs db))"

definition zero_stats :: ComponentStats where
  "zero_stats = \<lparr>cs_ID = 0, cs_Events = 0, cs_Bytes = 0, cs_Errors = 0\<rparr>"

text \<open>One query: the rows of the run whose column of the servers is set; a value that is null cannot be scanned.\<close>

fun scan_rows :: "(ComponentStats \<Rightarrow> int \<Rightarrow> ComponentStats) \<Rightarrow> (int \<times> int sql_null) list \<Rightarrow> (int \<rightharpoonup> ComponentStats) \<Rightarrow>
    (int \<rightharpoonup> ComponentStats) option" where
  "scan_rows store [] m = Some m"
| "scan_rows store ((i, v) # rows) m =
     (if nvalid v
      then scan_rows store rows (m(i \<mapsto> store ((case m i of Some s \<Rightarrow> s | None \<Rightarrow> zero_stats)\<lparr>cs_ID := i\<rparr>) (nval v)))
      else None)"

definition query_stats :: "(db_Stat \<Rightarrow> int sql_null) \<Rightarrow> int \<Rightarrow> db_Stat list \<Rightarrow> (int \<times> int sql_null) list" where
  "query_stats col runID rows = map (\<lambda>r. (nval (col r), st_Value r)) (filter (\<lambda>r. st_Run r = runID \<and> nvalid (col r)) rows)"

definition component_stats :: "(db_Stat \<Rightarrow> int sql_null) \<Rightarrow> int \<Rightarrow> database \<Rightarrow> (int \<rightharpoonup> ComponentStats) option" where
  "component_stats col runID db =
     Option.bind (scan_rows (\<lambda>s v. s\<lparr>cs_Events := v\<rparr>) (query_stats col runID (db_events db)) Map.empty) (\<lambda>m.
     Option.bind (scan_rows (\<lambda>s v. s\<lparr>cs_Bytes := v\<rparr>) (query_stats col runID (db_data db)) m) (\<lambda>m.
     scan_rows (\<lambda>s v. s\<lparr>cs_Errors := v\<rparr>) (query_stats col runID (db_errors db)) m))"

definition GetRunStatistics :: "database \<Rightarrow> int \<Rightarrow> TestRunStatistics option" where
  "GetRunStatistics db runID =
     Option.bind (GetRunRecord db runID) (\<lambda>run.
     Option.bind (component_stats st_LdcID runID db) (\<lambda>ldcs.
     Option.bind (component_stats st_GdcID runID db) (\<lambda>gdcs.
     Some \<lparr>ts_Run = run, ts_LDCStats = ldcs, ts_GDCStats = gdcs\<rparr>)))"

definition VerifyRunTimestamps :: "RunRecord \<Rightarrow> bool" where
  "VerifyRunTimestamps run \<longleftrightarrow> rr_Start run \<noteq> None \<and> rr_Stop run \<noteq> None"

definition VerifyRunTimestampsSetWithoutStats :: "database \<Rightarrow> int \<Rightarrow> bool" where
  "VerifyRunTimestampsSetWithoutStats db runID \<longleftrightarrow>
     (case GetRunRecord db runID of None \<Rightarrow> False | Some run \<Rightarrow> VerifyRunTimestamps run) \<and>
     filter (\<lambda>r. st_Run r = runID) (db_events db) = [] \<and> filter (\<lambda>r. st_Run r = runID) (db_data db) = [] \<and>
     filter (\<lambda>r. st_Run r = runID) (db_errors db) = []"

subsection \<open>SQL and configuration files as text (database.go, helpers.go)\<close>

fun split_on :: "char \<Rightarrow> string \<Rightarrow> string list" where
  "split_on c [] = [[]]"
| "split_on c (x # xs) =
     (if x = c then [] # split_on c xs else case split_on c xs of [] \<Rightarrow> [[x]] | s # ss \<Rightarrow> (x # s) # ss)"

fun strings_Join :: "string \<Rightarrow> string list \<Rightarrow> string" where
  "strings_Join sep [] = []"
| "strings_Join sep [s] = s"
| "strings_Join sep (s # ss) = s @ sep @ strings_Join sep ss"

definition newline :: char where
  "newline = CHR 0x0A"

definition clean_statement :: "string \<Rightarrow> string" where
  "clean_statement stmt =
     strings_Join '' '' (filter (\<lambda>l. l \<noteq> []) (filter (\<lambda>l. \<not> has_prefix l ''--'') (map TrimSpace (split_on newline stmt))))"

definition splitSQLStatements :: "string \<Rightarrow> string list" where
  "splitSQLStatements sqlContent =
     filter (\<lambda>s. s \<noteq> []) (map clean_statement (filter (\<lambda>s. s \<noteq> []) (map TrimSpace (split_on (CHR '';'') sqlContent))))"

definition fixSQLForTestDB :: "string \<Rightarrow> string" where
  "fixSQLForTestDB sqlContent =
     strings_Join [newline] (concat (map (\<lambda>line.
       let trimmed = TrimSpace line
       in if has_prefix trimmed ''CREATE DATABASE duck;'' \<or> has_prefix trimmed ''GRANT ALL ON duck.*'' then []
          else if has_prefix trimmed ''use duck;'' then [''USE duck_test;''] else [line])
       (split_on newline sqlContent)))"

text \<open>
  A file of statements run at the server: \<open>exec\<close> is the database server, which takes a statement to the tables after it or refuses it.
\<close>

fun execute_statements :: "(string \<Rightarrow> 'db \<Rightarrow> 'db option) \<Rightarrow> string list \<Rightarrow> 'db \<Rightarrow> 'db option" where
  "execute_statements exec [] db = Some db"
| "execute_statements exec (stmt # stmts) db =
     (let s = TrimSpace stmt
      in if s = [] \<or> has_prefix s ''--'' then execute_statements exec stmts db
         else Option.bind (exec s db) (execute_statements exec stmts))"

definition executeSQLFileDirect :: "(string \<Rightarrow> 'db \<Rightarrow> 'db option) \<Rightarrow> string \<Rightarrow> 'db \<Rightarrow> 'db option" where
  "executeSQLFileDirect exec content = execute_statements exec (splitSQLStatements (fixSQLForTestDB content))"

definition loadSchemaAndSeed :: "(string \<Rightarrow> 'db \<Rightarrow> 'db option) \<Rightarrow> string \<Rightarrow> string \<Rightarrow> 'db \<Rightarrow> 'db option" where
  "loadSchemaAndSeed exec schema seed db =
     Option.bind (execute_statements exec (splitSQLStatements (fixSQLForTestDB schema)) db)
       (execute_statements exec (splitSQLStatements seed))"

text \<open>The tables that are emptied; a truncated table numbers its rows from 1 again.\<close>

definition truncate_tables :: "database \<Rightarrow> database" where
  "truncate_tables db = db\<lparr>db_testDeviceParams := [], db_equipments := [], db_next_equipment := 1, db_ldcs := [], db_next_ldc := 1,
     db_gdcs := [], db_next_gdc := 1, db_decoderParams := [], db_duckParams := [], db_runs := [], db_next_run := 1, db_errors := [],
     db_events := [], db_data := [], db_rates := []\<rparr>"

definition ResetDatabase :: "(string \<Rightarrow> database \<Rightarrow> database option) \<Rightarrow> string \<Rightarrow> database \<Rightarrow> database option" where
  "ResetDatabase exec seed db = executeSQLFileDirect exec seed (truncate_tables db)"

definition before_colon :: "string \<Rightarrow> string" where
  "before_colon line = takeWhile (\<lambda>c. c \<noteq> CHR '':'') line"

definition config_line :: "string \<Rightarrow> string \<Rightarrow> string \<Rightarrow> string" where
  "config_line key v line = takeWhile (\<lambda>c. c = CHR '' '' \<or> c = CHR 0x09) (before_colon line) @ key @ '': '' @ v"

fun replace_line :: "(string \<Rightarrow> bool) \<Rightarrow> (string \<Rightarrow> string) \<Rightarrow> string list \<Rightarrow> string list option" where
  "replace_line P f [] = None"
| "replace_line P f (l # ls) = (if P l then Some (f l # ls) else map_option ((#) l) (replace_line P f ls))"

text \<open>The second loop of the function asks for a line that the first would have found.\<close>

definition ReplaceInConfig :: "string \<Rightarrow> string \<Rightarrow> string \<Rightarrow> string \<times> string option" where
  "ReplaceInConfig config key v =
     (let ls = split_on newline config
      in case replace_line (\<lambda>l. has_infix l (key @ '':'') \<and> has_infix l '':'') (config_line key v) ls of
           Some ls' \<Rightarrow> (strings_Join [newline] ls', None)
         | None \<Rightarrow>
             (case replace_line (\<lambda>l. has_infix l (key @ '':'')) (\<lambda>l. before_colon l @ '': '' @ v) ls of
                Some ls' \<Rightarrow> (strings_Join [newline] ls', None)
              | None \<Rightarrow> (config, Some (''key '' @ key @ '' not found in config''))))"

section \<open>Properties\<close>

subsection \<open>Waiting\<close>

text \<open>A loop that polls ends at the latest with the first look at the clock after the deadline, and before that with the first answer that decides.\<close>

lemma poll_ends: "\<exists>t \<in> set turns. deadline \<le> fst t \<Longrightarrow> poll deadline f timeout turns \<noteq> None"
  by (induction deadline f timeout turns rule: poll.induct) (auto split: option.splits)

lemma poll_result:
  "poll deadline f timeout turns =
     (let early = takeWhile (\<lambda>t. fst t < deadline) turns
      in case List.map_filter (f \<circ> snd) early of
           r # _ \<Rightarrow> Some r
         | [] \<Rightarrow> if length early < length turns then Some timeout else None)"
  by (induction deadline f timeout turns rule: poll.induct) (auto simp: Let_def List.map_filter_simps split: option.splits list.splits)

subsection \<open>The dummy GDC\<close>

text \<open>
  It records the numbers of the sub-events when every read returns just one of them; of sub-events that arrive in one read it records the
  first only.
\<close>

lemma tracks_single_events:
  assumes "\<forall>e \<in> set es. valid_event e"
  shows "tg_eventIDs (fold track_read es t) = tg_eventIDs t @ map (\<lambda>e. uint (le32_at e 24)) es"
  using assms by (induction es arbitrary: t) (auto simp: track_read_def valid_event_def)

lemma tracks_first_only:
  assumes "valid_event e"
  shows "tg_eventIDs (track_read (e @ rest) t) = tg_eventIDs t @ [uint (le32_at e 24)]"
  using assms by (simp add: track_read_def valid_event_def le32_at_append_left)

subsection \<open>The text helpers\<close>

lemma split_on_parts: "s \<in> set (split_on c t) \<Longrightarrow> c \<notin> set s"
  by (induction c t arbitrary: s rule: split_on.induct) (auto split: if_splits list.splits)

lemma split_on_subset: "s \<in> set (split_on c t) \<Longrightarrow> set s \<subseteq> set t"
  by (induction c t arbitrary: s rule: split_on.induct) (fastforce split: if_splits list.splits)+

lemma set_TrimSpace: "set (TrimSpace s) \<subseteq> set s"
  unfolding TrimSpace_def by (auto dest!: set_dropWhileD)

lemma set_strings_Join: "set (strings_Join sep ss) \<subseteq> set sep \<union> \<Union> (set ` set ss)"
  by (induction sep ss rule: strings_Join.induct) auto

text \<open>No statement is empty, and none holds a semicolon or a line break.\<close>

lemma statements_clean:
  assumes "s \<in> set (splitSQLStatements t)"
  shows "s \<noteq> [] \<and> CHR '';'' \<notin> set s \<and> newline \<notin> set s"
proof -
  obtain u where u: "u \<in> set (split_on (CHR '';'') t)" "s = clean_statement (TrimSpace u)" "s \<noteq> []"
    using assms by (auto simp: splitSQLStatements_def)
  have "CHR '';'' \<notin> set (TrimSpace u)" using split_on_parts [OF u(1)] set_TrimSpace [of u] by blast
  moreover have "set l \<subseteq> set (TrimSpace u)" if "l \<in> set (split_on newline (TrimSpace u))" for l
    by (rule split_on_subset [OF that])
  moreover have "set s \<subseteq> {CHR '' ''} \<union> \<Union> (set ` set (map TrimSpace (split_on newline (TrimSpace u))))"
    using set_strings_Join [of "'' ''"] unfolding u(2) clean_statement_def by fastforce
  moreover have "newline \<notin> set (TrimSpace l)" if "l \<in> set (split_on newline (TrimSpace u))" for l
    using split_on_parts [OF that] set_TrimSpace [of l] by blast
  ultimately show ?thesis using u(3) set_TrimSpace by (fastforce simp: newline_def)
qed

text \<open>
  The reset empties what the tests write but not the simulators' and the TOPI's parameters: whatever an earlier test stored there reaches the
  next one, unless the statements of the seed change it.
\<close>

lemma reset_keeps_parameters:
  assumes "ResetDatabase exec seed db = Some db'"
    and "\<And>s d d'. exec s d = Some d' \<Longrightarrow> db_simulatorParams d' = db_simulatorParams d \<and> db_topiParams d' = db_topiParams d"
  shows "db_simulatorParams db' = db_simulatorParams db \<and> db_topiParams db' = db_topiParams db"
proof -
  have "execute_statements exec ss d = Some d' \<Longrightarrow> db_simulatorParams d' = db_simulatorParams d \<and> db_topiParams d' = db_topiParams d" for ss d d'
  proof (induction ss arbitrary: d)
    case (Cons stmt stmts)
    then show ?case using assms(2) by (fastforce simp: Let_def bind_eq_Some_conv split: if_splits)
  qed simp
  from this [of "splitSQLStatements (fixSQLForTestDB seed)" "truncate_tables db" db'] assms(1) show ?thesis
    by (simp add: ResetDatabase_def executeSQLFileDirect_def truncate_tables_def)
qed

text \<open>A semicolon in a comment ends a statement: what follows it in the comment becomes SQL.\<close>

lemma comment_with_semicolon: "splitSQLStatements ''-- a; b'' = [''b'']"
  by (simp add: splitSQLStatements_def clean_statement_def TrimSpace_def is_space_def has_prefix_def newline_def)

text \<open>A key that ends another key is taken for it.\<close>

lemma replaces_the_wrong_key: "ReplaceInConfig ''grpc_port: 1'' ''port'' ''3'' = (''port: 3'', None)"
  by (simp add: ReplaceInConfig_def config_line_def before_colon_def has_prefix_def newline_def)

subsection \<open>The equipments of a test\<close>

lemma ensure_keeps:
  assumes "ensure_equipments l is es = Some es'"
  shows "\<exists>new. es' = es @ map (test_equipment l) new \<and> set new \<subseteq> set is"
  using assms
proof (induction l "is" es rule: ensure_equipments.induct)
  case (2 l i "is" es)
  show ?case
  proof (cases "\<exists>e \<in> set es. of_ldc l e \<and> er_ID e = i")
    case True
    with 2(3) have "ensure_equipments l is es = Some es'" by simp
    then show ?thesis using 2(1) [OF True] by fastforce
  next
    case False
    with 2(3) have new: "\<not> (\<exists>e \<in> set es. er_ID e = i)" "ensure_equipments l is (es @ [test_equipment l i]) = Some es'"
      by (auto split: if_splits)
    obtain new where "es' = (es @ [test_equipment l i]) @ map (test_equipment l) new" "set new \<subseteq> set is"
      using 2(2) [OF False new] by blast
    then show ?thesis by (intro exI [of _ "i # new"]) auto
  qed
qed simp

lemma of_ldc_simps [simp]:
  "of_ldc l (e\<lparr>er_Enabled := b\<rparr>) = of_ldc l e" "of_ldc l (test_equipment k i) \<longleftrightarrow> k = l" "er_ID (test_equipment k i) = i"
  by (auto simp: of_ldc_def test_equipment_def)

lemma set_enabled_rows:
  "foldl (\<lambda>es i. set_enabled True (\<lambda>e. of_ldc l e \<and> er_ID e = i) es) es is =
     set_enabled True (\<lambda>e. of_ldc l e \<and> er_ID e \<in> set is) es"
proof (induction "is" arbitrary: es)
  case Nil
  then show ?case by (simp add: set_enabled_def map_idI)
next
  case (Cons i "is")
  show ?case unfolding foldl_Cons Cons.IH by (auto simp: set_enabled_def)
qed

text \<open>
  After the set-up of one LDC exactly the equipments asked for are enabled at it, or all are as they were when none is named; the equipments of
  other LDCs are untouched.
\<close>

lemma configure_ldc_rows:
  assumes "configure_ldc c es = Some es'"
  shows "filter (\<lambda>e. \<not> of_ldc (ec_LDCID c) e) es' = filter (\<lambda>e. \<not> of_ldc (ec_LDCID c) e) es"
    and "ec_EquipmentIDs c \<noteq> [] \<Longrightarrow> e \<in> set es' \<Longrightarrow> of_ldc (ec_LDCID c) e \<Longrightarrow>
      er_Enabled e = SqlNull (er_ID e \<in> set (ec_EquipmentIDs c)) True"
    and "ec_EquipmentIDs c = [] \<Longrightarrow> es' = es"
proof -
  obtain es1 where es1: "ensure_equipments (ec_LDCID c) (ec_EquipmentIDs c) es = Some es1"
    using assms by (auto simp: configure_ldc_def split: option.splits)
  then obtain new where new: "es1 = es @ map (test_equipment (ec_LDCID c)) new" using ensure_keeps by blast
  have es': "es' = (if ec_EquipmentIDs c = [] then es1 else set_enabled True (\<lambda>e. of_ldc (ec_LDCID c) e \<and> er_ID e \<in> set (ec_EquipmentIDs c))
      (set_enabled False (of_ldc (ec_LDCID c)) es1))"
    using assms es1 by (auto simp: configure_ldc_def set_enabled_rows split: if_splits)
  have kept: "filter (\<lambda>e. \<not> of_ldc l e) (set_enabled b P es) = filter (\<lambda>e. \<not> of_ldc l e) es" if "\<And>e. P e \<Longrightarrow> of_ldc l e" for l b P es
    using that by (induction es) (auto simp: set_enabled_def)
  have "filter (\<lambda>e. \<not> of_ldc (ec_LDCID c) e) es1 = filter (\<lambda>e. \<not> of_ldc (ec_LDCID c) e) es"
    by (simp add: new filter_map o_def)
  then show "filter (\<lambda>e. \<not> of_ldc (ec_LDCID c) e) es' = filter (\<lambda>e. \<not> of_ldc (ec_LDCID c) e) es"
    by (simp add: es' kept [of "of_ldc (ec_LDCID c)" "ec_LDCID c"]
      kept [of "\<lambda>e. of_ldc (ec_LDCID c) e \<and> er_ID e \<in> set (ec_EquipmentIDs c)" "ec_LDCID c"])
  show "ec_EquipmentIDs c \<noteq> [] \<Longrightarrow> e \<in> set es' \<Longrightarrow> of_ldc (ec_LDCID c) e \<Longrightarrow>
      er_Enabled e = SqlNull (er_ID e \<in> set (ec_EquipmentIDs c)) True"
    by (auto simp: es' set_enabled_def split: if_splits)
  show "ec_EquipmentIDs c = [] \<Longrightarrow> es' = es" using es1 by (simp add: es')
qed

subsection \<open>Statistics\<close>

text \<open>The rows of servers with different numbers: every server gets the value of its row, the others keep what they had.\<close>

lemma scan_rows_distinct:
  assumes "distinct (map fst xs)" "\<forall>x \<in> set xs. nvalid (snd x)"
  shows "scan_rows store xs m = Some (\<lambda>i. case map_of xs i of None \<Rightarrow> m i
    | Some v \<Rightarrow> Some (store ((case m i of Some s \<Rightarrow> s | None \<Rightarrow> zero_stats)\<lparr>cs_ID := i\<rparr>) (nval v)))"
  using assms
proof (induction xs arbitrary: m)
  case (Cons x xs)
  obtain i v where x: "x = (i, v)" by (cases x)
  have "map_of xs i = None" using Cons.prems(1) by (simp add: x map_of_eq_None_iff)
  moreover have "distinct (map fst xs)" "\<forall>x \<in> set xs. nvalid (snd x)" "nvalid v" using Cons.prems by (simp_all add: x)
  ultimately show ?case by (auto simp: x Cons.IH fun_eq_iff split: option.splits)
qed simp

text \<open>What the three queries give when the tables hold one row for each of the servers that answered.\<close>

lemma component_stats_rows:
  assumes "distinct (map fst vs)"
    and "query_stats col run (db_events db) = map (\<lambda>(i, v). (i, SqlNull (fst v) True)) vs"
    and "query_stats col run (db_data db) = map (\<lambda>(i, v). (i, SqlNull (fst (snd v)) True)) vs"
    and "query_stats col run (db_errors db) = map (\<lambda>(i, v). (i, SqlNull 0 True)) vs"
  shows "component_stats col run db = Some (\<lambda>i. map_option (\<lambda>v. \<lparr>cs_ID = i, cs_Events = fst v, cs_Bytes = fst (snd v), cs_Errors = 0\<rparr>)
    (map_of (vs :: (int \<times> int \<times> int \<times> int) list) i))"
proof -
  have d: "distinct (map fst (map (\<lambda>(i, v). (i, f v)) vs))" for f :: "int \<times> int \<times> int \<Rightarrow> int sql_null"
    using assms(1) by (simp add: o_def case_prod_unfold)
  have m: "map_of (map (\<lambda>(i, v). (i, f v)) vs) i = map_option f (map_of vs i)" for f :: "int \<times> int \<times> int \<Rightarrow> int sql_null" and i
    by (induction vs) auto
  have scan: "scan_rows store (map (\<lambda>(i, v). (i, SqlNull (f v) True)) vs) m = Some (\<lambda>i. case map_of vs i of None \<Rightarrow> m i
      | Some v \<Rightarrow> Some (store ((case m i of Some s \<Rightarrow> s | None \<Rightarrow> zero_stats)\<lparr>cs_ID := i\<rparr>) (f v)))" for store m and f :: "int \<times> int \<times> int \<Rightarrow> int"
  proof -
    have "\<forall>x \<in> set (map (\<lambda>(i, v). (i, SqlNull (f v) True)) vs). nvalid (snd x)" by auto
    from scan_rows_distinct [OF d this, of store m] show ?thesis by (simp only: m case_map_option o_def sql_null.sel)
  qed
  show ?thesis
    by (auto simp: component_stats_def assms(2) assms(3) scan [of _ "\<lambda>v. 0", unfolded assms(4) [symmetric]] scan zero_stats_def fun_eq_iff split: option.splits)
qed

text \<open>What the servers of a list answered, as the numbers of the server, its address and its port are given.\<close>

definition answered :: "servers \<Rightarrow> (int \<times> string \<times> int) list \<Rightarrow> (int \<times> int \<times> int \<times> int) list" where
  "answered sv = List.map_filter (\<lambda>(i, ip, port). case sr_GetRunStatistics sv ip port of Inl _ \<Rightarrow> None | Inr v \<Rightarrow> Some (i, v))"

definition expected_stats :: "servers \<Rightarrow> (int \<times> string \<times> int) list \<Rightarrow> int \<rightharpoonup> ComponentStats" where
  "expected_stats sv xs i =
     (case map_of xs i of
        None \<Rightarrow> None
      | Some (ip, port) \<Rightarrow>
          (case sr_GetRunStatistics sv ip port of
             Inl _ \<Rightarrow> None
           | Inr (events, bytes, errors) \<Rightarrow> Some \<lparr>cs_ID = i, cs_Events = events, cs_Bytes = bytes, cs_Errors = 0\<rparr>))"

definition gdc_servers :: "GDCConfiguration list \<Rightarrow> (int \<times> string \<times> int) list" where
  "gdc_servers = map (\<lambda>g. (gdc_ID g, gdc_IP g, gdc_GRPCPort g))"

definition ldc_servers :: "LDCConfiguration list \<Rightarrow> (int \<times> string \<times> int) list" where
  "ldc_servers = map (\<lambda>l. (ldc_ID l, ldc_IP l, ldc_GRPCPort l))"

lemma answered_ids: "fst ` set (answered sv xs) \<subseteq> fst ` set xs"
  by (induction xs) (auto simp: answered_def List.map_filter_simps split: sum.splits option.splits)

lemma answered_distinct: "distinct (map fst xs) \<Longrightarrow> distinct (map fst (answered sv xs))"
proof (induction xs)
  case (Cons x xs)
  then show ?case using answered_ids [of sv xs] by (cases x) (auto simp: answered_def List.map_filter_simps split: sum.splits)
qed (simp add: answered_def List.map_filter_simps)

lemma expected_stats_answered:
  assumes "distinct (map fst xs)"
  shows "expected_stats sv xs i = map_option (\<lambda>v. \<lparr>cs_ID = i, cs_Events = fst v, cs_Bytes = fst (snd v), cs_Errors = 0\<rparr>) (map_of (answered sv xs) i)"
  using assms
proof (induction xs)
  case (Cons x xs)
  obtain j ip port where x: "x = (j, ip, port)" by (cases x)
  have j: "map_of (answered sv xs) j = None" using Cons.prems answered_ids [of sv xs] by (auto simp: x map_of_eq_None_iff)
  have step: "answered sv (x # xs) = (case sr_GetRunStatistics sv ip port of Inl _ \<Rightarrow> answered sv xs | Inr v \<Rightarrow> (j, v) # answered sv xs)"
    by (simp add: answered_def x List.map_filter_simps split: sum.split)
  show ?case using Cons j unfolding step by (auto simp: expected_stats_def x split: sum.splits)
qed (simp add: expected_stats_def answered_def List.map_filter_simps)

lemma query_stats_append: "query_stats col run (xs @ ys) = query_stats col run xs @ query_stats col run ys"
  by (simp add: query_stats_def)

lemma query_stats_other: "\<forall>r \<in> set rows. st_Run r \<noteq> run \<Longrightarrow> query_stats col run rows = []"
  by (simp add: query_stats_def filter_False)

lemma query_gdc_rows:
  "query_stats st_GdcID run (gdc_rows pick sv run gs) = map (\<lambda>(i, v). (i, SqlNull (pick v) True)) (answered sv (gdc_servers gs))"
  "query_stats st_LdcID run (gdc_rows pick sv run gs) = []"
  by (induction gs) (auto simp: query_stats_def gdc_rows_def answered_def gdc_servers_def gdc_stat_def List.map_filter_simps split: sum.splits)

lemma query_ldc_rows:
  "query_stats st_LdcID run (ldc_rows pick sv run ls) = map (\<lambda>(i, v). (i, SqlNull (pick v) True)) (answered sv (ldc_servers ls))"
  "query_stats st_GdcID run (ldc_rows pick sv run ls) = []"
  by (induction ls) (auto simp: query_stats_def ldc_rows_def answered_def ldc_servers_def ldc_stat_def List.map_filter_simps split: sum.splits)

lemmas query_rows = query_stats_append query_stats_other query_gdc_rows query_ldc_rows

text \<open>
  C37. What the API has stored of a run is what the tests read back: after the statistics of a run that had none are stored, the queries of
  the test helper return the record of the run and, for every enabled LDC and GDC that answered and for no other, the numbers of events and
  bytes it answered; the number of errors they return is zero whatever was answered.
\<close>

theorem statistics_read_back:
  assumes cfg: "ReadConfigurationFromDB (querier_of no_faults collate (w_db w)) = Inr cfg"
    and run: "GetRunRecord (w_db w) run = Some r"
    and new: "\<forall>s \<in> set (db_events (w_db w)) \<union> set (db_data (w_db w)) \<union> set (db_errors (w_db w)). st_Run s \<noteq> run"
    and gs: "distinct (map gdc_ID (EnabledGDCs (cfg_GDCs cfg)))" and ls: "distinct (map ldc_ID (EnabledLDCs (cfg_LDCs cfg)))"
  shows "GetRunStatistics (w_db (fst (updateRunStatistics no_faults collate sv run w))) run =
    Some \<lparr>ts_Run = r, ts_LDCStats = expected_stats sv (ldc_servers (EnabledLDCs (cfg_LDCs cfg))),
      ts_GDCStats = expected_stats sv (gdc_servers (EnabledGDCs (cfg_GDCs cfg)))\<rparr>"
proof -
  let ?gs = "EnabledGDCs (cfg_GDCs cfg)" and ?ls = "EnabledLDCs (cfg_LDCs cfg)"
  let ?db = "w_db (fst (updateRunStatistics no_faults collate sv run w))"
  have tables: "db_events ?db = db_events (w_db w) @ gdc_rows fst sv run ?gs @ ldc_rows fst sv run ?ls"
    "db_data ?db = db_data (w_db w) @ gdc_rows (\<lambda>v. fst (snd v)) sv run ?gs @ ldc_rows (\<lambda>v. fst (snd v)) sv run ?ls"
    "db_errors ?db = db_errors (w_db w) @ gdc_rows (\<lambda>v. 0) sv run ?gs @ ldc_rows (\<lambda>v. 0) sv run ?ls"
    using ldc_statistics [of sv run ?ls "fold (updateGDCStatistics no_faults sv run) ?gs w"] gdc_statistics [of sv run ?gs w]
    by (simp_all add: updateRunStatistics_def updateAllGDCStatistics_def updateAllLDCStatistics_def cfg)
  have ids: "distinct (map fst (gdc_servers ?gs))" "distinct (map fst (ldc_servers ?ls))"
    using gs ls by (simp_all add: gdc_servers_def ldc_servers_def o_def)
  have "component_stats st_GdcID run ?db = Some (expected_stats sv (gdc_servers ?gs))"
    using new by (subst component_stats_rows [OF answered_distinct [OF ids(1), of sv]])
      (simp_all add: tables query_rows expected_stats_answered [OF ids(1)] fun_eq_iff)
  moreover have "component_stats st_LdcID run ?db = Some (expected_stats sv (ldc_servers ?ls))"
    using new by (subst component_stats_rows [OF answered_distinct [OF ids(2), of sv]])
      (simp_all add: tables query_rows expected_stats_answered [OF ids(2)] fun_eq_iff)
  moreover have "GetRunRecord ?db run = Some r"
    using run updateRunStatistics_keeps_runs [of no_faults collate sv run w] by (simp add: GetRunRecord_def)
  ultimately show ?thesis by (simp add: GetRunStatistics_def)
qed

lemma example_servers_of:
  "\<exists>cfg. ReadConfigurationFromDB (querier_of no_faults (\<lambda>_. 0) example_db) = Inr cfg \<and>
     ldc_servers (EnabledLDCs (cfg_LDCs cfg)) = [(1, ''l'', 3)] \<and> gdc_servers (EnabledGDCs (cfg_GDCs cfg)) = [(1, ''g'', 1)]"
  by (simp add: ReadConfigurationFromDB_def querier_of_def getGDCs_def getLDCs_def getEquipments_def getRun_def
      getDuckParameters_def getDecoderParameters_def getTestDeviceParams_def sql_ListGDCs_def sql_ListLDCs_def
      sql_ListEquipments_def sql_GetLatestRun_def latest_run_def sql_GetDuckParams_def sql_GetDecoderParams_def
      sql_GetTestDeviceParams_def query_def no_faults_def first_row_def example_db_def gdc_of_row_def ldc_of_row_def
      EnabledLDCs_def EnabledGDCs_def ldc_servers_def gdc_servers_def)

theorem statistics_read_back_witness:
  "GetRunStatistics (w_db (fst (updateRunStatistics no_faults (\<lambda>_. 0)
     (example_servers\<lparr>sr_GetRunStatistics := \<lambda>ip _. if ip = ''l'' then Inr (10, 2000, 3) else Inl ''refused''\<rparr>) 7 example_world))) 7 =
   Some \<lparr>ts_Run = \<lparr>rr_ID = 7, rr_Start = None, rr_Stop = None\<rparr>,
     ts_LDCStats = [1 \<mapsto> \<lparr>cs_ID = 1, cs_Events = 10, cs_Bytes = 2000, cs_Errors = 0\<rparr>], ts_GDCStats = Map.empty\<rparr>"
proof -
  let ?sv = "example_servers\<lparr>sr_GetRunStatistics := \<lambda>ip _. if ip = ''l'' then Inr (10, 2000, 3) else Inl ''refused''\<rparr>"
  obtain cfg where cfg: "ReadConfigurationFromDB (querier_of no_faults (\<lambda>_. 0) (w_db example_world)) = Inr cfg"
    and ls: "ldc_servers (EnabledLDCs (cfg_LDCs cfg)) = [(1, ''l'', 3)]" and gs: "gdc_servers (EnabledGDCs (cfg_GDCs cfg)) = [(1, ''g'', 1)]"
    using example_servers_of by (auto simp: example_world_def)
  have ids: "distinct (map gdc_ID (EnabledGDCs (cfg_GDCs cfg)))" "distinct (map ldc_ID (EnabledLDCs (cfg_LDCs cfg)))"
    using ls gs by (auto simp: ldc_servers_def gdc_servers_def)
  have run: "GetRunRecord (w_db example_world) 7 = Some \<lparr>rr_ID = 7, rr_Start = None, rr_Stop = None\<rparr>"
    by (simp add: GetRunRecord_def example_world_def example_db_def null_option_def)
  have new: "\<forall>s \<in> set (db_events (w_db example_world)) \<union> set (db_data (w_db example_world)) \<union> set (db_errors (w_db example_world)). st_Run s \<noteq> 7"
    by (simp add: example_world_def example_db_def)
  show ?thesis
    using statistics_read_back [OF cfg run new ids, of ?sv] by (auto simp: ls gs expected_stats_def fun_eq_iff)
qed

end
