(* ===== verification/Spec2Isabelle.thy ===== *)
theory Spec2Isabelle
  imports Check_Flow Gdc_Accept Extract_Flow Decoder_Pool Api_Server Setup_Generator Test_Doubles Test_Harness
begin

text \<open>
  \<^bold>\<open>The DUCK data acquisition system\<close>

  DUCK reads out a detector: electronic equipments send UDP packets to LDCs (local data
  concentrators, \<open>src/ldcRPC\<close>), every LDC assembles the packets of its equipments into sub-events and
  sends them over TCP to GDCs (global data concentrators, \<open>src/gdcRPC\<close>), which assemble the sub-events
  of all LDCs into events, write them to files in the DATE format and hand them to a decoder. An
  API server (\<open>src/api\<close>) keeps the configuration in a database and starts and stops runs on all processes;
  \<open>src/pkg\<close> holds what the programs share. A device simulator (\<open>src/deviceSimulator\<close>) replaces the
  equipments in tests, and \<open>src/eventDump\<close> prints the files.

  \<^bold>\<open>Theories and sources\<close>

  \<^item> \<open>Duck_Prelude\<close>: Go's fixed-width words and byte slices, panics, maps with their unspecified iteration
    order, decimal and hexadecimal formatting; the locale \<open>finite_map\<close> and its interpretation.
  \<^item> \<open>Duck_Config\<close> (\<open>src/pkg/*Configuration.go\<close>, \<open>configuration.go\<close>): rows and structs of the configuration,
    reading it from the database, the retries. Every enabled equipment is with the LDC that owns it.
  \<^item> \<open>Date_Format\<close> (\<open>src/pkg/date.go\<close>, the two \<open>headers.go\<close>): headers; what the builders store, the parsers read.
  \<^item> \<open>Ring_Buffer\<close>, \<open>Ldc_Equipment\<close> (\<open>src/ldcRPC/ringBuffer.go\<close>, \<open>readEquipment.go\<close>, \<open>equipmentData.go\<close>): the readout
    of one equipment by two goroutines over a shared buffer, interleaved at every operation that the other can
    observe. It refines a builder on packets: no interleaving overwrites data that is in use.
  \<^item> \<open>Event_Assembly\<close>: what both event builders have in common, and the locale \<open>event_numbering\<close> with the
    theorem on the events completed for any interleaving of the sources; interpreted for the numbers of the
    LDC (\<open>Ldc_Builder\<close>) and of the GDC (\<open>Gdc_Builder\<close>).
  \<^item> \<open>Ldc_Builder\<close> (\<open>src/ldcRPC/ldc.go\<close>, \<open>gdcs.go\<close>, \<open>ping.go\<close>): sub-events, round robin over the GDCs, the pool of
    connections, pings.
  \<^item> \<open>Gdc_Stream\<close> (\<open>src/gdcRPC/ldcData.go\<close>): sub-events cut out of the TCP stream, independent of its chunks.
  \<^item> \<open>Gdc_Builder\<close> (\<open>src/gdcRPC/processEvents.go\<close>, \<open>io.go\<close>, \<open>binaryWriter.go\<close>, \<open>gdc.go\<close>): events, files and
    their rotation.
  \<^item> \<open>File_Closer\<close>, \<open>Decoder_Pool\<close> (\<open>src/gdcRPC/fileCloser.go\<close>, \<open>decoder.go\<close>): when decoded files are closed; workers, writers and file closers
    interleaved over all sub-runs. The closer's loop is its specification on message lists; files closed without a timeout are complete; a writer
    that is gone can block the GDC.
  \<^item> \<open>Duck_Logger\<close> (\<open>src/pkg/logger.go\<close>, \<open>states.go\<close>, \<open>metrics.go\<close>): messages, the forced stop, rates.
  \<^item> \<open>Run_Server\<close> (\<open>src/ldcRPC/main.go\<close>, \<open>src/gdcRPC/main.go\<close> and the goroutines of a run): the state machine of an
    LDC or GDC process as interleaved critical sections, with the goroutines that the \<open>WaitGroup\<close> of a run counts. Runs do not overlap; in every fair
    execution a stopped run ends when these goroutines return, and not before.
  \<^item> \<open>Api_Database\<close> (\<open>src/pkg/database/*.sql.go\<close>), \<open>Api_Handlers\<close> (the handlers of the configuration): tables,
    queries and handlers; the locale \<open>keyed_rows\<close>, interpreted on GDCs, LDCs and equipments, gives the round
    trips and the refinement of an abstract store of configurations (\<open>store_call\<close>) by the handlers.
  \<^item> \<open>Api_Control\<close> (\<open>src/api/runTransition.go\<close>, \<open>control.go\<close>, \<open>controlRoutines.go\<close>, \<open>runinfo.go\<close>, ...): starting and
    stopping runs on all servers, the table of runs under failing queries, statistics.
  \<^item> \<open>Api_Topi\<close> (\<open>src/api/apiHandlerTopi.go\<close>, \<open>apiHandlerAuth.go\<close>): the TOPI configuration; which answers
    depend on its secrets, and where the token is sent.
  \<^item> \<open>Event_Dump\<close> (\<open>src/eventDump/main.go\<close>): the walks over a raw data file agree with a printer on event trees.
  \<^item> \<open>Ldc_Extract\<close>, \<open>Extract_Flow\<close> (\<open>src/testDataBuilder/main.go\<close>, \<open>src/next100/extract_events.go\<close>): the tools that cut test data out of
    files; on the files of a run they give back what an LDC sent.
  \<^item> \<open>Binary_Reader\<close>, \<open>Check_Flow\<close> (\<open>src/integration_tests/testhelpers/binary_reader.go\<close>, \<open>data.go\<close>): the reader, the checks and the packet
    generators of the integration tests; the checks hold for the files of every run.
  \<^item> \<open>Test_Doubles\<close> (\<open>src/ldcRPC/testhelpers\<close>, \<open>src/gdcRPC/testhelpers\<close>): the fixtures and mocks of the unit tests; what they feed to the
    processes is what the processes get from the network, within the bounds stated. \<open>Test_Harness\<close>
    (\<open>src/integration_tests/testhelpers/ldc.go\<close>, \<open>gdc.go\<close>, \<open>api.go\<close>, \<open>database.go\<close>, ...): waiting for processes, reading back the statistics
    that the API stored, the text helpers. A loop that polls is a list of turns (the clock, the answer); it ends by \<open>poll_ends\<close>.
  \<^item> \<open>Sim_Replay\<close>, \<open>Sim_Generator\<close> (\<open>src/deviceSimulator\<close>): replaying a file reproduces the packets it was made of;
    a generated run is read out as it was meant; a deadlock of \<open>Stop\<close>.
  \<^item> \<open>Rate_Reader\<close> (\<open>src/pkg/centrifugal.go\<close>, \<open>src/rateReader\<close>, \<open>src/readLogs\<close>): the clients of the message server; the totals that
    \<open>rateReader\<close> writes, with its two goroutines interleaved at every read and write of a total.
  \<^item> \<open>Rpc_Routing\<close> (\<open>src/rpc/api/apiconnect\<close>, \<open>src/rpc/control/controlconnect\<close>, the routes of \<open>src/api/server.go\<close>): from the client's call to
    the method that serves it; the locale \<open>rpc_service\<close>, interpreted on both services.
  \<^item> \<open>Process_Start\<close> (\<open>src/pkg/configuration.go\<close>, the files \<open>prometheus.go\<close>, \<open>src/gdcRPC/decoder.go\<close> and the main functions): what a process
    needs to come up, and what it runs with.
  \<^item> \<open>Api_Server\<close> (\<open>src/api/server.go\<close>, \<open>apiHandler.go\<close>, \<open>sentry.go\<close>, \<open>topi.go\<close>): the API process around its handlers; what leaves it in an
    error report.
  \<^item> \<open>Setup_Generator\<close> (\<open>src/docker/e2e/setups\<close>): the generators of container set-ups; the locale \<open>daq_setup\<close> and its
    extension \<open>daq_network\<close>, interpreted on both.
  \<^item> \<open>Data_Flow\<close>, \<open>Gdc_Accept\<close> (\<open>acceptTCPConnections\<close>, \<open>ldcConnectionMonitor\<close> of \<open>src/gdcRPC/gdc.go\<close>, \<open>handleConnection\<close> of
    \<open>src/gdcRPC/ldcData.go\<close>) and this theory: the composition of LDC builder, connections and GDC builder, with the goroutines of the GDC
    between the network and its event builder interleaved in any order. Nothing that was read is lost, and all of it can still be delivered.

  \<^bold>\<open>Conventions\<close>

  State is a record, an operation a function that returns the new state; errors are values of a sum or
  option type, a run-time panic is \<open>Panic\<close>. What the program gets from outside (datagrams, results of writes, the
  clock, database failures, random numbers, answers of other processes) is an argument. Goroutines are step
  relations (\<open>reader_step\<close>, \<open>server_step\<close>, \<open>accept_step\<close>, \<open>pool_step\<close>, \<open>gen_step\<close>, \<open>rate_step\<close>) or lists of receipts in any order. Go's \<open>int\<close> is \<open>int\<close>
  or \<open>nat\<close>, because the counters it holds grow by one per event or byte; \<open>uint32\<close> is a word, and the
  theorems that need a number to fit say so.

  \<^bold>\<open>Fuel\<close>

  Loops that advance by a size read from a file have fuel, and \<open>None\<close> is a loop that has not ended: the walks of
  \<open>Event_Dump\<close>, \<open>Ldc_Extract\<close> and \<open>Sim_Replay\<close>, \<open>replayLoop\<close> and \<open>generateLoop\<close>. More fuel than the length of the file is enough for
  well-formed files, since every step consumes at least one byte; the theorems state that the loops return.
  \<open>zero_size_never_ends\<close> shows the inputs for which no fuel is enough.

  \<^bold>\<open>Not modelled\<close>

  The messages that protoc generates, the generated mock of the database and the helpers that start processes and containers for
  tests, build and deployment, the web interface. The decoder library and HDF5 writers, \<open>url.Parse\<close>, the ping library, the database server, the message server, the
  libraries of Sentry, Prometheus and RabbitMQ and the YAML and JSON decoders are parameters. Floating-point rates are rational
  numbers. The router of \<open>net/http\<close> is modelled from its documentation. The types of columns are checked where a seed is run; elsewhere a value that
  the database refuses is a failing query. Events handed to Sentry's transport count as sent. The raw files are what was sent to their writers'
  channels; what a writer still drops at a stop is shown apart (\<open>stop_drops_queued_events\<close>). A panic of the decoding library is not represented.
\<close>

section \<open>From the equipments to the files\<close>

text \<open>
  C1. From the equipments to the files. Let every LDC of \<open>L\<close> receive the data of its equipments in order, and send
  its sub-events round robin to \<open>n\<close> GDCs. At GDC \<open>g\<close>, let the goroutines that accept and read the connections run in any
  interleaving, up to a state in which each LDC has a connection on which the bytes for this GDC were read, in any chunks, and all that was read
  is with the event builder. Then no connection asks for a stop, and the
  events in the files of the GDC are as many as the slowest LDC has sent it; the \<open>j\<close>-th has the number
  \<open>1 + g + j * n\<close> and consists of one sub-event of every LDC, with this number and the data that
  each of the LDC's equipments sent in place \<open>g + j * n\<close>.
\<close>

theorem equipment_data_reach_the_files:
  fixes n g :: nat and L :: "int set" and cfg :: "int \<Rightarrow> LDCConfiguration"
  assumes L: "finite L" "L \<noteq> {}" "\<forall>l \<in> L. 0 \<le> l \<and> l < 2 ^ 32 \<and> ldc_ID (cfg l) = l" and g: "g < n"
    and cx: "\<forall>l \<in> L. cx_runNumber (cx l) = Some run \<and> cx_nEnabledEquipments (cx l) = Some (int (card (S l))) \<and>
      finite (S l) \<and> S l \<noteq> {}"
    and xs: "\<forall>l \<in> L. (\<forall>x \<in> set (xs l). \<not> ed_Error (fst x)) \<and> in_order (\<lambda>j. 1 + int j) (S l) (d l) (map message_of (xs l))"
    and st: "\<forall>l \<in> L. readSubEvents (ord l) (cx l) (cfg l) n (xs l) sub_builder_init = Ok (st l)"
    and small: "\<forall>l \<in> L. length (sb_sent (st l)) < 2 ^ 32 - 1 \<and> (\<forall>(i, b) \<in> set (sb_sent (st l)). length b < 2 ^ 32)"
    and cap: "\<forall>k. k \<le> aq_cap p k" and nGDCs: "aq_nGDCs p = Some (int n)"
    and accepted: "accept_run p (accept_start p sv) s" "inj_on addr L" "dom (ac_handlers s) = addr ` L"
    and read: "\<forall>l \<in> L. \<exists>h. ac_handlers s (addr l) = Some h \<and> concat (hn_chunks h) = concat (sub_events_for g (st l)) \<and>
      hn_pending h = [] \<and> hn_conn h = conn l"
    and delivered: "ac_data s = []"
    and gdc: "gx_writeOutput gx" "gx_maxFilesize gx = Some maxsize" "0 \<le> maxsize" "countEnabledLDCs ldcs = card L"
  shows "(\<forall>l \<in> L. lc_stops (conn l) = []) \<and>
    (\<exists>gb. readData gord gx gdcID ldcs (ac_received s) = Some gb \<and>
      length (concat (gb_binary gb)) = Min ((\<lambda>l. length (sub_events_for g (st l))) ` L) \<and>
      (\<forall>j < length (concat (gb_binary gb)). \<exists>now ls. gm_invar ls \<and> dom (gm_get ls) = L \<and>
         concat (gb_binary gb) ! j = addGDCHeader gord now ls (1 + int g + int j * int n) gdcID (run_of gx) \<and>
         (\<forall>l \<in> L. \<exists>b. gm_get ls l = Some b \<and> sub_event_of (ord l) (S l) (d l) (cfg l) run (g + j * n) b)))"
proof -
  let ?cs = "\<lambda>l. hn_chunks (the (ac_handlers s (addr l)))"
  have inv: "accept_inv p s" by (rule accept_inv_run [OF accepted(1) accept_inv_start])
  have conn: "\<forall>l \<in> L. concat (?cs l) = concat (sub_events_for g (st l)) \<and>
      handle_chunks (aq_cap p) (Some (int n)) (?cs l) conn_init = Ok (conn l)"
  proof
    fix l assume "l \<in> L"
    then obtain h where h: "ac_handlers s (addr l) = Some h" "concat (hn_chunks h) = concat (sub_events_for g (st l))" "hn_conn h = conn l"
      using read by blast
    with inv nGDCs show "concat (?cs l) = concat (sub_events_for g (st l)) \<and>
        handle_chunks (aq_cap p) (Some (int n)) (?cs l) conn_init = Ok (conn l)"
      by (auto simp: accept_inv_def data_inv_def handler_ok_def)
  qed
  have "\<forall>l \<in> L. \<forall>x \<in> set (lc_out (conn l)). ld_ldcID x = l"
  proof
    fix l assume l: "l \<in> L"
    have "concat (?cs l) = concat (sub_events_for g (st l))" "handle_chunks (aq_cap p) (Some (int n)) (?cs l) conn_init = Ok (conn l)"
      using bspec [OF conn l] by simp_all
    from run_connections(1) [OF L g cx xs st small cap this l] show "\<forall>x \<in> set (lc_out (conn l)). ld_ldcID x = l" by auto
  qed
  then have "merges L conn (ac_received s)"
    using read delivered by (intro drained_merges [OF inv accepted(2,3)]) blast+
  note stage = run_stage [OF L g cx xs st small cap conn this gdc]
  then show ?thesis by meson
qed

definition example_sub_event :: bytes where
  "example_sub_event = addLDCHeader (\<lambda>m. m) 0 [(5, [1])] 1 example_ldc 100"

text \<open>One LDC with one equipment that has sent one datum, and the first of two GDCs: accepted, read, sent, received.\<close>

theorem equipment_data_reach_the_files_witness:
  "\<exists>s gb. accept_exec example_params [AcceptReturns (Inr 7), SendOpen, ReadChunk 7 example_sub_event, SendData 7, TakeData 0]
       (accept_start example_params running_gdc) = Some s \<and>
     readData (\<lambda>m. m) example_gdc_context 1 [example_ldc] (ac_received s) = Some gb \<and> length (concat (gb_binary gb)) = 1"
proof -
  let ?cx = "\<lparr>cx_runNumber = Some 100, cx_nEnabledEquipments = Some 1\<rparr>"
  let ?xs = "[example_data 1 5 1]" and ?d = "\<lambda>(l :: int) (s :: int) (j :: nat). [1 :: byte]"
  let ?b = "example_sub_event" and ?p = "example_params"
  obtain st where st: "readSubEvents (\<lambda>m. m) ?cx example_ldc 2 ?xs sub_builder_init = Ok st" "sb_sent st = [(0, ?b)]"
    by (simp add: readSubEvents_recv_def mountSubEvent_def sendDataToGDC_def sub_builder_init_def example_data_def Let_def
        gm_empty_def gm_get_def gm_set_def gm_get_or_def gm_len_def example_sub_event_def)
  have es: "sub_events_for 0 st = [?b]" by (simp add: sub_events_for_def st(2))
  have len: "length ?b < 2 ^ 32" "?b \<noteq> []" "length ?b \<le> 9600" by (simp_all add: example_sub_event_def flip: length_greater_0_conv)
  have v: "valid_event ?b" using addLDCHeader_valid(1) len(1) unfolding example_sub_event_def by blast
  have "example_event 1 \<noteq> []" using example_event_valid [of 1] by (auto simp: valid_event_def)
  from handle_chunks_whole [of "\<lambda>k. k" "[?b]" "[?b]" "[]", OF _ _ _ example_event_valid [of 1] append_Nil [symmetric] this, of 2]
  obtain c where "handle_chunks (\<lambda>k. k) (Some 2) [?b] conn_init = Ok c" "lc_out c = [ldc_data_of ?b]" "lc_stops c = []"
    using v by (auto simp: in_sequence_def)
  then have c: "processData (\<lambda>k. k) (Some 2) ?b conn_init = Ok c" "lc_effects c = [SendOn (ldc_data_of ?b)]"
    using only_sends [of "lc_effects c"] by (cases "processData (\<lambda>k. k) (Some 2) ?b conn_init"; simp)+
  define h where "h = new_handler\<lparr>hn_chunks := [?b], hn_conn := c\<rparr>"
  obtain s where s: "accept_exec ?p [AcceptReturns (Inr 7), SendOpen, ReadChunk 7 ?b, SendData 7, TakeData 0] (accept_start ?p running_gdc) = Some s"
      "ac_handlers s = [7 \<mapsto> h]" "ac_data s = []"
    using c len
    by (simp add: accept_step.simps accept_start_def acceptTCPConnections_def example_params_def running_gdc_def conn_room_def
        read_chunk_def set_handler_def new_handler_def h_def conn_init_def)
  have id: "ldc_ID example_ldc = 3" by (simp add: example_ldc_def)
  have "in_order (\<lambda>j. 1 + int j) {5} (?d 3) (map message_of ?xs)"
    by (auto simp: in_order_def of_source_def message_of_def example_data_def)
  moreover have "countEnabledLDCs [example_ldc] = 1"
    by (simp add: countEnabledLDCs_def example_ldc_def example_equipment_def)
  moreover have "\<forall>k. k \<le> aq_cap ?p k" "aq_nGDCs ?p = Some (int 2)" by (simp_all add: example_params_def)
  ultimately show ?thesis
    using equipment_data_reach_the_files [of "{3}" "\<lambda>_. example_ldc" 0 2 "\<lambda>_. ?cx" 100 "\<lambda>_. {5}" "\<lambda>_. ?xs" ?d "\<lambda>_ m. m"
        "\<lambda>_. st" ?p running_gdc s "\<lambda>_. 7" "\<lambda>_. c" example_gdc_context 100 "[example_ldc]" "\<lambda>m. m" 1]
      st es s len(1) id accept_exec_run [OF s(1)]
    by (auto simp: example_data_def example_gdc_context_def h_def new_handler_def)
qed

end
